(* ===== verification/Prelude.thy ===== *)
theory Prelude
  imports Main "HOL-Library.Word" "HOL-Library.Multiset" "HOL-Library.Log_Nat"
begin

text \<open>
  Vocabulary shared by every component: Go's byte slices and strings, its error values, the
  byte readers of \<open>bufio\<close> and \<open>encoding/binary\<close>, and the generic lemmas the component
  proofs use.  A \<open>[]byte\<close> is a list of 8-bit words, a Go \<open>string\<close> is a list of \<open>char\<close>
  (both are byte sequences in Go; \<open>str_bytes\<close> and \<open>bytes_str\<close> are the conversions).
\<close>

named_theorems wire "a reader applied to what the matching writer produced"

type_synonym byte = "8 word"
type_synonym bytes = "byte list"
type_synonym u8 = "8 word"
type_synonym u16 = "16 word"
type_synonym u32 = "32 word"

section \<open>Errors\<close>

text \<open>
  Go error values: the two sentinels of package \<open>io\<close> the code can meet, a connection reset
  (\<open>net.OpError\<close> with \<open>ECONNRESET\<close>), and errors known by their text only.  \<open>err_text\<close> is the method \<open>Error()\<close>.
\<close>

datatype goerr = EOF | UnexpectedEOF | ConnReset | ErrMsg string

fun err_text :: "goerr \<Rightarrow> string" where
  "err_text EOF = ''EOF''"
| "err_text UnexpectedEOF = ''unexpected EOF''"
| "err_text ConnReset = ''connection reset by peer''"
| "err_text (ErrMsg m) = m"

type_synonym 'a result = "goerr + 'a"

text \<open>An operation that may panic (an index out of range, a store into a nil map).\<close>

datatype 'a outcome = Returns 'a | Panics

section \<open>Strings and bytes\<close>

definition byte_of :: "char \<Rightarrow> byte" where
  "byte_of c = of_nat (of_char c)"

definition char_of_byte :: "byte \<Rightarrow> char" where
  "char_of_byte b = char_of (unat b)"

definition str_bytes :: "string \<Rightarrow> bytes" where
  "str_bytes s = map byte_of s"

definition bytes_str :: "bytes \<Rightarrow> string" where
  "bytes_str bs = map char_of_byte bs"

abbreviation newline :: byte where
  "newline \<equiv> 10"

abbreviation NL :: char where
  "NL \<equiv> CHR 0x0A"

lemma unat_byte_of [simp]: "unat (byte_of c) = of_char c"
  by (simp add: byte_of_def unat_of_nat take_bit_eq_mod)

lemma char_of_byte_of [simp]: "char_of_byte (byte_of c) = c"
  by (simp add: char_of_byte_def)

lemma byte_of_char_of_byte [simp]: "byte_of (char_of_byte b) = b"
proof -
  have "unat b mod 256 = unat b"
    using unsigned_less[of b, where ?'a = nat] by simp
  then show ?thesis
    by (simp add: byte_of_def char_of_byte_def)
qed

lemma byte_of_eq_iff [simp]: "byte_of c = byte_of d \<longleftrightarrow> c = d"
  by (metis char_of_byte_of)

lemma bytes_str_of_str [simp]: "bytes_str (str_bytes s) = s"
  by (simp add: bytes_str_def str_bytes_def comp_def)

lemma str_bytes_append [simp]: "str_bytes (s @ t) = str_bytes s @ str_bytes t"
  by (simp add: str_bytes_def)

lemma length_str_bytes [simp]: "length (str_bytes s) = length s"
  by (simp add: str_bytes_def)

lemma byte_of_NL: "byte_of NL = newline"
  by (simp add: byte_of_def)

lemma newline_in_str_bytes [simp]: "newline \<in> set (str_bytes s) \<longleftrightarrow> NL \<in> set s"
  by (auto simp: str_bytes_def simp flip: byte_of_NL)

section \<open>Readers\<close>

text \<open>
  \<open>ReadString(d)\<close> of a \<open>bufio.Reader\<close> over a fixed buffer: the bytes up to and including the
  first \<open>d\<close>, and the rest; \<open>io.EOF\<close> when there is none.
\<close>

fun read_string :: "byte \<Rightarrow> bytes \<Rightarrow> (bytes \<times> bytes) result" where
  "read_string d [] = Inl EOF"
| "read_string d (b # bs) =
     (if b = d then Inr ([b], bs)
      else case read_string d bs of Inl e \<Rightarrow> Inl e | Inr (s, r) \<Rightarrow> Inr (b # s, r))"

text \<open>
  \<open>io.ReadFull\<close> of \<open>n\<close> bytes, which \<open>binary.Read\<close> starts with: \<open>io.EOF\<close> when nothing is left,
  \<open>io.ErrUnexpectedEOF\<close> when there are some bytes but too few.
\<close>

definition read_full :: "nat \<Rightarrow> bytes \<Rightarrow> (bytes \<times> bytes) result" where
  "read_full n bs =
     (if n \<le> length bs then Inr (take n bs, drop n bs)
      else if bs = [] then Inl EOF else Inl UnexpectedEOF)"

lemma read_string_append [wire]:
  "d \<notin> set s \<Longrightarrow> read_string d (s @ d # r) = Inr (s @ [d], r)"
  by (induction s) auto

lemma read_string_None: "d \<notin> set s \<Longrightarrow> read_string d s = Inl EOF"
  by (induction s) auto

lemma read_string_Inr:
  "read_string d bs = Inr (s, r) \<Longrightarrow> \<exists>t. s = t @ [d] \<and> d \<notin> set t \<and> bs = t @ d # r"
  by (induction d bs arbitrary: s r rule: read_string.induct)
    (auto split: if_splits sum.splits intro: exI[of _ "_ # _"])

lemma read_full_append [wire]: "length s = n \<Longrightarrow> read_full n (s @ r) = Inr (s, r)"
  by (simp add: read_full_def)

section \<open>Little-endian integers\<close>

fun le_bytes :: "nat \<Rightarrow> nat \<Rightarrow> bytes" where
  "le_bytes 0 n = []"
| "le_bytes (Suc k) n = of_nat (n mod 256) # le_bytes k (n div 256)"

fun le_nat :: "bytes \<Rightarrow> nat" where
  "le_nat [] = 0"
| "le_nat (b # bs) = unat b + 256 * le_nat bs"

lemma length_le_bytes [simp]: "length (le_bytes k n) = k"
  by (induction k arbitrary: n) auto

lemma unat_of_nat_byte: "unat (of_nat n :: byte) = n mod 256"
  by (simp add: unat_of_nat take_bit_eq_mod)

lemma le_nat_le_bytes [wire]: "le_nat (le_bytes k n) = n mod 256 ^ k"
  by (induction k arbitrary: n) (simp_all add: unat_of_nat_byte mod_mult2_eq)

lemma le_nat_less: "le_nat bs < 256 ^ length bs"
proof (induction bs)
  case (Cons b bs)
  have "unat b < 256"
    using unsigned_less[of b, where ?'a = nat] by simp
  with Cons show ?case by simp
qed simp

section \<open>Iteration orders\<close>

text \<open>
  Go ranges over a map in an order the runtime chooses anew each time.  Where the code's
  result can depend on it, the order is an argument of the model: a list of the keys, each
  once.
\<close>

definition range_order :: "('k \<rightharpoonup> 'v) \<Rightarrow> 'k list \<Rightarrow> bool" where
  "range_order m ks \<longleftrightarrow> distinct ks \<and> set ks = dom m"

lemma range_orderD: "range_order m ks \<Longrightarrow> distinct ks" "range_order m ks \<Longrightarrow> set ks = dom m"
  by (simp_all add: range_order_def)

lemma range_order_mset: "range_order m ks \<Longrightarrow> range_order m ls \<Longrightarrow> mset ks = mset ls"
  by (metis range_order_def set_eq_iff_mset_eq_distinct)

end
