(* ===== verification/Pool.thy ===== *)
theory Pool
  imports Prelude
begin

text \<open>
  The blocking connection pool (\<open>pool/pool.go\<close>): a buffered channel of clients.  Taking from an
  empty channel and putting into a full one block.
\<close>

record 'c pool =
  chan :: "'c list"
  capacity :: nat

datatype 'c got = Got 'c | TimedOut | Waiting

text \<open>
  \<open>expired\<close> says that the timer has fired; with a client there as well, \<open>select\<close> picks either
  (\<open>timer_first\<close>).
\<close>

definition pool_Get :: "int \<Rightarrow> bool \<Rightarrow> bool \<Rightarrow> 'c pool \<Rightarrow> 'c got \<times> 'c pool" where
  "pool_Get timeout expired timer_first p =
     (if 0 < timeout then
        (case chan p of
           [] \<Rightarrow> (if expired then TimedOut else Waiting, p)
         | a # r \<Rightarrow> if expired \<and> timer_first then (TimedOut, p) else (Got a, p\<lparr>chan := r\<rparr>))
      else
        (case chan p of
           [] \<Rightarrow> (Waiting, p)
         | a # r \<Rightarrow> (Got a, p\<lparr>chan := r\<rparr>)))"

text \<open>\<open>None\<close>: the call blocks.\<close>

definition pool_Put :: "'c \<Rightarrow> 'c pool \<Rightarrow> 'c pool option" where
  "pool_Put a p = (if length (chan p) < capacity p then Some (p\<lparr>chan := chan p @ [a]\<rparr>) else None)"

definition pool_New :: "(nat \<Rightarrow> 'c) \<Rightarrow> nat \<Rightarrow> 'c pool" where
  "pool_New client n = \<lparr>chan = map client [0..<n], capacity = n\<rparr>"

section \<open>Clients in use\<close>

text \<open>
  A pool and the clients taken out of it; a client is put back by whoever holds it, once.
\<close>

inductive pool_reach :: "(nat \<Rightarrow> 'c) \<Rightarrow> nat \<Rightarrow> 'c pool \<Rightarrow> 'c multiset \<Rightarrow> bool" for client k where
  pool_start: "pool_reach client k (pool_New client k) {#}"
| pool_get: "pool_reach client k p held \<Longrightarrow> pool_Get timeout expired timer_first p = (Got a, p') \<Longrightarrow>
    pool_reach client k p' (add_mset a held)"
| pool_get_none: "pool_reach client k p held \<Longrightarrow> pool_Get timeout expired timer_first p = (g, p') \<Longrightarrow>
    g = TimedOut \<or> g = Waiting \<Longrightarrow> pool_reach client k p' held"
| pool_put: "pool_reach client k p held \<Longrightarrow> a \<in># held \<Longrightarrow> pool_Put a p = Some p' \<Longrightarrow>
    pool_reach client k p' (held - {#a#})"

lemma pool_Get_cases:
  "pool_Get timeout expired timer_first p = (g, p') \<Longrightarrow>
   (\<exists>a. g = Got a \<and> chan p = a # chan p' \<and> capacity p' = capacity p) \<or> ((g = TimedOut \<or> g = Waiting) \<and> p' = p)"
  by (auto simp: pool_Get_def split: list.splits if_splits)

lemma pool_conserved:
  "pool_reach client k p held \<Longrightarrow>
   capacity p = k \<and> mset (chan p) + held = mset (map client [0..<k])"
proof (induction rule: pool_reach.induct)
  case (pool_get p held timeout expired timer_first a p')
  then show ?case
    using pool_Get_cases[OF pool_get.hyps(2)] by auto
next
  case (pool_get_none p held timeout expired timer_first g p')
  then show ?case
    using pool_Get_cases[OF pool_get_none.hyps(2)] by auto
qed (auto simp: pool_New_def pool_Put_def split: if_splits)

text \<open>
  Every client the pool was made with is at every moment either in the channel
  or in one caller's hands, never both; so at most \<open>size\<close> are in use, and a caller that puts back
  the client it took never blocks.
\<close>

theorem pool_conserves:
  assumes "pool_reach client k p held"
  shows "mset (chan p) + held = mset (map client [0..<k]) \<and> size held \<le> k \<and>
    (\<forall>a. a \<in># held \<longrightarrow> pool_Put a p \<noteq> None)"
proof -
  have c: "capacity p = k" "mset (chan p) + held = mset (map client [0..<k])"
    using pool_conserved[OF assms] by simp_all
  have "length (chan p) + size held = k"
    using arg_cong[OF c(2), of size] by simp
  moreover have "0 < size held" if "a \<in># held" for a
    using that by (metis multi_member_split size_add_mset zero_less_Suc)
  ultimately show ?thesis
    using c by (fastforce simp: pool_Put_def)
qed

theorem pool_conserves_witness:
  "\<exists>p. pool_Get 5 True True (pool_New id 2) = (TimedOut, pool_New id 2) \<and>
     pool_Get 0 False False (pool_New id 2) = (Got 0, p) \<and> pool_Put (0::nat) p \<noteq> None"
proof -
  have g: "pool_Get 0 False False (pool_New id 2) = (Got (0::nat), \<lparr>chan = [1], capacity = 2\<rparr>)"
    by (simp add: pool_Get_def pool_New_def upt_conv_Cons)
  have t: "pool_Get 5 True True (pool_New id 2) = (TimedOut, pool_New (id :: nat \<Rightarrow> nat) 2)"
    by (simp add: pool_Get_def pool_New_def upt_conv_Cons)
  from pool_conserves[OF pool_get[OF pool_start g]] show ?thesis
    using g t by (intro exI[of _ "\<lparr>chan = [1], capacity = 2\<rparr>"]) simp
qed

end
