(* ===== verification/Msgpack.thy ===== *)
theory Msgpack
  imports Prelude "HOL-Library.List_Lexorder" "HOL-Library.Char_ord"
begin

text \<open>
  The part of go-msgpack's codec that memberlist's messages go through: structs with fields of the
  kinds bool, int, uint, string and byte slice, encoded as maps by \<open>encode.go\<close> and the driver of
  \<open>msgpack.go\<close> with a zero \<open>MsgpackHandle\<close>, and decoded by \<open>decode.go\<close>.  A decoder that panics turns
  into an error of \<open>Decode\<close>; here it is \<open>None\<close>.
\<close>

unbundle bit_operations_syntax

section \<open>Values\<close>

text \<open>
  A field of a struct, its kind in the constructor; \<open>VUint\<close> also carries the width of the type.
  \<open>VBytes None\<close> is the nil slice.
\<close>

datatype goval = VBool bool | VInt int | VUint nat nat | VString string | VBytes "bytes option"

fun zero_value :: "goval \<Rightarrow> goval" where
  "zero_value (VBool _) = VBool False"
| "zero_value (VInt _) = VInt 0"
| "zero_value (VUint w _) = VUint w 0"
| "zero_value (VString _) = VString []"
| "zero_value (VBytes _) = VBytes None"

text \<open>A struct: its fields by name, in the order of the declaration.\<close>

type_synonym gostruct = "(string \<times> goval) list"

section \<open>Big-endian numbers\<close>

definition be_bytes :: "nat \<Rightarrow> nat \<Rightarrow> bytes" where
  "be_bytes k n = rev (le_bytes k n)"

definition be_nat :: "bytes \<Rightarrow> nat" where
  "be_nat bs = le_nat (rev bs)"

lemma length_be_bytes [simp]: "length (be_bytes k n) = k"
  by (simp add: be_bytes_def)

lemma be_nat_be_bytes [simp]: "be_nat (be_bytes k n) = n mod 256 ^ k"
  by (simp add: be_bytes_def be_nat_def le_nat_le_bytes)

text \<open>A number of \<open>w\<close> bits read as signed.\<close>

definition signed_of :: "nat \<Rightarrow> nat \<Rightarrow> int" where
  "signed_of w n = (if n < 2 ^ (w - 1) then int n else int n - 2 ^ w)"

section \<open>The encoder\<close>

definition encodeUint :: "nat \<Rightarrow> bytes" where
  "encodeUint i =
     (if i \<le> 127 then [of_nat i]
      else if i \<le> 255 then [0xcc, of_nat i]
      else if i \<le> 65535 then 0xcd # be_bytes 2 i
      else if i \<le> 4294967295 then 0xce # be_bytes 4 i
      else 0xcf # be_bytes 8 i)"

definition encodeInt :: "int \<Rightarrow> bytes" where
  "encodeInt i =
     (if 0 \<le> i then encodeUint (nat i)
      else if - 32 \<le> i then [of_int i]
      else if - 128 \<le> i then [0xd0, of_int i]
      else if - 32768 \<le> i then 0xd1 # be_bytes 2 (nat (i mod 2 ^ 16))
      else if - 2147483648 \<le> i then 0xd2 # be_bytes 4 (nat (i mod 2 ^ 32))
      else 0xd3 # be_bytes 8 (nat (i mod 2 ^ 64)))"

definition encodeBool :: "bool \<Rightarrow> bytes" where
  "encodeBool b = (if b then [0xc3] else [0xc2])"

definition encodeNil :: bytes where
  "encodeNil = [0xc0]"

record containerType =
  fixCutoff :: nat
  bFixMin :: byte
  b8 :: byte
  b16 :: byte
  b32 :: byte
  hasFixMin :: bool
  has8 :: bool
  has8Always :: bool

definition containerStr :: containerType where
  "containerStr = \<lparr>fixCutoff = 32, bFixMin = 0xa0, b8 = 0xd9, b16 = 0xda, b32 = 0xdb,
     hasFixMin = True, has8 = True, has8Always = False\<rparr>"

definition containerBin :: containerType where
  "containerBin = \<lparr>fixCutoff = 0, bFixMin = 0, b8 = 0xc4, b16 = 0xc5, b32 = 0xc6,
     hasFixMin = False, has8 = True, has8Always = True\<rparr>"

definition containerList :: containerType where
  "containerList = \<lparr>fixCutoff = 16, bFixMin = 0x90, b8 = 0, b16 = 0xdc, b32 = 0xdd,
     hasFixMin = True, has8 = False, has8Always = False\<rparr>"

definition containerMap :: containerType where
  "containerMap = \<lparr>fixCutoff = 16, bFixMin = 0x80, b8 = 0, b16 = 0xde, b32 = 0xdf,
     hasFixMin = True, has8 = False, has8Always = False\<rparr>"

lemmas containers = containerStr_def containerBin_def containerList_def containerMap_def

definition writeExt :: bool where
  "writeExt = False"

definition writeContainerLen :: "containerType \<Rightarrow> nat \<Rightarrow> bytes" where
  "writeContainerLen ct l =
     (if hasFixMin ct \<and> l < fixCutoff ct then [bFixMin ct OR of_nat l]
      else if has8 ct \<and> l < 256 \<and> (has8Always ct \<or> writeExt) then [b8 ct, of_nat l]
      else if l < 65536 then b16 ct # be_bytes 2 l
      else b32 ct # be_bytes 4 l)"

definition encodeString :: "string \<Rightarrow> bytes" where
  "encodeString s = writeContainerLen containerStr (length s) @ str_bytes s"

definition encodeStringBytes :: "bytes \<Rightarrow> bytes" where
  "encodeStringBytes bs =
     writeContainerLen (if writeExt then containerBin else containerStr) (length bs) @ bs"

fun encodeValue :: "goval \<Rightarrow> bytes" where
  "encodeValue (VBool b) = encodeBool b"
| "encodeValue (VInt i) = encodeInt i"
| "encodeValue (VUint w n) = encodeUint n"
| "encodeValue (VString s) = encodeString s"
| "encodeValue (VBytes None) = encodeNil"
| "encodeValue (VBytes (Some bs)) = encodeStringBytes bs"

text \<open>\<open>kStruct\<close>: as a map, the fields sorted by name.\<close>

definition sfi :: "gostruct \<Rightarrow> gostruct" where
  "sfi fs = sort_key fst fs"

definition encodeStruct :: "gostruct \<Rightarrow> bytes" where
  "encodeStruct fs =
     writeContainerLen containerMap (length fs) @
     concat (map (\<lambda>(n, v). encodeString n @ encodeValue v) (sfi fs))"

section \<open>The decoder's primitives\<close>

text \<open>The readers \<open>readn1\<close>, \<open>readUint16\<close>, \<open>readUint32\<close>, \<open>readUint64\<close> and \<open>readn\<close>.\<close>

definition readn :: "nat \<Rightarrow> bytes \<Rightarrow> (bytes \<times> bytes) option" where
  "readn n bs = (if length bs < n then None else Some (take n bs, drop n bs))"

definition read_be :: "nat \<Rightarrow> bytes \<Rightarrow> (nat \<times> bytes) option" where
  "read_be k bs = (case readn k bs of None \<Rightarrow> None | Some (x, r) \<Rightarrow> Some (be_nat x, r))"

text \<open>Each takes the descriptor byte \<open>bd\<close> and what follows it.\<close>

definition read_signed :: "nat \<Rightarrow> bytes \<Rightarrow> (int \<times> bytes) option" where
  "read_signed k bs = map_option (\<lambda>(n, r). (signed_of (8 * k) n, r)) (read_be k bs)"

definition decodeInt :: "byte \<Rightarrow> bytes \<Rightarrow> (int \<times> bytes) option" where
  "decodeInt bd r =
     (if bd = 0xcc then map_option (\<lambda>(n, r). (int n, r)) (read_be 1 r)
      else if bd = 0xcd then map_option (\<lambda>(n, r). (int n, r)) (read_be 2 r)
      else if bd = 0xce then map_option (\<lambda>(n, r). (int n, r)) (read_be 4 r)
      else if bd = 0xcf then read_signed 8 r
      else if bd = 0xd0 then read_signed 1 r
      else if bd = 0xd1 then read_signed 2 r
      else if bd = 0xd2 then read_signed 4 r
      else if bd = 0xd3 then read_signed 8 r
      else if bd \<le> 0x7f then Some (int (unat bd), r)
      else if 0xe0 \<le> bd then Some (int (unat bd) - 256, r)
      else None)"

text \<open>A negative number is no \<open>uint\<close>, and one that does not fit into \<open>w\<close> bits overflows.\<close>

definition nonneg :: "(int \<times> bytes) option \<Rightarrow> (nat \<times> bytes) option" where
  "nonneg x = (case x of None \<Rightarrow> None | Some (i, r) \<Rightarrow> if 0 \<le> i then Some (nat i, r) else None)"

definition decodeUint :: "nat \<Rightarrow> byte \<Rightarrow> bytes \<Rightarrow> (nat \<times> bytes) option" where
  "decodeUint w bd r =
     (case
        (if bd = 0xcc then read_be 1 r
         else if bd = 0xcd then read_be 2 r
         else if bd = 0xce then read_be 4 r
         else if bd = 0xcf then read_be 8 r
         else if bd = 0xd0 then nonneg (read_signed 1 r)
         else if bd = 0xd1 then nonneg (read_signed 2 r)
         else if bd = 0xd2 then nonneg (read_signed 4 r)
         else if bd = 0xd3 then nonneg (read_signed 8 r)
         else if bd \<le> 0x7f then Some (unat bd, r)
         else None)
      of None \<Rightarrow> None
       | Some (ui, r') \<Rightarrow> if ui mod 2 ^ w \<noteq> ui then None else Some (ui, r'))"

definition decodeBool :: "byte \<Rightarrow> bytes \<Rightarrow> (bool \<times> bytes) option" where
  "decodeBool bd r =
     (if bd = 0xc2 \<or> bd = 0 then Some (False, r)
      else if bd = 0xc3 \<or> bd = 1 then Some (True, r)
      else None)"

text \<open>
  The length is \<open>- 1\<close> for nil.  The test of \<open>bFixMin\<close> looks at its one bits only, so it also takes
  the negative fixnums \<open>0xe0 .. 0xff\<close> for strings.
\<close>

definition readContainerLen :: "containerType \<Rightarrow> byte \<Rightarrow> bytes \<Rightarrow> (int \<times> bytes) option" where
  "readContainerLen ct bd r =
     (if bd = 0xc0 then Some (- 1, r)
      else if bd = b8 ct then map_option (\<lambda>(n, r). (int n, r)) (read_be 1 r)
      else if bd = b16 ct then map_option (\<lambda>(n, r). (int n, r)) (read_be 2 r)
      else if bd = b32 ct then map_option (\<lambda>(n, r). (int n, r)) (read_be 4 r)
      else if bFixMin ct AND bd = bFixMin ct then Some (int (unat (bFixMin ct XOR bd)), r)
      else None)"

definition decodeString :: "byte \<Rightarrow> bytes \<Rightarrow> (string \<times> bytes) option" where
  "decodeString bd r =
     (case readContainerLen containerStr bd r of
        None \<Rightarrow> None
      | Some (clen, r') \<Rightarrow>
          if 0 < clen then map_option (\<lambda>(x, r). (bytes_str x, r)) (readn (nat clen) r')
          else Some ([], r'))"

text \<open>An empty string in the stream leaves the slice as it was.\<close>

definition decodeBytes :: "bytes option \<Rightarrow> byte \<Rightarrow> bytes \<Rightarrow> (bytes option \<times> bytes) option" where
  "decodeBytes old bd r =
     (case readContainerLen (if bd = 0xc4 \<or> bd = 0xc5 \<or> bd = 0xc6 then containerBin else containerStr) bd r of
        None \<Rightarrow> None
      | Some (clen, r') \<Rightarrow>
          if 0 < clen then map_option (\<lambda>(x, r). (Some x, r)) (readn (nat clen) r')
          else Some (old, r'))"

section \<open>What a descriptor announces\<close>

datatype valueType =
  TNil | TInt | TUint | TFloat | TBool | TString | TSymbol | TBytes | TMap | TArray | TTimestamp | TExt | TBad

definition currentEncodedType :: "byte \<Rightarrow> valueType" where
  "currentEncodedType bd =
     (if bd = 0xc0 then TNil
      else if bd = 0xc2 \<or> bd = 0xc3 then TBool
      else if bd = 0xca \<or> bd = 0xcb then TFloat
      else if 0xcc \<le> bd \<and> bd \<le> 0xcf then TUint
      else if 0xd0 \<le> bd \<and> bd \<le> 0xd3 then TInt
      else if bd \<le> 0x7f then TInt
      else if 0xe0 \<le> bd then TInt
      else if bd = 0xd9 \<or> bd = 0xda \<or> bd = 0xdb \<or> 0xa0 \<le> bd \<and> bd \<le> 0xbf then TBytes
      else if bd = 0xc4 \<or> bd = 0xc5 \<or> bd = 0xc6 then TBytes
      else if bd = 0xdc \<or> bd = 0xdd \<or> 0x90 \<le> bd \<and> bd \<le> 0x9f then TArray
      else if bd = 0xde \<or> bd = 0xdf \<or> 0x80 \<le> bd \<and> bd \<le> 0x8f then TMap
      else if 0xd4 \<le> bd \<and> bd \<le> 0xd8 \<or> 0xc7 \<le> bd \<and> bd \<le> 0xc9 then TExt
      else TBad)"

definition readExtLen :: "byte \<Rightarrow> bytes \<Rightarrow> (nat \<times> bytes) option" where
  "readExtLen bd r =
     (if bd = 0xd4 then Some (1, r)
      else if bd = 0xd5 then Some (2, r)
      else if bd = 0xd6 then Some (4, r)
      else if bd = 0xd7 then Some (8, r)
      else if bd = 0xd8 then Some (16, r)
      else if bd = 0xc7 then read_be 1 r
      else if bd = 0xc8 then read_be 2 r
      else if bd = 0xc9 then read_be 4 r
      else None)"


section \<open>Values of unknown fields\<close>

text \<open>
  A field the struct lacks is decoded into a nil interface and thrown away.  \<open>decodeNaked\<close> reads
  a scalar (does it serve as a map key?) or announces the elements of an array or a map.
\<close>

datatype naked = NScalar bool | NArray nat | NMap nat

definition decodeNaked :: "byte \<Rightarrow> bytes \<Rightarrow> (naked \<times> bytes) option" where
  "decodeNaked bd r =
     (case currentEncodedType bd of
        TNil \<Rightarrow> Some (NScalar True, r)
      | TBool \<Rightarrow> Some (NScalar True, r)
      | TFloat \<Rightarrow> map_option (\<lambda>(_, r). (NScalar True, r)) (readn (if bd = 0xca then 4 else 8) r)
      | TUint \<Rightarrow> map_option (\<lambda>(_, r). (NScalar True, r)) (decodeUint 64 bd r)
      | TInt \<Rightarrow> map_option (\<lambda>(_, r). (NScalar True, r)) (decodeInt bd r)
      | TBytes \<Rightarrow> map_option (\<lambda>(_, r). (NScalar True, r)) (decodeBytes (Some []) bd r)
      | TArray \<Rightarrow> map_option (\<lambda>(n, r). (NArray (nat n), r)) (readContainerLen containerList bd r)
      | TMap \<Rightarrow> map_option (\<lambda>(n, r). (NMap (nat n), r)) (readContainerLen containerMap bd r)
      | TExt \<Rightarrow>
          (case readExtLen bd r of None \<Rightarrow> None
           | Some (clen, r') \<Rightarrow> map_option (\<lambda>(_, r). (NScalar False, r)) (readn (Suc clen) r'))
      | _ \<Rightarrow> None)"

lemma readn_length: "readn n bs = Some (x, r) \<Longrightarrow> length r \<le> length bs"
  by (auto simp: readn_def split: if_splits)

lemma read_be_length: "read_be n bs = Some (x, r) \<Longrightarrow> length r \<le> length bs"
  by (auto simp: read_be_def split: option.splits dest: readn_length)

lemma read_signed_length: "read_signed n bs = Some (x, r) \<Longrightarrow> length r \<le> length bs"
  by (auto simp: read_signed_def dest: read_be_length)

lemma nonneg_length: "nonneg x = Some (n, r) \<Longrightarrow> \<exists>i. x = Some (i, r)"
  by (auto simp: nonneg_def split: option.splits if_splits)

lemmas read_lengths = readn_length read_be_length read_signed_length

lemma decodeInt_length: "decodeInt bd bs = Some (x, r) \<Longrightarrow> length r \<le> length bs"
  by (auto simp: decodeInt_def split: if_splits dest: read_lengths)

lemma decodeUint_length: "decodeUint w bd bs = Some (x, r) \<Longrightarrow> length r \<le> length bs"
  by (auto simp: decodeUint_def split: if_splits option.splits dest: read_lengths dest!: nonneg_length)

lemma readContainerLen_length: "readContainerLen ct bd bs = Some (x, r) \<Longrightarrow> length r \<le> length bs"
  by (auto simp: readContainerLen_def split: if_splits dest: read_lengths)

lemma decodeString_length: "decodeString bd bs = Some (x, r) \<Longrightarrow> length r \<le> length bs"
  by (auto simp: decodeString_def split: if_splits option.splits dest!: read_lengths readContainerLen_length)

lemma decodeBytes_length: "decodeBytes old bd bs = Some (x, r) \<Longrightarrow> length r \<le> length bs"
  by (auto simp: decodeBytes_def split: if_splits option.splits dest!: read_lengths readContainerLen_length)

lemma readExtLen_length: "readExtLen bd bs = Some (x, r) \<Longrightarrow> length r \<le> length bs"
  by (auto simp: readExtLen_def split: if_splits dest: read_lengths)

lemma decodeNaked_length: "decodeNaked bd bs = Some (x, r) \<Longrightarrow> length r \<le> length bs"
  by (auto simp: decodeNaked_def split: valueType.splits option.splits if_splits
      dest!: readn_length decodeInt_length decodeUint_length decodeBytes_length readContainerLen_length
        readExtLen_length)

text \<open>
  The values still to be read, innermost container first: is it a map, and how many values are
  left.  In a map keys and values alternate, and a key that is itself a container or an extension
  is not hashable.  (A key that occurs twice in such a map is not looked at.)
\<close>

function skip_values :: "(bool \<times> nat) list \<Rightarrow> bytes \<Rightarrow> bytes option" where
  "skip_values [] bs = Some bs"
| "skip_values ((m, 0) # fs) bs = skip_values fs bs"
| "skip_values ((m, Suc k) # fs) [] = None"
| "skip_values ((m, Suc k) # fs) (bd # bs) =
     (case decodeNaked bd bs of
        None \<Rightarrow> None
      | Some (x, r) \<Rightarrow>
          (let key = (m \<and> odd k)
           in case x of
                NScalar hashable \<Rightarrow> if key \<and> \<not> hashable then None else skip_values ((m, k) # fs) r
              | NArray n \<Rightarrow> if key then None else skip_values ((False, n) # (m, k) # fs) r
              | NMap n \<Rightarrow> if key then None else skip_values ((True, 2 * n) # (m, k) # fs) r))"
  by pat_completeness auto
termination
  by (relation "measures [\<lambda>(fs, bs). length bs, \<lambda>(fs, bs). length fs]")
    (auto dest!: decodeNaked_length simp: less_Suc_eq_le)

section \<open>Fields and structs\<close>

text \<open>
  A byte slice from an array or a map of numbers: the elements take the place of the first ones of
  the old slice.
\<close>

fun decode_elems :: "nat \<Rightarrow> bytes \<Rightarrow> (bytes \<times> bytes) option" where
  "decode_elems 0 bs = Some ([], bs)"
| "decode_elems (Suc k) [] = None"
| "decode_elems (Suc k) (bd # bs) =
     (case (if bd = 0xc0 then Some (0, bs) else decodeUint 8 bd bs) of
        None \<Rightarrow> None
      | Some (x, r) \<Rightarrow> map_option (\<lambda>(xs, r). (of_nat x # xs, r)) (decode_elems k r))"

definition decodeSlice :: "bytes option \<Rightarrow> byte \<Rightarrow> bytes \<Rightarrow> (bytes option \<times> bytes) option" where
  "decodeSlice old bd r =
     (let elems = (\<lambda>n r.
        map_option (\<lambda>(xs, r). (Some (xs @ drop (length xs) (case old of None \<Rightarrow> [] | Some o' \<Rightarrow> o')), r))
          (decode_elems n r))
      in case currentEncodedType bd of
           TBytes \<Rightarrow> decodeBytes old bd r
         | TArray \<Rightarrow>
             (case readContainerLen containerList bd r of None \<Rightarrow> None | Some (n, r') \<Rightarrow> elems (nat n) r')
         | TMap \<Rightarrow>
             (case readContainerLen containerMap bd r of None \<Rightarrow> None | Some (n, r') \<Rightarrow> elems (2 * nat n) r')
         | _ \<Rightarrow> None)"

text \<open>\<open>decodeValue\<close> into a field with the value it has.\<close>

fun decodeValue :: "goval \<Rightarrow> bytes \<Rightarrow> (goval \<times> bytes) option" where
  "decodeValue v [] = None"
| "decodeValue v (bd # r) =
     (if bd = 0xc0 then Some (zero_value v, r)
      else case v of
        VBool _ \<Rightarrow> map_option (\<lambda>(x, r). (VBool x, r)) (decodeBool bd r)
      | VInt _ \<Rightarrow> map_option (\<lambda>(x, r). (VInt x, r)) (decodeInt bd r)
      | VUint w _ \<Rightarrow> map_option (\<lambda>(x, r). (VUint w x, r)) (decodeUint w bd r)
      | VString _ \<Rightarrow> map_option (\<lambda>(x, r). (VString x, r)) (decodeString bd r)
      | VBytes old \<Rightarrow> map_option (\<lambda>(x, r). (VBytes x, r)) (decodeSlice old bd r))"

fun set_field :: "string \<Rightarrow> goval \<Rightarrow> gostruct \<Rightarrow> gostruct" where
  "set_field n v [] = []"
| "set_field n v ((m, x) # fs) = (if m = n then (m, v) # fs else (m, x) # set_field n v fs)"

text \<open>One entry of a map: the field's name and its value.\<close>

definition decode_entry :: "gostruct \<Rightarrow> bytes \<Rightarrow> (gostruct \<times> bytes) option" where
  "decode_entry fs bs =
     (case bs of
        [] \<Rightarrow> None
      | bd # r \<Rightarrow>
          (case decodeString bd r of
             None \<Rightarrow> None
           | Some (n, r') \<Rightarrow>
               (case map_of fs n of
                  Some v \<Rightarrow> map_option (\<lambda>(x, r). (set_field n x fs, r)) (decodeValue v r')
                | None \<Rightarrow> map_option (\<lambda>r. (fs, r)) (skip_values [(False, 1)] r'))))"

fun decode_entries :: "nat \<Rightarrow> gostruct \<Rightarrow> bytes \<Rightarrow> (gostruct \<times> bytes) option" where
  "decode_entries 0 fs bs = Some (fs, bs)"
| "decode_entries (Suc k) fs bs =
     (case decode_entry fs bs of None \<Rightarrow> None | Some (fs', r) \<Rightarrow> decode_entries k fs' r)"

text \<open>From an array: the fields in order, as many as there are elements.\<close>

fun decode_fields :: "nat \<Rightarrow> gostruct \<Rightarrow> bytes \<Rightarrow> (gostruct \<times> nat \<times> bytes) option" where
  "decode_fields 0 fs bs = Some (fs, 0, bs)"
| "decode_fields k [] bs = Some ([], k, bs)"
| "decode_fields (Suc k) ((n, v) # fs) bs =
     (case decodeValue v bs of
        None \<Rightarrow> None
      | Some (x, r) \<Rightarrow> map_option (\<lambda>(fs', m, r). ((n, x) # fs', m, r)) (decode_fields k fs r))"

definition decodeStruct :: "gostruct \<Rightarrow> bytes \<Rightarrow> (gostruct \<times> bytes) option" where
  "decodeStruct fs bs =
     (case bs of
        [] \<Rightarrow> None
      | bd # r \<Rightarrow>
          (case currentEncodedType bd of
             TNil \<Rightarrow> Some (map (\<lambda>(n, v). (n, zero_value v)) fs, r)
           | TMap \<Rightarrow>
               (case readContainerLen containerMap bd r of
                  None \<Rightarrow> None | Some (n, r') \<Rightarrow> decode_entries (nat n) fs r')
           | TArray \<Rightarrow>
               (case readContainerLen containerList bd r of
                  None \<Rightarrow> None
                | Some (n, r') \<Rightarrow>
                    (case decode_fields (nat n) fs r' of
                       None \<Rightarrow> None
                     | Some (fs', k, r'') \<Rightarrow> map_option (\<lambda>r. (fs', r)) (skip_values [(False, k)] r'')))
           | _ \<Rightarrow> None))"

section \<open>Reading what was written\<close>

definition reads :: "(byte \<Rightarrow> bytes \<Rightarrow> ('a \<times> bytes) option) \<Rightarrow> bytes \<Rightarrow> 'a \<Rightarrow> bool" where
  "reads f bs x \<longleftrightarrow> bs \<noteq> [] \<and> hd bs \<noteq> 0xc0 \<and> (\<forall>r. f (hd bs) (tl bs @ r) = Some (x, r))"

lemma readn_append [simp]: "length x = n \<Longrightarrow> readn n (x @ r) = Some (x, r)"
  by (simp add: readn_def)

lemma read_be_append [simp]: "read_be k (be_bytes k n @ r) = Some (n mod 256 ^ k, r)"
  by (simp add: read_be_def)

lemma read_be_one [simp]: "read_be (Suc 0) (b # r) = Some (unat b, r)"
  by (simp add: read_be_def readn_def be_nat_def)

lemmas byte_simps = word_unat_eq_iff word_le_nat_alt unat_of_nat_byte

lemma reads_uint:
  assumes "n < 2 ^ w" "w \<le> 64"
  shows "reads (decodeUint w) (encodeUint n) n"
proof -
  have "(2 :: nat) ^ w \<le> 2 ^ 64"
    using assms(2) by (intro power_increasing) simp_all
  then have n: "n < 2 ^ 64" "n mod 2 ^ w = n"
    using assms by simp_all
  consider "n \<le> 127" | "127 < n" "n \<le> 255" | "255 < n" "n \<le> 65535" | "65535 < n" "n \<le> 4294967295"
    | "4294967295 < n"
    by linarith
  then show ?thesis
    using n by cases (simp_all add: reads_def encodeUint_def decodeUint_def byte_simps)
qed

lemma reads_int_nonneg:
  assumes "n < 2 ^ 63"
  shows "reads decodeInt (encodeUint n) (int n)"
proof -
  consider "n \<le> 127" | "127 < n" "n \<le> 255" | "255 < n" "n \<le> 65535" | "65535 < n" "n \<le> 4294967295"
    | "4294967295 < n"
    by linarith
  then show ?thesis
    using assms by cases (simp_all add: reads_def encodeUint_def decodeInt_def read_signed_def signed_of_def
        byte_simps del: of_nat_unat)
qed

lemma nat_mod_neg:
  "i < 0 \<Longrightarrow> - (2 ^ (w - 1)) \<le> i \<Longrightarrow> 0 < w \<Longrightarrow> nat (i mod 2 ^ w) = nat (i + 2 ^ w)"
proof -
  assume a: "i < 0" "- (2 ^ (w - 1)) \<le> i" "0 < w"
  have "(2 :: int) ^ w = 2 * 2 ^ (w - 1)"
    using a(3) by (cases w) auto
  then have "0 \<le> i + 2 ^ w" "i + 2 ^ w < 2 ^ w"
    using a by auto
  then have "(i + 2 ^ w) mod 2 ^ w = i + 2 ^ w"
    by (rule mod_pos_pos_trivial)
  then have "i mod 2 ^ w = i + 2 ^ w"
    by (simp only: mod_add_self2)
  then show ?thesis
    by (simp only:)
qed

lemma signed_of_neg:
  assumes "i < 0" "- (2 ^ (w - 1)) \<le> i" "0 < w"
  shows "signed_of w (nat (i mod 2 ^ w)) = i"
proof -
  have p: "(2 :: int) ^ w = 2 * 2 ^ (w - 1)"
    using assms(3) by (cases w) auto
  have n: "nat (i mod 2 ^ w) = nat (i + 2 ^ w)"
    by (rule nat_mod_neg[OF assms])
  have "\<not> nat (i + 2 ^ w) < 2 ^ (w - 1)"
    using assms p by (simp add: nat_less_iff)
  then show ?thesis
    unfolding signed_of_def n using assms p by simp
qed

lemma unat_of_int_byte: "unat (of_int i :: byte) = nat (i mod 256)"
  by (simp add: unsigned_of_int take_bit_eq_mod)

lemma reads_int_neg:
  assumes "- (2 ^ 63) \<le> i" "i < 0"
  shows "reads decodeInt (encodeInt i) i"
proof -
  consider "- 32 \<le> i" | "i < - 32" "- 128 \<le> i" | "i < - 128" "- 32768 \<le> i"
    | "i < - 32768" "- 2147483648 \<le> i" | "i < - 2147483648"
    by linarith
  then show ?thesis
  proof cases
    case 1
    define k where "k = nat (i + 256)"
    have k: "224 \<le> k" "int k = i + 256" "nat (i mod 256) = k"
      using nat_mod_neg[of i 8] 1 assms by (simp_all add: k_def)
    then show ?thesis
      using 1 assms by (simp add: reads_def encodeInt_def decodeInt_def byte_simps unat_of_int_byte
          del: of_nat_unat)
  next
    case 2
    then show ?thesis
      using assms signed_of_neg[of i 8]
      by (simp add: reads_def encodeInt_def decodeInt_def read_signed_def unat_of_int_byte)
  next
    case 3
    then show ?thesis
      using assms signed_of_neg[of i 16]
      by (simp add: reads_def encodeInt_def decodeInt_def read_signed_def nat_mod_distrib)
  next
    case 4
    then show ?thesis
      using assms signed_of_neg[of i 32]
      by (simp add: reads_def encodeInt_def decodeInt_def read_signed_def)
  next
    case 5
    then show ?thesis
      using assms signed_of_neg[of i 64]
      by (simp add: reads_def encodeInt_def decodeInt_def read_signed_def)
  qed
qed

lemma reads_int:
  assumes "- (2 ^ 63) \<le> i" "i < 2 ^ 63"
  shows "reads decodeInt (encodeInt i) i"
proof (cases "0 \<le> i")
  case True
  then show ?thesis
    using reads_int_nonneg[of "nat i"] assms(2) by (simp add: encodeInt_def nat_less_iff)
qed (use assms reads_int_neg in auto)

text \<open>The lengths that go into the descriptor byte.\<close>

lemma fix_str_all:
  "\<forall>l\<in>set [0..<32]. let b = (0xa0 :: byte) OR of_nat l
     in unat b = 160 + l \<and> 0xa0 AND b = 0xa0 \<and> unat (0xa0 XOR b) = l"
  by code_simp

lemma fix_str:
  assumes "l < 32"
  shows "unat ((0xa0 :: byte) OR of_nat l) = 160 + l" "0xa0 AND ((0xa0 :: byte) OR of_nat l) = 0xa0"
    "unat (0xa0 XOR ((0xa0 :: byte) OR of_nat l)) = l"
  using fix_str_all assms unfolding Let_def by (metis atLeastLessThan_iff set_upt zero_le)+

lemma fix_map_all:
  "\<forall>l\<in>set [0..<16]. let b = (0x80 :: byte) OR of_nat l
     in unat b = 128 + l \<and> 0x80 AND b = 0x80 \<and> unat (0x80 XOR b) = l"
  by code_simp

lemma fix_map:
  assumes "l < 16"
  shows "unat ((0x80 :: byte) OR of_nat l) = 128 + l" "0x80 AND ((0x80 :: byte) OR of_nat l) = 0x80"
    "unat (0x80 XOR ((0x80 :: byte) OR of_nat l)) = l"
  using fix_map_all assms unfolding Let_def by (metis atLeastLessThan_iff set_upt zero_le)+

lemma reads_str_len:
  assumes "l < 2 ^ 32"
  shows "reads (readContainerLen containerStr) (writeContainerLen containerStr l) (int l)"
proof -
  consider "l < 32" | "32 \<le> l" "l < 65536" | "65536 \<le> l"
    by linarith
  then show ?thesis
  proof cases
    case 1
    define b where "b = (0xa0 :: byte) OR of_nat l"
    have "unat b = 160 + l" "0xa0 AND b = 0xa0" "unat (0xa0 XOR b) = l"
      using fix_str[OF 1] by (simp_all add: b_def)
    then show ?thesis
      using 1 by (simp add: reads_def writeContainerLen_def readContainerLen_def containerStr_def
          word_unat_eq_iff del: of_nat_unat flip: b_def)
  qed (use assms in \<open>simp_all add: reads_def writeContainerLen_def readContainerLen_def containerStr_def
    writeExt_def\<close>)
qed

lemma str_len_type:
  "currentEncodedType (hd (writeContainerLen containerStr l)) = TBytes \<and>
   hd (writeContainerLen containerStr l) \<notin> {0xc4, 0xc5, 0xc6}"
proof -
  consider "l < 32" | "32 \<le> l" "l < 65536" | "65536 \<le> l"
    by linarith
  then show ?thesis
  proof cases
    case 1
    define b where "b = (0xa0 :: byte) OR of_nat l"
    have "unat b = 160 + l"
      using fix_str[OF 1] by (simp add: b_def)
    then show ?thesis
      using 1 by (simp add: writeContainerLen_def currentEncodedType_def containerStr_def
          byte_simps del: of_nat_unat flip: b_def)
  qed (simp_all add: writeContainerLen_def currentEncodedType_def containerStr_def writeExt_def)
qed

lemma reads_map_len:
  assumes "l < 2 ^ 32"
  shows "reads (readContainerLen containerMap) (writeContainerLen containerMap l) (int l) \<and>
    currentEncodedType (hd (writeContainerLen containerMap l)) = TMap"
proof -
  consider "l < 16" | "16 \<le> l" "l < 65536" | "65536 \<le> l"
    by linarith
  then show ?thesis
  proof cases
    case 1
    define b where "b = (0x80 :: byte) OR of_nat l"
    have "unat b = 128 + l" "0x80 AND b = 0x80" "unat (0x80 XOR b) = l"
      using fix_map[OF 1] by (simp_all add: b_def)
    then show ?thesis
      using 1 by (simp add: reads_def writeContainerLen_def readContainerLen_def containerMap_def
          currentEncodedType_def byte_simps del: of_nat_unat flip: b_def)
  qed (use assms in \<open>simp_all add: reads_def writeContainerLen_def readContainerLen_def containerMap_def
    writeExt_def currentEncodedType_def\<close>)
qed

lemma reads_str_bytes:
  assumes "length x < 2 ^ 32"
  shows "\<exists>bd t. writeContainerLen containerStr (length x) @ x = bd # t \<and> bd \<noteq> 0xc0 \<and>
    (\<forall>r. \<exists>r'. readContainerLen containerStr bd (t @ r) = Some (int (length x), r') \<and> readn (length x) r' = Some (x, r))"
  using reads_str_len[OF assms] unfolding reads_def
  by (cases "writeContainerLen containerStr (length x)") auto

lemma reads_string:
  assumes "length s < 2 ^ 32"
  shows "reads decodeString (encodeString s) s"
proof -
  have l: "reads (readContainerLen containerStr) (writeContainerLen containerStr (length s)) (int (length s))"
    by (rule reads_str_len[OF assms])
  show ?thesis
    using l by (cases s) (auto simp: reads_def encodeString_def decodeString_def str_bytes_def[of "[]"])
qed

lemma reads_bytes:
  assumes "length x < 2 ^ 32" "x \<noteq> []"
  shows "reads (decodeSlice old) (encodeStringBytes x) (Some x)"
proof -
  let ?w = "writeContainerLen containerStr (length x)"
  have l: "reads (readContainerLen containerStr) ?w (int (length x))"
    by (rule reads_str_len[OF assms(1)])
  then have w: "?w \<noteq> []" "hd (?w @ x) = hd ?w" "tl (?w @ x) = tl ?w @ x"
    by (simp_all add: reads_def)
  have "decodeBytes old (hd ?w) (tl ?w @ x @ r) = Some (Some x, r)" for r
    using l str_len_type[of "length x"] assms(2) by (simp add: decodeBytes_def reads_def)
  then show ?thesis
    using l w str_len_type[of "length x"]
    by (simp add: reads_def encodeStringBytes_def decodeSlice_def writeExt_def)
qed

section \<open>Structs\<close>

fun wf_value :: "goval \<Rightarrow> bool" where
  "wf_value (VBool _) = True"
| "wf_value (VInt i) = (- (2 ^ 63) \<le> i \<and> i < 2 ^ 63)"
| "wf_value (VUint w n) = (n < 2 ^ w \<and> w \<le> 64)"
| "wf_value (VString s) = (length s < 2 ^ 32)"
| "wf_value (VBytes None) = True"
| "wf_value (VBytes (Some x)) = (length x < 2 ^ 32 \<and> x \<noteq> [])"

lemma reads_value_field:
  assumes "reads f bs x" "\<And>bd r. bd \<noteq> 0xc0 \<Longrightarrow> decodeValue v (bd # r) = map_option (\<lambda>(y, r). (g y, r)) (f bd r)"
  shows "decodeValue v (bs @ r) = Some (g x, r)"
  using assms(1) assms(2)[of "hd bs" "tl bs @ r"] unfolding reads_def by (cases bs) auto

lemma decodeValue_encode:
  assumes "wf_value v" "zero_value v' = zero_value v"
  shows "decodeValue v' (encodeValue v @ r) = Some (v, r)"
proof (cases v)
  case (VBool b)
  then show ?thesis
    using assms(2) by (cases v') (auto simp: encodeBool_def decodeBool_def)
next
  case (VInt i)
  then obtain j where "v' = VInt j"
    using assms(2) by (cases v') auto
  then show ?thesis
    using VInt assms(1) reads_value_field[OF reads_int, of i v' VInt] by simp
next
  case (VUint w n)
  then obtain j where "v' = VUint w j"
    using assms(2) by (cases v') auto
  then show ?thesis
    using VUint assms(1) reads_value_field[OF reads_uint, of n w v' "VUint w"] by simp
next
  case (VString s)
  then obtain j where "v' = VString j"
    using assms(2) by (cases v') auto
  then show ?thesis
    using VString assms(1) reads_value_field[OF reads_string, of s v' VString] by simp
next
  case (VBytes x)
  then obtain j where j: "v' = VBytes j"
    using assms(2) by (cases v') auto
  show ?thesis
  proof (cases x)
    case None
    then show ?thesis
      using VBytes j by (simp add: encodeNil_def)
  next
    case (Some y)
    then show ?thesis
      using VBytes j assms(1) reads_value_field[OF reads_bytes, of y v' VBytes j] by simp
  qed
qed


lemma map_fst_set_field [simp]: "map fst (set_field n v fs) = map fst fs"
  by (induction fs) auto

lemma map_of_set_field:
  "map_of (set_field n v fs) m = (if m = n then map_option (\<lambda>_. v) (map_of fs n) else map_of fs m)"
  by (induction fs) auto

text \<open>The fields and their kinds.\<close>

definition shape :: "gostruct \<Rightarrow> gostruct" where
  "shape fs = map (\<lambda>(n, v). (n, zero_value v)) fs"

lemma shape_set_field:
  "map_of fs n = Some v' \<Longrightarrow> zero_value v' = zero_value v \<Longrightarrow> shape (set_field n v fs) = shape fs"
  by (induction fs) (auto simp: shape_def split: if_splits)

lemma map_of_shape: "map_of (shape fs) n = map_option zero_value (map_of fs n)"
  unfolding shape_def by (induction fs) auto

lemma fields_eqI:
  assumes "map fst xs = map fst ys" "distinct (map fst xs)" "\<forall>n\<in>fst ` set xs. map_of xs n = map_of ys n"
  shows "xs = ys"
  using assms
proof (induction xs arbitrary: ys)
  case (Cons x xs)
  then obtain y ys' where y: "ys = y # ys'" "fst x = fst y" "map fst xs = map fst ys'"
    by (cases ys) auto
  have "snd x = snd y"
    using Cons.prems(3) y by (cases x; cases y) auto
  moreover have "map_of xs n = map_of ys' n" if "n \<in> fst ` set xs" for n
  proof -
    have "fst x \<notin> fst ` set xs"
      using Cons.prems(2) by simp
    then have "n \<noteq> fst x"
      using that by metis
    then show ?thesis
      using Cons.prems(3) that y by (cases x; cases y) auto
  qed
  ultimately show ?case
    using Cons.IH[of ys'] y Cons.prems(2) by (simp add: prod_eq_iff)
qed simp

definition set_fields :: "gostruct \<Rightarrow> gostruct \<Rightarrow> gostruct" where
  "set_fields es fs = fold (\<lambda>(n, v). set_field n v) es fs"

lemma map_fst_set_fields [simp]: "map fst (set_fields es fs) = map fst fs"
  unfolding set_fields_def by (induction es arbitrary: fs) auto

lemma map_of_set_fields_other:
  "n \<notin> fst ` set es \<Longrightarrow> map_of (set_fields es fs) n = map_of fs n"
proof (induction es arbitrary: fs)
  case (Cons e es)
  then show ?case
    by (cases e) (simp add: set_fields_def map_of_set_field)
qed (simp add: set_fields_def)

lemma map_of_set_fields:
  "distinct (map fst es) \<Longrightarrow> (n, v) \<in> set es \<Longrightarrow> map_of fs n \<noteq> None \<Longrightarrow>
   map_of (set_fields es fs) n = Some v"
proof (induction es arbitrary: fs)
  case (Cons e es)
  obtain m x where e: "e = (m, x)"
    by (rule prod.exhaust)
  have s: "set_fields (e # es) fs = set_fields es (set_field m x fs)"
    by (simp add: set_fields_def e)
  show ?case
  proof (cases "(n, v) \<in> set es")
    case True
    have "map_of (set_field m x fs) n \<noteq> None"
      using Cons.prems(3) by (auto simp: map_of_set_field)
    then show ?thesis
      using Cons.IH[of "set_field m x fs"] Cons.prems(1) True unfolding s by simp
  next
    case False
    then have "n = m" "v = x" "n \<notin> fst ` set es"
      using Cons.prems e by auto
    then show ?thesis
      using map_of_set_fields_other[of n es "set_field m x fs"] Cons.prems(3) unfolding s
      by (auto simp: map_of_set_field)
  qed
qed simp

definition encode_entry :: "string \<times> goval \<Rightarrow> bytes" where
  "encode_entry e = encodeString (fst e) @ encodeValue (snd e)"

lemma decode_entry_encode:
  assumes "map_of fs n = Some v'" "zero_value v' = zero_value v" "wf_value v" "length n < 2 ^ 32"
  shows "decode_entry fs (encode_entry (n, v) @ r) = Some (set_field n v fs, r)"
proof -
  have s: "reads decodeString (encodeString n) n"
    by (rule reads_string[OF assms(4)])
  then obtain bd t where e: "encodeString n = bd # t" "decodeString bd (t @ encodeValue v @ r) = Some (n, encodeValue v @ r)"
    unfolding reads_def by (cases "encodeString n") auto
  show ?thesis
    using e assms(1) decodeValue_encode[OF assms(3,2)] by (simp add: decode_entry_def encode_entry_def)
qed

lemma decode_entries_encode:
  assumes "\<forall>(n, v)\<in>set es. wf_value v \<and> length n < 2 ^ 32 \<and> map_of (shape fs) n = Some (zero_value v)"
  shows "decode_entries (length es) fs (concat (map encode_entry es) @ r) = Some (set_fields es fs, r)"
  using assms
proof (induction es arbitrary: fs)
  case (Cons e es)
  obtain n v where e: "e = (n, v)"
    by (rule prod.exhaust)
  then obtain v' where v': "map_of fs n = Some v'" "zero_value v' = zero_value v"
    using Cons.prems by (auto simp: map_of_shape)
  have "shape (set_field n v fs) = shape fs"
    by (rule shape_set_field[OF v'])
  then show ?case
    using Cons decode_entry_encode[OF v', of "concat (map encode_entry es) @ r"] e
    by (simp add: set_fields_def)
qed (simp add: set_fields_def)

definition wf_struct :: "gostruct \<Rightarrow> bool" where
  "wf_struct fs \<longleftrightarrow> distinct (map fst fs) \<and> length fs < 2 ^ 32 \<and>
     (\<forall>(n, v)\<in>set fs. wf_value v \<and> length n < 2 ^ 32)"

lemma encodeStruct_eq:
  "encodeStruct fs = writeContainerLen containerMap (length fs) @ concat (map encode_entry (sfi fs))"
proof -
  have "(\<lambda>(n, v). encodeString n @ encodeValue v) = encode_entry"
    by (simp add: fun_eq_iff encode_entry_def)
  then show ?thesis
    by (simp add: encodeStruct_def)
qed

text \<open>
  A struct decodes to the values it was encoded from, field by field, whatever
  the values of the receiving struct were before, and nothing behind it is consumed.
\<close>

theorem struct_roundtrip:
  assumes "wf_struct fs" "shape fs0 = shape fs"
  shows "decodeStruct fs0 (encodeStruct fs @ r) = Some (fs, r)"
proof -
  let ?w = "writeContainerLen containerMap (length fs)" and ?es = "sfi fs"
  have d: "distinct (map fst fs)" and l: "length fs < 2 ^ 32"
    using assms(1) by (simp_all add: wf_struct_def)
  have p: "set ?es = set fs" "length ?es = length fs" "mset (map fst ?es) = mset (map fst fs)"
    by (simp_all add: sfi_def)
  have de: "distinct (map fst ?es)"
    using d p(3) by (metis mset_eq_imp_distinct_iff)
  have keys: "map fst fs0 = map fst fs"
    using arg_cong[OF assms(2), of "map fst"] by (simp add: shape_def comp_def split_beta)
  have sh: "map_of (shape fs0) n = Some (zero_value v)" if "(n, v) \<in> set fs" for n v
    using that d by (simp add: assms(2) map_of_shape)
  have "decode_entries (length fs) fs0 (concat (map encode_entry ?es) @ r) = Some (set_fields ?es fs0, r)"
    unfolding p(2)[symmetric] using assms(1) sh p(1)
    by (intro decode_entries_encode) (auto simp: wf_struct_def)
  moreover have "set_fields ?es fs0 = fs"
  proof (rule fields_eqI)
    show "map fst (set_fields ?es fs0) = map fst fs" "distinct (map fst (set_fields ?es fs0))"
      using keys d by simp_all
    show "\<forall>n\<in>fst ` set (set_fields ?es fs0). map_of (set_fields ?es fs0) n = map_of fs n"
    proof
      fix n
      assume "n \<in> fst ` set (set_fields ?es fs0)"
      then have "n \<in> set (map fst fs)"
        using keys by (metis map_fst_set_fields set_map)
      then obtain v where v: "(n, v) \<in> set fs"
        by auto
      have "map_of fs0 n \<noteq> None"
        using sh[OF v] by (auto simp: map_of_shape)
      then show "map_of (set_fields ?es fs0) n = map_of fs n"
        using map_of_set_fields[OF de, of n v fs0] v p(1) d by simp
    qed
  qed
  moreover have "decodeStruct fs0 (?w @ x) = decode_entries (length fs) fs0 x" for x
    using reads_map_len[OF l] unfolding reads_def
    by (cases ?w) (auto simp: decodeStruct_def)
  ultimately show ?thesis
    by (simp add: encodeStruct_eq)
qed

theorem struct_roundtrip_witness:
  "decodeStruct [(''Node'', VString ''old''), (''Inc'', VUint 32 0), (''Meta'', VBytes (Some [9])), (''N'', VInt 7)]
     (encodeStruct [(''Node'', VString ''n1''), (''Inc'', VUint 32 70000), (''Meta'', VBytes None), (''N'', VInt (- 200))] @ [1, 2]) =
   Some ([(''Node'', VString ''n1''), (''Inc'', VUint 32 70000), (''Meta'', VBytes None), (''N'', VInt (- 200))], [1, 2])"
  by (rule struct_roundtrip) (simp_all add: wf_struct_def shape_def)

end
