(* ===== verification/GoFloat.thy ===== *)
theory GoFloat
  imports Prelude
begin

text \<open>
  Go's \<open>float64\<close> (IEEE 754 binary64, round to nearest, ties to even), which holds every
  counter value.  A finite value is a sign and a magnitude counted in units of
  \<open>2 ^ -1074\<close>, the smallest positive double: every finite double is a whole number of such
  units, so sums are exact integer sums followed by one rounding.  All NaNs are one value (the
  code never looks at a NaN's payload).
\<close>

section \<open>Values\<close>

datatype f64 = FNaN | FInf bool | FFin bool nat

definition f_one :: nat where
  "f_one = 2 ^ 1074"

definition f_lim :: nat where
  "f_lim = 2 ^ 2098"

text \<open>
  \<open>f_one\<close> units make 1, and \<open>f_lim\<close> is \<open>2 ^ 1024\<close>, the first magnitude that overflows.
  \<open>f64_rep m\<close>: \<open>m\<close> units are a double, that is at most 53 significant bits and below
  \<open>2 ^ 1024\<close>.
\<close>

definition f64_rep :: "nat \<Rightarrow> bool" where
  "f64_rep m \<longleftrightarrow> m < f_lim \<and> 2 ^ (floorlog 2 m - 53) dvd m"

fun f64_ok :: "f64 \<Rightarrow> bool" where
  "f64_ok (FFin s m) = f64_rep m"
| "f64_ok _ = True"

text \<open>The quotient \<open>n / d\<close> rounded to 53 significant bits, a tie to the even neighbour.\<close>

definition rnd :: "nat \<Rightarrow> nat \<Rightarrow> nat" where
  "rnd n d =
     (let k = floorlog 2 (n div d) - 53;
          e = d * 2 ^ k;
          q = n div e;
          r = n mod e
      in (if e < 2 * r \<or> (e = 2 * r \<and> odd q) then q + 1 else q) * 2 ^ k)"

definition f_mk :: "bool \<Rightarrow> nat \<Rightarrow> f64" where
  "f_mk s m = (if f_lim \<le> m then FInf s else FFin s m)"

definition sval :: "bool \<Rightarrow> nat \<Rightarrow> int" where
  "sval s m = (if s then - int m else int m)"

section \<open>Operations\<close>

fun f_neg :: "f64 \<Rightarrow> f64" where
  "f_neg FNaN = FNaN"
| "f_neg (FInf s) = FInf (\<not> s)"
| "f_neg (FFin s m) = FFin (\<not> s) m"

fun f_add :: "f64 \<Rightarrow> f64 \<Rightarrow> f64" where
  "f_add FNaN b = FNaN"
| "f_add a FNaN = FNaN"
| "f_add (FInf s) (FInf t) = (if s = t then FInf s else FNaN)"
| "f_add (FInf s) (FFin t n) = FInf s"
| "f_add (FFin s m) (FInf t) = FInf t"
| "f_add (FFin s m) (FFin t n) =
     (let z = sval s m + sval t n
      in if z = 0 then FFin (s \<and> t) 0 else f_mk (z < 0) (rnd (nat \<bar>z\<bar>) 1))"

instantiation f64 :: "{zero, plus, uminus, minus}"
begin

definition zero_f64 :: f64 where "0 = FFin False 0"
definition plus_f64 :: "f64 \<Rightarrow> f64 \<Rightarrow> f64" where "a + b = f_add a b"
definition uminus_f64 :: "f64 \<Rightarrow> f64" where "- a = f_neg a"
definition minus_f64 :: "f64 \<Rightarrow> f64 \<Rightarrow> f64" where "a - b = f_add a (f_neg b)"

instance ..

end

text \<open>
  Go's \<open><\<close> and \<open>==\<close>: false as soon as one side is NaN, and \<open>-0 == 0\<close>.  The key of an
  infinity is beyond every representable magnitude.
\<close>

fun fkey :: "f64 \<Rightarrow> int" where
  "fkey FNaN = 0"
| "fkey (FInf s) = sval s f_lim"
| "fkey (FFin s m) = sval s m"

definition f_less :: "f64 \<Rightarrow> f64 \<Rightarrow> bool" where
  "f_less a b \<longleftrightarrow> a \<noteq> FNaN \<and> b \<noteq> FNaN \<and> fkey a < fkey b"

definition f_eq :: "f64 \<Rightarrow> f64 \<Rightarrow> bool" where
  "f_eq a b \<longleftrightarrow> a \<noteq> FNaN \<and> b \<noteq> FNaN \<and> fkey a = fkey b"

text \<open>The IEEE 754 bit pattern (\<open>math.Float64bits\<close>) and its inverse.\<close>

fun f64_bits :: "f64 \<Rightarrow> nat" where
  "f64_bits FNaN = 0x7FF8000000000001"
| "f64_bits (FInf s) = of_bool s * 2 ^ 63 + 2047 * 2 ^ 52"
| "f64_bits (FFin s m) = of_bool s * 2 ^ 63 +
     (if m < 2 ^ 52 then m
      else let k = floorlog 2 m - 53 in (k + 1) * 2 ^ 52 + (m div 2 ^ k - 2 ^ 52))"

definition f64_of_bits :: "nat \<Rightarrow> f64" where
  "f64_of_bits w =
     (let s = odd (w div 2 ^ 63);
          e = w div 2 ^ 52 mod 2048;
          f = w mod 2 ^ 52
      in if e = 2047 then (if f = 0 then FInf s else FNaN)
         else if e = 0 then FFin s f
         else FFin s ((2 ^ 52 + f) * 2 ^ (e - 1)))"

section \<open>Rounding\<close>

lemma f_one_pos [simp]: "0 < f_one"
  by (simp add: f_one_def)

lemma f_one_nonzero [simp]: "f_one \<noteq> 0"
  using f_one_pos by (rule gr_implies_not0)

lemma f_lim_pos [simp]: "0 < f_lim"
  unfolding f_lim_def by (rule zero_less_power) simp

lemma f_lim_nonzero [simp]: "f_lim \<noteq> 0"
  by (simp add: f_lim_def)

lemma floorlog_le: "m < 2 ^ j \<Longrightarrow> floorlog 2 m \<le> j"
  by (simp add: floorlog_leI)

lemma rnd_scale: "0 < c \<Longrightarrow> rnd (n * c) (d * c) = rnd n d"
proof -
  assume c: "0 < c"
  have "n * c mod (d * c * 2 ^ k) = n mod (d * 2 ^ k) * c"
    and "n * c div (d * c * 2 ^ k) = n div (d * 2 ^ k)" for k
    using c div_mult_mult2[of c n "d * 2 ^ k"] mult_mod_left[of n "d * 2 ^ k" c]
    by (simp_all add: mult.assoc mult.commute[of c])
  moreover have "(d * c * 2 ^ k < 2 * (x * c)) = (d * 2 ^ k < 2 * x)"
    and "(d * c * 2 ^ k = 2 * (x * c)) = (d * 2 ^ k = 2 * x)" for x k :: nat
  proof -
    have "d * c * 2 ^ k = d * 2 ^ k * c" "2 * (x * c) = 2 * x * c"
      by simp_all
    then show "(d * c * 2 ^ k < 2 * (x * c)) = (d * 2 ^ k < 2 * x)"
      and "(d * c * 2 ^ k = 2 * (x * c)) = (d * 2 ^ k = 2 * x)"
      using c by (simp_all only: mult_less_cancel2 mult_cancel2) simp_all
  qed
  moreover have "n * c div (d * c) = n div d"
    using c by simp
  ultimately show ?thesis
    unfolding rnd_def Let_def by (simp only:)
qed

lemma f64_rep_shift: "c < 2 ^ 53 \<Longrightarrow> c * 2 ^ j < f_lim \<Longrightarrow> f64_rep (c * 2 ^ j)"
proof -
  assume c: "c < 2 ^ 53" and b: "c * 2 ^ j < f_lim"
  have "c * 2 ^ j < 2 ^ (53 + j)"
    using c by (simp add: power_add)
  then have "floorlog 2 (c * 2 ^ j) - 53 \<le> j"
    using floorlog_le by fastforce
  then have "2 ^ (floorlog 2 (c * 2 ^ j) - 53) dvd (2 ^ j :: nat)"
    by (rule le_imp_power_dvd)
  then have "2 ^ (floorlog 2 (c * 2 ^ j) - 53) dvd c * 2 ^ j"
    by (rule dvd_mult)
  with b show "f64_rep (c * 2 ^ j)"
    by (simp add: f64_rep_def)
qed

lemma f64_rep_shift_le: "c \<le> 2 ^ 53 \<Longrightarrow> c * 2 ^ j < f_lim \<Longrightarrow> f64_rep (c * 2 ^ j)"
proof (cases "c = 2 ^ 53")
  case True
  then have "c * 2 ^ j = 2 ^ 52 * 2 ^ (Suc j)"
    by simp
  then show "c * 2 ^ j < f_lim \<Longrightarrow> f64_rep (c * 2 ^ j)"
    by (metis f64_rep_shift power_strict_increasing_iff one_less_numeral_iff
        semiring_norm(76) eval_nat_numeral(3) lessI)
qed (simp add: f64_rep_shift)

lemma rnd_exact: "f64_rep m \<Longrightarrow> 0 < d \<Longrightarrow> rnd (m * d) d = m"
proof -
  assume m: "f64_rep m" and d: "0 < d"
  let ?k = "floorlog 2 m - 53"
  have dv: "2 ^ ?k dvd m"
    using m by (simp add: f64_rep_def)
  have q: "m * d div (d * 2 ^ ?k) = m div 2 ^ ?k"
    using d by (simp add: mult.commute[of m d])
  have r: "m mod 2 ^ ?k = 0"
    using dv by simp
  show ?thesis
    using d dv by (simp add: rnd_def Let_def q r)
qed

lemma rnd_shape: "\<exists>c j. rnd n d = c * 2 ^ j \<and> c \<le> 2 ^ 53"
proof -
  define k where "k = floorlog 2 (n div d) - 53"
  have "n div d < 2 ^ floorlog 2 (n div d)"
    using floorlog_bounds[of "n div d" 2] by (cases "n div d = 0") auto
  also have "(2::nat) ^ floorlog 2 (n div d) \<le> 2 ^ (53 + k)"
    by (rule power_increasing) (simp_all add: k_def)
  finally have "n div (d * 2 ^ k) < 2 ^ 53"
    by (simp add: div_mult2_eq less_mult_imp_div_less power_add)
  then show ?thesis
    by (intro exI[of _ "if d * 2 ^ k < 2 * (n mod (d * 2 ^ k)) \<or>
          (d * 2 ^ k = 2 * (n mod (d * 2 ^ k)) \<and> odd (n div (d * 2 ^ k)))
        then n div (d * 2 ^ k) + 1 else n div (d * 2 ^ k)"] exI[of _ k])
      (auto simp: rnd_def Let_def k_def)
qed

lemma f64_ok_mk_rnd [simp]: "f64_ok (f_mk s (rnd n d))"
proof -
  obtain c j where "rnd n d = c * 2 ^ j" "c \<le> 2 ^ 53"
    using rnd_shape by blast
  then show ?thesis
    by (auto simp: f_mk_def intro: f64_rep_shift_le)
qed

lemma f64_rep_0 [simp]: "f64_rep 0"
  by (simp add: f64_rep_def)

lemma f64_ok_0 [simp]: "f64_ok 0"
  by (simp add: zero_f64_def)

lemma f64_ok_add [simp]: "f64_ok a \<Longrightarrow> f64_ok b \<Longrightarrow> f64_ok (a + b)"
  unfolding plus_f64_def by (induction a b rule: f_add.induct) (auto simp: Let_def)

lemma f64_ok_neg_iff [simp]: "f64_ok (f_neg a) \<longleftrightarrow> f64_ok a"
  by (cases a) auto

lemma f64_ok_uminus [simp]: "f64_ok (- a) \<longleftrightarrow> f64_ok a"
  by (simp add: uminus_f64_def)

lemma minus_f64_eq: "a - b = a + - (b::f64)"
  by (simp add: minus_f64_def plus_f64_def uminus_f64_def)

lemma f64_ok_minus [simp]: "f64_ok a \<Longrightarrow> f64_ok b \<Longrightarrow> f64_ok (a - b)"
  by (simp add: minus_f64_eq)

lemma f_add_commute: "a + b = b + (a::f64)"
  unfolding plus_f64_def by (cases a; cases b) (auto simp: Let_def add.commute)

section \<open>Exact sums\<close>

text \<open>
  \<open>f_holds f z\<close>: \<open>f\<close> is finite and its value is exactly \<open>z\<close> units.  A sum whose exact value
  is representable is that value.
\<close>

fun f_holds :: "f64 \<Rightarrow> int \<Rightarrow> bool" where
  "f_holds (FFin s m) z = (sval s m = z)"
| "f_holds _ z = False"

lemma f_holds_0 [simp]: "f_holds 0 0"
  by (simp add: zero_f64_def sval_def)

lemma f_holds_uminus: "f_holds a x \<Longrightarrow> f_holds (- a) (- x)"
  by (cases a) (auto simp: uminus_f64_def sval_def)

lemma f_holds_add:
  assumes "f_holds a x" "f_holds b y" "f64_rep (nat \<bar>x + y\<bar>)"
  shows "f_holds (a + b) (x + y)"
proof -
  obtain s m t n where ab: "a = FFin s m" "b = FFin t n" and xy: "x = sval s m" "y = sval t n"
    using assms(1,2) by (cases a; cases b) auto
  have "rnd (nat \<bar>x + y\<bar>) 1 = nat \<bar>x + y\<bar>"
    using rnd_exact[OF assms(3), of 1] by simp
  moreover have "nat \<bar>x + y\<bar> < f_lim"
    using assms(3) by (simp add: f64_rep_def)
  ultimately show ?thesis
    by (auto simp: ab xy plus_f64_def Let_def f_mk_def sval_def)
qed

lemma f_holds_minus:
  "f_holds a x \<Longrightarrow> f_holds b y \<Longrightarrow> f64_rep (nat \<bar>x - y\<bar>) \<Longrightarrow> f_holds (a - b) (x - y)"
  using f_holds_add[OF _ f_holds_uminus, of a x b y] by (simp add: minus_f64_eq)

lemma f_holds_fkey: "f_holds a x \<Longrightarrow> fkey a = x \<and> a \<noteq> FNaN"
  by (cases a) auto

lemma f_less_holds [simp]: "f_holds a x \<Longrightarrow> f_holds b y \<Longrightarrow> f_less a b \<longleftrightarrow> x < y"
  by (auto simp: f_less_def dest!: f_holds_fkey)

lemma f_eq_holds [simp]: "f_holds a x \<Longrightarrow> f_holds b y \<Longrightarrow> f_eq a b \<longleftrightarrow> x = y"
  by (auto simp: f_eq_def dest!: f_holds_fkey)

text \<open>Whole numbers: \<open>f_is_int f n\<close> says the value of \<open>f\<close> is the integer \<open>n\<close>.\<close>

definition f_is_int :: "f64 \<Rightarrow> int \<Rightarrow> bool" where
  "f_is_int f n \<longleftrightarrow> f_holds f (n * int f_one)"

definition f_of_int :: "int \<Rightarrow> f64" where
  "f_of_int n = FFin (n < 0) (nat \<bar>n\<bar> * f_one)"

lemma f64_rep_int: "\<bar>n\<bar> \<le> 2 ^ 53 \<Longrightarrow> f64_rep (nat \<bar>n * int f_one\<bar>)"
proof -
  assume "\<bar>n\<bar> \<le> 2 ^ 53"
  then have n: "nat \<bar>n\<bar> \<le> 2 ^ 53"
    by (simp add: nat_le_iff)
  then have "nat \<bar>n\<bar> * f_one \<le> 2 ^ 53 * f_one"
    by (rule mult_right_mono) simp
  also have "\<dots> < f_lim"
    by (simp only: f_one_def f_lim_def power_add[symmetric]) simp
  finally show ?thesis
    using f64_rep_shift_le[OF n, of 1074, folded f_one_def]
    by (simp add: abs_mult nat_mult_distrib)
qed

lemma f_is_int_of_int [simp]: "f_is_int (f_of_int n) n"
  by (simp add: f_is_int_def f_of_int_def sval_def)

lemma f64_ok_of_int: "\<bar>n\<bar> \<le> 2 ^ 53 \<Longrightarrow> f64_ok (f_of_int n)"
  using f64_rep_int[of n] by (simp add: f_of_int_def abs_mult nat_mult_distrib)

lemma f_is_int_0 [simp]: "f_is_int 0 0"
  by (simp add: f_is_int_def)

lemma f_is_int_uminus: "f_is_int a x \<Longrightarrow> f_is_int (- a) (- x)"
  using f_holds_uminus by (fastforce simp: f_is_int_def)

lemma f_is_int_add:
  "f_is_int a x \<Longrightarrow> f_is_int b y \<Longrightarrow> \<bar>x + y\<bar> \<le> 2 ^ 53 \<Longrightarrow> f_is_int (a + b) (x + y)"
  using f_holds_add[of a "x * int f_one" b "y * int f_one"] f64_rep_int[of "x + y"]
  by (simp add: f_is_int_def distrib_right)

lemma f_is_int_minus:
  "f_is_int a x \<Longrightarrow> f_is_int b y \<Longrightarrow> \<bar>x - y\<bar> \<le> 2 ^ 53 \<Longrightarrow> f_is_int (a - b) (x - y)"
  using f_is_int_add[OF _ f_is_int_uminus, of a x b y] by (simp add: minus_f64_eq)

lemma f_is_int_less: "f_is_int a x \<Longrightarrow> f_is_int b y \<Longrightarrow> f_less a b \<longleftrightarrow> x < y"
  by (simp add: f_is_int_def)

lemma f_is_int_eq: "f_is_int a x \<Longrightarrow> f_is_int b y \<Longrightarrow> f_eq a b \<longleftrightarrow> x = y"
  by (simp add: f_is_int_def)

lemma f_is_int_unique: "f_is_int a x \<Longrightarrow> f_is_int a y \<Longrightarrow> x = y"
  by (cases a) (auto simp: f_is_int_def)

lemma f_minus_self: "f_holds a x \<Longrightarrow> f_holds (a - a) 0"
  using f_holds_minus[of a x a x] by simp

section \<open>Bit patterns\<close>

lemma f64_normal:
  assumes "f64_rep m" "2 ^ 52 \<le> m"
  obtains c k where "k = floorlog 2 m - 53" "m = c * 2 ^ k" "2 ^ 52 \<le> c" "c < 2 ^ 53" "k \<le> 2045"
proof -
  define F where "F = floorlog 2 m"
  have m: "2 ^ (F - 1) \<le> m" "m < 2 ^ F"
    using floorlog_bounds[of m 2] assms(2) by (auto simp: F_def)
  have "(2::nat) ^ 52 < 2 ^ F"
    using assms(2) m(2) by (rule le_less_trans)
  then have F: "53 \<le> F"
    by (simp only: power_strict_increasing_iff one_less_numeral_iff semiring_norm)
  have "(2::nat) ^ (F - 1) < 2 ^ 2098"
    using m(1) assms(1) by (simp only: f64_rep_def f_lim_def) linarith
  then have "F - 1 < 2098"
    by (simp only: power_strict_increasing_iff one_less_numeral_iff semiring_norm)
  moreover obtain k where k: "F = 53 + k"
    using F by (metis le_Suc_ex)
  moreover obtain c where c: "m = c * 2 ^ k"
    using assms(1) k by (auto simp: f64_rep_def F_def[symmetric] mult.commute elim: dvdE)
  moreover have "F - 1 = 52 + k"
    using k by simp
  then have "2 ^ 52 * 2 ^ k \<le> c * 2 ^ k" "c * 2 ^ k < 2 ^ 53 * 2 ^ k"
    using m by (simp_all only: c k power_add)
  then have "2 ^ 52 \<le> c" "c < 2 ^ 53"
    by simp_all
  ultimately show thesis
    using that[of k c] by (simp add: F_def)
qed

lemma f64_fields:
  fixes e f w :: nat
  assumes "e < 2048" "f < 2 ^ 52" "w = of_bool s * 2 ^ 63 + e * 2 ^ 52 + f"
  shows "odd (w div 2 ^ 63) = s" "w div 2 ^ 52 mod 2048 = e" "w mod 2 ^ 52 = f" "w < 2 ^ 64"
proof -
  have w: "w = f + (of_bool s * 2048 + e) * 2 ^ 52"
    by (simp add: assms(3))
  have d: "w div 2 ^ 52 = of_bool s * 2048 + e" "w mod 2 ^ 52 = f"
    using assms(2) unfolding w by (simp_all only: div_mult_self1 mod_mult_self1) simp_all
  then show "w div 2 ^ 52 mod 2048 = e" "w mod 2 ^ 52 = f"
    using assms(1) by simp_all
  have "w div 2 ^ 63 = w div 2 ^ 52 div 2048"
    by (simp flip: div_mult2_eq)
  also have "\<dots> = of_bool s"
    unfolding d(1) using assms(1) by simp
  finally have "w div 2 ^ 63 = of_bool s" .
  then show "odd (w div 2 ^ 63) = s"
    by simp
  show "w < 2 ^ 64"
    using assms by (cases s) auto
qed

lemma f64_bits_fields:
  assumes "f64_ok f"
  obtains s e g where "e < 2048" "g < 2 ^ 52" "f64_bits f = of_bool s * 2 ^ 63 + e * 2 ^ 52 + g"
    and "f = (if e = 2047 then (if g = 0 then FInf s else FNaN)
              else if e = 0 then FFin s g else FFin s ((2 ^ 52 + g) * 2 ^ (e - 1)))"
proof (cases f)
  case FNaN
  then show thesis
    using that[of 2047 "2 ^ 51 + 1" False] by simp
next
  case (FInf s)
  then show thesis
    using that[of 2047 0 s] by simp
next
  case (FFin s m)
  show thesis
  proof (cases "m < 2 ^ 52")
    case True
    then show thesis
      using that[of 0 m s] FFin by simp
  next
    case False
    with assms FFin have m: "f64_rep m" "2 ^ 52 \<le> m"
      by simp_all
    obtain c k where k: "k = floorlog 2 m - 53" and c: "m = c * 2 ^ k" "2 ^ 52 \<le> c" "c < 2 ^ 53"
      and "k \<le> 2045"
      using m by (rule f64_normal)
    moreover have "m div 2 ^ k = c"
      by (simp add: c)
    ultimately show thesis
      using that[of "k + 1" "c - 2 ^ 52" s] FFin False by (simp add: Let_def flip: k)
  qed
qed

lemma f64_bits_less [simp]: "f64_ok f \<Longrightarrow> f64_bits f < 2 ^ 64"
  by (elim f64_bits_fields) (rule f64_fields(4))

lemma f64_of_bits_bits [wire]: "f64_ok f \<Longrightarrow> f64_of_bits (f64_bits f) = f"
proof (elim f64_bits_fields)
  fix s e g
  assume a: "e < 2048" "g < 2 ^ 52" "f64_bits f = of_bool s * 2 ^ 63 + e * 2 ^ 52 + g"
    and f: "f = (if e = 2047 then (if g = 0 then FInf s else FNaN)
              else if e = 0 then FFin s g else FFin s ((2 ^ 52 + g) * 2 ^ (e - 1)))"
  show "f64_of_bits (f64_bits f) = f"
    unfolding f64_of_bits_def Let_def f64_fields(1-3)[OF a] by (subst f) (rule refl)
qed

lemma f64_ok_of_bits [simp]: "f64_ok (f64_of_bits w)"
proof -
  define e f where "e = w div 2 ^ 52 mod 2048" and "f = w mod 2 ^ 52"
  have f: "f < 2 ^ 52"
    by (simp add: f_def)
  have "f64_rep f"
    using f64_rep_shift[of f 0] f power_strict_increasing[of 52 2098 "2::nat"]
    by (simp add: f_lim_def)
  moreover have "f64_rep ((2 ^ 52 + f) * 2 ^ (e - 1))" if "e \<noteq> 2047"
  proof (rule f64_rep_shift)
    have "e - 1 \<le> 2045"
      using that mod_less_divisor[of 2048 "w div 2 ^ 52"] unfolding e_def by linarith
    then have "(2::nat) ^ (e - 1) \<le> 2 ^ 2045"
      by (rule power_increasing) simp
    moreover have "2 ^ 52 + f < 2 ^ 53"
      using f by simp
    ultimately have "(2 ^ 52 + f) * 2 ^ (e - 1) < 2 ^ 53 * 2 ^ 2045"
      by (intro mult_less_le_imp_less) simp_all
    also have "\<dots> = f_lim"
      unfolding f_lim_def power_add[symmetric] by simp
    finally show "(2 ^ 52 + f) * 2 ^ (e - 1) < f_lim" .
  qed (use f in simp)
  ultimately show ?thesis
    by (auto simp: f64_of_bits_def Let_def e_def f_def)
qed

section \<open>Rounding is monotone\<close>

lemma f64_rep_multiple:
  assumes "f64_rep m" "2 ^ (52 + k) \<le> m"
  shows "2 ^ k dvd m"
proof -
  have "m < 2 ^ floorlog 2 m"
    using floorlog_bounds[of m 2] by (cases "m = 0") auto
  with assms(2) have "(2::nat) ^ (52 + k) < 2 ^ floorlog 2 m"
    by (rule le_less_trans)
  then have "52 + k < floorlog 2 m"
    by simp
  then have "k \<le> floorlog 2 m - 53"
    by simp
  then show ?thesis
    using assms(1) unfolding f64_rep_def by (meson dvd_trans le_imp_power_dvd)
qed

lemma rnd_bracket:
  defines "k n \<equiv> floorlog 2 n - 53"
  shows "n div 2 ^ k n * 2 ^ k n \<le> rnd n 1"
    and "rnd n 1 \<le> n \<or> rnd n 1 = (n div 2 ^ k n + 1) * 2 ^ k n"
    and "k n = 0 \<or> 2 ^ (52 + k n) \<le> n"
proof -
  show "n div 2 ^ k n * 2 ^ k n \<le> rnd n 1"
    by (simp add: rnd_def Let_def k_def)
  show "rnd n 1 \<le> n \<or> rnd n 1 = (n div 2 ^ k n + 1) * 2 ^ k n"
    by (simp add: rnd_def Let_def k_def)
  show "k n = 0 \<or> 2 ^ (52 + k n) \<le> n"
  proof (cases "k n = 0")
    case False
    then have "0 < n" "52 + k n = floorlog 2 n - 1"
      by (auto simp: k_def floorlog_def split: if_splits)
    then show ?thesis
      using floorlog_bounds[of n 2] by simp
  qed simp
qed

lemma rnd_above:
  assumes "f64_rep m" "m \<le> n"
  shows "m \<le> rnd n 1"
proof -
  define k where "k = floorlog 2 n - 53"
  note b = rnd_bracket[of n, folded k_def]
  have lo: "2 ^ (52 + k) \<le> n div 2 ^ k * 2 ^ k" if "2 ^ (52 + k) \<le> n"
  proof -
    have "2 ^ 52 \<le> n div 2 ^ k"
      using that by (simp add: less_eq_div_iff_mult_less_eq power_add)
    then show ?thesis
      by (simp add: power_add)
  qed
  show ?thesis
  proof (cases "2 ^ (52 + k) \<le> m \<or> k = 0")
    case True
    then have "2 ^ k dvd m"
      using f64_rep_multiple[OF assms(1)] by auto
    then obtain c where "m = c * 2 ^ k"
      by (metis dvd_div_mult_self)
    then have "m \<le> n div 2 ^ k * 2 ^ k"
      using assms(2) by (simp add: less_eq_div_iff_mult_less_eq)
    then show ?thesis
      using b(1) by linarith
  next
    case False
    then show ?thesis
      using b(1,3) lo by linarith
  qed
qed

lemma rnd_below:
  assumes "f64_rep m" "n \<le> m"
  shows "rnd n 1 \<le> m"
proof -
  define k where "k = floorlog 2 n - 53"
  note b = rnd_bracket[of n, folded k_def]
  show ?thesis
  proof (cases "rnd n 1 \<le> n")
    case False
    then have r: "rnd n 1 = (n div 2 ^ k + 1) * 2 ^ k"
      using b(2) by simp
    have "2 ^ k dvd m"
      using b(3) assms(2) f64_rep_multiple[OF assms(1), of k] by (metis dvd_1_iff_1 dvd_triv_left le_trans nat_dvd_1_iff_1 one_dvd power_0)
    then obtain c where c: "m = c * 2 ^ k"
      by (metis dvd_div_mult_self)
    have "m \<noteq> n"
      using False rnd_exact[OF assms(1), of 1] by auto
    then have "n < c * 2 ^ k"
      using assms(2) c by simp
    then have "n div 2 ^ k < c"
      by (simp add: less_mult_imp_div_less)
    then show ?thesis
      unfolding r c by (simp only: mult_le_mono1 Suc_eq_plus1[symmetric] Suc_leI)
  qed (use assms(2) in simp)
qed

lemma rnd_pos: "0 < n \<Longrightarrow> 0 < rnd n 1"
  using rnd_above[of 1 n] by (simp add: f64_rep_def f_lim_def floorlog_def)

text \<open>A sum never lands on the wrong side of one of its terms.\<close>

lemma fkey_mk:
  "fkey (f_mk s m) = sval s (min m f_lim)"
  by (simp add: f_mk_def)

lemma fkey_bound: "f64_ok a \<Longrightarrow> \<bar>fkey a\<bar> \<le> int f_lim"
  by (cases a) (auto simp: sval_def f64_rep_def)

lemma f_add_grows:
  assumes "f64_ok a" "f64_ok d" "f_less 0 d" "a + d \<noteq> FNaN"
  shows "fkey a \<le> fkey (a + d)"
proof (cases a; cases d)
  fix s m t n
  assume ad: "a = FFin s m" "d = FFin t n"
  let ?z = "sval s m + sval t n"
  have t: "\<not> t" "0 < n"
    using assms(3) ad by (auto simp: f_less_def sval_def zero_f64_def split: if_splits)
  have rep: "f64_rep m" "m < f_lim"
    using assms(1) ad by (auto simp: f64_rep_def)
  have "fkey (a + d) = (if ?z = 0 then 0 else sval (?z < 0) (min (rnd (nat \<bar>?z\<bar>) 1) f_lim))"
    by (simp add: ad plus_f64_def Let_def fkey_mk sval_def)
  moreover have "m \<le> rnd (nat \<bar>?z\<bar>) 1" if "\<not> s"
    by (rule rnd_above[OF rep(1)]) (use t that in \<open>simp add: sval_def\<close>)
  moreover have "rnd (nat \<bar>?z\<bar>) 1 \<le> m" if "?z < 0"
    by (rule rnd_below[OF rep(1)]) (use t that in \<open>auto simp: sval_def split: if_splits\<close>)
  ultimately show ?thesis
    using ad t rep(2) by (auto simp: sval_def min_def split: if_splits)
qed (use assms fkey_bound[of a] in \<open>auto simp: plus_f64_def sval_def f_less_def zero_f64_def split: if_splits\<close>)

end
