(* ===== verification/GoStrconv.thy ===== *)
theory GoStrconv
  imports GoFloat
begin

text \<open>
  The conversions of package \<open>strconv\<close> the code uses: decimal integers, booleans,
  \<open>FormatFloat(f, 'f', -1, 64)\<close> (the fewest digits that read back as \<open>f\<close>) and
  \<open>ParseFloat(s, 64)\<close> (correctly rounded; a magnitude beyond the largest double is a range
  error).  The grammar is that of the Go release the repository was written for: decimal
  floats, no hexadecimal ones.
\<close>

section \<open>Decimal digits\<close>

definition digit_char :: "nat \<Rightarrow> char" where
  "digit_char n = char_of (48 + n)"

definition digit_val :: "char \<Rightarrow> nat" where
  "digit_val c = of_char c - 48"

definition is_digit :: "char \<Rightarrow> bool" where
  "is_digit c \<longleftrightarrow> 48 \<le> (of_char c :: nat) \<and> (of_char c :: nat) \<le> 57"

fun dec :: "nat \<Rightarrow> string" where
  "dec n = (if n < 10 then [digit_char n] else dec (n div 10) @ [digit_char (n mod 10)])"

declare dec.simps [simp del]

definition digits_val :: "string \<Rightarrow> nat" where
  "digits_val s = foldl (\<lambda>a c. 10 * a + digit_val c) 0 s"

definition format_int :: "int \<Rightarrow> string" where
  "format_int n = (if n < 0 then CHR ''-'' # dec (nat (- n)) else dec (nat n))"

lemma digit_char_digit [simp]: "n < 10 \<Longrightarrow> is_digit (digit_char n)"
  by (simp add: is_digit_def digit_char_def)

lemma digit_val_char [simp]: "n < 10 \<Longrightarrow> digit_val (digit_char n) = n"
  by (simp add: digit_val_def digit_char_def)

lemma digit_chars:
  "digit_char 0 = CHR ''0''" "digit_char (Suc 0) = CHR ''1''" "digit_char 2 = CHR ''2''" "digit_char 3 = CHR ''3''"
  "digit_char 4 = CHR ''4''" "digit_char 5 = CHR ''5''" "digit_char 6 = CHR ''6''" "digit_char 7 = CHR ''7''"
  "digit_char 8 = CHR ''8''" "digit_char 9 = CHR ''9''"
  by (simp_all add: digit_char_def char_of_def bit_Suc_0_iff)

lemma digits_val_Nil [simp]: "digits_val [] = 0"
  by (simp add: digits_val_def)

lemma digits_val_snoc [simp]: "digits_val (s @ [c]) = 10 * digits_val s + digit_val c"
  by (simp add: digits_val_def)

lemma digits_val_append:
  "digits_val (s @ t) = digits_val s * 10 ^ length t + digits_val t"
  by (induction t rule: rev_induct) (simp_all flip: append_assoc add: algebra_simps)

lemma dec_digits: "\<forall>c \<in> set (dec n). is_digit c"
proof (induction n rule: dec.induct)
  case (1 n)
  then show ?case by (subst dec.simps) auto
qed

lemma dec_nonempty [simp]: "dec n \<noteq> []"
  by (subst dec.simps) simp

lemma digits_val_dec [simp]: "digits_val (dec n) = n"
proof (induction n rule: dec.induct)
  case (1 n)
  show ?case
  proof (cases "n < 10")
    case True
    then show ?thesis by (subst dec.simps) (simp add: digits_val_def)
  next
    case False
    with 1 show ?thesis by (subst dec.simps) simp
  qed
qed

lemma digits_val_zeros [simp]: "digits_val (replicate z (CHR ''0'')) = 0"
  by (induction z) (simp_all add: digits_val_def digit_val_def flip: replicate_append_same)

lemma dec_length: "n < 10 ^ k \<Longrightarrow> 0 < k \<Longrightarrow> length (dec n) \<le> k"
proof (induction n arbitrary: k rule: dec.induct)
  case (1 n)
  show ?case
  proof (cases "n < 10")
    case True
    with 1 show ?thesis by (subst dec.simps) simp
  next
    case False
    with "1.prems" have "k \<noteq> 1"
      by auto
    with "1.prems" obtain j where j: "k = Suc j" "0 < j"
      by (cases k) auto
    with 1 have "n div 10 < 10 ^ j"
      by (simp add: less_mult_imp_div_less)
    with 1 False j show ?thesis by (subst dec.simps) simp
  qed
qed

section \<open>Booleans\<close>

definition format_bool :: "bool \<Rightarrow> string" where
  "format_bool b = (if b then ''true'' else ''false'')"

text \<open>
  \<open>strconv.Quote\<close>: quotes and backslashes are escaped, the control characters by their letter
  or number.  Bytes beyond ASCII are copied, as they are when they encode printable runes.
\<close>

definition hex_char :: "nat \<Rightarrow> char" where
  "hex_char n = (if n < 10 then char_of (48 + n) else char_of (87 + n))"

definition quote_char :: "char \<Rightarrow> string" where
  "quote_char c =
     (let n = of_char c :: nat
      in if c = CHR 0x22 \<or> c = CHR 0x5C then [CHR 0x5C, c]
         else if 7 \<le> n \<and> n \<le> 13 then [CHR 0x5C, ''abtnvfr'' ! (n - 7)]
         else if n < 32 then CHR 0x5C # CHR ''x'' # [hex_char (n div 16), hex_char (n mod 16)]
         else if n = 127 then CHR 0x5C # ''u007f''
         else [c])"

definition quote :: "string \<Rightarrow> string" where
  "quote s = CHR 0x22 # concat (map quote_char s) @ [CHR 0x22]"

definition num_error :: "string \<Rightarrow> string \<Rightarrow> string \<Rightarrow> goerr" where
  "num_error fn s why = ErrMsg (''strconv.'' @ fn @ '': parsing '' @ quote s @ '': '' @ why)"

definition parse_bool :: "string \<Rightarrow> bool result" where
  "parse_bool s =
     (if s \<in> {''1'', ''t'', ''T'', ''true'', ''TRUE'', ''True''} then Inr True
      else if s \<in> {''0'', ''f'', ''F'', ''false'', ''FALSE'', ''False''} then Inr False
      else Inl (num_error ''ParseBool'' s ''invalid syntax''))"

lemma parse_format_bool [wire]: "parse_bool (format_bool b) = Inr b"
  by (simp add: parse_bool_def format_bool_def)

section \<open>ParseFloat\<close>

definition lower_case :: "string \<Rightarrow> string" where
  "lower_case s =
     map (\<lambda>c. let n = of_char c :: nat in if 65 \<le> n \<and> n \<le> 90 then char_of (n + 32) else c) s"

definition special_float :: "string \<Rightarrow> f64 option" where
  "special_float s =
     (let l = lower_case s
      in if l \<in> {''+inf'', ''+infinity'', ''inf'', ''infinity''} then Some (FInf False)
         else if l \<in> {''-inf'', ''-infinity''} then Some (FInf True)
         else if l = ''nan'' then Some FNaN
         else None)"

text \<open>The optional sign of a number: is it negative, and what follows.\<close>

fun split_sign :: "string \<Rightarrow> bool \<times> string" where
  "split_sign [] = (False, [])"
| "split_sign (c # s) =
     (if c = CHR ''+'' then (False, s) else if c = CHR ''-'' then (True, s) else (False, c # s))"

definition split_frac :: "string \<Rightarrow> string \<times> string" where
  "split_frac s =
     (case s of [] \<Rightarrow> ([], [])
      | c # t \<Rightarrow> if c = CHR ''.'' then (takeWhile is_digit t, dropWhile is_digit t) else ([], s))"

text \<open>The exponent stops growing at five digits, as the code's accumulator does.\<close>

definition exp_val :: "string \<Rightarrow> nat" where
  "exp_val s = foldl (\<lambda>e c. if e < 10000 then e * 10 + digit_val c else e) 0 s"

definition split_exp :: "string \<Rightarrow> int option" where
  "split_exp s =
     (case s of [] \<Rightarrow> Some 0
      | c # t \<Rightarrow>
          if c = CHR ''e'' \<or> c = CHR ''E'' then
            (let (neg, d) = split_sign t
             in if d = [] \<or> \<not> list_all is_digit d then None
                else Some (if neg then - int (exp_val d) else int (exp_val d)))
          else None)"

text \<open>The decimal \<open>d * 10 ^ e\<close> in units, rounded.\<close>

definition round_dec :: "nat \<Rightarrow> int \<Rightarrow> nat" where
  "round_dec d e =
     (if 0 \<le> e then rnd (d * 10 ^ nat e * f_one) 1 else rnd (d * f_one) (10 ^ nat (- e)))"

definition parse_float :: "string \<Rightarrow> f64 result" where
  "parse_float s =
     (case special_float s of
        Some f \<Rightarrow> Inr f
      | None \<Rightarrow>
          (let (neg, r) = split_sign s;
               ip = takeWhile is_digit r;
               (fp, r') = split_frac (dropWhile is_digit r)
           in if ip = [] \<and> fp = [] then Inl (num_error ''ParseFloat'' s ''invalid syntax'')
              else case split_exp r' of
                None \<Rightarrow> Inl (num_error ''ParseFloat'' s ''invalid syntax'')
              | Some e \<Rightarrow>
                  (let m = round_dec (digits_val (ip @ fp)) (e - int (length fp))
                   in if f_lim \<le> m then Inl (num_error ''ParseFloat'' s ''value out of range'')
                      else Inr (FFin neg m))))"

section \<open>FormatFloat\<close>

text \<open>
  \<open>m\<close> units are exactly \<open>m * f_five\<close> units of \<open>10 ^ -1074\<close>.  Decimals with ever more digits
  are tried: the exact value cut at the digit, and the cut plus one; the first that rounds
  back to \<open>m\<close> is taken, and of two the nearer (a tie to the even digit).
\<close>

definition f_five :: nat where
  "f_five = 5 ^ 1074"

definition f_ten :: nat where
  "f_ten = 10 ^ 1074"

fun short_dec :: "nat \<Rightarrow> nat \<Rightarrow> nat \<Rightarrow> nat" where
  "short_dec m d 0 = d"
| "short_dec m d (Suc p) =
     (let u = 10 ^ Suc p;
          q = d div u;
          r = d mod u;
          okdown = (rnd (q * u) f_five = m);
          okup = (rnd ((q + 1) * u) f_five = m)
      in if okdown \<and> okup then (if u < 2 * r \<or> (u = 2 * r \<and> odd q) then (q + 1) * u else q * u)
         else if okdown then q * u
         else if okup then (q + 1) * u
         else short_dec m d p)"

definition shortest :: "nat \<Rightarrow> nat" where
  "shortest m = short_dec m (m * f_five) (length (dec (m * f_five)) - 1)"

definition pad_left :: "nat \<Rightarrow> string \<Rightarrow> string" where
  "pad_left n s = replicate (n - length s) (CHR ''0'') @ s"

definition strip_zeros :: "string \<Rightarrow> string" where
  "strip_zeros s = rev (dropWhile (\<lambda>c. c = CHR ''0'') (rev s))"

definition format_dec :: "nat \<Rightarrow> string" where
  "format_dec c =
     (let fp = strip_zeros (pad_left 1074 (dec (c mod f_ten)))
      in dec (c div f_ten) @ (if fp = [] then [] else CHR ''.'' # fp))"

fun format_float :: "f64 \<Rightarrow> string" where
  "format_float FNaN = ''NaN''"
| "format_float (FInf s) = (if s then ''-Inf'' else ''+Inf'')"
| "format_float (FFin s m) = (if s then ''-'' else []) @ format_dec (shortest m)"

lemma f_five_pos [simp]: "0 < f_five"
  unfolding f_five_def by (rule zero_less_power) simp

lemma f_ten_eq: "f_ten = f_five * f_one"
proof -
  have "f_ten = (5 * 2) ^ 1074"
    unfolding f_ten_def by (rule arg_cong[where f = "\<lambda>x. x ^ 1074"]) simp
  then show ?thesis
    by (simp only: power_mult_distrib f_five_def f_one_def)
qed

lemma f_ten_pos [simp]: "0 < f_ten"
  by (simp add: f_ten_eq)

lemma short_dec_rnd: "f64_rep m \<Longrightarrow> rnd (short_dec m (m * f_five) p) f_five = m"
  by (induction p) (simp_all add: rnd_exact Let_def del: power_Suc)

lemma shortest_rnd: "f64_rep m \<Longrightarrow> rnd (shortest m) f_five = m"
  by (simp add: shortest_def short_dec_rnd)

lemma strip_zeros_split: "\<exists>k. s = strip_zeros s @ replicate k (CHR ''0'')"
proof -
  have "rev s = takeWhile (\<lambda>c. c = CHR ''0'') (rev s) @ dropWhile (\<lambda>c. c = CHR ''0'') (rev s)"
    by simp
  then have "s = strip_zeros s @ rev (takeWhile (\<lambda>c. c = CHR ''0'') (rev s))"
    unfolding strip_zeros_def by (metis rev_append rev_rev_ident)
  moreover have "\<forall>c \<in> set (rev (takeWhile (\<lambda>c. c = CHR ''0'') (rev s))). c = CHR ''0''"
    by (auto dest: set_takeWhileD)
  ultimately show ?thesis
    by (metis replicate_length_same)
qed

lemma pad_left_length: "length s \<le> n \<Longrightarrow> length (pad_left n s) = n"
  by (simp add: pad_left_def)

lemma pad_left_val [simp]: "digits_val (pad_left n s) = digits_val s"
  by (simp add: pad_left_def digits_val_append)

lemma pad_left_digits: "\<forall>c \<in> set s. is_digit c \<Longrightarrow> \<forall>c \<in> set (pad_left n s). is_digit c"
  by (auto simp: pad_left_def is_digit_def)

text \<open>The printed digits, and the value they stand for.\<close>

lemma format_dec_shape:
  obtains ip fp where
    "format_dec c = ip @ (if fp = [] then [] else CHR ''.'' # fp)" "ip \<noteq> []"
    "\<forall>d \<in> set ip. is_digit d" "\<forall>d \<in> set fp. is_digit d"
    "length fp \<le> 1074" "digits_val (ip @ fp) * 10 ^ (1074 - length fp) = c"
proof -
  define ip where "ip = dec (c div f_ten)"
  define pp where "pp = pad_left 1074 (dec (c mod f_ten))"
  define fp where "fp = strip_zeros pp"
  obtain k where k: "pp = fp @ replicate k (CHR ''0'')"
    using strip_zeros_split fp_def by blast
  have "c mod f_ten < 10 ^ 1074"
    using mod_less_divisor[OF f_ten_pos, of c] by (simp only: f_ten_def)
  then have len: "length pp = 1074"
    by (simp only: pp_def) (rule pad_left_length, rule dec_length, simp_all only: zero_less_numeral)
  have dig: "\<forall>d \<in> set pp. is_digit d"
    unfolding pp_def by (rule pad_left_digits) (rule dec_digits)
  have "digits_val (ip @ pp) = digits_val ip * f_ten + digits_val pp"
    by (simp only: digits_val_append len f_ten_def)
  also have "\<dots> = c div f_ten * f_ten + c mod f_ten"
    by (simp only: ip_def pp_def pad_left_val digits_val_dec)
  finally have "digits_val (ip @ pp) = c div f_ten * f_ten + c mod f_ten" .
  then have val: "digits_val (ip @ pp) = c"
    by simp
  have "digits_val ((ip @ fp) @ replicate k (CHR ''0'')) = digits_val (ip @ fp) * 10 ^ k"
    by (subst digits_val_append) simp
  then have "digits_val (ip @ fp) * 10 ^ k = c"
    using val k by simp
  moreover have "k = 1074 - length fp" "length fp \<le> 1074"
    using len k by auto
  moreover have "format_dec c = ip @ (if fp = [] then [] else CHR ''.'' # fp)"
    by (simp add: format_dec_def Let_def ip_def fp_def pp_def)
  moreover have "\<forall>d \<in> set ip. is_digit d" "ip \<noteq> []"
    using dec_digits by (simp_all add: ip_def)
  moreover have "\<forall>d \<in> set fp. is_digit d"
    using dig k by simp
  ultimately show thesis
    using that by metis
qed

lemma round_dec_nonpos: "round_dec d (- int k) = rnd (d * f_one) (10 ^ k)"
  by (cases "k = 0") (simp_all add: round_dec_def)

lemma round_dec_scaled:
  assumes "k \<le> 1074" "d * 10 ^ (1074 - k) = c"
  shows "round_dec d (- int k) = rnd c f_five"
proof -
  have "(10::nat) ^ k * 10 ^ (1074 - k) = f_ten"
    using assms(1) by (simp only: f_ten_def le_add_diff_inverse flip: power_add)
  then have "rnd (d * f_one) (10 ^ k) = rnd (d * f_one * 10 ^ (1074 - k)) f_ten"
    using rnd_scale[of "10 ^ (1074 - k)" "d * f_one" "10 ^ k"] by simp
  also have "d * f_one * 10 ^ (1074 - k) = c * f_one"
    using assms(2) by (simp add: mult.commute mult.left_commute)
  also have "rnd (c * f_one) f_ten = rnd c f_five"
    by (simp add: f_ten_eq rnd_scale)
  finally show ?thesis
    by (simp only: round_dec_nonpos)
qed

lemma not_digit_chars [simp]:
  "\<not> is_digit (CHR ''.'')" "\<not> is_digit (CHR ''-'')" "\<not> is_digit (CHR ''+'')"
  "\<not> is_digit (CHR ''i'')" "\<not> is_digit (CHR ''n'')"
  by (simp_all add: is_digit_def)

lemma special_float_digit:
  assumes "is_digit d"
  shows "special_float (d # s) = None" "special_float (CHR ''-'' # d # s) = None"
proof -
  have "lower_case [d] = [d]"
    using assms by (simp add: lower_case_def is_digit_def)
  then have l: "lower_case (d # s) = d # lower_case s"
    "lower_case (CHR ''-'' # d # s) = CHR ''-'' # d # lower_case s"
    by (simp_all add: lower_case_def)
  show "special_float (d # s) = None" "special_float (CHR ''-'' # d # s) = None"
    using assms by (auto simp: special_float_def Let_def l)
qed

lemma takeWhile_digits:
  "\<forall>d \<in> set ip. is_digit d \<Longrightarrow> takeWhile is_digit (ip @ CHR ''.'' # r) = ip \<and>
     dropWhile is_digit (ip @ CHR ''.'' # r) = CHR ''.'' # r"
  by (simp add: takeWhile_append2 dropWhile_append2)

lemma parse_float_digits:
  assumes "ip \<noteq> []" "\<forall>d \<in> set ip. is_digit d" "\<forall>d \<in> set fp. is_digit d"
    and m: "round_dec (digits_val (ip @ fp)) (- int (length fp)) = m" "m < f_lim"
  shows "parse_float ((if neg then ''-'' else []) @ ip @ (if fp = [] then [] else CHR ''.'' # fp)) =
    Inr (FFin neg m)"
proof -
  obtain d r where ip: "ip = d # r" "is_digit d"
    using assms(1,2) by (cases ip) auto
  let ?b = "ip @ (if fp = [] then [] else CHR ''.'' # fp)"
  have "special_float ((if neg then ''-'' else []) @ ?b) = None"
    using ip by (simp add: special_float_digit)
  moreover have "split_sign ((if neg then ''-'' else []) @ ?b) = (neg, ?b)"
    using ip by auto
  moreover have "takeWhile is_digit ?b = ip" "split_frac (dropWhile is_digit ?b) = (fp, [])"
    using assms(2,3) takeWhile_digits[OF assms(2)]
    by (auto simp: split_frac_def takeWhile_eq_all_conv[THEN iffD2] dropWhile_eq_Nil_conv[THEN iffD2])
  ultimately show ?thesis
    using assms(1) m by (simp add: parse_float_def split_exp_def)
qed

lemma parse_format_float [wire]:
  assumes "f64_ok f"
  shows "parse_float (format_float f) = Inr f"
proof (cases f)
  case (FFin s m)
  with assms have m: "f64_rep m" "m < f_lim"
    by (simp_all add: f64_rep_def)
  show ?thesis
  proof (rule format_dec_shape[of "shortest m"])
    fix ip fp
    assume a: "format_dec (shortest m) = ip @ (if fp = [] then [] else CHR ''.'' # fp)" "ip \<noteq> []"
      "\<forall>d \<in> set ip. is_digit d" "\<forall>d \<in> set fp. is_digit d"
      "length fp \<le> 1074" "digits_val (ip @ fp) * 10 ^ (1074 - length fp) = shortest m"
    have "round_dec (digits_val (ip @ fp)) (- int (length fp)) = m"
      using round_dec_scaled[OF a(5,6)] shortest_rnd[OF m(1)] by simp
    then show ?thesis
      using parse_float_digits[OF a(2,3,4) _ m(2)] by (simp add: FFin a(1))
  qed
next
  case FNaN
  have "special_float ''NaN'' = Some FNaN"
    by code_simp
  with FNaN show ?thesis
    by (simp add: parse_float_def)
next
  case (FInf s)
  have "special_float ''+Inf'' = Some (FInf False)" "special_float ''-Inf'' = Some (FInf True)"
    by code_simp+
  with FInf show ?thesis
    by (simp add: parse_float_def)
qed

end
