(* ===== verification/GoStrings.thy ===== *)
theory GoStrings
  imports GoStrconv
begin

text \<open>
  What the code uses of package \<open>strings\<close> (\<open>Join\<close>, \<open>Split\<close>, \<open>HasPrefix\<close>, \<open>ContainsRune\<close>) and
  of \<open>fmt\<close>: \<open>fmt.Errorf\<close> with a text as its format and no arguments, as \<open>proto.Read\<close> calls it.
\<close>

section \<open>Join and Split\<close>

fun join_with :: "string \<Rightarrow> string list \<Rightarrow> string" where
  "join_with sep [] = []"
| "join_with sep [x] = x"
| "join_with sep (x # y # ys) = x @ sep @ join_with sep (y # ys)"

text \<open>\<open>Split\<close> at a separator of one byte.\<close>

fun split_on :: "char \<Rightarrow> string \<Rightarrow> string list" where
  "split_on d [] = [[]]"
| "split_on d (c # s) =
     (if c = d then [] # split_on d s
      else (case split_on d s of [] \<Rightarrow> [[c]] | p # ps \<Rightarrow> (c # p) # ps))"

definition has_prefix :: "string \<Rightarrow> string \<Rightarrow> bool" where
  "has_prefix p s \<longleftrightarrow> take (length p) s = p"

lemma split_on_nonempty [simp]: "split_on d s \<noteq> []"
  by (induction s) (auto split: list.splits)

lemma split_on_one: "d \<notin> set s \<Longrightarrow> split_on d s = [s]"
  by (induction s) auto

lemma split_on_append: "split_on d (s @ d # t) = split_on d s @ split_on d t"
  by (induction s) (auto split: list.splits)

lemma split_on_join: "xs \<noteq> [] \<Longrightarrow> split_on d (join_with [d] xs) = concat (map (split_on d) xs)"
  by (induction "[d]" xs rule: join_with.induct) (simp_all add: split_on_append)

lemma split_on_parts: "p \<in> set (split_on d s) \<Longrightarrow> d \<notin> set p \<and> set p \<subseteq> set s"
  by (induction s arbitrary: p) (fastforce split: list.splits if_splits)+

lemma split_on_join_clean [wire]:
  "xs \<noteq> [] \<Longrightarrow> \<forall>x\<in>set xs. d \<notin> set x \<Longrightarrow> split_on d (join_with [d] xs) = xs"
  by (simp add: split_on_join split_on_one cong: map_cong)

lemma set_join_with: "set (join_with sep xs) \<subseteq> set sep \<union> (\<Union>x\<in>set xs. set x)"
  by (induction xs rule: join_with.induct) auto

lemma join_with_Cons: "xs \<noteq> [] \<Longrightarrow> join_with sep (x # xs) = x @ sep @ join_with sep xs"
  by (cases xs) simp_all

section \<open>Errorf without arguments\<close>

text \<open>
  The scan of a verb in \<open>fmt\<close>'s \<open>doPrintf\<close> when there are no arguments: flags, an argument
  index in brackets (never good), a width, a precision, and the verb, which lacks its argument.
  The result is what is printed for it and the rest of the format.
\<close>

definition arg_index :: "string \<Rightarrow> string \<times> bool \<times> bool" where
  "arg_index s =
     (case s of
        c # t \<Rightarrow>
          if c = CHR ''['' then
            (let n = takeWhile (\<lambda>c. c \<noteq> CHR '']'') t
             in if CHR '']'' \<in> set t then (drop (length n + 1) t, True, n \<noteq> [] \<and> list_all is_digit n)
                else (t, True, False))
          else (s, False, False)
      | [] \<Rightarrow> (s, False, False))"

text \<open>The width or precision: text printed for a bad one, and what follows.\<close>

definition star_or_num :: "string \<Rightarrow> string \<Rightarrow> string \<times> string \<times> bool" where
  "star_or_num bad s =
     (case s of
        c # t \<Rightarrow> if c = CHR ''*'' then (bad, t, True) else ([], dropWhile is_digit s, False)
      | [] \<Rightarrow> ([], s, False))"

definition cont_byte :: "char \<Rightarrow> nat \<Rightarrow> nat \<Rightarrow> bool" where
  "cont_byte c lo hi \<longleftrightarrow> lo \<le> of_char c \<and> of_char c \<le> hi"

text \<open>One rune: its encoding when it is written again (U+FFFD when invalid), and the rest.\<close>

definition next_rune :: "char \<Rightarrow> string \<Rightarrow> string \<times> string" where
  "next_rune c s =
     (let n = of_char c :: nat;
          bad = ([CHR 0xEF, CHR 0xBF, CHR 0xBD], s)
      in if n < 128 then ([c], s)
         else case s of
           [] \<Rightarrow> bad
         | c1 # s1 \<Rightarrow>
             if 194 \<le> n \<and> n \<le> 223 then (if cont_byte c1 128 191 then ([c, c1], s1) else bad)
             else (case s1 of
               [] \<Rightarrow> bad
             | c2 # s2 \<Rightarrow>
                 if 224 \<le> n \<and> n \<le> 239 then
                   (if cont_byte c1 (if n = 224 then 160 else 128) (if n = 237 then 159 else 191) \<and>
                       cont_byte c2 128 191
                    then ([c, c1, c2], s2) else bad)
                 else (case s2 of
                   [] \<Rightarrow> bad
                 | c3 # s3 \<Rightarrow>
                     if 240 \<le> n \<and> n \<le> 244 \<and>
                        cont_byte c1 (if n = 240 then 144 else 128) (if n = 244 then 143 else 191) \<and>
                        cont_byte c2 128 191 \<and> cont_byte c3 128 191
                     then ([c, c1, c2, c3], s3) else bad)))"

definition precision :: "bool \<Rightarrow> string \<Rightarrow> string \<times> string \<times> bool \<times> bool" where
  "precision after s =
     (case s of
        c # t \<Rightarrow>
          if c = CHR ''.'' then
            (let (s5, b5, after5) = arg_index t;
                 (p, s6, star6) = star_or_num ''%!(BADPREC)'' s5
             in (p, s6, b5, after5 \<and> \<not> star6))
          else ([], s, False, after)
      | [] \<Rightarrow> ([], s, False, after))"

definition verb_end :: "string \<Rightarrow> bool \<Rightarrow> string \<Rightarrow> string \<times> string" where
  "verb_end out bad s =
     (case s of
        [] \<Rightarrow> (out @ ''%!(NOVERB)'', [])
      | c # t \<Rightarrow>
          if c = CHR ''%'' then (out @ ''%'', t)
          else
            (let (r, rest) = next_rune c t
             in (out @ ''%!'' @ r @ (if bad then ''(BADINDEX)'' else ''(MISSING)''), rest)))"

definition verb :: "string \<Rightarrow> string \<times> string" where
  "verb s =
     (let (s2, b2, after2) = arg_index (dropWhile (\<lambda>c. c \<in> set ''#0+- '') s);
          (w, s3, star3) = star_or_num ''%!(BADWIDTH)'' s2;
          (p, s4, b4, after4) = precision (after2 \<and> \<not> star3) s3;
          (s7, b7) = (if after4 then (s4, False) else (let (s7, b7, _) = arg_index s4 in (s7, b7)))
      in verb_end (w @ p) (b2 \<or> b4 \<or> b7) s7)"

lemma length_next_rune: "length (snd (next_rune c s)) \<le> length s"
  by (auto simp: next_rune_def Let_def split: list.splits)

lemma length_arg_index: "arg_index s = (r, x) \<Longrightarrow> length r \<le> length s"
  by (auto simp: arg_index_def Let_def split: list.splits if_splits)

lemma length_star_or_num: "star_or_num bad s = (o', r, x) \<Longrightarrow> length r \<le> length s"
  by (auto simp: star_or_num_def length_dropWhile_le split: list.splits if_splits intro: le_SucI)

lemma length_precision: "precision after s = (p, r, x) \<Longrightarrow> length r \<le> length s"
  by (auto simp: precision_def split: list.splits if_splits prod.splits
      dest!: length_arg_index length_star_or_num)

lemma length_verb_end: "length (snd (verb_end out bad s)) \<le> length s"
  using length_next_rune by (auto simp: verb_end_def le_SucI split: list.splits prod.splits) (metis le_SucI snd_conv)

lemma length_verb: "length (snd (verb s)) \<le> length s"
proof -
  let ?s1 = "dropWhile (\<lambda>c. c \<in> set ''#0+- '') s"
  obtain s2 b2 after2 where 2: "arg_index ?s1 = (s2, b2, after2)"
    by (rule prod_cases3)
  obtain w s3 star3 where 3: "star_or_num ''%!(BADWIDTH)'' s2 = (w, s3, star3)"
    by (rule prod_cases3)
  obtain p s4 b4 after4 where 4: "precision (after2 \<and> \<not> star3) s3 = (p, s4, b4, after4)"
    by (rule prod_cases4)
  obtain s7 b7 x7 where 7: "arg_index s4 = (s7, b7, x7)"
    by (rule prod_cases3)
  have "length s4 \<le> length s"
    using length_dropWhile_le[of "\<lambda>c. c \<in> set ''#0+- ''" s] length_arg_index[OF 2]
      length_star_or_num[OF 3] length_precision[OF 4] by simp
  then have "length (snd (verb_end (w @ p) b s4)) \<le> length s" "length (snd (verb_end (w @ p) b s7)) \<le> length s" for b
    using length_arg_index[OF 7] length_verb_end[of "w @ p" b s4] length_verb_end[of "w @ p" b s7] by simp_all
  then show ?thesis
    unfolding verb_def Let_def 2 3 4 7 prod.case by (cases after4) simp_all
qed

function errorf :: "string \<Rightarrow> string" where
  "errorf [] = []"
| "errorf (c # t) =
     (if c = CHR ''%'' then fst (verb t) @ errorf (snd (verb t)) else c # errorf t)"
  by pat_completeness auto
termination
  by (relation "measure length") (auto simp: length_verb less_Suc_eq_le)

lemma errorf_plain [wire]: "CHR ''%'' \<notin> set s \<Longrightarrow> errorf s = s"
  by (induction s) auto

end
