(* ===== verification/Node.thy ===== *)
theory Node
  imports GoStrings
begin

text \<open>
  memberlist's \<open>Node\<close> (what a member announces about itself) and the address text the server
  keys its reconnect set by: \<open>net.IP.String\<close> and \<open>FormatUint\<close> of the port.
\<close>

record node =
  Name :: string
  Addr :: bytes
  Port :: u16
  Meta :: bytes
  PMin :: u8
  PMax :: u8
  PCur :: u8
  DMin :: u8
  DMax :: u8
  DCur :: u8

section \<open>The text of an IP address\<close>

fun hex :: "nat \<Rightarrow> string" where
  "hex n = (if n < 16 then [hex_char n] else hex (n div 16) @ [hex_char (n mod 16)])"

declare hex.simps [simp del]

definition dotted :: "bytes \<Rightarrow> string" where
  "dotted bs = join_with ''.'' (map (\<lambda>b. dec (unat b)) bs)"

fun groups16 :: "bytes \<Rightarrow> nat list" where
  "groups16 (a # b # r) = (unat a * 256 + unat b) # groups16 r"
| "groups16 _ = []"

text \<open>
  The first longest run of zero groups, as start and length; a run of one group is not
  shortened to \<open>::\<close>.
\<close>

definition zero_run :: "nat list \<Rightarrow> nat \<Rightarrow> nat" where
  "zero_run gs i = length (takeWhile (\<lambda>g. g = 0) (drop i gs))"

definition longest_run :: "nat list \<Rightarrow> nat \<times> nat" where
  "longest_run gs =
     foldl (\<lambda>(s, n) i. if n < zero_run gs i then (i, zero_run gs i) else (s, n)) (0, 0) [0..<length gs]"

definition ipv6 :: "bytes \<Rightarrow> string" where
  "ipv6 bs =
     (let gs = groups16 bs; (s, n) = longest_run gs
      in if n \<le> 1 then join_with '':'' (map hex gs)
         else join_with '':'' (map hex (take s gs)) @ ''::'' @ join_with '':'' (map hex (drop (s + n) gs)))"

text \<open>\<open>To4\<close>: four bytes, or sixteen that carry an IPv4 address behind ten zeros and \<open>ff ff\<close>.\<close>

definition to4 :: "bytes \<Rightarrow> bytes option" where
  "to4 ip =
     (if length ip = 4 then Some ip
      else if length ip = 16 \<and> take 10 ip = replicate 10 0 \<and> ip ! 10 = 255 \<and> ip ! 11 = 255
        then Some (drop 12 ip)
      else None)"

definition ip_string :: "bytes \<Rightarrow> string" where
  "ip_string ip =
     (if ip = [] then ''<nil>''
      else case to4 ip of
        Some p \<Rightarrow> dotted p
      | None \<Rightarrow> if length ip \<noteq> 16 then ''?'' else ipv6 ip)"

text \<open>\<open>node.Addr.String() + ":" + strconv.FormatUint(uint64(node.Port), 10)\<close>\<close>

definition node_addr :: "node \<Rightarrow> string" where
  "node_addr n = ip_string (Addr n) @ '':'' @ dec (unat (Port n))"

lemma node_addr_example:
  "node_addr \<lparr>Name = ''a'', Addr = [127, 0, 0, 1], Port = 9373, Meta = [], PMin = 0, PMax = 0,
     PCur = 0, DMin = 0, DMax = 0, DCur = 0\<rparr> = ''127.0.0.1:9373''"
  by (simp add: node_addr_def ip_string_def to4_def dotted_def dec.simps digit_chars)

end
