(* ===== verification/TransmitQueue.thy ===== *)
theory TransmitQueue
  imports Prelude
begin

text \<open>
  \<open>TransmitLimitedQueue\<close> of memberlist's \<open>queue.go\<close>: the gossip queue that carries both
  memberlist's own messages and the server's counter changes.  The functions follow the Go
  loops index by index (the removal while scanning, the swap with the last entry while
  sending); the lemmas show that they compute the plain list functions one expects.

  A queue is generic in the broadcast \<open>'b\<close>; the \<open>Broadcast\<close> interface is the pair of
  functions \<open>invalidates\<close> and \<open>message\<close>.  Each operation also returns the broadcasts whose
  \<open>Finished\<close> method it called, in the order of the calls.
\<close>

record 'b limitedBroadcast =
  transmits :: nat
  bc :: 'b

type_synonym 'b bcQueue = "'b limitedBroadcast list"

section \<open>QueueBroadcast\<close>

text \<open>
  The loop of \<open>QueueBroadcast\<close>: \<open>i\<close> runs up to the shrinking length; an invalidated entry is
  cut out by moving the tail down, and \<open>i\<close> is advanced even then.
\<close>

function qb_scan :: "('b \<Rightarrow> 'b \<Rightarrow> bool) \<Rightarrow> 'b \<Rightarrow> nat \<Rightarrow> 'b bcQueue \<Rightarrow> 'b list \<Rightarrow> 'b bcQueue \<times> 'b list" where
  "qb_scan invalidates b i q fin =
     (if i < length q then
        if invalidates b (bc (q ! i))
        then qb_scan invalidates b (Suc i) (take i q @ drop (Suc i) q) (fin @ [bc (q ! i)])
        else qb_scan invalidates b (Suc i) q fin
      else (q, fin))"
  by pat_completeness auto
termination
  by (relation "measure (\<lambda>(_, _, i, q, _). length q - i)") auto

declare qb_scan.simps [simp del]

definition queueBroadcast :: "('b \<Rightarrow> 'b \<Rightarrow> bool) \<Rightarrow> 'b \<Rightarrow> 'b bcQueue \<Rightarrow> 'b bcQueue \<times> 'b list" where
  "queueBroadcast invalidates b q =
     (let (q', fin) = qb_scan invalidates b 0 q []
      in (q' @ [\<lparr>transmits = 0, bc = b\<rparr>], fin))"

section \<open>GetBroadcasts\<close>

text \<open>
  \<open>ceil (log10 n)\<close> for \<open>n \<ge> 1\<close> is the number of decimal digits of \<open>n - 1\<close>.
\<close>

definition ceil_log10 :: "nat \<Rightarrow> nat" where
  "ceil_log10 n = floorlog 10 (n - 1)"

definition retransmitLimit :: "int \<Rightarrow> nat \<Rightarrow> int" where
  "retransmitLimit retransmitMult n = retransmitMult * int (ceil_log10 (n + 1))"

text \<open>
  One turn of the loop at index \<open>i\<close>: the state is the queue, the bytes used, the messages to
  send and the finished broadcasts.
\<close>

definition gb_body ::
  "('b \<Rightarrow> bytes) \<Rightarrow> int \<Rightarrow> int \<Rightarrow> int \<Rightarrow> nat \<Rightarrow>
   'b bcQueue \<times> int \<times> bytes list \<times> 'b list \<Rightarrow> 'b bcQueue \<times> int \<times> bytes list \<times> 'b list" where
  "gb_body message overhead limit transmitLimit i = (\<lambda>(q, used, toSend, fin).
     let b = q ! i;
         msg = message (bc b)
     in if limit < used + overhead + int (length msg) then (q, used, toSend, fin)
        else
          let used' = used + (overhead + int (length msg));
              toSend' = toSend @ [msg];
              b' = b\<lparr>transmits := transmits b + 1\<rparr>;
              q1 = q[i := b']
          in if transmitLimit \<le> int (transmits b') then
               let n = length q1
               in (take (n - 1) (q1[i := q1 ! (n - 1)]), used', toSend', fin @ [bc b])
             else (q1, used', toSend', fin))"

fun gb_loop ::
  "('b \<Rightarrow> bytes) \<Rightarrow> int \<Rightarrow> int \<Rightarrow> int \<Rightarrow> nat \<Rightarrow>
   'b bcQueue \<times> int \<times> bytes list \<times> 'b list \<Rightarrow> 'b bcQueue \<times> int \<times> bytes list \<times> 'b list" where
  "gb_loop message overhead limit tlim 0 st = st"
| "gb_loop message overhead limit tlim (Suc i) st =
     gb_loop message overhead limit tlim i (gb_body message overhead limit tlim i st)"

text \<open>
  \<open>sort.Sort(sort.Reverse(q))\<close> promises a permutation in descending order of transmits and
  nothing about equal ones, so the sort is an argument; \<open>go_sort\<close> is that promise.
\<close>

definition go_sort :: "('b bcQueue \<Rightarrow> 'b bcQueue) \<Rightarrow> bool" where
  "go_sort srt \<longleftrightarrow>
     (\<forall>q. mset (srt q) = mset q \<and> sorted_wrt (\<lambda>a b. transmits b \<le> transmits a) (srt q))"

definition getBroadcasts ::
  "('b \<Rightarrow> bytes) \<Rightarrow> ('b bcQueue \<Rightarrow> 'b bcQueue) \<Rightarrow> int \<Rightarrow> nat \<Rightarrow> int \<Rightarrow> int \<Rightarrow>
   'b bcQueue \<Rightarrow> 'b bcQueue \<times> bytes list \<times> 'b list" where
  "getBroadcasts message srt retransmitMult numNodes overhead limit q =
     (if q = [] then (q, [], [])
      else
        let (q', used, toSend, fin) =
          gb_loop message overhead limit (retransmitLimit retransmitMult numNodes) (length q) (q, 0, [], [])
        in (if toSend \<noteq> [] then srt q' else q', toSend, fin))"

section \<open>NumQueued, Reset, Prune\<close>

definition numQueued :: "'b bcQueue \<Rightarrow> nat" where
  "numQueued q = length q"

definition resetQueue :: "'b bcQueue \<Rightarrow> 'b bcQueue \<times> 'b list" where
  "resetQueue q = ([], map bc q)"

text \<open>\<open>copy(q[0:], q[n-maxRetain:])\<close> overwrites the front of the slice, which is then cut.\<close>

definition prune :: "nat \<Rightarrow> 'b bcQueue \<Rightarrow> 'b bcQueue \<times> 'b list" where
  "prune maxRetain q =
     (let n = length q
      in if n < maxRetain then (q, [])
         else (take maxRetain (drop (n - maxRetain) q @ drop maxRetain q),
               map bc (take (n - maxRetain) q)))"

section \<open>The scan of QueueBroadcast\<close>

lemma qb_scan_none:
  "\<forall>j. i \<le> j \<and> j < length q \<longrightarrow> \<not> invalidates b (bc (q ! j)) \<Longrightarrow>
   qb_scan invalidates b i q fin = (q, fin)"
  by (induction invalidates b i q fin rule: qb_scan.induct) (subst qb_scan.simps, auto)

text \<open>
  The skipped index is harmless as long as at most one entry is invalidated: the scan then
  removes exactly that entry.
\<close>

lemma qb_scan_filter:
  assumes "\<forall>j k. i \<le> j \<and> j < k \<and> k < length q \<longrightarrow>
             \<not> (invalidates b (bc (q ! j)) \<and> invalidates b (bc (q ! k)))"
  shows "qb_scan invalidates b i q fin =
    (take i q @ filter (\<lambda>x. \<not> invalidates b (bc x)) (drop i q),
     fin @ map bc (filter (\<lambda>x. invalidates b (bc x)) (drop i q)))"
  using assms
proof (induction invalidates b i q fin rule: qb_scan.induct)
  case (1 invalidates b i q fin)
  show ?case
  proof (cases "i < length q")
    case i: True
    have d: "drop i q = q ! i # drop (Suc i) q"
      using i by (simp add: Cons_nth_drop_Suc)
    show ?thesis
    proof (cases "invalidates b (bc (q ! i))")
      case True
      have later: "\<not> invalidates b (bc (q ! j))" if "i < j" "j < length q" for j
        using that "1.prems" True by blast
      have none: "\<not> invalidates b (bc x)" if x: "x \<in> set (drop (Suc i) q)" for x
      proof -
        obtain k where k: "k < length (drop (Suc i) q)" "x = drop (Suc i) q ! k"
          using x by (metis in_set_conv_nth)
        then show ?thesis
          using later[of "Suc i + k"] i by simp
      qed
      then have f: "filter (\<lambda>x. \<not> invalidates b (bc x)) (drop (Suc i) q) = drop (Suc i) q"
        "filter (\<lambda>x. invalidates b (bc x)) (drop (Suc i) q) = []"
        by (auto simp: filter_id_conv filter_empty_conv)
      have "qb_scan invalidates b (Suc i) (take i q @ drop (Suc i) q) (fin @ [bc (q ! i)]) =
          (take i q @ drop (Suc i) q, fin @ [bc (q ! i)])"
        by (rule qb_scan_none) (use i in \<open>auto simp: nth_append later\<close>)
      then show ?thesis
        using i True f by (subst qb_scan.simps) (simp add: d)
    next
      case False
      have "qb_scan invalidates b (Suc i) q fin =
          (take (Suc i) q @ filter (\<lambda>x. \<not> invalidates b (bc x)) (drop (Suc i) q),
           fin @ map bc (filter (\<lambda>x. invalidates b (bc x)) (drop (Suc i) q)))"
        using "1.IH"(2)[OF i False] "1.prems" by simp
      then show ?thesis
        using i False by (subst qb_scan.simps) (simp add: d take_Suc_conv_app_nth)
    qed
  qed (subst qb_scan.simps, simp)
qed

section \<open>The interface Broadcast\<close>

text \<open>
  Both kinds of broadcast in this program invalidate by a key: two broadcasts about the same
  node, or about the same counter.  Over such a kind the queue holds at most one broadcast
  per key, always the newest.
\<close>

definition unique_keys :: "('b \<Rightarrow> 'k) \<Rightarrow> 'b bcQueue \<Rightarrow> bool" where
  "unique_keys key q \<longleftrightarrow> distinct (map (\<lambda>x. key (bc x)) q)"

locale broadcast_kind =
  fixes invalidates :: "'b \<Rightarrow> 'b \<Rightarrow> bool"
    and key :: "'b \<Rightarrow> 'k"
  assumes invalidates_key: "invalidates b c \<longleftrightarrow> key b = key c"
begin

lemma at_most_one:
  "unique_keys key q \<Longrightarrow> j < k \<Longrightarrow> k < length q \<Longrightarrow>
   \<not> (invalidates b (bc (q ! j)) \<and> invalidates b (bc (q ! k)))"
  by (auto simp: unique_keys_def invalidates_key distinct_conv_nth)

lemma queueBroadcast_eq:
  assumes "unique_keys key q"
  shows "queueBroadcast invalidates b q =
    (filter (\<lambda>x. key (bc x) \<noteq> key b) q @ [\<lparr>transmits = 0, bc = b\<rparr>],
     map bc (filter (\<lambda>x. key (bc x) = key b) q))"
proof -
  have "qb_scan invalidates b 0 q [] =
      (take 0 q @ filter (\<lambda>x. \<not> invalidates b (bc x)) (drop 0 q),
       [] @ map bc (filter (\<lambda>x. invalidates b (bc x)) (drop 0 q)))"
    by (rule qb_scan_filter) (use at_most_one[OF assms] in blast)
  moreover have "(key b = key (bc x)) = (key (bc x) = key b)" for x :: "'b limitedBroadcast"
    by auto
  ultimately show ?thesis
    by (simp add: queueBroadcast_def invalidates_key)
qed

lemma unique_keys_queueBroadcast:
  "unique_keys key q \<Longrightarrow> unique_keys key (fst (queueBroadcast invalidates b q))"
  by (auto simp: queueBroadcast_eq unique_keys_def distinct_map inj_on_def)

lemma queueBroadcast_newest:
  assumes "unique_keys key q" "x \<in> set (fst (queueBroadcast invalidates b q))"
  shows "key (bc x) = key b \<longleftrightarrow> x = \<lparr>transmits = 0, bc = b\<rparr>"
  using assms by (auto simp: queueBroadcast_eq)

end

section \<open>GetBroadcasts as a list function\<close>

text \<open>
  The reference: walk the queue from its last entry; an entry that no longer fits stays as it
  is, one that fits is sent and stays with one more transmit unless that was its last.
\<close>

fun send_all ::
  "('b \<Rightarrow> bytes) \<Rightarrow> int \<Rightarrow> int \<Rightarrow> int \<Rightarrow> 'b bcQueue \<Rightarrow> int \<Rightarrow> 'b bcQueue \<times> int \<times> bytes list \<times> 'b list" where
  "send_all message overhead limit tlim [] used = ([], used, [], [])"
| "send_all message overhead limit tlim (b # bs) used =
     (let msg = message (bc b)
      in if limit < used + overhead + int (length msg) then
           (let (kept, used', sent, fin) = send_all message overhead limit tlim bs used
            in (b # kept, used', sent, fin))
         else
           (let (kept, used', sent, fin) =
              send_all message overhead limit tlim bs (used + (overhead + int (length msg)))
            in if tlim \<le> int (transmits b + 1)
               then (kept, used', msg # sent, bc b # fin)
               else (b\<lparr>transmits := transmits b + 1\<rparr> # kept, used', msg # sent, fin)))"

lemma mset_swap_remove:
  assumes "i < length q"
  shows "mset (drop i (take (length q - 1) (q[i := q ! (length q - 1)]))) = mset (drop (Suc i) q)"
proof (cases "Suc i = length q")
  case True
  then show ?thesis by simp
next
  case False
  with assms obtain p x r z where q: "q = p @ x # r @ [z]" and p: "length p = i"
  proof -
    from assms have "q = take i q @ q ! i # drop (Suc i) q"
      by (simp add: id_take_nth_drop)
    moreover have "drop (Suc i) q \<noteq> []"
      using assms False by simp
    then obtain r z where "drop (Suc i) q = r @ [z]"
      by (metis append_butlast_last_id)
    ultimately show ?thesis
      using that[of "take i q" "q ! i" r z] assms by simp
  qed
  have "q[i := q ! (length q - 1)] = p @ z # r @ [z]"
    by (simp add: q nth_append list_update_append flip: p)
  then show ?thesis
    by (simp add: q flip: p)
qed

lemma take_swap_remove:
  "i < length q \<Longrightarrow> take i (take (length q - 1) (q[i := q ! (length q - 1)])) = take i q"
  by (auto simp: min_def)

lemma gb_loop_send_all:
  assumes "i \<le> length q"
  shows "case send_all message overhead limit tlim (rev (take i q)) used of (kept, used', sent', fin') \<Rightarrow>
    \<exists>q'. gb_loop message overhead limit tlim i (q, used, sent, fin) =
           (q', used', sent @ sent', fin @ fin') \<and> mset q' = mset kept + mset (drop i q)"
  using assms
proof (induction i arbitrary: q used sent fin)
  case 0
  then show ?case by simp
next
  case (Suc i)
  let ?b = "q ! i" and ?m = "message (bc (q ! i))"
  have i: "i < length q"
    using Suc.prems by simp
  have t: "take (Suc i) q = take i q @ [?b]" "drop i q = ?b # drop (Suc i) q"
    using i by (simp_all add: take_Suc_conv_app_nth Cons_nth_drop_Suc)
  define q1 where "q1 = q[i := ?b\<lparr>transmits := transmits ?b + 1\<rparr>]"
  define q2 where "q2 = take (length q1 - 1) (q1[i := q1 ! (length q1 - 1)])"
  have q1: "i < length q1" "take i q1 = take i q" "drop i q1 = ?b\<lparr>transmits := transmits ?b + 1\<rparr> # drop (Suc i) q"
    using i by (simp_all add: q1_def drop_update_cancel flip: Cons_nth_drop_Suc)
  have "drop (Suc i) q1 = drop (Suc i) q"
    by (simp add: q1_def)
  then have q2: "i \<le> length q2" "take i q2 = take i q" "mset (drop i q2) = mset (drop (Suc i) q)"
    using q1 mset_swap_remove[OF q1(1)] take_swap_remove[OF q1(1)] by (auto simp: q2_def)
  consider (skip) "limit < used + overhead + int (length ?m)"
    | (last) "\<not> limit < used + overhead + int (length ?m)" "tlim \<le> int (transmits ?b + 1)"
    | (keep) "\<not> limit < used + overhead + int (length ?m)" "\<not> tlim \<le> int (transmits ?b + 1)"
    by blast
  then show ?case
  proof cases
    case skip
    then show ?thesis
      using Suc.IH[of q used sent fin] i by (auto simp: t gb_body_def Let_def split: prod.splits)
  next
    case last
    then have "gb_body message overhead limit tlim i (q, used, sent, fin) =
        (q2, used + (overhead + int (length ?m)), sent @ [?m], fin @ [bc ?b])"
      using i by (simp add: gb_body_def Let_def q1_def q2_def)
    then show ?thesis
      using Suc.IH[of q2 "used + (overhead + int (length ?m))" "sent @ [?m]" "fin @ [bc ?b]"] last q2
      by (auto simp: t split: prod.splits)
  next
    case keep
    then have "gb_body message overhead limit tlim i (q, used, sent, fin) =
        (q1, used + (overhead + int (length ?m)), sent @ [?m], fin)"
      using i by (simp add: gb_body_def Let_def q1_def)
    then show ?thesis
      using Suc.IH[of q1 "used + (overhead + int (length ?m))" "sent @ [?m]" fin] keep q1
      by (auto simp: t split: prod.splits)
  qed
qed

lemma getBroadcasts_send_all:
  assumes "go_sort srt"
  obtains kept used sent fin q' where
    "send_all message overhead limit (retransmitLimit retransmitMult n) (rev q) 0 = (kept, used, sent, fin)"
    "getBroadcasts message srt retransmitMult n overhead limit q = (q', sent, fin)"
    "mset q' = mset kept"
proof (cases "q = []")
  case True
  then show thesis
    using that by (simp add: getBroadcasts_def)
next
  case False
  obtain kept used sent fin where s:
    "send_all message overhead limit (retransmitLimit retransmitMult n) (rev q) 0 = (kept, used, sent, fin)"
    by (metis prod_cases4)
  then obtain q' where
    "gb_loop message overhead limit (retransmitLimit retransmitMult n) (length q) (q, 0, [], []) =
       (q', used, sent, fin)" "mset q' = mset kept"
    using gb_loop_send_all[of "length q" q message overhead limit
        "retransmitLimit retransmitMult n" 0 "[]" "[]"] by auto
  then show thesis
    using that[of kept used sent fin "if sent \<noteq> [] then srt q' else q'"] s False assms
    by (simp add: getBroadcasts_def go_sort_def)
qed

lemma getBroadcasts_elim:
  assumes "go_sort srt" "getBroadcasts message srt retransmitMult n overhead limit q = (q', sent, fin)"
  obtains kept used where
    "send_all message overhead limit (retransmitLimit retransmitMult n) (rev q) 0 = (kept, used, sent, fin)"
    "mset q' = mset kept"
proof -
  obtain kept used sent0 fin0 q0 where
    s: "send_all message overhead limit (retransmitLimit retransmitMult n) (rev q) 0 = (kept, used, sent0, fin0)"
    and g: "getBroadcasts message srt retransmitMult n overhead limit q = (q0, sent0, fin0)"
    and m: "mset q0 = mset kept"
    by (rule getBroadcasts_send_all[OF assms(1)])
  have "q0 = q'" "sent0 = sent" "fin0 = fin"
    using g assms(2) by simp_all
  then show thesis
    using that s m by simp
qed

lemma send_all_ConsE:
  assumes "send_all message overhead limit tlim (b # bs) used = (kept, used', sent, fin)"
  obtains
    (skip) kept0 where "limit < used + overhead + int (length (message (bc b)))"
      "send_all message overhead limit tlim bs used = (kept0, used', sent, fin)" "kept = b # kept0"
  | (last) sent0 fin0 where "used + overhead + int (length (message (bc b))) \<le> limit"
      "tlim \<le> int (transmits b + 1)"
      "send_all message overhead limit tlim bs (used + overhead + int (length (message (bc b)))) =
         (kept, used', sent0, fin0)"
      "sent = message (bc b) # sent0" "fin = bc b # fin0"
  | (keep) kept0 sent0 where "used + overhead + int (length (message (bc b))) \<le> limit"
      "int (transmits b + 1) < tlim"
      "send_all message overhead limit tlim bs (used + overhead + int (length (message (bc b)))) =
         (kept0, used', sent0, fin)"
      "kept = b\<lparr>transmits := transmits b + 1\<rparr> # kept0" "sent = message (bc b) # sent0"
  using assms
  by (cases "limit < used + overhead + int (length (message (bc b)))";
      cases "tlim \<le> int (transmits b + 1)")
    (auto simp: Let_def add.assoc split: prod.splits)

lemma send_all_budget:
  "send_all message overhead limit tlim bs used = (kept, used', sent, fin) \<Longrightarrow>
   used' = used + (\<Sum>m\<leftarrow>sent. overhead + int (length m)) \<and>
   (used \<le> limit \<longrightarrow> used' \<le> limit) \<and> (sent \<noteq> [] \<longrightarrow> used' \<le> limit)"
proof (induction bs arbitrary: used kept used' sent fin)
  case (Cons b bs)
  from Cons.prems show ?case
    by (cases rule: send_all_ConsE) (auto dest!: Cons.IH)
qed simp

lemma send_all_conserve:
  "send_all message overhead limit tlim bs used = (kept, used', sent, fin) \<Longrightarrow>
   mset (map bc bs) = mset (map bc kept) + mset fin"
proof (induction bs arbitrary: used kept used' sent fin)
  case (Cons b bs)
  from Cons.prems show ?case
    by (cases rule: send_all_ConsE) (auto dest!: Cons.IH)
qed simp

lemma send_all_sent:
  "send_all message overhead limit tlim bs used = (kept, used', sent, fin) \<Longrightarrow>
   mset sent \<subseteq># mset (map (\<lambda>b. message (bc b)) bs)"
proof (induction bs arbitrary: used kept used' sent fin)
  case (Cons b bs)
  from Cons.prems show ?case
    by (cases rule: send_all_ConsE) (auto dest!: Cons.IH intro: subset_mset.order_trans)
qed simp

lemma send_all_transmits:
  "send_all message overhead limit tlim bs used = (kept, used', sent, fin) \<Longrightarrow> x \<in> set kept \<Longrightarrow>
   \<exists>b \<in> set bs. bc x = bc b \<and>
     (x = b \<or> (transmits x = transmits b + 1 \<and> int (transmits x) < tlim))"
proof (induction bs arbitrary: used kept used' sent fin)
  case (Cons b bs)
  from Cons.prems(1) show ?case
    using Cons.prems(2) by (cases rule: send_all_ConsE) (auto dest!: Cons.IH)
qed simp

text \<open>When everything fits, everything is sent, the newest entry first.\<close>

lemma send_all_fits:
  assumes "used + (\<Sum>b\<leftarrow>bs. overhead + int (length (message (bc b)))) \<le> limit" "0 \<le> overhead"
  shows "\<exists>used' fin. send_all message overhead limit tlim bs used =
    (map (\<lambda>b. b\<lparr>transmits := transmits b + 1\<rparr>) (filter (\<lambda>b. int (transmits b + 1) < tlim) bs), used',
     map (\<lambda>b. message (bc b)) bs, fin)"
  using assms(1)
proof (induction bs arbitrary: used)
  case (Cons b bs)
  have "0 \<le> (\<Sum>b\<leftarrow>bs. overhead + int (length (message (bc b))))"
    using assms(2) by (intro sum_list_nonneg) auto
  with Cons.prems have "used + overhead + int (length (message (bc b))) \<le> limit"
    by simp
  moreover obtain used' fin where
    "send_all message overhead limit tlim bs (used + (overhead + int (length (message (bc b))))) =
      (map (\<lambda>b. b\<lparr>transmits := transmits b + 1\<rparr>) (filter (\<lambda>b. int (transmits b + 1) < tlim) bs), used',
       map (\<lambda>b. message (bc b)) bs, fin)"
    using Cons.IH[of "used + (overhead + int (length (message (bc b))))"] Cons.prems by auto
  ultimately show ?case
    by (cases "int (transmits b + 1) < tlim") (simp_all add: Let_def)
qed simp

section \<open>Repeated gossip rounds\<close>

definition gossip_rounds ::
  "('b \<Rightarrow> bytes) \<Rightarrow> ('b bcQueue \<Rightarrow> 'b bcQueue) \<Rightarrow> int \<Rightarrow> nat \<Rightarrow> int \<Rightarrow> int \<Rightarrow> nat \<Rightarrow> 'b bcQueue \<Rightarrow> 'b bcQueue"
  where
  "gossip_rounds message srt retransmitMult n overhead limit k q =
     ((\<lambda>q. fst (getBroadcasts message srt retransmitMult n overhead limit q)) ^^ k) q"

definition queue_bytes :: "('b \<Rightarrow> bytes) \<Rightarrow> int \<Rightarrow> 'b bcQueue \<Rightarrow> int" where
  "queue_bytes message overhead q = (\<Sum>b\<leftarrow>q. overhead + int (length (message (bc b))))"

lemma queue_bytes_mset:
  "queue_bytes message overhead q = (\<Sum>b\<in>#mset q. overhead + int (length (message (bc b))))"
  by (simp add: queue_bytes_def flip: sum_mset_sum_list)

lemma sum_list_filter_le:
  "\<forall>x \<in> set xs. 0 \<le> (f x :: int) \<Longrightarrow> (\<Sum>x\<leftarrow>filter P xs. f x) \<le> (\<Sum>x\<leftarrow>xs. f x)"
  by (induction xs) auto

lemma getBroadcasts_fits:
  assumes "go_sort srt" "queue_bytes message overhead q \<le> limit" "0 \<le> overhead"
    and "getBroadcasts message srt retransmitMult n overhead limit q = (q', sent, fin)"
  shows "sent = rev (map (\<lambda>b. message (bc b)) q)"
    and "mset q' = {#b\<lparr>transmits := transmits b + 1\<rparr>. b \<in># filter_mset
           (\<lambda>b. int (transmits b + 1) < retransmitLimit retransmitMult n) (mset q)#}"
proof -
  have "0 + (\<Sum>b\<leftarrow>rev q. overhead + int (length (message (bc b)))) \<le> limit"
    using assms(2) by (simp add: queue_bytes_def sum_list_rev flip: rev_map)
  note fits = send_all_fits[OF this assms(3), of "retransmitLimit retransmitMult n"]
  obtain kept used where
    s: "send_all message overhead limit (retransmitLimit retransmitMult n) (rev q) 0 = (kept, used, sent, fin)"
    and m: "mset q' = mset kept"
    using assms(1,4) by (rule getBroadcasts_elim)
  have "kept = map (\<lambda>b. b\<lparr>transmits := transmits b + 1\<rparr>)
      (filter (\<lambda>b. int (transmits b + 1) < retransmitLimit retransmitMult n) (rev q))"
    and "sent = map (\<lambda>b. message (bc b)) (rev q)"
    using fits unfolding s by (elim exE, simp only: prod.inject)+
  note ks = this
  from ks(2) show "sent = rev (map (\<lambda>b. message (bc b)) q)"
    by (simp only: rev_map)
  show "mset q' = {#b\<lparr>transmits := transmits b + 1\<rparr>. b \<in># filter_mset
       (\<lambda>b. int (transmits b + 1) < retransmitLimit retransmitMult n) (mset q)#}"
    unfolding m ks(1) mset_map mset_filter mset_rev ..
qed
lemma gossip_round_fits:
  fixes n :: nat and retransmitMult :: int
  assumes "go_sort srt" "0 \<le> overhead" "queue_bytes message overhead q \<le> limit"
  defines "q' \<equiv> fst (getBroadcasts message srt retransmitMult n overhead limit q)"
  shows "queue_bytes message overhead q' \<le> limit"
    and "x \<in> set q' \<Longrightarrow> \<exists>b \<in> set q. transmits x = transmits b + 1 \<and>
           int (transmits x) < retransmitLimit retransmitMult n"
proof -
  let ?keep = "\<lambda>b. int (transmits b + 1) < retransmitLimit retransmitMult n"
  have m: "mset q' = {#b\<lparr>transmits := transmits b + 1\<rparr>. b \<in># filter_mset ?keep (mset q)#}"
  proof -
    obtain q1 sent fin where g: "getBroadcasts message srt retransmitMult n overhead limit q = (q1, sent, fin)"
      by (rule prod_cases3)
    show ?thesis
      unfolding q'_def g fst_conv by (rule getBroadcasts_fits(2)[OF assms(1,3,2) g])
  qed
  have "queue_bytes message overhead q' =
      (\<Sum>b\<in>#filter_mset ?keep (mset q). overhead + int (length (message (bc b))))"
    by (simp add: queue_bytes_mset m image_mset.compositionality comp_def)
  also have "\<dots> = (\<Sum>b\<leftarrow>filter ?keep q. overhead + int (length (message (bc b))))"
    by (simp flip: mset_filter mset_map sum_mset_sum_list)
  also have "\<dots> \<le> queue_bytes message overhead q"
    using assms(2) unfolding queue_bytes_def by (intro sum_list_filter_le) auto
  finally show "queue_bytes message overhead q' \<le> limit"
    using assms(3) by simp
  show "x \<in> set q' \<Longrightarrow> \<exists>b \<in> set q. transmits x = transmits b + 1 \<and>
           int (transmits x) < retransmitLimit retransmitMult n"
    by (auto simp: m simp flip: set_mset_mset)
qed

lemma gossip_rounds_transmits:
  fixes n :: nat and retransmitMult :: int
  assumes "go_sort srt" "0 \<le> overhead" "queue_bytes message overhead q \<le> limit"
  defines "qs \<equiv> \<lambda>k. gossip_rounds message srt retransmitMult n overhead limit k q"
  shows "queue_bytes message overhead (qs k) \<le> limit \<and>
    (\<forall>b \<in> set (qs k). k \<le> transmits b \<and> (0 < k \<longrightarrow> int (transmits b) < retransmitLimit retransmitMult n))"
proof (induction k)
  case 0
  then show ?case
    using assms(3) by (simp add: qs_def gossip_rounds_def)
next
  case (Suc k)
  have "qs (Suc k) = fst (getBroadcasts message srt retransmitMult n overhead limit (qs k))"
    by (simp add: qs_def gossip_rounds_def)
  note step = gossip_round_fits[OF assms(1,2) Suc.IH[THEN conjunct1], where retransmitMult = retransmitMult and n = n, folded this]
  have "Suc k \<le> transmits x \<and> int (transmits x) < retransmitLimit retransmitMult n"
    if x: "x \<in> set (qs (Suc k))" for x
  proof -
    obtain b where b: "b \<in> set (qs k)" "transmits x = transmits b + 1"
      "int (transmits x) < retransmitLimit retransmitMult n"
      using step(2)[OF x] by blast
    then have "k \<le> transmits b"
      using Suc.IH by blast
    with b show ?thesis
      by simp
  qed
  with step(1) show ?case
    by blast
qed

lemma gossip_rounds_drain:
  assumes "go_sort srt" "0 \<le> overhead" "queue_bytes message overhead q \<le> limit"
    and k: "retransmitLimit retransmitMult n \<le> int k" "0 < k"
  shows "gossip_rounds message srt retransmitMult n overhead limit k q = []"
proof -
  have False if x: "x \<in> set (gossip_rounds message srt retransmitMult n overhead limit k q)" for x
  proof -
    have "k \<le> transmits x" "int (transmits x) < retransmitLimit retransmitMult n"
      using gossip_rounds_transmits[OF assms(1-3), of retransmitMult n k] x k(2) by blast+
    with k(1) show False
      by linarith
  qed
  then have "set (gossip_rounds message srt retransmitMult n overhead limit k q) = {}"
    by (rule equals0I)
  then show ?thesis
    by (simp only: set_empty)
qed

section \<open>The operations keep the queue well formed\<close>

lemma unique_keys_getBroadcasts:
  assumes "go_sort srt" "unique_keys key q"
    and g: "getBroadcasts message srt retransmitMult n overhead limit q = (q', sent, fin)"
  shows "unique_keys key q'"
proof -
  obtain kept used where
    s: "send_all message overhead limit (retransmitLimit retransmitMult n) (rev q) 0 = (kept, used, sent, fin)"
    and k: "mset q' = mset kept"
    using assms(1) g by (rule getBroadcasts_elim)
  have "mset (map (\<lambda>x. key (bc x)) q) = mset (map key (map bc (rev q)))"
    by (simp add: comp_def)
  also have "\<dots> = image_mset key (mset (map bc (rev q)))"
    by (simp only: mset_map)
  also have "mset (map bc (rev q)) = mset (map bc kept) + mset fin"
    by (rule send_all_conserve[OF s])
  also have "image_mset key (mset (map bc kept) + mset fin) = mset (map (\<lambda>x. key (bc x)) q' @ map key fin)"
    using k by (simp add: image_mset.compositionality comp_def)
  finally have "mset (map (\<lambda>x. key (bc x)) q) = mset (map (\<lambda>x. key (bc x)) q' @ map key fin)" .
  from mset_eq_imp_distinct_iff[OF this] assms(2)
  have "distinct (map (\<lambda>x. key (bc x)) q' @ map key fin)"
    by (simp add: unique_keys_def)
  then show ?thesis
    by (simp add: unique_keys_def)
qed

lemma prune_eq:
  "maxRetain \<le> length q \<Longrightarrow>
   prune maxRetain q = (drop (length q - maxRetain) q, map bc (take (length q - maxRetain) q))"
  by (simp add: prune_def Let_def)

section \<open>Properties\<close>

text \<open>
  C34: the index loop of \<open>GetBroadcasts\<close>, with its removals by swapping,
  computes the reference \<open>send_all\<close>: the same messages in the same order, the same broadcasts
  finished, the same entries kept; and what is sent leaves the queue sorted for the next round.
\<close>

theorem getBroadcasts_refines:
  assumes "go_sort srt"
    and "getBroadcasts message srt retransmitMult n overhead limit q = (q', sent, fin)"
    and "send_all message overhead limit (retransmitLimit retransmitMult n) (rev q) 0 = (kept, used, sent', fin')"
  shows "sent = sent' \<and> fin = fin' \<and> mset q' = mset kept \<and>
    (sent \<noteq> [] \<longrightarrow> sorted_wrt (\<lambda>a b. transmits b \<le> transmits a) q')"
proof -
  obtain kept0 used0 where
    "send_all message overhead limit (retransmitLimit retransmitMult n) (rev q) 0 = (kept0, used0, sent, fin)"
    "mset q' = mset kept0"
    using assms(1,2) by (rule getBroadcasts_elim)
  moreover have "sent \<noteq> [] \<longrightarrow> sorted_wrt (\<lambda>a b. transmits b \<le> transmits a) q'"
    using assms(1,2) by (auto simp: getBroadcasts_def go_sort_def split: if_splits prod.splits)
  ultimately show ?thesis
    using assms(3) by simp
qed

text \<open>
  The messages of one call fit the byte limit with their overhead, are
  messages of the queue, each at most once, and no broadcast is lost: it stays or is finished.
\<close>

theorem getBroadcasts_budget:
  assumes "go_sort srt" "0 \<le> limit"
    and "getBroadcasts message srt retransmitMult n overhead limit q = (q', sent, fin)"
  shows "(\<Sum>m\<leftarrow>sent. overhead + int (length m)) \<le> limit \<and>
    mset sent \<subseteq># mset (map (\<lambda>b. message (bc b)) q) \<and>
    mset (map bc q) = mset (map bc q') + mset fin"
proof -
  obtain kept used where
    s: "send_all message overhead limit (retransmitLimit retransmitMult n) (rev q) 0 = (kept, used, sent, fin)"
    and m: "mset q' = mset kept"
    using assms(1,3) by (rule getBroadcasts_elim)
  have "mset (map bc q') = mset (map bc kept)"
    using m by simp
  then show ?thesis
    using send_all_budget[OF s] send_all_sent[OF s] send_all_conserve[OF s] assms(2)
    by (simp add: rev_map[symmetric])
qed

text \<open>
  C36: a queue that fits one packet is empty after as many rounds as the retransmit
  limit, so every broadcast is sent and gossip about it ends.
\<close>

theorem gossip_drains:
  assumes "go_sort srt" "0 \<le> overhead" "queue_bytes message overhead q \<le> limit"
    and "retransmitLimit retransmitMult n \<le> int k" "0 < k"
  shows "gossip_rounds message srt retransmitMult n overhead limit k q = [] \<and>
    (q \<noteq> [] \<longrightarrow> fst (snd (getBroadcasts message srt retransmitMult n overhead limit q)) =
      rev (map (\<lambda>b. message (bc b)) q))"
proof -
  obtain q1 sent fin where g: "getBroadcasts message srt retransmitMult n overhead limit q = (q1, sent, fin)"
    by (rule prod_cases3)
  show ?thesis
    using gossip_rounds_drain[OF assms] getBroadcasts_fits(1)[OF assms(1,3,2) g] g by simp
qed

text \<open>
  Of any broadcast kind whose invalidation is equality of a key,
  a queue with one entry per key keeps that shape, and the entry of the key just queued is the
  new broadcast with no transmits; the entries of other keys stay in their order.
\<close>

theorem queueBroadcast_supersedes:
  assumes "broadcast_kind invalidates key" "unique_keys key q"
  shows "unique_keys key (fst (queueBroadcast invalidates b q)) \<and>
    queueBroadcast invalidates b q =
      (filter (\<lambda>x. key (bc x) \<noteq> key b) q @ [\<lparr>transmits = 0, bc = b\<rparr>],
       map bc (filter (\<lambda>x. key (bc x) = key b) q))"
  using broadcast_kind.unique_keys_queueBroadcast[OF assms] broadcast_kind.queueBroadcast_eq[OF assms]
  by simp

text \<open>Instances: a sort that keeps the promise, and a queue of three messages.\<close>

definition by_transmits :: "'b bcQueue \<Rightarrow> 'b bcQueue" where
  "by_transmits q = sort_key (\<lambda>b. - int (transmits b)) q"

lemma go_sort_by_transmits: "go_sort (by_transmits :: 'b bcQueue \<Rightarrow> 'b bcQueue)"
proof -
  have "sorted_wrt (\<lambda>a b. transmits b \<le> transmits a) (sort_key (\<lambda>b. - int (transmits b)) q)" for q :: "'b bcQueue"
    using sorted_sort_key[of "\<lambda>b. - int (transmits b)" q] by (simp add: sorted_map)
  then show ?thesis
    by (simp add: go_sort_def by_transmits_def)
qed

definition queue3 :: "bytes bcQueue" where
  "queue3 = [\<lparr>transmits = 2, bc = [1, 2]\<rparr>, \<lparr>transmits = 0, bc = [3]\<rparr>, \<lparr>transmits = 0, bc = [4, 5, 6]\<rparr>]"

lemma retransmitLimit_5: "retransmitLimit 1 5 = 1"
  by (simp add: retransmitLimit_def ceil_log10_def floorlog_def log_def)

lemma retransmitLimit_50: "retransmitLimit 1 50 = 2"
  using floorlog_bounds[of 50 10] by (simp add: retransmitLimit_def ceil_log10_def compute_floorlog)

text \<open>Room for two of the three: the newest is sent, the next one too, the oldest waits.\<close>

theorem getBroadcasts_refines_witness:
  "fst (snd (getBroadcasts id by_transmits 1 50 0 4 queue3)) = [[4, 5, 6], [3]]"
proof -
  obtain q' sent fin where g: "getBroadcasts id by_transmits 1 50 0 4 queue3 = (q', sent, fin)"
    by (rule prod_cases3)
  have s: "send_all id 0 4 (retransmitLimit 1 50) (rev queue3) 0 =
      ([\<lparr>transmits = 1, bc = [4, 5, 6]\<rparr>, \<lparr>transmits = 1, bc = [3]\<rparr>, \<lparr>transmits = 2, bc = [1, 2]\<rparr>],
       4, [[4, 5, 6], [3]], [])"
    by (simp add: retransmitLimit_50 queue3_def Let_def)
  show ?thesis
    using getBroadcasts_refines[OF go_sort_by_transmits g s] g by simp
qed

theorem getBroadcasts_budget_witness:
  "(\<Sum>m\<leftarrow>fst (snd (getBroadcasts id by_transmits 1 50 2 7 queue3)). 2 + int (length m)) \<le> 7"
proof -
  obtain q' sent fin where g: "getBroadcasts id by_transmits 1 50 2 7 queue3 = (q', sent, fin)"
    by (rule prod_cases3)
  show ?thesis
    using getBroadcasts_budget[OF go_sort_by_transmits _ g] g by simp
qed

theorem gossip_drains_witness:
  "gossip_rounds id by_transmits 1 50 2 1400 2 queue3 = [] \<and>
   fst (snd (getBroadcasts id by_transmits 1 50 2 1400 queue3)) = [[4, 5, 6], [3], [1, 2]]"
  using gossip_drains[of by_transmits 2 id queue3 1400 1 50 2]
  by (simp add: go_sort_by_transmits retransmitLimit_50) (simp add: queue3_def queue_bytes_def)

theorem queueBroadcast_supersedes_witness:
  "fst (queueBroadcast (=) [3] queue3) =
     [\<lparr>transmits = 2, bc = [1, 2]\<rparr>, \<lparr>transmits = 0, bc = [4, 5, 6]\<rparr>, \<lparr>transmits = 0, bc = [3]\<rparr>]"
proof -
  have "broadcast_kind (=) (\<lambda>b::bytes. b)" "unique_keys (\<lambda>b. b) queue3"
    by (auto simp: broadcast_kind_def unique_keys_def queue3_def)
  from queueBroadcast_supersedes[OF this, of "[3]"] show ?thesis
    by (simp add: queue3_def)
qed

end
