(* ===== verification/MUtil.thy ===== *)
theory MUtil
  imports Node TransmitQueue
begin

text \<open>
  memberlist's \<open>util.go\<close>: timing scales, the choice of random nodes, reaping of dead ones, and
  compound messages, which carry the gossip of one packet.  Random numbers are arguments.
\<close>

section \<open>Node states\<close>

datatype nodeStateType = stateAlive | stateSuspect | stateDead

record nodeState = node +
  Incarnation :: u32
  State :: nodeStateType
  StateChange :: int

section \<open>Timing\<close>

text \<open>A \<open>time.Duration\<close> is an \<open>int64\<close>; products wrap around.\<close>

definition i64 :: "int \<Rightarrow> int" where
  "i64 x = (x + 2 ^ 63) mod 2 ^ 64 - 2 ^ 63"

definition suspicionTimeout :: "int \<Rightarrow> nat \<Rightarrow> int \<Rightarrow> int" where
  "suspicionTimeout suspicionMult n interval =
     i64 (i64 (suspicionMult * int (ceil_log10 (n + 1))) * interval)"

definition pushPullScaleThreshold :: nat where
  "pushPullScaleThreshold = 32"

text \<open>For \<open>n > 32\<close>, \<open>ceil (log2 n - 5)\<close> is the number of binary digits of \<open>n - 1\<close> less 5.\<close>

definition pushPullScale :: "int \<Rightarrow> nat \<Rightarrow> int" where
  "pushPullScale interval n =
     (if n \<le> pushPullScaleThreshold then interval
      else let multiplier = int (floorlog 2 (n - 1)) - 5 + 1 in i64 (multiplier * interval))"

section \<open>Random choices\<close>

definition randomOffset :: "nat \<Rightarrow> u32 \<Rightarrow> nat" where
  "randomOffset n r = (if n = 0 then 0 else unat (r mod of_nat n))"

definition swap :: "nat \<Rightarrow> nat \<Rightarrow> 'a list \<Rightarrow> 'a list" where
  "swap i j xs = xs[i := xs ! j, j := xs ! i]"

text \<open>\<open>j i\<close> is the random index that turn \<open>i\<close> draws from \<open>0 .. i\<close>.\<close>

definition shuffleNodes :: "(nat \<Rightarrow> nat) \<Rightarrow> 'a list \<Rightarrow> 'a list" where
  "shuffleNodes j nodes = fold (\<lambda>i ns. swap i (j i) ns) [0..<length nodes] nodes"

section \<open>Slices of node pointers\<close>

text \<open>
  A \<open>[]*nodeState\<close> is a list of pointers \<open>'p\<close>, and \<open>deref\<close> what they point to.  The loop of
  \<open>moveDeadNodes\<close>: \<open>i--\<close> after a swap makes it look at the same index again.
\<close>

function move_dead :: "('p \<Rightarrow> nodeState) \<Rightarrow> 'p list \<Rightarrow> nat \<Rightarrow> nat \<Rightarrow> 'p list \<times> nat" where
  "move_dead deref nodes numDead i =
     (let n = length nodes
      in if i < n - numDead then
           (if State (deref (nodes ! i)) \<noteq> stateDead then move_dead deref nodes numDead (Suc i)
            else move_dead deref (swap i (n - numDead - 1) nodes) (Suc numDead) i)
         else (nodes, n - numDead))"
  by pat_completeness auto
termination
  by (relation "measure (\<lambda>(_, nodes, numDead, i). length nodes - numDead - i)") (auto simp: swap_def)

declare move_dead.simps [simp del]

definition moveDeadNodes :: "('p \<Rightarrow> nodeState) \<Rightarrow> 'p list \<Rightarrow> 'p list \<times> nat" where
  "moveDeadNodes deref nodes = move_dead deref nodes 0 0"

text \<open>\<open>rs\<close> are the random numbers drawn, one per turn, at most \<open>3 * n\<close>.\<close>

fun k_random :: "('p \<Rightarrow> nodeState) \<Rightarrow> nat \<Rightarrow> string list \<Rightarrow> 'p list \<Rightarrow> u32 list \<Rightarrow> 'p list \<Rightarrow> 'p list" where
  "k_random deref k excludes nodes [] kNodes = kNodes"
| "k_random deref k excludes nodes (r # rs) kNodes =
     (if length kNodes < k then
        (let nd = nodes ! randomOffset (length nodes) r
         in if Name (deref nd) \<in> set excludes \<or> State (deref nd) \<noteq> stateAlive \<or> nd \<in> set kNodes
            then k_random deref k excludes nodes rs kNodes
            else k_random deref k excludes nodes rs (kNodes @ [nd]))
      else kNodes)"

definition kRandomNodes :: "('p \<Rightarrow> nodeState) \<Rightarrow> nat \<Rightarrow> string list \<Rightarrow> u32 list \<Rightarrow> 'p list \<Rightarrow> 'p list" where
  "kRandomNodes deref k excludes rs nodes =
     k_random deref k excludes nodes (take (3 * length nodes) rs) []"

section \<open>Compound messages\<close>

definition compoundMsg :: byte where "compoundMsg = 7"

definition be16 :: "nat \<Rightarrow> bytes" where
  "be16 n = [of_nat (n div 256), of_nat n]"

definition makeCompoundMessage :: "bytes list \<Rightarrow> bytes" where
  "makeCompoundMessage msgs =
     [compoundMsg, of_nat (length msgs)] @ concat (map (\<lambda>m. be16 (length m mod 65536)) msgs) @ concat msgs"

text \<open>The number of parts that are cut short, and those that are whole.\<close>

fun split_parts :: "nat list \<Rightarrow> bytes \<Rightarrow> nat \<times> bytes list" where
  "split_parts [] buf = (0, [])"
| "split_parts (l # ls) buf =
     (if length buf < l then (length ls + 1, [])
      else let (trunc, parts) = split_parts ls (drop l buf) in (trunc, take l buf # parts))"

text \<open>
  \<open>tail\<close> is what lies behind the message in the array it is a slice of: \<open>buf[i*2 : i*2+2]\<close> is
  checked against the capacity only.  \<open>numParts*2\<close> is a product of bytes.
\<close>

definition decodeCompoundMessage :: "bytes \<Rightarrow> bytes \<Rightarrow> (nat \<times> bytes list \<times> goerr option) outcome" where
  "decodeCompoundMessage buf tail =
     (case buf of
        [] \<Rightarrow> Returns (0, [], Some (ErrMsg ''missing compound length byte''))
      | numParts # b \<Rightarrow>
          (if length b < unat (numParts * 2) then Returns (0, [], Some (ErrMsg ''truncated len slice''))
           else if length (b @ tail) < 2 * unat numParts then Panics
           else
             let lengths = map (\<lambda>i. unat ((b @ tail) ! (i * 2)) * 256 + unat ((b @ tail) ! (i * 2 + 1)))
                   [0..<unat numParts];
                 (trunc, parts) = split_parts lengths (drop (unat (numParts * 2)) b)
             in Returns (trunc, parts, None)))"

section \<open>Address blocks\<close>

text \<open>\<open>IPNet.Contains\<close> for a block of IPv4: \<open>net\<close> and the length of the mask.\<close>

definition bits_of :: "bytes \<Rightarrow> bool list" where
  "bits_of bs = concat (map (\<lambda>b. map (\<lambda>i. bit b (7 - i)) [0..<8]) bs)"

definition block_contains :: "bytes \<times> nat \<Rightarrow> bytes \<Rightarrow> bool" where
  "block_contains blk ip =
     (case to4 ip of None \<Rightarrow> False
      | Some ip4 \<Rightarrow> take (snd blk) (bits_of ip4) = take (snd blk) (bits_of (fst blk)))"

definition privateBlocks :: "(bytes \<times> nat) list" where
  "privateBlocks = [([10, 0, 0, 0], 8), ([172, 16, 0, 0], 12), ([192, 168, 0, 0], 16)]"

definition loopbackBlock :: "bytes \<times> nat" where
  "loopbackBlock = ([127, 0, 0, 0], 8)"

text \<open>On the parsed address; one that does not parse is \<open>nil\<close>, the empty list.\<close>

definition isPrivateIP :: "bytes \<Rightarrow> bool" where
  "isPrivateIP ip = list_ex (\<lambda>b. block_contains b ip) privateBlocks"

definition isLoopbackIP :: "bytes \<Rightarrow> bool" where
  "isLoopbackIP ip = block_contains loopbackBlock ip"

section \<open>Reaping and choosing\<close>

lemma length_swap [simp]: "length (swap i j xs) = length xs"
  by (simp add: swap_def)

lemma mset_swap: "i < length xs \<Longrightarrow> j < length xs \<Longrightarrow> mset (swap i j xs) = mset xs"
  unfolding swap_def by (rule mset_swap)

lemma nth_swap: "i < length xs \<Longrightarrow> j < length xs \<Longrightarrow>
  swap i j xs ! k = (if k = j then xs ! i else if k = i then xs ! j else xs ! k)"
  by (cases "k < length xs") (auto simp: swap_def nth_list_update)

lemma move_dead_spec:
  assumes "move_dead deref nodes d i = (ns, k)" "d \<le> length nodes" "i \<le> length nodes - d"
    and "\<forall>j<i. State (deref (nodes ! j)) \<noteq> stateDead"
    and "\<forall>j. length nodes - d \<le> j \<and> j < length nodes \<longrightarrow> State (deref (nodes ! j)) = stateDead"
  shows "mset ns = mset nodes \<and> k \<le> length ns \<and>
    (\<forall>j<k. State (deref (ns ! j)) \<noteq> stateDead) \<and>
    (\<forall>j. k \<le> j \<and> j < length ns \<longrightarrow> State (deref (ns ! j)) = stateDead)"
  using assms
proof (induction deref nodes d i rule: move_dead.induct)
  case (1 deref nodes d i)
  let ?n = "length nodes"
  consider (stop) "\<not> i < ?n - d" | (skip) "i < ?n - d" "State (deref (nodes ! i)) \<noteq> stateDead"
    | (move) "i < ?n - d" "State (deref (nodes ! i)) = stateDead"
    by blast
  then show ?case
  proof cases
    case stop
    have "ns = nodes" "k = ?n - d"
      using 1(3) stop by (subst (asm) move_dead.simps; simp)+
    then show ?thesis
      using 1(4-7) stop by auto
  next
    case skip
    have "move_dead deref nodes d (Suc i) = (ns, k)"
      using 1(3) skip by (subst (asm) move_dead.simps) (simp add: Let_def)
    then show ?thesis
      using 1(1)[OF refl skip] 1(4-7) skip by (simp add: less_Suc_eq)
  next
    case move
    let ?j = "?n - d - 1"
    have b: "i < ?n" "?j < ?n" "i \<le> ?j" "Suc d \<le> ?n"
      using move by auto
    have e: "move_dead deref (swap i ?j nodes) (Suc d) i = (ns, k)"
      using 1(3) move by (subst (asm) move_dead.simps) (simp add: Let_def)
    have dead: "State (deref (swap i ?j nodes ! j)) = stateDead" if "?j \<le> j" "j < ?n" for j
    proof (cases "j = ?j")
      case True
      then show ?thesis
        using nth_swap[OF b(1,2)] move(2) by simp
    next
      case False
      then have "j \<noteq> i" "?n - d \<le> j"
        using that b(3) move(1) by auto
      then show ?thesis
        using nth_swap[OF b(1,2)] 1(7) that(2) False by simp
    qed
    have alive: "State (deref (swap i ?j nodes ! j)) \<noteq> stateDead" if "j < i" for j
      using that b nth_swap[OF b(1,2), of j] 1(6) by auto
    have "mset ns = mset (swap i ?j nodes) \<and> k \<le> length ns \<and>
      (\<forall>j<k. State (deref (ns ! j)) \<noteq> stateDead) \<and>
      (\<forall>j. k \<le> j \<and> j < length ns \<longrightarrow> State (deref (ns ! j)) = stateDead)"
      using 1(2)[OF refl move(1)] move e alive dead b by auto
    then show ?thesis
      using MUtil.mset_swap[OF b(1,2)] by simp
  qed
qed

text \<open>
  \<open>moveDeadNodes\<close> permutes the nodes so that exactly the first \<open>k\<close> are not
  dead, and returns \<open>k\<close>, the number of nodes that are not dead.
\<close>

theorem moveDeadNodes_spec:
  assumes "moveDeadNodes deref nodes = (ns, k)"
  shows "mset ns = mset nodes \<and> k = length (filter (\<lambda>p. State (deref p) \<noteq> stateDead) nodes) \<and>
    (\<forall>p\<in>set (take k ns). State (deref p) \<noteq> stateDead) \<and> (\<forall>p\<in>set (drop k ns). State (deref p) = stateDead)"
proof -
  have s: "mset ns = mset nodes" "k \<le> length ns" "\<forall>j<k. State (deref (ns ! j)) \<noteq> stateDead"
    "\<forall>j. k \<le> j \<and> j < length ns \<longrightarrow> State (deref (ns ! j)) = stateDead"
    using move_dead_spec[OF assms[unfolded moveDeadNodes_def]] by force+
  have t: "\<forall>p\<in>set (take k ns). State (deref p) \<noteq> stateDead" "\<forall>p\<in>set (drop k ns). State (deref p) = stateDead"
    using s by (auto simp: in_set_conv_nth)
  have "filter (\<lambda>p. State (deref p) \<noteq> stateDead) (take k ns @ drop k ns) = take k ns"
    using t by (simp only: filter_append) simp
  then have "length (filter (\<lambda>p. State (deref p) \<noteq> stateDead) ns) = k"
    using s(2) by simp
  then show ?thesis
    using s(1) t by (metis mset_filter size_mset)
qed

lemma randomOffset_less: "0 < n \<Longrightarrow> n < 2 ^ 32 \<Longrightarrow> randomOffset n r < n"
proof -
  assume n: "0 < n" "n < 2 ^ 32"
  then have "unat (of_nat n :: u32) = n"
    by (simp add: unat_of_nat)
  then show ?thesis
    using n by (simp add: randomOffset_def unat_mod)
qed

lemma k_random_spec:
  assumes "length nodes < 2 ^ 32" "nodes \<noteq> [] \<or> rs = []"
  shows "distinct kn \<Longrightarrow> length kn \<le> k \<Longrightarrow> set kn \<subseteq> set nodes \<Longrightarrow>
    \<forall>p\<in>set kn. State (deref p) = stateAlive \<and> Name (deref p) \<notin> set excludes \<Longrightarrow>
    distinct (k_random deref k excludes nodes rs kn) \<and> length (k_random deref k excludes nodes rs kn) \<le> k \<and>
    set (k_random deref k excludes nodes rs kn) \<subseteq> set nodes \<and>
    (\<forall>p\<in>set (k_random deref k excludes nodes rs kn).
       State (deref p) = stateAlive \<and> Name (deref p) \<notin> set excludes)"
  using assms(2)
proof (induction rs arbitrary: kn)
  case (Cons r rs)
  let ?nd = "nodes ! randomOffset (length nodes) r"
  have nd: "?nd \<in> set nodes"
    using randomOffset_less[of "length nodes" r] assms(1) Cons.prems(5) by simp
  have ne: "nodes \<noteq> [] \<or> rs = []"
    using Cons.prems(5) by simp
  consider (full) "\<not> length kn < k"
    | (skip) "length kn < k" "Name (deref ?nd) \<in> set excludes \<or> State (deref ?nd) \<noteq> stateAlive \<or> ?nd \<in> set kn"
    | (take) "length kn < k" "\<not> (Name (deref ?nd) \<in> set excludes \<or> State (deref ?nd) \<noteq> stateAlive \<or> ?nd \<in> set kn)"
    by blast
  then show ?case
  proof cases
    case full
    then show ?thesis
      using Cons.prems by simp
  next
    case skip
    have "k_random deref k excludes nodes (r # rs) kn = k_random deref k excludes nodes rs kn"
      by (subst k_random.simps) (simp only: Let_def skip if_True)
    then show ?thesis
      using Cons.IH[OF Cons.prems(1-4) ne] by simp
  next
    case take
    have "k_random deref k excludes nodes (r # rs) kn = k_random deref k excludes nodes rs (kn @ [?nd])"
      by (subst k_random.simps) (simp only: Let_def take if_True if_False)
    note e = this
    have a: "distinct (kn @ [?nd])" "length (kn @ [?nd]) \<le> k" "set (kn @ [?nd]) \<subseteq> set nodes"
      "\<forall>p\<in>set (kn @ [?nd]). State (deref p) = stateAlive \<and> Name (deref p) \<notin> set excludes"
      using take Cons.prems nd by auto
    show ?thesis
      unfolding e by (rule Cons.IH[OF a ne])
  qed
qed simp

text \<open>
  Whatever the random numbers, the nodes chosen are distinct members of the
  list, at most \<open>k\<close>, all of them alive and none of them excluded.
\<close>

theorem kRandomNodes_sound:
  assumes "length nodes < 2 ^ 32" "ks = kRandomNodes deref k excludes rs nodes"
  shows "distinct ks \<and> length ks \<le> k \<and> set ks \<subseteq> set nodes \<and>
    (\<forall>p\<in>set ks. State (deref p) = stateAlive \<and> Name (deref p) \<notin> set excludes)"
  using k_random_spec[OF assms(1), of "take (3 * length nodes) rs" "[]"] assms(2)
  by (auto simp: kRandomNodes_def)

section \<open>Compound messages\<close>

lemma split_parts_concat:
  "split_parts (map length msgs) (concat msgs @ rest) = (0, msgs)"
  by (induction msgs) auto

lemma be16_table:
  "i < length msgs \<Longrightarrow>
   concat (map (\<lambda>m. be16 (f m)) msgs) ! (i * 2) = of_nat (f (msgs ! i) div 256) \<and>
   concat (map (\<lambda>m. be16 (f m)) msgs) ! (i * 2 + 1) = of_nat (f (msgs ! i))"
proof (induction msgs arbitrary: i)
  case (Cons m ms)
  then show ?case
    by (cases i) (auto simp: be16_def)
qed simp

lemma length_be16_table: "length (concat (map (\<lambda>m. be16 (f m)) msgs)) = 2 * length msgs"
  by (induction msgs) (auto simp: be16_def)

lemma be16_value: "n < 65536 \<Longrightarrow> unat (of_nat (n div 256) :: byte) * 256 + unat (of_nat n :: byte) = n"
  by (simp add: unat_of_nat)


lemma nth_append_table:
  "i < 2 * n \<Longrightarrow> length t = 2 * n \<Longrightarrow> (t @ rest) ! i = t ! i"
  by (simp add: nth_append)

lemma read_table:
  fixes msgs :: "bytes list"
  assumes "\<forall>m\<in>set msgs. length m < 65536"
  shows "map (\<lambda>i. unat ((concat (map (\<lambda>m. be16 (length m mod 65536)) msgs) @ rest) ! (i * 2)) * 256 +
      unat ((concat (map (\<lambda>m. be16 (length m mod 65536)) msgs) @ rest) ! (i * 2 + 1)))
    [0..<length msgs] = map length msgs"
proof (rule nth_equalityI)
  let ?f = "\<lambda>m :: bytes. length m mod 65536"
  let ?t = "concat (map (\<lambda>m. be16 (?f m)) msgs)"
  fix i
  assume "i < length (map (\<lambda>i. unat ((?t @ rest) ! (i * 2)) * 256 + unat ((?t @ rest) ! (i * 2 + 1)))
    [0..<length msgs])"
  then have i: "i < length msgs"
    by simp
  have n: "(?t @ rest) ! (i * 2) = ?t ! (i * 2)" "(?t @ rest) ! (i * 2 + 1) = ?t ! (i * 2 + 1)"
    using i by (simp_all add: nth_append length_be16_table)
  have l: "?f (msgs ! i) = length (msgs ! i)"
    using i assms by simp
  show "map (\<lambda>i. unat ((?t @ rest) ! (i * 2)) * 256 + unat ((?t @ rest) ! (i * 2 + 1)))
      [0..<length msgs] ! i = map length msgs ! i"
    using be16_table[OF i, of ?f] be16_value[of "length (msgs ! i)"] i n l assms by simp
qed simp

text \<open>
  The decoder after the length table was read: it goes on at offset \<open>numParts*2\<close>, a byte.
\<close>

lemma decode_make:
  assumes "length msgs < 256" "\<forall>m\<in>set msgs. length m < 65536"
  shows "decodeCompoundMessage (tl (makeCompoundMessage msgs)) tail =
    Returns (let (trunc, parts) = split_parts (map length msgs)
       (drop ((2 * length msgs) mod 256) (concat (map (\<lambda>m. be16 (length m)) msgs) @ concat msgs))
     in (trunc, parts, None))"
proof -
  let ?n = "of_nat (length msgs) :: byte"
  have u: "unat ?n = length msgs" "unat (?n * 2) = (2 * length msgs) mod 256"
    using assms(1) by (simp_all add: unat_of_nat unat_word_ariths mult.commute)
  have c: "map (\<lambda>m. be16 (length m mod 65536)) msgs = map (\<lambda>m. be16 (length m)) msgs"
    using assms(2) by simp
  have t: "concat (map (\<lambda>m. be16 (length m mod 65536)) msgs) = concat (map (\<lambda>m. be16 (length m)) msgs)"
    by (simp only: c)
  have s: "length (concat (map (\<lambda>m. be16 (length m)) msgs)) = 2 * length msgs"
    by (rule length_be16_table)
  have g: "\<not> length (concat (map (\<lambda>m. be16 (length m)) msgs) @ concat msgs) < (2 * length msgs) mod 256"
    "\<not> length ((concat (map (\<lambda>m. be16 (length m)) msgs) @ concat msgs) @ tail) < 2 * length msgs"
    using s mod_less_eq_dividend[of "2 * length msgs" 256] by (simp_all only: length_append)
  show ?thesis
    unfolding makeCompoundMessage_def decodeCompoundMessage_def append_Cons append_Nil list.sel
      list.case u Let_def t
    using read_table[OF assms(2), of "concat msgs @ tail"] g
    by (simp only: t if_False append_assoc split_beta Let_def)
qed

lemma compound_decodes:
  assumes "length msgs < 128" "\<forall>m\<in>set msgs. length m < 65536"
  shows "decodeCompoundMessage (tl (makeCompoundMessage msgs)) tail = Returns (0, msgs, None)"
proof -
  have "(2 * length msgs) mod 256 = length (concat (map (\<lambda>m. be16 (length m)) msgs))"
    using assms(1) by (simp only: length_be16_table) simp
  then show ?thesis
    using decode_make[of msgs tail] assms split_parts_concat[of msgs "[]"] by simp
qed

text \<open>
  A compound message of up to 127 parts decodes to the parts it was made of,
  whatever lies behind it in memory.
\<close>

theorem compound_roundtrip:
  assumes "length msgs < 128" "\<forall>m\<in>set msgs. length m < 65536"
  shows "decodeCompoundMessage (tl (makeCompoundMessage msgs)) tail = Returns (0, msgs, None)"
  by (rule compound_decodes[OF assms])

lemma compound_roundtrip_witness:
  "decodeCompoundMessage (tl (makeCompoundMessage [[3, 1, 4], [], [1, 5]])) [9, 2, 6] =
    Returns (0, [[3, 1, 4], [], [1, 5]], None)"
  by (rule compound_roundtrip) simp_all

lemma decode_128: "decodeCompoundMessage [128] tail = Panics \<longleftrightarrow> length tail < 256"
proof -
  have u: "unat ((128 :: byte) * 2) = 0" "unat (128 :: byte) = 128"
    by simp_all
  have z: "length ([] :: bytes) < 0 \<longleftrightarrow> False" "(2 :: nat) * 128 = 256"
    by simp_all
  show ?thesis
    unfolding decodeCompoundMessage_def list.case u z if_False append_Nil Let_def split_beta
    by (cases "length tail < 256") (simp_all only: if_True if_False outcome.distinct simp_thms)
qed

text \<open>
  From 128 parts on the decoder loses 256 bytes of the length table to the
  wrap-around of \<open>numParts*2\<close> and takes the rest of the table for message data.  A message that
  claims 128 parts passes the length check with nothing behind it, and the reader then panics
  unless the array goes on for 256 more bytes, which are not part of the message.
\<close>

theorem compound_wraps:
  assumes "128 \<le> length msgs" "length msgs < 256" "\<forall>m\<in>set msgs. length m < 65536"
  shows "decodeCompoundMessage (tl (makeCompoundMessage msgs)) tail =
      Returns (let (trunc, parts) = split_parts (map length msgs)
         (drop (2 * (length msgs - 128)) (concat (map (\<lambda>m. be16 (length m)) msgs)) @ concat msgs)
       in (trunc, parts, None)) \<and>
    (decodeCompoundMessage [128] tail = Panics \<longleftrightarrow> length tail < 256)"
proof
  have m: "(2 * length msgs) mod 256 = 2 * (length msgs - 128)"
    using assms(1,2) by (auto dest!: le_Suc_ex simp: mod_add_left_eq[symmetric])
  have z: "2 * (length msgs - 128) - length (concat (map (\<lambda>m. be16 (length m)) msgs)) = 0"
    by (simp only: length_be16_table)
  show "decodeCompoundMessage (tl (makeCompoundMessage msgs)) tail =
      Returns (let (trunc, parts) = split_parts (map length msgs)
         (drop (2 * (length msgs - 128)) (concat (map (\<lambda>m. be16 (length m)) msgs)) @ concat msgs)
       in (trunc, parts, None))"
    by (simp only: decode_make[OF assms(2,3), of tail] m drop_append z drop_0)
  show "decodeCompoundMessage [128] tail = Panics \<longleftrightarrow> length tail < 256"
    by (rule decode_128)
qed

lemma compound_wraps_witness:
  "decodeCompoundMessage (tl (makeCompoundMessage (replicate 128 [8]))) [] =
    Returns (0, concat (replicate 64 [[0], [1]]), None)"
proof -
  have a: "128 \<le> length (replicate 128 [8 :: byte])" "length (replicate 128 [8 :: byte]) < 256"
    "\<forall>m\<in>set (replicate 128 [8 :: byte]). length m < 65536"
    by simp_all
  have s: "split_parts (map length (replicate 128 [8 :: byte]))
      (drop (2 * (length (replicate 128 [8 :: byte]) - 128))
        (concat (map (\<lambda>m. be16 (length m)) (replicate 128 [8 :: byte]))) @
       concat (replicate 128 [8])) = (0, concat (replicate 64 [[0], [1]]))"
    by code_simp
  show ?thesis
    using conjunct1[OF compound_wraps[OF a, of "[]"]] unfolding s by (simp only: Let_def prod.case)
qed


section \<open>Scales\<close>

lemma floorlog2_bounds:
  "0 < m \<Longrightarrow> 2 ^ (floorlog 2 m - 1) \<le> m \<and> m < 2 ^ floorlog 2 m"
  using floorlog_bounds[of m 2] by simp

text \<open>
  Above the threshold the interval is stretched by the least \<open>k + 1\<close> with
  \<open>n \<le> 32 * 2 ^ k\<close>: the 33rd node doubles it, the 65th triples it.
\<close>

theorem pushPullScale_spec:
  assumes "pushPullScaleThreshold < n" "n \<le> pushPullScaleThreshold * 2 ^ k"
    "pushPullScaleThreshold * 2 ^ (k - 1) < n" "0 \<le> interval" "(int k + 1) * interval < 2 ^ 63"
  shows "pushPullScale interval n = (int k + 1) * interval"
proof -
  have n: "32 < n" "n \<le> 2 ^ (k + 5)" "2 ^ (k - 1 + 5) < n"
    using assms(1-3) by (simp_all add: pushPullScaleThreshold_def power_add mult.commute)
  have k: "0 < k"
    using n by (cases k) auto
  then have "2 ^ (k + 5 - 1) \<le> n - 1" "n - 1 < 2 ^ (k + 5)"
    using n by (auto simp: Suc_le_eq)
  then have "floorlog 2 (n - 1) = k + 5"
    by (intro antisym floorlog_leI floorlog_geI) auto
  then show ?thesis
    using n(1) assms(4,5) by (simp add: pushPullScale_def pushPullScaleThreshold_def i64_def)
qed

lemma pushPullScale_spec_witness: "pushPullScale 30 65 = 90"
  using pushPullScale_spec[of 65 2 30] by (simp add: pushPullScaleThreshold_def)

definition ns_of :: "string \<Rightarrow> nodeStateType \<Rightarrow> nodeState" where
  "ns_of n st = \<lparr>Name = n, Addr = [], Port = 0, Meta = [], PMin = 0, PMax = 0, PCur = 0,
     DMin = 0, DMax = 0, DCur = 0, Incarnation = 0, State = st, StateChange = 0\<rparr>"

definition three_nodes :: "nat \<Rightarrow> nodeState" where
  "three_nodes p = [ns_of ''a'' stateAlive, ns_of ''b'' stateDead, ns_of ''c'' stateAlive] ! p"

lemma moveDeadNodes_spec_witness: "mset (fst (moveDeadNodes three_nodes [0, 1, 2])) = {#0, 1, 2#}"
proof -
  have "moveDeadNodes three_nodes [0, 1, 2] = ([0, 2, 1], 2)"
    by (simp add: moveDeadNodes_def move_dead.simps three_nodes_def ns_of_def swap_def)
  from this moveDeadNodes_spec[OF this] show ?thesis
    by simp
qed

lemma kRandomNodes_sound_witness: "distinct (kRandomNodes three_nodes 2 [''a''] [0, 1, 2, 5, 2, 3, 4, 1, 0] [0, 1, 2])"
  using kRandomNodes_sound[of "[0, 1, 2]" "[2]" three_nodes 2 "[''a'']" "[0, 1, 2, 5, 2, 3, 4, 1, 0]"]
  by (simp add: kRandomNodes_def three_nodes_def ns_of_def randomOffset_def)

end
