(* ===== verification/Wire.thy ===== *)
theory Wire
  imports Msgpack MUtil
begin

text \<open>
  memberlist's messages (\<open>net.go\<close>) and how \<open>encode\<close> and \<open>decode\<close> of \<open>util.go\<close> take them to bytes.
  A byte slice of a message is a list here; the empty one stands for nil, and is encoded as nil.
\<close>

section \<open>Message types\<close>

definition pingMsg :: byte where "pingMsg = 0"
definition indirectPingMsg :: byte where "indirectPingMsg = 1"
definition ackRespMsg :: byte where "ackRespMsg = 2"
definition suspectMsg :: byte where "suspectMsg = 3"
definition aliveMsg :: byte where "aliveMsg = 4"
definition deadMsg :: byte where "deadMsg = 5"
definition pushPullMsg :: byte where "pushPullMsg = 6"
definition userMsg :: byte where "userMsg = 8"
definition compressMsg :: byte where "compressMsg = 9"
definition encryptMsg :: byte where "encryptMsg = 10"

lemmas message_types = pingMsg_def indirectPingMsg_def ackRespMsg_def suspectMsg_def aliveMsg_def
  deadMsg_def pushPullMsg_def compoundMsg_def userMsg_def compressMsg_def encryptMsg_def

definition lzwAlgo :: u8 where "lzwAlgo = 0"

section \<open>Messages\<close>

record ping =
  pi_SeqNo :: u32
  pi_Node :: string

record indirectPingReq =
  ip_SeqNo :: u32
  ip_Target :: bytes
  ip_Port :: u16
  ip_Node :: string

record ackResp =
  ak_SeqNo :: u32
  ak_Payload :: bytes

record suspect =
  su_Incarnation :: u32
  su_Node :: string
  su_From :: string

record alive =
  al_Incarnation :: u32
  al_Node :: string
  al_Addr :: bytes
  al_Port :: u16
  al_Meta :: bytes
  al_Vsn :: bytes

record dead =
  de_Incarnation :: u32
  de_Node :: string
  de_From :: string

text \<open>\<open>Nodes\<close>, \<open>UserStateLen\<close> and the state of a node are Go's \<open>int\<close>, of 64 bits and signed.\<close>

record pushPullHeader =
  pp_Nodes :: int
  pp_UserStateLen :: int
  pp_Join :: bool

record userMsgHeader =
  um_UserMsgLen :: int

record pushNodeState =
  pn_Name :: string
  pn_Addr :: bytes
  pn_Port :: u16
  pn_Meta :: bytes
  pn_Incarnation :: u32
  pn_State :: int
  pn_Vsn :: bytes

record compress =
  co_Algo :: u8
  co_Buf :: bytes

section \<open>As structs\<close>

definition nilable :: "bytes \<Rightarrow> goval" where
  "nilable bs = VBytes (if bs = [] then None else Some bs)"

definition ping_struct :: "ping \<Rightarrow> gostruct" where
  "ping_struct p = [(''SeqNo'', VUint 32 (unat (pi_SeqNo p))), (''Node'', VString (pi_Node p))]"

definition indirect_struct :: "indirectPingReq \<Rightarrow> gostruct" where
  "indirect_struct p = [(''SeqNo'', VUint 32 (unat (ip_SeqNo p))), (''Target'', nilable (ip_Target p)),
     (''Port'', VUint 16 (unat (ip_Port p))), (''Node'', VString (ip_Node p))]"

definition ack_struct :: "ackResp \<Rightarrow> gostruct" where
  "ack_struct a = [(''SeqNo'', VUint 32 (unat (ak_SeqNo a))), (''Payload'', nilable (ak_Payload a))]"

definition suspect_struct :: "suspect \<Rightarrow> gostruct" where
  "suspect_struct s = [(''Incarnation'', VUint 32 (unat (su_Incarnation s))), (''Node'', VString (su_Node s)),
     (''From'', VString (su_From s))]"

definition alive_struct :: "alive \<Rightarrow> gostruct" where
  "alive_struct a = [(''Incarnation'', VUint 32 (unat (al_Incarnation a))), (''Node'', VString (al_Node a)),
     (''Addr'', nilable (al_Addr a)), (''Port'', VUint 16 (unat (al_Port a))), (''Meta'', nilable (al_Meta a)),
     (''Vsn'', nilable (al_Vsn a))]"

definition dead_struct :: "dead \<Rightarrow> gostruct" where
  "dead_struct d = [(''Incarnation'', VUint 32 (unat (de_Incarnation d))), (''Node'', VString (de_Node d)),
     (''From'', VString (de_From d))]"

definition header_struct :: "pushPullHeader \<Rightarrow> gostruct" where
  "header_struct h = [(''Nodes'', VInt (pp_Nodes h)), (''UserStateLen'', VInt (pp_UserStateLen h)),
     (''Join'', VBool (pp_Join h))]"

definition user_struct :: "userMsgHeader \<Rightarrow> gostruct" where
  "user_struct h = [(''UserMsgLen'', VInt (um_UserMsgLen h))]"

definition push_struct :: "pushNodeState \<Rightarrow> gostruct" where
  "push_struct n = [(''Name'', VString (pn_Name n)), (''Addr'', nilable (pn_Addr n)),
     (''Port'', VUint 16 (unat (pn_Port n))), (''Meta'', nilable (pn_Meta n)),
     (''Incarnation'', VUint 32 (unat (pn_Incarnation n))), (''State'', VInt (pn_State n)),
     (''Vsn'', nilable (pn_Vsn n))]"

definition compress_struct :: "compress \<Rightarrow> gostruct" where
  "compress_struct c = [(''Algo'', VUint 8 (unat (co_Algo c))), (''Buf'', nilable (co_Buf c))]"

text \<open>The other way: fields by name.\<close>

definition uint_field :: "gostruct \<Rightarrow> string \<Rightarrow> nat" where
  "uint_field fs n = (case map_of fs n of Some (VUint _ x) \<Rightarrow> x | _ \<Rightarrow> 0)"

definition int_field :: "gostruct \<Rightarrow> string \<Rightarrow> int" where
  "int_field fs n = (case map_of fs n of Some (VInt x) \<Rightarrow> x | _ \<Rightarrow> 0)"

definition bool_field :: "gostruct \<Rightarrow> string \<Rightarrow> bool" where
  "bool_field fs n = (case map_of fs n of Some (VBool x) \<Rightarrow> x | _ \<Rightarrow> False)"

definition str_field :: "gostruct \<Rightarrow> string \<Rightarrow> string" where
  "str_field fs n = (case map_of fs n of Some (VString x) \<Rightarrow> x | _ \<Rightarrow> [])"

definition bytes_field :: "gostruct \<Rightarrow> string \<Rightarrow> bytes" where
  "bytes_field fs n = (case map_of fs n of Some (VBytes (Some x)) \<Rightarrow> x | _ \<Rightarrow> [])"

lemmas field_defs = uint_field_def int_field_def bool_field_def str_field_def bytes_field_def

definition struct_ping :: "gostruct \<Rightarrow> ping" where
  "struct_ping fs = \<lparr>pi_SeqNo = of_nat (uint_field fs ''SeqNo''), pi_Node = str_field fs ''Node''\<rparr>"

definition struct_indirect :: "gostruct \<Rightarrow> indirectPingReq" where
  "struct_indirect fs = \<lparr>ip_SeqNo = of_nat (uint_field fs ''SeqNo''), ip_Target = bytes_field fs ''Target'',
     ip_Port = of_nat (uint_field fs ''Port''), ip_Node = str_field fs ''Node''\<rparr>"

definition struct_ack :: "gostruct \<Rightarrow> ackResp" where
  "struct_ack fs = \<lparr>ak_SeqNo = of_nat (uint_field fs ''SeqNo''), ak_Payload = bytes_field fs ''Payload''\<rparr>"

definition struct_suspect :: "gostruct \<Rightarrow> suspect" where
  "struct_suspect fs = \<lparr>su_Incarnation = of_nat (uint_field fs ''Incarnation''), su_Node = str_field fs ''Node'',
     su_From = str_field fs ''From''\<rparr>"

definition struct_alive :: "gostruct \<Rightarrow> alive" where
  "struct_alive fs = \<lparr>al_Incarnation = of_nat (uint_field fs ''Incarnation''), al_Node = str_field fs ''Node'',
     al_Addr = bytes_field fs ''Addr'', al_Port = of_nat (uint_field fs ''Port''),
     al_Meta = bytes_field fs ''Meta'', al_Vsn = bytes_field fs ''Vsn''\<rparr>"

definition struct_dead :: "gostruct \<Rightarrow> dead" where
  "struct_dead fs = \<lparr>de_Incarnation = of_nat (uint_field fs ''Incarnation''), de_Node = str_field fs ''Node'',
     de_From = str_field fs ''From''\<rparr>"

definition struct_header :: "gostruct \<Rightarrow> pushPullHeader" where
  "struct_header fs = \<lparr>pp_Nodes = int_field fs ''Nodes'', pp_UserStateLen = int_field fs ''UserStateLen'',
     pp_Join = bool_field fs ''Join''\<rparr>"

definition struct_user :: "gostruct \<Rightarrow> userMsgHeader" where
  "struct_user fs = \<lparr>um_UserMsgLen = int_field fs ''UserMsgLen''\<rparr>"

definition struct_push :: "gostruct \<Rightarrow> pushNodeState" where
  "struct_push fs = \<lparr>pn_Name = str_field fs ''Name'', pn_Addr = bytes_field fs ''Addr'',
     pn_Port = of_nat (uint_field fs ''Port''), pn_Meta = bytes_field fs ''Meta'',
     pn_Incarnation = of_nat (uint_field fs ''Incarnation''), pn_State = int_field fs ''State'',
     pn_Vsn = bytes_field fs ''Vsn''\<rparr>"

definition struct_compress :: "gostruct \<Rightarrow> compress" where
  "struct_compress fs = \<lparr>co_Algo = of_nat (uint_field fs ''Algo''), co_Buf = bytes_field fs ''Buf''\<rparr>"

section \<open>encode and decode\<close>

definition encode :: "byte \<Rightarrow> gostruct \<Rightarrow> bytes" where
  "encode msgType m = msgType # encodeStruct m"

text \<open>
  \<open>decode\<close> into a fresh (zero) struct of the shape \<open>zero\<close>; what is left of the buffer is ignored.
  \<open>dec_next\<close> is one \<open>Decode\<close> of a decoder that goes on reading the stream.
\<close>

definition dec_next :: "(gostruct \<Rightarrow> 'a) \<Rightarrow> gostruct \<Rightarrow> bytes \<Rightarrow> ('a \<times> bytes) option" where
  "dec_next f zero buf = map_option (\<lambda>(fs, r). (f fs, r)) (decodeStruct zero buf)"

definition decode :: "(gostruct \<Rightarrow> 'a) \<Rightarrow> gostruct \<Rightarrow> bytes \<Rightarrow> 'a option" where
  "decode f zero buf = map_option fst (dec_next f zero buf)"

definition zero_ping :: gostruct where
  "zero_ping = [(''SeqNo'', VUint 32 0), (''Node'', VString [])]"
definition zero_indirect :: gostruct where
  "zero_indirect = [(''SeqNo'', VUint 32 0), (''Target'', VBytes None), (''Port'', VUint 16 0), (''Node'', VString [])]"
definition zero_ack :: gostruct where
  "zero_ack = [(''SeqNo'', VUint 32 0), (''Payload'', VBytes None)]"
definition zero_suspect :: gostruct where
  "zero_suspect = [(''Incarnation'', VUint 32 0), (''Node'', VString []), (''From'', VString [])]"
definition zero_alive :: gostruct where
  "zero_alive = [(''Incarnation'', VUint 32 0), (''Node'', VString []), (''Addr'', VBytes None),
     (''Port'', VUint 16 0), (''Meta'', VBytes None), (''Vsn'', VBytes None)]"
definition zero_dead :: gostruct where
  "zero_dead = zero_suspect"
definition zero_header :: gostruct where
  "zero_header = [(''Nodes'', VInt 0), (''UserStateLen'', VInt 0), (''Join'', VBool False)]"
definition zero_user :: gostruct where
  "zero_user = [(''UserMsgLen'', VInt 0)]"
definition zero_push :: gostruct where
  "zero_push = [(''Name'', VString []), (''Addr'', VBytes None), (''Port'', VUint 16 0), (''Meta'', VBytes None),
     (''Incarnation'', VUint 32 0), (''State'', VInt 0), (''Vsn'', VBytes None)]"
definition zero_compress :: gostruct where
  "zero_compress = [(''Algo'', VUint 8 0), (''Buf'', VBytes None)]"

lemmas zero_defs = zero_ping_def zero_indirect_def zero_ack_def zero_suspect_def zero_alive_def
  zero_dead_def zero_header_def zero_user_def zero_push_def zero_compress_def

lemmas to_struct_defs = ping_struct_def indirect_struct_def ack_struct_def suspect_struct_def
  alive_struct_def dead_struct_def header_struct_def user_struct_def push_struct_def compress_struct_def

lemmas of_struct_defs = struct_ping_def struct_indirect_def struct_ack_def struct_suspect_def
  struct_alive_def struct_dead_def struct_header_def struct_user_def struct_push_def struct_compress_def

section \<open>Messages survive the wire\<close>

definition fits :: "'a list \<Rightarrow> bool" where
  "fits x \<longleftrightarrow> length x < 2 ^ 32"

definition fits_int :: "int \<Rightarrow> bool" where
  "fits_int i \<longleftrightarrow> - (2 ^ 63) \<le> i \<and> i < 2 ^ 63"

lemma zero_nilable [simp]: "zero_value (nilable b) = VBytes None"
  by (simp add: nilable_def)

lemma wf_nilable [simp]: "wf_value (nilable b) \<longleftrightarrow> fits b"
  by (simp add: nilable_def fits_def)

lemma bytes_nilable [simp]: "(case nilable b of VBytes (Some x) \<Rightarrow> x | _ \<Rightarrow> []) = b"
  by (simp add: nilable_def)

lemma unat_u32 [simp]: "unat (x :: u32) < 4294967296"
  using unsigned_less[of x, where ?'a = nat] by simp

lemma unat_u16 [simp]: "unat (x :: u16) < 65536"
  using unsigned_less[of x, where ?'a = nat] by simp

lemma unat_u8 [simp]: "unat (x :: u8) < 256"
  using unsigned_less[of x, where ?'a = nat] by simp

lemma dec_next_encode:
  assumes "wf_struct (g m)" "shape zero = shape (g m)" "f (g m) = m"
  shows "dec_next f zero (encodeStruct (g m) @ r) = Some (m, r)"
  using struct_roundtrip[OF assms(1,2)] assms(3) by (simp add: dec_next_def)

lemma struct_of_struct [simp]:
  "struct_ping (ping_struct p) = p" "struct_indirect (indirect_struct i) = i" "struct_ack (ack_struct a) = a"
  "struct_suspect (suspect_struct s) = s" "struct_alive (alive_struct al) = al" "struct_dead (dead_struct d) = d"
  "struct_header (header_struct h) = h" "struct_user (user_struct u) = u" "struct_push (push_struct n) = n"
  "struct_compress (compress_struct c) = c"
  by (simp_all add: of_struct_defs to_struct_defs field_defs)

lemma shape_zero [simp]:
  "shape (ping_struct p) = zero_ping" "shape (indirect_struct i) = zero_indirect" "shape (ack_struct a) = zero_ack"
  "shape (suspect_struct s) = zero_suspect" "shape (alive_struct al) = zero_alive" "shape (dead_struct d) = zero_dead"
  "shape (header_struct h) = zero_header" "shape (user_struct u) = zero_user" "shape (push_struct n) = zero_push"
  "shape (compress_struct c) = zero_compress"
  by (simp_all add: shape_def zero_defs to_struct_defs)

lemma shape_of_zero [simp]:
  "shape zero_ping = zero_ping" "shape zero_indirect = zero_indirect" "shape zero_ack = zero_ack"
  "shape zero_suspect = zero_suspect" "shape zero_alive = zero_alive" "shape zero_dead = zero_dead"
  "shape zero_header = zero_header" "shape zero_user = zero_user" "shape zero_push = zero_push"
  "shape zero_compress = zero_compress"
  by (simp_all add: shape_def zero_defs)

text \<open>The messages whose parts have lengths and numbers that the format can hold.\<close>

lemma wf_structs:
  "wf_struct (ping_struct p) \<longleftrightarrow> fits (pi_Node p)"
  "wf_struct (indirect_struct i) \<longleftrightarrow> fits (ip_Target i) \<and> fits (ip_Node i)"
  "wf_struct (ack_struct a) \<longleftrightarrow> fits (ak_Payload a)"
  "wf_struct (suspect_struct s) \<longleftrightarrow> fits (su_Node s) \<and> fits (su_From s)"
  "wf_struct (alive_struct al) \<longleftrightarrow> fits (al_Node al) \<and> fits (al_Addr al) \<and> fits (al_Meta al) \<and> fits (al_Vsn al)"
  "wf_struct (dead_struct d) \<longleftrightarrow> fits (de_Node d) \<and> fits (de_From d)"
  "wf_struct (header_struct h) \<longleftrightarrow> fits_int (pp_Nodes h) \<and> fits_int (pp_UserStateLen h)"
  "wf_struct (user_struct u) \<longleftrightarrow> fits_int (um_UserMsgLen u)"
  "wf_struct (push_struct n) \<longleftrightarrow> fits (pn_Name n) \<and> fits (pn_Addr n) \<and> fits (pn_Meta n) \<and>
     fits_int (pn_State n) \<and> fits (pn_Vsn n)"
  "wf_struct (compress_struct c) \<longleftrightarrow> fits (co_Buf c)"
  by (auto simp: wf_struct_def to_struct_defs fits_def fits_int_def)

lemmas dec_encode =
  dec_next_encode[where g = ping_struct and zero = zero_ping and f = struct_ping]
  dec_next_encode[where g = indirect_struct and zero = zero_indirect and f = struct_indirect]
  dec_next_encode[where g = ack_struct and zero = zero_ack and f = struct_ack]
  dec_next_encode[where g = suspect_struct and zero = zero_suspect and f = struct_suspect]
  dec_next_encode[where g = alive_struct and zero = zero_alive and f = struct_alive]
  dec_next_encode[where g = dead_struct and zero = zero_dead and f = struct_dead]
  dec_next_encode[where g = header_struct and zero = zero_header and f = struct_header]
  dec_next_encode[where g = user_struct and zero = zero_user and f = struct_user]
  dec_next_encode[where g = push_struct and zero = zero_push and f = struct_push]
  dec_next_encode[where g = compress_struct and zero = zero_compress and f = struct_compress]

text \<open>
  C27: an encoded message is its type byte and a body that decodes to the same
  message, whatever follows it; node names and byte slices of any length below \<open>2 ^ 32\<close> included.
\<close>

theorem wire_roundtrip:
  "(fits (pi_Node p) \<longrightarrow> decode struct_ping zero_ping (tl (encode pingMsg (ping_struct p)) @ r) = Some p) \<and>
   (fits (ip_Target i) \<and> fits (ip_Node i) \<longrightarrow>
      decode struct_indirect zero_indirect (tl (encode indirectPingMsg (indirect_struct i)) @ r) = Some i) \<and>
   (fits (ak_Payload a) \<longrightarrow> decode struct_ack zero_ack (tl (encode ackRespMsg (ack_struct a)) @ r) = Some a) \<and>
   (fits (su_Node s) \<and> fits (su_From s) \<longrightarrow>
      decode struct_suspect zero_suspect (tl (encode suspectMsg (suspect_struct s)) @ r) = Some s) \<and>
   (fits (al_Node al) \<and> fits (al_Addr al) \<and> fits (al_Meta al) \<and> fits (al_Vsn al) \<longrightarrow>
      decode struct_alive zero_alive (tl (encode aliveMsg (alive_struct al)) @ r) = Some al) \<and>
   (fits (de_Node d) \<and> fits (de_From d) \<longrightarrow>
      decode struct_dead zero_dead (tl (encode deadMsg (dead_struct d)) @ r) = Some d) \<and>
   (fits (pn_Name n) \<and> fits (pn_Addr n) \<and> fits (pn_Meta n) \<and> fits_int (pn_State n) \<and> fits (pn_Vsn n) \<longrightarrow>
      decode struct_push zero_push (encodeStruct (push_struct n) @ r) = Some n)"
  by (simp add: decode_def encode_def dec_encode wf_structs)

definition alive_b :: alive where
  "alive_b = \<lparr>al_Incarnation = 3, al_Node = ''b'', al_Addr = [127, 0, 0, 1], al_Port = 7946, al_Meta = [],
     al_Vsn = [1, 3, 3, 0, 0, 0]\<rparr>"

lemma wire_roundtrip_witness:
  "decode struct_alive zero_alive (tl (encode aliveMsg (alive_struct alive_b)) @ [1, 2]) = Some alive_b"
proof -
  have "fits (al_Node alive_b) \<and> fits (al_Addr alive_b) \<and> fits (al_Meta alive_b) \<and> fits (al_Vsn alive_b)"
    by (simp add: alive_b_def fits_def)
  then show ?thesis
    using wire_roundtrip[where al = alive_b and r = "[1, 2]"] by blast
qed

end
