(* ===== verification/MsgTypes.thy ===== *)
theory MsgTypes
  imports Wire
begin

text \<open>
  The type safety of the msgpack decoder: whatever bytes arrive, a struct keeps its fields and their
  kinds, numbers fit their width and no field is larger than the message.
\<close>

section \<open>Numbers\<close>

lemma read_be_bound:
  assumes "read_be k bs = Some (n, r)"
  shows "n < 256 ^ k \<and> length r + k = length bs"
proof -
  have "k \<le> length bs" "n = be_nat (take k bs)" "r = drop k bs"
    using assms by (auto simp: read_be_def readn_def split: if_splits)
  then show ?thesis
    using le_nat_less[of "rev (take k bs)"] by (simp add: be_nat_def)
qed

lemma read_signed_bound:
  assumes "read_signed k bs = Some (i, r)" "0 < k" "k \<le> 8"
  shows "- (2 ^ 63) \<le> i \<and> i < 2 ^ 63"
proof -
  obtain n where n: "read_be k bs = Some (n, r)" "i = signed_of (8 * k) n"
    using assms(1) by (auto simp: read_signed_def)
  have e: "(256 :: int) ^ k = 2 * 2 ^ (8 * k - 1)"
  proof -
    have "(256 :: int) ^ k = 2 ^ (8 * k)"
      by (simp add: power_mult)
    also have "8 * k = Suc (8 * k - 1)"
      using assms(2) by simp
    finally show ?thesis
      by (metis diff_Suc_1 power_Suc)
  qed
  have "int n < 256 ^ k"
    using read_be_bound[OF n(1)] by (metis of_nat_less_iff of_nat_numeral of_nat_power)
  moreover have "(2 :: int) ^ (8 * k - 1) \<le> 2 ^ 63"
    using assms(3) by (intro power_increasing) simp_all
  moreover have "(2 :: int) ^ (8 * k) = 256 ^ k"
    by (simp add: power_mult)
  moreover have "n < 2 ^ (8 * k - 1) \<longleftrightarrow> int n < 2 ^ (8 * k - 1)"
    by (metis of_nat_less_iff of_nat_numeral of_nat_power)
  ultimately show ?thesis
    unfolding n(2) signed_of_def e by (cases "n < 2 ^ (8 * k - 1)"; simp only: if_True if_False; linarith)
qed

lemma decodeInt_bound:
  assumes "decodeInt bd bs = Some (i, r)"
  shows "- (2 ^ 63) \<le> i \<and> i < 2 ^ 63"
proof -
  have "uint bd < 256"
    using unsigned_less[of bd, where ?'a = int] by simp
  then obtain b where b: "uint bd = b" "0 \<le> b" "b < 256"
    using that[OF refl uint_ge_0] by blast
  have s: "- (2 ^ 63) \<le> int n \<and> int n < 2 ^ 63" if "read_be k bs = Some (n, r)" "k \<le> 4" for k n
  proof -
    have "n < 256 ^ k" "(256 :: nat) ^ k \<le> 256 ^ 4"
      using read_be_bound[OF that(1)] power_increasing[OF that(2), of "256 :: nat"] by simp_all
    then show ?thesis
      by simp
  qed
  show ?thesis
    using assms b(2,3) s[of 1] s[of 2] s[of 4] read_signed_bound[of 1 bs i r] read_signed_bound[of 2 bs i r]
      read_signed_bound[of 4 bs i r] read_signed_bound[of 8 bs i r]
    by (auto simp: decodeInt_def b(1) split: if_splits)
qed

lemma decodeUint_bound:
  assumes "decodeUint w bd bs = Some (n, r)"
  shows "n < 2 ^ w"
proof -
  have "n mod 2 ^ w = n"
    using assms unfolding decodeUint_def by (simp only: split: option.splits prod.splits if_splits) auto
  moreover have "n mod 2 ^ w < 2 ^ w"
    by (rule mod_less_divisor) simp
  ultimately show ?thesis
    by simp
qed

section \<open>Values\<close>

text \<open>A value of at most \<open>N\<close> bytes, in the range of its type.\<close>

fun typed :: "nat \<Rightarrow> goval \<Rightarrow> bool" where
  "typed N (VBool _) = True"
| "typed N (VInt i) = (- (2 ^ 63) \<le> i \<and> i < 2 ^ 63)"
| "typed N (VUint w n) = (n < 2 ^ w)"
| "typed N (VString s) = (length s \<le> N)"
| "typed N (VBytes None) = True"
| "typed N (VBytes (Some x)) = (length x \<le> N)"

lemma typed_zero: "typed N (zero_value v)" "zero_value (zero_value v) = zero_value v"
  by (cases v; simp)+

lemma readn_bound: "readn n bs = Some (x, r) \<Longrightarrow> length x + length r = length bs"
  by (auto simp: readn_def split: if_splits)

lemma decodeString_bound: "decodeString bd bs = Some (s, r) \<Longrightarrow> length s \<le> length bs"
  by (auto simp: decodeString_def bytes_str_def split: option.splits if_splits
      dest!: readn_bound readContainerLen_length)

lemma decodeBytes_bound:
  "decodeBytes old bd bs = Some (x, r) \<Longrightarrow> typed N (VBytes old) \<Longrightarrow> length bs \<le> N \<Longrightarrow> typed N (VBytes x)"
  by (auto simp: decodeBytes_def split: option.splits if_splits dest!: readn_bound readContainerLen_length)

lemma decode_elems_bound: "decode_elems n bs = Some (xs, r) \<Longrightarrow> length xs + length r \<le> length bs"
proof (induction n bs arbitrary: xs rule: decode_elems.induct)
  case (3 k bd bs)
  then show ?case
    by (fastforce split: option.splits if_splits dest: decodeUint_length)
qed simp_all

lemma decodeSlice_bound:
  assumes "decodeSlice old bd bs = Some (x, r)" "typed N (VBytes old)" "length bs \<le> N"
  shows "typed N (VBytes x) \<and> length r \<le> length bs"
proof -
  have el: "typed N (VBytes x) \<and> length r \<le> length r1"
    if h: "map_option (\<lambda>(xs, r). (Some (xs @ drop (length xs) (case old of None \<Rightarrow> [] | Some o' \<Rightarrow> o')), r))
          (decode_elems n r1) = Some (x, r)" "length r1 \<le> length bs" for n r1
  proof -
    obtain xs where xs: "decode_elems n r1 = Some (xs, r)"
      "x = Some (xs @ drop (length xs) (case old of None \<Rightarrow> [] | Some o' \<Rightarrow> o'))"
      using h(1) by auto
    have "length xs + length r \<le> length r1"
      by (rule decode_elems_bound[OF xs(1)])
    then show ?thesis
      using h(2) assms(2,3) by (cases old) (simp_all add: xs(2))
  qed
  show ?thesis
  proof (cases "currentEncodedType bd")
    case TBytes
    then show ?thesis
      using assms decodeBytes_bound[OF _ assms(2,3)] decodeBytes_length by (simp add: decodeSlice_def)
  next
    case TArray
    then obtain n r1 where "readContainerLen containerList bd bs = Some (n, r1)"
      and d: "map_option (\<lambda>(xs, r). (Some (xs @ drop (length xs) (case old of None \<Rightarrow> [] | Some o' \<Rightarrow> o')), r))
        (decode_elems (nat n) r1) = Some (x, r)"
      using assms(1) by (auto simp: decodeSlice_def split: option.splits)
    from readContainerLen_length[OF this(1)] el[OF d] show ?thesis
      by simp
  next
    case TMap
    then obtain n r1 where "readContainerLen containerMap bd bs = Some (n, r1)"
      and d: "map_option (\<lambda>(xs, r). (Some (xs @ drop (length xs) (case old of None \<Rightarrow> [] | Some o' \<Rightarrow> o')), r))
        (decode_elems (2 * nat n) r1) = Some (x, r)"
      using assms(1) by (auto simp: decodeSlice_def split: option.splits)
    from readContainerLen_length[OF this(1)] el[OF d] show ?thesis
      by simp
  qed (use assms(1) in \<open>simp_all add: decodeSlice_def\<close>)
qed

lemma decodeValue_typed:
  assumes "decodeValue v bs = Some (x, r)" "typed N v" "length bs \<le> N"
  shows "typed N x \<and> zero_value x = zero_value v \<and> length r < length bs"
proof (cases bs)
  case (Cons bd t)
  show ?thesis
  proof (cases "bd = 0xc0")
    case True
    then show ?thesis
      using assms(1) Cons typed_zero by (cases v) auto
  next
    case False
    have t: "length t \<le> N"
      using assms(3) Cons by simp
    show ?thesis
    proof (cases v)
      case (VBool b)
      then show ?thesis
        using assms(1) False Cons by (auto simp: decodeBool_def split: if_splits)
    next
      case (VInt i)
      then obtain j where "x = VInt j" "decodeInt bd t = Some (j, r)"
        using assms(1) False Cons by auto
      then show ?thesis
        using decodeInt_bound decodeInt_length[of bd t j r] VInt Cons by (simp add: less_Suc_eq_le)
    next
      case (VUint w n)
      then obtain j where "x = VUint w j" "decodeUint w bd t = Some (j, r)"
        using assms(1) False Cons by auto
      then show ?thesis
        using decodeUint_bound decodeUint_length[of w bd t j r] VUint Cons by (simp add: less_Suc_eq_le)
    next
      case (VString s)
      then obtain j where "x = VString j" "decodeString bd t = Some (j, r)"
        using assms(1) False Cons by auto
      then show ?thesis
        using decodeString_bound[of bd t j r] decodeString_length[of bd t j r] VString Cons t by (simp add: less_Suc_eq_le)
    next
      case (VBytes old)
      then obtain j where j: "x = VBytes j" "decodeSlice old bd t = Some (j, r)"
        using assms(1) False Cons by auto
      have "typed N (VBytes old)"
        using assms(2) VBytes by simp
      from decodeSlice_bound[OF j(2) this t] show ?thesis
        using VBytes Cons j(1) by (simp add: less_Suc_eq_le)
    qed
  qed
qed (use assms in simp)

section \<open>Structs\<close>

lemma skip_values_length: "skip_values fs bs = Some r \<Longrightarrow> length r \<le> length bs"
proof (induction fs bs rule: skip_values.induct)
  case (4 m k fs bd bs)
  then show ?case
    by (fastforce simp: Let_def split: option.splits naked.splits if_splits dest: decodeNaked_length)
qed simp_all

definition typed_struct :: "nat \<Rightarrow> gostruct \<Rightarrow> bool" where
  "typed_struct N fs \<longleftrightarrow> (\<forall>v\<in>snd ` set fs. typed N v)"

lemma typed_struct_simps [simp]: "typed_struct N []"
  "typed_struct N ((n, v) # fs) \<longleftrightarrow> typed N v \<and> typed_struct N fs"
  by (simp_all add: typed_struct_def)

lemma typed_set_field: "typed_struct N fs \<Longrightarrow> typed N v \<Longrightarrow> typed_struct N (set_field n v fs)"
  by (induction fs) auto

lemma decode_entry_typed:
  assumes "decode_entry fs bs = Some (fs', r)" "typed_struct N fs" "length bs \<le> N"
  shows "typed_struct N fs' \<and> shape fs' = shape fs \<and> length r \<le> length bs"
proof -
  obtain bd t n r' where n: "bs = bd # t" "decodeString bd t = Some (n, r')"
    using assms(1) by (auto simp: decode_entry_def split: list.splits option.splits)
  have r': "length r' \<le> length t" "length r' \<le> N"
    using decodeString_length[OF n(2)] assms(3) n(1) by simp_all
  show ?thesis
  proof (cases "map_of fs n")
    case None
    then have "fs' = fs" "skip_values [(False, 1)] r' = Some r"
      using assms(1) n by (auto simp: decode_entry_def)
    then show ?thesis
      using assms(2) skip_values_length r'(1) n(1) by fastforce
  next
    case (Some v)
    then obtain x where x: "decodeValue v r' = Some (x, r)" "fs' = set_field n x fs"
      using assms(1) n by (auto simp: decode_entry_def)
    have "typed N v"
      using assms(2) map_of_SomeD[OF Some] by (force simp: typed_struct_def)
    note t = decodeValue_typed[OF x(1) this r'(2)]
    show ?thesis
      using t typed_set_field[OF assms(2)] shape_set_field[OF Some, of x] r'(1) n(1) by (simp add: x(2))
  qed
qed

lemma decode_entries_typed:
  "decode_entries k fs bs = Some (fs', r) \<Longrightarrow> typed_struct N fs \<Longrightarrow> length bs \<le> N \<Longrightarrow>
   typed_struct N fs' \<and> shape fs' = shape fs \<and> length r \<le> length bs"
proof (induction k fs bs rule: decode_entries.induct)
  case (2 k fs bs)
  then obtain fs1 r1 where e: "decode_entry fs bs = Some (fs1, r1)" "decode_entries k fs1 r1 = Some (fs', r)"
    by (auto split: option.splits)
  note t = decode_entry_typed[OF e(1) 2(3,4)]
  show ?case
    using 2(1)[OF e(1) refl e(2)] t 2(4) by simp
qed simp

lemma decode_fields_typed:
  "decode_fields k fs bs = Some (fs', m, r) \<Longrightarrow> typed_struct N fs \<Longrightarrow> length bs \<le> N \<Longrightarrow>
   typed_struct N fs' \<and> shape fs' = shape fs \<and> length r \<le> length bs"
proof (induction k fs bs arbitrary: fs' rule: decode_fields.induct)
  case (3 k n v fs bs)
  then obtain x r1 fs1 where e: "decodeValue v bs = Some (x, r1)" "decode_fields k fs r1 = Some (fs1, m, r)"
    "fs' = (n, x) # fs1"
    by (auto split: option.splits)
  have t: "typed N x \<and> zero_value x = zero_value v \<and> length r1 < length bs"
    by (rule decodeValue_typed[OF e(1)]) (use 3(3,4) in simp_all)
  then show ?case
    using 3(1)[OF e(1) refl e(2)] 3(3,4) by (simp add: e(3) shape_def)
qed simp_all

text \<open>
  C28: whatever bytes come from the network, decoding them into a struct keeps its fields and
  their kinds, gives numbers that fit their types and strings and slices no longer than the message
  (or than what was there), and consumes at least one byte; the structs \<open>memberlist\<close> decodes start
  from zero values, which are in range.
\<close>

theorem decode_typed:
  assumes "decodeStruct fs bs = Some (fs', r)" "typed_struct N fs" "length bs \<le> N"
  shows "typed_struct N fs' \<and> shape fs' = shape fs \<and> length r < length bs"
proof -
  obtain bd t where bs: "bs = bd # t"
    using assms(1) by (cases bs) (simp_all add: decodeStruct_def)
  have t: "length t \<le> N"
    using assms(3) bs by simp
  consider (nil) "fs' = map (\<lambda>(n, v). (n, zero_value v)) fs" "r = t"
    | (table) n r' where "readContainerLen containerMap bd t = Some (n, r')" "decode_entries (nat n) fs r' = Some (fs', r)"
    | (arr) n r' k r'' where "readContainerLen containerList bd t = Some (n, r')"
        "decode_fields (nat n) fs r' = Some (fs', k, r'')" "skip_values [(False, k)] r'' = Some r"
    using assms(1) unfolding bs decodeStruct_def
    by (auto split: valueType.splits option.splits)
  then show ?thesis
  proof cases
    case nil
    then have "typed_struct N fs'" "shape fs' = shape fs"
      unfolding nil(1) by (induction fs) (auto simp: typed_zero shape_def)
    then show ?thesis
      by (simp add: nil(2) bs)
  next
    case table
    have l: "length r' \<le> length t"
      by (rule readContainerLen_length[OF table(1)])
    then show ?thesis
      using decode_entries_typed[OF table(2) assms(2)] t bs by fastforce
  next
    case arr
    have l: "length r' \<le> length t"
      by (rule readContainerLen_length[OF arr(1)])
    then show ?thesis
      using decode_fields_typed[OF arr(2) assms(2)] skip_values_length[OF arr(3)] t bs by fastforce
  qed
qed

theorem decode_typed_witness:
  "typed_struct 9 [(''Node'', VString ''n1''), (''Incarnation'', VUint 32 7)] \<and>
   shape [(''Node'', VString ''n1''), (''Incarnation'', VUint 32 7)] = [(''Node'', VString []), (''Incarnation'', VUint 32 0)]"
proof -
  let ?fs = "[(''Node'', VString ''n1''), (''Incarnation'', VUint 32 7)]"
  have "decodeStruct [(''Node'', VString []), (''Incarnation'', VUint 32 0)] (encodeStruct ?fs @ []) = Some (?fs, [])"
    by (rule struct_roundtrip) (simp_all add: wf_struct_def shape_def)
  from decode_typed[OF this, of 99] show ?thesis
    by (simp add: shape_def)
qed

end
