(* ===== verification/Driver.thy ===== *)
theory Driver
  imports Msgpack GoFloat
begin

text \<open>
  The codec above its formats: \<open>encode.go\<close> and \<open>decode.go\<close> write and read values through the
  interfaces \<open>encDriver\<close> and \<open>decDriver\<close>, which \<open>msgpack.go\<close>, \<open>simple.go\<close> and \<open>binc.go\<close> implement.
  A driver is a record of functions here.  The values are those of an \<open>interface{}\<close> and the structs of
  \<open>Msgpack\<close>; the locale at the end says what a driver has to promise for both to survive.
\<close>

section \<open>Values of an interface\<close>

text \<open>
  A float is its IEEE bits.  A time is its seconds since 1970, its nanoseconds and the offset of its
  zone in seconds, \<open>None\<close> for UTC.  \<open>CExt\<close> is a \<open>RawExt\<close>; a nil interface is \<open>CNil\<close>.  A map lists its
  entries in the order of the stream, or of Go's iteration.
\<close>

record gotime =
  tsecs :: int
  tnsecs :: nat
  zoneOffset :: "int option"

datatype cval =
  CNil | CBool bool | CInt int | CUint nat | CFloat32 nat | CFloat nat | CString string
| CBytes bytes | CExt byte "bytes option" | CTime gotime | CSlice "cval list" | CMap "(cval \<times> cval) list"

section \<open>The interfaces\<close>

text \<open>
  What \<open>decodeNaked\<close> finds in the stream: a value, or the start of an array or a map, whose descriptor
  stays to be read again.  Where \<open>decodeNaked\<close> hands out a pointer to a byte slice and asks its caller
  to decode into it, the value is the one the caller ends up with.
\<close>

datatype nakedval = Naked cval | NakedArray | NakedMap

type_synonym 'a reader = "byte \<Rightarrow> bytes \<Rightarrow> ('a \<times> bytes) option"

text \<open>
  The readers get the descriptor byte, which \<open>initReadNext\<close> has read, and what follows it.  An encoder
  or a decoder may have a state of its own, where it keeps symbols.  \<open>decodeBytes\<close> returns the buffer
  it was given as it is afterwards, and the slice it returns, \<open>None\<close> for an unchanged one.
\<close>

record ('e, 'd) driver =
  writesExt :: bool
  newEnc :: 'e
  newDec :: 'd
  e_nil :: bytes
  e_bool :: "bool \<Rightarrow> bytes"
  e_int :: "int \<Rightarrow> bytes"
  e_uint :: "nat \<Rightarrow> bytes"
  e_float32 :: "nat \<Rightarrow> bytes"
  e_float64 :: "nat \<Rightarrow> bytes"
  e_ext :: "byte \<Rightarrow> nat \<Rightarrow> bytes"
  e_array :: "nat \<Rightarrow> bytes"
  e_map :: "nat \<Rightarrow> bytes"
  e_string :: "string \<Rightarrow> bytes"
  e_symbol :: "'e \<Rightarrow> string \<Rightarrow> 'e \<times> bytes"
  e_bytes :: "bytes \<Rightarrow> bytes"
  e_time :: "gotime \<Rightarrow> bytes"
  d_nil :: "byte \<Rightarrow> bool"
  d_type :: "byte \<Rightarrow> valueType"
  d_naked :: "'d \<Rightarrow> byte \<Rightarrow> bytes \<Rightarrow> ('d \<times> nakedval \<times> bytes) option"
  d_int :: "nat \<Rightarrow> int reader"
  d_uint :: "nat \<Rightarrow> nat reader"
  d_float :: "bool \<Rightarrow> nat reader"
  d_bool :: "bool reader"
  d_string :: "'d \<Rightarrow> byte \<Rightarrow> bytes \<Rightarrow> ('d \<times> string \<times> bytes) option"
  d_bytes :: "bytes option \<Rightarrow> (bytes option \<times> bytes option) reader"
  d_ext :: "bool \<Rightarrow> byte \<Rightarrow> (byte \<times> bytes) reader"
  d_array :: "int reader"
  d_map :: "int reader"

text \<open>
  The tail of every \<open>decodeBytes\<close>: \<open>clen\<close> bytes into the slice that was passed, which is resliced or
  replaced when its length is another.
\<close>

definition fill_bytes :: "bytes option \<Rightarrow> nat \<Rightarrow> bytes \<Rightarrow> ((bytes option \<times> bytes option) \<times> bytes) option" where
  "fill_bytes bs clen r =
     (if clen = 0 then Some ((bs, None), r)
      else map_option (\<lambda>(x, r). ((case bs of None \<Rightarrow> (None, Some x)
        | Some b \<Rightarrow>
            if length b = clen then (Some x, None)
            else if clen < length b then (Some (x @ drop clen b), Some x)
            else (bs, Some x)), r)) (readn clen r))"

definition slice_or_nil :: "bytes option \<Rightarrow> bytes" where
  "slice_or_nil x = (case x of None \<Rightarrow> [] | Some y \<Rightarrow> y)"

text \<open>Reading no bytes yields a nil slice, which a \<open>RawExt\<close> keeps.\<close>

definition raw_data :: "bytes \<Rightarrow> bytes option" where
  "raw_data x = (if x = [] then None else Some x)"

section \<open>Checks\<close>

text \<open>\<open>checkOverflow\<close>: does the number survive the cut to \<open>bitsize\<close> bits?\<close>

definition checkOverflow :: "nat \<Rightarrow> int \<Rightarrow> nat \<Rightarrow> bool" where
  "checkOverflow ui i bitsize \<longleftrightarrow>
     bitsize = 0 \<or>
     (i \<noteq> 0 \<longrightarrow> signed_of bitsize (nat (i mod 2 ^ bitsize)) = i) \<and>
     (ui \<noteq> 0 \<longrightarrow> ui mod 2 ^ bitsize = ui)"

text \<open>
  \<open>checkOverflowFloat32\<close> on the bits of a float64: without the sign they are in the order of the
  values, infinity and the NaNs above the finite ones.
\<close>

definition checkOverflowFloat32 :: "nat \<Rightarrow> bool \<Rightarrow> bool" where
  "checkOverflowFloat32 f doCheck \<longleftrightarrow>
     \<not> (doCheck \<and> 0x47EFFFFFE0000000 < f mod 2 ^ 63 \<and> f mod 2 ^ 63 \<le> 0x7FEFFFFFFFFFFFFF)"

text \<open>Go's conversion of a float32 to a float64, on bits; a signalling NaN becomes a quiet one.\<close>

definition widen32 :: "nat \<Rightarrow> nat" where
  "widen32 n =
     (let s = n div 2 ^ 31 mod 2; e = n div 2 ^ 23 mod 256; m = n mod 2 ^ 23
      in s * 2 ^ 63 +
         (if e = 255 then 2047 * 2 ^ 52 + m * 2 ^ 29 + (if m \<noteq> 0 \<and> m < 2 ^ 22 then 2 ^ 51 else 0)
          else if e = 0 then
            if m = 0 then 0
            else (let k = floorlog 2 m - 1 in (k + 874) * 2 ^ 52 + (m - 2 ^ k) * 2 ^ (52 - k))
          else (e + 896) * 2 ^ 52 + m * 2 ^ 29))"

text \<open>\<open>float64(i)\<close> of an \<open>int64\<close>, rounded.\<close>

definition float64_of :: "int \<Rightarrow> nat" where
  "float64_of i = f64_bits (f_mk (i < 0) (rnd (nat \<bar>i\<bar> * f_one) 1))"

definition int64_of :: "nat \<Rightarrow> int" where
  "int64_of ui = signed_of 64 ui"

definition neg64 :: "int \<Rightarrow> int" where
  "neg64 i = signed_of 64 (nat ((- i) mod 2 ^ 64))"

section \<open>Encoding\<close>

text \<open>\<open>encode\<close> on what is not a container; the \<open>RawExt\<close> case is \<open>encRawExt\<close>.\<close>

fun encodeScalar :: "('e, 'd) driver \<Rightarrow> cval \<Rightarrow> bytes" where
  "encodeScalar D (CBool b) = e_bool D b"
| "encodeScalar D (CInt i) = e_int D i"
| "encodeScalar D (CUint n) = e_uint D n"
| "encodeScalar D (CFloat32 f) = e_float32 D f"
| "encodeScalar D (CFloat f) = e_float64 D f"
| "encodeScalar D (CString s) = e_string D s"
| "encodeScalar D (CBytes x) = e_bytes D x"
| "encodeScalar D (CExt t (Some x)) = (if writesExt D then e_ext D t (length x) @ x else e_bytes D x)"
| "encodeScalar D (CTime t) = e_time D t"
| "encodeScalar D _ = e_nil D"

text \<open>With \<open>encSliceIntf\<close> and \<open>encMapIntfIntf\<close>.\<close>

primrec encodeIntf :: "('e, 'd) driver \<Rightarrow> cval \<Rightarrow> bytes" where
  "encodeIntf D CNil = encodeScalar D CNil"
| "encodeIntf D (CBool b) = encodeScalar D (CBool b)"
| "encodeIntf D (CInt i) = encodeScalar D (CInt i)"
| "encodeIntf D (CUint n) = encodeScalar D (CUint n)"
| "encodeIntf D (CFloat32 f) = encodeScalar D (CFloat32 f)"
| "encodeIntf D (CFloat f) = encodeScalar D (CFloat f)"
| "encodeIntf D (CString s) = encodeScalar D (CString s)"
| "encodeIntf D (CBytes x) = encodeScalar D (CBytes x)"
| "encodeIntf D (CExt t x) = encodeScalar D (CExt t x)"
| "encodeIntf D (CTime t) = encodeScalar D (CTime t)"
| "encodeIntf D (CSlice vs) = e_array D (length vs) @ concat (map (encodeIntf D) vs)"
| "encodeIntf D (CMap kvs) =
     e_map D (length kvs) @ concat (map (\<lambda>(k, v). k @ v) (map (map_prod (encodeIntf D) (encodeIntf D)) kvs))"

section \<open>Decoding into a nil interface\<close>

primrec decodeMany ::
  "nat \<Rightarrow> ('d \<Rightarrow> bytes \<Rightarrow> ('d \<times> 'a \<times> bytes) option) \<Rightarrow> 'd \<Rightarrow> bytes \<Rightarrow> ('d \<times> 'a list \<times> bytes) option" where
  "decodeMany 0 f s r = Some (s, [], r)"
| "decodeMany (Suc n) f s r =
     (case f s r of
        None \<Rightarrow> None
      | Some (s, x, r) \<Rightarrow> map_option (\<lambda>(s, xs, r). (s, x # xs, r)) (decodeMany n f s r))"

text \<open>
  \<open>containerLenS\<close> of \<open>decContLens\<close>: a map is a slice of its keys and values.  A length from the stream may
  be negative, which a \<open>make\<close> of that size answers with a panic.
\<close>

definition decContLens :: "('e, 'd) driver \<Rightarrow> int reader" where
  "decContLens D bd r =
     (case d_type D bd of
        TArray \<Rightarrow> d_array D bd r
      | TMap \<Rightarrow> map_option (\<lambda>(n, r). (2 * n, r)) (d_map D bd r)
      | _ \<Rightarrow> None)"

definition made :: "(int \<times> bytes) option \<Rightarrow> (nat \<times> bytes) option" where
  "made x = (case x of None \<Rightarrow> None | Some (n, r) \<Rightarrow> if n < 0 then None else Some (nat n, r))"

text \<open>
  A byte slice that is a key becomes a string.  Slices, maps and raw extensions, which hold a slice, do
  not serve as keys: the map assignment panics.
\<close>

fun map_key :: "cval \<Rightarrow> cval option" where
  "map_key (CBytes x) = Some (CString (bytes_str x))"
| "map_key (CSlice _) = None"
| "map_key (CMap _) = None"
| "map_key (CExt _ _) = None"
| "map_key k = Some k"

definition decodePair ::
  "('d \<Rightarrow> bytes \<Rightarrow> ('d \<times> cval \<times> bytes) option) \<Rightarrow> 'd \<Rightarrow> bytes \<Rightarrow> ('d \<times> (cval \<times> cval) \<times> bytes) option" where
  "decodePair f s r =
     (case f s r of
        None \<Rightarrow> None
      | Some (s, k, r) \<Rightarrow>
          (case map_key k of
             None \<Rightarrow> None
           | Some k \<Rightarrow> map_option (\<lambda>(s, v, r). (s, (k, v), r)) (f s r)))"

text \<open>
  \<open>decodeValue\<close> and \<open>kInterface\<close> on a nil interface, with \<open>decSliceIntf\<close> and \<open>decMapIntfIntf\<close>.  The
  first number bounds the depth of the nesting; the length of the stream is always enough.  A key that
  occurs twice in a map stays twice in the list.  (The code decodes the second value into the first by
  reflection, which is not modelled.)
\<close>

primrec decodeIntf ::
  "('e, 'd) driver \<Rightarrow> nat \<Rightarrow> 'd \<Rightarrow> bytes \<Rightarrow> ('d \<times> cval \<times> bytes) option" where
  "decodeIntf D 0 s bs = None"
| "decodeIntf D (Suc k) s bs =
     (case bs of
        [] \<Rightarrow> None
      | bd # r \<Rightarrow>
          if d_nil D bd then Some (s, CNil, r)
          else (case d_naked D s bd r of
             None \<Rightarrow> None
           | Some (s, Naked v, r) \<Rightarrow> Some (s, v, r)
           | Some (s, NakedArray, r) \<Rightarrow>
               (case made (decContLens D bd r) of
                  None \<Rightarrow> None
                | Some (n, r) \<Rightarrow>
                    map_option (\<lambda>(s, vs, r). (s, CSlice vs, r)) (decodeMany n (decodeIntf D k) s r))
           | Some (s, NakedMap, r) \<Rightarrow>
               (case made (d_map D bd r) of
                  None \<Rightarrow> None
                | Some (n, r) \<Rightarrow>
                    map_option (\<lambda>(s, kvs, r). (s, CMap kvs, r)) (decodeMany n (decodePair (decodeIntf D k)) s r))))"

definition Decode_intf :: "('e, 'd) driver \<Rightarrow> bytes \<Rightarrow> (cval \<times> bytes) option" where
  "Decode_intf D bs = map_option snd (decodeIntf D (length bs) (newDec D) bs)"

section \<open>Structs\<close>

record structFieldInfo =
  encName :: string
  omitEmpty :: bool
  toArray :: bool

text \<open>A struct: what is known of each of its fields, and the field, in the order of the declaration.\<close>

type_synonym sfields = "(structFieldInfo \<times> goval) list"

record encodeOptions =
  StructToArray :: bool
  AsSymbols :: byte

definition AsSymbolDefault :: byte where "AsSymbolDefault = 0"
definition AsSymbolAll :: byte where "AsSymbolAll = 0xfe"
definition AsSymbolNone :: byte where "AsSymbolNone = 4"
definition AsSymbolMapStringKeysFlag :: byte where "AsSymbolMapStringKeysFlag = 8"
definition AsSymbolStructFieldNameFlag :: byte where "AsSymbolStructFieldNameFlag = 16"

definition fieldsAsSymbols :: "encodeOptions \<Rightarrow> bool" where
  "fieldsAsSymbols h \<longleftrightarrow>
     AsSymbols h = AsSymbolDefault \<or> AsSymbols h AND AsSymbolStructFieldNameFlag \<noteq> 0"

fun isEmptyValue :: "goval \<Rightarrow> bool" where
  "isEmptyValue (VBool b) = (\<not> b)"
| "isEmptyValue (VInt i) = (i = 0)"
| "isEmptyValue (VUint _ n) = (n = 0)"
| "isEmptyValue (VString s) = (s = [])"
| "isEmptyValue (VBytes x) = (x = None \<or> x = Some [])"

definition omitted :: "structFieldInfo \<times> goval \<Rightarrow> bool" where
  "omitted f \<longleftrightarrow> omitEmpty (fst f) \<and> isEmptyValue (snd f)"

text \<open>\<open>encodeValue\<close> on a field, by its kind.\<close>

fun encodeField :: "('e, 'd) driver \<Rightarrow> goval \<Rightarrow> bytes" where
  "encodeField D (VBool b) = e_bool D b"
| "encodeField D (VInt i) = e_int D i"
| "encodeField D (VUint w n) = e_uint D n"
| "encodeField D (VString s) = e_string D s"
| "encodeField D (VBytes None) = e_nil D"
| "encodeField D (VBytes (Some x)) = e_bytes D x"

definition encodeName :: "('e, 'd) driver \<Rightarrow> encodeOptions \<Rightarrow> 'e \<Rightarrow> string \<Rightarrow> 'e \<times> bytes" where
  "encodeName D h e n = (if fieldsAsSymbols h then e_symbol D e n else (e, e_string D n))"

primrec encodeFields :: "('e, 'd) driver \<Rightarrow> encodeOptions \<Rightarrow> 'e \<Rightarrow> sfields \<Rightarrow> 'e \<times> bytes" where
  "encodeFields D h e [] = (e, [])"
| "encodeFields D h e (f # fs) =
     (let (e, n) = encodeName D h e (encName (fst f));
          (e, bs) = encodeFields D h e fs
      in (e, n @ encodeField D (snd f) @ bs))"

text \<open>
  \<open>kStruct\<close>: a map with the fields sorted by name and the empty ones left out where the tag says so,
  or an array.  In an array an empty value to be left out is the zero \<open>reflect.Value\<close>, and \<open>encodeValue\<close>
  asks it for its type, which panics; the encoding fails.
\<close>

definition kStruct :: "('e, 'd) driver \<Rightarrow> encodeOptions \<Rightarrow> bool \<Rightarrow> 'e \<Rightarrow> sfields \<Rightarrow> ('e \<times> bytes) option" where
  "kStruct D h asArray e fs =
     (if asArray \<or> StructToArray h
      then if list_ex omitted fs then None
           else Some (e, e_array D (length fs) @ concat (map (encodeField D \<circ> snd) fs))
      else let kept = filter (\<lambda>f. \<not> omitted f) (sort_key (encName \<circ> fst) fs);
               (e, bs) = encodeFields D h e kept
           in Some (e, e_map D (length kept) @ bs))"

section \<open>Decoding into what there is\<close>

definition unstated :: "('a \<times> bytes) option \<Rightarrow> 'd \<Rightarrow> ('d \<times> 'a \<times> bytes) option" where
  "unstated x s = map_option (\<lambda>(y, r). (s, y, r)) x"

text \<open>\<open>kSlice\<close> into a byte slice, which takes a string, an array or a map of numbers.\<close>

definition decodeElem :: "('e, 'd) driver \<Rightarrow> 'd \<Rightarrow> bytes \<Rightarrow> ('d \<times> byte \<times> bytes) option" where
  "decodeElem D s bs =
     (case bs of
        [] \<Rightarrow> None
      | bd # r \<Rightarrow>
          if d_nil D bd then Some (s, 0, r)
          else unstated (map_option (\<lambda>(n, r). (of_nat n, r)) (d_uint D 8 bd r)) s)"

definition kSlice ::
  "('e, 'd) driver \<Rightarrow> bytes option \<Rightarrow> 'd \<Rightarrow> byte \<Rightarrow> bytes \<Rightarrow> ('d \<times> bytes option \<times> bytes) option" where
  "kSlice D old s bd r =
     (if d_type D bd \<in> {TBytes, TString}
      then unstated (map_option (\<lambda>((old', out), r). (case out of None \<Rightarrow> old' | Some x \<Rightarrow> Some x, r))
        (d_bytes D old bd r)) s
      else (case decContLens D bd r of
          None \<Rightarrow> None
        | Some (n, r) \<Rightarrow>
            if n < 0 \<and> old = None then None
            else map_option (\<lambda>(s, xs, r). (s, Some (xs @ drop (nat n) (case old of None \<Rightarrow> [] | Some x \<Rightarrow> x)), r))
              (decodeMany (nat n) (decodeElem D) s r)))"

definition decodeKind ::
  "('e, 'd) driver \<Rightarrow> 'd \<Rightarrow> goval \<Rightarrow> byte \<Rightarrow> bytes \<Rightarrow> ('d \<times> goval \<times> bytes) option" where
  "decodeKind D s v bd r =
     (case v of
        VBool _ \<Rightarrow> unstated (map_option (\<lambda>(x, r). (VBool x, r)) (d_bool D bd r)) s
      | VInt _ \<Rightarrow> unstated (map_option (\<lambda>(x, r). (VInt x, r)) (d_int D 64 bd r)) s
      | VUint w _ \<Rightarrow> unstated (map_option (\<lambda>(x, r). (VUint w x, r)) (d_uint D w bd r)) s
      | VString _ \<Rightarrow> map_option (\<lambda>(s, x, r). (s, VString x, r)) (d_string D s bd r)
      | VBytes old \<Rightarrow> map_option (\<lambda>(s, x, r). (s, VBytes x, r)) (kSlice D old s bd r))"

definition decodeField :: "('e, 'd) driver \<Rightarrow> 'd \<Rightarrow> goval \<Rightarrow> bytes \<Rightarrow> ('d \<times> goval \<times> bytes) option" where
  "decodeField D s v bs =
     (case bs of
        [] \<Rightarrow> None
      | bd # r \<Rightarrow> if d_nil D bd then Some (s, zero_value v, r) else decodeKind D s v bd r)"

text \<open>
  \<open>decode\<close> on a pointer to such a value, which does not look for nil, and of a byte slice keeps what
  \<open>decodeBytes\<close> returns, changed or not.
\<close>

definition decodePtr :: "('e, 'd) driver \<Rightarrow> 'd \<Rightarrow> goval \<Rightarrow> bytes \<Rightarrow> ('d \<times> goval \<times> bytes) option" where
  "decodePtr D s v bs =
     (case bs of
        [] \<Rightarrow> None
      | bd # r \<Rightarrow>
          (case v of
             VBytes old \<Rightarrow> unstated (map_option (\<lambda>((_, out), r). (VBytes out, r)) (d_bytes D old bd r)) s
           | _ \<Rightarrow> decodeKind D s v bd r))"

fun set_named :: "string \<Rightarrow> goval \<Rightarrow> sfields \<Rightarrow> sfields" where
  "set_named n v [] = []"
| "set_named n v ((i, x) # fs) = (if encName i = n then (i, v) # fs else (i, x) # set_named n v fs)"

definition field_named :: "string \<Rightarrow> sfields \<Rightarrow> goval option" where
  "field_named n fs = map_option snd (find (\<lambda>f. encName (fst f) = n) fs)"

text \<open>
  One entry of a map: the name, and the value into the field of that name; without such a field it is
  an error if \<open>ErrorIfNoField\<close> is set, and the value is thrown away if it is not.
\<close>

definition decodeEntry ::
  "('e, 'd) driver \<Rightarrow> bool \<Rightarrow> 'd \<Rightarrow> sfields \<Rightarrow> bytes \<Rightarrow> ('d \<times> sfields \<times> bytes) option" where
  "decodeEntry D errorIfNoField s fs bs =
     (case bs of
        [] \<Rightarrow> None
      | bd # r \<Rightarrow>
          (case d_string D s bd r of
             None \<Rightarrow> None
           | Some (s, n, r) \<Rightarrow>
               (case field_named n fs of
                  Some v \<Rightarrow> map_option (\<lambda>(s, x, r). (s, set_named n x fs, r)) (decodeField D s v r)
                | None \<Rightarrow>
                    if errorIfNoField then None
                    else map_option (\<lambda>(s, _, r). (s, fs, r)) (decodeIntf D (length r) s r))))"

primrec decodeEntries ::
  "('e, 'd) driver \<Rightarrow> bool \<Rightarrow> nat \<Rightarrow> 'd \<Rightarrow> sfields \<Rightarrow> bytes \<Rightarrow> ('d \<times> sfields \<times> bytes) option" where
  "decodeEntries D err 0 s fs bs = Some (s, fs, bs)"
| "decodeEntries D err (Suc k) s fs bs =
     (case decodeEntry D err s fs bs of
        None \<Rightarrow> None
      | Some (s, fs, r) \<Rightarrow> decodeEntries D err k s fs r)"

fun decodeInOrder ::
  "('e, 'd) driver \<Rightarrow> nat \<Rightarrow> 'd \<Rightarrow> sfields \<Rightarrow> bytes \<Rightarrow> ('d \<times> sfields \<times> bytes) option" where
  "decodeInOrder D 0 s fs bs = Some (s, fs, bs)"
| "decodeInOrder D k s [] bs =
     map_option (\<lambda>(s, _, r). (s, [], r)) (decodeMany k (\<lambda>s r. decodeIntf D (length r) s r) s bs)"
| "decodeInOrder D (Suc k) s ((i, v) # fs) bs =
     (case decodeField D s v bs of
        None \<Rightarrow> None
      | Some (s, x, r) \<Rightarrow> map_option (\<lambda>(s, fs, r). (s, (i, x) # fs, r)) (decodeInOrder D k s fs r))"

text \<open>
  \<open>decodeValue\<close> and \<open>kStruct\<close> of the decoder.  The loop over the fields stops at the length of the array,
  which a negative one never is.
\<close>

definition dec_kStruct ::
  "('e, 'd) driver \<Rightarrow> bool \<Rightarrow> 'd \<Rightarrow> sfields \<Rightarrow> bytes \<Rightarrow> ('d \<times> sfields \<times> bytes) option" where
  "dec_kStruct D err s fs bs =
     (case bs of
        [] \<Rightarrow> None
      | bd # r \<Rightarrow>
          if d_nil D bd then Some (s, map (\<lambda>(i, v). (i, zero_value v)) fs, r)
          else (case d_type D bd of
             TMap \<Rightarrow> (case d_map D bd r of None \<Rightarrow> None | Some (n, r) \<Rightarrow> decodeEntries D err (nat n) s fs r)
           | TArray \<Rightarrow> (case d_array D bd r of None \<Rightarrow> None | Some (n, r) \<Rightarrow>
               decodeInOrder D (if n < 0 then length fs else nat n) s fs r)
           | _ \<Rightarrow> None))"

end
