(* ===== verification/DriverProps.thy ===== *)
theory DriverProps
  imports Driver
begin

text \<open>
  What a driver of the codec has to promise, as a locale, and what follows for every driver that does:
  values of an \<open>interface{}\<close> and structs come back from their encoding, and the length of the stream
  bounds the depth to which the decoder descends.
\<close>

section \<open>What survives\<close>

text \<open>
  \<open>reads_as D f bs x\<close>: \<open>bs\<close> does not begin with nil, and \<open>f\<close> reads \<open>x\<close> from it, whatever follows.
\<close>

definition reads_as ::
  "('e, 'd) driver \<Rightarrow> ('d \<Rightarrow> byte \<Rightarrow> bytes \<Rightarrow> ('d \<times> 'a \<times> bytes) option) \<Rightarrow> bytes \<Rightarrow> 'a \<Rightarrow> bool" where
  "reads_as D f bs x \<longleftrightarrow>
     bs \<noteq> [] \<and> \<not> d_nil D (hd bs) \<and> (\<forall>s r. f s (hd bs) (tl bs @ r) = Some (s, x, r))"

fun scalar :: "cval \<Rightarrow> bool" where
  "scalar CNil = False"
| "scalar (CExt _ None) = False"
| "scalar (CSlice _) = False"
| "scalar (CMap _) = False"
| "scalar _ = True"

text \<open>
  What comes back for a value, if the scalar \<open>v\<close> comes back as \<open>see v\<close>.
\<close>

primrec seen_as :: "(cval \<Rightarrow> cval) \<Rightarrow> cval \<Rightarrow> cval" where
  "seen_as see CNil = CNil"
| "seen_as see (CBool b) = see (CBool b)"
| "seen_as see (CInt i) = see (CInt i)"
| "seen_as see (CUint n) = see (CUint n)"
| "seen_as see (CFloat32 f) = see (CFloat32 f)"
| "seen_as see (CFloat f) = see (CFloat f)"
| "seen_as see (CString s) = see (CString s)"
| "seen_as see (CBytes x) = see (CBytes x)"
| "seen_as see (CExt t x) = (if x = None then CNil else see (CExt t x))"
| "seen_as see (CTime t) = see (CTime t)"
| "seen_as see (CSlice vs) = CSlice (map (seen_as see) vs)"
| "seen_as see (CMap kvs) =
     CMap (map (\<lambda>(k, v). (the (map_key k), v)) (map (map_prod (seen_as see) (seen_as see)) kvs))"

text \<open>
  The values for which that is so, if it is for the scalars that are \<open>ok\<close> and for containers that are
  shorter than \<open>longest\<close>.
\<close>

primrec wf_cval :: "nat \<Rightarrow> (cval \<Rightarrow> bool) \<Rightarrow> (cval \<Rightarrow> cval) \<Rightarrow> cval \<Rightarrow> bool" where
  "wf_cval longest ok see CNil = True"
| "wf_cval longest ok see (CBool b) = ok (CBool b)"
| "wf_cval longest ok see (CInt i) = ok (CInt i)"
| "wf_cval longest ok see (CUint n) = ok (CUint n)"
| "wf_cval longest ok see (CFloat32 f) = ok (CFloat32 f)"
| "wf_cval longest ok see (CFloat f) = ok (CFloat f)"
| "wf_cval longest ok see (CString s) = ok (CString s)"
| "wf_cval longest ok see (CBytes x) = ok (CBytes x)"
| "wf_cval longest ok see (CExt t x) = (x = None \<or> ok (CExt t x))"
| "wf_cval longest ok see (CTime t) = ok (CTime t)"
| "wf_cval longest ok see (CSlice vs) = (length vs < longest \<and> list_all id (map (wf_cval longest ok see) vs))"
| "wf_cval longest ok see (CMap kvs) =
     (length kvs < longest \<and> list_all (\<lambda>(a, b). a \<and> b) (map (map_prod (wf_cval longest ok see) (wf_cval longest ok see)) kvs) \<and>
      list_all (\<lambda>(k, _). map_key (seen_as see k) \<noteq> None) kvs)"

primrec nesting :: "cval \<Rightarrow> nat" where
  "nesting CNil = 1"
| "nesting (CBool b) = 1"
| "nesting (CInt i) = 1"
| "nesting (CUint n) = 1"
| "nesting (CFloat32 f) = 1"
| "nesting (CFloat f) = 1"
| "nesting (CString s) = 1"
| "nesting (CBytes x) = 1"
| "nesting (CExt t x) = 1"
| "nesting (CTime t) = 1"
| "nesting (CSlice vs) = Suc (foldr max (map nesting vs) 0)"
| "nesting (CMap kvs) = Suc (foldr (\<lambda>(a, b) m. max (max a b) m) (map (map_prod nesting nesting) kvs) 0)"

text \<open>A field that a driver carries.\<close>

definition ok_field :: "nat \<Rightarrow> (cval \<Rightarrow> bool) \<Rightarrow> goval \<Rightarrow> bool" where
  "ok_field longest ok v \<longleftrightarrow> wf_value v \<and>
     (case v of VInt i \<Rightarrow> ok (CInt i) | VString s \<Rightarrow> length s < longest
      | VBytes (Some x) \<Rightarrow> length x < longest | _ \<Rightarrow> True)"

text \<open>
  \<open>sync n e d\<close>: the decoder's state \<open>d\<close> knows what the encoder's state \<open>e\<close> relies on, and there is
  room for \<open>n\<close> more symbols.
\<close>

locale codec_driver =
  fixes D :: "('e, 'd) driver"
    and longest :: nat
    and ok :: "cval \<Rightarrow> bool"
    and see :: "cval \<Rightarrow> cval"
    and sync :: "nat \<Rightarrow> 'e \<Rightarrow> 'd \<Rightarrow> bool"
  assumes nil_written: "\<exists>b. e_nil D = [b] \<and> d_nil D b"
    and bool_read: "reads_as D (\<lambda>s bd r. unstated (d_bool D bd r) s) (e_bool D b) b"
    and int_read: "ok (CInt i) \<Longrightarrow> reads_as D (\<lambda>s bd r. unstated (d_int D 64 bd r) s) (e_int D i) i"
    and uint_read: "n < 2 ^ width \<Longrightarrow> width \<le> 64 \<Longrightarrow> reads_as D (\<lambda>s bd r. unstated (d_uint D width bd r) s) (e_uint D n) n"
    and string_read: "length x < longest \<Longrightarrow> reads_as D (d_string D) (e_string D x) x"
    and bytes_read: "y \<noteq> [] \<Longrightarrow> length y < longest \<Longrightarrow>
      e_bytes D y \<noteq> [] \<and> \<not> d_nil D (hd (e_bytes D y)) \<and> d_type D (hd (e_bytes D y)) \<in> {TBytes, TString} \<and>
      (\<forall>old r. d_bytes D old (hd (e_bytes D y)) (tl (e_bytes D y) @ r) = fill_bytes old (length y) (y @ r))"
    and array_read: "n < longest \<Longrightarrow> reads_as D (\<lambda>s bd r. unstated (d_array D bd r) s) (e_array D n) (int n)"
    and array_type: "n < longest \<Longrightarrow> d_type D (hd (e_array D n)) = TArray"
    and array_naked: "n < longest \<Longrightarrow> d_naked D s (hd (e_array D n)) r = Some (s, NakedArray, r)"
    and map_read: "n < longest \<Longrightarrow> reads_as D (\<lambda>s bd r. unstated (d_map D bd r) s) (e_map D n) (int n)"
    and map_type: "n < longest \<Longrightarrow> d_type D (hd (e_map D n)) = TMap"
    and map_naked: "n < longest \<Longrightarrow> d_naked D s (hd (e_map D n)) r = Some (s, NakedMap, r)"
    and scalar_read: "scalar v \<Longrightarrow> ok v \<Longrightarrow> reads_as D (d_naked D) (encodeScalar D v) (Naked (see v))"
    and symbol_read: "sync (Suc n) e d \<Longrightarrow> length x < longest \<Longrightarrow> e_symbol D e x = (e', bs) \<Longrightarrow>
      bs \<noteq> [] \<and> (\<exists>d'. sync n e' d' \<and> (\<forall>r. d_string D d (hd bs) (tl bs @ r) = Some (d', x, r)))"
    and sync_less: "sync (Suc n) e d \<Longrightarrow> sync n e d"
    and naked_shrinks: "d_naked D s bd r = Some (s', w, r') \<Longrightarrow> length r' \<le> length r"
    and array_shrinks: "d_array D bd r = Some (len, r') \<Longrightarrow> length r' \<le> length r"
    and map_shrinks: "d_map D bd r = Some (len, r') \<Longrightarrow> length r' \<le> length r"

lemma encode_CMap:
  "encodeIntf D (CMap kvs) = e_map D (length kvs) @ concat (map (\<lambda>(x, y). encodeIntf D x @ encodeIntf D y) kvs)"
  by (simp add: comp_def case_prod_unfold)

lemma seen_CMap:
  "seen_as see (CMap kvs) = CMap (map (\<lambda>(x, y). (the (map_key (seen_as see x)), seen_as see y)) kvs)"
  by (simp add: case_prod_unfold)

lemma wf_CMap:
  "wf_cval longest ok see (CMap kvs) \<longleftrightarrow> length kvs < longest \<and>
     (\<forall>(x, y)\<in>set kvs. wf_cval longest ok see x \<and> wf_cval longest ok see y \<and> map_key (seen_as see x) \<noteq> None)"
  by (auto simp: list_all_iff)

lemma scalar_tree:
  "scalar v \<Longrightarrow> encodeIntf D v = encodeScalar D v \<and> seen_as see v = see v \<and> wf_cval longest ok see v = ok v \<and> nesting v = 1"
  by (cases v rule: scalar.cases) auto

lemma depths_le:
  "\<forall>v\<in>set vs. d v \<le> length (g v) \<Longrightarrow> foldr max (map d vs) (0 :: nat) \<le> length (concat (map g vs))"
  by (induction vs) auto

lemma depth_pairs_le:
  "\<forall>(x, y)\<in>set kvs. d x \<le> length (g x) \<and> d y \<le> length (g y) \<Longrightarrow>
   foldr (\<lambda>(a, b) m. max (max a b) m) (map (map_prod d d) kvs) (0 :: nat) \<le>
     length (concat (map (\<lambda>(x, y). g x @ g y) kvs))"
  by (induction kvs) auto

lemma int64_small: "n < 2 ^ 63 \<Longrightarrow> int64_of n = int n"
  by (simp add: int64_of_def signed_of_def)

lemma neg64_back:
  assumes "- (2 ^ 63) \<le> i" "i < 0"
  shows "neg64 (int64_of (nat ((- i) mod 2 ^ 64))) = i"
proof (cases "i = - (2 ^ 63)")
  case False
  then have "nat ((- i) mod 2 ^ 64) < 2 ^ 63" "int (nat ((- i) mod 2 ^ 64)) = - i"
    using assms by (simp_all add: nat_less_iff)
  then show ?thesis
    using assms signed_of_neg[of i 64] by (simp add: int64_small neg64_def)
qed (simp add: int64_of_def neg64_def signed_of_def)

lemma str_bytes_back [simp]: "str_bytes (bytes_str x) = x" "length (bytes_str x) = length x"
  by (simp_all add: str_bytes_def bytes_str_def comp_def)

lemma fill_bytes_nil: "fill_bytes None (length x) (x @ r) = Some ((None, raw_data x), r)"
  by (simp add: fill_bytes_def raw_data_def)

lemma fill_bytes_empty: "fill_bytes (Some []) (length x) (x @ r) = Some ((Some [], raw_data x), r)"
  by (simp add: fill_bytes_def raw_data_def)

lemma fill_shrinks: "fill_bytes old k r = Some (y, r') \<Longrightarrow> length r' \<le> length r"
  by (auto simp: fill_bytes_def split: if_splits dest!: readn_length)

lemma slice_raw [simp]: "slice_or_nil (raw_data x) = x"
  by (simp add: slice_or_nil_def raw_data_def)

text \<open>
  Structs: the fields of \<open>es\<close> replace those of the same name, and what is left when some were omitted.
\<close>

definition override :: "sfields \<Rightarrow> sfields \<Rightarrow> sfields" where
  "override es fs = map (\<lambda>(i, v). (i, case field_named (encName i) es of None \<Rightarrow> v | Some w \<Rightarrow> w)) fs"

definition kept_fields :: "sfields \<Rightarrow> sfields \<Rightarrow> sfields" where
  "kept_fields fs fs0 = map2 (\<lambda>f f0. (fst f, if omitted f then snd f0 else snd f)) fs fs0"

definition named :: "structFieldInfo \<times> goval \<Rightarrow> string" where
  "named f = encName (fst f)"

lemma map_named: "map named fs = map encName (map fst fs)"
  by (simp add: named_def)

lemma field_named_simps [simp]:
  "field_named n [] = None"
  "field_named n (f # fs) = (if named f = n then Some (snd f) else field_named n fs)"
  by (simp_all add: field_named_def named_def)

lemma field_named_None: "n \<notin> named ` set fs \<Longrightarrow> field_named n fs = None"
  by (induction fs) auto

lemma field_named_Some: "distinct (map named fs) \<Longrightarrow> f \<in> set fs \<Longrightarrow> field_named (named f) fs = Some (snd f)"
  by (induction fs) (use image_iff in fastforce)+

lemma field_named_set:
  "field_named m (set_named n v fs) = (if m = n then map_option (\<lambda>_. v) (field_named n fs) else field_named m fs)"
  by (induction n v fs rule: set_named.induct) (auto simp: named_def)

lemma set_named_eq:
  "distinct (map named fs) \<Longrightarrow> set_named n v fs = map (\<lambda>(i, x). (i, if encName i = n then v else x)) fs"
proof (induction n v fs rule: set_named.induct)
  case (2 n v i x fs)
  have "map (\<lambda>(i, x). (i, if encName i = n then v else x)) fs = fs" if "encName i = n"
    using 2(2) that by (intro map_idI) (force simp: named_def image_iff)
  then show ?case
    using 2 by simp
qed simp

lemma named_set: "map named (set_named n v fs) = map named fs"
  by (induction n v fs rule: set_named.induct) (auto simp: named_def)

lemma override_set:
  assumes "distinct (map named fs)" "named f \<notin> named ` set es"
  shows "override es (set_named (named f) (snd f) fs) = override (f # es) fs"
  using field_named_None[OF assms(2)] unfolding set_named_eq[OF assms(1)] override_def
  by (auto split: option.split)

lemma override_kept:
  assumes "\<forall>f\<in>set fs. field_named (named f) es = (if omitted f then None else Some (snd f))"
    and "map fst fs0 = map fst fs"
  shows "override es fs0 = kept_fields fs fs0"
proof -
  have "length fs = length fs0"
    using assms(2) by (metis length_map)
  then show ?thesis
    using assms by (induction fs fs0 rule: list_induct2) (auto simp: override_def kept_fields_def named_def)
qed

lemma field_named_kind:
  assumes "map fst fs0 = map fst fs" "map (zero_value \<circ> snd) fs0 = map (zero_value \<circ> snd) fs"
    and "distinct (map named fs)" "f \<in> set fs"
  shows "\<exists>v. field_named (named f) fs0 = Some v \<and> zero_value v = zero_value (snd f)"
proof -
  have "length fs = length fs0"
    using assms(1) by (metis length_map)
  then show ?thesis
    using assms by (induction fs fs0 rule: list_induct2) (auto simp: named_def)
qed

lemma made_int [simp]: "made (Some (int n, r)) = Some (n, r)"
  by (simp add: made_def)

lemma made_Some: "made x = Some (n, r) \<longleftrightarrow> x = Some (int n, r)"
  by (cases x) (auto simp: made_def split: if_splits)

lemma decodeMany_writes:
  assumes "\<forall>x\<in>set xs. \<forall>s r. f s (g x @ r) = Some (s, h x, r)"
  shows "decodeMany (length xs) f s (concat (map g xs) @ r) = Some (s, map h xs, r)"
  using assms by (induction xs arbitrary: s r) auto

lemma decodeMany_cong:
  assumes "\<And>s r s' x r'. f s r = Some (s', x, r') \<Longrightarrow> length r' \<le> length r"
    and "\<And>s r. length r \<le> b \<Longrightarrow> f s r = g s r" "length r \<le> b"
  shows "decodeMany n f s r = decodeMany n g s r"
  using assms(3)
proof (induction n arbitrary: s r)
  case (Suc n)
  show ?case
  proof (cases "f s r")
    case (Some y)
    then obtain s' x r' where y: "f s r = Some (s', x, r')"
      by (cases y) auto
    then have "length r' \<le> b"
      using assms(1)[OF y] Suc.prems by simp
    then show ?thesis
      using Suc y assms(2)[OF Suc.prems] by (simp split: option.split)
  qed (use assms(2)[OF Suc.prems, of s] in simp)
qed simp

lemma decodeMany_shrinks:
  assumes "\<And>s r s' x r'. f s r = Some (s', x, r') \<Longrightarrow> length r' \<le> length r"
  shows "decodeMany n f s r = Some (s', xs, r') \<Longrightarrow> length r' \<le> length r"
proof (induction n arbitrary: s r xs)
  case (Suc n)
  from Suc.prems obtain s1 x r1 xs1 where "f s r = Some (s1, x, r1)" "decodeMany n f s1 r1 = Some (s', xs1, r')"
    by (auto split: option.splits)
  then show ?case
    using Suc.IH assms by (meson order_trans)
qed simp

context codec_driver
begin

lemma contlens_shrinks: "decContLens D bd r = Some (n, r') \<Longrightarrow> length r' \<le> length r"
  by (auto simp: decContLens_def split: valueType.splits dest: array_shrinks map_shrinks)

lemma pair_shrinks:
  assumes "\<And>s r s' x r'. f s r = Some (s', x, r') \<Longrightarrow> length r' \<le> length r"
  shows "decodePair f s r = Some (s', x, r') \<Longrightarrow> length r' \<le> length r"
  unfolding decodePair_def by (auto split: option.splits) (meson assms order_trans)

lemma decodeIntf_shrinks:
  "decodeIntf D k s bs = Some (s', v, r') \<Longrightarrow> length r' < length bs"
proof (induction k arbitrary: s bs s' v r')
  case (Suc k)
  then obtain bd r where bs: "bs = bd # r"
    by (cases bs) auto
  have le: "decodeIntf D k s r = Some (s', x, r') \<Longrightarrow> length r' \<le> length r" for s r s' x r'
    using Suc.IH by (meson less_imp_le)
  show ?case
  proof (cases "d_nil D bd")
    case False
    with Suc.prems bs obtain s1 w r1 where w: "d_naked D s bd r = Some (s1, w, r1)"
      by (auto split: option.splits)
    note r1 = naked_shrinks[OF w]
    show ?thesis
    proof (cases w)
      case (Naked x)
      then show ?thesis
        using Suc.prems w bs False r1 by simp
    next
      case NakedArray
      then obtain n r2 vs where c: "decContLens D bd r1 = Some (int n, r2)"
        and m: "decodeMany n (decodeIntf D k) s1 r2 = Some (s', vs, r')"
        using Suc.prems w bs False by (auto simp: made_Some split: option.splits)
      have "length r' \<le> length r2"
        using decodeMany_shrinks[OF le m] .
      then show ?thesis
        using r1 contlens_shrinks[OF c] bs by simp
    next
      case NakedMap
      then obtain n r2 vs where c: "d_map D bd r1 = Some (int n, r2)"
        and m: "decodeMany n (decodePair (decodeIntf D k)) s1 r2 = Some (s', vs, r')"
        using Suc.prems w bs False by (auto simp: made_Some split: option.splits)
      have "length r' \<le> length r2"
        using decodeMany_shrinks[OF pair_shrinks[OF le] m] .
      then show ?thesis
        using r1 map_shrinks[OF c] bs by simp
    qed
  qed (use Suc.prems bs in simp)
qed simp

text \<open>The length of the stream bounds the depth of the nesting.\<close>

lemma depth_enough:
  "length bs \<le> j \<Longrightarrow> length bs \<le> k \<Longrightarrow> decodeIntf D j s bs = decodeIntf D k s bs"
proof (induction j arbitrary: k s bs)
  case (Suc j)
  show ?case
  proof (cases bs)
    case Nil
    then show ?thesis
      by (cases k) auto
  next
    case (Cons bd r)
    then obtain k' where k: "k = Suc k'"
      using Suc.prems by (cases k) auto
    have len: "length r \<le> j" "length r \<le> k'"
      using Suc.prems Cons k by simp_all
    have eq: "decodeIntf D j s r' = decodeIntf D k' s r'" if "length r' \<le> length r" for s r'
      using Suc.IH[of r' k' s] len that by simp
    have le: "length r' \<le> length r" if "decodeIntf D i s r = Some (s', x, r')" for i s r s' x r'
      using decodeIntf_shrinks[OF that] by simp
    have pair: "decodePair (decodeIntf D j) s r' = decodePair (decodeIntf D k') s r'" if r': "length r' \<le> length r" for s r'
    proof (cases "decodeIntf D k' s r'")
      case (Some y)
      then obtain s1 x r1 where y: "decodeIntf D k' s r' = Some (s1, x, r1)"
        by (cases y) auto
      have "decodeIntf D j s1 r1 = decodeIntf D k' s1 r1"
        using eq[of r1] le[OF y] r' by simp
      then show ?thesis
        using y eq[OF r'] by (simp add: decodePair_def split: option.split)
    qed (simp add: decodePair_def eq[OF r'])
    have elems: "decodeMany n (decodeIntf D j) s' r2 = decodeMany n (decodeIntf D k') s' r2"
      if "length r2 \<le> length r" for n s' r2
      using le eq that by (rule decodeMany_cong)
    have pairs: "decodeMany n (decodePair (decodeIntf D j)) s' r2 = decodeMany n (decodePair (decodeIntf D k')) s' r2"
      if "length r2 \<le> length r" for n s' r2
      using pair_shrinks[OF le] pair that by (rule decodeMany_cong)
    show ?thesis
    proof (cases "d_naked D s bd r")
      case (Some y)
      then obtain s1 w r1 where y: "d_naked D s bd r = Some (s1, w, r1)"
        by (cases y) auto
      have "length r2 \<le> length r" if "made (decContLens D bd r1) = Some (n, r2)" for n r2
        using naked_shrinks[OF y] contlens_shrinks that unfolding made_Some by fastforce
      moreover have "length r2 \<le> length r" if "made (d_map D bd r1) = Some (n, r2)" for n r2
        using naked_shrinks[OF y] map_shrinks that unfolding made_Some by fastforce
      ultimately show ?thesis
        by (cases w) (simp_all add: Cons k y elems pairs split: option.split)
    qed (simp add: Cons k)
  qed
next
  case 0
  then show ?case
    by (cases k) auto
qed

lemma reads_asD:
  assumes "reads_as D f bs x"
  obtains bd t where "bs = bd # t" "\<not> d_nil D bd" "\<And>s r. f s bd (t @ r) = Some (s, x, r)"
  using assms unfolding reads_as_def by (cases bs) auto

lemma unstated_Some: "unstated x s = Some (s', y, r) \<longleftrightarrow> s' = s \<and> x = Some (y, r)"
  by (auto simp: unstated_def)

lemma intf_scalar:
  assumes "scalar v" "ok v"
  shows "decodeIntf D (Suc k) s (encodeScalar D v @ r) = Some (s, see v, r)"
  by (rule reads_asD[OF scalar_read[OF assms]]) simp

lemma intf_nil: "decodeIntf D (Suc k) s (e_nil D @ r) = Some (s, CNil, r)"
  using nil_written by auto

lemma intf_slice:
  assumes "length vs < longest" "\<forall>v\<in>set vs. \<forall>s r. decodeIntf D k s (g v @ r) = Some (s, h v, r)"
  shows "decodeIntf D (Suc k) s (e_array D (length vs) @ concat (map g vs) @ r) = Some (s, CSlice (map h vs), r)"
proof (rule reads_asD[OF array_read[OF assms(1)]])
  fix bd t
  assume e: "e_array D (length vs) = bd # t" "\<not> d_nil D bd"
    and r: "\<And>s r. unstated (d_array D bd (t @ r)) s = Some (s, int (length vs), r)"
  have "d_array D bd (t @ x) = Some (int (length vs), x)" for x
    using r[of x] by (simp add: unstated_Some)
  then show ?thesis
    using e array_type[OF assms(1)] array_naked[OF assms(1)] decodeMany_writes[OF assms(2), of s r]
    by (simp add: decContLens_def)
qed

lemma intf_map:
  assumes "length kvs < longest" "\<forall>(x, y)\<in>set kvs. (\<forall>s r. decodeIntf D k s (g x @ r) = Some (s, h x, r)) \<and>
    (\<forall>s r. decodeIntf D k s (g y @ r) = Some (s, h y, r)) \<and> map_key (h x) \<noteq> None"
  shows "decodeIntf D (Suc k) s (e_map D (length kvs) @ concat (map (\<lambda>(x, y). g x @ g y) kvs) @ r) =
    Some (s, CMap (map (\<lambda>(x, y). (the (map_key (h x)), h y)) kvs), r)"
proof (rule reads_asD[OF map_read[OF assms(1)]])
  fix bd t
  assume e: "e_map D (length kvs) = bd # t" "\<not> d_nil D bd"
    and r: "\<And>s r. unstated (d_map D bd (t @ r)) s = Some (s, int (length kvs), r)"
  have "d_map D bd (t @ x) = Some (int (length kvs), x)" for x
    using r[of x] by (simp add: unstated_Some)
  moreover have "\<forall>kv\<in>set kvs. \<forall>s r. decodePair (decodeIntf D k) s ((\<lambda>(x, y). g x @ g y) kv @ r) =
    Some (s, (\<lambda>(x, y). (the (map_key (h x)), h y)) kv, r)"
    using assms(2) by (fastforce simp: decodePair_def)
  ultimately show ?thesis
    using e map_naked[OF assms(1)] by (simp add: decodeMany_writes)
qed

lemma le_foldr_max: "x \<in> set xs \<Longrightarrow> x \<le> foldr max xs (0 :: nat)"
  by (induction xs) auto

lemma le_foldr_pair:
  "(a, b) \<in> set xs \<Longrightarrow> max a b \<le> foldr (\<lambda>(a, b) m. max (max a b) m) xs (0 :: nat)"
  by (induction xs) auto

lemma leaf_read:
  assumes "wf_cval longest ok see v" "nesting v \<le> k" "scalar v \<or> encodeIntf D v = e_nil D \<and> seen_as see v = CNil"
  shows "decodeIntf D k s (encodeIntf D v @ r) = Some (s, seen_as see v, r)"
proof -
  have "0 < nesting v"
    by (cases v) auto
  then obtain k' where "k = Suc k'"
    using assms(2) by (cases k) auto
  then show ?thesis
    using assms(1,3) scalar_tree[of v D see longest ok] intf_scalar intf_nil by auto
qed

lemma decodeIntf_encode:
  "wf_cval longest ok see v \<Longrightarrow> nesting v \<le> k \<Longrightarrow> decodeIntf D k s (encodeIntf D v @ r) = Some (s, seen_as see v, r)"
proof (induction v arbitrary: k s r)
  case (CSlice vs)
  then obtain k' where k: "k = Suc k'" "foldr max (map nesting vs) 0 \<le> k'"
    by (cases k) auto
  have elems: "\<forall>v\<in>set vs. \<forall>s r. decodeIntf D k' s (encodeIntf D v @ r) = Some (s, seen_as see v, r)"
  proof (intro ballI allI)
    fix v s r
    assume v: "v \<in> set vs"
    have "nesting v \<le> k'"
      using le_foldr_max[of "nesting v" "map nesting vs"] v k(2) by simp
    then show "decodeIntf D k' s (encodeIntf D v @ r) = Some (s, seen_as see v, r)"
      using CSlice.IH[OF v] CSlice.prems(1) v by (simp add: list_all_iff)
  qed
  then show ?case
    using intf_slice[OF _ elems] CSlice.prems(1) by (simp add: k(1) del: decodeIntf.simps)
next
  case (CMap kvs)
  then obtain k' where k: "k = Suc k'"
    "foldr (\<lambda>(a, b) m. max (max a b) m) (map (map_prod nesting nesting) kvs) 0 \<le> k'"
    by (cases k) auto
  have each: "(\<forall>s r. decodeIntf D k' s (encodeIntf D x @ r) = Some (s, seen_as see x, r)) \<and>
    (\<forall>s r. decodeIntf D k' s (encodeIntf D y @ r) = Some (s, seen_as see y, r)) \<and> map_key (seen_as see x) \<noteq> None"
    if xy: "(x, y) \<in> set kvs" for x y
  proof -
    have "(nesting x, nesting y) \<in> set (map (map_prod nesting nesting) kvs)"
      using xy by (force simp: map_prod_def)
    from le_foldr_pair[OF this] have "nesting x \<le> k'" "nesting y \<le> k'"
      using k(2) by simp_all
    moreover have "wf_cval longest ok see x" "wf_cval longest ok see y" "map_key (seen_as see x) \<noteq> None"
      using CMap.prems(1) xy by (auto simp: list_all_iff)
    ultimately show ?thesis
      using CMap.IH(1)[OF xy] CMap.IH(2)[OF xy] by simp
  qed
  have "length kvs < longest"
    using CMap.prems(1) by simp
  from intf_map[OF this, of k' "encodeIntf D" "seen_as see" s r] show ?case
    using each unfolding encode_CMap seen_CMap k(1) append_assoc by blast
next
  case (CExt t x)
  then show ?case
    by (rule leaf_read) (cases x; simp)
qed (rule leaf_read, assumption+, simp)+

lemma scalar_written: "scalar v \<Longrightarrow> ok v \<Longrightarrow> 0 < length (encodeScalar D v)"
  using scalar_read by (auto simp: reads_as_def)

lemma leaf_written:
  "wf_cval longest ok see v \<Longrightarrow> scalar v \<or> encodeIntf D v = e_nil D \<and> nesting v = 1 \<Longrightarrow> nesting v \<le> length (encodeIntf D v)"
  using scalar_written[of v] scalar_tree[of v D see longest ok] nil_written by (auto simp: Suc_le_eq)

lemma depth_le_length: "wf_cval longest ok see v \<Longrightarrow> nesting v \<le> length (encodeIntf D v)"
proof (induction v)
  case (CSlice vs)
  have "foldr max (map nesting vs) 0 \<le> length (concat (map (encodeIntf D) vs))"
    using CSlice by (intro depths_le) (auto simp: list_all_iff)
  moreover have "e_array D (length vs) \<noteq> []"
    using array_read CSlice.prems by (auto simp: reads_as_def)
  ultimately show ?case
    by (cases "e_array D (length vs)") auto
next
  case (CMap kvs)
  have "nesting x \<le> length (encodeIntf D x) \<and> nesting y \<le> length (encodeIntf D y)" if "(x, y) \<in> set kvs" for x y
    using CMap.IH(1)[OF that] CMap.IH(2)[OF that] CMap.prems that unfolding wf_CMap by auto
  then have "foldr (\<lambda>(a, b) m. max (max a b) m) (map (map_prod nesting nesting) kvs) 0 \<le>
    length (concat (map (\<lambda>(x, y). encodeIntf D x @ encodeIntf D y) kvs))"
    by (intro depth_pairs_le) auto
  moreover have "e_map D (length kvs) \<noteq> []"
    using map_read CMap.prems by (auto simp: reads_as_def)
  ultimately show ?case
    unfolding encode_CMap by (cases "e_map D (length kvs)") auto
next
  case (CExt t x)
  then show ?case
    by (rule leaf_written) (cases x; simp)
qed (rule leaf_written, assumption, simp)+

text \<open>A value comes back from its encoding, and nothing behind it is consumed.\<close>

lemma intf_roundtrip:
  assumes "wf_cval longest ok see v"
  shows "Decode_intf D (encodeIntf D v @ r) = Some (seen_as see v, r)"
proof -
  have "nesting v \<le> length (encodeIntf D v @ r)"
    using depth_le_length[OF assms] by simp
  from decodeIntf_encode[OF assms this] show ?thesis
    by (simp add: Decode_intf_def)
qed

lemma unstated_read:
  assumes "reads_as D (\<lambda>s bd r. unstated (f bd r) s) bs x"
  obtains bd t where "bs = bd # t" "\<not> d_nil D bd" "\<And>r. f bd (t @ r) = Some (x, r)"
  using assms unfolding reads_as_def by (cases bs) (auto simp: unstated_Some)

lemma field_read:
  assumes "ok_field longest ok v" "zero_value v' = zero_value v"
  shows "decodeField D s v' (encodeField D v @ r) = Some (s, v, r)"
proof (cases v)
  case (VBool b)
  with assms(2) obtain b' where v': "v' = VBool b'"
    by (cases v') auto
  show ?thesis
    by (rule unstated_read[OF bool_read[of b]]) (simp add: VBool v' decodeField_def decodeKind_def unstated_def)
next
  case (VInt i)
  with assms(2) obtain b' where v': "v' = VInt b'"
    by (cases v') auto
  have "ok (CInt i)"
    using assms(1) VInt by (simp add: ok_field_def)
  show ?thesis
    by (rule unstated_read[OF int_read[OF \<open>ok (CInt i)\<close>]])
      (simp add: VInt v' decodeField_def decodeKind_def unstated_def)
next
  case (VUint w n)
  with assms(2) obtain b' where v': "v' = VUint w b'"
    by (cases v') auto
  have n: "n < 2 ^ w" "w \<le> 64"
    using assms(1) VUint by (simp_all add: ok_field_def)
  show ?thesis
    by (rule unstated_read[OF uint_read[OF n]]) (simp add: VUint v' decodeField_def decodeKind_def unstated_def)
next
  case (VString x)
  with assms(2) obtain b' where v': "v' = VString b'"
    by (cases v') auto
  have "length x < longest"
    using assms(1) VString by (simp add: ok_field_def)
  show ?thesis
    by (rule reads_asD[OF string_read[OF \<open>length x < longest\<close>]])
      (simp add: VString v' decodeField_def decodeKind_def)
next
  case (VBytes x)
  with assms(2) obtain old where v': "v' = VBytes old"
    by (cases v') auto
  show ?thesis
  proof (cases x)
    case None
    then show ?thesis
      using nil_written by (auto simp: VBytes v' decodeField_def)
  next
    case (Some y)
    then have "y \<noteq> []" "length y < longest"
      using assms(1) VBytes by (simp_all add: ok_field_def)
    note y = bytes_read[OF this]
    then obtain bd t where e: "e_bytes D y = bd # t"
      by (cases "e_bytes D y") auto
    show ?thesis
      using y \<open>y \<noteq> []\<close> by (auto simp: VBytes v' Some e decodeField_def decodeKind_def kSlice_def fill_bytes_def
          unstated_def split: option.split)
  qed
qed

lemma name_read:
  assumes "sync (Suc n) e d" "length x < longest" "encodeName D h e x = (e', bs)"
  obtains b t d' where "bs = b # t" "sync n e' d'" "\<And>r. d_string D d b (t @ r) = Some (d', x, r)"
proof (cases "fieldsAsSymbols h")
  case True
  then show ?thesis
    using symbol_read[OF assms(1,2), of e' bs] assms(3) that by (cases bs) (auto simp: encodeName_def)
next
  case False
  then have e: "e' = e" "bs = e_string D x"
    using assms(3) by (simp_all add: encodeName_def)
  show ?thesis
    by (rule reads_asD[OF string_read[OF assms(2)]]) (use e that sync_less[OF assms(1)] in blast)
qed

lemma entries_read:
  assumes "\<forall>f\<in>set es. length (named f) < longest \<and> ok_field longest ok (snd f) \<and>
      (\<exists>v. field_named (named f) fs = Some v \<and> zero_value v = zero_value (snd f))"
    and "distinct (map named es)" "distinct (map named fs)" "sync (n + length es) e d"
    and "encodeFields D h e es = (e', bs)"
  shows "\<exists>d'. decodeEntries D err (length es) d fs (bs @ r) = Some (d', override es fs, r) \<and> sync n e' d'"
  using assms
proof (induction es arbitrary: e d fs bs)
  case Nil
  have "override [] fs = fs"
    unfolding override_def by (intro map_idI) auto
  then show ?case
    using Nil by simp
next
  case (Cons f es)
  obtain e1 nb where nb: "encodeName D h e (named f) = (e1, nb)"
    by (rule prod.exhaust)
  obtain e2 bs2 where bs2: "encodeFields D h e1 es = (e2, bs2)"
    by (rule prod.exhaust)
  have bs: "e' = e2" "bs = nb @ encodeField D (snd f) @ bs2"
    using Cons.prems(5) nb bs2 by (simp_all add: named_def)
  have s: "sync (Suc (n + length es)) e d" "length (named f) < longest"
    using Cons.prems(1,4) by simp_all
  obtain b t d1 where name: "nb = b # t" "sync (n + length es) e1 d1"
    "\<And>r. d_string D d b (t @ r) = Some (d1, named f, r)"
    by (rule name_read[OF s nb]) blast
  obtain v where v: "field_named (named f) fs = Some v" "zero_value v = zero_value (snd f)" "ok_field longest ok (snd f)"
    using Cons.prems(1) by auto
  have entry: "decodeEntry D err d fs (bs @ r) = Some (d1, set_named (named f) (snd f) fs, bs2 @ r)"
    using name(3) field_read[OF v(3) v(2)] v(1) by (simp add: decodeEntry_def bs(2) name(1))
  have rest: "\<forall>g\<in>set es. length (named g) < longest \<and> ok_field longest ok (snd g) \<and>
      (\<exists>v. field_named (named g) (set_named (named f) (snd f) fs) = Some v \<and> zero_value v = zero_value (snd g))"
    using Cons.prems(1,2) by (auto simp: field_named_set)
  have dist: "distinct (map named es)" "distinct (map named (set_named (named f) (snd f) fs))"
    "named f \<notin> named ` set es"
    using Cons.prems(2,3) by (simp_all add: named_set)
  show ?case
    using Cons.IH[OF rest dist(1,2) name(2) bs2[folded bs(1)]] entry override_set[OF Cons.prems(3) dist(3)] bs(1) by simp
qed

lemma sync_le: "sync (n + m) e d \<Longrightarrow> sync n e d"
  by (induction m) (auto dest: sync_less)

lemma map_start:
  assumes "n < longest"
  shows "dec_kStruct D err d fs0 (e_map D n @ x) = decodeEntries D err n d fs0 x"
  by (rule unstated_read[OF map_read[OF assms]]) (use map_type[OF assms] in \<open>simp add: dec_kStruct_def\<close>)

text \<open>
  A struct that is encoded as a map comes back field by field; a field that was left out keeps the
  value it has in the struct decoded into.
\<close>

lemma struct_map_read:
  assumes "distinct (map named fs)" "length fs < longest"
    and "\<forall>f\<in>set fs. length (named f) < longest \<and> ok_field longest ok (snd f)"
    and "map fst fs0 = map fst fs" "map (zero_value \<circ> snd) fs0 = map (zero_value \<circ> snd) fs"
    and "sync (n + length fs) e d" "\<not> StructToArray h" "kStruct D h False e fs = Some (e', bs)"
  shows "\<exists>d'. dec_kStruct D err d fs0 (bs @ r) = Some (d', kept_fields fs fs0, r) \<and> sync n e' d'"
proof -
  let ?es = "filter (\<lambda>f. \<not> omitted f) (sort_key (encName \<circ> fst) fs)"
  let ?m = "length fs - length ?es"
  have len: "length ?es \<le> length fs"
    by (metis length_filter_le length_sort)
  have "distinct (map named (sort_key (encName \<circ> fst) fs))"
    using assms(1) by (metis mset_eq_imp_distinct_iff mset_map mset_sort)
  then have dist: "distinct (map named ?es)"
    by (rule distinct_map_filter)
  obtain body where body: "encodeFields D h e ?es = (e', body)" "bs = e_map D (length ?es) @ body"
    using assms(7,8) by (auto simp: kStruct_def Let_def split: prod.splits)
  have "n + length fs = n + ?m + length ?es"
    using len by simp
  then have sy: "sync (n + ?m + length ?es) e d"
    using assms(6) by (simp only:)
  have keys: "map named fs0 = map named fs"
    unfolding map_named assms(4) ..
  have "\<forall>f\<in>set ?es. length (named f) < longest \<and> ok_field longest ok (snd f) \<and>
      (\<exists>v. field_named (named f) fs0 = Some v \<and> zero_value v = zero_value (snd f))"
    using assms(3) field_named_kind[OF assms(4,5,1)] by auto
  from entries_read[OF this dist _ sy body(1), of err r] obtain d' where d':
    "decodeEntries D err (length ?es) d fs0 (body @ r) = Some (d', override ?es fs0, r)" "sync (n + ?m) e' d'"
    using assms(1) keys by auto
  have "\<forall>f\<in>set fs. field_named (named f) ?es = (if omitted f then None else Some (snd f))"
  proof
    fix f
    assume f: "f \<in> set fs"
    have "inj_on named (set fs)"
      using assms(1) by (simp add: distinct_map)
    then have "named f \<notin> named ` set ?es" if "omitted f"
      using that f by (fastforce dest: inj_onD)
    then show "field_named (named f) ?es = (if omitted f then None else Some (snd f))"
      using field_named_Some[OF dist, of f] field_named_None[of "named f" ?es] f by auto
  qed
  then have res: "override ?es fs0 = kept_fields fs fs0"
    by (rule override_kept[OF _ assms(4)])
  have "length ?es < longest"
    using len assms(2) by simp
  then have "dec_kStruct D err d fs0 (bs @ r) = decodeEntries D err (length ?es) d fs0 (body @ r)"
    unfolding body(2) append_assoc by (rule map_start)
  then show ?thesis
    using d' res sync_le by auto
qed

text \<open>As an array, nothing is left out, and every field comes back.\<close>

lemma fields_in_order:
  assumes "\<forall>f\<in>set fs. ok_field longest ok (snd f)" "map fst fs0 = map fst fs"
    and "map (zero_value \<circ> snd) fs0 = map (zero_value \<circ> snd) fs"
  shows "decodeInOrder D (length fs) d fs0 (concat (map (encodeField D \<circ> snd) fs) @ r) = Some (d, fs, r)"
proof -
  have "length fs = length fs0"
    using assms(2) by (metis length_map)
  then show ?thesis
    using assms
  proof (induction fs fs0 rule: list_induct2)
    case (Cons f fs f0 fs0)
    then show ?case
      by (cases f; cases f0) (simp add: field_read)
  qed simp
qed

lemma struct_array_read:
  assumes "length fs < longest" "\<forall>f\<in>set fs. ok_field longest ok (snd f)"
    and "map fst fs0 = map fst fs" "map (zero_value \<circ> snd) fs0 = map (zero_value \<circ> snd) fs"
    and "asArray \<or> StructToArray h" "kStruct D h asArray e fs = Some (e', bs)"
  shows "dec_kStruct D err d fs0 (bs @ r) = Some (d, fs, r)"
proof -
  have bs: "bs = e_array D (length fs) @ concat (map (encodeField D \<circ> snd) fs)"
    using assms(5,6) by (auto simp: kStruct_def split: if_splits)
  show ?thesis
    by (rule unstated_read[OF array_read[OF assms(1)]])
      (use array_type[OF assms(1)] fields_in_order[OF assms(2-4)] in \<open>simp add: dec_kStruct_def bs\<close>)
qed

end

end
