(* ===== verification/SimpleDriver.thy ===== *)
theory SimpleDriver
  imports DriverProps
begin

text \<open>
  The simple format of \<open>simple.go\<close>: its encoder and decoder as a driver, and the interpretation that
  gives it the round trips of \<open>DriverProps\<close>.
\<close>

section \<open>Descriptors\<close>

definition simpleVdNil :: byte where "simpleVdNil = 1"
definition simpleVdFalse :: byte where "simpleVdFalse = 2"
definition simpleVdTrue :: byte where "simpleVdTrue = 3"
definition simpleVdFloat32 :: byte where "simpleVdFloat32 = 4"
definition simpleVdFloat64 :: byte where "simpleVdFloat64 = 5"
definition simpleVdPosInt :: byte where "simpleVdPosInt = 8"
definition simpleVdNegInt :: byte where "simpleVdNegInt = 12"
definition simpleVdString :: byte where "simpleVdString = 216"
definition simpleVdByteArray :: byte where "simpleVdByteArray = 224"
definition simpleVdArray :: byte where "simpleVdArray = 232"
definition simpleVdMap :: byte where "simpleVdMap = 240"
definition simpleVdExt :: byte where "simpleVdExt = 248"

lemmas simple_descriptors = simpleVdNil_def simpleVdFalse_def simpleVdTrue_def simpleVdFloat32_def
  simpleVdFloat64_def simpleVdPosInt_def simpleVdNegInt_def simpleVdString_def simpleVdByteArray_def
  simpleVdArray_def simpleVdMap_def simpleVdExt_def

section \<open>The encoder\<close>

definition simple_encUint :: "nat \<Rightarrow> byte \<Rightarrow> bytes" where
  "simple_encUint v bd =
     (if v \<le> 255 then [bd, of_nat v]
      else if v \<le> 65535 then (bd + 1) # be_bytes 2 v
      else if v \<le> 4294967295 then (bd + 2) # be_bytes 4 v
      else (bd + 3) # be_bytes 8 v)"

definition simple_encodeInt :: "int \<Rightarrow> bytes" where
  "simple_encodeInt v =
     (if v < 0 then simple_encUint (nat ((- v) mod 2 ^ 64)) simpleVdNegInt
      else simple_encUint (nat v) simpleVdPosInt)"

definition simple_encodeUint :: "nat \<Rightarrow> bytes" where
  "simple_encodeUint v = simple_encUint v simpleVdPosInt"

definition simple_encLen :: "byte \<Rightarrow> nat \<Rightarrow> bytes" where
  "simple_encLen bd l =
     (if l = 0 then [bd]
      else if l \<le> 255 then [bd + 1, of_nat l]
      else if l \<le> 65535 then (bd + 2) # be_bytes 2 l
      else if l \<le> 4294967295 then (bd + 3) # be_bytes 4 l
      else (bd + 4) # be_bytes 8 l)"

definition simple_encodeExtPreamble :: "byte \<Rightarrow> nat \<Rightarrow> bytes" where
  "simple_encodeExtPreamble xtag l = simple_encLen simpleVdExt l @ [xtag]"

definition simple_encodeString :: "string \<Rightarrow> bytes" where
  "simple_encodeString v = simple_encLen simpleVdString (length v) @ str_bytes v"

definition simple_encodeStringBytes :: "bytes \<Rightarrow> bytes" where
  "simple_encodeStringBytes v = simple_encLen simpleVdByteArray (length v) @ v"

section \<open>The decoder\<close>

definition simple_currentEncodedType :: "byte \<Rightarrow> valueType" where
  "simple_currentEncodedType bd =
     (if bd = simpleVdNil then TNil
      else if bd = simpleVdTrue \<or> bd = simpleVdFalse then TBool
      else if simpleVdPosInt \<le> bd \<and> bd \<le> simpleVdPosInt + 3 then TUint
      else if simpleVdNegInt \<le> bd \<and> bd \<le> simpleVdNegInt + 3 then TInt
      else if bd = simpleVdFloat32 \<or> bd = simpleVdFloat64 then TFloat
      else if simpleVdString \<le> bd \<and> bd \<le> simpleVdString + 4 then TString
      else if simpleVdByteArray \<le> bd \<and> bd \<le> simpleVdByteArray + 4 then TBytes
      else if simpleVdExt \<le> bd \<and> bd \<le> simpleVdExt + 4 then TExt
      else if simpleVdArray \<le> bd \<and> bd \<le> simpleVdArray + 4 then TArray
      else if simpleVdMap \<le> bd \<and> bd \<le> simpleVdMap + 4 then TMap
      else TBad)"

text \<open>The number as unsigned, as signed, and whether it is a negative one.\<close>

definition simple_decIntAny :: "byte \<Rightarrow> bytes \<Rightarrow> ((nat \<times> int \<times> bool) \<times> bytes) option" where
  "simple_decIntAny bd r =
     (let pos = map_option (\<lambda>(ui, r). ((ui, int64_of ui, False), r));
          neg = map_option (\<lambda>(ui, r). ((ui, neg64 (int64_of ui), True), r))
      in if bd = simpleVdPosInt then pos (read_be 1 r)
         else if bd = simpleVdPosInt + 1 then pos (read_be 2 r)
         else if bd = simpleVdPosInt + 2 then pos (read_be 4 r)
         else if bd = simpleVdPosInt + 3 then pos (read_be 8 r)
         else if bd = simpleVdNegInt then neg (read_be 1 r)
         else if bd = simpleVdNegInt + 1 then neg (read_be 2 r)
         else if bd = simpleVdNegInt + 2 then neg (read_be 4 r)
         else if bd = simpleVdNegInt + 3 then neg (read_be 8 r)
         else None)"

definition simple_decodeInt :: "nat \<Rightarrow> int reader" where
  "simple_decodeInt bitsize bd r =
     (case simple_decIntAny bd r of
        None \<Rightarrow> None
      | Some ((_, i, _), r) \<Rightarrow> if checkOverflow 0 i bitsize then Some (i, r) else None)"

definition simple_decodeUint :: "nat \<Rightarrow> nat reader" where
  "simple_decodeUint bitsize bd r =
     (case simple_decIntAny bd r of
        None \<Rightarrow> None
      | Some ((ui, _, neg), r) \<Rightarrow>
          if neg then None else if checkOverflow ui 0 bitsize then Some (ui, r) else None)"

definition simple_decodeFloat :: "bool \<Rightarrow> nat reader" where
  "simple_decodeFloat chkOverflow32 bd r =
     (case
        (if bd = simpleVdFloat32 then map_option (\<lambda>(n, r). (widen32 n, r)) (read_be 4 r)
         else if bd = simpleVdFloat64 then read_be 8 r
         else if simpleVdPosInt \<le> bd \<and> bd \<le> simpleVdNegInt + 3 then
           map_option (\<lambda>((_, i, _), r). (float64_of i, r)) (simple_decIntAny bd r)
         else None)
      of None \<Rightarrow> None
       | Some (f, r) \<Rightarrow> if checkOverflowFloat32 f chkOverflow32 then Some (f, r) else None)"

definition simple_decodeBool :: "bool reader" where
  "simple_decodeBool bd r =
     (if bd = simpleVdTrue then Some (True, r) else if bd = simpleVdFalse then Some (False, r) else None)"

text \<open>The low bits of any descriptor say how many bytes the length takes.\<close>

definition simple_decLen :: "int reader" where
  "simple_decLen bd r =
     (let k = unat bd mod 8; len = map_option (\<lambda>(n, r). (int64_of n, r))
      in if k = 0 then Some (0, r)
         else if k = 1 then len (read_be 1 r)
         else if k = 2 then len (read_be 2 r)
         else if k = 3 then len (read_be 4 r)
         else if k = 4 then len (read_be 8 r)
         else None)"

definition simple_decodeString :: "string reader" where
  "simple_decodeString bd r =
     (case simple_decLen bd r of
        None \<Rightarrow> None
      | Some (n, r) \<Rightarrow> map_option (\<lambda>(x, r). (bytes_str x, r)) (readn (nat n) r))"

definition simple_decodeBytes :: "bytes option \<Rightarrow> (bytes option \<times> bytes option) reader" where
  "simple_decodeBytes bs bd r =
     (case simple_decLen bd r of None \<Rightarrow> None | Some (clen, r) \<Rightarrow> fill_bytes bs (nat clen) r)"

text \<open>The tag and the data of an extension.\<close>

definition simple_rawExt :: "(byte \<times> bytes) reader" where
  "simple_rawExt bd r =
     (case simple_decLen bd r of
        None \<Rightarrow> None
      | Some (l, []) \<Rightarrow> None
      | Some (l, xtag # r) \<Rightarrow> map_option (\<lambda>(x, r). ((xtag, x), r)) (readn (nat l) r))"

definition simple_decodeExt :: "bool \<Rightarrow> byte \<Rightarrow> (byte \<times> bytes) reader" where
  "simple_decodeExt verifyTag tag bd r =
     (if simpleVdExt \<le> bd \<and> bd \<le> simpleVdExt + 4 then
        (case simple_rawExt bd r of
           None \<Rightarrow> None
         | Some ((xtag, xbs), r) \<Rightarrow> if verifyTag \<and> xtag \<noteq> tag then None else Some ((xtag, xbs), r))
      else if simpleVdByteArray \<le> bd \<and> bd \<le> simpleVdByteArray + 4 then
        map_option (\<lambda>((_, x), r). ((0, slice_or_nil x), r)) (simple_decodeBytes None bd r)
      else None)"

definition simple_decodeNaked :: "byte \<Rightarrow> bytes \<Rightarrow> (nakedval \<times> bytes) option" where
  "simple_decodeNaked bd r =
     (case simple_currentEncodedType bd of
        TNil \<Rightarrow> Some (Naked CNil, r)
      | TBool \<Rightarrow> Some (Naked (CBool (bd = simpleVdTrue)), r)
      | TUint \<Rightarrow> map_option (\<lambda>((ui, _, _), r). (Naked (CUint ui), r)) (simple_decIntAny bd r)
      | TInt \<Rightarrow> map_option (\<lambda>((_, i, _), r). (Naked (CInt i), r)) (simple_decIntAny bd r)
      | TFloat \<Rightarrow> map_option (\<lambda>(f, r). (Naked (CFloat f), r)) (simple_decodeFloat (bd = simpleVdFloat32) bd r)
      | TString \<Rightarrow> map_option (\<lambda>(x, r). (Naked (CString x), r)) (simple_decodeString bd r)
      | TBytes \<Rightarrow> map_option (\<lambda>((_, x), r). (Naked (CBytes (slice_or_nil x)), r)) (simple_decodeBytes None bd r)
      | TExt \<Rightarrow> map_option (\<lambda>((t, x), r). (Naked (CExt t (raw_data x)), r)) (simple_rawExt bd r)
      | TArray \<Rightarrow> Some (NakedArray, r)
      | TMap \<Rightarrow> Some (NakedMap, r)
      | _ \<Rightarrow> None)"

section \<open>The driver\<close>

text \<open>
  A \<open>time.Time\<close> is no builtin type here: it goes through its \<open>MarshalBinary\<close>, a parameter.
\<close>

definition simpleDriver :: "(gotime \<Rightarrow> bytes) \<Rightarrow> (unit, unit) driver" where
  "simpleDriver MarshalBinary =
     \<lparr>writesExt = True, newEnc = (), newDec = (),
      e_nil = [simpleVdNil],
      e_bool = (\<lambda>b. [if b then simpleVdTrue else simpleVdFalse]),
      e_int = simple_encodeInt,
      e_uint = simple_encodeUint,
      e_float32 = (\<lambda>f. simpleVdFloat32 # be_bytes 4 f),
      e_float64 = (\<lambda>f. simpleVdFloat64 # be_bytes 8 f),
      e_ext = simple_encodeExtPreamble,
      e_array = simple_encLen simpleVdArray,
      e_map = simple_encLen simpleVdMap,
      e_string = simple_encodeString,
      e_symbol = (\<lambda>e s. (e, simple_encodeString s)),
      e_bytes = simple_encodeStringBytes,
      e_time = (\<lambda>t. simple_encodeStringBytes (MarshalBinary t)),
      d_nil = (\<lambda>bd. bd = simpleVdNil),
      d_type = simple_currentEncodedType,
      d_naked = (\<lambda>s bd r. unstated (simple_decodeNaked bd r) s),
      d_int = simple_decodeInt,
      d_uint = simple_decodeUint,
      d_float = simple_decodeFloat,
      d_bool = simple_decodeBool,
      d_string = (\<lambda>s bd r. unstated (simple_decodeString bd r) s),
      d_bytes = simple_decodeBytes,
      d_ext = simple_decodeExt,
      d_array = simple_decLen,
      d_map = simple_decLen\<rparr>"

section \<open>What survives\<close>

text \<open>The values that survive, and what they come back as in an \<open>interface{}\<close>.\<close>

fun simple_ok :: "cval \<Rightarrow> bool" where
  "simple_ok (CInt i) = (- (2 ^ 63) \<le> i \<and> i < 2 ^ 63)"
| "simple_ok (CUint n) = (n < 2 ^ 64)"
| "simple_ok (CFloat32 f) = (f < 2 ^ 32 \<and> checkOverflowFloat32 (widen32 f) True)"
| "simple_ok (CFloat f) = (f < 2 ^ 64)"
| "simple_ok (CString s) = (length s < 2 ^ 32)"
| "simple_ok (CBytes x) = (length x < 2 ^ 32)"
| "simple_ok (CExt t (Some x)) = (length x < 2 ^ 32)"
| "simple_ok (CTime t) = False"
| "simple_ok _ = True"

fun simple_see :: "cval \<Rightarrow> cval" where
  "simple_see (CInt i) = (if 0 \<le> i then CUint (nat i) else CInt i)"
| "simple_see (CFloat32 f) = CFloat (widen32 f)"
| "simple_see (CExt t (Some x)) = CExt t (raw_data x)"
| "simple_see v = v"

lemma simple_uint:
  assumes "v < 2 ^ 64"
  obtains b t where "simple_encUint v simpleVdPosInt = b # t" "simple_currentEncodedType b = TUint" "b \<noteq> simpleVdNil"
    "\<And>r. simple_decIntAny b (t @ r) = Some ((v, int64_of v, False), r)"
proof -
  consider "v \<le> 255" | "255 < v" "v \<le> 65535" | "65535 < v" "v \<le> 4294967295" | "4294967295 < v"
    by linarith
  then show ?thesis
    using assms
    by cases (simp_all add: that simple_encUint_def simple_decIntAny_def simple_currentEncodedType_def
        simple_descriptors unat_of_nat_byte)
qed

lemma simple_neg_int:
  assumes "v < 2 ^ 64"
  obtains b t where "simple_encUint v simpleVdNegInt = b # t" "simple_currentEncodedType b = TInt" "b \<noteq> simpleVdNil"
    "\<And>r. simple_decIntAny b (t @ r) = Some ((v, neg64 (int64_of v), True), r)"
proof -
  consider "v \<le> 255" | "255 < v" "v \<le> 65535" | "65535 < v" "v \<le> 4294967295" | "4294967295 < v"
    by linarith
  then show ?thesis
    using assms
    by cases (simp_all add: that simple_encUint_def simple_decIntAny_def simple_currentEncodedType_def
        simple_descriptors unat_of_nat_byte)
qed

text \<open>The five kinds of things that have a length.\<close>

definition simple_sized :: "(byte \<times> valueType) set" where
  "simple_sized = {(simpleVdString, TString), (simpleVdByteArray, TBytes), (simpleVdArray, TArray),
     (simpleVdMap, TMap), (simpleVdExt, TExt)}"

lemma simple_len:
  assumes "n < 2 ^ 32" "(bd, vt) \<in> simple_sized"
  obtains b t where "simple_encLen bd n = b # t" "simple_currentEncodedType b = vt" "b \<noteq> simpleVdNil"
    "\<And>r. simple_decLen b (t @ r) = Some (int n, r)"
proof -
  consider "n = 0" | "0 < n" "n \<le> 255" | "255 < n" "n \<le> 65535" | "65535 < n"
    by linarith
  then show ?thesis
    using assms(1)
    by cases (use assms(2) in \<open>auto simp: that simple_sized_def simple_encLen_def simple_decLen_def
      simple_currentEncodedType_def simple_descriptors unat_of_nat_byte int64_small\<close>)
qed

lemma simple_string:
  assumes "length s < 2 ^ 32"
  obtains b t where "simple_encodeString s = b # t" "simple_currentEncodedType b = TString" "b \<noteq> simpleVdNil"
    "\<And>r. simple_decodeString b (t @ r) = Some (s, r)"
  by (rule simple_len[OF assms, of simpleVdString TString])
    (auto intro!: that simp: simple_sized_def simple_encodeString_def simple_decodeString_def)

lemma simple_bytes:
  assumes "length x < 2 ^ 32"
  obtains b t where "simple_encodeStringBytes x = b # t" "simple_currentEncodedType b = TBytes" "b \<noteq> simpleVdNil"
    "\<And>old r. simple_decodeBytes old b (t @ r) = fill_bytes old (length x) (x @ r)"
  by (rule simple_len[OF assms, of simpleVdByteArray TBytes])
    (auto intro!: that simp: simple_sized_def simple_encodeStringBytes_def simple_decodeBytes_def)

lemma simple_ext:
  assumes "length x < 2 ^ 32"
  obtains b t where "simple_encodeExtPreamble tag (length x) @ x = b # t" "simple_currentEncodedType b = TExt"
    "b \<noteq> simpleVdNil" "\<And>r. simple_rawExt b (t @ r) = Some ((tag, x), r)"
  by (rule simple_len[OF assms, of simpleVdExt TExt])
    (auto intro!: that simp: simple_sized_def simple_encodeExtPreamble_def simple_rawExt_def)

lemma simple_scalar:
  assumes "scalar v" "simple_ok v"
  shows "reads_as (simpleDriver mb) (d_naked (simpleDriver mb)) (encodeScalar (simpleDriver mb) v)
    (Naked (simple_see v))"
proof (cases v)
  case (CInt i)
  show ?thesis
  proof (cases "i < 0")
    case True
    have i: "- (2 ^ 63) \<le> i"
      using assms(2) CInt by simp
    note signed = neg64_back[OF i True]
    have "nat ((- i) mod 2 ^ 64) < 2 ^ 64"
      by (simp add: nat_less_iff)
    then show ?thesis
      by (rule simple_neg_int) (use True signed in \<open>simp add: reads_as_def CInt simpleDriver_def simple_encodeInt_def
        simple_decodeNaked_def unstated_def\<close>)
  next
    case False
    have "nat i < 2 ^ 64"
      using assms(2) CInt False by (simp add: nat_less_iff)
    then show ?thesis
      by (rule simple_uint) (use False in \<open>simp add: reads_as_def CInt simpleDriver_def simple_encodeInt_def
        simple_decodeNaked_def unstated_def\<close>)
  qed
next
  case (CUint n)
  have "n < 2 ^ 64"
    using assms(2) CUint by simp
  then show ?thesis
    by (rule simple_uint) (simp add: reads_as_def CUint simpleDriver_def simple_encodeUint_def
      simple_decodeNaked_def unstated_def)
next
  case (CString x)
  have "length x < 2 ^ 32"
    using assms(2) CString by simp
  then show ?thesis
    by (rule simple_string) (simp add: reads_as_def CString simpleDriver_def simple_decodeNaked_def unstated_def)
next
  case (CBytes x)
  have "length x < 2 ^ 32"
    using assms(2) CBytes by simp
  then show ?thesis
    by (rule simple_bytes) (simp add: reads_as_def CBytes simpleDriver_def simple_decodeNaked_def unstated_def
      fill_bytes_nil)
next
  case (CExt t y)
  then obtain x where x: "y = Some x" "length x < 2 ^ 32"
    using assms by (cases y) auto
  show ?thesis
    by (rule simple_ext[OF x(2), of t]) (simp add: reads_as_def CExt x(1) simpleDriver_def simple_decodeNaked_def
      unstated_def)
qed (use assms in \<open>simp_all add: reads_as_def simpleDriver_def simple_decodeNaked_def simple_currentEncodedType_def
  simple_decodeFloat_def simple_descriptors unstated_def checkOverflowFloat32_def\<close>)

lemma simple_int:
  assumes "simple_ok (CInt i)"
  shows "reads_as (simpleDriver mb) (\<lambda>s bd r. unstated (d_int (simpleDriver mb) 64 bd r) s) (e_int (simpleDriver mb) i) i"
proof (cases "i < 0")
  case True
  have i: "- (2 ^ 63) \<le> i" "checkOverflow 0 i 64"
    using assms True signed_of_neg[of i 64] by (simp_all add: checkOverflow_def)
  note signed = neg64_back[OF i(1) True]
  have "nat ((- i) mod 2 ^ 64) < 2 ^ 64"
    by (simp add: nat_less_iff)
  then show ?thesis
    by (rule simple_neg_int) (use True signed i in \<open>simp add: reads_as_def simpleDriver_def simple_encodeInt_def
      simple_decodeInt_def unstated_def\<close>)
next
  case False
  then have i: "nat i < 2 ^ 64" "nat i < 2 ^ 63"
    using assms by (simp_all add: nat_less_iff)
  have "checkOverflow 0 i 64"
    using False assms by (simp add: checkOverflow_def signed_of_def nat_less_iff)
  then show ?thesis
    using False i(2) by - (rule simple_uint[OF i(1)], simp add: reads_as_def simpleDriver_def simple_encodeInt_def
      simple_decodeInt_def unstated_def int64_small)
qed

lemma simple_unsigned:
  assumes "n < 2 ^ w" "w \<le> 64"
  shows "reads_as (simpleDriver mb) (\<lambda>s bd r. unstated (d_uint (simpleDriver mb) w bd r) s) (e_uint (simpleDriver mb) n) n"
proof -
  have "(2 :: nat) ^ w \<le> 2 ^ 64"
    using assms(2) by (intro power_increasing) simp_all
  then have n: "n < 2 ^ 64" "checkOverflow n 0 w"
    using assms(1) by (simp_all add: checkOverflow_def)
  show ?thesis
    using n(2) by - (rule simple_uint[OF n(1)], simp add: reads_as_def simpleDriver_def simple_encodeUint_def
      simple_decodeUint_def unstated_def)
qed

lemma simple_container:
  assumes "n < 2 ^ 32" "(bd, vt) \<in> simple_sized"
  shows "reads_as (simpleDriver mb) (\<lambda>s bd r. unstated (simple_decLen bd r) s) (simple_encLen bd n) (int n)"
    "simple_currentEncodedType (hd (simple_encLen bd n)) = vt"
  by (rule simple_len[OF assms]; simp add: reads_as_def simpleDriver_def unstated_def)+

lemma simple_shrinks:
  "simple_decIntAny bd r = Some (x, r') \<Longrightarrow> length r' \<le> length r"
  "simple_decLen bd r = Some (n, r') \<Longrightarrow> length r' \<le> length r"
  "fill_bytes old k r = Some (y, r') \<Longrightarrow> length r' \<le> length r"
  by (auto simp: simple_decIntAny_def simple_decLen_def fill_bytes_def Let_def split: if_splits dest!: read_lengths)

lemma simple_reads_shrink:
  "simple_decodeFloat chk bd r = Some (f, r') \<Longrightarrow> length r' \<le> length r"
  "simple_decodeString bd r = Some (s, r') \<Longrightarrow> length r' \<le> length r"
  "simple_decodeBytes old bd r = Some (y, r') \<Longrightarrow> length r' \<le> length r"
  by (auto simp: simple_decodeFloat_def simple_decodeString_def simple_decodeBytes_def split: if_splits option.splits
      dest!: read_lengths simple_shrinks)

lemma simple_rawExt_shrinks: "simple_rawExt bd r = Some (x, r') \<Longrightarrow> length r' \<le> length r"
  by (auto simp: simple_rawExt_def split: option.splits list.splits dest!: read_lengths simple_shrinks)

lemma simple_naked_shrinks: "simple_decodeNaked bd r = Some (v, r') \<Longrightarrow> length r' \<le> length r"
  by (auto simp: simple_decodeNaked_def split: valueType.splits
      dest!: simple_shrinks simple_reads_shrink simple_rawExt_shrinks)

interpretation simple: codec_driver "simpleDriver mb" "2 ^ 32" simple_ok simple_see "\<lambda>n e d. True"
proof (unfold_locales, goal_cases)
  case 1
  show ?case
    by (simp add: simpleDriver_def)
next
  case (2 b)
  show ?case
    by (simp add: reads_as_def simpleDriver_def simple_decodeBool_def simple_descriptors unstated_def)
next
  case (3 i)
  then show ?case
    by (rule simple_int)
next
  case (4 n w)
  then show ?case
    by (rule simple_unsigned)
next
  case (5 x)
  then show ?case
    by (rule simple_string) (simp add: reads_as_def simpleDriver_def unstated_def)
next
  case (6 y)
  show ?case
    by (rule simple_bytes[OF 6(2)]) (simp add: simpleDriver_def)
next
  case (7 n)
  then show ?case
    using simple_container(1)[of n simpleVdArray TArray] by (simp add: simpleDriver_def simple_sized_def)
next
  case (8 n)
  then show ?case
    using simple_container(2)[of n simpleVdArray TArray] by (simp add: simpleDriver_def simple_sized_def)
next
  case (9 n s r)
  then show ?case
    using simple_container(2)[of n simpleVdArray TArray]
    by (simp add: simpleDriver_def simple_sized_def simple_decodeNaked_def unstated_def)
next
  case (10 n)
  then show ?case
    using simple_container(1)[of n simpleVdMap TMap] by (simp add: simpleDriver_def simple_sized_def)
next
  case (11 n)
  then show ?case
    using simple_container(2)[of n simpleVdMap TMap] by (simp add: simpleDriver_def simple_sized_def)
next
  case (12 n s r)
  then show ?case
    using simple_container(2)[of n simpleVdMap TMap]
    by (simp add: simpleDriver_def simple_sized_def simple_decodeNaked_def unstated_def)
next
  case (13 v)
  then show ?case
    by (rule simple_scalar)
next
  case (14 n e d x e' bs)
  then have bs: "bs = simple_encodeString x"
    by (simp add: simpleDriver_def)
  show ?case
    unfolding bs by (rule simple_string[OF 14(2)]) (simp add: simpleDriver_def unstated_def)
next
  case (15 n e d)
  show ?case ..
next
  case (16 s bd r s' w r')
  then show ?case
    using simple_naked_shrinks by (auto simp: simpleDriver_def unstated_def)
next
  case (17 bd r n r')
  then show ?case
    by (auto simp: simpleDriver_def dest: simple_shrinks)
next
  case (18 bd r n r')
  then show ?case
    by (auto simp: simpleDriver_def dest: simple_shrinks)
qed

end
