(* ===== verification/CodecTime.thy ===== *)
theory CodecTime
  imports Driver
begin

text \<open>
  Times on the wire, \<open>time.go\<close>: seconds, nanoseconds and the offset of the zone, each without the leading
  bytes that repeat its sign (\<open>pruneSignExt\<close> of \<open>helper_internal.go\<close>).
\<close>

section \<open>Leading sign bytes\<close>

text \<open>How many leading bytes can go: zeros for a positive number, ones for a negative one.\<close>

definition sign_byte :: "bool \<Rightarrow> byte" where
  "sign_byte pos = (if pos then 0 else 0xff)"

fun pruneSignExt :: "bytes \<Rightarrow> bool \<Rightarrow> nat" where
  "pruneSignExt (x # y # v) pos =
     (if x = sign_byte pos \<and> (y AND 0x80 = 0) = pos then Suc (pruneSignExt (y # v) pos) else 0)"
| "pruneSignExt _ pos = 0"

lemma prune_less: "v \<noteq> [] \<Longrightarrow> pruneSignExt v pos < length v"
  by (induction v pos rule: pruneSignExt.induct) auto

lemma prune_split: "replicate (pruneSignExt v pos) (sign_byte pos) @ drop (pruneSignExt v pos) v = v"
  by (induction v pos rule: pruneSignExt.induct) auto

text \<open>What is left of a number that lost a byte begins with a bit of its sign.\<close>

lemma prune_sign:
  "0 < pruneSignExt v pos \<Longrightarrow> (hd (drop (pruneSignExt v pos) v) AND 0x80 = 0) = pos"
proof (induction v pos rule: pruneSignExt.induct)
  case (1 x y v pos)
  then show ?case
    by (cases "pruneSignExt (y # v) pos") (auto split: if_splits)
qed auto

section \<open>The encoder\<close>

definition secs_part :: "int \<Rightarrow> byte \<times> bytes" where
  "secs_part s =
     (if s = 0 then (0, [])
      else let v = be_bytes 8 (nat (s mod 2 ^ 64)); f = pruneSignExt v (0 \<le> s)
           in (0x80 OR push_bit 2 (of_nat (7 - f)), drop f v))"

definition nsecs_part :: "nat \<Rightarrow> byte \<times> bytes" where
  "nsecs_part n =
     (if n = 0 then (0, [])
      else let v = be_bytes 4 n; f = pruneSignExt v True
           in (0x40 OR of_nat (3 - f), drop f v))"

text \<open>Minutes, cut towards zero; the two bits for daylight saving are cleared.\<close>

definition zone_minutes :: "int \<Rightarrow> int" where
  "zone_minutes off = (if off < 0 then - ((- off) div 60) else off div 60)"

definition zone_part :: "int option \<Rightarrow> byte \<times> bytes" where
  "zone_part z =
     (case z of
        None \<Rightarrow> (0, [])
      | Some off \<Rightarrow>
          (case be_bytes 2 (nat (zone_minutes off mod 2 ^ 16)) of
             [x, y] \<Rightarrow> (0x20, [x AND 0x3f, y])
           | _ \<Rightarrow> (0, [])))"

definition encodeTime :: "gotime \<Rightarrow> bytes" where
  "encodeTime t =
     (let (a, s) = secs_part (tsecs t); (b, n) = nsecs_part (tnsecs t); (c, z) = zone_part (zoneOffset t)
      in (a OR b OR c) # s @ n @ z)"

section \<open>The decoder\<close>

text \<open>Slicing and indexing out of range panic, here \<open>None\<close>.\<close>

definition decode_secs :: "byte \<Rightarrow> bytes \<Rightarrow> (int \<times> bytes) option" where
  "decode_secs bd bs =
     (if bd AND 0x80 = 0 then Some (0, bs)
      else let n = unat (drop_bit 2 bd AND 0x7) + 1
           in map_option (\<lambda>(x, r).
                (int64_of (be_nat (replicate (8 - n) (sign_byte (hd x AND 0x80 = 0)) @ x)), r)) (readn n bs))"

definition decode_nsecs :: "byte \<Rightarrow> bytes \<Rightarrow> (nat \<times> bytes) option" where
  "decode_nsecs bd bs =
     (if bd AND 0x40 = 0 then Some (0, bs)
      else let n = unat (bd AND 0x3) + 1
           in map_option (\<lambda>(x, r). (be_nat (replicate (4 - n) 0 @ x), r)) (readn n bs))"

definition tz_minutes :: "nat \<Rightarrow> int" where
  "tz_minutes tz = signed_of 16 (if tz AND 0x2000 = 0 then tz AND 0x3fff else tz OR 0xc000)"

definition decode_zone :: "byte \<Rightarrow> bytes \<Rightarrow> int option option" where
  "decode_zone bd bs =
     (if bd AND 0x20 = 0 then Some None
      else map_option (\<lambda>(tz, _).
             if tz_minutes tz = 0 then None else Some (tz_minutes tz * 60)) (read_be 2 bs))"

text \<open>\<open>time.Unix\<close> carries whole seconds over.\<close>

definition time_Unix :: "int \<Rightarrow> nat \<Rightarrow> int option \<Rightarrow> gotime" where
  "time_Unix s n z =
     \<lparr>tsecs = signed_of 64 (nat ((s + int (n div 1000000000)) mod 2 ^ 64)), tnsecs = n mod 1000000000,
      zoneOffset = z\<rparr>"

definition decodeTime :: "bytes \<Rightarrow> gotime option" where
  "decodeTime bs =
     (case bs of
        [] \<Rightarrow> None
      | bd # r \<Rightarrow>
          (case decode_secs bd r of
             None \<Rightarrow> None
           | Some (s, r) \<Rightarrow>
               (case decode_nsecs bd r of
                  None \<Rightarrow> None
                | Some (n, r) \<Rightarrow> map_option (time_Unix s n) (decode_zone bd r))))"

section \<open>What survives\<close>

definition wf_time :: "gotime \<Rightarrow> bool" where
  "wf_time t \<longleftrightarrow> - (2 ^ 63) \<le> tsecs t \<and> tsecs t < 2 ^ 63 \<and> tnsecs t < 1000000000 \<and>
     (\<forall>off. zoneOffset t = Some off \<longrightarrow> \<bar>off\<bar> < 8192 * 60)"

text \<open>The zone comes back in whole minutes, and one of less than a minute as UTC.\<close>

definition seen_time :: "gotime \<Rightarrow> gotime" where
  "seen_time t = t\<lparr>zoneOffset := (case zoneOffset t of None \<Rightarrow> None
     | Some off \<Rightarrow> if zone_minutes off = 0 then None else Some (zone_minutes off * 60))\<rparr>"

lemma or_above: "take_bit k a OR push_bit k b = take_bit k a + push_bit k (b :: nat)"
  by (rule disjunctive_add_eq_or[symmetric]) (rule bit_eqI, simp add: bit_simps)

lemma zone_bits:
  assumes "- 8192 \<le> m" "m < 8192" "n = nat (m mod 2 ^ 16) mod 16384"
  shows "tz_minutes n = m"
proof -
  have b: "n AND 0x2000 = 0 \<longleftrightarrow> even (n div 8192)"
    using and_exp_eq_0_iff_not_bit[of n 13] by (simp add: bit_iff_odd)
  have n: "n < 16384"
    using assms(3) by simp
  have lo: "n AND 0x3fff = n"
    using n take_bit_eq_mask[of 14 n] by (simp add: take_bit_eq_mod mask_eq_exp_minus_1)
  have hi: "n OR 0xc000 = n + 49152"
    using or_above[of 14 n 3] n by (simp add: push_bit_eq_mult take_bit_eq_mod)
  show ?thesis
  proof (cases "0 \<le> m")
    case True
    then have "n = nat m" "n < 8192"
      using assms by (simp_all add: nat_less_iff)
    then show ?thesis
      using True b lo by (simp add: tz_minutes_def signed_of_def)
  next
    case False
    then have "nat (m mod 2 ^ 16) = nat (m + 65536)"
      using nat_mod_neg[of m 16] assms(1) by simp
    moreover define k where "k = nat (m + 8192)"
    ultimately have k: "nat (m mod 2 ^ 16) = k + 57344" "k < 8192" "m = int k - 8192"
      using False assms(1) by simp_all
    have "n = (k + 57344) mod 16384"
      using assms(3) k(1) by (simp only:)
    also have "k + 57344 = (k + 8192) + 3 * 16384"
      by simp
    finally have "n = k + 8192"
      using k(2) by (simp only: mod_mult_self1) simp
    then show ?thesis
      using k b hi by (simp add: tz_minutes_def signed_of_def)
  qed
qed

text \<open>The descriptor byte keeps its three parts apart.\<close>

definition secs_flags :: "(byte \<times> nat option) list" where
  "secs_flags = (0, None) # map (\<lambda>k. (0x80 OR push_bit 2 (of_nat k), Some k)) [0..<8]"

definition nsecs_flags :: "(byte \<times> nat option) list" where
  "nsecs_flags = (0, None) # map (\<lambda>k. (0x40 OR of_nat k, Some k)) [0..<4]"

lemma flags_apart:
  "\<forall>(a, k)\<in>set secs_flags. \<forall>(b, j)\<in>set nsecs_flags. \<forall>(c, z)\<in>set [(0, False), (0x20, True)].
     let bd = a OR b OR c
     in (bd AND 0x80 = 0) = (k = None) \<and> (bd AND 0x40 = 0) = (j = None) \<and> (bd AND 0x20 = 0) = (\<not> z) \<and>
        (k \<noteq> None \<longrightarrow> unat (drop_bit 2 bd AND 0x7) = the k) \<and> (j \<noteq> None \<longrightarrow> unat (bd AND 0x3) = the j)"
  by code_simp

lemma secs_read:
  assumes "- (2 ^ 63) \<le> i" "i < 2 ^ 63" "secs_part i = (a, x)"
  obtains k where "(a, k) \<in> set secs_flags"
    "\<And>bd r. (bd AND 0x80 = 0) = (k = None) \<Longrightarrow> (k \<noteq> None \<Longrightarrow> unat (drop_bit 2 bd AND 0x7) = the k) \<Longrightarrow>
      decode_secs bd (x @ r) = Some (i, r)"
proof (cases "i = 0")
  case True
  then show ?thesis
    using assms(3) by (intro that[of None]) (auto simp: secs_part_def secs_flags_def decode_secs_def)
next
  case False
  define v where "v = be_bytes 8 (nat (i mod 2 ^ 64))"
  define f where "f = pruneSignExt v (0 \<le> i)"
  have "signed_of 64 (nat (i mod 2 ^ 64)) = i"
    using assms(1,2) signed_of_neg[of i 64] by (cases "i < 0") (simp_all add: signed_of_def nat_less_iff)
  moreover have "nat (i mod 2 ^ 64) < 2 ^ 64"
    by (simp add: nat_less_iff)
  ultimately have v: "length v = 8" "v \<noteq> []" "int64_of (be_nat v) = i"
    by (auto simp: v_def int64_of_def simp flip: length_0_conv)
  have f: "f < 8" "replicate f (sign_byte (0 \<le> i)) @ drop f v = v"
    using prune_less[of v "0 \<le> i"] prune_split[of v "0 \<le> i"] v(1,2) by (auto simp: f_def)
  have ax: "a = 0x80 OR push_bit 2 (of_nat (7 - f))" "x = drop f v"
    using assms(3) False by (simp_all add: secs_part_def f_def v_def Let_def)
  have s: "replicate f (sign_byte (hd x AND 0x80 = 0)) @ x = v"
  proof (cases "f = 0")
    case False
    then show ?thesis
      using prune_sign[of v "0 \<le> i"] f(2) by (simp add: f_def ax(2))
  qed (use ax in simp)
  show ?thesis
  proof (rule that[of "Some (7 - f)"])
    show "(a, Some (7 - f)) \<in> set secs_flags"
      by (auto simp: secs_flags_def ax(1))
    fix bd r
    assume bd: "((bd :: byte) AND 0x80 = 0) = (Some (7 - f) = None)"
      "Some (7 - f) \<noteq> None \<Longrightarrow> unat (drop_bit 2 bd AND 0x7) = the (Some (7 - f))"
    have "length x = 7 - f + 1"
      using v(1) f(1) ax(2) by simp
    then have "readn (7 - f + 1) (x @ r) = Some (x, r)"
      by simp
    moreover have "8 - (7 - f + 1) = f"
      using f(1) by simp
    ultimately show "decode_secs bd (x @ r) = Some (i, r)"
      using bd v(3) s by (simp add: decode_secs_def)
  qed
qed

lemma nsecs_read:
  assumes "n < 2 ^ 32" "nsecs_part n = (b, x)"
  obtains k where "(b, k) \<in> set nsecs_flags"
    "\<And>bd r. (bd AND 0x40 = 0) = (k = None) \<Longrightarrow> (k \<noteq> None \<Longrightarrow> unat (bd AND 0x3) = the k) \<Longrightarrow>
      decode_nsecs bd (x @ r) = Some (n, r)"
proof (cases "n = 0")
  case True
  then show ?thesis
    using assms(2) by (intro that[of None]) (auto simp: nsecs_part_def nsecs_flags_def decode_nsecs_def)
next
  case False
  define v where "v = be_bytes 4 n"
  define f where "f = pruneSignExt v True"
  have v: "length v = 4" "be_nat v = n"
    using assms(1) by (simp_all add: v_def)
  have "v \<noteq> []"
    using v(1) by auto
  then have f: "f < 4" "replicate f 0 @ drop f v = v"
    using prune_less[of v True] prune_split[of v True] v(1) by (auto simp: f_def sign_byte_def)
  have bx: "b = 0x40 OR of_nat (3 - f)" "x = drop f v"
    using assms(2) False by (simp_all add: nsecs_part_def f_def v_def Let_def)
  show ?thesis
  proof (rule that[of "Some (3 - f)"])
    show "(b, Some (3 - f)) \<in> set nsecs_flags"
      by (auto simp: nsecs_flags_def bx(1))
    fix bd r
    assume bd: "((bd :: byte) AND 0x40 = 0) = (Some (3 - f) = None)"
      "Some (3 - f) \<noteq> None \<Longrightarrow> unat (bd AND 0x3) = the (Some (3 - f))"
    have "length x = 3 - f + 1"
      using v(1) f(1) bx(2) by simp
    then have "readn (3 - f + 1) (x @ r) = Some (x, r)"
      by simp
    moreover have "4 - (3 - f + 1) = f"
      using f(1) by simp
    ultimately show "decode_nsecs bd (x @ r) = Some (n, r)"
      using bd v(2) f(2) bx(2) by (simp add: decode_nsecs_def)
  qed
qed

lemma zone_read:
  assumes "\<forall>off. z = Some off \<longrightarrow> \<bar>off\<bar> < 8192 * 60" "zone_part z = (c, x)"
  obtains k where "(c, k) \<in> set [(0, False), (0x20, True)]"
    "\<And>bd r. (bd AND 0x20 = 0) = (\<not> k) \<Longrightarrow> decode_zone bd (x @ r) =
      Some (case z of None \<Rightarrow> None | Some off \<Rightarrow> if zone_minutes off = 0 then None else Some (zone_minutes off * 60))"
proof (cases z)
  case None
  then show ?thesis
    using assms(2) by (intro that[of False]) (auto simp: zone_part_def decode_zone_def)
next
  case (Some off)
  define m where "m = zone_minutes off"
  have m: "- 8192 \<le> m" "m < 8192"
    using assms(1) Some unfolding m_def zone_minutes_def by auto
  define n where "n = nat (m mod 2 ^ 16)"
  have n: "n < 65536"
    by (simp add: n_def nat_less_iff)
  obtain a b where ab: "be_bytes 2 n = [a, b]" "unat a = n div 256" "unat b = n mod 256"
    using n by (simp add: be_bytes_def numeral_2_eq_2 unat_of_nat_byte)
  have "unat (a AND 0x3f) = unat a mod 64"
    using take_bit_eq_mask[of 6 "unat a"] by (simp add: unsigned_and_eq take_bit_eq_mod mask_eq_exp_minus_1)
  then have be: "be_nat [a AND 0x3f, b] = n mod 16384"
    using ab(2,3) mod_mult2_eq[of n 256 64] by (simp add: be_nat_def)
  define q where "q = n mod 16384"
  have q: "read_be 2 ([a AND 0x3f, b] @ r) = Some (q, r)" "tz_minutes q = m" for r
    using be zone_bits[OF m, of q] by (simp_all add: q_def n_def read_be_def readn_def)
  have cx: "c = 0x20" "x = [a AND 0x3f, b]"
    using assms(2) Some ab(1) by (simp_all add: zone_part_def n_def m_def)
  show ?thesis
  proof (rule that[of True])
    fix bd r
    assume "(bd AND (0x20 :: byte) = 0) = (\<not> True)"
    then show "decode_zone bd (x @ r) =
      Some (case z of None \<Rightarrow> None | Some off \<Rightarrow> if zone_minutes off = 0 then None else Some (zone_minutes off * 60))"
      by (simp add: decode_zone_def cx(2) Some q[simplified] flip: m_def)
  qed (simp add: cx(1))
qed

lemma flags_bits:
  assumes "(a, k) \<in> set secs_flags" "(b, j) \<in> set nsecs_flags" "(c, z) \<in> set [(0, False), (0x20, True)]"
    "bd = a OR b OR c"
  shows "(bd AND 0x80 = 0) = (k = None)" "(bd AND 0x40 = 0) = (j = None)" "(bd AND 0x20 = 0) = (\<not> z)"
    "k \<noteq> None \<Longrightarrow> unat (drop_bit 2 bd AND 0x7) = the k" "j \<noteq> None \<Longrightarrow> unat (bd AND 0x3) = the j"
  using bspec[OF bspec[OF bspec[OF flags_apart assms(1), unfolded prod.case] assms(2), unfolded prod.case] assms(3)]
  unfolding assms(4) Let_def prod.case by blast+

lemma time_Unix_same:
  assumes "wf_time t"
  shows "time_Unix (tsecs t) (tnsecs t) z = t\<lparr>zoneOffset := z\<rparr>"
proof -
  have "signed_of 64 (nat (tsecs t mod 2 ^ 64)) = tsecs t"
    using assms signed_of_neg[of "tsecs t" 64]
    by (cases "tsecs t < 0") (simp_all add: wf_time_def signed_of_def nat_less_iff)
  then show ?thesis
    using assms by (simp add: time_Unix_def wf_time_def)
qed

text \<open>
  A time comes back as the same instant, in a zone of the same offset in whole minutes.
\<close>

theorem time_roundtrip:
  assumes "wf_time t"
  shows "decodeTime (encodeTime t) = Some (seen_time t)"
proof -
  obtain a s b n c z where p: "secs_part (tsecs t) = (a, s)" "nsecs_part (tnsecs t) = (b, n)"
    "zone_part (zoneOffset t) = (c, z)"
    by (cases "secs_part (tsecs t)"; cases "nsecs_part (tnsecs t)"; cases "zone_part (zoneOffset t)") blast
  have w: "- (2 ^ 63) \<le> tsecs t" "tsecs t < 2 ^ 63" "tnsecs t < 2 ^ 32" "tnsecs t < 1000000000"
    "\<forall>off. zoneOffset t = Some off \<longrightarrow> \<bar>off\<bar> < 8192 * 60"
    using assms by (simp_all add: wf_time_def)
  obtain i where i: "(a, i) \<in> set secs_flags" "\<And>bd r. (bd AND 0x80 = 0) = (i = None) \<Longrightarrow>
      (i \<noteq> None \<Longrightarrow> unat (drop_bit 2 bd AND 0x7) = the i) \<Longrightarrow> decode_secs bd (s @ r) = Some (tsecs t, r)"
    by (rule secs_read[OF w(1,2) p(1)]) blast
  obtain j where j: "(b, j) \<in> set nsecs_flags" "\<And>bd r. (bd AND 0x40 = 0) = (j = None) \<Longrightarrow>
      (j \<noteq> None \<Longrightarrow> unat (bd AND 0x3) = the j) \<Longrightarrow> decode_nsecs bd (n @ r) = Some (tnsecs t, r)"
    by (rule nsecs_read[OF w(3) p(2)]) blast
  obtain k where k: "(c, k) \<in> set [(0, False), (0x20, True)]" "\<And>bd r. (bd AND 0x20 = 0) = (\<not> k) \<Longrightarrow>
      decode_zone bd (z @ r) = Some (case zoneOffset t of None \<Rightarrow> None
        | Some off \<Rightarrow> if zone_minutes off = 0 then None else Some (zone_minutes off * 60))"
    by (rule zone_read[OF w(5) p(3)]) blast
  define bd where "bd = a OR b OR c"
  note bits = flags_bits[OF i(1) j(1) k(1) bd_def]
  have "decodeTime (bd # s @ n @ z) = Some (time_Unix (tsecs t) (tnsecs t) (zoneOffset (seen_time t)))"
  proof -
    have "decode_secs bd (s @ n @ z) = Some (tsecs t, n @ z)"
      using bits(4) by (rule i(2)[OF bits(1)])
    moreover have "decode_nsecs bd (n @ z) = Some (tnsecs t, z)"
      using bits(5) by (rule j(2)[OF bits(2)])
    ultimately show ?thesis
      using k(2)[OF bits(3), of "[]"] by (simp add: decodeTime_def seen_time_def)
  qed
  moreover have "encodeTime t = bd # s @ n @ z"
    by (simp add: encodeTime_def p bd_def)
  ultimately show ?thesis
    using time_Unix_same[OF assms, of "zoneOffset (seen_time t)"] by (simp add: seen_time_def)
qed

end
