(* ===== verification/BincDriver.thy ===== *)
theory BincDriver
  imports DriverProps CodecTime
begin

text \<open>
  The binc format of \<open>binc.go\<close>, the one with symbols: a string that was sent once is sent as a number
  afterwards, so encoder and decoder have a state.
\<close>

section \<open>Descriptors\<close>

definition bincVdSpecial :: byte where "bincVdSpecial = 0"
definition bincVdPosInt :: byte where "bincVdPosInt = 1"
definition bincVdNegInt :: byte where "bincVdNegInt = 2"
definition bincVdFloat :: byte where "bincVdFloat = 3"
definition bincVdString :: byte where "bincVdString = 4"
definition bincVdByteArray :: byte where "bincVdByteArray = 5"
definition bincVdArray :: byte where "bincVdArray = 6"
definition bincVdMap :: byte where "bincVdMap = 7"
definition bincVdTimestamp :: byte where "bincVdTimestamp = 8"
definition bincVdSmallInt :: byte where "bincVdSmallInt = 9"
definition bincVdSymbol :: byte where "bincVdSymbol = 11"
definition bincVdCustomExt :: byte where "bincVdCustomExt = 15"

definition bincSpNil :: byte where "bincSpNil = 0"
definition bincSpFalse :: byte where "bincSpFalse = 1"
definition bincSpTrue :: byte where "bincSpTrue = 2"
definition bincSpNan :: byte where "bincSpNan = 3"
definition bincSpPosInf :: byte where "bincSpPosInf = 4"
definition bincSpNegInf :: byte where "bincSpNegInf = 5"
definition bincSpZeroFloat :: byte where "bincSpZeroFloat = 6"
definition bincSpZero :: byte where "bincSpZero = 7"
definition bincSpNegOne :: byte where "bincSpNegOne = 8"

definition bincFlBin32 :: byte where "bincFlBin32 = 1"
definition bincFlBin64 :: byte where "bincFlBin64 = 3"

lemmas binc_descriptors = bincVdSpecial_def bincVdPosInt_def bincVdNegInt_def bincVdFloat_def bincVdString_def
  bincVdByteArray_def bincVdArray_def bincVdMap_def bincVdTimestamp_def bincVdSmallInt_def bincVdSymbol_def
  bincVdCustomExt_def bincSpNil_def bincSpFalse_def bincSpTrue_def bincSpNan_def bincSpPosInf_def
  bincSpNegInf_def bincSpZeroFloat_def bincSpZero_def bincSpNegOne_def bincFlBin32_def bincFlBin64_def

text \<open>The value's kind in the high four bits of the descriptor, and a detail in the low ones.\<close>

definition vd :: "byte \<Rightarrow> byte" where
  "vd bd = drop_bit 4 bd"

definition vs :: "byte \<Rightarrow> byte" where
  "vs bd = bd AND 0x0f"

section \<open>The encoder\<close>

definition binc_special :: "byte \<Rightarrow> bytes" where
  "binc_special sp = [push_bit 4 bincVdSpecial OR sp]"

definition binc_encodeFloat32 :: "nat \<Rightarrow> bytes" where
  "binc_encodeFloat32 f =
     (if f = 0 \<or> f = 2 ^ 31 then binc_special bincSpZeroFloat
      else (push_bit 4 bincVdFloat OR bincFlBin32) # be_bytes 4 f)"

text \<open>Trailing zero bytes are left out where that saves some.\<close>

definition strip_zero_bytes :: "bytes \<Rightarrow> bytes" where
  "strip_zero_bytes bs = rev (dropWhile (\<lambda>b. b = 0) (rev bs))"

definition binc_encodeFloat64 :: "nat \<Rightarrow> bytes" where
  "binc_encodeFloat64 f =
     (if f = 0 \<or> f = 2 ^ 63 then binc_special bincSpZeroFloat
      else let b = be_bytes 8 f; p = strip_zero_bytes b
           in if length p \<le> 6
              then [push_bit 4 bincVdFloat OR 0x8 OR bincFlBin64, of_nat (length p)] @ p
              else (push_bit 4 bincVdFloat OR bincFlBin64) # b)"

definition binc_encIntegerPrune :: "byte \<Rightarrow> bool \<Rightarrow> nat \<Rightarrow> nat \<Rightarrow> bytes" where
  "binc_encIntegerPrune bd pos v width =
     (let b = be_bytes width v; i = pruneSignExt b pos
      in ((bd OR of_nat width) - 1 - of_nat i) # drop i b)"

definition binc_encUint :: "byte \<Rightarrow> bool \<Rightarrow> nat \<Rightarrow> bytes" where
  "binc_encUint bd pos v =
     (if v = 0 then binc_special bincSpZero
      else if pos \<and> 1 \<le> v \<and> v \<le> 16 then [push_bit 4 bincVdSmallInt OR of_nat (v - 1)]
      else if v \<le> 255 then [bd OR 0x0, of_nat v]
      else if v \<le> 65535 then (bd OR 0x01) # be_bytes 2 v
      else if v \<le> 4294967295 then binc_encIntegerPrune bd pos v 4
      else binc_encIntegerPrune bd pos v 8)"

definition binc_encodeInt :: "int \<Rightarrow> bytes" where
  "binc_encodeInt v =
     (if 0 \<le> v then binc_encUint (push_bit 4 bincVdPosInt) True (nat v)
      else if v = - 1 then binc_special bincSpNegOne
      else binc_encUint (push_bit 4 bincVdNegInt) False (nat ((- v) mod 2 ^ 64)))"

definition binc_encodeUint :: "nat \<Rightarrow> bytes" where
  "binc_encodeUint v = binc_encUint (push_bit 4 bincVdPosInt) True v"

definition binc_encLenNumber :: "byte \<Rightarrow> nat \<Rightarrow> bytes" where
  "binc_encLenNumber bd v =
     (if v \<le> 255 then [bd, of_nat v]
      else if v \<le> 65535 then (bd OR 0x01) # be_bytes 2 v
      else if v \<le> 4294967295 then (bd OR 0x02) # be_bytes 4 v
      else (bd OR 0x03) # be_bytes 8 v)"

definition binc_encLen :: "byte \<Rightarrow> nat \<Rightarrow> bytes" where
  "binc_encLen bd l = (if l < 12 then [bd OR of_nat (l + 4)] else binc_encLenNumber bd l)"

definition binc_encodeExtPreamble :: "byte \<Rightarrow> nat \<Rightarrow> bytes" where
  "binc_encodeExtPreamble xtag l = binc_encLen (push_bit 4 bincVdCustomExt) l @ [xtag]"

definition binc_encodeString :: "string \<Rightarrow> bytes" where
  "binc_encodeString v = binc_encLen (push_bit 4 bincVdString) (length v) @ str_bytes v"

definition binc_encodeStringBytes :: "bytes \<Rightarrow> bytes" where
  "binc_encodeStringBytes v = binc_encLen (push_bit 4 bincVdByteArray) (length v) @ v"

text \<open>
  The symbols with their numbers, which are \<open>uint16\<close>, and the \<open>uint32\<close> the numbers come from.
\<close>

record binc_enc =
  enc_m :: "string \<rightharpoonup> nat"
  enc_s :: nat

definition lenprec :: "nat \<Rightarrow> byte" where
  "lenprec l = (if l \<le> 255 then 0 else if l \<le> 65535 then 1 else if l \<le> 4294967295 then 2 else 3)"

definition binc_encodeSymbol :: "binc_enc \<Rightarrow> string \<Rightarrow> binc_enc \<times> bytes" where
  "binc_encodeSymbol e v =
     (let l = length v in
      if l \<le> 1 then (e, binc_encodeString v)
      else case enc_m e v of
        Some ui \<Rightarrow>
          (e, if ui \<le> 255 then [push_bit 4 bincVdSymbol, of_nat ui]
              else (push_bit 4 bincVdSymbol OR 0x8) # be_bytes 2 ui)
      | None \<Rightarrow>
          (let s = (enc_s e + 1) mod 2 ^ 32;
               ui = s mod 2 ^ 16;
               symbol = (if ui \<le> 255 then [push_bit 4 bincVdSymbol OR 0x0 OR 0x4 OR lenprec l, of_nat ui]
                 else (push_bit 4 bincVdSymbol OR 0x8 OR 0x4 OR lenprec l) # be_bytes 2 ui);
               len = be_bytes (if lenprec l = 0 then 1 else if lenprec l = 1 then 2 else if lenprec l = 2 then 4 else 8) l
           in (e\<lparr>enc_m := (enc_m e)(v \<mapsto> ui), enc_s := s\<rparr>, symbol @ len @ str_bytes v)))"

definition binc_encodeBuiltin :: "gotime \<Rightarrow> bytes" where
  "binc_encodeBuiltin t =
     (let bs = encodeTime t in (push_bit 4 bincVdTimestamp OR of_nat (length bs)) # bs)"

section \<open>The decoder\<close>

definition binc_currentEncodedType :: "byte \<Rightarrow> valueType" where
  "binc_currentEncodedType bd =
     (if vd bd = bincVdSpecial then
        (if vs bd = bincSpNil then TNil
         else if vs bd = bincSpFalse \<or> vs bd = bincSpTrue then TBool
         else if vs bd = bincSpNan \<or> vs bd = bincSpNegInf \<or> vs bd = bincSpPosInf \<or> vs bd = bincSpZeroFloat then TFloat
         else if vs bd = bincSpZero then TUint
         else if vs bd = bincSpNegOne then TInt
         else TBad)
      else if vd bd = bincVdSmallInt then TUint
      else if vd bd = bincVdPosInt then TUint
      else if vd bd = bincVdNegInt then TInt
      else if vd bd = bincVdFloat then TFloat
      else if vd bd = bincVdString then TString
      else if vd bd = bincVdSymbol then TSymbol
      else if vd bd = bincVdByteArray then TBytes
      else if vd bd = bincVdTimestamp then TTimestamp
      else if vd bd = bincVdCustomExt then TExt
      else if vd bd = bincVdArray then TArray
      else if vd bd = bincVdMap then TMap
      else TBad)"

text \<open>The bytes of a float, from \<open>d.b\<close>, which is filled up with zeros.\<close>

definition binc_decFloatPre :: "byte \<Rightarrow> nat \<Rightarrow> bytes \<Rightarrow> (bytes \<times> bytes) option" where
  "binc_decFloatPre v defaultLen r =
     (if v AND 0x8 = 0 then readn defaultLen r
      else case r of
        [] \<Rightarrow> None
      | l # r \<Rightarrow>
          if 8 < l then None
          else map_option (\<lambda>(x, r). (take defaultLen (x @ replicate (8 - unat l) 0), r)) (readn (unat l) r))"

definition binc_decFloat :: "nat reader" where
  "binc_decFloat bd r =
     (if vs bd AND 0x7 = bincFlBin32 then map_option (\<lambda>(x, r). (widen32 (be_nat x), r)) (binc_decFloatPre (vs bd) 4 r)
      else if vs bd AND 0x7 = bincFlBin64 then map_option (\<lambda>(x, r). (be_nat x, r)) (binc_decFloatPre (vs bd) 8 r)
      else None)"

text \<open>\<open>vs + 1\<close> bytes, right-aligned in \<open>d.b\<close>.\<close>

definition binc_decUint :: "nat reader" where
  "binc_decUint bd r = (if vs bd \<le> 7 then read_be (unat (vs bd) + 1) r else None)"

definition binc_decIntAny :: "byte \<Rightarrow> bytes \<Rightarrow> ((nat \<times> int \<times> bool) \<times> bytes) option" where
  "binc_decIntAny bd r =
     (if vd bd = bincVdPosInt then map_option (\<lambda>(ui, r). ((ui, int64_of ui, False), r)) (binc_decUint bd r)
      else if vd bd = bincVdNegInt then map_option (\<lambda>(ui, r). ((ui, neg64 (int64_of ui), True), r)) (binc_decUint bd r)
      else if vd bd = bincVdSmallInt then Some ((unat (vs bd) + 1, int (unat (vs bd)) + 1, False), r)
      else if vd bd = bincVdSpecial then
        (if vs bd = bincSpZero then Some ((0, 0, False), r)
         else if vs bd = bincSpNegOne then Some ((1, - 1, True), r)
         else None)
      else None)"

definition binc_decodeInt :: "nat \<Rightarrow> int reader" where
  "binc_decodeInt bitsize bd r =
     (case binc_decIntAny bd r of
        None \<Rightarrow> None
      | Some ((_, i, _), r) \<Rightarrow> if checkOverflow 0 i bitsize then Some (i, r) else None)"

definition binc_decodeUint :: "nat \<Rightarrow> nat reader" where
  "binc_decodeUint bitsize bd r =
     (case binc_decIntAny bd r of
        None \<Rightarrow> None
      | Some ((ui, _, neg), r) \<Rightarrow>
          if neg then None else if checkOverflow ui 0 bitsize then Some (ui, r) else None)"

text \<open>The bits of \<open>math.NaN()\<close> and of the infinities.\<close>

definition nan_bits :: nat where "nan_bits = 0x7FF8000000000001"
definition inf_bits :: "bool \<Rightarrow> nat" where
  "inf_bits neg = (if neg then 0xFFF0000000000000 else 0x7FF0000000000000)"

definition binc_decodeFloat :: "bool \<Rightarrow> nat reader" where
  "binc_decodeFloat chkOverflow32 bd r =
     (if vd bd = bincVdSpecial then
        (if vs bd = bincSpNan then Some (nan_bits, r)
         else if vs bd = bincSpPosInf then Some (inf_bits False, r)
         else if vs bd = bincSpZeroFloat \<or> vs bd = bincSpZero then Some (0, r)
         else if vs bd = bincSpNegInf then Some (inf_bits True, r)
         else None)
      else case (if vd bd = bincVdFloat then binc_decFloat bd r
          else map_option (\<lambda>((_, i, _), r). (float64_of i, r)) (binc_decIntAny bd r)) of
        None \<Rightarrow> None
      | Some (f, r) \<Rightarrow> if checkOverflowFloat32 f chkOverflow32 then Some (f, r) else None)"

definition binc_decodeBool :: "bool reader" where
  "binc_decodeBool bd r =
     (if bd = bincVdSpecial OR bincSpFalse then Some (False, r)
      else if bd = bincVdSpecial OR bincSpTrue then Some (True, r)
      else None)"

definition binc_decLen :: "int reader" where
  "binc_decLen bd r =
     (if vs bd \<le> 3 then map_option (\<lambda>(n, r). (int64_of n, r)) (binc_decUint bd r)
      else Some (int (unat (vs bd)) - 4, r))"

definition binc_readMapLen :: "int reader" where
  "binc_readMapLen bd r = (if vd bd \<noteq> bincVdMap then None else binc_decLen bd r)"

definition binc_readArrayLen :: "int reader" where
  "binc_readArrayLen bd r = (if vd bd \<noteq> bincVdArray then None else binc_decLen bd r)"

text \<open>The symbols the decoder has seen; an unknown one is the empty string.\<close>

type_synonym binc_dec = "nat \<rightharpoonup> string"

definition binc_decodeString :: "binc_dec \<Rightarrow> byte \<Rightarrow> bytes \<Rightarrow> (binc_dec \<times> string \<times> bytes) option" where
  "binc_decodeString m bd r =
     (if vd bd = bincVdString \<or> vd bd = bincVdByteArray then
        (case binc_decLen bd r of
           None \<Rightarrow> None
         | Some (n, r) \<Rightarrow> map_option (\<lambda>(x, r). (m, bytes_str x, r)) (readn (nat n) r))
      else if vd bd = bincVdSymbol then
        (case read_be (if vs bd AND 0x8 = 0 then 1 else 2) r of
           None \<Rightarrow> None
         | Some (symbol, r) \<Rightarrow>
             if vs bd AND 0x4 = 0 then Some (m, case m symbol of None \<Rightarrow> [] | Some s \<Rightarrow> s, r)
             else (case read_be (2 ^ unat (vs bd AND 0x3)) r of
                 None \<Rightarrow> None
               | Some (slen, r) \<Rightarrow>
                   map_option (\<lambda>(x, r). (m(symbol \<mapsto> bytes_str x), bytes_str x, r)) (readn (nat (int64_of slen)) r)))
      else None)"

definition binc_decodeBytes :: "bytes option \<Rightarrow> (bytes option \<times> bytes option) reader" where
  "binc_decodeBytes bs bd r =
     (if vd bd = bincVdString \<or> vd bd = bincVdByteArray then
        (case binc_decLen bd r of None \<Rightarrow> None | Some (clen, r) \<Rightarrow> fill_bytes bs (nat clen) r)
      else None)"

definition binc_rawExt :: "(byte \<times> bytes) reader" where
  "binc_rawExt bd r =
     (case binc_decLen bd r of
        None \<Rightarrow> None
      | Some (l, []) \<Rightarrow> None
      | Some (l, xtag # r) \<Rightarrow> map_option (\<lambda>(x, r). ((xtag, x), r)) (readn (nat l) r))"

definition binc_decodeExt :: "bool \<Rightarrow> byte \<Rightarrow> (byte \<times> bytes) reader" where
  "binc_decodeExt verifyTag tag bd r =
     (if vd bd = bincVdCustomExt then
        (case binc_rawExt bd r of
           None \<Rightarrow> None
         | Some ((xtag, xbs), r) \<Rightarrow> if verifyTag \<and> xtag \<noteq> tag then None else Some ((xtag, xbs), r))
      else if vd bd = bincVdByteArray then
        map_option (\<lambda>((_, x), r). ((0, slice_or_nil x), r)) (binc_decodeBytes None bd r)
      else None)"

definition binc_decodeBuiltin :: "gotime reader" where
  "binc_decodeBuiltin bd r =
     (if vd bd \<noteq> bincVdTimestamp then None
      else case readn (unat (vs bd)) r of
        None \<Rightarrow> None
      | Some (x, r) \<Rightarrow> map_option (\<lambda>t. (t, r)) (decodeTime x))"

definition binc_nakedSpecial :: "byte \<Rightarrow> cval option" where
  "binc_nakedSpecial v =
     (if v = bincSpNil then Some CNil
      else if v = bincSpFalse then Some (CBool False)
      else if v = bincSpTrue then Some (CBool True)
      else if v = bincSpNan then Some (CFloat nan_bits)
      else if v = bincSpPosInf then Some (CFloat (inf_bits False))
      else if v = bincSpNegInf then Some (CFloat (inf_bits True))
      else if v = bincSpZeroFloat then Some (CFloat 0)
      else if v = bincSpZero then Some (CInt 0)
      else if v = bincSpNegOne then Some (CInt (- 1))
      else None)"

definition binc_decodeNaked :: "binc_dec \<Rightarrow> byte \<Rightarrow> bytes \<Rightarrow> (binc_dec \<times> nakedval \<times> bytes) option" where
  "binc_decodeNaked m bd r =
     (let k = vd bd in
      if k = bincVdSpecial then map_option (\<lambda>v. (m, Naked v, r)) (binc_nakedSpecial (vs bd))
      else if k = bincVdSmallInt then Some (m, Naked (CUint (unat (vs bd) + 1)), r)
      else if k = bincVdPosInt then map_option (\<lambda>(n, r). (m, Naked (CUint n), r)) (binc_decUint bd r)
      else if k = bincVdNegInt then map_option (\<lambda>(n, r). (m, Naked (CInt (neg64 (int64_of n))), r)) (binc_decUint bd r)
      else if k = bincVdFloat then map_option (\<lambda>(f, r). (m, Naked (CFloat f), r)) (binc_decFloat bd r)
      else if k = bincVdSymbol \<or> k = bincVdString then
        map_option (\<lambda>(m, s, r). (m, Naked (CString s), r)) (binc_decodeString m bd r)
      else if k = bincVdByteArray then
        map_option (\<lambda>((_, x), r). (m, Naked (CBytes (slice_or_nil x)), r)) (binc_decodeBytes None bd r)
      else if k = bincVdTimestamp then map_option (\<lambda>(t, r). (m, Naked (CTime t), r)) (binc_decodeBuiltin bd r)
      else if k = bincVdCustomExt then
        map_option (\<lambda>((t, x), r). (m, Naked (CExt t (raw_data x)), r)) (binc_rawExt bd r)
      else if k = bincVdArray then Some (m, NakedArray, r)
      else if k = bincVdMap then Some (m, NakedMap, r)
      else None)"

section \<open>The driver\<close>

definition bincDriver :: "(binc_enc, binc_dec) driver" where
  "bincDriver =
     \<lparr>writesExt = True, newEnc = \<lparr>enc_m = Map.empty, enc_s = 0\<rparr>, newDec = Map.empty,
      e_nil = binc_special bincSpNil,
      e_bool = (\<lambda>b. binc_special (if b then bincSpTrue else bincSpFalse)),
      e_int = binc_encodeInt,
      e_uint = binc_encodeUint,
      e_float32 = binc_encodeFloat32,
      e_float64 = binc_encodeFloat64,
      e_ext = binc_encodeExtPreamble,
      e_array = binc_encLen (push_bit 4 bincVdArray),
      e_map = binc_encLen (push_bit 4 bincVdMap),
      e_string = binc_encodeString,
      e_symbol = binc_encodeSymbol,
      e_bytes = binc_encodeStringBytes,
      e_time = binc_encodeBuiltin,
      d_nil = (\<lambda>bd. bd = push_bit 4 bincVdSpecial OR bincSpNil),
      d_type = binc_currentEncodedType,
      d_naked = binc_decodeNaked,
      d_int = binc_decodeInt,
      d_uint = binc_decodeUint,
      d_float = binc_decodeFloat,
      d_bool = binc_decodeBool,
      d_string = binc_decodeString,
      d_bytes = binc_decodeBytes,
      d_ext = binc_decodeExt,
      d_array = binc_readArrayLen,
      d_map = binc_readMapLen\<rparr>"

section \<open>Numbers that survive\<close>

lemma vd_zero [simp]: "vd 0 = 0"
  by (simp add: vd_def)

lemma nibbles_all:
  "\<forall>a\<in>set [0..<16]. \<forall>b\<in>set [0..<16].
     let bd = push_bit 4 (of_nat a) OR of_nat b in vd bd = of_nat a \<and> vs bd = of_nat b \<and> unat bd = 16 * a + b"
  by code_simp

lemma nibbles:
  assumes "a < 16" "b < 16"
  shows "vd (push_bit 4 (of_nat a) OR of_nat b) = of_nat a" "vs (push_bit 4 (of_nat a) OR of_nat b) = of_nat b"
    "unat (push_bit 4 (of_nat a) OR of_nat b :: byte) = 16 * a + b"
  using nibbles_all assms unfolding Let_def by (metis atLeastLessThan_iff set_upt zero_le)+

lemma prune_descriptor_all:
  "\<forall>bd\<in>set [0x10, 0x20]. \<forall>k\<in>set [4, 8]. \<forall>i\<in>set [0..<k].
     let d = (bd OR of_nat k) - 1 - of_nat i in vd d = drop_bit 4 bd \<and> vs d = of_nat (k - 1 - i) \<and> vs d \<le> 7"
  by code_simp

lemma le_nat_zero: "le_nat (xs @ [0]) = le_nat xs"
  by (induction xs) auto

lemma be_nat_zeros: "be_nat (replicate k 0 @ xs) = be_nat xs"
  by (induction k) (simp_all add: be_nat_def le_nat_zero flip: append_assoc)

lemma be_nat_pruned: "be_nat (drop (pruneSignExt v True) v) = be_nat v"
  using prune_split[of v True] be_nat_zeros by (metis sign_byte_def)

lemma prune_descriptor:
  assumes "bd \<in> {0x10, 0x20}" "k \<in> {4, 8}" "i < k"
  shows "vd ((bd OR of_nat k) - 1 - of_nat i) = drop_bit 4 bd" "vs ((bd OR of_nat k) - 1 - of_nat i) = of_nat (k - 1 - i)"
    "vs ((bd OR of_nat k) - 1 - of_nat i) \<le> 7"
  using bspec[OF bspec[OF bspec[OF prune_descriptor_all, of bd] , of k], of i] assms by (auto simp: Let_def)

lemma read_all: "length x = k \<Longrightarrow> read_be k (x @ r) = Some (be_nat x, r)"
  by (simp add: read_be_def)

lemma read_be_two [simp]: "read_be (Suc (Suc 0)) (be_bytes 2 n @ r) = Some (n mod 65536, r)"
  using read_be_append[of 2 n r] by (simp add: numeral_2_eq_2)

text \<open>What the decoder makes of an integer the encoder shortened.\<close>

lemma pruned_read:
  assumes "bd \<in> {0x10, 0x20}" "k \<in> {4, 8}"
  obtains b t where "binc_encIntegerPrune bd pos v k = b # t" "vd b = drop_bit 4 bd"
    "\<And>r. binc_decUint b (t @ r) = Some (be_nat (drop (pruneSignExt (be_bytes k v) pos) (be_bytes k v)), r)"
proof -
  let ?v = "be_bytes k v"
  define i where "i = pruneSignExt ?v pos"
  have "?v \<noteq> []"
    using assms(2) by (auto simp flip: length_0_conv)
  from prune_less[OF this, of pos] have i: "i < k"
    by (simp add: i_def)
  note d = prune_descriptor[OF assms i]
  have "k - 1 - i < 8"
    using assms(2) by auto
  then have "unat (of_nat (k - 1 - i) :: byte) = k - 1 - i"
    by (simp add: unat_of_nat_byte)
  then have "unat (vs ((bd OR of_nat k) - 1 - of_nat i)) + 1 = k - i"
    using i by (simp add: d(2))
  then have "binc_decUint ((bd OR of_nat k) - 1 - of_nat i) (drop i ?v @ r) = Some (be_nat (drop i ?v), r)" for r
    using d(3) read_all[of "drop i ?v" "k - i" r] by (simp add: binc_decUint_def)
  then show ?thesis
    using d(1) by (intro that) (simp_all add: binc_encIntegerPrune_def i_def Let_def)
qed

lemma binc_uint:
  assumes "n < 2 ^ 64"
  obtains b t where "binc_encodeUint n = b # t" "b \<noteq> 0"
    "\<And>r. binc_decIntAny b (t @ r) = Some ((n, int64_of n, False), r)"
    "\<And>m r. binc_decodeNaked m b (t @ r) = Some (m, Naked (if n = 0 then CInt 0 else CUint n), r)"
proof -
  consider "n = 0" | "1 \<le> n" "n \<le> 16" | "16 < n" "n \<le> 255" | "255 < n" "n \<le> 65535"
    | "65535 < n" "n \<le> 4294967295" | "4294967295 < n"
    by linarith
  then show ?thesis
  proof cases
    case 1
    then show ?thesis
      by (intro that[of 7 "[]"]) (simp_all add: binc_encodeUint_def binc_encUint_def binc_special_def binc_decIntAny_def
        binc_decodeNaked_def binc_nakedSpecial_def vd_def vs_def binc_descriptors int64_of_def signed_of_def)
  next
    case 2
    then obtain k where k: "n = Suc k" "k < 16"
      by (cases n) auto
    have "vd (push_bit 4 (of_nat 9) OR of_nat k) = 9" "vs (push_bit 4 (of_nat 9) OR of_nat k) = of_nat k"
      "(push_bit 4 (of_nat 9) OR of_nat k :: byte) \<noteq> 0"
      using nibbles[of 9 k] k(2) by (auto simp: word_unat_eq_iff)
    moreover have "unat (of_nat k :: byte) = k"
      using k(2) by (simp add: unat_of_nat_byte)
    ultimately show ?thesis
      using k by (intro that[of "push_bit 4 (of_nat 9) OR of_nat k" "[]"])
        (simp_all add: binc_encodeUint_def binc_encUint_def binc_decIntAny_def
        binc_decodeNaked_def binc_descriptors int64_of_def signed_of_def)
  next
    case 3
    then show ?thesis
      by (intro that[of "0x10" "[of_nat n]"]) (simp_all add: binc_encodeUint_def binc_encUint_def binc_decIntAny_def
        binc_decUint_def binc_decodeNaked_def vd_def vs_def binc_descriptors unat_of_nat_byte)
  next
    case 4
    then show ?thesis
      by (intro that[of "0x11" "be_bytes 2 n"]) (simp_all add: binc_encodeUint_def binc_encUint_def binc_decIntAny_def
        binc_decUint_def binc_decodeNaked_def vd_def vs_def binc_descriptors)
  next
    case 5
    show ?thesis
      by (rule pruned_read[of "0x10" 4 True n]) (use 5 in \<open>auto intro!: that simp: binc_encodeUint_def binc_encUint_def
        binc_decIntAny_def binc_decodeNaked_def binc_descriptors be_nat_pruned\<close>)
  next
    case 6
    show ?thesis
      by (rule pruned_read[of "0x10" 8 True n]) (use 6 assms in \<open>auto intro!: that simp: binc_encodeUint_def binc_encUint_def
        binc_decIntAny_def binc_decodeNaked_def binc_descriptors be_nat_pruned\<close>)
  qed
qed

text \<open>
  A negative number goes without the bytes of ones its \<^emph>\<open>absolute\<close> value begins with, and they are not
  restored: that concerns the numbers between \<open>-4294967295\<close> and \<open>-4286578688\<close>.
\<close>

definition binc_int_ok :: "int \<Rightarrow> bool" where
  "binc_int_ok i \<longleftrightarrow> - (2 ^ 63) \<le> i \<and> i < 2 ^ 63 \<and> \<not> (- 4294967295 \<le> i \<and> i \<le> - 4286578688)"

lemma be_bytes_snoc: "be_bytes (Suc k) n = be_bytes k (n div 256) @ [of_nat (n mod 256)]"
  by (simp add: be_bytes_def)

lemma be_bytes_Suc: "be_bytes (Suc k) n = of_nat (n div 256 ^ k mod 256) # be_bytes k n"
proof (induction k arbitrary: n)
  case (Suc k)
  have "be_bytes (Suc (Suc k)) n = be_bytes (Suc k) (n div 256) @ [of_nat (n mod 256)]"
    by (simp add: be_bytes_def)
  also have "\<dots> = of_nat (n div 256 ^ Suc k mod 256) # be_bytes k (n div 256) @ [of_nat (n mod 256)]"
    using Suc[of "n div 256"] by (simp add: div_mult2_eq)
  finally show ?case
    by (simp add: be_bytes_def)
qed (simp add: be_bytes_def)

lemma high_bit: "(of_nat m :: byte) AND 0x80 = 0 \<longleftrightarrow> m mod 256 < 128"
proof -
  have "(of_nat m :: byte) AND 0x80 = 0 \<longleftrightarrow> \<not> bit (of_nat m :: byte) 7"
    using and_exp_eq_0_iff_not_bit[of "of_nat m :: byte" 7] by simp
  also have "\<dots> \<longleftrightarrow> \<not> bit m 7"
    by (simp add: bit_of_nat_iff)
  also have "\<dots> \<longleftrightarrow> m mod 256 < 128"
    using mod_mult2_eq[of m 128 2] by (cases "even (m div 128)") (simp_all add: bit_iff_odd odd_iff_mod_2_eq_one)
  finally show ?thesis .
qed

lemma not_pruned:
  assumes "k = 4 \<and> n < 0xff800000 \<or> k = 8 \<and> n \<le> 2 ^ 63"
  shows "pruneSignExt (be_bytes k n) False = 0"
proof -
  obtain j where j: "k = Suc (Suc j)"
    using assms by (cases k; cases "k - 1") auto
  have "n div 256 ^ Suc j mod 256 \<noteq> 255 \<or> n div 256 ^ j mod 256 < 128"
    using assms
  proof (elim disjE conjE)
    assume n: "k = 4" "n < 0xff800000"
    then have "n div 65536 < 65408"
      by (simp add: less_mult_imp_div_less)
    moreover have "n div 16777216 = n div 65536 div 256"
      by (simp add: div_mult2_eq[symmetric])
    ultimately have "n div 16777216 < 256" "n div 16777216 = 255 \<Longrightarrow> n div 65536 mod 256 < 128"
      using div_mult_mod_eq[of "n div 65536" 256] by linarith+
    then have "n div 16777216 mod 256 \<noteq> 255 \<or> n div 65536 mod 256 < 128"
      by auto
    then show ?thesis
      using j n(1) by simp
  next
    assume n: "k = 8" "n \<le> 2 ^ 63"
    have "n div 256 ^ 7 \<le> 2 ^ 63 div 256 ^ 7"
      using n(2) by (rule div_le_mono)
    then show ?thesis
      using j n(1) by simp
  qed
  then have "(of_nat (n div 256 ^ Suc j mod 256) :: byte) \<noteq> 0xff \<or> (of_nat (n div 256 ^ j mod 256) :: byte) AND 0x80 = 0"
    unfolding high_bit by (auto simp: word_unat_eq_iff unat_of_nat_byte)
  then show ?thesis
    unfolding j be_bytes_Suc by (auto simp: sign_byte_def)
qed

lemma binc_neg:
  assumes "binc_int_ok i" "i < - 1"
  obtains (written) b t where "binc_encodeInt i = b # t" "b \<noteq> 0"
    "\<And>r. binc_decIntAny b (t @ r) = Some ((nat ((- i) mod 2 ^ 64), i, True), r)"
    "\<And>m r. binc_decodeNaked m b (t @ r) = Some (m, Naked (CInt i), r)"
proof -
  define n where "n = nat ((- i) mod 2 ^ 64)"
  have i: "- (2 ^ 63) \<le> i" "\<not> (- 4294967295 \<le> i \<and> i \<le> - 4286578688)"
    using assms(1) by (simp_all add: binc_int_ok_def)
  have "(- i) mod 2 ^ 64 = - i"
    using i(1) assms(2) by (intro mod_pos_pos_trivial) simp_all
  then have n: "int n = - i"
    using assms(2) by (simp add: n_def)
  have n2: "2 \<le> n" "n \<le> 2 ^ 63"
    using n assms(2) i(1) by simp_all
  have n3: "n < 0xff800000 \<or> 4294967295 < n"
    using n i(2) by arith
  have signed: "neg64 (int64_of n) = i"
    unfolding n_def using neg64_back i(1) assms(2) by simp
  have enc: "binc_encodeInt i = binc_encUint 0x20 False n"
    using assms(2) by (simp add: binc_encodeInt_def n_def binc_descriptors)
  have n_eq: "nat (- i mod 18446744073709551616) = n"
    by (simp add: n_def)
  have fin: "thesis" if "binc_encUint 0x20 False n = b # t" "vd b = 2" "\<And>r. binc_decUint b (t @ r) = Some (n, r)" for b t
  proof (rule written[of b t])
    show "b \<noteq> 0"
      using that(2) by (auto simp: vd_def)
  qed (use that(1-3) signed enc in \<open>simp_all add: binc_decIntAny_def binc_decodeNaked_def binc_descriptors n_eq\<close>)
  consider "n \<le> 255" | "255 < n" "n \<le> 65535" | "65535 < n" "n \<le> 4294967295" | "4294967295 < n"
    by linarith
  then show ?thesis
  proof cases
    case 1
    then show ?thesis
      using n2 by (intro fin[of "0x20" "[of_nat n]"]) (simp_all add: binc_encUint_def binc_decUint_def vd_def vs_def
        unat_of_nat_byte)
  next
    case 2
    then show ?thesis
      by (intro fin[of "0x21" "be_bytes 2 n"]) (simp_all add: binc_encUint_def binc_decUint_def vd_def vs_def)
  next
    case 3
    have "pruneSignExt (be_bytes 4 n) False = 0"
      using 3 n3 by (intro not_pruned) simp
    then have whole: "be_nat (drop (pruneSignExt (be_bytes 4 n) False) (be_bytes 4 n)) = n"
      using n2(2) 3 by simp
    obtain b t where bt: "binc_encIntegerPrune 0x20 False n 4 = b # t" "vd b = drop_bit 4 0x20"
      "\<And>r. binc_decUint b (t @ r) = Some (n, r)"
      by (rule pruned_read[of "0x20" 4 False n, unfolded whole]) simp_all
    then show ?thesis
      using 3 by (intro fin[of b t]) (simp_all add: binc_encUint_def)
  next
    case 4
    have "pruneSignExt (be_bytes 8 n) False = 0"
      using n2 by (intro not_pruned) simp
    then have whole: "be_nat (drop (pruneSignExt (be_bytes 8 n) False) (be_bytes 8 n)) = n"
      using n2(2) 4 by simp
    obtain b t where bt: "binc_encIntegerPrune 0x20 False n 8 = b # t" "vd b = drop_bit 4 0x20"
      "\<And>r. binc_decUint b (t @ r) = Some (n, r)"
      by (rule pruned_read[of "0x20" 8 False n, unfolded whole]) simp_all
    then show ?thesis
      using 4 by (intro fin[of b t]) (simp_all add: binc_encUint_def)
  qed
qed

section \<open>Lengths and floats that survive\<close>

text \<open>
  A length of more than 65535 is written in four bytes and read from three, see \<open>binc_long_length\<close>.
\<close>

lemma binc_len:
  assumes "n < 65536" "a < 16" "0 < a"
  obtains (written) b t where "binc_encLen (push_bit 4 (of_nat a)) n = b # t" "vd b = of_nat a" "b \<noteq> 0"
    "\<And>r. binc_decLen b (t @ r) = Some (int n, r)"
proof -
  have vd0: "(of_nat a :: byte) \<noteq> 0"
    using assms(2,3) by (simp add: word_unat_eq_iff unat_of_nat_byte)
  have fin: thesis if "binc_encLen (push_bit 4 (of_nat a)) n = (push_bit 4 (of_nat a) OR of_nat k) # t" "k < 16"
    "\<And>r. binc_decLen (push_bit 4 (of_nat a) OR of_nat k) (t @ r) = Some (int n, r)" for k t
  proof (rule written[OF that(1)])
    show "vd (push_bit 4 (of_nat a) OR of_nat k) = of_nat a"
      by (rule nibbles(1)[OF assms(2) that(2)])
    then show "push_bit 4 (of_nat a) OR of_nat k \<noteq> (0 :: byte)"
      using vd0 by (metis vd_zero)
  qed (rule that(3))
  have vs: "vs (push_bit 4 (of_nat a) OR of_nat k) = of_nat k" if "k < 16" for k
    by (rule nibbles(2)[OF assms(2) that])
  consider "n < 12" | "12 \<le> n" "n \<le> 255" | "255 < n"
    by linarith
  then show ?thesis
  proof cases
    case 1
    have "unat (of_nat (n + 4) :: byte) = n + 4" "\<not> (of_nat (n + 4) :: byte) \<le> 3"
      using 1 by (simp_all add: unat_of_nat_byte word_le_nat_alt del: of_nat_add)
    then show ?thesis
      using 1 vs[of "n + 4"] by (intro fin[of "n + 4" "[]"]) (simp_all add: binc_encLen_def binc_decLen_def del: of_nat_add)
  next
    case 2
    then show ?thesis
      using vs[of 0] by (intro fin[of 0 "[of_nat n]"]) (simp_all add: binc_encLen_def binc_encLenNumber_def
        binc_decLen_def binc_decUint_def int64_small unat_of_nat_byte)
  next
    case 3
    then show ?thesis
      using vs[of 1] assms(1) by (intro fin[of 1 "be_bytes 2 n"]) (simp_all add: binc_encLen_def binc_encLenNumber_def
        binc_decLen_def binc_decUint_def int64_small)
  qed
qed

lemma strip_split: "strip_zero_bytes bs @ replicate (length bs - length (strip_zero_bytes bs)) 0 = bs"
proof -
  have "takeWhile (\<lambda>b. b = (0 :: byte)) xs = replicate (length (takeWhile (\<lambda>b. b = 0) xs)) 0" for xs
    by (induction xs) auto
  then have "rev (takeWhile (\<lambda>b. b = 0) (rev bs)) = replicate (length (takeWhile (\<lambda>b. b = 0) (rev bs))) 0"
    by (metis rev_replicate)
  moreover have "strip_zero_bytes bs @ rev (takeWhile (\<lambda>b. b = 0) (rev bs)) = bs"
    unfolding strip_zero_bytes_def by (metis rev_append rev_rev_ident takeWhile_dropWhile_id)
  moreover have "length bs - length (strip_zero_bytes bs) = length (takeWhile (\<lambda>b. b = 0) (rev bs))"
    unfolding strip_zero_bytes_def by (metis add_diff_cancel_right' length_append length_rev takeWhile_dropWhile_id)
  ultimately show ?thesis
    by simp
qed

lemma strip_length: "length (strip_zero_bytes bs) \<le> length bs"
  by (simp add: strip_zero_bytes_def length_dropWhile_le[of _ "rev bs", simplified])

lemma binc_float:
  assumes "f < 2 ^ 64"
  obtains b t where "binc_encodeFloat64 f = b # t" "b \<noteq> 0"
    "\<And>m r. binc_decodeNaked m b (t @ r) = Some (m, Naked (CFloat (if f = 2 ^ 63 then 0 else f)), r)"
proof (cases "f = 0 \<or> f = 2 ^ 63")
  case True
  then show ?thesis
    by (intro that[of 6 "[]"]) (auto simp: binc_encodeFloat64_def binc_special_def binc_decodeNaked_def
      binc_nakedSpecial_def vd_def vs_def binc_descriptors)
next
  case False
  define p where "p = strip_zero_bytes (be_bytes 8 f)"
  have p: "p @ replicate (8 - length p) 0 = be_bytes 8 f" "length p \<le> 8"
    using strip_split[of "be_bytes 8 f"] strip_length[of "be_bytes 8 f"] by (simp_all add: p_def)
  show ?thesis
  proof (cases "length p \<le> 6")
    case True
    then have "unat (of_nat (length p) :: byte) = length p" "\<not> 8 < (of_nat (length p) :: byte)"
      by (simp_all add: unat_of_nat_byte word_less_nat_alt)
    then show ?thesis
      using True False p assms
      by (intro that[of "0x3b" "of_nat (length p) # p"])
        (simp_all add: binc_encodeFloat64_def binc_decodeNaked_def binc_decFloat_def binc_decFloatPre_def
          vd_def vs_def binc_descriptors Let_def flip: p_def)
  next
    case long: False
    then show ?thesis
      using False assms
      by (intro that[of "0x33" "be_bytes 8 f"])
        (simp_all add: binc_encodeFloat64_def binc_decodeNaked_def binc_decFloat_def binc_decFloatPre_def
          vd_def vs_def binc_descriptors Let_def flip: p_def)
  qed
qed

lemma binc_float32:
  assumes "f < 2 ^ 32"
  obtains b t where "binc_encodeFloat32 f = b # t" "b \<noteq> 0"
    "\<And>m r. binc_decodeNaked m b (t @ r) = Some (m, Naked (CFloat (if f = 2 ^ 31 then 0 else widen32 f)), r)"
proof (cases "f = 0 \<or> f = 2 ^ 31")
  case True
  then show ?thesis
    by (intro that[of 6 "[]"]) (auto simp: binc_encodeFloat32_def binc_special_def binc_decodeNaked_def
      binc_nakedSpecial_def vd_def vs_def binc_descriptors widen32_def)
next
  case False
  then show ?thesis
    using assms
    by (intro that[of "0x31" "be_bytes 4 f"])
      (simp_all add: binc_encodeFloat32_def binc_decodeNaked_def binc_decFloat_def binc_decFloatPre_def
        vd_def vs_def binc_descriptors Let_def)
qed

lemma binc_string:
  assumes "length x < 65536"
  obtains b t where "binc_encodeString x = b # t" "vd b = bincVdString" "b \<noteq> 0"
    "\<And>m r. binc_decodeString m b (t @ r) = Some (m, x, r)"
  by (rule binc_len[OF assms, of 4])
    (auto intro!: that simp: binc_encodeString_def binc_decodeString_def binc_descriptors)

lemma binc_bytes:
  assumes "length x < 65536"
  obtains b t where "binc_encodeStringBytes x = b # t" "vd b = bincVdByteArray" "b \<noteq> 0"
    "\<And>old r. binc_decodeBytes old b (t @ r) = fill_bytes old (length x) (x @ r)"
  by (rule binc_len[OF assms, of 5])
    (auto intro!: that simp: binc_encodeStringBytes_def binc_decodeBytes_def binc_descriptors)

lemma binc_ext:
  assumes "length x < 65536"
  obtains b t where "binc_encodeExtPreamble tag (length x) @ x = b # t" "vd b = bincVdCustomExt" "b \<noteq> 0"
    "\<And>r. binc_rawExt b (t @ r) = Some ((tag, x), r)"
  by (rule binc_len[OF assms, of 15])
    (auto intro!: that simp: binc_encodeExtPreamble_def binc_rawExt_def binc_descriptors)

lemma time_length:
  assumes "wf_time t"
  shows "length (encodeTime t) < 16"
proof -
  have "length (snd (secs_part (tsecs t))) \<le> 8" "length (snd (nsecs_part (tnsecs t))) \<le> 4"
    by (auto simp: secs_part_def nsecs_part_def Let_def)
  moreover have "length (snd (zone_part (zoneOffset t))) \<le> 2"
    by (auto simp: zone_part_def split: option.split list.split)
  ultimately show ?thesis
    by (cases "secs_part (tsecs t)"; cases "nsecs_part (tnsecs t)"; cases "zone_part (zoneOffset t)")
      (simp add: encodeTime_def)
qed

lemma binc_time:
  assumes "wf_time t"
  obtains b x where "binc_encodeBuiltin t = b # x" "b \<noteq> 0"
    "\<And>m r. binc_decodeNaked m b (x @ r) = Some (m, Naked (CTime (seen_time t)), r)"
proof -
  define l where "l = length (encodeTime t)"
  define b where "b = push_bit 4 (of_nat 8) OR (of_nat l :: byte)"
  have "vd b = 8" "vs b = of_nat l" "b \<noteq> 0" "unat (of_nat l :: byte) = l"
    using nibbles[of 8 l] time_length[OF assms] by (auto simp: b_def l_def word_unat_eq_iff unat_of_nat_byte)
  then show ?thesis
    using time_roundtrip[OF assms]
    by (intro that[of b "encodeTime t"])
      (simp_all add: binc_encodeBuiltin_def b_def binc_decodeNaked_def binc_decodeBuiltin_def binc_descriptors l_def Let_def)
qed

section \<open>Symbols\<close>

text \<open>The decoder knows every symbol the encoder would not repeat, and \<open>n\<close> numbers are left.\<close>

definition binc_sync :: "nat \<Rightarrow> binc_enc \<Rightarrow> binc_dec \<Rightarrow> bool" where
  "binc_sync n e m \<longleftrightarrow>
     enc_s e + n < 65536 \<and> (\<forall>v ui. enc_m e v = Some ui \<longrightarrow> ui \<le> enc_s e \<and> m ui = Some v)"

text \<open>The descriptor of a symbol: is its number in two bytes, is the string there, and the width of its length.\<close>

lemma symbol_bits:
  "vd (push_bit 4 bincVdSymbol) = bincVdSymbol" "vs (push_bit 4 bincVdSymbol) = 0"
  "vd (push_bit 4 bincVdSymbol OR 0x8) = bincVdSymbol" "vs (push_bit 4 bincVdSymbol OR 0x8) = 8"
  "\<forall>p\<in>{0, 1, 2, 3}. \<forall>w\<in>{0, 8}. let d = push_bit 4 bincVdSymbol OR w OR 0x4 OR p in vd d = bincVdSymbol \<and>
     vs d AND 0x8 = w \<and> vs d AND 0x4 = 4 \<and> vs d AND 0x3 = p \<and> d \<noteq> 0"
  by code_simp+

lemma sync_less: "binc_sync (Suc n) e m \<Longrightarrow> binc_sync n e m"
  by (simp add: binc_sync_def)

lemma sync_new:
  assumes "binc_sync (Suc n) e m" "enc_m e x = None"
  shows "binc_sync n (e\<lparr>enc_m := (enc_m e)(x \<mapsto> enc_s e + 1), enc_s := enc_s e + 1\<rparr>) (m(enc_s e + 1 \<mapsto> x))"
  using assms by (fastforce simp: binc_sync_def)

text \<open>The number of a symbol, in one byte or in two.\<close>

lemma symbol_number:
  assumes "ui < 65536"
  shows "read_be (if (if ui \<le> 255 then 0 else 8 :: byte) = 0 then 1 else 2)
    ((if ui \<le> 255 then [of_nat ui] else be_bytes 2 ui) @ r) = Some (ui, r)"
  using assms by (simp add: unat_of_nat_byte)

lemma symbol_known:
  assumes "binc_sync (Suc n) e m" "enc_m e x = Some ui" "1 < length x" "binc_encodeSymbol e x = (e', bs)"
  shows "bs \<noteq> [] \<and> (\<exists>m'. binc_sync n e' m' \<and> (\<forall>r. binc_decodeString m (hd bs) (tl bs @ r) = Some (m', x, r)))"
proof -
  have m: "ui < 65536" "m ui = Some x"
    using assms(1,2) by (fastforce simp: binc_sync_def)+
  have "e' = e" "bs = (if ui \<le> 255 then [push_bit 4 bincVdSymbol, of_nat ui]
      else (push_bit 4 bincVdSymbol OR 0x8) # be_bytes 2 ui)"
    using assms(2-4) by (auto simp: binc_encodeSymbol_def Let_def)
  then show ?thesis
    using m sync_less[OF assms(1)] symbol_bits(1-4)
    by (auto simp: binc_decodeString_def binc_descriptors(1-8,10-) unat_of_nat_byte)
qed

lemma symbol_new:
  assumes "binc_sync (Suc n) e m" "enc_m e x = None" "1 < length x" "length x < 65536"
    "binc_encodeSymbol e x = (e', bs)"
  shows "bs \<noteq> [] \<and> (\<exists>m'. binc_sync n e' m' \<and> (\<forall>r. binc_decodeString m (hd bs) (tl bs @ r) = Some (m', x, r)))"
proof -
  define ui where "ui = enc_s e + 1"
  define w :: byte where "w = (if ui \<le> 255 then 0 else 8)"
  define p where "p = lenprec (length x)"
  define d where "d = push_bit 4 bincVdSymbol OR w OR 0x4 OR p"
  define k where "k = (if p = 0 then 1 else 2 :: nat)"
  have ui: "ui < 65536"
    using assms(1) by (simp add: binc_sync_def ui_def)
  then have e': "e' = e\<lparr>enc_m := (enc_m e)(x \<mapsto> ui), enc_s := ui\<rparr>"
    and bs: "bs = d # (if ui \<le> 255 then [of_nat ui] else be_bytes 2 ui) @ be_bytes k (length x) @ str_bytes x"
    using assms(2-5) unfolding binc_encodeSymbol_def
    by (auto simp: Let_def ui_def w_def d_def p_def k_def lenprec_def)
  have "p \<in> {0, 1, 2, 3}" "w \<in> {0, 8}"
    by (simp_all add: p_def lenprec_def w_def)
  then have bits: "vd d = bincVdSymbol" "vs d AND 0x8 = w" "vs d AND 0x4 = 4" "vs d AND 0x3 = p"
    using symbol_bits(5) unfolding Let_def d_def by blast+
  have "2 ^ unat p = k" "length x mod 256 ^ k = length x"
    using assms(4) by (simp_all add: k_def p_def lenprec_def)
  then have len: "read_be (2 ^ unat p) (be_bytes k (length x) @ r) = Some (length x, r)" for r
    by simp
  have "nat (int64_of (length x)) = length x"
    using assms(4) by (simp add: int64_small)
  then have "binc_decodeString m d (tl bs @ r) = Some (m(ui \<mapsto> x), x, r)" for r
    using symbol_number[OF ui, of "be_bytes k (length x) @ str_bytes x @ r"] len[of "str_bytes x @ r"] bits
    by (simp add: binc_decodeString_def binc_descriptors(5,6,11) bs flip: w_def)
  then show ?thesis
    using sync_new[OF assms(1,2)] by (auto simp: e' bs ui_def)
qed

lemma symbol_read:
  assumes "binc_sync (Suc n) e m" "length x < 65536" "binc_encodeSymbol e x = (e', bs)"
  shows "bs \<noteq> [] \<and> (\<exists>m'. binc_sync n e' m' \<and> (\<forall>r. binc_decodeString m (hd bs) (tl bs @ r) = Some (m', x, r)))"
proof (cases "1 < length x")
  case True
  then show ?thesis
    using symbol_known[OF assms(1) _ True assms(3)] symbol_new[OF assms(1) _ True assms(2,3)]
    by (cases "enc_m e x") auto
next
  case False
  then have e: "e' = e" "bs = binc_encodeString x"
    using assms(3) by (simp_all add: binc_encodeSymbol_def)
  show ?thesis
  proof (rule binc_string[OF assms(2)])
    fix b t
    assume "binc_encodeString x = b # t" "\<And>m r. binc_decodeString m b (t @ r) = Some (m, x, r)"
    then show ?thesis
      using sync_less[OF assms(1)] by (simp add: e exI[of _ m])
  qed
qed

section \<open>What survives\<close>

fun binc_ok :: "cval \<Rightarrow> bool" where
  "binc_ok (CInt i) = binc_int_ok i"
| "binc_ok (CUint n) = (n < 2 ^ 64)"
| "binc_ok (CFloat32 f) = (f < 2 ^ 32)"
| "binc_ok (CFloat f) = (f < 2 ^ 64)"
| "binc_ok (CString s) = (length s < 65536)"
| "binc_ok (CBytes x) = (length x < 65536)"
| "binc_ok (CExt t (Some x)) = (length x < 65536)"
| "binc_ok (CTime t) = wf_time t"
| "binc_ok _ = True"

text \<open>A negative zero loses its sign.\<close>

fun binc_see :: "cval \<Rightarrow> cval" where
  "binc_see (CInt i) = (if 0 < i then CUint (nat i) else CInt i)"
| "binc_see (CUint n) = (if n = 0 then CInt 0 else CUint n)"
| "binc_see (CFloat32 f) = CFloat (if f = 2 ^ 31 then 0 else widen32 f)"
| "binc_see (CFloat f) = CFloat (if f = 2 ^ 63 then 0 else f)"
| "binc_see (CExt t (Some x)) = CExt t (raw_data x)"
| "binc_see (CTime t) = CTime (seen_time t)"
| "binc_see v = v"

lemma nil_descriptor [simp]: "push_bit 4 bincVdSpecial OR bincSpNil = 0"
  by (simp add: binc_descriptors)

lemma binc_scalar:
  assumes "scalar v" "binc_ok v"
  shows "reads_as bincDriver (d_naked bincDriver) (encodeScalar bincDriver v) (Naked (binc_see v))"
proof (cases v)
  case (CInt i)
  then have ok: "binc_int_ok i"
    using assms(2) by simp
  consider "i < - 1" | "i = - 1" | "0 \<le> i"
    by linarith
  then show ?thesis
  proof cases
    case 1
    show ?thesis
      by (rule binc_neg[OF ok 1]) (use 1 in \<open>simp add: reads_as_def CInt bincDriver_def\<close>)
  next
    case 2
    then show ?thesis
      by (simp add: reads_as_def CInt bincDriver_def binc_encodeInt_def binc_special_def binc_decodeNaked_def
        binc_nakedSpecial_def vd_def vs_def binc_descriptors)
  next
    case 3
    then have n: "nat i < 2 ^ 64" "binc_encodeInt i = binc_encodeUint (nat i)"
      using ok by (simp_all add: binc_int_ok_def nat_less_iff binc_encodeInt_def binc_encodeUint_def)
    show ?thesis
      by (rule binc_uint[OF n(1)]) (use 3 n(2) in \<open>simp add: reads_as_def CInt bincDriver_def\<close>)
  qed
next
  case (CUint n)
  then have "n < 2 ^ 64"
    using assms(2) by simp
  then show ?thesis
    by (rule binc_uint) (simp add: reads_as_def CUint bincDriver_def)
next
  case (CFloat f)
  then have "f < 2 ^ 64"
    using assms(2) by simp
  then show ?thesis
    by (rule binc_float) (simp add: reads_as_def CFloat bincDriver_def)
next
  case (CFloat32 f)
  then have "f < 2 ^ 32"
    using assms(2) by simp
  then show ?thesis
    by (rule binc_float32) (simp add: reads_as_def CFloat32 bincDriver_def)
next
  case (CString x)
  then have "length x < 65536"
    using assms(2) by simp
  then show ?thesis
    by (rule binc_string) (simp add: reads_as_def CString bincDriver_def binc_decodeNaked_def binc_descriptors)
next
  case (CBytes x)
  then have "length x < 65536"
    using assms(2) by simp
  then show ?thesis
    by (rule binc_bytes) (simp add: reads_as_def CBytes bincDriver_def binc_decodeNaked_def binc_descriptors fill_bytes_nil)
next
  case (CExt t y)
  then obtain x where x: "y = Some x" "length x < 65536"
    using assms by (cases y) auto
  show ?thesis
    by (rule binc_ext[OF x(2), of t]) (simp add: reads_as_def CExt x(1) bincDriver_def binc_decodeNaked_def binc_descriptors)
next
  case (CTime t)
  then have "wf_time t"
    using assms(2) by simp
  then show ?thesis
    by (rule binc_time) (simp add: reads_as_def CTime bincDriver_def)
qed (use assms in \<open>simp_all add: reads_as_def bincDriver_def binc_special_def binc_decodeNaked_def
  binc_nakedSpecial_def vd_def vs_def binc_descriptors\<close>)

lemma binc_int:
  assumes "binc_ok (CInt i)"
  shows "reads_as bincDriver (\<lambda>s bd r. unstated (d_int bincDriver 64 bd r) s) (e_int bincDriver i) i"
proof -
  have ok: "binc_int_ok i" "- (2 ^ 63) \<le> i" "i < 2 ^ 63"
    using assms by (simp_all add: binc_int_ok_def)
  have fits: "checkOverflow 0 i 64"
    using ok signed_of_neg[of i 64] by (cases "i < 0") (simp_all add: checkOverflow_def signed_of_def nat_less_iff)
  consider "i < - 1" | "i = - 1" | "0 \<le> i"
    by linarith
  then show ?thesis
  proof cases
    case 1
    show ?thesis
      by (rule binc_neg[OF ok(1) 1]) (use fits in \<open>simp add: reads_as_def bincDriver_def binc_decodeInt_def unstated_def\<close>)
  next
    case 2
    then show ?thesis
      using fits by (simp add: reads_as_def bincDriver_def binc_encodeInt_def binc_special_def binc_decodeInt_def
        binc_decIntAny_def vd_def vs_def binc_descriptors unstated_def)
  next
    case 3
    then have n: "nat i < 2 ^ 64" "binc_encodeInt i = binc_encodeUint (nat i)" "int64_of (nat i) = i"
      using ok by (simp_all add: nat_less_iff binc_encodeInt_def binc_encodeUint_def int64_small)
    show ?thesis
      by (rule binc_uint[OF n(1)]) (use 3 n fits in \<open>simp add: reads_as_def bincDriver_def binc_decodeInt_def unstated_def\<close>)
  qed
qed

lemma binc_unsigned:
  assumes "n < 2 ^ w" "w \<le> 64"
  shows "reads_as bincDriver (\<lambda>s bd r. unstated (d_uint bincDriver w bd r) s) (e_uint bincDriver n) n"
proof -
  have "(2 :: nat) ^ w \<le> 2 ^ 64"
    using assms(2) by (intro power_increasing) simp_all
  then have n: "n < 2 ^ 64" "checkOverflow n 0 w"
    using assms(1) by (simp_all add: checkOverflow_def)
  show ?thesis
    by (rule binc_uint[OF n(1)]) (use n(2) in \<open>simp add: reads_as_def bincDriver_def binc_decodeUint_def unstated_def\<close>)
qed

lemma binc_reads_shrink:
  "binc_decUint bd r = Some (n, r') \<Longrightarrow> length r' \<le> length r"
  "binc_decLen bd r = Some (i, r') \<Longrightarrow> length r' \<le> length r"
  "binc_decFloatPre v k r = Some (x, r') \<Longrightarrow> length r' \<le> length r"
  "fill_bytes old k r = Some (y, r') \<Longrightarrow> length r' \<le> length r"
  by (auto simp: binc_decUint_def binc_decLen_def binc_decFloatPre_def fill_bytes_def split: if_splits list.splits
      dest!: read_lengths)

lemma binc_parts_shrink:
  "binc_decFloat bd r = Some (f, r') \<Longrightarrow> length r' \<le> length r"
  "binc_decodeString m bd r = Some (m', s, r') \<Longrightarrow> length r' \<le> length r"
  "binc_decodeBytes old bd r = Some (y, r') \<Longrightarrow> length r' \<le> length r"
  "binc_rawExt bd r = Some (z, r') \<Longrightarrow> length r' \<le> length r"
  "binc_decodeBuiltin bd r = Some (t, r') \<Longrightarrow> length r' \<le> length r"
  by (auto simp: binc_decFloat_def binc_decodeString_def binc_decodeBytes_def binc_rawExt_def binc_decodeBuiltin_def
      split: if_splits option.splits list.splits dest!: read_lengths binc_reads_shrink)

lemma binc_naked_shrinks: "binc_decodeNaked m bd r = Some (m', v, r') \<Longrightarrow> length r' \<le> length r"
  by (auto simp: binc_decodeNaked_def Let_def split: if_splits dest!: binc_reads_shrink binc_parts_shrink)

lemma binc_container:
  assumes "n < 65536" "(a, vt) = (6, TArray) \<or> (a, vt) = (7, TMap)"
  obtains b t where "binc_encLen (push_bit 4 (of_nat a)) n = b # t" "vd b = of_nat a" "b \<noteq> 0"
    "binc_currentEncodedType b = vt" "\<And>r. binc_decLen b (t @ r) = Some (int n, r)"
proof -
  have "a < 16" "0 < a"
    using assms(2) by auto
  from binc_len[OF assms(1) this] obtain b t where "binc_encLen (push_bit 4 (of_nat a)) n = b # t" "vd b = of_nat a"
    "b \<noteq> 0" "\<And>r. binc_decLen b (t @ r) = Some (int n, r)"
    by blast
  then show ?thesis
    using assms(2) by (intro that[of b t]) (auto simp: binc_currentEncodedType_def binc_descriptors)
qed

lemma binc_array:
  assumes "n < 65536"
  obtains b t where "e_array bincDriver n = b # t" "vd b = bincVdArray" "b \<noteq> 0" "binc_currentEncodedType b = TArray"
    "\<And>r. binc_decLen b (t @ r) = Some (int n, r)"
  by (rule binc_container[OF assms, of 6 TArray]) (simp_all add: bincDriver_def binc_descriptors that)

lemma binc_map:
  assumes "n < 65536"
  obtains b t where "e_map bincDriver n = b # t" "vd b = bincVdMap" "b \<noteq> 0" "binc_currentEncodedType b = TMap"
    "\<And>r. binc_decLen b (t @ r) = Some (int n, r)"
  by (rule binc_container[OF assms, of 7 TMap]) (simp_all add: bincDriver_def binc_descriptors that)

interpretation binc: codec_driver bincDriver 65536 binc_ok binc_see binc_sync
proof (unfold_locales, goal_cases)
  case 1
  show ?case
    by (simp add: bincDriver_def binc_special_def)
next
  case (2 b)
  show ?case
    by (simp add: reads_as_def bincDriver_def binc_special_def binc_decodeBool_def binc_descriptors unstated_def)
next
  case (3 i)
  then show ?case
    by (rule binc_int)
next
  case (4 n w)
  then show ?case
    by (rule binc_unsigned)
next
  case (5 x)
  then show ?case
    by (rule binc_string) (simp add: reads_as_def bincDriver_def)
next
  case (6 y)
  show ?case
    by (rule binc_bytes[OF 6(2)])
      (simp add: bincDriver_def binc_currentEncodedType_def binc_descriptors)
next
  case (7 n)
  then show ?case
    by (rule binc_array) (simp add: reads_as_def bincDriver_def binc_readArrayLen_def unstated_def)
next
  case (8 n)
  then show ?case
    by (rule binc_array) (simp add: bincDriver_def)
next
  case (9 n s r)
  show ?case
    by (rule binc_array[OF 9]) (simp add: bincDriver_def binc_decodeNaked_def binc_descriptors)
next
  case (10 n)
  then show ?case
    by (rule binc_map) (simp add: reads_as_def bincDriver_def binc_readMapLen_def unstated_def)
next
  case (11 n)
  then show ?case
    by (rule binc_map) (simp add: bincDriver_def)
next
  case (12 n s r)
  show ?case
    by (rule binc_map[OF 12]) (simp add: bincDriver_def binc_decodeNaked_def binc_descriptors)
next
  case (13 v)
  then show ?case
    by (rule binc_scalar)
next
  case (14 n e d x e' bs)
  then show ?case
    using symbol_read[of n e d x e' bs] by (simp add: bincDriver_def)
next
  case (15 n e d)
  then show ?case
    by (rule sync_less)
next
  case (16 s bd r s' w r')
  then show ?case
    by (auto simp: bincDriver_def dest: binc_naked_shrinks)
next
  case (17 bd r n r')
  then show ?case
    by (auto simp: bincDriver_def binc_readArrayLen_def split: if_splits dest: binc_reads_shrink)
next
  case (18 bd r n r')
  then show ?case
    by (auto simp: bincDriver_def binc_readMapLen_def split: if_splits dest: binc_reads_shrink)
qed

section \<open>What does not\<close>

lemma neg64_small: "m < 2 ^ 63 \<Longrightarrow> neg64 (int m) = - int m"
  using signed_of_neg[of "- int m" 64] by (cases "m = 0") (simp_all add: neg64_def signed_of_def)

lemma fits_small: "m < 2 ^ 63 \<Longrightarrow> checkOverflow 0 (- int m) 64"
  using signed_of_neg[of "- int m" 64] by (cases "m = 0") (simp_all add: checkOverflow_def)

text \<open>
  A negative number in the range that \<open>binc_int_ok\<close> leaves out comes back as another one, with no error.
\<close>

theorem binc_negative_lost:
  assumes "- 4294967295 \<le> i" "i \<le> - 4286578688"
  shows "\<exists>b t j. binc_encodeInt i = b # t \<and> binc_decodeInt 64 b (t @ r) = Some (j, r) \<and> - 16777216 < j \<and> j \<le> 0"
proof -
  define n where "n = nat (- i)"
  have n: "0xff800000 \<le> n" "n \<le> 4294967295" "nat ((- i) mod 2 ^ 64) = n"
    using assms by (simp_all add: n_def)
  let ?v = "be_bytes 4 n"
  have "65408 \<le> n div 65536" "n div 65536 \<le> 65535"
    using n(1,2) by (simp_all add: less_eq_div_iff_mult_less_eq div_le_mono[of n 4294967295 65536, simplified])
  moreover from this have top: "n div 65536 div 256 = 255"
    by linarith
  ultimately have "128 \<le> n div 65536 mod 256"
    using div_mult_mod_eq[of "n div 65536" 256] by linarith
  moreover note top
  moreover have "?v = of_nat (n div 65536 div 256 mod 256) # of_nat (n div 65536 mod 256) # be_bytes 2 n"
    using be_bytes_Suc[of 3 n] be_bytes_Suc[of 2 n] by (simp add: Suc_numeral div_mult2_eq[symmetric] del: be_bytes_def)
  ultimately have "0 < pruneSignExt ?v False"
    using high_bit[of "n div 65536 mod 256"] by (simp add: sign_byte_def)
  then have "length (drop (pruneSignExt ?v False) ?v) \<le> 3"
    by simp
  then have "(256 :: nat) ^ length (drop (pruneSignExt ?v False) ?v) \<le> 256 ^ 3"
    by (intro power_increasing) simp_all
  then have m: "be_nat (drop (pruneSignExt ?v False) ?v) < 16777216"
    using le_nat_less[of "rev (drop (pruneSignExt ?v False) ?v)"] by (simp add: be_nat_def)
  define m where "m = be_nat (drop (pruneSignExt ?v False) ?v)"
  obtain b t where bt: "binc_encIntegerPrune 0x20 False n 4 = b # t" "vd b = drop_bit 4 0x20"
    "\<And>r. binc_decUint b (t @ r) = Some (m, r)"
    using pruned_read[of "0x20" 4 False n] unfolding m_def by auto
  have "binc_encodeInt i = b # t"
    using assms n bt(1) by (simp add: binc_encodeInt_def binc_encUint_def binc_descriptors)
  moreover have "binc_decodeInt 64 b (t @ r) = Some (- int m, r)"
    using m neg64_small[of m] fits_small[of m] bt(2,3)
    by (simp add: binc_decodeInt_def binc_decIntAny_def binc_descriptors int64_small flip: m_def)
  ultimately show ?thesis
    using m by (auto simp flip: m_def)
qed

text \<open>
  A length between 65536 and \<open>2 ^ 32 - 1\<close> is written in four bytes and read from the first three of them;
  the fourth is taken for the beginning of the contents.
\<close>

theorem binc_long_length:
  assumes "65536 \<le> n" "n < 2 ^ 32" "0 < a" "a < 16"
  shows "\<exists>b t. binc_encLen (push_bit 4 (of_nat a)) n = b # t \<and>
    binc_decLen b (t @ r) = Some (int (n div 256), of_nat (n mod 256) # r)"
proof -
  have vs: "vs (push_bit 4 (of_nat a) OR 2) = 2"
    using nibbles(2)[OF assms(4), of 2] by simp
  have "be_bytes 4 n = be_bytes 3 (n div 256) @ [of_nat (n mod 256)]"
    using be_bytes_snoc[of 3 n] by (simp add: Suc_numeral)
  moreover have "n div 256 < 16777216"
    using assms(2) by (simp add: less_mult_imp_div_less)
  ultimately have "binc_decLen (push_bit 4 (of_nat a) OR 2) (be_bytes 4 n @ r) = Some (int (n div 256), of_nat (n mod 256) # r)"
    using read_be_append[of 3 "n div 256" "of_nat (n mod 256) # r"] vs
    by (simp add: binc_decLen_def binc_decUint_def int64_small)
  then show ?thesis
    using assms(1,2) by (simp add: binc_encLen_def binc_encLenNumber_def)
qed

text \<open>
  The numbers of symbols are \<open>uint16\<close>: with 65536 symbols sent, the next one gets the number of the first,
  which from then on is decoded as the new one.
\<close>

theorem binc_symbols_wrap:
  assumes "enc_s e = 65536" "enc_m e u = Some 1" "enc_m e v = None" "1 < length u" "1 < length v" "length v \<le> 255"
    "binc_encodeSymbol e v = (e1, x)" "binc_encodeSymbol e1 u = (e2, y)"
  shows "\<exists>m'. binc_decodeString m (hd x) (tl x @ r) = Some (m', v, r) \<and>
    binc_decodeString m' (hd y) (tl y @ r) = Some (m', v, r)"
proof -
  have x: "x = (push_bit 4 bincVdSymbol OR 0 OR 0x4 OR 0) # [1] @ be_bytes 1 (length v) @ str_bytes v"
    and e1: "e1 = e\<lparr>enc_m := (enc_m e)(v \<mapsto> 1), enc_s := 65537\<rparr>"
    using assms(1,3,5-7) by (auto simp: binc_encodeSymbol_def Let_def lenprec_def)
  have "enc_m e1 u = Some 1"
    using assms(2,3) by (auto simp: e1)
  then have y: "y = [push_bit 4 bincVdSymbol, 1]"
    using assms(4,8) by (simp add: binc_encodeSymbol_def Let_def)
  let ?d = "push_bit 4 bincVdSymbol OR 0 OR 0x4 OR 0 :: byte"
  have bits: "vd ?d = bincVdSymbol" "vs ?d AND 0x8 = 0" "vs ?d AND 0x4 = 4" "vs ?d AND 0x3 = 0"
    using symbol_bits(5) unfolding Let_def by blast+
  have "nat (int64_of (length v)) = length v" "unat (of_nat (length v) :: byte) = length v"
    using assms(6) by (simp_all add: int64_small unat_of_nat_byte)
  then have "binc_decodeString m (hd x) (tl x @ r) = Some (m(1 \<mapsto> v), v, r)"
    using bits read_be_append[of 1 "length v" "str_bytes v @ r"] assms(6)
    unfolding x list.sel binc_decodeString_def by (simp add: binc_descriptors(5,6,11))
  moreover have "binc_decodeString (m(1 \<mapsto> v)) (hd y) (tl y @ r) = Some (m(1 \<mapsto> v), v, r)"
    using symbol_bits(1,2) by (simp add: y binc_decodeString_def binc_descriptors(5,6,11))
  ultimately show ?thesis
    by blast
qed

end
