(* ===== verification/MsgpackDriver.thy ===== *)
theory MsgpackDriver
  imports DriverProps
begin

text \<open>
  The msgpack format of \<open>msgpack.go\<close> as a driver, with both options of its handle.  \<open>Msgpack\<close> has the
  part that memberlist's messages go through, with a zero handle; the last section shows that it is this
  driver under the generic struct encoder.
\<close>

section \<open>The encoder\<close>

record msgpackHandle =
  RawToString :: bool
  WriteExt :: bool

definition mp_writeContainerLen :: "msgpackHandle \<Rightarrow> containerType \<Rightarrow> nat \<Rightarrow> bytes" where
  "mp_writeContainerLen h ct l =
     (if hasFixMin ct \<and> l < fixCutoff ct then [bFixMin ct OR of_nat l]
      else if has8 ct \<and> l < 256 \<and> (has8Always ct \<or> WriteExt h) then [b8 ct, of_nat l]
      else if l < 65536 then b16 ct # be_bytes 2 l
      else b32 ct # be_bytes 4 l)"

definition mp_encodeString :: "msgpackHandle \<Rightarrow> string \<Rightarrow> bytes" where
  "mp_encodeString h s = mp_writeContainerLen h containerStr (length s) @ str_bytes s"

definition mp_encodeStringBytes :: "msgpackHandle \<Rightarrow> bytes \<Rightarrow> bytes" where
  "mp_encodeStringBytes h bs =
     mp_writeContainerLen h (if WriteExt h then containerBin else containerStr) (length bs) @ bs"

definition mp_encodeFloat32 :: "nat \<Rightarrow> bytes" where
  "mp_encodeFloat32 f = 0xca # be_bytes 4 f"

definition mp_encodeFloat64 :: "nat \<Rightarrow> bytes" where
  "mp_encodeFloat64 f = 0xcb # be_bytes 8 f"

definition mp_encodeExtPreamble :: "byte \<Rightarrow> nat \<Rightarrow> bytes" where
  "mp_encodeExtPreamble xtag l =
     (if l = 1 then [0xd4, xtag]
      else if l = 2 then [0xd5, xtag]
      else if l = 4 then [0xd6, xtag]
      else if l = 8 then [0xd7, xtag]
      else if l = 16 then [0xd8, xtag]
      else if l < 256 then [0xc7, of_nat l, xtag]
      else if l < 65536 then 0xc8 # be_bytes 2 l @ [xtag]
      else 0xc9 # be_bytes 4 l @ [xtag])"

section \<open>The decoder\<close>

definition mp_decodeInt :: "nat \<Rightarrow> int reader" where
  "mp_decodeInt bitsize bd r =
     (case decodeInt bd r of
        None \<Rightarrow> None
      | Some (i, r) \<Rightarrow> if checkOverflow 0 i bitsize then Some (i, r) else None)"

definition mp_decodeFloat :: "bool \<Rightarrow> nat reader" where
  "mp_decodeFloat chkOverflow32 bd r =
     (case
        (if bd = 0xca then map_option (\<lambda>(n, r). (widen32 n, r)) (read_be 4 r)
         else if bd = 0xcb then read_be 8 r
         else map_option (\<lambda>(i, r). (float64_of i, r)) (mp_decodeInt 0 bd r))
      of None \<Rightarrow> None
       | Some (f, r) \<Rightarrow> if checkOverflowFloat32 f chkOverflow32 then Some (f, r) else None)"

definition is_bin :: "byte \<Rightarrow> bool" where
  "is_bin bd \<longleftrightarrow> bd = 0xc4 \<or> bd = 0xc5 \<or> bd = 0xc6"

definition is_str :: "byte \<Rightarrow> bool" where
  "is_str bd \<longleftrightarrow> bd = 0xd9 \<or> bd = 0xda \<or> bd = 0xdb \<or> 0xa0 \<le> bd \<and> bd \<le> 0xbf"

definition mp_currentEncodedType :: "msgpackHandle \<Rightarrow> byte \<Rightarrow> valueType" where
  "mp_currentEncodedType h bd = (if is_str bd \<and> RawToString h then TString else currentEncodedType bd)"

definition mp_decodeBytes :: "bytes option \<Rightarrow> (bytes option \<times> bytes option) reader" where
  "mp_decodeBytes bs bd r =
     (case readContainerLen (if is_bin bd then containerBin else containerStr) bd r of
        None \<Rightarrow> None
      | Some (clen, r) \<Rightarrow> fill_bytes bs (nat clen) r)"

definition mp_rawExt :: "(byte \<times> bytes) reader" where
  "mp_rawExt bd r =
     (case readExtLen bd r of
        None \<Rightarrow> None
      | Some (clen, []) \<Rightarrow> None
      | Some (clen, xtag # r) \<Rightarrow> map_option (\<lambda>(x, r). ((xtag, x), r)) (readn clen r))"

definition mp_decodeExt :: "bool \<Rightarrow> byte \<Rightarrow> (byte \<times> bytes) reader" where
  "mp_decodeExt verifyTag tag bd r =
     (if is_bin bd then map_option (\<lambda>((_, x), r). ((0, slice_or_nil x), r)) (mp_decodeBytes None bd r)
      else if is_str bd then map_option (\<lambda>(s, r). ((0, str_bytes s), r)) (decodeString bd r)
      else case mp_rawExt bd r of
        None \<Rightarrow> None
      | Some ((xtag, xbs), r) \<Rightarrow> if verifyTag \<and> xtag \<noteq> tag then None else Some ((xtag, xbs), r))"

text \<open>
  The strings: \<open>decodeNaked\<close> returns a pointer to an empty string or byte slice, which \<open>decode\<close> fills.
  The number of a fixnum is signed.
\<close>

definition mp_decodeNaked :: "msgpackHandle \<Rightarrow> byte \<Rightarrow> bytes \<Rightarrow> (nakedval \<times> bytes) option" where
  "mp_decodeNaked h bd r =
     (case currentEncodedType bd of
        TNil \<Rightarrow> Some (Naked CNil, r)
      | TBool \<Rightarrow> Some (Naked (CBool (bd = 0xc3)), r)
      | TFloat \<Rightarrow> map_option (\<lambda>(f, r). (Naked (CFloat f), r))
          (if bd = 0xca then map_option (\<lambda>(n, r). (widen32 n, r)) (read_be 4 r) else read_be 8 r)
      | TUint \<Rightarrow> map_option (\<lambda>(n, r). (Naked (CUint n), r)) (decodeUint 64 bd r)
      | TInt \<Rightarrow> map_option (\<lambda>(i, r). (Naked (CInt i), r)) (decodeInt bd r)
      | TBytes \<Rightarrow>
          if is_str bd \<and> RawToString h then map_option (\<lambda>(s, r). (Naked (CString s), r)) (decodeString bd r)
          else map_option (\<lambda>((_, x), r). (Naked (CBytes (slice_or_nil x)), r)) (mp_decodeBytes (Some []) bd r)
      | TArray \<Rightarrow> Some (NakedArray, r)
      | TMap \<Rightarrow> Some (NakedMap, r)
      | TExt \<Rightarrow> map_option (\<lambda>((t, x), r). (Naked (CExt t (raw_data x)), r)) (mp_rawExt bd r)
      | _ \<Rightarrow> None)"

section \<open>The driver\<close>

definition msgpackDriver :: "msgpackHandle \<Rightarrow> (gotime \<Rightarrow> bytes) \<Rightarrow> (unit, unit) driver" where
  "msgpackDriver h MarshalBinary =
     \<lparr>writesExt = WriteExt h, newEnc = (), newDec = (),
      e_nil = encodeNil,
      e_bool = encodeBool,
      e_int = encodeInt,
      e_uint = encodeUint,
      e_float32 = mp_encodeFloat32,
      e_float64 = mp_encodeFloat64,
      e_ext = mp_encodeExtPreamble,
      e_array = mp_writeContainerLen h containerList,
      e_map = mp_writeContainerLen h containerMap,
      e_string = mp_encodeString h,
      e_symbol = (\<lambda>e s. (e, mp_encodeString h s)),
      e_bytes = mp_encodeStringBytes h,
      e_time = (\<lambda>t. mp_encodeStringBytes h (MarshalBinary t)),
      d_nil = (\<lambda>bd. bd = 0xc0),
      d_type = mp_currentEncodedType h,
      d_naked = (\<lambda>s bd r. unstated (mp_decodeNaked h bd r) s),
      d_int = mp_decodeInt,
      d_uint = decodeUint,
      d_float = mp_decodeFloat,
      d_bool = decodeBool,
      d_string = (\<lambda>s bd r. unstated (decodeString bd r) s),
      d_bytes = mp_decodeBytes,
      d_ext = mp_decodeExt,
      d_array = readContainerLen containerList,
      d_map = readContainerLen containerMap\<rparr>"

section \<open>What survives\<close>

fun mp_ok :: "cval \<Rightarrow> bool" where
  "mp_ok (CInt i) = (- (2 ^ 63) \<le> i \<and> i < 2 ^ 63)"
| "mp_ok (CUint n) = (n < 2 ^ 64)"
| "mp_ok (CFloat32 f) = (f < 2 ^ 32)"
| "mp_ok (CFloat f) = (f < 2 ^ 64)"
| "mp_ok (CString s) = (length s < 2 ^ 32)"
| "mp_ok (CBytes x) = (length x < 2 ^ 32)"
| "mp_ok (CExt t (Some x)) = (length x < 2 ^ 32)"
| "mp_ok (CTime t) = False"
| "mp_ok _ = True"

text \<open>
  Numbers up to 127 come back signed and the larger ones unsigned; strings and byte slices are not told
  apart without \<open>WriteExt\<close>.
\<close>

definition mp_number :: "int \<Rightarrow> cval" where
  "mp_number i = (if 128 \<le> i then CUint (nat i) else CInt i)"

definition mp_raw :: "msgpackHandle \<Rightarrow> bytes \<Rightarrow> cval" where
  "mp_raw h x = (if RawToString h then CString (bytes_str x) else CBytes x)"

fun mp_see :: "msgpackHandle \<Rightarrow> cval \<Rightarrow> cval" where
  "mp_see h (CInt i) = mp_number i"
| "mp_see h (CUint n) = mp_number (int n)"
| "mp_see h (CFloat32 f) = CFloat (widen32 f)"
| "mp_see h (CString s) = mp_raw h (str_bytes s)"
| "mp_see h (CBytes x) = (if WriteExt h then CBytes x else mp_raw h x)"
| "mp_see h (CExt t (Some x)) = (if WriteExt h then CExt t (raw_data x) else mp_raw h x)"
| "mp_see h v = v"

lemma fix_list_all:
  "\<forall>l\<in>set [0..<16]. let b = (0x90 :: byte) OR of_nat l
     in unat b = 144 + l \<and> 0x90 AND b = 0x90 \<and> unat (0x90 XOR b) = l"
  by code_simp

lemma fix_list:
  assumes "l < 16"
  shows "unat ((0x90 :: byte) OR of_nat l) = 144 + l" "0x90 AND ((0x90 :: byte) OR of_nat l) = 0x90"
    "unat (0x90 XOR ((0x90 :: byte) OR of_nat l)) = l"
  using fix_list_all assms unfolding Let_def by (metis atLeastLessThan_iff set_upt zero_le)+

lemma mp_str_len:
  assumes "n < 2 ^ 32"
  obtains b t where "mp_writeContainerLen h containerStr n = b # t" "currentEncodedType b = TBytes" "b \<noteq> 0xc0"
    "is_bin b = False" "is_str b = True"
    "\<And>r. readContainerLen containerStr b (t @ r) = Some (int n, r)"
proof (cases "n < 32")
  case True
  define b where "b = (0xa0 :: byte) OR of_nat n"
  note b = fix_str[OF True, folded b_def]
  show ?thesis
    using True b by (intro that[of b "[]"]) (simp_all add: mp_writeContainerLen_def readContainerLen_def containerStr_def
      currentEncodedType_def is_bin_def is_str_def byte_simps b_def[symmetric] del: of_nat_unat)
next
  case False
  consider "n < 256" | "256 \<le> n" "n < 65536" | "65536 \<le> n"
    by linarith
  then show ?thesis
    using False assms
    by cases (cases "WriteExt h"; simp add: that mp_writeContainerLen_def readContainerLen_def containerStr_def
      currentEncodedType_def is_bin_def is_str_def unat_of_nat_byte)+
qed

lemma mp_bin_len:
  assumes "n < 2 ^ 32"
  obtains b t where "mp_writeContainerLen h containerBin n = b # t" "currentEncodedType b = TBytes" "b \<noteq> 0xc0"
    "is_bin b = True" "is_str b = False"
    "\<And>r. readContainerLen containerBin b (t @ r) = Some (int n, r)"
proof -
  consider "n < 256" | "256 \<le> n" "n < 65536" | "65536 \<le> n"
    by linarith
  then show ?thesis
    using assms by cases (simp_all add: that mp_writeContainerLen_def readContainerLen_def containerBin_def
      currentEncodedType_def is_bin_def is_str_def unat_of_nat_byte)
qed

lemma mp_list_len:
  assumes "n < 2 ^ 32"
  obtains b t where "mp_writeContainerLen h containerList n = b # t" "currentEncodedType b = TArray" "b \<noteq> 0xc0"
    "is_bin b = False" "is_str b = False"
    "\<And>r. readContainerLen containerList b (t @ r) = Some (int n, r)"
proof (cases "n < 16")
  case True
  define b where "b = (0x90 :: byte) OR of_nat n"
  note b = fix_list[OF True, folded b_def]
  show ?thesis
    using True b by (intro that[of b "[]"]) (simp_all add: mp_writeContainerLen_def readContainerLen_def containerList_def
      currentEncodedType_def is_bin_def is_str_def byte_simps b_def[symmetric] del: of_nat_unat)
next
  case False
  consider "n < 256" | "256 \<le> n" "n < 65536" | "65536 \<le> n"
    by linarith
  then show ?thesis
    using False assms
    by cases (cases "WriteExt h"; simp add: that mp_writeContainerLen_def readContainerLen_def containerList_def
      currentEncodedType_def is_bin_def is_str_def unat_of_nat_byte)+
qed

lemma mp_map_len:
  assumes "n < 2 ^ 32"
  obtains b t where "mp_writeContainerLen h containerMap n = b # t" "currentEncodedType b = TMap" "b \<noteq> 0xc0"
    "is_bin b = False" "is_str b = False"
    "\<And>r. readContainerLen containerMap b (t @ r) = Some (int n, r)"
proof (cases "n < 16")
  case True
  define b where "b = (0x80 :: byte) OR of_nat n"
  note b = fix_map[OF True, folded b_def]
  show ?thesis
    using True b by (intro that[of b "[]"]) (simp_all add: mp_writeContainerLen_def readContainerLen_def containerMap_def
      currentEncodedType_def is_bin_def is_str_def byte_simps b_def[symmetric] del: of_nat_unat)
next
  case False
  consider "n < 256" | "256 \<le> n" "n < 65536" | "65536 \<le> n"
    by linarith
  then show ?thesis
    using False assms
    by cases (cases "WriteExt h"; simp add: that mp_writeContainerLen_def readContainerLen_def containerMap_def
      currentEncodedType_def is_bin_def is_str_def unat_of_nat_byte)+
qed

lemma mp_string:
  assumes "length x < 2 ^ 32"
  obtains b t where "mp_encodeString h x = b # t" "currentEncodedType b = TBytes" "b \<noteq> 0xc0" "\<not> is_bin b" "is_str b"
    "\<And>r. decodeString b (t @ r) = Some (x, r)"
    "\<And>old r. mp_decodeBytes old b (t @ r) = fill_bytes old (length x) (str_bytes x @ r)"
proof (rule mp_str_len[OF assms, of h])
  fix b t
  assume l: "mp_writeContainerLen h containerStr (length x) = b # t" "currentEncodedType b = TBytes" "b \<noteq> 0xc0"
    "is_bin b = False" "is_str b = True" "\<And>r. readContainerLen containerStr b (t @ r) = Some (int (length x), r)"
  have "decodeString b (t @ str_bytes x @ r) = Some (x, r)" for r
    using l(6) by (cases x) (simp_all add: decodeString_def str_bytes_def[of "[]"])
  then show ?thesis
    using l by (intro that[of b "t @ str_bytes x"]) (simp_all add: mp_encodeString_def mp_decodeBytes_def)
qed

lemma mp_bytes:
  assumes "length x < 2 ^ 32"
  obtains b t where "mp_encodeStringBytes h x = b # t" "currentEncodedType b = TBytes" "b \<noteq> 0xc0"
    "is_str b = (\<not> WriteExt h)" "\<And>r. \<not> WriteExt h \<Longrightarrow> decodeString b (t @ r) = Some (bytes_str x, r)"
    "\<And>old r. mp_decodeBytes old b (t @ r) = fill_bytes old (length x) (x @ r)"
proof (cases "WriteExt h")
  case True
  show ?thesis
    by (rule mp_bin_len[OF assms, of h])
      (use True in \<open>auto intro!: that simp: mp_encodeStringBytes_def mp_decodeBytes_def\<close>)
next
  case False
  have x: "length (bytes_str x) < 2 ^ 32" "mp_encodeString h (bytes_str x) = mp_encodeStringBytes h x"
    using assms False by (simp_all add: mp_encodeStringBytes_def mp_encodeString_def)
  show ?thesis
    by (rule mp_string[OF x(1), of h]) (simp_all add: False x(2) that)
qed

lemma mp_ext:
  assumes "length x < 2 ^ 32"
  obtains b t where "mp_encodeExtPreamble tag (length x) @ x = b # t" "currentEncodedType b = TExt" "b \<noteq> 0xc0"
    "\<And>r. mp_rawExt b (t @ r) = Some ((tag, x), r)"
proof -
  consider "length x \<in> {1, 2, 4, 8, 16}" | "length x \<notin> {1, 2, 4, 8, 16}" "length x < 256"
    | "256 \<le> length x" "length x < 65536" | "65536 \<le> length x"
    by linarith
  then show ?thesis
  proof cases
    case 1
    then show ?thesis
      by (auto intro!: that simp: mp_encodeExtPreamble_def mp_rawExt_def readExtLen_def currentEncodedType_def)
  next
    case 2
    then show ?thesis
      by (simp add: that mp_encodeExtPreamble_def mp_rawExt_def readExtLen_def currentEncodedType_def unat_of_nat_byte)
  next
    case 3
    then show ?thesis
      by (simp add: that mp_encodeExtPreamble_def mp_rawExt_def readExtLen_def currentEncodedType_def)
  next
    case 4
    then show ?thesis
      using assms by (simp add: that mp_encodeExtPreamble_def mp_rawExt_def readExtLen_def currentEncodedType_def)
  qed
qed

lemma uint_type: "currentEncodedType (hd (encodeUint n)) = (if n \<le> 127 then TInt else TUint)"
proof -
  consider "n \<le> 127" | "127 < n" "n \<le> 255" | "255 < n" "n \<le> 65535" | "65535 < n" "n \<le> 4294967295" | "4294967295 < n"
    by linarith
  then show ?thesis
    by cases (simp_all add: encodeUint_def currentEncodedType_def byte_simps)
qed

lemma int_type: "i < 0 \<Longrightarrow> currentEncodedType (hd (encodeInt i)) = TInt"
proof -
  assume i: "i < 0"
  consider "- 32 \<le> i" | "i < - 32"
    by linarith
  then show ?thesis
  proof cases
    case 1
    have "unat (of_int i :: byte) = nat (i + 256)"
      using nat_mod_neg[of i 8] 1 i by (simp add: unat_of_int_byte)
    then show ?thesis
      using 1 i by (simp add: encodeInt_def currentEncodedType_def byte_simps)
  qed (use i in \<open>simp add: encodeInt_def currentEncodedType_def\<close>)
qed

lemma mp_uint:
  assumes "n < 2 ^ 64"
  obtains b t where "encodeUint n = b # t" "b \<noteq> 0xc0" "\<And>r. mp_decodeNaked h b (t @ r) = Some (Naked (mp_number (int n)), r)"
proof -
  obtain b t where e: "encodeUint n = b # t" "b \<noteq> 0xc0" "\<And>r. decodeUint 64 b (t @ r) = Some (n, r)"
    using reads_uint[of n 64] assms unfolding reads_def by (cases "encodeUint n") auto
  have i: "decodeInt b (t @ r) = Some (int n, r)" if "n \<le> 127" for r
    using reads_int_nonneg[of n] that e(1) by (simp add: reads_def)
  show ?thesis
    using e i uint_type[of n] by (intro that[of b t]) (auto simp: mp_decodeNaked_def mp_number_def)
qed

lemma mp_int:
  assumes "- (2 ^ 63) \<le> i" "i < 2 ^ 63"
  obtains b t where "encodeInt i = b # t" "b \<noteq> 0xc0" "\<And>r. decodeInt b (t @ r) = Some (i, r)"
    "\<And>r. mp_decodeNaked h b (t @ r) = Some (Naked (mp_number i), r)"
proof -
  obtain b t where e: "encodeInt i = b # t" "b \<noteq> 0xc0" "\<And>r. decodeInt b (t @ r) = Some (i, r)"
    using reads_int[OF assms] unfolding reads_def by (cases "encodeInt i") auto
  have "mp_decodeNaked h b (t @ r) = Some (Naked (mp_number i), r)" for r
  proof (cases "i < 0")
    case True
    then show ?thesis
      using int_type[OF True] e by (simp add: mp_decodeNaked_def mp_number_def)
  next
    case False
    then have n: "nat i < 2 ^ 64" "encodeInt i = encodeUint (nat i)"
      using assms by (simp_all add: nat_less_iff encodeInt_def)
    show ?thesis
      by (rule mp_uint[OF n(1), of h]) (use False n(2) e(1) in simp)
  qed
  then show ?thesis
    using e that by blast
qed

lemma mp_scalar:
  assumes "scalar v" "mp_ok v"
  shows "reads_as (msgpackDriver h mb) (d_naked (msgpackDriver h mb)) (encodeScalar (msgpackDriver h mb) v)
    (Naked (mp_see h v))"
proof (cases v)
  case (CInt i)
  then have i: "- (2 ^ 63) \<le> i" "i < 2 ^ 63"
    using assms(2) by simp_all
  show ?thesis
    by (rule mp_int[OF i, of h]) (simp add: reads_as_def CInt msgpackDriver_def unstated_def)
next
  case (CUint n)
  then have n: "n < 2 ^ 64"
    using assms(2) by simp
  show ?thesis
    by (rule mp_uint[OF n, of h]) (simp add: reads_as_def CUint msgpackDriver_def unstated_def)
next
  case (CString x)
  then have x: "length x < 2 ^ 32"
    using assms(2) by simp
  have f: "fill_bytes (Some []) (length x) (str_bytes x @ r) = Some ((Some [], raw_data (str_bytes x)), r)" for r
    using fill_bytes_empty[of "str_bytes x" r] by simp
  show ?thesis
    by (rule mp_string[OF x, of h])
      (simp add: reads_as_def CString msgpackDriver_def unstated_def mp_decodeNaked_def mp_raw_def f)
next
  case (CBytes x)
  then have x: "length x < 2 ^ 32"
    using assms(2) by simp
  show ?thesis
    by (rule mp_bytes[OF x, of h])
      (simp add: reads_as_def CBytes msgpackDriver_def unstated_def mp_decodeNaked_def mp_raw_def fill_bytes_empty)
next
  case (CExt t y)
  then obtain x where x: "y = Some x" "length x < 2 ^ 32"
    using assms by (cases y) auto
  show ?thesis
  proof (cases "WriteExt h")
    case True
    show ?thesis
      by (rule mp_ext[OF x(2), of t]) (use True in \<open>simp add: reads_as_def CExt x(1) msgpackDriver_def unstated_def
        mp_decodeNaked_def\<close>)
  next
    case False
    show ?thesis
      by (rule mp_bytes[OF x(2), of h]) (use False in \<open>simp add: reads_as_def CExt x(1) msgpackDriver_def unstated_def
        mp_decodeNaked_def mp_raw_def fill_bytes_empty\<close>)
  qed
qed (use assms in \<open>simp_all add: reads_as_def msgpackDriver_def unstated_def mp_decodeNaked_def currentEncodedType_def
  encodeBool_def mp_encodeFloat32_def mp_encodeFloat64_def\<close>)

lemma mp_naked_shrinks: "mp_decodeNaked h bd r = Some (v, r') \<Longrightarrow> length r' \<le> length r"
proof -
  have bytes: "mp_decodeBytes old bd r = Some (y, r') \<Longrightarrow> length r' \<le> length r" for old y
    by (auto simp: mp_decodeBytes_def split: option.splits dest!: readContainerLen_length fill_shrinks)
  have ext: "mp_rawExt bd r = Some (z, r') \<Longrightarrow> length r' \<le> length r" for z
    by (auto simp: mp_rawExt_def split: option.splits list.splits dest!: readExtLen_length readn_length)
  show "mp_decodeNaked h bd r = Some (v, r') \<Longrightarrow> length r' \<le> length r"
    by (auto simp: mp_decodeNaked_def split: valueType.splits if_splits
        dest!: read_lengths decodeInt_length decodeUint_length decodeString_length bytes ext)
qed

interpretation mp: codec_driver "msgpackDriver h mb" "2 ^ 32" mp_ok "mp_see h" "\<lambda>n e d. True"
proof (unfold_locales, goal_cases)
  case 1
  show ?case
    by (simp add: msgpackDriver_def encodeNil_def)
next
  case (2 b)
  show ?case
    by (simp add: reads_as_def msgpackDriver_def encodeBool_def decodeBool_def unstated_def)
next
  case (3 i)
  then have i: "- (2 ^ 63) \<le> i" "i < 2 ^ 63"
    by simp_all
  have "checkOverflow 0 i 64"
    using i signed_of_neg[of i 64] by (cases "i < 0") (simp_all add: checkOverflow_def signed_of_def nat_less_iff)
  then show ?case
    by - (rule mp_int[OF i, of h], simp add: reads_as_def msgpackDriver_def mp_decodeInt_def unstated_def)
next
  case (4 n w)
  then show ?case
    using reads_uint[of n w] by (simp add: reads_def reads_as_def msgpackDriver_def unstated_def)
next
  case (5 x)
  show ?case
    by (rule mp_string[OF 5, of h]) (simp add: reads_as_def msgpackDriver_def unstated_def)
next
  case (6 y)
  show ?case
    by (rule mp_bytes[OF 6(2), of h]) (simp add: msgpackDriver_def mp_currentEncodedType_def)
next
  case (7 n)
  show ?case
    by (rule mp_list_len[OF 7, of h]) (simp add: reads_as_def msgpackDriver_def unstated_def)
next
  case (8 n)
  show ?case
    by (rule mp_list_len[OF 8, of h]) (simp add: msgpackDriver_def mp_currentEncodedType_def)
next
  case (9 n s r)
  show ?case
    by (rule mp_list_len[OF 9, of h]) (simp add: msgpackDriver_def mp_decodeNaked_def unstated_def)
next
  case (10 n)
  show ?case
    by (rule mp_map_len[OF 10, of h]) (simp add: reads_as_def msgpackDriver_def unstated_def)
next
  case (11 n)
  show ?case
    by (rule mp_map_len[OF 11, of h]) (simp add: msgpackDriver_def mp_currentEncodedType_def)
next
  case (12 n s r)
  show ?case
    by (rule mp_map_len[OF 12, of h]) (simp add: msgpackDriver_def mp_decodeNaked_def unstated_def)
next
  case (13 v)
  then show ?case
    by (rule mp_scalar)
next
  case (14 n e d x e' bs)
  then have bs: "bs = mp_encodeString h x"
    by (simp add: msgpackDriver_def)
  show ?case
    unfolding bs by (rule mp_string[OF 14(2), of h]) (simp add: msgpackDriver_def unstated_def)
next
  case (15 n e d)
  show ?case ..
next
  case (16 s bd r s' w r')
  then show ?case
    by (auto simp: msgpackDriver_def unstated_def dest: mp_naked_shrinks)
next
  case (17 bd r n r')
  then show ?case
    by (auto simp: msgpackDriver_def dest: readContainerLen_length)
next
  case (18 bd r n r')
  then show ?case
    by (auto simp: msgpackDriver_def dest: readContainerLen_length)
qed

section \<open>The struct encoder of \<open>Msgpack\<close>\<close>

text \<open>With the zero handle, \<open>encodeStruct\<close> is \<open>kStruct\<close> on this driver.\<close>

definition zeroHandle :: msgpackHandle where
  "zeroHandle = \<lparr>RawToString = False, WriteExt = False\<rparr>"

definition plain_fields :: "gostruct \<Rightarrow> sfields" where
  "plain_fields fs = map (\<lambda>(n, v). (\<lparr>encName = n, omitEmpty = False, toArray = False\<rparr>, v)) fs"

lemma zero_containers: "mp_writeContainerLen zeroHandle ct l = writeContainerLen ct l"
  by (simp add: mp_writeContainerLen_def writeContainerLen_def zeroHandle_def writeExt_def)

lemma zero_field: "encodeField (msgpackDriver zeroHandle mb) v = encodeValue v"
proof -
  have "mp_encodeStringBytes zeroHandle x = encodeStringBytes x" "mp_encodeString zeroHandle s = encodeString s" for x s
    by (simp_all add: mp_encodeStringBytes_def encodeStringBytes_def mp_encodeString_def encodeString_def
        zero_containers) (simp add: zeroHandle_def writeExt_def)
  then show ?thesis
    by (cases v rule: encodeValue.cases) (simp_all add: msgpackDriver_def)
qed

lemma zero_name: "encodeName (msgpackDriver zeroHandle mb) opts e n = (e, encodeString n)"
  by (simp add: encodeName_def msgpackDriver_def mp_encodeString_def encodeString_def zero_containers)

lemma zero_fields:
  "encodeFields (msgpackDriver zeroHandle mb) opts e (plain_fields fs) =
    (e, concat (map (\<lambda>(n, v). encodeString n @ encodeValue v) fs))"
  by (induction fs) (auto simp: plain_fields_def zero_name zero_field)

lemma sort_plain: "sort_key (encName \<circ> fst) (plain_fields fs) = plain_fields (sfi fs)"
proof -
  have "insort_key (encName \<circ> fst) (\<lparr>encName = n, omitEmpty = False, toArray = False\<rparr>, v) (plain_fields fs) =
      plain_fields (insort_key fst (n, v) fs)" for n v fs
    by (induction fs) (auto simp: plain_fields_def)
  moreover have "plain_fields [] = []" "plain_fields (x # xs) =
      (\<lparr>encName = fst x, omitEmpty = False, toArray = False\<rparr>, snd x) # plain_fields xs" for x xs
    by (simp_all add: plain_fields_def split: prod.split)
  ultimately show ?thesis
    unfolding sfi_def by (induction fs) auto
qed

lemma length_plain: "length (plain_fields fs) = length fs"
  by (simp add: plain_fields_def)

theorem msgpack_struct:
  assumes "\<not> StructToArray opts"
  shows "kStruct (msgpackDriver zeroHandle mb) opts False e (plain_fields fs) = Some (e, encodeStruct fs)"
proof -
  have "\<forall>f\<in>set (plain_fields xs). \<not> omitted f" for xs
    by (auto simp: plain_fields_def omitted_def)
  then have "filter (\<lambda>f. \<not> omitted f) (plain_fields xs) = plain_fields xs" for xs
    by simp
  moreover have "e_map (msgpackDriver zeroHandle mb) n = writeContainerLen containerMap n" for n
    by (simp add: msgpackDriver_def zero_containers)
  moreover have "length (sfi fs) = length fs"
    by (simp add: sfi_def)
  ultimately show ?thesis
    using assms by (simp add: kStruct_def sort_plain encodeStruct_def Let_def zero_fields length_plain)
qed

end
