(* ===== verification/TypeInfo.thy ===== *)
theory TypeInfo
  imports DriverProps GoStrings
begin

text \<open>
  What the codec knows of a type, \<open>helper.go\<close>: the fields of a struct with their tags, in what order they
  are encoded, how a name from the stream finds its field, and the registered extensions.
\<close>

section \<open>Tags\<close>

text \<open>A field without a name panics, which is None.\<close>

definition parseStructFieldInfo :: "string \<Rightarrow> string \<Rightarrow> structFieldInfo option" where
  "parseStructFieldInfo fname stag =
     (if fname = '''' then None
      else Some (case (if stag = '''' then [] else split_on CHR '','' stag) of
        [] \<Rightarrow> \<lparr>encName = fname, omitEmpty = False, toArray = False\<rparr>
      | s # opts \<Rightarrow>
          \<lparr>encName = (if s \<noteq> '''' then s else fname), omitEmpty = ''omitempty'' \<in> set opts,
           toArray = ''toarray'' \<in> set opts\<rparr>))"

section \<open>Fields\<close>

text \<open>
  A type as far as \<open>rgetTypeInfo\<close> looks at it: a struct with its fields (name, tag, whether it is embedded,
  type), a pointer, or something else.  A struct that embeds a pointer to itself, on which the code does
  not return, is not such a type.
\<close>

datatype gotype = GStruct "(string \<times> string \<times> bool \<times> gotype) list" | GPtr gotype | GOther

fun base_type :: "gotype \<Rightarrow> gotype" where
  "base_type (GPtr t) = base_type t"
| "base_type t = t"

text \<open>
  A field that goes on the wire: its name in Go, what its tag says, and the way to it through embedded
  structs.
\<close>

type_synonym fieldInfo = "string \<times> structFieldInfo \<times> nat list"

lemma base_type_size: "size (base_type t) \<le> size t"
  by (induction t rule: base_type.induct) auto

lemma fields_size: "size_list (\<lambda>(_, _, _, t). size t) gs < size (GStruct gs)"
  by (induction gs) auto

text \<open>
  \<open>rgetTypeInfo\<close>: the fields from the \<open>j\<close>-th on, with the embedded structs in their place.  A name that is
  already there is skipped, wherever it came from.  \<open>exported\<close> is Go's test for an upper case letter at the
  front, \<open>omit\<close> the option of the \<open>_struct\<close> field.
\<close>

function rgetTypeInfo ::
  "(string \<Rightarrow> bool) \<Rightarrow> bool \<Rightarrow> nat list \<Rightarrow> nat \<Rightarrow> (string \<times> string \<times> bool \<times> gotype) list \<Rightarrow>
   fieldInfo list \<Rightarrow> fieldInfo list" where
  "rgetTypeInfo exported omit indexstack j [] acc = acc"
| "rgetTypeInfo exported omit indexstack j ((fname, stag, anonymous, ty) # fs) acc =
     rgetTypeInfo exported omit indexstack (Suc j) fs
       (if stag = ''-'' \<or> fname = '''' \<or> \<not> exported fname then acc
        else case (if anonymous \<and> stag = '''' then base_type ty else GOther) of
          GStruct gs \<Rightarrow> rgetTypeInfo exported omit (indexstack @ [j]) 0 gs acc
        | _ \<Rightarrow>
            if fname \<in> fst ` set acc then acc
            else (case parseStructFieldInfo fname stag of
                None \<Rightarrow> acc
              | Some si \<Rightarrow> acc @ [(fname, si\<lparr>omitEmpty := omitEmpty si \<or> omit\<rparr>, indexstack @ [j])]))"
  by pat_completeness auto

termination
proof (relation "measure (\<lambda>(_, _, _, _, fs, _). size_list (\<lambda>(_, _, _, t). size t) fs)", goal_cases)
  case (2 exported omit indexstack j fname stag anonymous ty fs acc gs)
  have "anonymous \<and> stag = '''' \<and> base_type ty = GStruct gs"
    using 2(2) by (auto split: if_splits)
  then show ?case
    using base_type_size[of ty] fields_size[of gs] by simp
qed auto

text \<open>
  \<open>getTypeInfo\<close> on a struct: whether it becomes an array, the fields in the order of the declaration
  (\<open>sfip\<close>), and sorted by name (\<open>sfi\<close>).  \<open>sort.Sort\<close> promises nothing of equal names; here they stay in order.
\<close>

record typeInfo =
  ti_sfip :: "fieldInfo list"
  ti_sfi :: "fieldInfo list"
  ti_toArray :: bool

definition getTypeInfo :: "(string \<Rightarrow> bool) \<Rightarrow> (string \<times> string \<times> bool \<times> gotype) list \<Rightarrow> typeInfo" where
  "getTypeInfo exported fs =
     (let siInfo = (case map_of fs ''_struct'' of
            None \<Rightarrow> None
          | Some (stag, _) \<Rightarrow> parseStructFieldInfo ''_struct'' stag);
          sfip = rgetTypeInfo exported (case siInfo of None \<Rightarrow> False | Some si \<Rightarrow> omitEmpty si) [] 0 fs []
      in \<lparr>ti_sfip = sfip, ti_sfi = sort_key (\<lambda>(_, si, _). encName si) sfip,
          ti_toArray = (case siInfo of None \<Rightarrow> False | Some si \<Rightarrow> toArray si)\<rparr>)"

subsection \<open>A field by its name\<close>

text \<open>\<open>indexForEncName\<close>, with the loop of the binary search.\<close>

function lower_bound :: "string list \<Rightarrow> string \<Rightarrow> nat \<Rightarrow> nat \<Rightarrow> nat" where
  "lower_bound names n i j =
     (if i < j
      then (let h = i + (j - i) div 2
            in if names ! h < n then lower_bound names n (Suc h) j else lower_bound names n i h)
      else i)"
  by pat_completeness auto

termination
  by (relation "measure (\<lambda>(_, _, i, j). j - i)") auto

declare lower_bound.simps [simp del]

fun first_index :: "string \<Rightarrow> string list \<Rightarrow> nat option" where
  "first_index n [] = None"
| "first_index n (m # ms) = (if m = n then Some 0 else map_option Suc (first_index n ms))"

definition indexForEncName :: "string list \<Rightarrow> string \<Rightarrow> nat option" where
  "indexForEncName names n =
     (if length names < 16 then first_index n names
      else let i = lower_bound names n 0 (length names)
           in if i < length names \<and> names ! i = n then Some i else None)"

section \<open>Extensions\<close>

text \<open>
  A type as \<open>AddExt\<close> looks at it, and the registered functions; no function is a nil function.
\<close>

record rtype =
  rtid :: nat
  pkgPath :: string
  isInterface :: bool

record ('f, 'g) extTypeTagFn =
  ext_rt :: rtype
  ext_tag :: byte
  encFn :: "'f option"
  decFn :: "'g option"

type_synonym ('f, 'g) extHandle = "('f, 'g) extTypeTagFn list"

primrec putExt :: "('f, 'g) extTypeTagFn \<Rightarrow> ('f, 'g) extHandle \<Rightarrow> ('f, 'g) extHandle" where
  "putExt x [] = [x]"
| "putExt x (v # o') =
     (if rtid (ext_rt v) = rtid (ext_rt x) then x\<lparr>ext_rt := ext_rt v\<rparr> # o' else v # putExt x o')"

definition AddExt ::
  "rtype \<Rightarrow> byte \<Rightarrow> 'f option \<Rightarrow> 'g option \<Rightarrow> ('f, 'g) extHandle \<Rightarrow> ('f, 'g) extHandle option" where
  "AddExt rt t encfn decfn o' =
     (if pkgPath rt = '''' \<or> isInterface rt then None
      else Some (putExt \<lparr>ext_rt = rt, ext_tag = t, encFn = encfn, decFn = decfn\<rparr> o'))"

definition getExt :: "nat \<Rightarrow> ('f, 'g) extHandle \<Rightarrow> ('f, 'g) extTypeTagFn option" where
  "getExt i o' = find (\<lambda>v. rtid (ext_rt v) = i) o'"

definition getExtForTag :: "byte \<Rightarrow> ('f, 'g) extHandle \<Rightarrow> ('f, 'g) extTypeTagFn option" where
  "getExtForTag t o' = find (\<lambda>v. ext_tag v = t) o'"

definition getDecodeExtForTag :: "byte \<Rightarrow> ('f, 'g) extHandle \<Rightarrow> (rtype \<times> 'g option) option" where
  "getDecodeExtForTag t o' = map_option (\<lambda>x. (ext_rt x, decFn x)) (getExtForTag t o')"

definition getDecodeExt :: "nat \<Rightarrow> ('f, 'g) extHandle \<Rightarrow> byte \<times> 'g option" where
  "getDecodeExt i o' = (case getExt i o' of None \<Rightarrow> (0, None) | Some x \<Rightarrow> (ext_tag x, decFn x))"

definition getEncodeExt :: "nat \<Rightarrow> ('f, 'g) extHandle \<Rightarrow> byte \<times> 'f option" where
  "getEncodeExt i o' = (case getExt i o' of None \<Rightarrow> (0, None) | Some x \<Rightarrow> (ext_tag x, encFn x))"

section \<open>The fields of a struct\<close>

text \<open>A name of Go is never there twice.\<close>

lemma rgetTypeInfo_distinct:
  "distinct (map fst acc) \<Longrightarrow> distinct (map fst (rgetTypeInfo exported omit is j fs acc))"
  by (induction exported omit "is" j fs acc rule: rgetTypeInfo.induct)
    (auto split: gotype.splits option.splits if_splits)

text \<open>
  A struct that is embedded before an outer field of the same name hides it, although the comment at that
  place promises the opposite.
\<close>

lemma embedded_hides_outer:
  "map (\<lambda>(n, si, way). (n, way)) (ti_sfip (getTypeInfo (\<lambda>_. True)
     [(''Inner'', [], True, GStruct [(''X'', [], False, GOther)]), (''X'', [], False, GOther)])) = [(''X'', [0, 0])]"
  "map (\<lambda>(n, si, way). (n, way)) (ti_sfip (getTypeInfo (\<lambda>_. True)
     [(''X'', [], False, GOther), (''Inner'', [], True, GStruct [(''X'', [], False, GOther)])])) = [(''X'', [0])]"
  by (simp_all add: getTypeInfo_def parseStructFieldInfo_def Let_def)

section \<open>Finding a field\<close>

lemma first_index_None: "first_index n ms = None \<longleftrightarrow> n \<notin> set ms"
  by (induction ms) auto

lemma first_index_Some:
  "first_index n ms = Some i \<longleftrightarrow> i < length ms \<and> ms ! i = n \<and> (\<forall>k<i. ms ! k \<noteq> n)"
proof (induction ms arbitrary: i)
  case (Cons m ms)
  show ?case
  proof (cases i)
    case 0
    then show ?thesis
      by auto
  next
    case (Suc j)
    then show ?thesis
      using Cons.IH[of j] by (auto simp: less_Suc_eq_0_disj)
  qed
qed simp

text \<open>The binary search keeps the names before \<open>i\<close> below \<open>n\<close> and those from \<open>j\<close> on not below it.\<close>

definition splits_at :: "string list \<Rightarrow> string \<Rightarrow> nat \<Rightarrow> nat \<Rightarrow> bool" where
  "splits_at names n i j \<longleftrightarrow>
     (\<forall>k<i. names ! k < n) \<and> (\<forall>k<length names. j \<le> k \<longrightarrow> n \<le> names ! k)"

lemma splits_at_up:
  assumes "sorted names" "splits_at names n i j" "h < length names" "names ! h < n"
  shows "splits_at names n (Suc h) j"
proof -
  have "names ! k < n" if "k < Suc h" for k
    using sorted_nth_mono[OF assms(1), of k h] that assms(3,4) by auto
  then show ?thesis
    using assms(2) unfolding splits_at_def by blast
qed

lemma splits_at_down:
  assumes "sorted names" "splits_at names n i j" "\<not> names ! h < n"
  shows "splits_at names n i h"
proof -
  have "n \<le> names ! k" if "k < length names" "h \<le> k" for k
    using sorted_nth_mono[OF assms(1), of h k] that assms(3) by auto
  then show ?thesis
    using assms(2) unfolding splits_at_def by blast
qed

lemma lower_bound_up:
  assumes "i < j" "names ! (i + (j - i) div 2) < n"
  shows "lower_bound names n i j = lower_bound names n (Suc (i + (j - i) div 2)) j"
  by (subst lower_bound.simps) (simp only: assms Let_def if_True)

lemma lower_bound_down:
  assumes "i < j" "\<not> names ! (i + (j - i) div 2) < n"
  shows "lower_bound names n i j = lower_bound names n i (i + (j - i) div 2)"
  by (subst lower_bound.simps) (simp only: assms Let_def if_True if_False)

lemma lower_bound_stop: "\<not> i < j \<Longrightarrow> lower_bound names n i j = i"
  by (subst lower_bound.simps) (simp only: if_False)

lemma lower_bound_splits:
  assumes "sorted names" "i \<le> j" "j \<le> length names" "splits_at names n i j"
  shows "lower_bound names n i j \<le> length names \<and>
    splits_at names n (lower_bound names n i j) (lower_bound names n i j)"
  using assms(2-4)
proof (induction "j - i" arbitrary: i j rule: less_induct)
  case less
  show ?case
  proof (cases "i < j")
    case True
    define h where "h = i + (j - i) div 2"
    have h: "i \<le> h" "h < j" "h < length names"
      using True less.prems(2) by (auto simp: h_def)
    show ?thesis
    proof (cases "names ! h < n")
      case up: True
      have eq: "lower_bound names n i j = lower_bound names n (Suc h) j"
        using lower_bound_up[OF True] up by (simp only: h_def)
      have "j - Suc h < j - i" "Suc h \<le> j"
        using h by auto
      from less.hyps[OF this less.prems(2) splits_at_up[OF assms(1) less.prems(3) h(3) up]]
      show ?thesis
        by (simp only: eq)
    next
      case False
      have eq: "lower_bound names n i j = lower_bound names n i h"
        using lower_bound_down[OF True] False by (simp only: h_def)
      have "h - i < j - i" "h \<le> length names"
        using h by auto
      from less.hyps[OF this(1) h(1) this(2) splits_at_down[OF assms(1) less.prems(3) False]]
      show ?thesis
        by (simp only: eq)
    qed
  next
    case False
    then have "j = i"
      using less.prems(1) by simp
    then show ?thesis
      using less.prems(2,3) unfolding lower_bound_stop[OF False] by simp
  qed
qed

text \<open>In sorted names the binary search finds what the linear one does.\<close>

theorem indexForEncName_first:
  assumes "sorted names"
  shows "indexForEncName names n = first_index n names"
proof -
  define i where "i = lower_bound names n 0 (length names)"
  have "splits_at names n 0 (length names)"
    by (simp add: splits_at_def)
  from lower_bound_splits[OF assms le0 order_refl this]
  have i: "i \<le> length names" "\<forall>k<i. names ! k < n" "\<forall>k<length names. i \<le> k \<longrightarrow> n \<le> names ! k"
    unfolding i_def[symmetric] splits_at_def by blast+
  have "(if i < length names \<and> names ! i = n then Some i else None) = first_index n names"
  proof (cases "i < length names \<and> names ! i = n")
    case True
    have "\<forall>k<i. names ! k \<noteq> n"
      using i(2) by auto
    then show ?thesis
      using True by (metis first_index_Some)
  next
    case False
    have "n \<notin> set names"
    proof
      assume "n \<in> set names"
      then obtain k where k: "k < length names" "names ! k = n"
        by (metis in_set_conv_nth)
      then have "i \<le> k"
        using i(2) by (metis less_irrefl not_le)
      then have "i < length names" "names ! i \<le> n"
        using k sorted_nth_mono[OF assms] by auto
      then show False
        using i(3) False by (metis antisym order_refl)
    qed
    then have "first_index n names = None"
      by (simp add: first_index_None)
    then show ?thesis
      using False by simp
  qed
  then show ?thesis
    unfolding indexForEncName_def Let_def i_def[symmetric] by simp
qed

text \<open>
  With distinct names it finds, whatever the sorting made of the fields, the one field of that name.
\<close>

lemma indexForEncName_field:
  assumes "mset p = mset fs" "sorted (map key p)" "distinct (map key fs)"
  shows "map_option (\<lambda>i. p ! i) (indexForEncName (map key p) n) = find (\<lambda>f. key f = n) fs"
proof (cases "find (\<lambda>f. key f = n) fs")
  case None
  have "set p = set fs"
    using assms(1) by (metis set_mset_mset)
  then have "n \<notin> set (map key p)"
    using None by (auto simp: find_None_iff)
  then show ?thesis
    unfolding indexForEncName_first[OF assms(2)] None using first_index_None by simp
next
  case (Some f)
  then have f: "f \<in> set fs" "key f = n"
    by (auto simp: find_Some_iff)
  have st: "set p = set fs"
    using assms(1) by (metis set_mset_mset)
  then obtain i where i: "first_index n (map key p) = Some i"
    using f first_index_None[of n "map key p"] by (cases "first_index n (map key p)") auto
  then have "p ! i \<in> set fs" "key (p ! i) = n"
    using st by (auto simp: first_index_Some)
  then have "p ! i = f"
    using f assms(3) by (metis distinct_map inj_on_def)
  then show ?thesis
    unfolding indexForEncName_first[OF assms(2)] i Some by simp
qed

section \<open>Registered extensions\<close>

lemma getExt_put: "getExt i (putExt x o') = (if i = rtid (ext_rt x) then
    Some (x\<lparr>ext_rt := (case getExt i o' of None \<Rightarrow> ext_rt x | Some v \<Rightarrow> ext_rt v)\<rparr>) else getExt i o')"
  by (induction o') (auto simp: getExt_def)

text \<open>A type that was registered is found under its tag and its functions; other types stay as they were.\<close>

lemma AddExt_get:
  assumes "AddExt rt t e d o' = Some o''"
  shows "getEncodeExt (rtid rt) o'' = (t, e) \<and> getDecodeExt (rtid rt) o'' = (t, d) \<and>
    (\<forall>i. i \<noteq> rtid rt \<longrightarrow> getExt i o'' = getExt i o')"
  using assms by (auto simp: AddExt_def getEncodeExt_def getDecodeExt_def getExt_put split: if_splits)

text \<open>
  Taking a registration back, as the documentation has it, with the tag 0 and no functions, leaves an
  entry that hides a type registered under the tag 0 later.
\<close>

lemma deregistered_hides:
  assumes "AddExt a t e d [] = Some h1" "AddExt a 0 None None h1 = Some h2" "AddExt b 0 e' (Some d') h2 = Some h3"
    "rtid a \<noteq> rtid b"
  shows "getDecodeExtForTag 0 h3 = Some (a, None)"
  using assms by (auto simp: AddExt_def getDecodeExtForTag_def getExtForTag_def split: if_splits)

end
