(* ===== verification/Keyring.thy ===== *)
theory Keyring
  imports Prelude
begin

text \<open>
  memberlist's \<open>keyring.go\<close>: the encryption keys, the primary one first.  The lock is not
  modelled: every operation runs alone.
\<close>

type_synonym keyring = "bytes list"

section \<open>The operations\<close>

text \<open>\<open>installKeys\<close>: the primary key, then every other key in order.\<close>

definition installKeys :: "bytes list \<Rightarrow> bytes \<Rightarrow> keyring" where
  "installKeys keys primaryKey = primaryKey # filter (\<lambda>key. key \<noteq> primaryKey) keys"

definition getKeys :: "keyring \<Rightarrow> bytes list" where
  "getKeys k = k"

definition getPrimaryKey :: "keyring \<Rightarrow> bytes option" where
  "getPrimaryKey k = (case k of [] \<Rightarrow> None | key # _ \<Rightarrow> Some key)"

definition addKey :: "keyring \<Rightarrow> bytes \<Rightarrow> goerr option \<times> keyring" where
  "addKey k key =
     (if length key \<noteq> 16 then (Some (ErrMsg ''key size must be 16 bytes''), k)
      else if list_ex (\<lambda>installedKey. installedKey = key) k then (None, k)
      else
        let keys = k @ [key];
            primaryKey = (case getPrimaryKey k of None \<Rightarrow> key | Some p \<Rightarrow> p)
        in (None, installKeys keys primaryKey))"

definition useKey :: "keyring \<Rightarrow> bytes \<Rightarrow> goerr option \<times> keyring" where
  "useKey k key =
     (if list_ex (\<lambda>installedKey. key = installedKey) k then (None, installKeys k key)
      else (Some (ErrMsg ''Requested key is not in the keyring''), k))"

text \<open>
  The loop of \<open>RemoveKey\<close> ranges over the array the ring had at the start (\<open>arr\<close>), of which the
  first match moves the tail down in place (\<open>shared\<close>: the ring still is that array); \<open>installKeys\<close>
  then gives the ring an array of its own.  A slice bound past the end panics.
\<close>

fun remove_scan :: "bytes \<Rightarrow> nat list \<Rightarrow> bytes list \<Rightarrow> bool \<Rightarrow> keyring \<Rightarrow> keyring outcome" where
  "remove_scan key [] arr shared k = Returns k"
| "remove_scan key (i # is) arr shared k =
     (if key = arr ! i then
        (if length k < i + 1 then Panics
         else
           let keys = take i k @ drop (i + 1) k;
               arr' = (if shared then keys @ drop (length keys) arr else arr);
               head = (if shared then arr' ! 0 else (keys @ drop (length keys) k) ! 0)
           in remove_scan key is arr' False (installKeys keys head))
      else remove_scan key is arr shared k)"

definition removeKey :: "keyring \<Rightarrow> bytes \<Rightarrow> (goerr option \<times> keyring) outcome" where
  "removeKey k key =
     (case k of
        [] \<Rightarrow> Panics
      | primary # _ \<Rightarrow>
          if key = primary
          then Returns (Some (ErrMsg ''Removing the primary key is not allowed''), k)
          else (case remove_scan key [0..<length k] k True k of
                  Panics \<Rightarrow> Panics | Returns k' \<Rightarrow> Returns (None, k')))"

fun add_all :: "keyring \<Rightarrow> bytes list \<Rightarrow> keyring result" where
  "add_all k [] = Inr k"
| "add_all k (key # keys) = (case addKey k key of (Some e, _) \<Rightarrow> Inl e | (None, k') \<Rightarrow> add_all k' keys)"

definition newKeyring :: "bytes list \<Rightarrow> bytes \<Rightarrow> keyring result" where
  "newKeyring keys primaryKey =
     (if 0 < length keys \<or> 0 < length primaryKey then
        if length primaryKey = 0 then Inl (ErrMsg ''Empty primary key not allowed'')
        else add_all [] (primaryKey # keys)
      else Inr [])"

section \<open>What a ring is\<close>

definition ring_ok :: "keyring \<Rightarrow> bool" where
  "ring_ok k \<longleftrightarrow> distinct k \<and> (\<forall>key\<in>set k. length key = 16)"

text \<open>What a client of the ring counts on: a set of keys with a chosen one.\<close>

lemma installKeys_same: "distinct (p # k) \<Longrightarrow> installKeys (p # k) p = p # k"
  by (auto simp: installKeys_def filter_id_conv)

lemma set_installKeys [simp]: "set (installKeys k p) = insert p (set k)"
  by (auto simp: installKeys_def)

lemma distinct_installKeys: "distinct k \<Longrightarrow> distinct (installKeys k p)"
  by (simp add: installKeys_def)

lemma getPrimaryKey_install [simp]: "getPrimaryKey (installKeys k p) = Some p"
  by (simp add: installKeys_def getPrimaryKey_def)

lemma list_ex_key [simp]: "list_ex (\<lambda>x. x = key) k \<longleftrightarrow> key \<in> set k" "list_ex (\<lambda>x. key = x) k \<longleftrightarrow> key \<in> set k"
  by (auto simp: list_ex_iff)

lemma addKey_eq:
  assumes "ring_ok k"
  shows "addKey k key =
    (if length key \<noteq> 16 then (Some (ErrMsg ''key size must be 16 bytes''), k)
     else (None, if key \<in> set k then k else k @ [key]))"
  using assms installKeys_same[of "hd k" "tl k @ [key]"]
  by (cases k) (auto simp: addKey_def getPrimaryKey_def ring_ok_def installKeys_def filter_id_conv)

lemma ring_ok_addKey: "ring_ok k \<Longrightarrow> addKey k key = (e, k') \<Longrightarrow> ring_ok k'"
  by (auto simp: addKey_eq ring_ok_def split: if_splits)

lemma ring_ok_useKey: "ring_ok k \<Longrightarrow> useKey k key = (e, k') \<Longrightarrow> ring_ok k'"
  by (auto simp: useKey_def ring_ok_def distinct_installKeys split: if_splits)

lemma remove_scan_none:
  "\<forall>i\<in>set is. arr ! i \<noteq> key \<Longrightarrow> remove_scan key is arr shared k = Returns k"
  by (induction "is") auto

lemma remove_scan_skip:
  "\<forall>i\<in>set is. arr ! i \<noteq> key \<Longrightarrow> remove_scan key (is @ js) arr shared k = remove_scan key js arr shared k"
  by (induction "is") auto

lemma removeKey_eq:
  assumes "ring_ok k" "k \<noteq> []"
  shows "removeKey k key =
    Returns (if key = hd k then (Some (ErrMsg ''Removing the primary key is not allowed''), k)
             else (None, filter (\<lambda>x. x \<noteq> key) k))"
proof (cases "key \<in> set (tl k)")
  case False
  then have "\<forall>i\<in>set [0..<length k]. k ! i \<noteq> key" if "key \<noteq> hd k"
    using that assms(2) by (metis atLeastLessThan_iff hd_Cons_tl nth_mem set_ConsD set_upt)
  moreover have "filter (\<lambda>x. x \<noteq> key) k = k" if "key \<noteq> hd k"
    using that False assms(2) by (cases k) (auto simp: filter_id_conv)
  ultimately show ?thesis
    using assms(2) remove_scan_none[of "[0..<length k]" k key True k]
    by (cases k) (simp_all add: removeKey_def)
next
  case True
  obtain p r where k: "k = p # r" "key \<noteq> p" "key \<in> set r"
    using assms True by (cases k) (auto simp: ring_ok_def)
  obtain a b where r: "r = a @ key # b" "key \<notin> set a"
    using split_list_first[OF k(3)] by blast
  have nb: "key \<notin> set b" "p \<notin> set a" "p \<notin> set b"
    using assms(1) k r by (auto simp: ring_ok_def)
  let ?i = "Suc (length a)" and ?rest = "[Suc (Suc (length a))..<length k]"
  let ?keys = "p # a @ b" and ?arr = "(p # a @ b) @ drop (length a + length b + 1) k"
  have split: "[0..<length k] = [0..<?i] @ ?i # ?rest"
  proof -
    have "[0..<?i + (length k - ?i)] = [0..<?i] @ [?i..<?i + (length k - ?i)]"
      by (rule upt_add_eq_append) simp
    moreover have "?i + (length k - ?i) = length k" "?i < length k"
      by (simp_all add: k(1) r(1))
    ultimately show ?thesis
      using upt_conv_Cons[of ?i "length k"] by metis
  qed
  have before: "\<forall>i\<in>set [0..<?i]. k ! i \<noteq> key"
    using k(2) r(2) by (auto simp: k(1) r(1) nth_Cons nth_append split: nat.split)
  have at: "k ! ?i = key" "take ?i k @ drop (?i + 1) k = ?keys" "\<not> length k < ?i + 1"
    by (simp_all add: k(1) r(1) nth_append)
  have after: "\<forall>i\<in>set ?rest. ?arr ! i \<noteq> key"
  proof
    fix i
    assume "i \<in> set ?rest"
    then have i: "Suc (Suc (length a)) \<le> i" "i < length k"
      by auto
    have d: "drop (length a + length b + 1) k = [last k]"
      by (cases b rule: rev_cases) (simp_all add: k(1) r(1))
    have "?arr ! i \<in> set b \<or> i = length a + length b + 1 \<and> b \<noteq> [] \<and> ?arr ! i = last b"
      using i unfolding d
      by (auto simp: k(1) r(1) nth_Cons nth_append not_less less_Suc_eq_le split: nat.split)
    then show "?arr ! i \<noteq> key"
      using nb(1) by (metis last_in_set)
  qed
  have "remove_scan key [0..<length k] k True k = remove_scan key (?i # ?rest) k True k"
    unfolding split by (rule remove_scan_skip[OF before])
  also have "\<dots> = remove_scan key ?rest ?arr False (installKeys ?keys p)"
    using at by (simp add: Let_def)
  also have "\<dots> = Returns (installKeys ?keys p)"
    by (rule remove_scan_none[OF after])
  also have "installKeys ?keys p = filter (\<lambda>x. x \<noteq> key) k"
  proof -
    have "filter (\<lambda>x. x \<noteq> p) a = a" "filter (\<lambda>x. x \<noteq> p) b = b"
      "filter (\<lambda>x. x \<noteq> key) a = a" "filter (\<lambda>x. x \<noteq> key) b = b"
      using nb r(2) by (auto simp: filter_id_conv)
    then show ?thesis
      using k(2) by (simp add: installKeys_def k(1) r(1))
  qed
  finally show ?thesis
    using k by (simp add: removeKey_def)
qed

lemma ring_ok_removeKey: "ring_ok k \<Longrightarrow> removeKey k key = Returns (e, k') \<Longrightarrow> ring_ok k'"
  using removeKey_eq[of k key] by (cases k) (auto simp: removeKey_def ring_ok_def split: if_splits)

section \<open>Rings in use\<close>

inductive ring_reach :: "keyring \<Rightarrow> bool" where
  ring_new: "newKeyring keys primary = Inr k \<Longrightarrow> ring_reach k"
| ring_add: "ring_reach k \<Longrightarrow> addKey k key = (e, k') \<Longrightarrow> ring_reach k'"
| ring_use: "ring_reach k \<Longrightarrow> useKey k key = (e, k') \<Longrightarrow> ring_reach k'"
| ring_remove: "ring_reach k \<Longrightarrow> removeKey k key = Returns (e, k') \<Longrightarrow> ring_reach k'"

lemma add_all_ok: "add_all k keys = Inr k' \<Longrightarrow> ring_ok k \<Longrightarrow> ring_ok k' \<and> (k \<noteq> [] \<longrightarrow> k' \<noteq> [] \<and> hd k' = hd k)"
proof (induction k keys rule: add_all.induct)
  case (2 k key keys)
  obtain e k1 where a: "addKey k key = (e, k1)"
    by (rule prod.exhaust)
  moreover have "e = None"
    using 2(2) a by (cases e) auto
  ultimately show ?case
    using 2(1)[OF a[symmetric]] 2(2,3) ring_ok_addKey[OF 2(3) a] addKey_eq[OF 2(3), of key]
    by (auto split: if_splits)
qed simp

lemma ring_ok_reach: "ring_reach k \<Longrightarrow> ring_ok k"
proof (induction rule: ring_reach.induct)
  case (ring_new keys primary k)
  then show ?case
    using add_all_ok[of "[]" "primary # keys" k]
    by (auto simp: newKeyring_def ring_ok_def split: if_splits)
qed (blast intro: ring_ok_addKey ring_ok_useKey ring_ok_removeKey)+

text \<open>
  C33: on every ring the operations build, the keys are distinct and 16 bytes
  long.  \<open>AddKey\<close> makes its key the last one (and the primary one of an empty ring) and leaves the
  primary key of others; \<open>UseKey\<close> makes an installed key the primary one and keeps the set of keys;
  \<open>RemoveKey\<close> takes away exactly its key, in spite of editing the array it walks over, and refuses
  the primary one; on an empty ring it panics.
\<close>

theorem keyring_operations:
  assumes "ring_reach k"
  shows "distinct k \<and> (\<forall>x\<in>set k. length x = 16) \<and>
    addKey k key = (if length key \<noteq> 16 then (Some (ErrMsg ''key size must be 16 bytes''), k)
      else (None, if key \<in> set k then k else k @ [key])) \<and>
    (key \<in> set k \<longrightarrow> (\<exists>k'. useKey k key = (None, k') \<and> getPrimaryKey k' = Some key \<and> mset k' = mset k)) \<and>
    removeKey k key = (if k = [] then Panics
      else Returns (if key = hd k then (Some (ErrMsg ''Removing the primary key is not allowed''), k)
        else (None, filter (\<lambda>x. x \<noteq> key) k)))"
proof (intro conjI)
  have ok: "ring_ok k"
    by (rule ring_ok_reach[OF assms])
  then show "distinct k" "\<forall>x\<in>set k. length x = 16"
    by (simp_all add: ring_ok_def)
  show "addKey k key = (if length key \<noteq> 16 then (Some (ErrMsg ''key size must be 16 bytes''), k)
      else (None, if key \<in> set k then k else k @ [key]))"
    by (rule addKey_eq[OF ok])
  have "mset (installKeys k key) = mset k" if "key \<in> set k"
    using that ok distinct_installKeys[of k key] by (intro set_eq_iff_mset_eq_distinct[THEN iffD1])
      (auto simp: ring_ok_def)
  then show "key \<in> set k \<longrightarrow> (\<exists>k'. useKey k key = (None, k') \<and> getPrimaryKey k' = Some key \<and> mset k' = mset k)"
    by (auto simp: useKey_def)
  show "removeKey k key = (if k = [] then Panics
      else Returns (if key = hd k then (Some (ErrMsg ''Removing the primary key is not allowed''), k)
        else (None, filter (\<lambda>x. x \<noteq> key) k)))"
    using removeKey_eq[OF ok] by (simp add: removeKey_def)
qed

definition key_of :: "byte \<Rightarrow> bytes" where
  "key_of b = replicate 16 b"

lemma two_keys: "newKeyring [key_of 2] (key_of 1) = Inr [key_of 1, key_of 2]"
  by code_simp

theorem keyring_operations_witness:
  "removeKey [key_of 1, key_of 2] (key_of 2) = Returns (None, [key_of 1]) \<and>
   (\<exists>k'. useKey [key_of 1, key_of 2] (key_of 2) = (None, k') \<and> getPrimaryKey k' = Some (key_of 2))"
  using keyring_operations[OF ring_new[OF two_keys], of "key_of 2"] by (auto simp: key_of_def)

end
