(* ===== verification/Membership.thy ===== *)
theory Membership
  imports Wire Keyring
begin

text \<open>
  The state of a memberlist and the handlers of \<open>state.go\<close> that change what is known about nodes:
  \<open>aliveNode\<close>, \<open>suspectNode\<close>, \<open>deadNode\<close>, \<open>mergeState\<close>, \<open>resetNodes\<close>.  Each runs
  under the node lock, hence alone.  Logging and metrics are left out.
\<close>

section \<open>Configuration and state\<close>

text \<open>
  The delegates are there or not: \<open>cf_Events\<close> and \<open>cf_Conflict\<close> are only told things,
  \<open>cf_Alive\<close> and \<open>cf_Merge\<close> may refuse by an error, and \<open>cf_Ping\<close> holds the payload it adds to acks.
\<close>

record config =
  cf_Name :: string
  cf_BindAddr :: string
  cf_BindPort :: int
  cf_AdvertiseAddr :: string
  cf_AdvertisePort :: int
  cf_ProtocolVersion :: u8
  cf_IndirectChecks :: nat
  cf_RetransmitMult :: int
  cf_SuspicionMult :: int
  cf_ProbeInterval :: int
  cf_ProbeTimeout :: int
  cf_PushPullInterval :: int
  cf_GossipInterval :: int
  cf_GossipNodes :: nat
  cf_TCPTimeout :: int
  cf_EnableCompression :: bool
  cf_DMin :: u8
  cf_DMax :: u8
  cf_DCur :: u8
  cf_Events :: bool
  cf_Conflict :: bool
  cf_Alive :: "(node \<Rightarrow> goerr option) option"
  cf_Merge :: "(node list \<Rightarrow> goerr option) option"
  cf_Ping :: "bytes option"
  cf_Delegate :: bool
  cf_SecretKey :: bytes
  cf_Keyring :: "keyring option"

text \<open>A broadcast; \<open>mb_notify\<close> is the channel to signal when it is finished, if any.\<close>

record memberlistBroadcast =
  mb_node :: string
  mb_msg :: bytes
  mb_notify :: "nat option"

text \<open>What a registered ack handler does: feed a channel, or relay the ack of an indirect ping.\<close>

datatype ackHandler =
    AckChannel nat
  | AckRelay u32 "bytes \<times> u16" string

text \<open>What the handlers do to the world, in order.\<close>

datatype effect =
    EvJoin node
  | EvLeave node
  | EvUpdate node
  | EvConflict node node
  | BroadcastDone "nat option"
  | SuspectTimer int string int
  | AckTimer u32 int
  | AckChan nat bool bytes
  | SendUDP "bytes \<times> u16" bytes
  | SendTCP bytes
  | UserMsg bytes
  | UserState bytes bool
  | PingComplete node bytes

text \<open>What runs in the background: the triggers of \<open>state.go\<close>.\<close>

datatype trigger = ProbeTrigger | PushPullTrigger | GossipTrigger

text \<open>
  Nodes live in \<open>ml_heap\<close>; \<open>ml_nodes\<close> and \<open>ml_nodeMap\<close> point there.  \<open>ml_triggers\<close> are the goroutines
  that run, each with the number of the channel that stops it.
\<close>

record memberlist =
  ml_sequenceNum :: u32
  ml_incarnation :: u32
  ml_numNodes :: u32
  ml_shutdown :: bool
  ml_leave :: bool
  ml_heap :: "nodeState list"
  ml_nodes :: "nat list"
  ml_nodeMap :: "string \<rightharpoonup> nat"
  ml_tickers :: "trigger list"
  ml_stopTick :: nat
  ml_triggers :: "(nat \<times> trigger) list"
  ml_probeIndex :: nat
  ml_acks :: "u32 \<rightharpoonup> ackHandler"
  ml_broadcasts :: "memberlistBroadcast bcQueue"
  ml_handoff :: "(byte \<times> bytes) list"
  ml_out :: "effect list"

text \<open>
  How a handler ends: normally, by a panic (which nothing recovers, so it ends the process), or
  not at all (still holding the node lock).
\<close>

datatype 'a run = Done 'a | Panic | Hang

fun and_then :: "'a run \<Rightarrow> ('a \<Rightarrow> 'b run) \<Rightarrow> 'b run" where
  "and_then (Done x) f = f x"
| "and_then Panic f = Panic"
| "and_then Hang f = Hang"

section \<open>Small operations\<close>

definition deref :: "memberlist \<Rightarrow> nat \<Rightarrow> nodeState" where
  "deref m p = ml_heap m ! p"

definition assign :: "nat \<Rightarrow> nodeState \<Rightarrow> memberlist \<Rightarrow> memberlist" where
  "assign p st m = m\<lparr>ml_heap := (ml_heap m)[p := st]\<rparr>"

definition emit :: "effect list \<Rightarrow> memberlist \<Rightarrow> memberlist" where
  "emit es m = m\<lparr>ml_out := ml_out m @ es\<rparr>"

definition nextSeqNo :: "memberlist \<Rightarrow> u32 \<times> memberlist" where
  "nextSeqNo m = (let n = ml_sequenceNum m + 1 in (n, m\<lparr>ml_sequenceNum := n\<rparr>))"

definition nextIncarnation :: "memberlist \<Rightarrow> u32 \<times> memberlist" where
  "nextIncarnation m = (let n = ml_incarnation m + 1 in (n, m\<lparr>ml_incarnation := n\<rparr>))"

definition estNumNodes :: "memberlist \<Rightarrow> nat" where
  "estNumNodes m = unat (ml_numNodes m)"

definition mb_invalidates :: "memberlistBroadcast \<Rightarrow> memberlistBroadcast \<Rightarrow> bool" where
  "mb_invalidates b other \<longleftrightarrow> mb_node b = mb_node other"

definition mb_Message :: "memberlistBroadcast \<Rightarrow> bytes" where
  "mb_Message b = mb_msg b"

definition mb_Finished :: "memberlistBroadcast \<Rightarrow> effect" where
  "mb_Finished b = BroadcastDone (mb_notify b)"

interpretation mb: broadcast_kind mb_invalidates mb_node
  by unfold_locales (simp add: mb_invalidates_def)

text \<open>The broadcasts that the queue drops have their \<open>Finished\<close> called.\<close>

definition ml_queueBroadcast :: "string \<Rightarrow> bytes \<Rightarrow> nat option \<Rightarrow> memberlist \<Rightarrow> memberlist" where
  "ml_queueBroadcast nd msg notify m =
     (let (q, fin) = queueBroadcast mb_invalidates \<lparr>mb_node = nd, mb_msg = msg, mb_notify = notify\<rparr> (ml_broadcasts m)
      in emit (map mb_Finished fin) (m\<lparr>ml_broadcasts := q\<rparr>))"

text \<open>The encoder does not fail on these messages.\<close>

definition encodeBroadcastNotify :: "string \<Rightarrow> byte \<Rightarrow> gostruct \<Rightarrow> nat option \<Rightarrow> memberlist \<Rightarrow> memberlist" where
  "encodeBroadcastNotify nd msgType msg notify m = ml_queueBroadcast nd (encode msgType msg) notify m"

definition encodeAndBroadcast :: "string \<Rightarrow> byte \<Rightarrow> gostruct \<Rightarrow> memberlist \<Rightarrow> memberlist" where
  "encodeAndBroadcast nd msgType msg m = encodeBroadcastNotify nd msgType msg None m"

text \<open>
  The loop of a refutation: incarnations are drawn until one is above the accused one.  There is
  none above \<open>2 ^ 32 - 1\<close>; then the loop does not end, and the value is \<open>None\<close>.
\<close>

partial_function (option) refute_inc :: "u32 \<Rightarrow> u32 \<Rightarrow> u32 option" where
  "refute_inc accused inc = (if inc \<le> accused then refute_inc accused (inc + 1) else Some inc)"

definition versions_of :: "nodeState \<Rightarrow> bytes" where
  "versions_of st = [PMin st, PMax st, PCur st, DMin st, DMax st, DCur st]"

definition alive_of :: "u32 \<Rightarrow> nodeState \<Rightarrow> alive" where
  "alive_of inc st = \<lparr>al_Incarnation = inc, al_Node = Name st, al_Addr = Addr st, al_Port = Port st,
     al_Meta = Meta st, al_Vsn = versions_of st\<rparr>"

text \<open>
  A refutation: the node gets the new incarnation and broadcasts itself as alive.
\<close>

definition refute :: "u32 \<Rightarrow> nat \<Rightarrow> nat option \<Rightarrow> memberlist \<Rightarrow> memberlist run" where
  "refute accused p notify m =
     (case refute_inc accused (ml_incarnation m + 1) of
        None \<Rightarrow> Hang
      | Some inc \<Rightarrow>
          let st = (deref m p)\<lparr>Incarnation := inc\<rparr>;
              m1 = assign p st (m\<lparr>ml_incarnation := inc\<rparr>)
          in Done (encodeBroadcastNotify (Name st) aliveMsg (alive_struct (alive_of inc st)) notify m1))"

section \<open>aliveNode\<close>

definition node_of_alive :: "alive \<Rightarrow> node" where
  "node_of_alive a = \<lparr>Name = al_Node a, Addr = al_Addr a, Port = al_Port a, Meta = al_Meta a,
     PMin = al_Vsn a ! 0, PMax = al_Vsn a ! 1, PCur = al_Vsn a ! 2,
     DMin = al_Vsn a ! 3, DMax = al_Vsn a ! 4, DCur = al_Vsn a ! 5\<rparr>"

definition plain_of_alive :: "alive \<Rightarrow> node" where
  "plain_of_alive a = \<lparr>Name = al_Node a, Addr = al_Addr a, Port = al_Port a, Meta = al_Meta a,
     PMin = 0, PMax = 0, PCur = 0, DMin = 0, DMax = 0, DCur = 0\<rparr>"

definition node_of :: "nodeState \<Rightarrow> node" where
  "node_of st = \<lparr>Name = Name st, Addr = Addr st, Port = Port st, Meta = Meta st,
     PMin = PMin st, PMax = PMax st, PCur = PCur st, DMin = DMin st, DMax = DMax st, DCur = DCur st\<rparr>"

definition fresh_state :: "alive \<Rightarrow> nodeState" where
  "fresh_state a = \<lparr>Name = al_Node a, Addr = al_Addr a, Port = al_Port a, Meta = al_Meta a,
     PMin = 0, PMax = 0, PCur = 0, DMin = 0, DMax = 0, DCur = 0,
     Incarnation = 0, State = stateDead, StateChange = 0\<rparr>"

text \<open>\<open>draw\<close> is the random number behind \<open>randomOffset\<close>.\<close>

definition add_node :: "u32 \<Rightarrow> alive \<Rightarrow> memberlist \<Rightarrow> nat \<times> memberlist" where
  "add_node draw a m =
     (let p = length (ml_heap m); n = length (ml_nodes m); offset = randomOffset n draw
      in (p, m\<lparr>ml_heap := ml_heap m @ [fresh_state a],
               ml_nodeMap := (ml_nodeMap m)(al_Node a \<mapsto> p),
               ml_nodes := swap offset n (ml_nodes m @ [p]),
               ml_numNodes := ml_numNodes m + 1\<rparr>))"

text \<open>The Alive delegate indexes all six versions.\<close>

definition ask_alive :: "config \<Rightarrow> alive \<Rightarrow> goerr option run" where
  "ask_alive cf a =
     (case cf_Alive cf of
        None \<Rightarrow> Done None
      | Some f \<Rightarrow> if length (al_Vsn a) < 6 then Panic else Done (f (node_of_alive a)))"

definition events :: "config \<Rightarrow> nodeStateType \<Rightarrow> bytes \<Rightarrow> nat \<Rightarrow> memberlist \<Rightarrow> memberlist" where
  "events cf oldState oldMeta p m =
     (if cf_Events cf then
        if oldState = stateDead then emit [EvJoin (node_of (deref m p))] m
        else if oldMeta \<noteq> Meta (deref m p) then emit [EvUpdate (node_of (deref m p))] m
        else m
      else m)"

text \<open>The versions, if any arrived, incarnation, meta data and state of an alive message.\<close>

definition set_versions :: "bytes \<Rightarrow> nodeState \<Rightarrow> nodeState" where
  "set_versions v st =
     (if 0 < length v
      then st\<lparr>PMin := v ! 0, PMax := v ! 1, PCur := v ! 2, DMin := v ! 3, DMax := v ! 4, DCur := v ! 5\<rparr>
      else st)"

definition set_alive :: "int \<Rightarrow> alive \<Rightarrow> nodeState \<Rightarrow> nodeState" where
  "set_alive now a st =
     (let st1 = (set_versions (al_Vsn a) st)\<lparr>Incarnation := al_Incarnation a, Meta := al_Meta a\<rparr>
      in if State st1 \<noteq> stateAlive then st1\<lparr>State := stateAlive, StateChange := now\<rparr> else st1)"

definition alive_known :: "config \<Rightarrow> int \<Rightarrow> alive \<Rightarrow> nat option \<Rightarrow> bool \<Rightarrow> nat \<Rightarrow> memberlist \<Rightarrow> memberlist run" where
  "alive_known cf now a notify bootstrap p m =
     (let st = deref m p; isLocalNode = (Name st = cf_Name cf)
      in if Addr st \<noteq> al_Addr a \<or> Port st \<noteq> al_Port a
         then Done (if cf_Conflict cf then emit [EvConflict (node_of st) (plain_of_alive a)] m else m)
         else if al_Incarnation a \<le> Incarnation st \<and> \<not> isLocalNode then Done m
         else if al_Incarnation a < Incarnation st \<and> isLocalNode then Done m
         else if \<not> bootstrap \<and> isLocalNode
         then (if al_Incarnation a = Incarnation st \<and> al_Meta a = Meta st \<and> al_Vsn a = versions_of st
               then Done m
               else and_then (refute (al_Incarnation a) p notify m)
                      (\<lambda>m1. Done (events cf (State st) (Meta st) p m1)))
         else (let m1 = encodeBroadcastNotify (al_Node a) aliveMsg (alive_struct a) notify m
               in if 0 < length (al_Vsn a) \<and> length (al_Vsn a) < 6 then Panic
                  else Done (events cf (State st) (Meta st) p (assign p (set_alive now a st) m1))))"

definition aliveNode :: "config \<Rightarrow> u32 \<Rightarrow> int \<Rightarrow> alive \<Rightarrow> nat option \<Rightarrow> bool \<Rightarrow> memberlist \<Rightarrow> memberlist run" where
  "aliveNode cf draw now a notify bootstrap m =
     (if ml_leave m \<and> al_Node a = cf_Name cf then Done m
      else and_then (ask_alive cf a) (\<lambda>err.
        if err \<noteq> None then Done m
        else
          let (p, m1) = (case ml_nodeMap m (al_Node a) of Some p \<Rightarrow> (p, m) | None \<Rightarrow> add_node draw a m)
          in alive_known cf now a notify bootstrap p m1))"

section \<open>suspectNode and deadNode\<close>

definition suspectNode :: "config \<Rightarrow> int \<Rightarrow> suspect \<Rightarrow> memberlist \<Rightarrow> memberlist run" where
  "suspectNode cf now s m =
     (case ml_nodeMap m (su_Node s) of
        None \<Rightarrow> Done m
      | Some p \<Rightarrow>
          let st = deref m p
          in if su_Incarnation s < Incarnation st then Done m
             else if State st \<noteq> stateAlive then Done m
             else if Name st = cf_Name cf then refute (su_Incarnation s) p None m
             else
               let m1 = encodeAndBroadcast (su_Node s) suspectMsg (suspect_struct s) m;
                   m2 = assign p (st\<lparr>Incarnation := su_Incarnation s, State := stateSuspect, StateChange := now\<rparr>) m1;
                   timeout = suspicionTimeout (cf_SuspicionMult cf) (estNumNodes m2) (cf_ProbeInterval cf)
               in Done (emit [SuspectTimer timeout (su_Node s) now] m2))"

text \<open>\<open>leaveBroadcast\<close> is the channel that \<open>Leave\<close> waits on.\<close>

definition leaveBroadcast :: nat where
  "leaveBroadcast = 0"

definition deadNode :: "config \<Rightarrow> int \<Rightarrow> dead \<Rightarrow> memberlist \<Rightarrow> memberlist run" where
  "deadNode cf now d m =
     (case ml_nodeMap m (de_Node d) of
        None \<Rightarrow> Done m
      | Some p \<Rightarrow>
          let st = deref m p
          in if de_Incarnation d < Incarnation st then Done m
             else if State st = stateDead then Done m
             else if Name st = cf_Name cf \<and> \<not> ml_leave m then refute (de_Incarnation d) p None m
             else
               let m1 = (if Name st = cf_Name cf
                         then encodeBroadcastNotify (de_Node d) deadMsg (dead_struct d) (Some leaveBroadcast) m
                         else encodeAndBroadcast (de_Node d) deadMsg (dead_struct d) m);
                   st1 = st\<lparr>Incarnation := de_Incarnation d, State := stateDead, StateChange := now\<rparr>;
                   m2 = assign p st1 m1
               in Done (if cf_Events cf then emit [EvLeave (node_of st1)] m2 else m2))"

text \<open>When a suspicion timer fires: unless the state changed since, the node is declared dead.\<close>

definition suspectTimeout :: "config \<Rightarrow> int \<Rightarrow> nodeState \<Rightarrow> memberlist \<Rightarrow> memberlist run" where
  "suspectTimeout cf now n m =
     deadNode cf now \<lparr>de_Incarnation = Incarnation n, de_Node = Name n, de_From = cf_Name cf\<rparr> m"

definition suspect_timer :: "config \<Rightarrow> int \<Rightarrow> string \<Rightarrow> int \<Rightarrow> memberlist \<Rightarrow> memberlist run" where
  "suspect_timer cf now name changeTime m =
     (case ml_nodeMap m name of
        None \<Rightarrow> Done m
      | Some p \<Rightarrow>
          if State (deref m p) = stateSuspect \<and> StateChange (deref m p) = changeTime
          then suspectTimeout cf now (deref m p) m else Done m)"

section \<open>mergeState\<close>

definition state_code :: "nodeStateType \<Rightarrow> int" where
  "state_code s = (case s of stateAlive \<Rightarrow> 0 | stateSuspect \<Rightarrow> 1 | stateDead \<Rightarrow> 2)"

definition alive_of_push :: "pushNodeState \<Rightarrow> alive" where
  "alive_of_push r = \<lparr>al_Incarnation = pn_Incarnation r, al_Node = pn_Name r, al_Addr = pn_Addr r,
     al_Port = pn_Port r, al_Meta = pn_Meta r, al_Vsn = pn_Vsn r\<rparr>"

definition merge_one :: "config \<Rightarrow> u32 \<Rightarrow> int \<Rightarrow> pushNodeState \<Rightarrow> memberlist \<Rightarrow> memberlist run" where
  "merge_one cf draw now r m =
     (if pn_State r = state_code stateAlive then aliveNode cf draw now (alive_of_push r) None False m
      else if pn_State r = state_code stateDead \<or> pn_State r = state_code stateSuspect
      then suspectNode cf now \<lparr>su_Incarnation = pn_Incarnation r, su_Node = pn_Name r, su_From = cf_Name cf\<rparr> m
      else Done m)"

text \<open>\<open>draws\<close> are the random numbers, one for each turn.\<close>

fun mergeState :: "config \<Rightarrow> (nat \<Rightarrow> u32) \<Rightarrow> int \<Rightarrow> pushNodeState list \<Rightarrow> memberlist \<Rightarrow> memberlist run" where
  "mergeState cf draws now [] m = Done m"
| "mergeState cf draws now (r # remote) m =
     and_then (merge_one cf (draws 0) now r m) (mergeState cf (\<lambda>i. draws (Suc i)) now remote)"

section \<open>Reaping\<close>

definition delete_names :: "memberlist \<Rightarrow> nat list \<Rightarrow> (string \<rightharpoonup> nat) \<Rightarrow> string \<rightharpoonup> nat" where
  "delete_names m ps nm = fold (\<lambda>p nm. nm(Name (deref m p) := None)) ps nm"

definition resetNodes :: "(nat \<Rightarrow> nat) \<Rightarrow> memberlist \<Rightarrow> memberlist" where
  "resetNodes j m =
     (let (ns, deadIdx) = moveDeadNodes (deref m) (ml_nodes m)
      in m\<lparr>ml_nodeMap := delete_names m (drop deadIdx ns) (ml_nodeMap m),
           ml_nodes := shuffleNodes j (take deadIdx ns),
           ml_numNodes := of_nat deadIdx\<rparr>)"

section \<open>Acks\<close>

definition setAckHandler :: "u32 \<Rightarrow> ackHandler \<Rightarrow> int \<Rightarrow> memberlist \<Rightarrow> memberlist" where
  "setAckHandler seqNo h timeout m = emit [AckTimer seqNo timeout] (m\<lparr>ml_acks := (ml_acks m)(seqNo \<mapsto> h)\<rparr>)"

definition setAckChannel :: "u32 \<Rightarrow> nat \<Rightarrow> int \<Rightarrow> memberlist \<Rightarrow> memberlist" where
  "setAckChannel seqNo ch timeout m = setAckHandler seqNo (AckChannel ch) timeout m"

text \<open>The timer of a handler: it is removed, and a channel gets an incomplete message.\<close>

definition ack_timeout :: "u32 \<Rightarrow> ackHandler \<Rightarrow> memberlist \<Rightarrow> memberlist" where
  "ack_timeout seqNo h m =
     (let m1 = m\<lparr>ml_acks := (ml_acks m)(seqNo := None)\<rparr>
      in case h of AckChannel ch \<Rightarrow> emit [AckChan ch False []] m1 | AckRelay _ _ _ \<Rightarrow> m1)"

end
