(* ===== verification/MembershipInv.thy ===== *)
theory MembershipInv
  imports Membership
begin

text \<open>
  What the handlers of \<open>Membership\<close> keep: the consistency \<open>ml_ok\<close> of node list, name map, count and
  broadcast queue; what each handler does to the map of nodes; and what follows for any sequence
  of steps.
\<close>

section \<open>Refutation\<close>

lemma refute_inc_above: "refute_inc accused inc = Some y \<Longrightarrow> accused < y"
  by (rule refute_inc.raw_induct[where P = "\<lambda>a i y. a < y"]) (auto split: if_splits simp: not_le)

lemma refute_inc_Some:
  assumes "accused \<noteq> - 1"
  shows "refute_inc accused inc = Some (if inc \<le> accused then accused + 1 else inc)"
proof -
  have lt: "unat accused < unat (- 1 :: u32)"
    using assms by (metis word_less_nat_alt word_not_simps(3) word_order.not_eq_extremum)
  show ?thesis
  proof (induction "unat accused + 1 - unat inc" arbitrary: inc)
    case 0
    then have "\<not> inc \<le> accused"
      by (simp add: word_le_nat_alt)
    then show ?case
      by (subst refute_inc.simps) simp
  next
    case (Suc k)
    then have le: "inc \<le> accused"
      by (simp add: word_le_nat_alt)
    have "unat inc + 1 \<le> unat accused + 1" "unat accused + 1 < 2 ^ 32"
      using le lt by (simp_all add: word_le_nat_alt unsigned_minus_1_eq_mask mask_eq_exp_minus_1)
    then have i: "unat (inc + 1) = unat inc + 1"
      by (simp add: unat_word_ariths)
    have "refute_inc accused (inc + 1) = Some (if inc + 1 \<le> accused then accused + 1 else inc + 1)"
      using Suc(1)[of "inc + 1"] Suc(2) i by simp
    moreover have "inc + 1 = accused + 1" if "\<not> inc + 1 \<le> accused"
    proof -
      have "unat inc = unat accused"
        using that le i by (simp add: word_le_nat_alt)
      then have "inc = accused"
        by (rule word_unat_eq_iff[THEN iffD2])
      then show ?thesis
        by simp
    qed
    ultimately show ?case
      using le by (subst refute_inc.simps) auto
  qed
qed

lemma refute_inc_None: "refute_inc (- 1) inc = None"
proof (cases "refute_inc (- 1) inc")
  case (Some y)
  then have "- 1 < y"
    by (rule refute_inc_above)
  then show ?thesis
    by simp
qed simp

section \<open>Consistency\<close>

text \<open>
  What the rest of the program sees of the nodes: a map from names to states.  The node list
  holds each of its entries once, and the count is the length of the list.
\<close>

definition look :: "memberlist \<Rightarrow> string \<Rightarrow> nodeState option" where
  "look m n = map_option (deref m) (ml_nodeMap m n)"

definition ml_ok :: "memberlist \<Rightarrow> bool" where
  "ml_ok m \<longleftrightarrow>
     (\<forall>n p. ml_nodeMap m n = Some p \<longrightarrow> p < length (ml_heap m) \<and> Name (deref m p) = n) \<and>
     distinct (ml_nodes m) \<and> set (ml_nodes m) = ran (ml_nodeMap m) \<and>
     ml_numNodes m = of_nat (length (ml_nodes m)) \<and>
     unique_keys mb_node (ml_broadcasts m)"

lemma ml_okD:
  assumes "ml_ok m"
  shows "ml_nodeMap m n = Some p \<Longrightarrow> p < length (ml_heap m)"
    "ml_nodeMap m n = Some p \<Longrightarrow> Name (deref m p) = n"
    "distinct (ml_nodes m)" "set (ml_nodes m) = ran (ml_nodeMap m)"
    "ml_numNodes m = of_nat (length (ml_nodes m))" "unique_keys mb_node (ml_broadcasts m)"
  using assms by (simp_all add: ml_ok_def)

named_theorems frame "what an operation leaves alone"

lemma look_Name: "ml_ok m \<Longrightarrow> look m n = Some st \<Longrightarrow> Name st = n"
  by (auto simp: look_def ml_okD)

lemma deref_simps [frame]:
  "deref (emit es m) p = deref m p" "deref (ml_queueBroadcast nd msg k m) p = deref m p"
  "deref (encodeBroadcastNotify nd t x k m) p = deref m p" "deref (encodeAndBroadcast nd t x m) p = deref m p"
  "deref (m\<lparr>ml_incarnation := i\<rparr>) p = deref m p"
  by (simp_all add: deref_def emit_def ml_queueBroadcast_def encodeBroadcastNotify_def
      encodeAndBroadcast_def split_beta)

lemma map_simps [frame]:
  "ml_nodeMap (emit es m) = ml_nodeMap m" "ml_nodeMap (ml_queueBroadcast nd msg k m) = ml_nodeMap m"
  "ml_nodeMap (encodeBroadcastNotify nd t x k m) = ml_nodeMap m"
  "ml_nodeMap (encodeAndBroadcast nd t x m) = ml_nodeMap m" "ml_nodeMap (assign p st m) = ml_nodeMap m"
  "ml_leave (emit es m) = ml_leave m" "ml_leave (ml_queueBroadcast nd msg k m) = ml_leave m"
  "ml_leave (encodeBroadcastNotify nd t x k m) = ml_leave m"
  "ml_leave (encodeAndBroadcast nd t x m) = ml_leave m" "ml_leave (assign p st m) = ml_leave m"
  "ml_nodes (emit es m) = ml_nodes m" "ml_nodes (ml_queueBroadcast nd msg k m) = ml_nodes m"
  "ml_nodes (encodeBroadcastNotify nd t x k m) = ml_nodes m"
  "ml_nodes (encodeAndBroadcast nd t x m) = ml_nodes m" "ml_nodes (assign p st m) = ml_nodes m"
  "ml_broadcasts (emit es m) = ml_broadcasts m" "ml_broadcasts (assign p st m) = ml_broadcasts m"
  by (simp_all add: emit_def ml_queueBroadcast_def encodeBroadcastNotify_def
      encodeAndBroadcast_def assign_def split_beta)

lemma look_emit [frame]: "look (emit es m) = look m"
  "look (ml_queueBroadcast nd msg k m) = look m" "look (encodeBroadcastNotify nd t x k m) = look m"
  "look (encodeAndBroadcast nd t x m) = look m" "look (m\<lparr>ml_incarnation := i\<rparr>) = look m"
  by (auto simp: look_def fun_eq_iff frame intro!: option.map_cong)

lemma ml_ok_emit [intro]: "ml_ok m \<Longrightarrow> ml_ok (emit es m)"
  by (simp add: ml_ok_def emit_def deref_def)

lemma ml_ok_broadcast [intro]:
  assumes "ml_ok m"
  shows "ml_ok (ml_queueBroadcast nd msg k m)" "ml_ok (encodeBroadcastNotify nd t x k m)"
    "ml_ok (encodeAndBroadcast nd t x m)"
proof -
  show q: "ml_ok (ml_queueBroadcast nd msg k m)" for nd msg k
    using assms mb.unique_keys_queueBroadcast[OF ml_okD(6)[OF assms]]
    by (simp add: ml_ok_def ml_queueBroadcast_def emit_def deref_def split_beta)
  then show "ml_ok (encodeBroadcastNotify nd t x k m)" "ml_ok (encodeAndBroadcast nd t x m)"
    by (simp_all add: encodeBroadcastNotify_def encodeAndBroadcast_def)
qed

lemma ml_ok_incarnation [intro]: "ml_ok m \<Longrightarrow> ml_ok (m\<lparr>ml_incarnation := i\<rparr>)"
  by (simp add: ml_ok_def deref_def)

lemma same_pointer: "ml_ok m \<Longrightarrow> ml_nodeMap m n = Some p \<Longrightarrow> ml_nodeMap m n' = Some p \<Longrightarrow> n' = n"
  by (metis ml_okD(2))

lemma deref_assign:
  "p < length (ml_heap m) \<Longrightarrow> deref (assign p st m) q = (if q = p then st else deref m q)"
  by (simp add: deref_def assign_def nth_list_update)

lemma look_assign:
  assumes "ml_ok m" "ml_nodeMap m n = Some p"
  shows "look (assign p st m) = (look m)(n \<mapsto> st)"
proof
  fix n'
  have p: "p < length (ml_heap m)"
    by (rule ml_okD(1)[OF assms])
  show "look (assign p st m) n' = ((look m)(n \<mapsto> st)) n'"
    using assms same_pointer[OF assms, of n']
    by (cases "ml_nodeMap m n'") (auto simp: look_def frame deref_assign[OF p])
qed

lemma ml_ok_assign:
  assumes "ml_ok m" "ml_nodeMap m n = Some p" "Name st = n"
  shows "ml_ok (assign p st m)"
proof -
  have p: "p < length (ml_heap m)"
    by (rule ml_okD(1)[OF assms(1,2)])
  have "Name (deref (assign p st m) q) = n'" if "ml_nodeMap m n' = Some q" for n' q
  proof (cases "q = p")
    case True
    then have "n' = n"
      using same_pointer[OF assms(1,2)] that by blast
    then show ?thesis
      using True assms(3) by (simp add: deref_assign[OF p])
  qed (use ml_okD(2)[OF assms(1) that] in \<open>simp add: deref_assign[OF p]\<close>)
  then show ?thesis
    using assms(1) by (simp add: ml_ok_def assign_def)
qed

lemma mset_swap_end: "i \<le> length xs \<Longrightarrow> mset (swap i (length xs) (xs @ [x])) = add_mset x (mset xs)"
  using MUtil.mset_swap[of i "xs @ [x]" "length xs"] by simp

lemma add_node_spec:
  assumes "ml_ok m" "ml_nodeMap m (al_Node a) = None" "add_node draw a m = (p, m1)"
    "length (ml_nodes m) < 2 ^ 32"
  shows "ml_ok m1" "ml_nodeMap m1 (al_Node a) = Some p" "look m1 = (look m)(al_Node a \<mapsto> fresh_state a)"
    "ml_leave m1 = ml_leave m" "ml_broadcasts m1 = ml_broadcasts m"
proof -
  let ?n = "length (ml_nodes m)"
  have m1: "m1 = m\<lparr>ml_heap := ml_heap m @ [fresh_state a], ml_nodeMap := (ml_nodeMap m)(al_Node a \<mapsto> p),
      ml_nodes := swap (randomOffset ?n draw) ?n (ml_nodes m @ [p]), ml_numNodes := ml_numNodes m + 1\<rparr>"
    "p = length (ml_heap m)"
    using assms(3) by (auto simp: add_node_def Let_def)
  have off: "randomOffset ?n draw \<le> ?n"
    using randomOffset_less[of ?n draw] assms(4) by (cases "?n = 0") (auto simp: randomOffset_def)
  have ms: "mset (ml_nodes m1) = add_mset p (mset (ml_nodes m))"
    using mset_swap_end[OF off] by (simp add: m1(1))
  have old: "p \<notin> set (ml_nodes m)"
    using ml_okD(1,4)[OF assms(1)] by (auto simp: m1(2) ran_def)
  have d: "deref m1 q = (if q = p then fresh_state a else deref m q)" if "q < Suc (length (ml_heap m))" for q
    using that by (auto simp: m1 deref_def nth_append)
  have q: "q < length (ml_heap m) \<and> q \<noteq> p \<and> Name (deref m q) = n" if "ml_nodeMap m n = Some q" for n q
    using ml_okD(1,2)[OF assms(1) that] by (simp add: m1(2))
  have "set (ml_nodes m1) = ran (ml_nodeMap m1)"
    using arg_cong[OF ms, of set_mset] ml_okD(4)[OF assms(1)] assms(2) by (simp add: m1(1))
  moreover have "distinct (ml_nodes m1)"
    using old ml_okD(3)[OF assms(1)] ms by (metis distinct.simps(2) mset.simps(2) mset_eq_imp_distinct_iff)
  moreover have "ml_numNodes m1 = of_nat (length (ml_nodes m1))"
    using ml_okD(5)[OF assms(1)] arg_cong[OF ms, of size] by (simp add: m1(1))
  moreover have "p' < length (ml_heap m1) \<and> Name (deref m1 p') = n"
    if a: "ml_nodeMap m1 n = Some p'" for n p'
  proof (cases "n = al_Node a")
    case True
    then have "p' = p"
      using a by (simp add: m1(1))
    then show ?thesis
      using True d[of p] by (simp add: m1 fresh_state_def)
  next
    case False
    then have "ml_nodeMap m n = Some p'"
      using a by (simp add: m1(1))
    from q[OF this] show ?thesis
      using d[of p'] by (simp add: m1)
  qed
  moreover have "unique_keys mb_node (ml_broadcasts m1)"
    using ml_okD(6)[OF assms(1)] by (simp add: m1(1))
  ultimately show "ml_ok m1"
    unfolding ml_ok_def by blast
  show "ml_nodeMap m1 (al_Node a) = Some p" "ml_leave m1 = ml_leave m" "ml_broadcasts m1 = ml_broadcasts m"
    by (simp_all add: m1(1))
  show "look m1 = (look m)(al_Node a \<mapsto> fresh_state a)"
  proof
    fix n
    show "look m1 n = ((look m)(al_Node a \<mapsto> fresh_state a)) n"
      using q[of n] d by (cases "ml_nodeMap m n") (auto simp: look_def m1(1,2) assms(2))
  qed
qed


section \<open>What the handlers do to the map of nodes\<close>

definition newest_msg :: "memberlist \<Rightarrow> string \<Rightarrow> bytes \<Rightarrow> bool" where
  "newest_msg m n msg \<longleftrightarrow> (\<exists>x\<in>set (ml_broadcasts m). mb_node (bc x) = n \<and> mb_msg (bc x) = msg \<and> transmits x = 0)"

lemma newest_broadcast:
  "ml_ok m \<Longrightarrow> newest_msg (encodeBroadcastNotify nd t x k m) nd (encode t x)"
  by (auto simp: newest_msg_def encodeBroadcastNotify_def ml_queueBroadcast_def emit_def
      mb.queueBroadcast_eq ml_okD)

lemma refute_spec:
  assumes "ml_ok m" "ml_nodeMap m n = Some p"
  shows "refute (- 1) p k m = Hang"
    and "acc \<noteq> - 1 \<Longrightarrow> \<exists>inc m'. refute acc p k m = Done m' \<and> acc < inc \<and> ml_ok m' \<and>
      look m' = (look m)(n \<mapsto> (deref m p)\<lparr>Incarnation := inc\<rparr>) \<and> ml_leave m' = ml_leave m \<and>
      ml_nodeMap m' = ml_nodeMap m \<and> ml_nodes m' = ml_nodes m \<and>
      newest_msg m' n (encode aliveMsg (alive_struct (alive_of inc ((deref m p)\<lparr>Incarnation := inc\<rparr>))))"
proof -
  show "refute (- 1) p k m = Hang"
    by (simp add: refute_def refute_inc_None)
  assume a: "acc \<noteq> - 1"
  obtain inc where inc: "refute_inc acc (ml_incarnation m + 1) = Some inc"
    using refute_inc_Some[OF a] by blast
  let ?st = "(deref m p)\<lparr>Incarnation := inc\<rparr>" and ?m0 = "m\<lparr>ml_incarnation := inc\<rparr>"
  have nm: "Name ?st = n" "ml_nodeMap ?m0 n = Some p" "ml_ok ?m0"
    using ml_okD(2)[OF assms] assms by auto
  have ok: "ml_ok (assign p ?st ?m0)"
    by (rule ml_ok_assign[OF nm(3,2,1)])
  have look: "look (assign p ?st ?m0) = (look m)(n \<mapsto> ?st)"
    using look_assign[OF nm(3,2)] by (simp add: frame)
  let ?x = "alive_struct (alive_of inc ?st)"
  have "refute acc p k m = Done (encodeBroadcastNotify n aliveMsg ?x k (assign p ?st ?m0))"
    using inc nm(1) by (simp add: refute_def Let_def)
  then show "\<exists>inc m'. refute acc p k m = Done m' \<and> acc < inc \<and> ml_ok m' \<and>
      look m' = (look m)(n \<mapsto> (deref m p)\<lparr>Incarnation := inc\<rparr>) \<and> ml_leave m' = ml_leave m \<and>
      ml_nodeMap m' = ml_nodeMap m \<and> ml_nodes m' = ml_nodes m \<and>
      newest_msg m' n (encode aliveMsg (alive_struct (alive_of inc ((deref m p)\<lparr>Incarnation := inc\<rparr>))))"
    using refute_inc_above[OF inc] ok look newest_broadcast[OF ok, of n aliveMsg ?x k]
    by (intro exI[of _ inc] exI[of _ "encodeBroadcastNotify n aliveMsg ?x k (assign p ?st ?m0)"])
      (auto simp: frame)
qed

lemma look_events [frame]: "look (events cf os om p m) = look m"
  "ml_leave (events cf os om p m) = ml_leave m" "ml_nodes (events cf os om p m) = ml_nodes m"
  by (simp_all add: events_def frame)

lemma ml_ok_events [intro]: "ml_ok m \<Longrightarrow> ml_ok (events cf os om p m)"
  by (auto simp: events_def)

lemma Name_set_alive [simp]: "Name (set_alive now a st) = Name st"
  by (simp add: set_alive_def set_versions_def Let_def)

lemma set_alive_simps [simp]:
  "State (set_alive now a st) = stateAlive" "Incarnation (set_alive now a st) = al_Incarnation a"
  "Meta (set_alive now a st) = al_Meta a" "Addr (set_alive now a st) = Addr st" "Port (set_alive now a st) = Port st"
  by (simp_all add: set_alive_def set_versions_def Let_def)

text \<open>
  What becomes of a node \<open>st\<close> on an alive message: nothing, a refutation (of a message about this
  node itself), or the message is taken over.
\<close>

definition alive_effect :: "config \<Rightarrow> int \<Rightarrow> alive \<Rightarrow> bool \<Rightarrow> nodeState \<Rightarrow> nodeState \<Rightarrow> bool" where
  "alive_effect cf now a bootstrap st st' \<longleftrightarrow>
     st' = st \<or>
     (\<not> bootstrap \<and> Name st = cf_Name cf \<and> Incarnation st \<le> al_Incarnation a \<and>
        (\<exists>inc. al_Incarnation a < inc \<and> st' = st\<lparr>Incarnation := inc\<rparr>)) \<or>
     (st' = set_alive now a st \<and> Addr st = al_Addr a \<and> Port st = al_Port a \<and>
        (Incarnation st < al_Incarnation a \<and> Name st \<noteq> cf_Name cf \<or>
         Incarnation st \<le> al_Incarnation a \<and> Name st = cf_Name cf \<and> bootstrap))"

lemma alive_known_spec:
  assumes "ml_ok m" "ml_nodeMap m (al_Node a) = Some p" "alive_known cf now a k bootstrap p m = Done m'"
  shows "ml_ok m' \<and> ml_leave m' = ml_leave m \<and> ml_nodes m' = ml_nodes m \<and>
    (\<exists>st'. look m' = (look m)(al_Node a \<mapsto> st') \<and> alive_effect cf now a bootstrap (deref m p) st')"
proof -
  let ?st = "deref m p"
  have name: "Name ?st = al_Node a"
    by (rule ml_okD(2)[OF assms(1,2)])
  have same: "look m = (look m)(al_Node a \<mapsto> ?st)"
    using assms(2) by (simp add: look_def fun_eq_iff)
  have idle: ?thesis if "m' = m \<or> m' = emit es m" for es
    using that same assms(1) by (auto simp: frame alive_effect_def intro!: exI[of _ ?st])
  consider (conflict) "Addr ?st \<noteq> al_Addr a \<or> Port ?st \<noteq> al_Port a"
    | (old) "\<not> (Addr ?st \<noteq> al_Addr a \<or> Port ?st \<noteq> al_Port a)" "al_Incarnation a \<le> Incarnation ?st \<and> Name ?st \<noteq> cf_Name cf"
    | (less) "\<not> (Addr ?st \<noteq> al_Addr a \<or> Port ?st \<noteq> al_Port a)" "al_Incarnation a < Incarnation ?st \<and> Name ?st = cf_Name cf"
    | (local) "Addr ?st = al_Addr a" "Port ?st = al_Port a" "Incarnation ?st \<le> al_Incarnation a"
        "\<not> bootstrap" "Name ?st = cf_Name cf"
    | (take) "Addr ?st = al_Addr a" "Port ?st = al_Port a"
        "Incarnation ?st < al_Incarnation a \<and> Name ?st \<noteq> cf_Name cf \<or>
         Incarnation ?st \<le> al_Incarnation a \<and> Name ?st = cf_Name cf \<and> bootstrap"
    by fastforce
  then show ?thesis
  proof cases
    case conflict
    then have "m' = (if cf_Conflict cf then emit [EvConflict (node_of ?st) (plain_of_alive a)] m else m)"
      using assms(3) by (simp add: alive_known_def Let_def)
    then show ?thesis
      by (intro idle[of "[EvConflict (node_of ?st) (plain_of_alive a)]"]) auto
  next
    case old
    then have "m' = m"
      using assms(3) by (simp add: alive_known_def Let_def)
    then show ?thesis
      by (intro idle[of "[]"]) simp
  next
    case less
    then have "m' = m"
      using assms(3) by (simp add: alive_known_def Let_def)
    then show ?thesis
      by (intro idle[of "[]"]) simp
  next
    case local
    have e: "alive_known cf now a k bootstrap p m =
        (if al_Incarnation a = Incarnation ?st \<and> al_Meta a = Meta ?st \<and> al_Vsn a = versions_of ?st then Done m
         else and_then (refute (al_Incarnation a) p k m) (\<lambda>m1. Done (events cf (State ?st) (Meta ?st) p m1)))"
      using local leD[OF local(3)] by (simp add: alive_known_def Let_def)
    show ?thesis
    proof (cases "m' = m")
      case False
      then have r: "and_then (refute (al_Incarnation a) p k m) (\<lambda>m1. Done (events cf (State ?st) (Meta ?st) p m1)) = Done m'"
        using assms(3) unfolding e by (auto split: if_splits)
      then have "al_Incarnation a \<noteq> - 1"
        using refute_spec(1)[OF assms(1,2)] by auto
      from refute_spec(2)[OF assms(1,2) this, of k] obtain inc m1 where
        m1: "refute (al_Incarnation a) p k m = Done m1" "al_Incarnation a < inc" "ml_ok m1"
          "look m1 = (look m)(al_Node a \<mapsto> ?st\<lparr>Incarnation := inc\<rparr>)" "ml_leave m1 = ml_leave m"
          "ml_nodes m1 = ml_nodes m"
        by blast
      then show ?thesis
        using r local by (auto simp: frame alive_effect_def intro!: exI[of _ "?st\<lparr>Incarnation := inc\<rparr>"])
    qed (use idle[of "[]"] in simp)
  next
    case take
    let ?m1 = "encodeBroadcastNotify (al_Node a) aliveMsg (alive_struct a) k m"
    have "m' = events cf (State ?st) (Meta ?st) p (assign p (set_alive now a ?st) ?m1)"
      using assms(3) take by (auto simp: alive_known_def Let_def split: if_splits)
    moreover have ok: "ml_ok ?m1" "ml_nodeMap ?m1 (al_Node a) = Some p"
      using assms(1,2) by (auto simp: frame)
    moreover have "ml_ok (assign p (set_alive now a ?st) ?m1)"
      by (rule ml_ok_assign[OF ok]) (simp add: name)
    ultimately show ?thesis
      using take look_assign[OF ok] by (auto simp: frame alive_effect_def)
  qed
qed


lemma length_add_node: "add_node draw a m = (p, m1) \<Longrightarrow> length (ml_nodes m1) = Suc (length (ml_nodes m))"
  by (auto simp: add_node_def Let_def)

definition known_or_fresh :: "alive \<Rightarrow> memberlist \<Rightarrow> nodeState" where
  "known_or_fresh a m = (case look m (al_Node a) of Some st \<Rightarrow> st | None \<Rightarrow> fresh_state a)"

lemma aliveNode_spec:
  assumes "ml_ok m" "length (ml_nodes m) < 2 ^ 32" "aliveNode cf draw now a k bootstrap m = Done m'"
  shows "ml_ok m' \<and> ml_leave m' = ml_leave m \<and> length (ml_nodes m') \<le> Suc (length (ml_nodes m)) \<and>
    (look m' = look m \<or>
     (\<exists>st'. look m' = (look m)(al_Node a \<mapsto> st') \<and> alive_effect cf now a bootstrap (known_or_fresh a m) st' \<and>
        \<not> (ml_leave m \<and> al_Node a = cf_Name cf)))"
proof (cases "ml_leave m \<and> al_Node a = cf_Name cf \<or> (\<exists>e. ask_alive cf a = Done (Some e))")
  case True
  then have "m' = m"
    using assms(3) by (auto simp: aliveNode_def split: if_splits)
  then show ?thesis
    using assms(1) by simp
next
  case False
  obtain p m1 where pm: "(case ml_nodeMap m (al_Node a) of Some p \<Rightarrow> (p, m) | None \<Rightarrow> add_node draw a m) = (p, m1)"
    by (rule prod.exhaust)
  have "ask_alive cf a = Done None"
    using assms(3) False by (cases "ask_alive cf a") (auto simp: aliveNode_def split: if_splits)
  then have k: "alive_known cf now a k bootstrap p m1 = Done m'"
    using assms(3) False pm by (auto simp: aliveNode_def)
  have m1: "ml_ok m1 \<and> ml_nodeMap m1 (al_Node a) = Some p \<and> deref m1 p = known_or_fresh a m \<and>
      (\<forall>st'. (look m1)(al_Node a \<mapsto> st') = (look m)(al_Node a \<mapsto> st')) \<and> ml_leave m1 = ml_leave m \<and>
      length (ml_nodes m1) \<le> Suc (length (ml_nodes m))"
  proof (cases "ml_nodeMap m (al_Node a)")
    case None
    then have an: "add_node draw a m = (p, m1)"
      using pm by simp
    note s = add_node_spec[OF assms(1) None an assms(2)]
    have "deref m1 p = fresh_state a"
      using s(2,3) by (auto simp: look_def fun_eq_iff dest: spec[of _ "al_Node a"])
    then show ?thesis
      using s length_add_node[OF an] None by (simp add: known_or_fresh_def look_def[of m])
  next
    case (Some q)
    then show ?thesis
      using pm assms(1) by (simp add: known_or_fresh_def look_def)
  qed
  then show ?thesis
    using alive_known_spec[of m1 a p cf now k bootstrap m'] k False by auto
qed

text \<open>Likewise for a suspicion and a death.\<close>

definition accused_effect :: "config \<Rightarrow> bool \<Rightarrow> u32 \<Rightarrow> int \<Rightarrow> nodeStateType \<Rightarrow> nodeState \<Rightarrow> nodeState \<Rightarrow> bool" where
  "accused_effect cf refutes acc now new st st' \<longleftrightarrow>
     Incarnation st \<le> acc \<and>
     (if refutes then State st \<noteq> stateDead \<and> (\<exists>inc. acc < inc \<and> st' = st\<lparr>Incarnation := inc\<rparr>)
      else st' = st\<lparr>Incarnation := acc, State := new, StateChange := now\<rparr>)"

lemma suspectNode_spec:
  assumes "ml_ok m" "suspectNode cf now s m = Done m'"
  shows "ml_ok m' \<and> ml_leave m' = ml_leave m \<and> ml_nodes m' = ml_nodes m \<and>
    (look m' = look m \<or>
     (\<exists>st st'. look m (su_Node s) = Some st \<and> State st = stateAlive \<and> look m' = (look m)(su_Node s \<mapsto> st') \<and>
        accused_effect cf (Name st = cf_Name cf) (su_Incarnation s) now stateSuspect st st'))"
proof (cases "ml_nodeMap m (su_Node s)")
  case None
  then show ?thesis
    using assms by (simp add: suspectNode_def)
next
  case (Some p)
  let ?st = "deref m p"
  have l: "look m (su_Node s) = Some ?st"
    using Some by (simp add: look_def)
  consider (idle) "su_Incarnation s < Incarnation ?st \<or> State ?st \<noteq> stateAlive"
    | (self) "\<not> su_Incarnation s < Incarnation ?st" "State ?st = stateAlive" "Name ?st = cf_Name cf"
    | (other) "\<not> su_Incarnation s < Incarnation ?st" "State ?st = stateAlive" "Name ?st \<noteq> cf_Name cf"
    by blast
  then show ?thesis
  proof cases
    case idle
    then have "m' = m"
      using assms(2) Some by (auto simp: suspectNode_def Let_def split: if_splits)
    then show ?thesis
      using assms(1) by simp
  next
    case self
    then have r: "refute (su_Incarnation s) p None m = Done m'"
      using assms(2) Some by (simp add: suspectNode_def Let_def)
    then have "su_Incarnation s \<noteq> - 1"
      using refute_spec(1)[OF assms(1) Some] by auto
    from refute_spec(2)[OF assms(1) Some this, of None] r show ?thesis
      using l self by (auto simp: accused_effect_def)
  next
    case other
    let ?m1 = "encodeAndBroadcast (su_Node s) suspectMsg (suspect_struct s) m"
    let ?st' = "?st\<lparr>Incarnation := su_Incarnation s, State := stateSuspect, StateChange := now\<rparr>"
    have m1: "ml_ok ?m1" "ml_nodeMap ?m1 (su_Node s) = Some p"
      using assms(1) Some by (auto simp: frame)
    have "ml_ok (assign p ?st' ?m1)"
      by (rule ml_ok_assign[OF m1]) (simp add: ml_okD(2)[OF assms(1) Some])
    moreover have "look (assign p ?st' ?m1) = (look m)(su_Node s \<mapsto> ?st')"
      by (simp only: look_assign[OF m1] frame)
    moreover obtain es where "m' = emit es (assign p ?st' ?m1)"
      using assms(2) Some other by (auto simp: suspectNode_def Let_def)
    ultimately show ?thesis
      using l other by (auto simp: frame accused_effect_def)
  qed
qed

lemma deadNode_spec:
  assumes "ml_ok m" "deadNode cf now d m = Done m'"
  shows "ml_ok m' \<and> ml_leave m' = ml_leave m \<and> ml_nodes m' = ml_nodes m \<and>
    (look m' = look m \<or>
     (\<exists>st st'. look m (de_Node d) = Some st \<and> State st \<noteq> stateDead \<and> look m' = (look m)(de_Node d \<mapsto> st') \<and>
        accused_effect cf (Name st = cf_Name cf \<and> \<not> ml_leave m) (de_Incarnation d) now stateDead st st'))"
proof (cases "ml_nodeMap m (de_Node d)")
  case None
  then show ?thesis
    using assms by (simp add: deadNode_def)
next
  case (Some p)
  let ?st = "deref m p"
  have l: "look m (de_Node d) = Some ?st"
    using Some by (simp add: look_def)
  consider (idle) "de_Incarnation d < Incarnation ?st \<or> State ?st = stateDead"
    | (self) "\<not> de_Incarnation d < Incarnation ?st" "State ?st \<noteq> stateDead" "Name ?st = cf_Name cf \<and> \<not> ml_leave m"
    | (other) "\<not> de_Incarnation d < Incarnation ?st" "State ?st \<noteq> stateDead" "\<not> (Name ?st = cf_Name cf \<and> \<not> ml_leave m)"
    by blast
  then show ?thesis
  proof cases
    case idle
    then have "m' = m"
      using assms(2) Some by (auto simp: deadNode_def Let_def split: if_splits)
    then show ?thesis
      using assms(1) by simp
  next
    case self
    then have r: "refute (de_Incarnation d) p None m = Done m'"
      using assms(2) Some by (simp add: deadNode_def Let_def)
    then have "de_Incarnation d \<noteq> - 1"
      using refute_spec(1)[OF assms(1) Some] by auto
    from refute_spec(2)[OF assms(1) Some this, of None] r show ?thesis
      using l self by (auto simp: accused_effect_def)
  next
    case other
    obtain k where k: "(if Name ?st = cf_Name cf
        then encodeBroadcastNotify (de_Node d) deadMsg (dead_struct d) (Some leaveBroadcast) m
        else encodeAndBroadcast (de_Node d) deadMsg (dead_struct d) m) =
        encodeBroadcastNotify (de_Node d) deadMsg (dead_struct d) k m"
      by (metis encodeAndBroadcast_def)
    let ?m1 = "encodeBroadcastNotify (de_Node d) deadMsg (dead_struct d) k m"
    let ?st' = "?st\<lparr>Incarnation := de_Incarnation d, State := stateDead, StateChange := now\<rparr>"
    have m1: "ml_ok ?m1" "ml_nodeMap ?m1 (de_Node d) = Some p"
      using assms(1) Some by (auto simp: frame)
    have ok: "ml_ok (assign p ?st' ?m1)"
      by (rule ml_ok_assign[OF m1]) (simp add: ml_okD(2)[OF assms(1) Some])
    moreover have lk: "look (assign p ?st' ?m1) = (look m)(de_Node d \<mapsto> ?st')"
      by (simp only: look_assign[OF m1] frame)
    moreover have "m' = (if cf_Events cf then emit [EvLeave (node_of ?st')] (assign p ?st' ?m1) else assign p ?st' ?m1)"
      using assms(2) other unfolding deadNode_def Some option.case Let_def k by simp
    then have "(\<exists>es. m' = emit es (assign p ?st' ?m1)) \<or> m' = assign p ?st' ?m1"
      by (cases "cf_Events cf") auto
    ultimately show ?thesis
      using l other by (auto simp: frame accused_effect_def)
  qed
qed


lemma suspect_timer_spec:
  assumes "ml_ok m" "suspect_timer cf now n t m = Done m'"
  shows "m' = m \<or> (\<exists>st. look m n = Some st \<and> State st = stateSuspect \<and>
    deadNode cf now \<lparr>de_Incarnation = Incarnation st, de_Node = n, de_From = cf_Name cf\<rparr> m = Done m')"
  using assms ml_okD(2)[OF assms(1)]
  by (auto simp: suspect_timer_def suspectTimeout_def look_def split: option.splits if_splits)

section \<open>Reaping\<close>

lemma mset_shuffle: "\<forall>i. j i \<le> i \<Longrightarrow> mset (shuffleNodes j ns) = mset ns"
proof -
  assume j: "\<forall>i. j i \<le> i"
  have f: "set is \<subseteq> {..<length ns} \<Longrightarrow> mset (fold (\<lambda>i ns. swap i (j i) ns) is ns) = mset ns" for "is"
  proof (induction "is" arbitrary: ns)
    case (Cons i "is")
    then have "i < length ns" "j i < length ns"
      using j le_less_trans by (auto intro: le_less_trans)
    then show ?case
      using Cons MUtil.mset_swap[of i ns "j i"] by simp
  qed simp
  show ?thesis
    unfolding shuffleNodes_def by (rule f) auto
qed

lemma delete_names_eq:
  "delete_names m ps nm n = (if \<exists>p\<in>set ps. Name (deref m p) = n then None else nm n)"
  unfolding delete_names_def by (induction ps arbitrary: nm) auto

definition reaped :: "(string \<rightharpoonup> nodeState) \<Rightarrow> string \<rightharpoonup> nodeState" where
  "reaped l n = (case l n of None \<Rightarrow> None | Some st \<Rightarrow> if State st = stateDead then None else Some st)"

lemma resetNodes_ok:
  assumes "ml_ok m" "\<forall>i. j i \<le> i"
  shows "ml_ok (resetNodes j m) \<and> look (resetNodes j m) = reaped (look m) \<and>
    ml_leave (resetNodes j m) = ml_leave m \<and> length (ml_nodes (resetNodes j m)) \<le> length (ml_nodes m)"
proof -
  obtain ns k where mv: "moveDeadNodes (deref m) (ml_nodes m) = (ns, k)"
    by (rule prod.exhaust)
  have sp: "mset ns = mset (ml_nodes m)" "k \<le> length ns"
    "\<forall>i<k. State (deref m (ns ! i)) \<noteq> stateDead"
    "\<forall>i. k \<le> i \<and> i < length ns \<longrightarrow> State (deref m (ns ! i)) = stateDead"
    using move_dead_spec[OF mv[unfolded moveDeadNodes_def]] by force+
  have sets: "set ns = ran (ml_nodeMap m)" "distinct ns"
    using sp(1) ml_okD(3,4)[OF assms(1)] by (metis set_mset_mset, metis mset_eq_imp_distinct_iff)
  have live: "set (take k ns) = {p \<in> ran (ml_nodeMap m). State (deref m p) \<noteq> stateDead}"
    "set (drop k ns) = {p \<in> ran (ml_nodeMap m). State (deref m p) = stateDead}"
  proof -
    have t: "\<forall>p\<in>set (take k ns). State (deref m p) \<noteq> stateDead" "\<forall>p\<in>set (drop k ns). State (deref m p) = stateDead"
      using sp(2-4) by (auto simp: in_set_conv_nth)
    have "set (take k ns) \<union> set (drop k ns) = ran (ml_nodeMap m)"
      using sets(1) by (metis append_take_drop_id set_append)
    then show "set (take k ns) = {p \<in> ran (ml_nodeMap m). State (deref m p) \<noteq> stateDead}"
      "set (drop k ns) = {p \<in> ran (ml_nodeMap m). State (deref m p) = stateDead}"
      using t by auto
  qed
  let ?m = "resetNodes j m"
  have m: "ml_nodes ?m = shuffleNodes j (take k ns)" "ml_numNodes ?m = of_nat k" "ml_heap ?m = ml_heap m"
    "ml_nodeMap ?m = delete_names m (drop k ns) (ml_nodeMap m)" "ml_leave ?m = ml_leave m"
    "ml_broadcasts ?m = ml_broadcasts m"
    by (simp_all add: resetNodes_def mv)
  have d: "deref ?m p = deref m p" for p
    by (simp add: deref_def m)
  have map: "ml_nodeMap ?m n = (case ml_nodeMap m n of None \<Rightarrow> None
      | Some p \<Rightarrow> if State (deref m p) = stateDead then None else Some p)" for n
  proof (cases "ml_nodeMap m n")
    case None
    then show ?thesis
      by (simp add: m delete_names_eq)
  next
    case (Some p)
    have "(\<exists>q\<in>set (drop k ns). Name (deref m q) = n) \<longleftrightarrow> State (deref m p) = stateDead"
    proof
      assume "\<exists>q\<in>set (drop k ns). Name (deref m q) = n"
      then obtain q n' where q: "ml_nodeMap m n' = Some q" "State (deref m q) = stateDead" "Name (deref m q) = n"
        unfolding live(2) by (auto simp: ran_def)
      then have "n' = n"
        using ml_okD(2)[OF assms(1) q(1)] by simp
      then show "State (deref m p) = stateDead"
        using q Some by simp
    next
      assume "State (deref m p) = stateDead"
      then have "p \<in> set (drop k ns)"
        unfolding live(2) using Some by (auto intro: ranI)
      then show "\<exists>q\<in>set (drop k ns). Name (deref m q) = n"
        using ml_okD(2)[OF assms(1) Some] by blast
    qed
    then show ?thesis
      using Some by (simp add: m delete_names_eq)
  qed
  have ms: "mset (ml_nodes ?m) = mset (take k ns)"
    using mset_shuffle[OF assms(2)] by (simp add: m)
  have "set (ml_nodes ?m) = ran (ml_nodeMap ?m)"
  proof -
    have "set (ml_nodes ?m) = set (take k ns)"
      using ms by (metis set_mset_mset)
    also have "\<dots> = ran (ml_nodeMap ?m)"
      unfolding live(1) by (auto simp: ran_def map split: option.splits if_splits)
    finally show ?thesis .
  qed
  moreover have "distinct (ml_nodes ?m)"
    using ms sets(2) by (metis distinct_take mset_eq_imp_distinct_iff)
  moreover have len: "length (ml_nodes ?m) = k"
    using arg_cong[OF ms, of size] sp(2) by simp
  moreover have "p < length (ml_heap ?m) \<and> Name (deref ?m p) = n" if "ml_nodeMap ?m n = Some p" for n p
    using that ml_okD(1,2)[OF assms(1), of n p] by (auto simp: map d m(3) split: option.splits if_splits)
  ultimately have ok: "ml_ok ?m"
    using ml_okD(6)[OF assms(1)] unfolding ml_ok_def m(2) m(6) by blast
  have "look ?m n = reaped (look m) n" for n
    by (cases "ml_nodeMap m n") (auto simp: look_def reaped_def map d)
  then show ?thesis
    using ok len m(5) sp(2) arg_cong[OF sp(1), of size] by auto
qed

section \<open>Steps\<close>

text \<open>
  What can happen to a running memberlist, in any order: messages of any content and from
  anybody, timers, the reaping of dead nodes, announcing itself with a new incarnation
  (\<open>setAlive\<close> and \<open>UpdateNode\<close>), leaving.
\<close>

inductive ml_step :: "config \<Rightarrow> memberlist \<Rightarrow> memberlist \<Rightarrow> bool" for cf where
  step_alive: "length (ml_nodes m) < 2 ^ 32 \<Longrightarrow> aliveNode cf draw now a k False m = Done m' \<Longrightarrow> ml_step cf m m'"
| step_announce: "length (ml_nodes m) < 2 ^ 32 \<Longrightarrow> al_Node a = cf_Name cf \<Longrightarrow>
    (case look m (cf_Name cf) of None \<Rightarrow> True | Some st \<Rightarrow> Incarnation st < al_Incarnation a) \<Longrightarrow>
    aliveNode cf draw now a k True m = Done m' \<Longrightarrow> ml_step cf m m'"
| step_suspect: "suspectNode cf now s m = Done m' \<Longrightarrow> ml_step cf m m'"
| step_timer: "suspect_timer cf now n t m = Done m' \<Longrightarrow> ml_step cf m m'"
| step_dead: "deadNode cf now d m = Done m' \<Longrightarrow> ml_step cf m m'"
| step_reset: "\<forall>i. j i \<le> i \<Longrightarrow> ml_step cf m (resetNodes j m)"
| step_leave: "ml_step cf m (m\<lparr>ml_leave := True\<rparr>)"
| step_acks: "ml_step cf m (m\<lparr>ml_acks := acks, ml_sequenceNum := sn, ml_probeIndex := i, ml_handoff := h, ml_tickers := ti, ml_stopTick := st,
    ml_triggers := tr, ml_shutdown := sd\<rparr>)"
| step_sent: "unique_keys mb_node q \<Longrightarrow> ml_step cf m (emit es (m\<lparr>ml_broadcasts := q\<rparr>))"

definition rank :: "nodeStateType \<Rightarrow> nat" where
  "rank s = (case s of stateAlive \<Rightarrow> 0 | stateSuspect \<Rightarrow> 1 | stateDead \<Rightarrow> 2)"

text \<open>Later news about a node: a higher incarnation, or of the same incarnation the worse state.\<close>

definition news :: "nodeState \<Rightarrow> nodeState \<Rightarrow> bool" where
  "news st st' \<longleftrightarrow> Name st' = Name st \<and>
     (Incarnation st < Incarnation st' \<or> Incarnation st = Incarnation st' \<and> rank (State st) \<le> rank (State st'))"

lemma news_refl [simp]: "news st st"
  by (simp add: news_def)

lemma alive_effect_news:
  assumes "alive_effect cf now a bootstrap st st'"
    "bootstrap \<and> Name st = cf_Name cf \<longrightarrow> Incarnation st < al_Incarnation a"
  shows "news st st'"
  using assms by (auto simp: alive_effect_def news_def)

lemma accused_effect_news:
  "accused_effect cf r acc now new st st' \<Longrightarrow> rank (State st) \<le> rank new \<Longrightarrow> news st st'"
  by (auto simp: accused_effect_def news_def split: if_splits)


lemma ml_ok_step:
  assumes "ml_step cf m m'" "ml_ok m"
  shows "ml_ok m'"
  using assms(1)
proof cases
  case (step_alive draw now a k)
  from aliveNode_spec[OF assms(2) step_alive] show ?thesis
    by (rule conjunct1)
next
  case (step_announce a draw now k)
  from aliveNode_spec[OF assms(2) step_announce(1,4)] show ?thesis
    by (rule conjunct1)
next
  case (step_suspect now s)
  from suspectNode_spec[OF assms(2) step_suspect] show ?thesis
    by (rule conjunct1)
next
  case (step_timer now n t)
  from suspect_timer_spec[OF assms(2) step_timer] show ?thesis
    using assms(2) deadNode_spec[OF assms(2)] by (elim disjE exE conjE) (simp, blast)
next
  case (step_dead now d)
  from deadNode_spec[OF assms(2) step_dead] show ?thesis
    by (rule conjunct1)
next
  case (step_reset j)
  from resetNodes_ok[OF assms(2) step_reset(2)] show ?thesis
    unfolding step_reset(1) by (rule conjunct1)
next
  case step_leave
  then show ?thesis
    using assms(2) by (simp add: ml_ok_def deref_def)
next
  case (step_acks acks sn i h ti st tr sd)
  then show ?thesis
    using assms(2) by (simp add: ml_ok_def deref_def)
next
  case (step_sent q es)
  then show ?thesis
    using assms(2) by (simp add: ml_ok_def emit_def deref_def)
qed

definition all_news :: "(string \<rightharpoonup> nodeState) \<Rightarrow> (string \<rightharpoonup> nodeState) \<Rightarrow> bool" where
  "all_news l l' \<longleftrightarrow>
     (\<forall>n st. l n = Some st \<longrightarrow> (State st = stateDead \<and> l' n = None) \<or> (\<exists>st'. l' n = Some st' \<and> news st st'))"

lemma all_news_refl [simp]: "all_news l l"
  by (auto simp: all_news_def)

lemma all_news_upd: "(\<And>st. l n = Some st \<Longrightarrow> news st st') \<Longrightarrow> all_news l (l(n \<mapsto> st'))"
  by (auto simp: all_news_def)

lemma deadNode_news:
  assumes "ml_ok m" "deadNode cf now d m = Done m'"
  shows "all_news (look m) (look m')"
  using deadNode_spec[OF assms]
  by (auto intro!: all_news_upd accused_effect_news simp: rank_def split: nodeStateType.split)

lemma all_news_step:
  assumes "ml_step cf m m'" "ml_ok m"
  shows "all_news (look m) (look m')"
  using assms
proof cases
  case (step_alive draw now a k)
  from aliveNode_spec[OF assms(2) step_alive] show ?thesis
    by (auto intro!: all_news_upd alive_effect_news simp: known_or_fresh_def)
next
  case (step_announce a draw now k)
  from aliveNode_spec[OF assms(2) step_announce(1,4)] step_announce(2,3) show ?thesis
    by (auto intro!: all_news_upd alive_effect_news simp: known_or_fresh_def)
next
  case (step_suspect now s)
  from suspectNode_spec[OF assms(2) step_suspect] show ?thesis
    by (auto intro!: all_news_upd accused_effect_news simp: rank_def)
next
  case (step_timer now n t)
  then show ?thesis
    using suspect_timer_spec[OF assms(2)] deadNode_news[OF assms(2)] by fastforce
next
  case (step_dead now d)
  then show ?thesis
    by (rule deadNode_news[OF assms(2)])
next
  case (step_reset j)
  then show ?thesis
    using resetNodes_ok[OF assms(2)] by (auto simp: all_news_def reaped_def)
qed (simp_all add: look_def[abs_def] emit_def deref_def[abs_def])

text \<open>
  C10: whatever messages, timers and reaping do, in any order, the name map
  and the node list stay consistent, and a node's entry only ever moves to a higher incarnation or,
  within one incarnation, from alive to suspect to dead; only dead entries go away.
\<close>

theorem membership_moves_forward:
  assumes "ml_step cf m m'" "ml_ok m"
  shows "ml_ok m' \<and>
    (\<forall>n st. look m n = Some st \<longrightarrow> (State st = stateDead \<and> look m' n = None) \<or>
      (\<exists>st'. look m' n = Some st' \<and> (Incarnation st < Incarnation st' \<or>
         Incarnation st = Incarnation st' \<and> rank (State st) \<le> rank (State st'))))"
  using ml_ok_step[OF assms] all_news_step[OF assms] unfolding all_news_def news_def by blast

definition cfg_a :: config where
  "cfg_a = \<lparr>cf_Name = ''a'', cf_BindAddr = ''0.0.0.0'', cf_BindPort = 7946,
     cf_AdvertiseAddr = [], cf_AdvertisePort = 7946, cf_ProtocolVersion = 2, cf_IndirectChecks = 3,
     cf_RetransmitMult = 4, cf_SuspicionMult = 5, cf_ProbeInterval = 1000000000, cf_ProbeTimeout = 500000000,
     cf_PushPullInterval = 30000000000, cf_GossipInterval = 200000000, cf_GossipNodes = 3,
     cf_TCPTimeout = 10000000000, cf_EnableCompression = True, cf_DMin = 0, cf_DMax = 0, cf_DCur = 0,
     cf_Events = False, cf_Conflict = False, cf_Alive = None, cf_Merge = None, cf_Ping = None,
     cf_Delegate = True, cf_SecretKey = [], cf_Keyring = None\<rparr>"

definition state_b :: "string \<Rightarrow> u32 \<Rightarrow> nodeStateType \<Rightarrow> nodeState" where
  "state_b n i t = (ns_of n t)\<lparr>Addr := [127, 0, 0, 1], Port := 7946, Incarnation := i\<rparr>"

definition ml_with :: "nodeState list \<Rightarrow> memberlist" where
  "ml_with ns = \<lparr>ml_sequenceNum = 0, ml_incarnation = 1, ml_numNodes = of_nat (length ns), ml_shutdown = False,
     ml_leave = False, ml_heap = ns, ml_nodes = [0..<length ns],
     ml_nodeMap = map_of (zip (map Name ns) [0..<length ns]), ml_tickers = [], ml_stopTick = 0, ml_triggers = [],
     ml_probeIndex = 0, ml_acks = Map.empty,
     ml_broadcasts = [], ml_handoff = [], ml_out = []\<rparr>"

definition ml_a :: memberlist where
  "ml_a = ml_with [state_b ''a'' 1 stateAlive, state_b ''b'' 3 stateAlive]"

lemma Name_state_b [simp]: "Name (state_b n i t) = n" "State (state_b n i t) = t" "Incarnation (state_b n i t) = i"
  "Addr (state_b n i t) = [127, 0, 0, 1]" "Port (state_b n i t) = 7946" "Meta (state_b n i t) = []"
  by (simp_all add: state_b_def ns_of_def)

lemma nodeMap_a: "ml_nodeMap ml_a = [''b'' \<mapsto> 1, ''a'' \<mapsto> 0]"
  by (auto simp: ml_a_def ml_with_def upt_rec fun_eq_iff)

lemma ml_ok_a: "ml_ok ml_a"
proof -
  have "ml_nodes ml_a = [0, 1]" "ml_heap ml_a = [state_b ''a'' 1 stateAlive, state_b ''b'' 3 stateAlive]"
    "ml_broadcasts ml_a = []" "ml_numNodes ml_a = 2"
    by (simp_all add: ml_a_def ml_with_def upt_rec)
  note sel = this nodeMap_a
  have ran: "ran (ml_nodeMap ml_a) = {0, 1}"
    unfolding nodeMap_a by (subst ran_map_upd) auto
  show ?thesis
    unfolding ml_ok_def
  proof (intro conjI allI impI)
    fix n p
    assume "ml_nodeMap ml_a n = Some p"
    then show "p < length (ml_heap ml_a)" "Name (deref ml_a p) = n"
      by (auto simp: sel deref_def split: if_splits)
  qed (simp_all add: sel(1-4) ran unique_keys_def)
qed

lemma look_a: "look ml_a ''a'' = Some (state_b ''a'' 1 stateAlive)" "look ml_a ''b'' = Some (state_b ''b'' 3 stateAlive)"
  by (simp_all add: look_def nodeMap_a deref_def ml_a_def ml_with_def)

definition suspicion :: "string \<Rightarrow> u32 \<Rightarrow> suspect" where
  "suspicion n i = \<lparr>su_Incarnation = i, su_Node = n, su_From = ''c''\<rparr>"

lemma cfg_a_Name [simp]: "cf_Name cfg_a = ''a''" "cf_Events cfg_a = False" "cf_Alive cfg_a = None"
  by (simp_all add: cfg_a_def)

lemma suspect_b: "\<exists>m'. suspectNode cfg_a 7 (suspicion ''b'' 3) ml_a = Done m'"
  by (simp add: suspectNode_def suspicion_def nodeMap_a Let_def deref_def ml_a_def ml_with_def)

lemma membership_moves_forward_witness:
  "\<exists>m'. suspectNode cfg_a 7 (suspicion ''b'' 3) ml_a = Done m' \<and> ml_ok m' \<and>
    (\<exists>st'. look m' ''b'' = Some st' \<and> (3 < Incarnation st' \<or> 3 = Incarnation st'))"
proof -
  obtain m' where m': "suspectNode cfg_a 7 (suspicion ''b'' 3) ml_a = Done m'"
    using suspect_b by blast
  have "ml_ok m' \<and> (State (state_b ''b'' 3 stateAlive) = stateDead \<and> look m' ''b'' = None \<or>
     (\<exists>st'. look m' ''b'' = Some st' \<and> (Incarnation (state_b ''b'' 3 stateAlive) < Incarnation st' \<or>
        Incarnation (state_b ''b'' 3 stateAlive) = Incarnation st' \<and>
        rank (State (state_b ''b'' 3 stateAlive)) \<le> rank (State st'))))"
    using membership_moves_forward[OF step_suspect[OF m'] ml_ok_a] look_a(2) by blast
  then show ?thesis
    using m' by auto
qed

section \<open>The node itself\<close>

lemma accused_self:
  assumes "l' = l \<or> (\<exists>s1 s2. l n = Some s1 \<and> Q s1 \<and> l' = l(n \<mapsto> s2) \<and> accused_effect cf (Name s1 = cf_Name cf) acc now new s1 s2)"
    "l (cf_Name cf) = Some st" "Name st = cf_Name cf"
  shows "\<exists>st'. l' (cf_Name cf) = Some st' \<and> State st' = State st"
  using assms(1)
proof (elim disjE exE conjE)
  assume "l' = l"
  then show ?thesis
    using assms(2) by simp
next
  fix s1 s2
  assume h: "l n = Some s1" "l' = l(n \<mapsto> s2)" "accused_effect cf (Name s1 = cf_Name cf) acc now new s1 s2"
  show ?thesis
  proof (cases "n = cf_Name cf")
    case True
    then have s1: "s1 = st"
      using h(1) assms(2) by simp
    obtain inc where "s2 = st\<lparr>Incarnation := inc\<rparr>"
      using h(3) assms(3) unfolding s1 accused_effect_def by auto
    then show ?thesis
      using h(2) True by simp
  next
    case False
    then show ?thesis
      using h(2) assms(2) by simp
  qed
qed

lemma self_alive_step:
  assumes "ml_step cf m m'" "ml_ok m" "\<not> ml_leave m" "look m (cf_Name cf) = Some st" "State st = stateAlive"
  shows "\<exists>st'. look m' (cf_Name cf) = Some st' \<and> State st' = stateAlive"
proof -
  note name = look_Name[OF assms(2,4)]
  have dead: "\<exists>st'. look m' (cf_Name cf) = Some st' \<and> State st' = stateAlive"
    if "deadNode cf now d m = Done m'" for now d
  proof -
    have "accused_effect cf (Name s1 = cf_Name cf \<and> \<not> ml_leave m) i now new s1 s2 =
        accused_effect cf (Name s1 = cf_Name cf) i now new s1 s2" for s1 s2 i new
      using assms(3) by simp
    from accused_self[OF deadNode_spec[OF assms(2) that, THEN conjunct2, THEN conjunct2, THEN conjunct2, unfolded this] assms(4) name]
    show ?thesis
      unfolding assms(5) .
  qed
  have upd: "\<exists>st'. look m' (cf_Name cf) = Some st' \<and> State st' = stateAlive"
    if "look m' = look m \<or> (\<exists>s2. look m' = (look m)(al_Node a \<mapsto> s2) \<and> alive_effect cf now a b (known_or_fresh a m) s2 \<and> Z)"
    for a b now Z
    using that assms(4,5)
    by (cases "al_Node a = cf_Name cf") (auto simp: known_or_fresh_def alive_effect_def)
  show ?thesis
    using assms(1)
  proof cases
    case (step_alive draw now a k)
    from aliveNode_spec[OF assms(2) step_alive] show ?thesis
      by (intro upd) blast
  next
    case (step_announce a draw now k)
    from aliveNode_spec[OF assms(2) step_announce(1,4)] show ?thesis
      by (intro upd) blast
  next
    case (step_suspect now s)
    from accused_self[OF suspectNode_spec[OF assms(2) this, THEN conjunct2, THEN conjunct2, THEN conjunct2] assms(4) name]
    show ?thesis
      unfolding assms(5) .
  next
    case (step_timer now n t)
    from suspect_timer_spec[OF assms(2) step_timer] show ?thesis
      using dead assms(4,5) by blast
  next
    case (step_dead now d)
    then show ?thesis
      by (rule dead)
  next
    case (step_reset j)
    have "look m' = reaped (look m)"
      using resetNodes_ok[OF assms(2) step_reset(2)] step_reset(1) by simp
    then show ?thesis
      using assms(4,5) by (simp add: reaped_def)
  qed (use assms(4,5) in \<open>auto simp: look_def emit_def deref_def\<close>)
qed


text \<open>
  C14: a node that has not left stays alive in its own eyes, whatever is
  said about it, by whomever and with whatever incarnation, and its incarnation never falls.
\<close>

theorem self_stays_alive:
  assumes "ml_step cf m m'" "ml_ok m" "\<not> ml_leave m" "look m (cf_Name cf) = Some st" "State st = stateAlive"
  shows "\<exists>st'. look m' (cf_Name cf) = Some st' \<and> State st' = stateAlive \<and> Incarnation st \<le> Incarnation st'"
  using self_alive_step[OF assms] all_news_step[OF assms(1,2)] assms(4,5)
  by (auto simp: all_news_def news_def dest!: spec[of _ "cf_Name cf"])

lemma self_stays_alive_witness:
  "\<exists>m'. suspectNode cfg_a 7 (suspicion ''b'' 3) ml_a = Done m' \<and>
    (\<exists>st'. look m' ''a'' = Some st' \<and> State st' = stateAlive)"
proof -
  obtain m' where m': "suspectNode cfg_a 7 (suspicion ''b'' 3) ml_a = Done m'"
    using suspect_b by blast
  have "\<not> ml_leave ml_a"
    by (simp add: ml_a_def ml_with_def)
  from self_stays_alive[OF step_suspect[OF m'] ml_ok_a this] look_a(1) show ?thesis
    using m' by auto
qed

text \<open>
  C29: a suspicion never panics, and its handler fails to return for exactly one
  input: an accusation of this very node, held alive, with the incarnation \<open>2 ^ 32 - 1\<close>, for which no
  refutation exists; the loop runs on with the node lock held.
\<close>

theorem accusations_return:
  assumes "ml_ok m"
  shows "suspectNode cf now s m \<noteq> Panic \<and>
    (suspectNode cf now s m = Hang \<longleftrightarrow> su_Node s = cf_Name cf \<and> su_Incarnation s = - 1 \<and>
       (\<exists>st. look m (su_Node s) = Some st \<and> State st = stateAlive)) \<and>
    deadNode cf now d m \<noteq> Panic \<and>
    (deadNode cf now d m = Hang \<longleftrightarrow> de_Node d = cf_Name cf \<and> de_Incarnation d = - 1 \<and> \<not> ml_leave m \<and>
       (\<exists>st. look m (de_Node d) = Some st \<and> State st \<noteq> stateDead))"
proof -
  have r: "refute a p None m \<noteq> Panic \<and> (refute a p None m = Hang \<longleftrightarrow> a = - 1)"
    if np: "ml_nodeMap m n = Some p" for a p n
  proof (cases "a = - 1")
    case False
    then obtain m' where "refute a p None m = Done m'"
      using refute_spec(2)[OF assms np False, of None] by blast
    then show ?thesis
      using False by simp
  qed (simp add: refute_spec(1)[OF assms np])
  have top: "\<not> - 1 < (x :: u32)" for x
    by simp
  have "suspectNode cf now s m \<noteq> Panic \<and>
    (suspectNode cf now s m = Hang \<longleftrightarrow> su_Node s = cf_Name cf \<and> su_Incarnation s = - 1 \<and>
       (\<exists>st. look m (su_Node s) = Some st \<and> State st = stateAlive))"
  proof (cases "ml_nodeMap m (su_Node s)")
    case (Some p)
    show ?thesis
      using r[OF Some, of "su_Incarnation s"] ml_okD(2)[OF assms Some] top[of "Incarnation (deref m p)"]
      by (auto simp: suspectNode_def Some look_def Let_def)
  qed (simp add: suspectNode_def look_def)
  moreover have "deadNode cf now d m \<noteq> Panic \<and>
    (deadNode cf now d m = Hang \<longleftrightarrow> de_Node d = cf_Name cf \<and> de_Incarnation d = - 1 \<and> \<not> ml_leave m \<and>
       (\<exists>st. look m (de_Node d) = Some st \<and> State st \<noteq> stateDead))"
  proof (cases "ml_nodeMap m (de_Node d)")
    case (Some p)
    show ?thesis
      using r[OF Some, of "de_Incarnation d"] ml_okD(2)[OF assms Some] top[of "Incarnation (deref m p)"]
      by (auto simp: deadNode_def Some look_def Let_def)
  qed (simp add: deadNode_def look_def)
  ultimately show ?thesis
    by blast
qed

lemma accusations_return_witness: "suspectNode cfg_a 7 (suspicion ''a'' (- 1)) ml_a = Hang"
  using accusations_return[OF ml_ok_a, of cfg_a 7 "suspicion ''a'' (- 1)"] look_a(1) by (simp add: suspicion_def)

text \<open>An accepted alive message about another node.\<close>

lemma alive_accepted:
  assumes "ml_ok m" "look m (al_Node a) = Some st" "al_Node a \<noteq> cf_Name cf" "cf_Alive cf = None"
    "Addr st = al_Addr a" "Port st = al_Port a" "Incarnation st < al_Incarnation a" "length (al_Vsn a) = 6"
  shows "\<exists>m'. aliveNode cf draw now a k False m = Done m' \<and> look m' = (look m)(al_Node a \<mapsto> set_alive now a st)"
proof -
  obtain p where p: "ml_nodeMap m (al_Node a) = Some p" "deref m p = st"
    using assms(2) by (auto simp: look_def)
  have name: "Name st = al_Node a"
    by (rule look_Name[OF assms(1,2)])
  let ?m1 = "encodeBroadcastNotify (al_Node a) aliveMsg (alive_struct a) k m"
  have ok: "ml_ok ?m1" "ml_nodeMap ?m1 (al_Node a) = Some p"
    using assms(1) p(1) by (auto simp: frame)
  have "aliveNode cf draw now a k False m =
      Done (events cf (State st) (Meta st) p (assign p (set_alive now a st) ?m1))"
    using assms p name by (simp add: aliveNode_def ask_alive_def alive_known_def Let_def)
  then show ?thesis
    using look_assign[OF ok] by (simp add: frame)
qed

text \<open>
  C13: a node that hears it is suspected announces itself with an incarnation above
  the accusation; the announcement goes to the front of the gossip queue, decodes to the node's own
  data, and a peer that holds the suspicion has the node alive again once it gets the message.
\<close>

theorem refutation_wins:
  assumes "ml_ok m" "look m (cf_Name cf) = Some st" "State st = stateAlive" "su_Node s = cf_Name cf"
    "Incarnation st \<le> su_Incarnation s" "su_Incarnation s \<noteq> - 1"
    "fits (cf_Name cf)" "fits (Addr st)" "fits (Meta st)"
  shows "\<exists>m' inc b a. suspectNode cf now s m = Done m' \<and> su_Incarnation s < inc \<and>
    look m' (cf_Name cf) = Some (st\<lparr>Incarnation := inc\<rparr>) \<and>
    b \<in> set (ml_broadcasts m') \<and> transmits b = 0 \<and> hd (mb_msg (bc b)) = aliveMsg \<and>
    decode struct_alive zero_alive (tl (mb_msg (bc b))) = Some a \<and>
    (\<forall>cp mp sp draw t. ml_ok mp \<and> cf_Name cp \<noteq> cf_Name cf \<and> cf_Alive cp = None \<and>
       look mp (cf_Name cf) = Some sp \<and> Addr sp = Addr st \<and> Port sp = Port st \<and> Incarnation sp \<le> su_Incarnation s \<longrightarrow>
       (\<exists>mp' sp'. aliveNode cp draw t a None False mp = Done mp' \<and> look mp' (cf_Name cf) = Some sp' \<and>
          State sp' = stateAlive \<and> Incarnation sp' = inc))"
proof -
  obtain p where p: "ml_nodeMap m (cf_Name cf) = Some p" "deref m p = st"
    using assms(2) by (auto simp: look_def)
  have name: "Name st = cf_Name cf"
    by (rule look_Name[OF assms(1,2)])
  have sn: "suspectNode cf now s m = refute (su_Incarnation s) p None m"
    using assms(3,4) leD[OF assms(5)] p name by (simp add: suspectNode_def Let_def)
  obtain inc m' where r: "refute (su_Incarnation s) p None m = Done m'" "su_Incarnation s < inc"
    "look m' = (look m)(cf_Name cf \<mapsto> st\<lparr>Incarnation := inc\<rparr>)"
    "newest_msg m' (cf_Name cf) (encode aliveMsg (alive_struct (alive_of inc (st\<lparr>Incarnation := inc\<rparr>))))"
    using refute_spec(2)[OF assms(1) p(1) assms(6), of None] p(2) by blast
  let ?a = "alive_of inc (st\<lparr>Incarnation := inc\<rparr>)"
  obtain b where b: "b \<in> set (ml_broadcasts m')" "mb_msg (bc b) = encode aliveMsg (alive_struct ?a)" "transmits b = 0"
    using r(4) by (auto simp: newest_msg_def)
  have a: "al_Node ?a = cf_Name cf" "al_Addr ?a = Addr st" "al_Port ?a = Port st" "al_Incarnation ?a = inc"
    "length (al_Vsn ?a) = 6"
    by (simp_all add: alive_of_def versions_of_def name)
  have "wf_struct (alive_struct ?a)"
    using assms(7-9) by (simp add: wf_structs alive_of_def versions_of_def name fits_def)
  then have "dec_next struct_alive zero_alive (encodeStruct (alive_struct ?a) @ []) = Some (?a, [])"
    by (intro dec_encode(5)) simp_all
  then have d: "decode struct_alive zero_alive (tl (mb_msg (bc b))) = Some ?a" "hd (mb_msg (bc b)) = aliveMsg"
    by (simp_all add: b(2) encode_def decode_def)
  have peer: "\<exists>mp' sp'. aliveNode cp draw t ?a None False mp = Done mp' \<and> look mp' (cf_Name cf) = Some sp' \<and>
      State sp' = stateAlive \<and> Incarnation sp' = inc"
    if h: "ml_ok mp" "cf_Name cp \<noteq> cf_Name cf" "cf_Alive cp = None" "look mp (cf_Name cf) = Some sp"
      "Addr sp = Addr st" "Port sp = Port st" "Incarnation sp \<le> su_Incarnation s" for cp mp sp draw t
  proof -
    have "Incarnation sp < inc"
      using h(7) r(2) by (rule le_less_trans)
    then obtain mp' where "aliveNode cp draw t ?a None False mp = Done mp'"
      "look mp' = (look mp)(al_Node ?a \<mapsto> set_alive t ?a sp)"
      using alive_accepted[of mp ?a sp cp draw t None] h a by metis
    then show ?thesis
      by (simp add: a)
  qed
  show ?thesis
    using sn r(1-3) b(1,3) d peer by (intro exI[of _ m'] exI[of _ inc] exI[of _ b] exI[of _ ?a]) auto
qed

lemma refutation_wins_witness:
  "\<exists>m' inc. suspectNode cfg_a 7 (suspicion ''a'' 4) ml_a = Done m' \<and> 4 < inc \<and>
    look m' ''a'' = Some ((state_b ''a'' 1 stateAlive)\<lparr>Incarnation := inc\<rparr>)"
proof -
  have "Incarnation (state_b ''a'' 1 stateAlive) \<le> su_Incarnation (suspicion ''a'' 4)" "su_Incarnation (suspicion ''a'' 4) \<noteq> - 1"
    "su_Node (suspicion ''a'' 4) = cf_Name cfg_a" "fits (cf_Name cfg_a)" "fits (Addr (state_b ''a'' 1 stateAlive))"
    "fits (Meta (state_b ''a'' 1 stateAlive))"
    by (simp_all add: suspicion_def fits_def)
  moreover have "look ml_a (cf_Name cfg_a) = Some (state_b ''a'' 1 stateAlive)" "State (state_b ''a'' 1 stateAlive) = stateAlive"
    by (simp_all add: look_a)
  ultimately obtain m' inc where "suspectNode cfg_a 7 (suspicion ''a'' 4) ml_a = Done m'"
    "su_Incarnation (suspicion ''a'' 4) < inc" "look m' (cf_Name cfg_a) = Some ((state_b ''a'' 1 stateAlive)\<lparr>Incarnation := inc\<rparr>)"
    using refutation_wins[OF ml_ok_a, of cfg_a "state_b ''a'' 1 stateAlive" "suspicion ''a'' 4" 7] by metis
  then show ?thesis
    by (auto simp: suspicion_def)
qed

end
