(* ===== verification/Verify.thy ===== *)
theory Verify
  imports MembershipInv GoStrings
begin

text \<open>
  \<open>verifyProtocol\<close> of \<open>state.go\<close>: whether all nodes, those a peer sent and those known here, speak
  versions that all of them understand.
\<close>

section \<open>The common range\<close>

text \<open>The largest minimum and smallest maximum so far, for the protocol and the delegate protocol.\<close>

record versions =
  vr_maxpmin :: u8
  vr_minpmax :: u8
  vr_maxdmin :: u8
  vr_mindmax :: u8

definition narrow :: "u8 \<Rightarrow> u8 \<Rightarrow> u8 \<Rightarrow> u8 \<Rightarrow> versions \<Rightarrow> versions" where
  "narrow pmin pmax dmin dmax v =
     \<lparr>vr_maxpmin = (if vr_maxpmin v < pmin then pmin else vr_maxpmin v),
      vr_minpmax = (if pmax < vr_minpmax v then pmax else vr_minpmax v),
      vr_maxdmin = (if vr_maxdmin v < dmin then dmin else vr_maxdmin v),
      vr_mindmax = (if dmax < vr_mindmax v then dmax else vr_mindmax v)\<rparr>"

fun remote_range :: "pushNodeState list \<Rightarrow> versions \<Rightarrow> versions outcome" where
  "remote_range [] v = Returns v"
| "remote_range (rn # remote) v =
     (if pn_State rn \<noteq> state_code stateAlive then remote_range remote v
      else if length (pn_Vsn rn) = 0 then remote_range remote v
      else if length (pn_Vsn rn) \<le> 4 then Panics
      else remote_range remote (narrow (pn_Vsn rn ! 0) (pn_Vsn rn ! 1) (pn_Vsn rn ! 3) (pn_Vsn rn ! 4) v))"

fun local_range :: "nodeState list \<Rightarrow> versions \<Rightarrow> versions" where
  "local_range [] v = v"
| "local_range (n # nodes) v =
     (if State n \<noteq> stateAlive then local_range nodes v
      else local_range nodes (narrow (PMin n) (PMax n) (DMin n) (DMax n) v))"

section \<open>The check\<close>

definition incompatible :: "string \<Rightarrow> string \<Rightarrow> u8 \<Rightarrow> u8 \<Rightarrow> u8 \<Rightarrow> goerr" where
  "incompatible name what cur lo hi = ErrMsg (''Node '' @ [CHR 0x27] @ name @ [CHR 0x27] @ what @ '' version ('' @
     dec (unat cur) @ '') is incompatible: ['' @ dec (unat lo) @ '', '' @ dec (unat hi) @ '']'')"

definition check_versions :: "versions \<Rightarrow> string \<Rightarrow> u8 \<Rightarrow> u8 \<Rightarrow> goerr option" where
  "check_versions v name pcur dcur =
     (if pcur < vr_maxpmin v \<or> vr_minpmax v < pcur
      then Some (incompatible name '' protocol'' pcur (vr_maxpmin v) (vr_minpmax v))
      else if dcur < vr_maxdmin v \<or> vr_mindmax v < dcur
      then Some (incompatible name '' delegate protocol'' dcur (vr_maxdmin v) (vr_mindmax v))
      else None)"

fun check_remote :: "versions \<Rightarrow> pushNodeState list \<Rightarrow> goerr option outcome" where
  "check_remote v [] = Returns None"
| "check_remote v (n # remote) =
     (if 0 < length (pn_Vsn n) \<and> length (pn_Vsn n) \<le> 5 then Panics
      else
        let (pcur, dcur) = (if 0 < length (pn_Vsn n) then (pn_Vsn n ! 2, pn_Vsn n ! 5) else (0, 0))
        in (case check_versions v (pn_Name n) pcur dcur of
              Some err \<Rightarrow> Returns (Some err)
            | None \<Rightarrow> check_remote v remote))"

fun check_local :: "versions \<Rightarrow> nodeState list \<Rightarrow> goerr option" where
  "check_local v [] = None"
| "check_local v (n # nodes) =
     (case check_versions v (Name n) (PCur n) (DCur n) of
        Some err \<Rightarrow> Some err
      | None \<Rightarrow> check_local v nodes)"

definition verifyProtocol :: "pushNodeState list \<Rightarrow> memberlist \<Rightarrow> goerr option outcome" where
  "verifyProtocol remote m =
     (case remote_range remote \<lparr>vr_maxpmin = 0, vr_minpmax = 255, vr_maxdmin = 0, vr_mindmax = 255\<rparr> of
        Panics \<Rightarrow> Panics
      | Returns v1 \<Rightarrow>
          let nodes = map (deref m) (ml_nodes m); v = local_range nodes v1
          in (case check_remote v remote of
                Panics \<Rightarrow> Panics
              | Returns (Some err) \<Rightarrow> Returns (Some err)
              | Returns None \<Rightarrow> Returns (check_local v nodes)))"

section \<open>What an accepted cluster can rely on\<close>

text \<open>The six versions of a node; a node that sent none has 0 everywhere.\<close>

definition vsn_ok :: "pushNodeState \<Rightarrow> bool" where
  "vsn_ok n \<longleftrightarrow> pn_Vsn n = [] \<or> 6 \<le> length (pn_Vsn n)"

definition cur_of :: "pushNodeState \<Rightarrow> u8 \<times> u8" where
  "cur_of n = (if pn_Vsn n = [] then (0, 0) else (pn_Vsn n ! 2, pn_Vsn n ! 5))"

text \<open>The alive ones that bound the range: minimum, maximum of both protocols.\<close>

definition bound_of :: "pushNodeState \<Rightarrow> u8 \<times> u8 \<times> u8 \<times> u8" where
  "bound_of n = (pn_Vsn n ! 0, pn_Vsn n ! 1, pn_Vsn n ! 3, pn_Vsn n ! 4)"

definition bounds :: "pushNodeState list \<Rightarrow> nodeState list \<Rightarrow> (u8 \<times> u8 \<times> u8 \<times> u8) set" where
  "bounds remote nodes =
     bound_of ` {n \<in> set remote. pn_State n = 0 \<and> pn_Vsn n \<noteq> []} \<union>
     (\<lambda>n. (PMin n, PMax n, DMin n, DMax n)) ` {n \<in> set nodes. State n = stateAlive}"

definition currents :: "pushNodeState list \<Rightarrow> nodeState list \<Rightarrow> (u8 \<times> u8) set" where
  "currents remote nodes = cur_of ` set remote \<union> (\<lambda>n. (PCur n, DCur n)) ` set nodes"

definition inside :: "u8 \<times> u8 \<times> u8 \<times> u8 \<Rightarrow> u8 \<times> u8 \<Rightarrow> bool" where
  "inside b c \<longleftrightarrow> (case b of (pmin, pmax, dmin, dmax) \<Rightarrow> case c of (p, d) \<Rightarrow>
     pmin \<le> p \<and> p \<le> pmax \<and> dmin \<le> d \<and> d \<le> dmax)"

definition in_range :: "versions \<Rightarrow> u8 \<times> u8 \<Rightarrow> bool" where
  "in_range v = inside (vr_maxpmin v, vr_minpmax v, vr_maxdmin v, vr_mindmax v)"

lemma in_range_narrow: "in_range (narrow a b c d v) x \<longleftrightarrow> inside (a, b, c, d) x \<and> in_range v x"
  by (cases x) (auto simp: in_range_def narrow_def inside_def)

lemma remote_range_spec:
  "\<forall>n\<in>set remote. vsn_ok n \<Longrightarrow> \<exists>v'. remote_range remote v = Returns v' \<and>
     (\<forall>x. in_range v' x \<longleftrightarrow> in_range v x \<and> (\<forall>b\<in>bounds remote []. inside b x))"
proof (induction remote arbitrary: v)
  case (Cons rn remote)
  show ?case
  proof (cases "pn_State rn = 0 \<and> pn_Vsn rn \<noteq> []")
    case True
    then have l: "6 \<le> length (pn_Vsn rn)"
      using Cons.prems by (auto simp: vsn_ok_def)
    obtain v' where v': "remote_range remote (narrow (pn_Vsn rn ! 0) (pn_Vsn rn ! 1) (pn_Vsn rn ! 3) (pn_Vsn rn ! 4) v) = Returns v'"
      "\<forall>x. in_range v' x \<longleftrightarrow>
        in_range (narrow (pn_Vsn rn ! 0) (pn_Vsn rn ! 1) (pn_Vsn rn ! 3) (pn_Vsn rn ! 4) v) x \<and> (\<forall>b\<in>bounds remote []. inside b x)"
      using Cons.IH Cons.prems by (metis list.set_intros(2))
    have "bounds (rn # remote) [] = insert (bound_of rn) (bounds remote [])"
      using True by (auto simp: bounds_def)
    then show ?thesis
      using v' True l by (auto simp: state_code_def in_range_narrow bound_of_def)
  next
    case False
    then have "bounds (rn # remote) [] = bounds remote []" "remote_range (rn # remote) v = remote_range remote v"
      by (auto simp: bounds_def state_code_def)
    then show ?thesis
      using Cons by simp
  qed
qed (simp add: bounds_def)

lemma local_range_spec:
  "in_range (local_range nodes v) x \<longleftrightarrow> in_range v x \<and> (\<forall>b\<in>bounds [] nodes. inside b x)"
proof (induction nodes arbitrary: v)
  case (Cons n nodes)
  have "bounds [] (n # nodes) =
      (if State n = stateAlive then insert (PMin n, PMax n, DMin n, DMax n) (bounds [] nodes) else bounds [] nodes)"
    by (auto simp: bounds_def)
  then show ?case
    using Cons by (auto simp: in_range_narrow)
qed (simp add: bounds_def)

lemma check_versions_None: "check_versions v name p d = None \<longleftrightarrow> in_range v (p, d)"
  by (auto simp: check_versions_def in_range_def inside_def not_le)

lemma check_remote_spec:
  "\<forall>n\<in>set remote. vsn_ok n \<Longrightarrow> \<exists>e. check_remote v remote = Returns e \<and>
     (e = None \<longleftrightarrow> (\<forall>n\<in>set remote. in_range v (cur_of n)))"
proof (induction remote)
  case (Cons n remote)
  obtain p d where pd: "cur_of n = (p, d)"
    by (rule prod.exhaust)
  have "check_remote v (n # remote) =
      (case check_versions v (pn_Name n) p d of Some err \<Rightarrow> Returns (Some err) | None \<Rightarrow> check_remote v remote)"
    using Cons.prems pd by (auto simp: vsn_ok_def cur_of_def split: if_splits)
  then show ?case
    using Cons pd check_versions_None[of v "pn_Name n" p d]
    by (cases "check_versions v (pn_Name n) p d") auto
qed simp

lemma ball_swap: "(\<forall>x\<in>A. \<forall>y\<in>B. P x y) \<longleftrightarrow> (\<forall>y\<in>B. \<forall>x\<in>A. P x y)"
  by blast

lemma check_local_spec:
  "check_local v nodes = None \<longleftrightarrow> (\<forall>n\<in>set nodes. in_range v (PCur n, DCur n))"
proof (induction nodes)
  case (Cons n nodes)
  then show ?case
    using check_versions_None[of v "Name n" "PCur n" "DCur n"]
    by (cases "check_versions v (Name n) (PCur n) (DCur n)") auto
qed simp

text \<open>
  On nodes that send no or all six versions, the check answers, and it
  accepts exactly when every node's current versions, dead nodes included, lie between the minimum
  and the maximum of every alive node that has versions.
\<close>

theorem verifyProtocol_spec:
  assumes "\<forall>n\<in>set remote. pn_Vsn n = [] \<or> 6 \<le> length (pn_Vsn n)"
  shows "\<exists>e. verifyProtocol remote m = Returns e \<and>
    (e = None \<longleftrightarrow> (\<forall>b\<in>bounds remote (map (deref m) (ml_nodes m)).
       \<forall>c\<in>currents remote (map (deref m) (ml_nodes m)). inside b c))"
proof -
  let ?nodes = "map (deref m) (ml_nodes m)"
  let ?v0 = "\<lparr>vr_maxpmin = 0, vr_minpmax = 255, vr_maxdmin = 0, vr_mindmax = 255\<rparr>"
  have ok: "\<forall>n\<in>set remote. vsn_ok n"
    using assms by (simp add: vsn_ok_def)
  have top: "x \<le> (255 :: u8)" for x
  proof -
    have "unat x < 256"
      by (rule unat_u8)
    then have "unat x \<le> 255"
      by linarith
    then show ?thesis
      by (simp add: word_le_nat_alt)
  qed
  have all: "in_range ?v0 x" for x
    by (cases x) (simp add: in_range_def inside_def top)
  obtain v1 where v1: "remote_range remote ?v0 = Returns v1"
    "\<forall>x. in_range v1 x \<longleftrightarrow> (\<forall>b\<in>bounds remote []. inside b x)"
    using remote_range_spec[OF ok, of ?v0] all by blast
  let ?v = "local_range ?nodes v1"
  have b: "bounds remote ?nodes = bounds remote [] \<union> bounds [] ?nodes"
    by (auto simp: bounds_def)
  have v: "in_range ?v x \<longleftrightarrow> (\<forall>b\<in>bounds remote ?nodes. inside b x)" for x
    unfolding b local_range_spec v1(2)[rule_format] by blast
  obtain e where e: "check_remote ?v remote = Returns e"
    "e = None \<longleftrightarrow> (\<forall>n\<in>set remote. in_range ?v (cur_of n))"
    using check_remote_spec[OF ok] by blast
  have "verifyProtocol remote m = Returns (case e of Some err \<Rightarrow> Some err | None \<Rightarrow> check_local ?v ?nodes)"
    unfolding verifyProtocol_def v1(1) Let_def using e(1) by (simp split: option.split)
  moreover have "(case e of Some err \<Rightarrow> Some err | None \<Rightarrow> check_local ?v ?nodes) = None \<longleftrightarrow>
      (\<forall>c\<in>currents remote ?nodes. in_range ?v c)"
    using e(2) check_local_spec[of ?v ?nodes]
    by (cases e) (auto simp: currents_def)
  then have "(case e of Some err \<Rightarrow> Some err | None \<Rightarrow> check_local ?v ?nodes) = None \<longleftrightarrow>
      (\<forall>b\<in>bounds remote ?nodes. \<forall>c\<in>currents remote ?nodes. inside b c)"
    unfolding v using ball_swap by (rule trans)
  ultimately show ?thesis
    by (intro exI[of _ "case e of Some err \<Rightarrow> Some err | None \<Rightarrow> check_local ?v ?nodes"] conjI)
qed

definition peer :: "string \<Rightarrow> bytes \<Rightarrow> pushNodeState" where
  "peer n vsn = \<lparr>pn_Name = n, pn_Addr = [127, 0, 0, 1], pn_Port = 7946, pn_Meta = [], pn_Incarnation = 1,
     pn_State = 0, pn_Vsn = vsn\<rparr>"

lemma verifyProtocol_spec_witness:
  "\<exists>e. verifyProtocol [peer ''a'' [1, 3, 3, 0, 0, 0], peer ''b'' []] ml_a = Returns e \<and> e \<noteq> None"
proof -
  let ?r = "[peer ''a'' [1, 3, 3, 0, 0, 0], peer ''b'' []]"
  have "\<forall>n\<in>set ?r. pn_Vsn n = [] \<or> 6 \<le> length (pn_Vsn n)"
    by (simp add: peer_def)
  from verifyProtocol_spec[OF this, of ml_a] obtain e where
    e: "verifyProtocol ?r ml_a = Returns e" "e = None \<longleftrightarrow> (\<forall>b\<in>bounds ?r (map (deref ml_a) (ml_nodes ml_a)).
      \<forall>c\<in>currents ?r (map (deref ml_a) (ml_nodes ml_a)). inside b c)"
    by blast
  have "bound_of (peer ''a'' [1, 3, 3, 0, 0, 0]) = (1, 3, 0, 0)" "cur_of (peer ''b'' []) = (0, 0)"
    by (simp_all add: bound_of_def cur_of_def peer_def)
  moreover have "bound_of (peer ''a'' [1, 3, 3, 0, 0, 0]) \<in> bounds ?r (map (deref ml_a) (ml_nodes ml_a))"
    unfolding bounds_def by (intro UnI1 imageI) (simp add: peer_def)
  moreover have "cur_of (peer ''b'' []) \<in> currents ?r (map (deref ml_a) (ml_nodes ml_a))"
    unfolding currents_def by simp
  moreover have "\<not> inside (1, 3, 0, 0) (0, 0)"
    by (simp add: inside_def)
  ultimately show ?thesis
    using e by metis
qed

end
