(* ===== verification/Security.thy ===== *)
theory Security
  imports Keyring GoStrings
begin

text \<open>
  memberlist's \<open>security.go\<close>: encrypted payloads.  AES in GCM mode is the pair \<open>seal\<close>, \<open>opn\<close> of
  arguments (key, nonce, text, additional data); \<open>aead\<close> states what its users count on.  The random
  nonce is an argument.
\<close>

section \<open>AES-GCM\<close>

type_synonym sealer = "bytes \<Rightarrow> bytes \<Rightarrow> bytes \<Rightarrow> bytes \<Rightarrow> bytes"
type_synonym opener = "bytes \<Rightarrow> bytes \<Rightarrow> bytes \<Rightarrow> bytes \<Rightarrow> bytes option"

text \<open>
  The sealed text carries a tag of 16 bytes; it opens to the plain text; and nothing opens that
  was not sealed with the same key, nonce and data.
\<close>

definition aead :: "sealer \<Rightarrow> opener \<Rightarrow> bool" where
  "aead seal opn \<longleftrightarrow>
     (\<forall>k n p d. length (seal k n p d) = length p + 16) \<and>
     (\<forall>k n c p d. opn k n c d = Some p \<longleftrightarrow> c = seal k n p d)"

definition aes_newCipher :: "bytes \<Rightarrow> goerr option" where
  "aes_newCipher key =
     (if length key \<in> {16, 24, 32} then None
      else Some (ErrMsg (''crypto/aes: invalid key size '' @ dec (length key))))"

section \<open>Padding\<close>

definition blockSize :: nat where "blockSize = 16"
definition versionSize :: nat where "versionSize = 1"
definition nonceSize :: nat where "nonceSize = 12"
definition tagSize :: nat where "tagSize = 16"
definition maxEncryptionVersion :: u8 where "maxEncryptionVersion = 1"

lemmas sizes = blockSize_def versionSize_def nonceSize_def tagSize_def maxEncryptionVersion_def

definition pkcs7encode :: "bytes \<Rightarrow> nat \<Rightarrow> nat \<Rightarrow> bytes" where
  "pkcs7encode buf ignore bs =
     (let n = length buf - ignore; more = bs - n mod bs in buf @ replicate more (of_nat more))"

definition pkcs7decode :: "bytes \<Rightarrow> bytes outcome" where
  "pkcs7decode buf =
     (if length buf = 0 then Panics
      else
        let n = length buf; l = unat (buf ! (n - 1))
        in if n < l then Panics else Returns (take (n - l) buf))"

definition encryptOverhead :: "u8 \<Rightarrow> nat outcome" where
  "encryptOverhead vsn = (if vsn = 0 then Returns 45 else if vsn = 1 then Returns 29 else Panics)"

definition encryptedLength :: "u8 \<Rightarrow> nat \<Rightarrow> nat" where
  "encryptedLength vsn inp =
     (if 1 \<le> vsn then versionSize + nonceSize + inp + tagSize
      else
        let padding = blockSize - inp mod blockSize
        in versionSize + nonceSize + inp + padding + tagSize)"

section \<open>Encryption\<close>

definition encryptPayload :: "sealer \<Rightarrow> bytes \<Rightarrow> u8 \<Rightarrow> bytes \<Rightarrow> bytes \<Rightarrow> bytes \<Rightarrow> bytes \<Rightarrow> bytes result" where
  "encryptPayload seal random vsn key msg data dst =
     (case aes_newCipher key of
        Some err \<Rightarrow> Inl err
      | None \<Rightarrow>
          let offset = length dst;
              dst1 = (dst @ [vsn]) @ random;
              afterNonce = length dst1;
              dst2 = (if vsn = 0 then pkcs7encode (dst1 @ msg) (offset + versionSize + nonceSize) blockSize
                      else dst1);
              slice = drop offset dst2;
              nonce = take nonceSize (drop versionSize slice);
              src = (if vsn = 0 then drop (versionSize + nonceSize) slice else msg);
              out = seal key nonce src data
          in Inr (take afterNonce dst2 @ out))"

definition decryptMessage :: "opener \<Rightarrow> bytes \<Rightarrow> bytes \<Rightarrow> bytes \<Rightarrow> bytes option" where
  "decryptMessage opn key msg data =
     (case aes_newCipher key of
        Some _ \<Rightarrow> None
      | None \<Rightarrow>
          let nonce = take nonceSize (drop versionSize msg);
              ciphertext = drop (versionSize + nonceSize) msg
          in opn key nonce ciphertext data)"

text \<open>The loop over the keys: the first that opens the message.\<close>

fun try_keys :: "opener \<Rightarrow> u8 \<Rightarrow> bytes \<Rightarrow> bytes \<Rightarrow> bytes list \<Rightarrow> bytes result outcome" where
  "try_keys opn vsn msg data [] = Returns (Inl (ErrMsg ''No installed keys could decrypt the message''))"
| "try_keys opn vsn msg data (key # keys) =
     (case decryptMessage opn key msg data of
        None \<Rightarrow> try_keys opn vsn msg data keys
      | Some plain \<Rightarrow>
          if vsn = 0 then (case pkcs7decode plain of Panics \<Rightarrow> Panics | Returns p \<Rightarrow> Returns (Inr p))
          else Returns (Inr plain))"

definition decryptPayload :: "opener \<Rightarrow> bytes list \<Rightarrow> bytes \<Rightarrow> bytes \<Rightarrow> bytes result outcome" where
  "decryptPayload opn keys msg data =
     (case msg of
        [] \<Rightarrow> Returns (Inl (ErrMsg ''Cannot decrypt empty payload''))
      | vsn # _ \<Rightarrow>
          if maxEncryptionVersion < vsn
          then Returns (Inl (ErrMsg (''Unsupported encryption version '' @ dec (unat vsn))))
          else if length msg < encryptedLength vsn 0
          then Returns (Inl (ErrMsg (''Payload is too small to decrypt: '' @ dec (length msg))))
          else try_keys opn vsn msg data keys)"

section \<open>Lemmas\<close>

lemma pkcs7_more: "0 < blockSize - n mod blockSize" "blockSize - n mod blockSize \<le> 16"
  by (simp_all add: sizes)

lemma pkcs7decode_pad:
  "0 < k \<Longrightarrow> k < 256 \<Longrightarrow> pkcs7decode (msg @ replicate k (of_nat k)) = Returns msg"
  by (auto simp: pkcs7decode_def nth_append unat_of_nat_byte Let_def)

lemma aeadD:
  assumes "aead seal opn"
  shows "length (seal k n p d) = length p + 16" "opn k n c d = Some p \<longleftrightarrow> c = seal k n p d"
    "opn k n (seal k n p d) d = Some p"
  using assms by (simp_all add: aead_def)

definition plain_of :: "u8 \<Rightarrow> bytes \<Rightarrow> bytes" where
  "plain_of vsn msg = (if vsn = 0 then pkcs7encode msg 0 blockSize else msg)"

lemma encryptPayload_any:
  assumes "aes_newCipher key = None" "length nonce = 12"
  shows "encryptPayload seal nonce vsn key msg data dst =
    Inr (dst @ vsn # nonce @ seal key nonce (plain_of vsn msg) data)"
  using assms by (simp add: encryptPayload_def plain_of_def pkcs7encode_def Let_def sizes)

lemma encryptPayload_eq:
  assumes "length key = 16" "length nonce = 12"
  shows "encryptPayload seal nonce vsn key msg data dst =
    Inr (dst @ vsn # nonce @ seal key nonce (plain_of vsn msg) data)"
  using assms by (simp add: encryptPayload_any aes_newCipher_def)

lemma vsn_cases: "(vsn :: u8) \<le> 1 \<Longrightarrow> vsn = 0 \<or> vsn = 1"
  by (simp add: word_le_nat_alt word_unat_eq_iff) linarith

lemma plain_length:
  "vsn \<le> 1 \<Longrightarrow> 1 + 12 + length (plain_of vsn msg) + 16 = encryptedLength vsn (length msg)"
  using vsn_cases[of vsn] by (auto simp: plain_of_def encryptedLength_def pkcs7encode_def Let_def sizes)

lemma decryptMessage_eq:
  assumes "length key = 16" "length nonce = 12"
  shows "decryptMessage opn key (vsn # nonce @ c) data = opn key nonce c data"
  using assms by (simp add: decryptMessage_def aes_newCipher_def Let_def sizes)

lemma try_keys_first:
  "\<forall>k\<in>set ks. decryptMessage opn k msg data = None \<Longrightarrow>
   try_keys opn vsn msg data (ks @ key # rest) = try_keys opn vsn msg data (key # rest)"
  by (induction ks) auto

lemma decrypt_encrypted:
  assumes "aead seal opn" "length key = 16" "length nonce = 12" "vsn \<le> 1"
    "encryptPayload seal nonce vsn key msg data dst = Inr out"
    "\<forall>k\<in>set ks. decryptMessage opn k (drop (length dst) out) data = None"
  shows "\<exists>c. out = dst @ c \<and> decryptPayload opn (ks @ key # rest) c data = Returns (Inr msg) \<and>
    length c = encryptedLength vsn (length msg)"
proof -
  let ?c = "vsn # nonce @ seal key nonce (plain_of vsn msg) data"
  have out: "out = dst @ ?c"
    using assms(5) by (simp add: encryptPayload_eq[OF assms(2,3)])
  have len: "length ?c = encryptedLength vsn (length msg)"
    using plain_length[OF assms(4), of msg] assms(3) by (simp add: aeadD(1)[OF assms(1)])
  have o: "decryptMessage opn key ?c data = Some (plain_of vsn msg)"
    using aeadD(3)[OF assms(1)] by (simp add: decryptMessage_eq[OF assms(2,3)])
  have "pkcs7decode (plain_of 0 msg) = Returns msg"
    using pkcs7decode_pad[of "blockSize - length msg mod blockSize" msg] pkcs7_more[of "length msg"]
    by (simp add: plain_of_def pkcs7encode_def Let_def)
  then have "try_keys opn vsn ?c data (key # rest) = Returns (Inr msg)"
    using vsn_cases[OF assms(4)] by (auto simp: o) (simp add: plain_of_def)
  then have "try_keys opn vsn ?c data (ks @ key # rest) = Returns (Inr msg)"
    using try_keys_first[of ks opn ?c data] assms(6) by (simp add: out)
  moreover have "\<not> length ?c < encryptedLength vsn 0"
    unfolding len using vsn_cases[OF assms(4)] by (auto simp: encryptedLength_def Let_def sizes)
  moreover have "\<not> maxEncryptionVersion < vsn"
    using assms(4) by (simp add: sizes not_less)
  ultimately have "decryptPayload opn (ks @ key # rest) ?c data = Returns (Inr msg)"
    by (simp add: decryptPayload_def)
  then show ?thesis
    using out len by blast
qed

lemma encryptPayload_length:
  assumes "aead seal opn" "length nonce = 12" "vsn \<le> 1" "encryptPayload seal nonce vsn key msg data dst = Inr out"
  shows "length out = length dst + encryptedLength vsn (length msg)"
proof -
  have "aes_newCipher key = None"
    using assms(4) by (cases "aes_newCipher key") (simp_all add: encryptPayload_def)
  from encryptPayload_any[OF this assms(2), of seal vsn msg data dst] show ?thesis
    using assms(4) plain_length[OF assms(3), of msg] assms(2) by (simp add: aeadD(1)[OF assms(1)])
qed

lemma encryptedLength_le: "vsn \<le> 1 \<Longrightarrow> \<exists>n. encryptOverhead vsn = Returns n \<and> encryptedLength vsn k \<le> k + n"
  using vsn_cases[of vsn] by (auto simp: encryptOverhead_def encryptedLength_def Let_def sizes)

section \<open>Properties\<close>

text \<open>
  C32: what is encrypted under a key of the ring decrypts to the same message and
  data under both versions, if no key before it happens to open it; the payload is as long as
  \<open>encryptedLength\<close> says and no longer than the message and \<open>encryptOverhead\<close>.
\<close>

theorem encrypt_roundtrip:
  assumes "aead seal opn" "vsn \<le> maxEncryptionVersion" "length key = 16" "length nonce = 12"
    and "encryptPayload seal nonce vsn key msg data [] = Inr out"
    and "\<forall>k\<in>set ks. decryptMessage opn k out data = None"
  shows "decryptPayload opn (ks @ key # rest) out data = Returns (Inr msg) \<and>
    length out = encryptedLength vsn (length msg) \<and>
    (\<exists>m. encryptOverhead vsn = Returns m \<and> length out \<le> length msg + m)"
proof -
  have v: "vsn \<le> 1"
    using assms(2) by (simp add: sizes)
  show ?thesis
    using decrypt_encrypted[OF assms(1,3,4) v assms(5), of ks rest] assms(6) encryptedLength_le[OF v, of "length msg"]
    by auto
qed

lemma try_keys_Inr:
  assumes "try_keys opn vsn msg data keys = Returns (Inr p)"
  shows "\<exists>key\<in>set keys. \<exists>plain. decryptMessage opn key msg data = Some plain \<and>
    (if vsn = 0 then pkcs7decode plain = Returns p else plain = p)"
  using assms
  by (induction opn vsn msg data keys rule: try_keys.induct)
    (auto split: option.splits if_splits outcome.splits)

lemma msg_parts: "13 \<le> length msg \<Longrightarrow> msg = hd msg # take 12 (drop 1 msg) @ drop 13 msg"
  by (cases msg) (simp_all add: append_take_drop_id)

text \<open>
  A payload of the current version decrypts only if it is what encrypting the
  result under an installed key, with the same additional data, gives.
\<close>

theorem decrypt_authentic:
  assumes "aead seal opn" "\<forall>k\<in>set keys. length k = 16"
    and "decryptPayload opn keys msg data = Returns (Inr p)" "hd msg = maxEncryptionVersion"
  shows "\<exists>key\<in>set keys. encryptPayload seal (take nonceSize (drop versionSize msg)) maxEncryptionVersion key p data [] = Inr msg"
proof -
  have t: "try_keys opn 1 msg data keys = Returns (Inr p)" "encryptedLength 1 0 \<le> length msg" "hd msg = 1"
    using assms(3,4) by (auto simp: decryptPayload_def sizes split: list.splits if_splits)
  have l: "13 \<le> length msg"
    using t(2) by (simp add: encryptedLength_def sizes)
  let ?n = "take 12 (drop 1 msg)"
  obtain key where key: "key \<in> set keys" "decryptMessage opn key msg data = Some p"
    using try_keys_Inr[OF t(1)] by auto
  have lk: "length key = 16" "length ?n = 12"
    using key(1) assms(2) l by simp_all
  have "opn key ?n (drop 13 msg) data = Some p"
    using key(2) lk(1) by (simp add: decryptMessage_def aes_newCipher_def Let_def sizes)
  then have "drop 13 msg = seal key ?n p data"
    by (simp only: aeadD(2)[OF assms(1)])
  then have m: "msg = 1 # ?n @ seal key ?n p data"
    using msg_parts[OF l] t(3) by (simp only:)
  have "encryptPayload seal ?n 1 key p data [] = Inr (1 # ?n @ seal key ?n p data)"
    unfolding encryptPayload_eq[OF lk] by (simp add: plain_of_def)
  then have "encryptPayload seal ?n 1 key p data [] = Inr msg"
    by (simp only: m[symmetric])
  with key(1) show ?thesis
    by (auto simp: sizes)
qed

text \<open>
  The version byte is not authenticated.  Whoever sees a payload of version
  1 with a message of at least 16 bytes can, without a key, turn the byte to 0: the receiver then
  takes the last byte of the message for a padding length, cuts off that many bytes, and panics
  when there are fewer.
\<close>

theorem version_byte_forged:
  assumes "aead seal opn" "length key = 16" "length nonce = 12" "16 \<le> length msg"
    and "encryptPayload seal nonce 1 key msg data [] = Inr out"
  shows "decryptPayload opn (key # rest) (0 # tl out) data =
    (if length msg < unat (last msg) then Panics else Returns (Inr (take (length msg - unat (last msg)) msg)))"
proof -
  have out: "out = 1 # nonce @ seal key nonce msg data"
    using assms(5) encryptPayload_eq[OF assms(2,3), of seal 1 msg data "[]"] by (simp add: plain_of_def)
  have "decryptMessage opn key (0 # tl out) data = Some msg"
    using aeadD(3)[OF assms(1)] by (simp add: out decryptMessage_eq[OF assms(2,3)])
  moreover have ne: "msg \<noteq> []"
    using assms(4) by auto
  moreover have "msg ! (length msg - Suc 0) = last msg"
    by (simp add: last_conv_nth[OF ne])
  moreover have "\<not> length (0 # tl out) < encryptedLength 0 0"
    using assms(3,4) aeadD(1)[OF assms(1)] by (simp add: out encryptedLength_def Let_def sizes)
  ultimately show ?thesis
    by (simp add: decryptPayload_def pkcs7decode_def Let_def sizes)
qed

section \<open>A sample cipher\<close>

text \<open>Not a secret one: the key is the tag.\<close>

definition tag_of :: "bytes \<Rightarrow> bytes" where
  "tag_of k = take 16 (k @ replicate 16 0)"

definition toy_seal :: sealer where
  "toy_seal k n p d = p @ tag_of k"

definition toy_open :: opener where
  "toy_open k n c d =
     (if 16 \<le> length c \<and> drop (length c - 16) c = tag_of k then Some (take (length c - 16) c) else None)"

lemma length_tag_of [simp]: "length (tag_of k) = 16"
  by (simp add: tag_of_def)

lemma aead_toy: "aead toy_seal toy_open"
proof -
  have "toy_open k n c d = Some p \<longleftrightarrow> c = toy_seal k n p d" for k n c p d
    unfolding toy_open_def toy_seal_def
    using append_take_drop_id[of "length c - 16" c] by (auto simp del: append_take_drop_id)
  then show ?thesis
    by (simp add: aead_def toy_seal_def)
qed

definition sample_key :: bytes where
  "sample_key = replicate 16 7"

definition sample_nonce :: bytes where
  "sample_nonce = replicate 12 9"

theorem encrypt_roundtrip_witness:
  "\<exists>out. encryptPayload toy_seal sample_nonce 0 sample_key [1, 2, 3] [] [] = Inr out \<and>
     decryptPayload toy_open [replicate 16 1, sample_key] out [] = Returns (Inr [1, 2, 3])"
proof -
  let ?out = "0 # sample_nonce @ ([1, 2, 3] @ replicate 13 13) @ sample_key"
  have e: "encryptPayload toy_seal sample_nonce 0 sample_key [1, 2, 3] [] [] = Inr ?out"
    by code_simp
  have n: "\<forall>k\<in>set [replicate 16 1]. decryptMessage toy_open k ?out [] = None"
    by code_simp
  have l: "length sample_key = 16" "length sample_nonce = 12" "0 \<le> maxEncryptionVersion"
    by (simp_all add: sample_key_def sample_nonce_def)
  show ?thesis
    using e encrypt_roundtrip[OF aead_toy l(3,1,2) e n, of "[]"] by auto
qed

lemma sample_out:
  "encryptPayload toy_seal sample_nonce 1 sample_key (replicate 16 200) [] [] =
   Inr (1 # sample_nonce @ replicate 16 200 @ sample_key)"
  by code_simp

theorem decrypt_authentic_witness:
  "\<exists>key\<in>set [sample_key]. encryptPayload toy_seal sample_nonce 1 key [5] [] [] =
     Inr (1 # sample_nonce @ [5] @ sample_key)"
proof -
  let ?m = "1 # sample_nonce @ [5] @ sample_key"
  have d: "decryptPayload toy_open [sample_key] ?m [] = Returns (Inr [5])"
    by code_simp
  have k: "\<forall>k\<in>set [sample_key]. length k = 16" "hd ?m = maxEncryptionVersion"
    by (simp_all add: sample_key_def sizes)
  have n: "take nonceSize (drop versionSize ?m) = sample_nonce"
    by code_simp
  show ?thesis
    using decrypt_authentic[OF aead_toy k(1) d k(2)] unfolding n by (simp add: sizes)
qed

theorem version_byte_forged_witness:
  "decryptPayload toy_open [sample_key] (0 # sample_nonce @ replicate 16 200 @ sample_key) [] = Panics"
  using version_byte_forged[OF aead_toy _ _ _ sample_out, of "[]"]
  by (simp add: sample_key_def sample_nonce_def)

end
