(* ===== verification/Net.thy ===== *)
theory Net
  imports Verify Security
begin

text \<open>
  memberlist's \<open>net.go\<close>: the packets of UDP and the streams of TCP, in and out, and the piggybacked
  broadcasts of \<open>broadcast.go\<close>.  Log messages, metrics and deadlines are left out.
\<close>

section \<open>The surroundings\<close>

text \<open>
  What the code calls and cannot be read here: LZW, the AEAD, random numbers, the clock, the sort of
  the broadcast queue, the texts of decoding errors, the answers of the delegate, and what the
  sockets report.  Things that are asked for more than once get the number of the effect they belong
  to.  \<open>ne_tail\<close> is what lies behind a new buffer in its array; \<open>ne_room\<close> and \<open>ne_nodes_room\<close> are the
  longest slices of bytes and of node states that can be made.
\<close>

record netenv =
  ne_lzw :: "bytes \<Rightarrow> bytes result"
  ne_unlzw :: "bytes \<Rightarrow> bytes result"
  ne_seal :: sealer
  ne_open :: opener
  ne_nonce :: "nat \<Rightarrow> bytes"
  ne_draws :: "nat \<Rightarrow> u32"
  ne_now :: int
  ne_sort :: "memberlistBroadcast bcQueue \<Rightarrow> memberlistBroadcast bcQueue"
  ne_err :: "bytes \<Rightarrow> goerr"
  ne_user :: "nat \<Rightarrow> int \<Rightarrow> int \<Rightarrow> bytes list"
  ne_local :: "bool \<Rightarrow> bytes"
  ne_udp :: "nat \<Rightarrow> goerr option"
  ne_write :: "bytes \<Rightarrow> nat \<times> goerr option"
  ne_tail :: "bytes \<Rightarrow> bytes"
  ne_room :: int
  ne_nodes_room :: int

type_synonym netaddr = "bytes \<times> u16"

definition of_outcome :: "'a outcome \<Rightarrow> 'a run" where
  "of_outcome x = (case x of Returns y \<Rightarrow> Done y | Panics \<Rightarrow> Panic)"

definition encryptionEnabled :: "config \<Rightarrow> bool" where
  "encryptionEnabled cf = (case cf_Keyring cf of None \<Rightarrow> False | Some k \<Rightarrow> 0 < length (getKeys k))"

definition protocolVersion :: "config \<Rightarrow> u8" where
  "protocolVersion cf = cf_ProtocolVersion cf"

definition encryptionVersion :: "config \<Rightarrow> u8" where
  "encryptionVersion cf = (if protocolVersion cf = 1 then 0 else 1)"

text \<open>The keys of a configuration without a keyring are never asked for.\<close>

definition keys_of :: "config \<Rightarrow> bytes list" where
  "keys_of cf = (case cf_Keyring cf of None \<Rightarrow> [] | Some k \<Rightarrow> getKeys k)"

definition primary_of :: "config \<Rightarrow> bytes" where
  "primary_of cf = (case cf_Keyring cf of None \<Rightarrow> [] | Some k \<Rightarrow>
     (case getPrimaryKey k of None \<Rightarrow> [] | Some key \<Rightarrow> key))"

definition udpSendBuf :: int where "udpSendBuf = 1400"
definition compoundHeaderOverhead :: int where "compoundHeaderOverhead = 2"
definition compoundOverhead :: int where "compoundOverhead = 2"
definition userMsgOverhead :: int where "userMsgOverhead = 1"
definition maxPushStateBytes :: nat where "maxPushStateBytes = 10485760"

lemmas net_consts = udpSendBuf_def compoundHeaderOverhead_def compoundOverhead_def userMsgOverhead_def
  maxPushStateBytes_def

section \<open>Compression\<close>

definition compressPayload :: "netenv \<Rightarrow> bytes \<Rightarrow> bytes result" where
  "compressPayload env inp =
     (case ne_lzw env inp of
        Inl err \<Rightarrow> Inl err
      | Inr buf \<Rightarrow> Inr (encode compressMsg (compress_struct \<lparr>co_Algo = lzwAlgo, co_Buf = buf\<rparr>)))"

definition decompressBuffer :: "netenv \<Rightarrow> compress \<Rightarrow> bytes result" where
  "decompressBuffer env c =
     (if co_Algo c \<noteq> lzwAlgo
      then Inl (ErrMsg (''Cannot decompress unknown algorithm '' @ dec (unat (co_Algo c))))
      else ne_unlzw env (co_Buf c))"

definition decompressPayload :: "netenv \<Rightarrow> bytes \<Rightarrow> bytes result" where
  "decompressPayload env msg =
     (case decode struct_compress zero_compress msg of
        None \<Rightarrow> Inl (ne_err env msg)
      | Some c \<Rightarrow> decompressBuffer env c)"

section \<open>Sending over UDP\<close>

definition frame_user :: "bytes \<Rightarrow> bytes" where
  "frame_user msg = [userMsg] @ msg"

text \<open>The memberlist's own broadcasts first, then the delegate's, if there is room for any.\<close>

definition ml_getBroadcasts :: "netenv \<Rightarrow> config \<Rightarrow> int \<Rightarrow> int \<Rightarrow> memberlist \<Rightarrow> bytes list \<times> memberlist" where
  "ml_getBroadcasts env cf overhead limit m =
     (let (q, toSend, fin) =
        getBroadcasts mb_Message (ne_sort env) (cf_RetransmitMult cf) (estNumNodes m) overhead limit (ml_broadcasts m);
          m1 = emit (map mb_Finished fin) (m\<lparr>ml_broadcasts := q\<rparr>)
      in if cf_Delegate cf then
           let bytesUsed = sum_list (map (\<lambda>msg. int (length msg) + overhead) toSend);
               avail = limit - bytesUsed
           in if overhead + userMsgOverhead < avail
              then (toSend @ map frame_user (ne_user env (length (ml_out m1)) (overhead + userMsgOverhead) avail), m1)
              else (toSend, m1)
         else (toSend, m1))"

definition rawSendMsgUDP :: "netenv \<Rightarrow> config \<Rightarrow> netaddr \<Rightarrow> bytes \<Rightarrow> memberlist \<Rightarrow> goerr option \<times> memberlist" where
  "rawSendMsgUDP env cf to msg m =
     (let k = length (ml_out m);
          msg1 = (if cf_EnableCompression cf then
                    (case compressPayload env msg of
                       Inl _ \<Rightarrow> msg
                     | Inr buf \<Rightarrow> if length buf < length msg then buf else msg)
                  else msg);
          crypt = (if encryptionEnabled cf
                   then encryptPayload (ne_seal env) (ne_nonce env k) (encryptionVersion cf) (primary_of cf) msg1 [] []
                   else Inr msg1)
      in case crypt of
           Inl err \<Rightarrow> (Some err, m)
         | Inr msg2 \<Rightarrow> (ne_udp env k, emit [SendUDP to msg2] m))"

text \<open>The space for a packet's messages.  \<open>encryptOverhead\<close> knows both encryption versions.\<close>

definition bytes_avail :: "config \<Rightarrow> int" where
  "bytes_avail cf =
     (if encryptionEnabled cf
      then (case encryptOverhead (encryptionVersion cf) of
              Returns n \<Rightarrow> udpSendBuf - compoundHeaderOverhead - int n
            | Panics \<Rightarrow> 0)
      else udpSendBuf - compoundHeaderOverhead)"

definition sendMsg :: "netenv \<Rightarrow> config \<Rightarrow> netaddr \<Rightarrow> bytes \<Rightarrow> memberlist \<Rightarrow> goerr option \<times> memberlist" where
  "sendMsg env cf to msg m =
     (let bytesAvail = bytes_avail cf - int (length msg);
          (extra, m1) = ml_getBroadcasts env cf compoundOverhead bytesAvail m
      in if length extra = 0 then rawSendMsgUDP env cf to msg m1
         else rawSendMsgUDP env cf to (makeCompoundMessage ([msg] @ extra)) m1)"

definition encodeAndSendMsg :: "netenv \<Rightarrow> config \<Rightarrow> netaddr \<Rightarrow> byte \<Rightarrow> gostruct \<Rightarrow> memberlist \<Rightarrow> goerr option \<times> memberlist" where
  "encodeAndSendMsg env cf to msgType msg m = sendMsg env cf to (encode msgType msg) m"

section \<open>Packets\<close>

text \<open>The handler of an ack: once, and only if there is one.\<close>

definition relay_ack :: "netenv \<Rightarrow> config \<Rightarrow> u32 \<Rightarrow> netaddr \<Rightarrow> string \<Rightarrow> bytes \<Rightarrow> memberlist \<Rightarrow> memberlist" where
  "relay_ack env cf seqNo from nd payload m =
     (let (err, m1) = encodeAndSendMsg env cf from ackRespMsg (ack_struct \<lparr>ak_SeqNo = seqNo, ak_Payload = []\<rparr>) m
      in if cf_Ping cf \<noteq> None then
           (case ml_nodeMap m1 nd of
              None \<Rightarrow> m1
            | Some p \<Rightarrow> emit [PingComplete (node_of (deref m1 p)) payload] m1)
         else m1)"

definition invokeAckHandler :: "netenv \<Rightarrow> config \<Rightarrow> ackResp \<Rightarrow> memberlist \<Rightarrow> memberlist" where
  "invokeAckHandler env cf ack m =
     (let m1 = m\<lparr>ml_acks := (ml_acks m)(ak_SeqNo ack := None)\<rparr>
      in case ml_acks m (ak_SeqNo ack) of
           None \<Rightarrow> m1
         | Some (AckChannel ch) \<Rightarrow> emit [AckChan ch True (ak_Payload ack)] m1
         | Some (AckRelay seqNo from nd) \<Rightarrow> relay_ack env cf seqNo from nd (ak_Payload ack) m1)"

definition handlePing :: "netenv \<Rightarrow> config \<Rightarrow> bytes \<Rightarrow> netaddr \<Rightarrow> memberlist \<Rightarrow> memberlist" where
  "handlePing env cf buf from m =
     (case decode struct_ping zero_ping buf of
        None \<Rightarrow> m
      | Some p \<Rightarrow>
          if pi_Node p \<noteq> [] \<and> pi_Node p \<noteq> cf_Name cf then m
          else
            let payload = (case cf_Ping cf of None \<Rightarrow> [] | Some x \<Rightarrow> x);
                ack = \<lparr>ak_SeqNo = pi_SeqNo p, ak_Payload = payload\<rparr>
            in snd (encodeAndSendMsg env cf from ackRespMsg (ack_struct ack) m))"

definition handleIndirectPing :: "netenv \<Rightarrow> config \<Rightarrow> bytes \<Rightarrow> netaddr \<Rightarrow> memberlist \<Rightarrow> memberlist" where
  "handleIndirectPing env cf buf from m =
     (case decode struct_indirect zero_indirect buf of
        None \<Rightarrow> m
      | Some ind \<Rightarrow>
          let port = (if protocolVersion cf < 2 \<or> ip_Port ind = 0 then of_int (cf_BindPort cf) else ip_Port ind);
              (localSeqNo, m1) = nextSeqNo m;
              p = \<lparr>pi_SeqNo = localSeqNo, pi_Node = ip_Node ind\<rparr>;
              m2 = setAckHandler localSeqNo (AckRelay (ip_SeqNo ind) from (ip_Node ind)) (cf_ProbeTimeout cf) m1
          in snd (encodeAndSendMsg env cf (ip_Target ind, port) pingMsg (ping_struct p) m2))"

definition handleAck :: "netenv \<Rightarrow> config \<Rightarrow> bytes \<Rightarrow> memberlist \<Rightarrow> memberlist" where
  "handleAck env cf buf m =
     (case decode struct_ack zero_ack buf of
        None \<Rightarrow> m
      | Some ack \<Rightarrow> invokeAckHandler env cf ack m)"

text \<open>The channel to \<open>udpHandler\<close> holds 1024 messages; more are dropped.\<close>

definition hand_off :: "byte \<Rightarrow> bytes \<Rightarrow> memberlist \<Rightarrow> memberlist" where
  "hand_off t buf m = (if length (ml_handoff m) < 1024 then m\<lparr>ml_handoff := ml_handoff m @ [(t, buf)]\<rparr> else m)"

text \<open>
  A part of a compound message is a slice of its array: the later parts lie behind it.
\<close>

fun with_tails :: "bytes list \<Rightarrow> bytes \<Rightarrow> (bytes \<times> bytes) list" where
  "with_tails [] mem = []"
| "with_tails (p # ps) mem = (p, drop (length p) mem) # with_tails ps (drop (length p) mem)"

definition handleCompound :: "bytes \<Rightarrow> bytes \<Rightarrow> (bytes \<times> bytes) list outcome" where
  "handleCompound buf tail =
     (case decodeCompoundMessage buf tail of
        Panics \<Rightarrow> Panics
      | Returns (trunc, parts, err) \<Rightarrow>
          if err \<noteq> None then Returns []
          else Returns (with_tails parts (drop (unat (hd buf * 2)) (tl buf @ tail))))"

definition handleCompressed :: "netenv \<Rightarrow> bytes \<Rightarrow> (bytes \<times> bytes) list" where
  "handleCompressed env buf =
     (case decompressPayload env buf of
        Inl _ \<Rightarrow> []
      | Inr payload \<Rightarrow> [(payload, ne_tail env payload)])"

text \<open>One command: the state after it, and the commands inside it, which come next.\<close>

definition command_step ::
  "netenv \<Rightarrow> config \<Rightarrow> netaddr \<Rightarrow> bytes \<Rightarrow> bytes \<Rightarrow> memberlist \<Rightarrow> ((bytes \<times> bytes) list \<times> memberlist) outcome" where
  "command_step env cf from cmd tail m =
     (case cmd of
        [] \<Rightarrow> Panics
      | msgType # buf \<Rightarrow>
          if msgType = compoundMsg then
            (case handleCompound buf tail of Panics \<Rightarrow> Panics | Returns ps \<Rightarrow> Returns (ps, m))
          else if msgType = compressMsg then Returns (handleCompressed env buf, m)
          else if msgType = pingMsg then Returns ([], handlePing env cf buf from m)
          else if msgType = indirectPingMsg then Returns ([], handleIndirectPing env cf buf from m)
          else if msgType = ackRespMsg then Returns ([], handleAck env cf buf m)
          else if msgType \<in> {suspectMsg, aliveMsg, deadMsg, userMsg} then Returns ([], hand_off msgType buf m)
          else Returns ([], m))"

text \<open>
  The recursion of \<open>handleCommand\<close> as a stack of commands.  It need not end: nothing bounds how
  often a payload unpacks to another compressed one.
\<close>

partial_function (option) handle_all ::
  "netenv \<Rightarrow> config \<Rightarrow> netaddr \<Rightarrow> (bytes \<times> bytes) list \<Rightarrow> memberlist \<Rightarrow> memberlist outcome option" where
  "handle_all env cf from work m =
     (case work of
        [] \<Rightarrow> Some (Returns m)
      | (cmd, tail) # rest \<Rightarrow>
          (case command_step env cf from cmd tail m of
             Panics \<Rightarrow> Some Panics
           | Returns (parts, m1) \<Rightarrow> handle_all env cf from (parts @ rest) m1))"

definition run_of :: "memberlist outcome option \<Rightarrow> memberlist run" where
  "run_of r = (case r of None \<Rightarrow> Hang | Some Panics \<Rightarrow> Panic | Some (Returns m) \<Rightarrow> Done m)"

definition handleCommand :: "netenv \<Rightarrow> config \<Rightarrow> netaddr \<Rightarrow> bytes \<Rightarrow> bytes \<Rightarrow> memberlist \<Rightarrow> memberlist run" where
  "handleCommand env cf from cmd tail m = run_of (handle_all env cf from [(cmd, tail)] m)"

text \<open>A packet is read into 64 KB of zeros.\<close>

definition ingestPacket :: "netenv \<Rightarrow> config \<Rightarrow> netaddr \<Rightarrow> bytes \<Rightarrow> memberlist \<Rightarrow> memberlist run" where
  "ingestPacket env cf from buf m =
     (if encryptionEnabled cf then
        (case decryptPayload (ne_open env) (keys_of cf) buf [] of
           Panics \<Rightarrow> Panic
         | Returns (Inl _) \<Rightarrow> Done m
         | Returns (Inr plain) \<Rightarrow> handleCommand env cf from plain (ne_tail env plain) m)
      else handleCommand env cf from buf (replicate (65536 - length buf) 0) m)"

section \<open>The handler behind the listener\<close>

definition handleSuspect :: "netenv \<Rightarrow> config \<Rightarrow> bytes \<Rightarrow> memberlist \<Rightarrow> memberlist run" where
  "handleSuspect env cf buf m =
     (case decode struct_suspect zero_suspect buf of
        None \<Rightarrow> Done m
      | Some s \<Rightarrow> suspectNode cf (ne_now env) s m)"

definition handleAlive :: "netenv \<Rightarrow> config \<Rightarrow> bytes \<Rightarrow> memberlist \<Rightarrow> memberlist run" where
  "handleAlive env cf buf m =
     (case decode struct_alive zero_alive buf of
        None \<Rightarrow> Done m
      | Some live \<Rightarrow>
          let live1 = (if protocolVersion cf < 2 \<or> al_Port live = 0 then live\<lparr>al_Port := of_int (cf_BindPort cf)\<rparr> else live)
          in aliveNode cf (ne_draws env 0) (ne_now env) live1 None False m)"

definition handleDead :: "netenv \<Rightarrow> config \<Rightarrow> bytes \<Rightarrow> memberlist \<Rightarrow> memberlist run" where
  "handleDead env cf buf m =
     (case decode struct_dead zero_dead buf of
        None \<Rightarrow> Done m
      | Some d \<Rightarrow> deadNode cf (ne_now env) d m)"

definition handleUser :: "config \<Rightarrow> bytes \<Rightarrow> memberlist \<Rightarrow> memberlist" where
  "handleUser cf buf m = (if cf_Delegate cf then emit [UserMsg buf] m else m)"

text \<open>One turn of \<open>udpHandler\<close>; with no message it waits.\<close>

definition udpHandler :: "netenv \<Rightarrow> config \<Rightarrow> memberlist \<Rightarrow> memberlist run" where
  "udpHandler env cf m =
     (case ml_handoff m of
        [] \<Rightarrow> Done m
      | (msgType, buf) # rest \<Rightarrow>
          let m1 = m\<lparr>ml_handoff := rest\<rparr>
          in if msgType = suspectMsg then handleSuspect env cf buf m1
             else if msgType = aliveMsg then handleAlive env cf buf m1
             else if msgType = deadMsg then handleDead env cf buf m1
             else if msgType = userMsg then Done (handleUser cf buf m1)
             else Done m1)"

end
