(* ===== verification/NetTcp.thy ===== *)
theory NetTcp
  imports Net
begin

text \<open>
  The streams of memberlist's \<open>net.go\<close>: user messages, pings and the exchange of the whole state over
  TCP, encrypted and compressed as configured.  A stream coming in is the bytes of it and the error
  that ends it.
\<close>

section \<open>Sending\<close>

definition be32 :: "nat \<Rightarrow> bytes" where
  "be32 n = [of_nat (n div 2 ^ 24), of_nat (n div 2 ^ 16), of_nat (n div 2 ^ 8), of_nat n]"

definition encryptLocalState :: "netenv \<Rightarrow> config \<Rightarrow> nat \<Rightarrow> bytes \<Rightarrow> bytes result" where
  "encryptLocalState env cf k sendBuf =
     (let encVsn = encryptionVersion cf;
          encLen = encryptedLength encVsn (length sendBuf);
          buf = [encryptMsg] @ be32 (encLen mod 2 ^ 32)
      in encryptPayload (ne_seal env) (ne_nonce env k) encVsn (primary_of cf) sendBuf (take 5 buf) buf)"

definition rawSendMsgTCP :: "netenv \<Rightarrow> config \<Rightarrow> bytes \<Rightarrow> memberlist \<Rightarrow> goerr option \<times> memberlist" where
  "rawSendMsgTCP env cf sendBuf m =
     (let buf1 = (if cf_EnableCompression cf
                  then (case compressPayload env sendBuf of Inl _ \<Rightarrow> sendBuf | Inr compBuf \<Rightarrow> compBuf)
                  else sendBuf);
          crypt = (if encryptionEnabled cf then encryptLocalState env cf (length (ml_out m)) buf1 else Inr buf1)
      in case crypt of
           Inl err \<Rightarrow> (Some err, m)
         | Inr buf2 \<Rightarrow>
             let (n, err) = ne_write env buf2; m1 = emit [SendTCP buf2] m
             in if err \<noteq> None then (err, m1)
                else if n \<noteq> length buf2
                then (Some (ErrMsg (''only '' @ dec n @ '' of '' @ dec (length buf2) @ '' bytes written'')), m1)
                else (None, m1))"

definition sendTCPUserMsg :: "netenv \<Rightarrow> config \<Rightarrow> goerr option \<Rightarrow> bytes \<Rightarrow> memberlist \<Rightarrow> goerr option \<times> memberlist" where
  "sendTCPUserMsg env cf dial sendBuf m =
     (if dial \<noteq> None then (dial, m)
      else
        let header = \<lparr>um_UserMsgLen = int (length sendBuf)\<rparr>;
            bufConn = [userMsg] @ encodeStruct (user_struct header) @ sendBuf
        in rawSendMsgTCP env cf bufConn m)"

definition push_of :: "nodeState \<Rightarrow> pushNodeState" where
  "push_of n = \<lparr>pn_Name = Name n, pn_Addr = Addr n, pn_Port = Port n, pn_Meta = Meta n,
     pn_Incarnation = Incarnation n, pn_State = state_code (State n), pn_Vsn = versions_of n\<rparr>"

definition local_state :: "netenv \<Rightarrow> config \<Rightarrow> bool \<Rightarrow> memberlist \<Rightarrow> bytes" where
  "local_state env cf join m =
     (let localNodes = map (\<lambda>p. push_of (deref m p)) (ml_nodes m);
          userData = (if cf_Delegate cf then ne_local env join else []);
          header = \<lparr>pp_Nodes = int (length localNodes), pp_UserStateLen = int (length userData), pp_Join = join\<rparr>
      in [pushPullMsg] @ encodeStruct (header_struct header) @
         concat (map (\<lambda>n. encodeStruct (push_struct n)) localNodes) @ userData)"

definition sendLocalState :: "netenv \<Rightarrow> config \<Rightarrow> bool \<Rightarrow> memberlist \<Rightarrow> goerr option \<times> memberlist" where
  "sendLocalState env cf join m = rawSendMsgTCP env cf (local_state env cf join m) m"

section \<open>Receiving\<close>

definition copyN :: "nat \<Rightarrow> bytes \<Rightarrow> goerr \<Rightarrow> (bytes \<times> bytes) result" where
  "copyN n buf fin = (if n \<le> length buf then Inr (take n buf, drop n buf) else Inl fin)"

text \<open>\<open>io.ReadAtLeast\<close> of a full buffer.\<close>

definition readFull :: "nat \<Rightarrow> bytes \<Rightarrow> goerr \<Rightarrow> (bytes \<times> bytes) result" where
  "readFull n buf fin =
     (if n \<le> length buf then Inr (take n buf, drop n buf)
      else if fin = EOF \<and> buf \<noteq> [] then Inl UnexpectedEOF else Inl fin)"

definition be_nat32 :: "bytes \<Rightarrow> nat" where
  "be_nat32 bs = unat (bs ! 0) * 2 ^ 24 + unat (bs ! 1) * 2 ^ 16 + unat (bs ! 2) * 2 ^ 8 + unat (bs ! 3)"

definition decryptRemoteState :: "netenv \<Rightarrow> config \<Rightarrow> bytes \<Rightarrow> goerr \<Rightarrow> bytes result outcome" where
  "decryptRemoteState env cf buf fin =
     (case copyN 4 buf fin of
        Inl err \<Rightarrow> Returns (Inl err)
      | Inr (sz, buf1) \<Rightarrow>
          let moreBytes = be_nat32 sz
          in if maxPushStateBytes < moreBytes
             then Returns (Inl (ErrMsg (''Remote node state is larger than limit ('' @ dec moreBytes @ '')'')))
             else (case copyN moreBytes buf1 fin of
                     Inl err \<Rightarrow> Returns (Inl err)
                   | Inr (cipherBytes, _) \<Rightarrow>
                       decryptPayload (ne_open env) (keys_of cf) cipherBytes ([encryptMsg] @ sz)))"

text \<open>The type of the message and the stream behind it; an empty payload has no first byte.\<close>

definition decompress_stream :: "netenv \<Rightarrow> byte \<Rightarrow> bytes \<Rightarrow> goerr \<Rightarrow> (byte \<times> bytes \<times> goerr) result outcome" where
  "decompress_stream env msgType buf fin =
     (if msgType = compressMsg then
        (case dec_next struct_compress zero_compress buf of
           None \<Rightarrow> Returns (Inl (ne_err env buf))
         | Some (c, _) \<Rightarrow>
             (case decompressBuffer env c of
                Inl err \<Rightarrow> Returns (Inl err)
              | Inr [] \<Rightarrow> Panics
              | Inr (t # decomp) \<Rightarrow> Returns (Inr (t, decomp, EOF))))
      else Returns (Inr (msgType, buf, fin)))"

definition readTCP :: "netenv \<Rightarrow> config \<Rightarrow> bytes \<Rightarrow> goerr \<Rightarrow> (byte \<times> bytes \<times> goerr) result outcome" where
  "readTCP env cf conn fin =
     (case conn of
        [] \<Rightarrow> Returns (Inl fin)
      | msgType # buf \<Rightarrow>
          if msgType = encryptMsg then
            (if \<not> encryptionEnabled cf
             then Returns (Inl (ErrMsg ''Remote state is encrypted and encryption is not configured''))
             else (case decryptRemoteState env cf buf fin of
                     Panics \<Rightarrow> Panics
                   | Returns (Inl err) \<Rightarrow> Returns (Inl err)
                   | Returns (Inr []) \<Rightarrow> Panics
                   | Returns (Inr (t # plain)) \<Rightarrow> decompress_stream env t plain EOF))
          else if encryptionEnabled cf
          then Returns (Inl (ErrMsg ''Encryption is configured but remote state is not encrypted''))
          else decompress_stream env msgType buf fin)"

fun decode_nodes :: "nat \<Rightarrow> bytes \<Rightarrow> (pushNodeState list \<times> bytes) option" where
  "decode_nodes 0 buf = Some ([], buf)"
| "decode_nodes (Suc n) buf =
     (case dec_next struct_push zero_push buf of
        None \<Rightarrow> None
      | Some (x, buf1) \<Rightarrow>
          (case decode_nodes n buf1 of None \<Rightarrow> None | Some (xs, buf2) \<Rightarrow> Some (x # xs, buf2)))"

text \<open>Old peers send no port.\<close>

definition fix_port :: "config \<Rightarrow> pushNodeState \<Rightarrow> pushNodeState" where
  "fix_port cf r = (if protocolVersion cf < 2 \<or> pn_Port r = 0 then r\<lparr>pn_Port := of_int (cf_BindPort cf)\<rparr> else r)"

text \<open>The length of a slice that is made must be none below 0 and none beyond the memory.\<close>

definition readRemoteState ::
  "netenv \<Rightarrow> config \<Rightarrow> bytes \<Rightarrow> goerr \<Rightarrow> (bool \<times> pushNodeState list \<times> bytes) result outcome" where
  "readRemoteState env cf buf fin =
     (case dec_next struct_header zero_header buf of
        None \<Rightarrow> Returns (Inl (ne_err env buf))
      | Some (header, buf1) \<Rightarrow>
          if pp_Nodes header < 0 \<or> ne_nodes_room env < pp_Nodes header then Panics
          else
            (case decode_nodes (nat (pp_Nodes header)) buf1 of
               None \<Rightarrow> Returns (Inl (ne_err env buf1))
             | Some (remoteNodes, buf2) \<Rightarrow>
                 let n = pp_UserStateLen header
                 in if 0 < n then
                      (if ne_room env < n then Panics
                       else (case readFull (nat n) buf2 fin of
                               Inl err \<Rightarrow> Returns (Inl err)
                             | Inr (userBuf, _) \<Rightarrow> Returns (Inr (pp_Join header, map (fix_port cf) remoteNodes, userBuf))))
                    else Returns (Inr (pp_Join header, map (fix_port cf) remoteNodes, []))))"

definition node_of_push :: "pushNodeState \<Rightarrow> node" where
  "node_of_push n = \<lparr>Name = pn_Name n, Addr = pn_Addr n, Port = pn_Port n, Meta = pn_Meta n,
     PMin = pn_Vsn n ! 0, PMax = pn_Vsn n ! 1, PCur = pn_Vsn n ! 2,
     DMin = pn_Vsn n ! 3, DMax = pn_Vsn n ! 4, DCur = pn_Vsn n ! 5\<rparr>"

text \<open>The Merge delegate, asked on a join only, is shown all six versions of every node.\<close>

definition ask_merge :: "config \<Rightarrow> bool \<Rightarrow> pushNodeState list \<Rightarrow> goerr option run" where
  "ask_merge cf join remoteNodes =
     (case cf_Merge cf of
        None \<Rightarrow> Done None
      | Some f \<Rightarrow>
          if \<not> join then Done None
          else if list_ex (\<lambda>n. length (pn_Vsn n) < 6) remoteNodes then Panic
          else Done (f (map node_of_push remoteNodes)))"

definition ml_mergeRemoteState ::
  "netenv \<Rightarrow> config \<Rightarrow> bool \<Rightarrow> pushNodeState list \<Rightarrow> bytes \<Rightarrow> memberlist \<Rightarrow> (goerr option \<times> memberlist) run" where
  "ml_mergeRemoteState env cf join remoteNodes userBuf m =
     (case verifyProtocol remoteNodes m of
        Panics \<Rightarrow> Panic
      | Returns (Some err) \<Rightarrow> Done (Some err, m)
      | Returns None \<Rightarrow>
          and_then (ask_merge cf join remoteNodes) (\<lambda>refused.
            if refused \<noteq> None then Done (refused, m)
            else and_then (mergeState cf (ne_draws env) (ne_now env) remoteNodes m) (\<lambda>m1.
              Done (None, if cf_Delegate cf then emit [UserState userBuf join] m1 else m1))))"

definition readUserMsg :: "netenv \<Rightarrow> config \<Rightarrow> bytes \<Rightarrow> goerr \<Rightarrow> memberlist \<Rightarrow> (goerr option \<times> memberlist) run" where
  "readUserMsg env cf buf fin m =
     (case dec_next struct_user zero_user buf of
        None \<Rightarrow> Done (Some (ne_err env buf), m)
      | Some (header, buf1) \<Rightarrow>
          let n = um_UserMsgLen header
          in if 0 < n then
               (if ne_room env < n then Panic
                else (case readFull (nat n) buf1 fin of
                        Inl err \<Rightarrow> Done (Some err, m)
                      | Inr (userBuf, _) \<Rightarrow> Done (None, if cf_Delegate cf then emit [UserMsg userBuf] m else m)))
             else Done (None, m))"

section \<open>A connection coming in\<close>

text \<open>The branch of a push and pull: the local state goes out before the remote one is merged.\<close>

definition handle_pushpull :: "netenv \<Rightarrow> config \<Rightarrow> bytes \<Rightarrow> goerr \<Rightarrow> memberlist \<Rightarrow> memberlist run" where
  "handle_pushpull env cf buf fin m =
     (case readRemoteState env cf buf fin of
        Panics \<Rightarrow> Panic
      | Returns (Inl _) \<Rightarrow> Done m
      | Returns (Inr (join, remoteNodes, userState)) \<Rightarrow>
          let (err, m1) = sendLocalState env cf join m
          in if err \<noteq> None then Done m1
             else and_then (ml_mergeRemoteState env cf join remoteNodes userState m1) (\<lambda>(err, m2). Done m2))"

definition handle_tcp_ping :: "netenv \<Rightarrow> config \<Rightarrow> bytes \<Rightarrow> memberlist \<Rightarrow> memberlist" where
  "handle_tcp_ping env cf buf m =
     (case dec_next struct_ping zero_ping buf of
        None \<Rightarrow> m
      | Some (p, _) \<Rightarrow>
          if pi_Node p \<noteq> [] \<and> pi_Node p \<noteq> cf_Name cf then m
          else snd (rawSendMsgTCP env cf
            (encode ackRespMsg (ack_struct \<lparr>ak_SeqNo = pi_SeqNo p, ak_Payload = []\<rparr>)) m))"

definition handleConn :: "netenv \<Rightarrow> config \<Rightarrow> bytes \<Rightarrow> goerr \<Rightarrow> memberlist \<Rightarrow> memberlist run" where
  "handleConn env cf conn fin m =
     (case readTCP env cf conn fin of
        Panics \<Rightarrow> Panic
      | Returns (Inl _) \<Rightarrow> Done m
      | Returns (Inr (msgType, buf, fin1)) \<Rightarrow>
          if msgType = userMsg then and_then (readUserMsg env cf buf fin1 m) (\<lambda>(err, m1). Done m1)
          else if msgType = pushPullMsg then handle_pushpull env cf buf fin1 m
          else if msgType = pingMsg then Done (handle_tcp_ping env cf buf m)
          else Done m)"

section \<open>Connections going out\<close>

text \<open>\<open>dial\<close> is how dialling ends; \<open>conn\<close> and \<open>fin\<close> are what the peer answers.\<close>

definition sendAndReceiveState ::
  "netenv \<Rightarrow> config \<Rightarrow> goerr option \<Rightarrow> bytes \<Rightarrow> goerr \<Rightarrow> bool \<Rightarrow> memberlist \<Rightarrow>
   ((pushNodeState list \<times> bytes) result \<times> memberlist) outcome" where
  "sendAndReceiveState env cf dial conn fin join m =
     (case dial of
        Some err \<Rightarrow> Returns (Inl err, m)
      | None \<Rightarrow>
          let (sent, m1) = sendLocalState env cf join m
          in (case sent of
                Some err \<Rightarrow> Returns (Inl err, m1)
              | None \<Rightarrow>
                  (case readTCP env cf conn fin of
                     Panics \<Rightarrow> Panics
                   | Returns (Inl err) \<Rightarrow> Returns (Inl err, m1)
                   | Returns (Inr (msgType, buf, fin1)) \<Rightarrow>
                       if msgType \<noteq> pushPullMsg
                       then Returns (Inl (ErrMsg (''received invalid msgType ('' @ dec (unat msgType) @
                              ''), expected pushPullMsg ('' @ dec (unat pushPullMsg) @ '')'')), m1)
                       else (case readRemoteState env cf buf fin1 of
                               Panics \<Rightarrow> Panics
                             | Returns (Inl err) \<Rightarrow> Returns (Inl err, m1)
                             | Returns (Inr (_, remoteNodes, userState)) \<Rightarrow> Returns (Inr (remoteNodes, userState), m1)))))"

definition sendPingAndWaitForAck ::
  "netenv \<Rightarrow> config \<Rightarrow> goerr option \<Rightarrow> bytes \<Rightarrow> goerr \<Rightarrow> ping \<Rightarrow> memberlist \<Rightarrow>
   ((bool \<times> goerr option) \<times> memberlist) outcome" where
  "sendPingAndWaitForAck env cf dial conn fin p m =
     (if dial \<noteq> None then Returns ((False, None), m)
      else
        let (sent, m1) = rawSendMsgTCP env cf (encode pingMsg (ping_struct p)) m
        in (case sent of
              Some err \<Rightarrow> Returns ((False, Some err), m1)
            | None \<Rightarrow>
                (case readTCP env cf conn fin of
                   Panics \<Rightarrow> Panics
                 | Returns (Inl err) \<Rightarrow> Returns ((False, Some err), m1)
                 | Returns (Inr (msgType, buf, _)) \<Rightarrow>
                     if msgType \<noteq> ackRespMsg
                     then Returns ((False, Some (ErrMsg (''Unexpected msgType ('' @ dec (unat msgType) @ '') from TCP ping''))), m1)
                     else (case dec_next struct_ack zero_ack buf of
                             None \<Rightarrow> Returns ((False, Some (ne_err env buf)), m1)
                           | Some (ack, _) \<Rightarrow>
                               if ak_SeqNo ack \<noteq> pi_SeqNo p
                               then Returns ((False, Some (ErrMsg (''Sequence number from ack ('' @ dec (unat (ak_SeqNo ack)) @
                                      '') doesn'' @ [CHR 0x27] @ ''t match ping ('' @ dec (unat (pi_SeqNo p)) @ '')''))), m1)
                               else Returns ((True, None), m1)))))"

definition pushPullNode ::
  "netenv \<Rightarrow> config \<Rightarrow> goerr option \<Rightarrow> bytes \<Rightarrow> goerr \<Rightarrow> bool \<Rightarrow> memberlist \<Rightarrow> (goerr option \<times> memberlist) run" where
  "pushPullNode env cf dial conn fin join m =
     (case sendAndReceiveState env cf dial conn fin join m of
        Panics \<Rightarrow> Panic
      | Returns (Inl err, m1) \<Rightarrow> Done (Some err, m1)
      | Returns (Inr (remote, userState), m1) \<Rightarrow> ml_mergeRemoteState env cf join remote userState m1)"

end
