(* ===== verification/Mirror.thy ===== *)
theory Mirror
  imports MembershipInv
begin

text \<open>
  The event delegate: what it is told about nodes joining and leaving mirrors the nodes that are
  known and not dead.
\<close>

section \<open>Events\<close>

fun is_event :: "effect \<Rightarrow> bool" where
  "is_event (EvJoin n) = True"
| "is_event (EvLeave n) = True"
| "is_event _ = False"

definition member_events :: "memberlist \<Rightarrow> effect list" where
  "member_events m = filter is_event (ml_out m)"

lemma no_events [simp]: "filter is_event (map mb_Finished fin) = []"
  by (induction fin) (simp_all add: mb_Finished_def)

lemma events_emit [simp]: "member_events (emit es m) = member_events m @ filter is_event es"
  by (simp add: member_events_def emit_def)

lemma member_events_frame [frame]:
  "member_events (ml_queueBroadcast nd msg k m) = member_events m"
  "member_events (encodeBroadcastNotify nd t x k m) = member_events m"
  "member_events (encodeAndBroadcast nd t x m) = member_events m"
  "member_events (assign p st m) = member_events m"
  "member_events (m\<lparr>ml_incarnation := i\<rparr>) = member_events m"
  by (simp_all add: ml_queueBroadcast_def encodeBroadcastNotify_def encodeAndBroadcast_def split_beta)
    (simp_all add: member_events_def assign_def)

text \<open>What was done to the world stays done.\<close>

definition grows :: "memberlist \<Rightarrow> memberlist \<Rightarrow> bool" where
  "grows m m' \<longleftrightarrow> (\<exists>es. ml_out m' = ml_out m @ es)"

lemma grows_refl [simp, intro]: "grows m m"
  by (simp add: grows_def)

lemma grows_trans: "grows m m1 \<Longrightarrow> grows m1 m' \<Longrightarrow> grows m m'"
  by (auto simp: grows_def)

lemma grows_emit [simp, intro]: "grows m (emit es m)"
  by (simp add: grows_def emit_def)

lemma grows_queue [simp, intro]:
  "grows m (encodeBroadcastNotify nd t x k m)" "grows m (encodeAndBroadcast nd t x m)"
  "grows m (assign p st m)" "grows m (events cf os om p m)"
  by (simp_all add: encodeAndBroadcast_def encodeBroadcastNotify_def ml_queueBroadcast_def split_beta)
    (simp_all add: grows_def emit_def assign_def events_def)

lemma grows_refute: "refute acc p k m = Done m' \<Longrightarrow> grows m m'"
proof -
  assume "refute acc p k m = Done m'"
  then obtain inc nd x where m': "m' = encodeBroadcastNotify nd aliveMsg x k
      (assign p ((deref m p)\<lparr>Incarnation := inc\<rparr>) (m\<lparr>ml_incarnation := inc\<rparr>))"
    by (auto simp: refute_def Let_def split: option.splits)
  have "grows m (assign p ((deref m p)\<lparr>Incarnation := inc\<rparr>) (m\<lparr>ml_incarnation := inc\<rparr>))"
    by (simp add: grows_def assign_def)
  then show ?thesis
    unfolding m' by (rule grows_trans) simp
qed

lemma grows_aliveNode:
  assumes "aliveNode cf draw now a k bootstrap m = Done m'"
  shows "grows m m'"
proof -
  have known: "grows m1 m'" if h: "alive_known cf now a k bootstrap p m1 = Done m'" for p m1
  proof -
    consider "m' = m1" | "m' = emit [EvConflict (node_of (deref m1 p)) (plain_of_alive a)] m1"
      | q where "refute (al_Incarnation a) p k m1 = Done q" "m' = events cf (State (deref m1 p)) (Meta (deref m1 p)) p q"
      | "m' = events cf (State (deref m1 p)) (Meta (deref m1 p)) p
            (assign p (set_alive now a (deref m1 p)) (encodeBroadcastNotify (al_Node a) aliveMsg (alive_struct a) k m1))"
      using h unfolding alive_known_def Let_def
      by (cases "refute (al_Incarnation a) p k m1") (simp_all split: if_splits)
    then show ?thesis
    proof cases
      case 3
      then show ?thesis
        using grows_trans[OF grows_refute[OF 3(1)] grows_queue(4)] by simp
    next
      case 4
      show ?thesis
        unfolding 4 by (rule grows_trans[OF grows_trans[OF grows_queue(1) grows_queue(3)] grows_queue(4)])
    qed simp_all
  qed
  obtain p m1 where pm: "(case ml_nodeMap m (al_Node a) of Some p \<Rightarrow> (p, m) | None \<Rightarrow> add_node draw a m) = (p, m1)"
    by (rule prod.exhaust)
  have "ml_out m1 = ml_out m"
    using pm by (auto simp: add_node_def Let_def split: option.splits)
  then have "grows m m1"
    by (simp add: grows_def)
  moreover have "m' = m \<or> alive_known cf now a k bootstrap p m1 = Done m'"
    using assms pm by (cases "ask_alive cf a") (auto simp: aliveNode_def split: if_splits)
  ultimately show ?thesis
    using known grows_trans by blast
qed

lemma grows_suspectNode:
  assumes "suspectNode cf now s m = Done m'"
  shows "grows m m'"
proof -
  have "grows m (emit es (assign p st (encodeAndBroadcast nd t x m)))" for es p st nd t x
    using grows_trans grows_queue(2,3) grows_emit by blast
  then show ?thesis
    using assms grows_refute by (auto simp: suspectNode_def Let_def split: option.splits if_splits)
qed

lemma grows_deadNode:
  assumes "deadNode cf now d m = Done m'"
  shows "grows m m'"
proof -
  have 1: "grows m (assign p st (encodeBroadcastNotify nd t x k m))" for p st nd t x k
    using grows_trans grows_queue(1,3) by blast
  moreover have "grows m (emit es (assign p st (encodeBroadcastNotify nd t x k m)))" for es p st nd t x k
    using grows_trans[OF 1] grows_emit by blast
  ultimately show ?thesis
    using assms grows_refute
    by (auto simp: deadNode_def Let_def encodeAndBroadcast_def split: option.splits if_splits)
qed

lemma grows_resetNodes [simp, intro]: "grows m (resetNodes j m)"
  by (simp add: resetNodes_def grows_def split_beta)

section \<open>The mirror\<close>

definition live :: "memberlist \<Rightarrow> string set" where
  "live m = {n. \<exists>st. look m n = Some st \<and> State st \<noteq> stateDead}"

text \<open>
  A delegate that follows the events: a join must be of a node it does not have, a leave of one it
  has.
\<close>

fun follow :: "effect list \<Rightarrow> string set \<Rightarrow> string set option" where
  "follow [] L = Some L"
| "follow (EvJoin n # es) L = (if Name n \<in> L then None else follow es (insert (Name n) L))"
| "follow (EvLeave n # es) L = (if Name n \<in> L then follow es (L - {Name n}) else None)"
| "follow (e # es) L = follow es L"

lemma follow_append: "follow (es @ es') L = Option.bind (follow es L) (follow es')"
  by (induction es L rule: follow.induct) simp_all

definition mirrors :: "memberlist \<Rightarrow> memberlist \<Rightarrow> bool" where
  "mirrors m m' \<longleftrightarrow> (\<exists>es. member_events m' = member_events m @ es \<and> follow es (live m) = Some (live m'))"

lemma mirrors_refl: "mirrors m m"
  by (simp add: mirrors_def)

lemma mirrors_trans: "mirrors m m1 \<Longrightarrow> mirrors m1 m' \<Longrightarrow> mirrors m m'"
  by (fastforce simp: mirrors_def follow_append)

lemma mirrors_same: "member_events m' = member_events m \<Longrightarrow> live m' = live m \<Longrightarrow> mirrors m m'"
  by (simp add: mirrors_def)

lemma live_look: "look m' = look m \<Longrightarrow> live m' = live m"
  by (simp add: live_def)

lemma live_upd: "look m' = (look m)(n \<mapsto> st) \<Longrightarrow>
  live m' = (if State st \<noteq> stateDead then insert n (live m) else live m - {n})"
  by (auto simp: live_def)

lemma mirrors_upd:
  assumes "look m' = (look m)(n \<mapsto> st')" "look m n = Some st" "State st' = stateDead \<longleftrightarrow> State st = stateDead"
    "member_events m' = member_events m"
  shows "mirrors m m'"
  using assms by (intro mirrors_same) (auto simp: live_def)

text \<open>As long as it has not left, a node has itself for alive.\<close>

definition self_ok :: "config \<Rightarrow> memberlist \<Rightarrow> bool" where
  "self_ok cf m \<longleftrightarrow> ml_leave m \<or> (\<exists>st. look m (cf_Name cf) = Some st \<and> State st = stateAlive)"

lemma self_ok_step:
  assumes "ml_step cf m m'" "ml_ok m" "self_ok cf m" "ml_leave m' = ml_leave m"
  shows "self_ok cf m'"
  using self_alive_step[OF assms(1,2)] assms(3,4) by (auto simp: self_ok_def)

section \<open>The handlers\<close>

lemma refute_events: "refute acc p k m = Done m1 \<Longrightarrow> member_events m1 = member_events m"
  by (auto simp: refute_def Let_def frame split: option.splits)

lemma events_told:
  "cf_Events cf \<Longrightarrow> member_events (events cf os om p m) =
     member_events m @ (if os = stateDead then [EvJoin (node_of (deref m p))] else [])"
  by (simp add: events_def)

lemma Name_node_of: "Name (node_of st) = Name st"
  by (simp add: node_of_def)

lemma alive_known_mirrors:
  assumes "ml_ok m" "ml_nodeMap m (al_Node a) = Some p" "cf_Events cf"
    "\<not> bootstrap \<and> al_Node a = cf_Name cf \<longrightarrow> State (deref m p) \<noteq> stateDead"
    "alive_known cf now a k bootstrap p m = Done m'"
  shows "mirrors m m'"
proof -
  let ?st = "deref m p"
  have l: "look m (al_Node a) = Some ?st"
    using assms(2) by (simp add: look_def)
  have name: "Name ?st = al_Node a"
    by (rule ml_okD(2)[OF assms(1,2)])
  consider (conflict) "Addr ?st \<noteq> al_Addr a \<or> Port ?st \<noteq> al_Port a"
    | (old) "\<not> (Addr ?st \<noteq> al_Addr a \<or> Port ?st \<noteq> al_Port a)"
        "al_Incarnation a \<le> Incarnation ?st \<and> Name ?st \<noteq> cf_Name cf \<or> al_Incarnation a < Incarnation ?st \<and> Name ?st = cf_Name cf"
    | (local) "Addr ?st = al_Addr a" "Port ?st = al_Port a" "Incarnation ?st \<le> al_Incarnation a"
        "\<not> bootstrap" "Name ?st = cf_Name cf"
    | (take) "Addr ?st = al_Addr a" "Port ?st = al_Port a"
        "Incarnation ?st < al_Incarnation a \<and> Name ?st \<noteq> cf_Name cf \<or>
         Incarnation ?st \<le> al_Incarnation a \<and> Name ?st = cf_Name cf \<and> bootstrap"
    by fastforce
  then show ?thesis
  proof cases
    case conflict
    then have "m' = (if cf_Conflict cf then emit [EvConflict (node_of ?st) (plain_of_alive a)] m else m)"
      using assms(5) by (simp add: alive_known_def Let_def)
    then show ?thesis
      by (intro mirrors_same) (simp_all add: live_def frame)
  next
    case old
    then have "m' = m"
      using assms(5) by (auto simp: alive_known_def Let_def split: if_splits)
    then show ?thesis
      by (simp add: mirrors_refl)
  next
    case local
    have notdead: "State ?st \<noteq> stateDead"
      using assms(4) local name by simp
    have e: "alive_known cf now a k bootstrap p m =
        (if al_Incarnation a = Incarnation ?st \<and> al_Meta a = Meta ?st \<and> al_Vsn a = versions_of ?st then Done m
         else and_then (refute (al_Incarnation a) p k m) (\<lambda>m1. Done (events cf (State ?st) (Meta ?st) p m1)))"
      using local leD[OF local(3)] by (simp add: alive_known_def Let_def)
    show ?thesis
    proof (cases "m' = m")
      case False
      then obtain m1 where r: "refute (al_Incarnation a) p k m = Done m1" "m' = events cf (State ?st) (Meta ?st) p m1"
        using assms(5) unfolding e
        by (cases "refute (al_Incarnation a) p k m") (auto split: if_splits)
      then have "al_Incarnation a \<noteq> - 1"
        using refute_spec(1)[OF assms(1,2)] by auto
      from refute_spec(2)[OF assms(1,2) this, of k] r(1) obtain inc where
        m1: "look m1 = (look m)(al_Node a \<mapsto> ?st\<lparr>Incarnation := inc\<rparr>)"
        by auto
      show ?thesis
        by (rule mirrors_upd[OF _ l, of _ "?st\<lparr>Incarnation := inc\<rparr>"])
          (simp_all add: r(2) frame m1 events_told[OF assms(3)] notdead refute_events[OF r(1)])
    qed (simp add: mirrors_refl)
  next
    case take
    let ?m1 = "encodeBroadcastNotify (al_Node a) aliveMsg (alive_struct a) k m"
    let ?m2 = "assign p (set_alive now a ?st) ?m1"
    have m': "m' = events cf (State ?st) (Meta ?st) p ?m2"
      using assms(5) take by (auto simp: alive_known_def Let_def split: if_splits)
    have ok: "ml_ok ?m1" "ml_nodeMap ?m1 (al_Node a) = Some p"
      using assms(1,2) by (auto simp: frame)
    have lk: "look m' = (look m)(al_Node a \<mapsto> set_alive now a ?st)"
      by (simp add: m' frame look_assign[OF ok])
    have d: "Name (deref ?m2 p) = al_Node a"
      using deref_assign[OF ml_okD(1)[OF ok]] by (simp add: name)
    have live: "live m' = insert (al_Node a) (live m)"
      using live_upd[OF lk] by simp
    obtain nd where ev: "member_events m' = member_events m @ (if State ?st = stateDead then [EvJoin nd] else [])"
        "Name nd = al_Node a"
      using that[of "node_of (deref ?m2 p)"] d by (simp only: m' events_told[OF assms(3)] frame Name_node_of)
    show ?thesis
    proof (cases "State ?st = stateDead")
      case True
      then have "al_Node a \<notin> live m"
        using l by (simp add: live_def)
      then show ?thesis
        unfolding mirrors_def
        by (intro exI[of _ "[EvJoin nd]"]) (simp add: ev live True)
    next
      case False
      then have "al_Node a \<in> live m"
        using l by (simp add: live_def)
      then show ?thesis
        by (intro mirrors_same) (simp_all add: ev live False insert_absorb)
    qed
  qed
qed

lemma aliveNode_mirrors:
  assumes "ml_ok m" "length (ml_nodes m) < 2 ^ 32" "cf_Events cf" "bootstrap \<or> self_ok cf m"
    "aliveNode cf draw now a k bootstrap m = Done m'"
  shows "mirrors m m'"
proof (cases "ml_leave m \<and> al_Node a = cf_Name cf \<or> (\<exists>e. ask_alive cf a = Done (Some e))")
  case True
  then have "m' = m"
    using assms(5) by (auto simp: aliveNode_def split: if_splits)
  then show ?thesis
    by (simp add: mirrors_refl)
next
  case False
  obtain p m1 where pm: "(case ml_nodeMap m (al_Node a) of Some p \<Rightarrow> (p, m) | None \<Rightarrow> add_node draw a m) = (p, m1)"
    by (rule prod.exhaust)
  have "ask_alive cf a = Done None"
    using assms(5) False by (cases "ask_alive cf a") (auto simp: aliveNode_def split: if_splits)
  then have k: "alive_known cf now a k bootstrap p m1 = Done m'"
    using assms(5) False pm by (auto simp: aliveNode_def)
  show ?thesis
  proof (cases "ml_nodeMap m (al_Node a)")
    case None
    then have an: "add_node draw a m = (p, m1)"
      using pm by simp
    note s = add_node_spec[OF assms(1) None an assms(2)]
    have none: "look m (al_Node a) = None"
      using None by (simp add: look_def)
    have "live m1 = live m"
      using live_upd[OF s(3)] none by (auto simp: fresh_state_def live_def)
    moreover have "member_events m1 = member_events m"
      using an by (auto simp: add_node_def Let_def member_events_def)
    ultimately have 1: "mirrors m m1"
      by (intro mirrors_same)
    have "\<not> bootstrap \<longrightarrow> al_Node a \<noteq> cf_Name cf"
      using assms(4) False none by (auto simp: self_ok_def)
    then have "mirrors m1 m'"
      by (intro alive_known_mirrors[OF s(1,2) assms(3) _ k]) blast
    with 1 show ?thesis
      by (rule mirrors_trans)
  next
    case (Some q)
    then have q: "m1 = m" "q = p" "look m (al_Node a) = Some (deref m p)"
      using pm by (auto simp: look_def)
    have "\<not> bootstrap \<and> al_Node a = cf_Name cf \<longrightarrow> State (deref m p) \<noteq> stateDead"
      using assms(4) False q by (auto simp: self_ok_def)
    then show ?thesis
      using alive_known_mirrors[OF assms(1) _ assms(3) _ k[unfolded q(1)]] Some q by simp
  qed
qed

lemma suspectNode_mirrors:
  assumes "ml_ok m" "suspectNode cf now s m = Done m'"
  shows "mirrors m m'"
proof -
  have ev: "member_events m' = member_events m"
  proof (cases "ml_nodeMap m (su_Node s)")
    case None
    then show ?thesis
      using assms(2) by (simp add: suspectNode_def)
  next
    case (Some p)
    then show ?thesis
      using assms(2) refute_events[of "su_Incarnation s" p None m m']
      by (auto simp: suspectNode_def Let_def frame split: if_splits)
  qed
  consider "look m' = look m"
    | st st' where "look m (su_Node s) = Some st" "State st = stateAlive" "look m' = (look m)(su_Node s \<mapsto> st')"
      "accused_effect cf (Name st = cf_Name cf) (su_Incarnation s) now stateSuspect st st'"
    using suspectNode_spec[OF assms] by (elim conjE disjE exE) simp_all
  then show ?thesis
  proof cases
    case 1
    show ?thesis
      by (rule mirrors_same[OF ev live_look[OF 1]])
  next
    case (2 st st')
    have "State st' \<noteq> stateDead" "State st \<noteq> stateDead"
      using 2(2,4) by (auto simp: accused_effect_def split: if_splits)
    then show ?thesis
      by (intro mirrors_upd[OF 2(3,1) _ ev]) simp
  qed
qed

lemma deadNode_mirrors:
  assumes "ml_ok m" "cf_Events cf" "deadNode cf now d m = Done m'"
  shows "mirrors m m'"
proof (cases "ml_nodeMap m (de_Node d)")
  case None
  then show ?thesis
    using assms(3) by (simp add: deadNode_def mirrors_refl)
next
  case (Some p)
  let ?st = "deref m p"
  have l: "look m (de_Node d) = Some ?st"
    using Some by (simp add: look_def)
  consider (idle) "de_Incarnation d < Incarnation ?st \<or> State ?st = stateDead"
    | (self) "\<not> de_Incarnation d < Incarnation ?st" "State ?st \<noteq> stateDead" "Name ?st = cf_Name cf \<and> \<not> ml_leave m"
    | (other) "\<not> de_Incarnation d < Incarnation ?st" "State ?st \<noteq> stateDead" "\<not> (Name ?st = cf_Name cf \<and> \<not> ml_leave m)"
    by blast
  then show ?thesis
  proof cases
    case idle
    then have "m' = m"
      using assms(3) Some by (auto simp: deadNode_def Let_def split: if_splits)
    then show ?thesis
      by (simp add: mirrors_refl)
  next
    case self
    then have r: "refute (de_Incarnation d) p None m = Done m'"
      using assms(3) Some by (simp add: deadNode_def Let_def)
    then have "de_Incarnation d \<noteq> - 1"
      using refute_spec(1)[OF assms(1) Some] by auto
    from refute_spec(2)[OF assms(1) Some this, of None] r obtain inc where
      m1: "look m' = (look m)(de_Node d \<mapsto> ?st\<lparr>Incarnation := inc\<rparr>)"
      by auto
    show ?thesis
      by (rule mirrors_upd[OF m1 l]) (simp_all add: refute_events[OF r])
  next
    case other
    obtain k where k: "(if Name ?st = cf_Name cf
        then encodeBroadcastNotify (de_Node d) deadMsg (dead_struct d) (Some leaveBroadcast) m
        else encodeAndBroadcast (de_Node d) deadMsg (dead_struct d) m) =
        encodeBroadcastNotify (de_Node d) deadMsg (dead_struct d) k m"
      by (metis encodeAndBroadcast_def)
    let ?m1 = "encodeBroadcastNotify (de_Node d) deadMsg (dead_struct d) k m"
    let ?st' = "?st\<lparr>Incarnation := de_Incarnation d, State := stateDead, StateChange := now\<rparr>"
    have m1: "ml_ok ?m1" "ml_nodeMap ?m1 (de_Node d) = Some p"
      using assms(1) Some by (auto simp: frame)
    have m': "m' = emit [EvLeave (node_of ?st')] (assign p ?st' ?m1)"
      using assms(2,3) other unfolding deadNode_def Some option.case Let_def k by simp
    have lk: "look m' = (look m)(de_Node d \<mapsto> ?st')"
      unfolding m' by (simp only: look_assign[OF m1] frame)
    have "de_Node d \<in> live m"
      using l other(2) by (simp add: live_def)
    then show ?thesis
      unfolding mirrors_def using live_upd[OF lk] ml_okD(2)[OF assms(1) Some]
      by (intro exI[of _ "[EvLeave (node_of ?st')]"]) (simp add: m' frame Name_node_of)
  qed
qed

lemma suspect_timer_mirrors:
  assumes "ml_ok m" "cf_Events cf" "suspect_timer cf now n t m = Done m'"
  shows "mirrors m m'"
  using suspect_timer_spec[OF assms(1,3)] deadNode_mirrors[OF assms(1,2)] mirrors_refl by blast

lemma resetNodes_mirrors:
  assumes "ml_ok m" "\<forall>i. j i \<le> i"
  shows "mirrors m (resetNodes j m)"
proof (rule mirrors_same)
  have "look (resetNodes j m) = reaped (look m)"
    using resetNodes_ok[OF assms] by blast
  then show "live (resetNodes j m) = live m"
    by (auto simp: live_def reaped_def split: option.splits if_splits)
  show "member_events (resetNodes j m) = member_events m"
    by (simp add: resetNodes_def member_events_def split_beta)
qed

end
