(* ===== verification/NetInv.thy ===== *)
theory NetInv
  imports NetTcp Mirror
begin

text \<open>
  What the network side keeps: packets alone never change what is known about nodes, the handlers
  behind them and the streams only move it forward.
\<close>

section \<open>Quiet operations\<close>

text \<open>
  Operations that leave the nodes alone, tell the event delegate nothing, and keep the queue of
  broadcasts in order.
\<close>

definition quiet :: "memberlist \<Rightarrow> memberlist \<Rightarrow> bool" where
  "quiet m m' \<longleftrightarrow> ml_heap m' = ml_heap m \<and> ml_nodes m' = ml_nodes m \<and> ml_nodeMap m' = ml_nodeMap m \<and>
     ml_numNodes m' = ml_numNodes m \<and> ml_leave m' = ml_leave m \<and> ml_incarnation m' = ml_incarnation m \<and>
     member_events m' = member_events m \<and> grows m m' \<and>
     (unique_keys mb_node (ml_broadcasts m) \<longrightarrow> unique_keys mb_node (ml_broadcasts m'))"

named_theorems quiet "operations that leave the nodes alone"

lemma quiet_refl [quiet]: "quiet m m"
  by (simp add: quiet_def)

lemma quiet_trans [trans]: "quiet m m1 \<Longrightarrow> quiet m1 m' \<Longrightarrow> quiet m m'"
  by (auto simp: quiet_def intro: grows_trans)

lemma quiet_emit [quiet]: "filter is_event es = [] \<Longrightarrow> quiet m (emit es m)"
  by (simp add: quiet_def) (simp add: emit_def grows_def)

lemma quiet_acks [quiet]: "quiet m (m\<lparr>ml_acks := a\<rparr>)" "quiet m (m\<lparr>ml_handoff := h\<rparr>)" "quiet m (m\<lparr>ml_sequenceNum := s\<rparr>)"
  "quiet m (m\<lparr>ml_probeIndex := i\<rparr>)" "quiet m (m\<lparr>ml_shutdown := b\<rparr>)"
  by (simp_all add: quiet_def member_events_def grows_def)

lemma quiet_ok:
  assumes "quiet m m'" "ml_ok m"
  shows "ml_ok m'" "look m' = look m" "length (ml_nodes m') = length (ml_nodes m)" "ml_leave m' = ml_leave m"
proof -
  have d: "deref m' = deref m"
    using assms(1) by (simp add: quiet_def deref_def fun_eq_iff)
  show "ml_ok m'" "length (ml_nodes m') = length (ml_nodes m)" "ml_leave m' = ml_leave m"
    using assms by (simp_all add: quiet_def ml_ok_def d)
  show "look m' = look m"
    using assms(1) by (simp add: quiet_def look_def d fun_eq_iff)
qed

lemma quiet_getBroadcasts:
  assumes "go_sort (ne_sort env)" "ml_getBroadcasts env cf overhead limit m = (msgs, m')"
  shows "quiet m m'"
proof -
  obtain q toSend fin where
    g: "getBroadcasts mb_Message (ne_sort env) (cf_RetransmitMult cf) (estNumNodes m) overhead limit (ml_broadcasts m) = (q, toSend, fin)"
    by (rule prod_cases3)
  have "m' = emit (map mb_Finished fin) (m\<lparr>ml_broadcasts := q\<rparr>)"
    using assms(2) unfolding ml_getBroadcasts_def g by (auto simp: Let_def split: if_splits)
  then show ?thesis
    using unique_keys_getBroadcasts[OF assms(1) _ g, of mb_node]
    by (simp add: quiet_def) (simp add: emit_def member_events_def grows_def)
qed

lemma quiet_rawSendMsgUDP [quiet]: "quiet m (snd (rawSendMsgUDP env cf to msg m))"
  by (simp add: rawSendMsgUDP_def Let_def quiet split: sum.split)

lemma quiet_sendMsg:
  assumes "go_sort (ne_sort env)"
  shows "quiet m (snd (sendMsg env cf to msg m))"
proof -
  obtain extra m1 where g: "ml_getBroadcasts env cf compoundOverhead (bytes_avail cf - int (length msg)) m = (extra, m1)"
    by (rule prod.exhaust)
  have "quiet m m1"
    by (rule quiet_getBroadcasts[OF assms g])
  then show ?thesis
    unfolding sendMsg_def g Let_def by (auto intro: quiet_trans quiet_rawSendMsgUDP)
qed

lemma quiet_encodeAndSendMsg:
  "go_sort (ne_sort env) \<Longrightarrow> quiet m (snd (encodeAndSendMsg env cf to t x m))"
  by (simp add: encodeAndSendMsg_def quiet_sendMsg)

lemma quiet_relay_ack:
  assumes "go_sort (ne_sort env)"
  shows "quiet m (relay_ack env cf seqNo from nd payload m)"
proof -
  obtain err m1 where e: "encodeAndSendMsg env cf from ackRespMsg (ack_struct \<lparr>ak_SeqNo = seqNo, ak_Payload = []\<rparr>) m = (err, m1)"
    by (rule prod.exhaust)
  have "quiet m m1"
    using quiet_encodeAndSendMsg[OF assms, of m cf _ ackRespMsg] e by (metis snd_conv)
  then show ?thesis
    unfolding relay_ack_def e by (auto intro: quiet_trans[OF _ quiet_emit] split: option.split)
qed

lemma quiet_invokeAckHandler:
  assumes "go_sort (ne_sort env)"
  shows "quiet m (invokeAckHandler env cf ack m)"
  by (auto simp: invokeAckHandler_def Let_def split: option.split ackHandler.split
      intro: quiet quiet_trans[OF quiet_acks(1) quiet_emit] quiet_trans[OF quiet_acks(1) quiet_relay_ack[OF assms]])

lemma quiet_handlers:
  assumes "go_sort (ne_sort env)"
  shows "quiet m (handlePing env cf buf from m)" "quiet m (handleIndirectPing env cf buf from m)"
    "quiet m (handleAck env cf buf m)" "quiet m (hand_off t buf m)"
proof -
  show "quiet m (handlePing env cf buf from m)"
    by (auto simp: handlePing_def Let_def split: option.split intro: quiet quiet_encodeAndSendMsg[OF assms])
  have n: "quiet m (setAckHandler s h t (snd (nextSeqNo m)))" for s h t
    by (simp add: quiet_def setAckHandler_def nextSeqNo_def emit_def member_events_def grows_def Let_def)
  show "quiet m (handleIndirectPing env cf buf from m)"
    by (auto simp: handleIndirectPing_def Let_def split_beta split: option.split
        intro: quiet quiet_trans[OF n quiet_encodeAndSendMsg[OF assms]])
  show "quiet m (handleAck env cf buf m)"
    by (auto simp: handleAck_def split: option.split intro: quiet quiet_invokeAckHandler[OF assms])
  show "quiet m (hand_off t buf m)"
    by (simp add: hand_off_def quiet)
qed

lemma quiet_command_step:
  assumes "go_sort (ne_sort env)" "command_step env cf from cmd tail m = Returns (ps, m')"
  shows "quiet m m'"
  using assms(2)
  by (auto simp: command_step_def quiet split: list.splits outcome.splits if_splits
      intro: quiet_handlers[OF assms(1)])

lemma quiet_handle_all:
  assumes "handle_all env cf src work m = Some (Returns m')" "go_sort (ne_sort env)"
  shows "quiet m m'"
proof -
  let ?P = "\<lambda>env (cf :: config) (src :: netaddr) (work :: (bytes \<times> bytes) list) m r.
    go_sort (ne_sort env) \<longrightarrow> (\<forall>m'. r = Returns m' \<longrightarrow> quiet m m')"
  have "?P env cf src work m (Returns m')"
  proof (rule handle_all.raw_induct[where P = ?P, OF _ assms(1)])
    fix handle env cf src work m r
    assume IH: "\<And>env cf src work m r. handle env cf src work m = Some r \<Longrightarrow> ?P env cf src work m r"
      and body: "(case work of [] \<Rightarrow> Some (Returns m)
        | (cmd, tail) # rest \<Rightarrow> (case command_step env cf src cmd tail m of Panics \<Rightarrow> Some Panics
          | Returns (parts, m1) \<Rightarrow> handle env cf src (parts @ rest) m1)) = Some r"
    show "?P env cf src work m r"
    proof (intro impI allI)
      fix m'
      assume srt: "go_sort (ne_sort env)" and r: "r = Returns m'"
      show "quiet m m'"
      proof (cases work)
        case Nil
        then show ?thesis
          using body r by (simp add: quiet)
      next
        case (Cons w rest)
        then obtain cmd tail where w: "work = (cmd, tail) # rest"
          by (cases w) simp
        then obtain ps m1 where st: "command_step env cf src cmd tail m = Returns (ps, m1)"
          using body r by (auto split: outcome.splits)
        then have "handle env cf src (ps @ rest) m1 = Some r"
          using body w by simp
        then have "quiet m1 m'"
          using IH srt r by blast
        then show ?thesis
          using quiet_command_step[OF srt st] quiet_trans by blast
      qed
    qed
  qed
  then show ?thesis
    using assms(2) by simp
qed

lemma quiet_ingestPacket:
  assumes "go_sort (ne_sort env)" "ingestPacket env cf from buf m = Done m'"
  shows "quiet m m'"
proof -
  have h: "quiet m m'" if "handleCommand env cf from cmd tail m = Done m'" for cmd tail
    using that quiet_handle_all[OF _ assms(1)]
    by (auto simp: handleCommand_def run_of_def split: option.splits outcome.splits)
  show ?thesis
    using assms(2) by (auto simp: ingestPacket_def quiet split: if_splits outcome.splits sum.splits intro: h)
qed

section \<open>Streams\<close>

lemma quiet_rawSendMsgTCP [quiet]: "quiet m (snd (rawSendMsgTCP env cf buf m))"
  by (simp add: rawSendMsgTCP_def Let_def quiet split_beta split: sum.split)

lemma quiet_sendLocalState [quiet]: "quiet m (snd (sendLocalState env cf join m))"
  by (simp add: sendLocalState_def Let_def quiet)

lemma quiet_handle_tcp_ping [quiet]: "quiet m (handle_tcp_ping env cf buf m)"
  by (simp add: handle_tcp_ping_def quiet split_beta split: option.split)

lemma quiet_readUserMsg: "readUserMsg env cf buf fin m = Done (err, m') \<Longrightarrow> quiet m m'"
  by (auto simp: readUserMsg_def Let_def quiet split: option.splits if_splits sum.splits)

section \<open>News of the nodes\<close>

text \<open>Every node stays known, with later news of it.\<close>

definition kept :: "(string \<rightharpoonup> nodeState) \<Rightarrow> (string \<rightharpoonup> nodeState) \<Rightarrow> bool" where
  "kept l l' \<longleftrightarrow> (\<forall>n st. l n = Some st \<longrightarrow> (\<exists>st'. l' n = Some st' \<and> news st st'))"

lemma news_trans: "news a b \<Longrightarrow> news b c \<Longrightarrow> news a c"
  by (auto simp: news_def)

lemma kept_refl [simp]: "kept l l"
  by (auto simp: kept_def)

lemma kept_trans [trans]: "kept l l1 \<Longrightarrow> kept l1 l' \<Longrightarrow> kept l l'"
  unfolding kept_def by (meson news_trans)

lemma kept_upd: "(\<And>st. l n = Some st \<Longrightarrow> news st st') \<Longrightarrow> kept l (l(n \<mapsto> st'))"
  by (auto simp: kept_def)

text \<open>
  The event delegate, when there is one, is told exactly how the set of live nodes changes.
\<close>

definition told :: "config \<Rightarrow> memberlist \<Rightarrow> memberlist \<Rightarrow> bool" where
  "told cf m m' \<longleftrightarrow> (cf_Events cf \<and> self_ok cf m \<longrightarrow> mirrors m m' \<and> self_ok cf m')"

lemma told_refl: "told cf m m"
  by (simp add: told_def mirrors_refl)

lemma told_trans: "told cf m m1 \<Longrightarrow> told cf m1 m' \<Longrightarrow> told cf m m'"
  unfolding told_def using mirrors_trans by blast

lemma told_quiet: "quiet m m' \<Longrightarrow> ml_ok m \<Longrightarrow> told cf m m'"
  using quiet_ok(2)[of m m'] mirrors_same[OF _ live_look]
  by (simp add: told_def quiet_def self_ok_def)

lemma told_step:
  assumes "ml_step cf m m'" "ml_ok m" "ml_leave m' = ml_leave m" "cf_Events cf \<Longrightarrow> self_ok cf m \<Longrightarrow> mirrors m m'"
  shows "told cf m m'"
  using assms self_ok_step by (simp add: told_def)

definition forward :: "config \<Rightarrow> memberlist \<Rightarrow> memberlist \<Rightarrow> nat \<Rightarrow> bool" where
  "forward cf m m' k \<longleftrightarrow> ml_ok m' \<and> kept (look m) (look m') \<and> length (ml_nodes m') \<le> length (ml_nodes m) + k \<and>
     told cf m m' \<and> grows m m'"

lemma forward_refl: "ml_ok m \<Longrightarrow> forward cf m m 0"
  by (simp add: forward_def told_refl)

lemma forward_trans: "forward cf m m1 k \<Longrightarrow> forward cf m1 m' k' \<Longrightarrow> forward cf m m' (k + k')"
  unfolding forward_def using kept_trans told_trans grows_trans by fastforce

lemma forward_mono: "forward cf m m' k \<Longrightarrow> k \<le> k' \<Longrightarrow> forward cf m m' k'"
  by (simp add: forward_def)

lemma forward_quiet: "quiet m m' \<Longrightarrow> ml_ok m \<Longrightarrow> forward cf m m' 0"
  using quiet_ok[of m m'] told_quiet[of m m'] by (simp add: forward_def quiet_def)

lemma forward_alive:
  assumes "ml_ok m" "length (ml_nodes m) < 2 ^ 32" "aliveNode cf draw now a k False m = Done m'"
  shows "forward cf m m' 1"
proof -
  note s = aliveNode_spec[OF assms]
  have "kept (look m) (look m')"
    using s
  proof (elim conjE disjE exE)
    fix st'
    assume h: "look m' = (look m)(al_Node a \<mapsto> st')" "alive_effect cf now a False (known_or_fresh a m) st'"
    show ?thesis
      unfolding h(1) using alive_effect_news[OF h(2)] by (intro kept_upd) (simp add: known_or_fresh_def)
  qed simp
  moreover have "told cf m m'"
    by (rule told_step[OF step_alive[OF assms(2,3)] assms(1)]) (use s aliveNode_mirrors[OF assms(1,2) _ _ assms(3)] in simp_all)
  ultimately show ?thesis
    using s grows_aliveNode[OF assms(3)] by (simp add: forward_def)
qed

lemma forward_suspect:
  assumes "ml_ok m" "suspectNode cf now s m = Done m'"
  shows "forward cf m m' 0"
proof -
  note s = suspectNode_spec[OF assms]
  have "kept (look m) (look m')"
    using s
  proof (elim conjE disjE exE)
    fix st st'
    assume h: "look m (su_Node s) = Some st" "State st = stateAlive" "look m' = (look m)(su_Node s \<mapsto> st')"
      "accused_effect cf (Name st = cf_Name cf) (su_Incarnation s) now stateSuspect st st'"
    show ?thesis
      unfolding h(3) using accused_effect_news[OF h(4)] h(1,2) by (intro kept_upd) (simp add: rank_def)
  qed simp
  moreover have "told cf m m'"
    by (rule told_step[OF step_suspect[OF assms(2)] assms(1)]) (use s suspectNode_mirrors[OF assms] in simp_all)
  ultimately show ?thesis
    using s grows_suspectNode[OF assms(2)] by (simp add: forward_def)
qed

lemma forward_dead:
  assumes "ml_ok m" "deadNode cf now d m = Done m'"
  shows "forward cf m m' 0"
proof -
  note s = deadNode_spec[OF assms]
  have "kept (look m) (look m')"
    using s
  proof (elim conjE disjE exE)
    fix st st'
    assume h: "look m (de_Node d) = Some st" "State st \<noteq> stateDead" "look m' = (look m)(de_Node d \<mapsto> st')"
      "accused_effect cf (Name st = cf_Name cf \<and> \<not> ml_leave m) (de_Incarnation d) now stateDead st st'"
    have "rank (State st) \<le> rank stateDead"
      by (simp add: rank_def split: nodeStateType.split)
    then show ?thesis
      unfolding h(3) using accused_effect_news[OF h(4)] h(1) by (intro kept_upd) simp
  qed simp
  moreover have "told cf m m'"
    by (rule told_step[OF step_dead[OF assms(2)] assms(1)]) (use s deadNode_mirrors[OF assms(1) _ assms(2)] in simp_all)
  ultimately show ?thesis
    using s grows_deadNode[OF assms(2)] by (simp add: forward_def)
qed

lemma and_then_Done: "and_then r f = Done y \<longleftrightarrow> (\<exists>x. r = Done x \<and> f x = Done y)"
  by (cases r) auto

lemma forward_merge:
  assumes "ml_ok m" "length (ml_nodes m) + length remote < 2 ^ 32" "mergeState cf draws now remote m = Done m'"
  shows "forward cf m m' (length remote)"
  using assms
proof (induction remote arbitrary: m draws)
  case Nil
  then show ?case
    by (simp add: forward_refl)
next
  case (Cons r remote)
  obtain m1 where m1: "merge_one cf (draws 0) now r m = Done m1" "mergeState cf (\<lambda>i. draws (Suc i)) now remote m1 = Done m'"
    using Cons.prems(3) by (auto simp: and_then_Done)
  have "length (ml_nodes m) < 2 ^ 32"
    using Cons.prems(2) by simp
  then have f1: "forward cf m m1 1"
    using m1(1) forward_alive[OF Cons.prems(1)] forward_suspect[OF Cons.prems(1), THEN forward_mono, of _ _ _ m1 1]
      forward_refl[OF Cons.prems(1), THEN forward_mono, of 1]
    by (auto simp: merge_one_def split: if_splits)
  have "ml_ok m1" "length (ml_nodes m1) + length remote < 2 ^ 32"
    using f1 Cons.prems(2) by (auto simp: forward_def)
  from forward_trans[OF f1 Cons.IH[OF this m1(2)]] show ?case
    by simp
qed

lemma forward_mergeRemoteState:
  assumes "ml_ok m" "length (ml_nodes m) + length remote < 2 ^ 32"
    "ml_mergeRemoteState env cf join remote user m = Done (err, m')"
  shows "forward cf m m' (length remote)"
proof -
  have idle: "forward cf m m (length remote)"
    using forward_mono[OF forward_refl[OF assms(1)]] by simp
  consider "m' = m" | m1 where "mergeState cf (ne_draws env) (ne_now env) remote m = Done m1"
      "m' = (if cf_Delegate cf then emit [UserState user join] m1 else m1)"
    using assms(3) unfolding ml_mergeRemoteState_def
    by (simp only: and_then_Done split: outcome.splits option.splits if_splits) fastforce+
  then show ?thesis
  proof cases
    case 2
    have f: "forward cf m m1 (length remote)"
      by (rule forward_merge[OF assms(1,2) 2(1)])
    have "quiet m1 m'"
      by (simp add: 2(2) quiet)
    from forward_trans[OF f forward_quiet[OF this]] f show ?thesis
      by (simp add: forward_def)
  qed (simp add: idle)
qed

lemma decode_nodes_length: "decode_nodes n buf = Some (xs, r) \<Longrightarrow> length xs = n"
  by (induction n arbitrary: buf xs r) (auto split: option.splits prod.splits)

lemma readRemoteState_length:
  "readRemoteState env cf buf fin = Returns (Inr (join, remote, user)) \<Longrightarrow> int (length remote) \<le> ne_nodes_room env"
  by (auto simp: readRemoteState_def Let_def dest!: decode_nodes_length split: option.splits if_splits sum.splits)

lemma forward_handleConn:
  assumes "ml_ok m" "int (length (ml_nodes m)) + ne_nodes_room env < 2 ^ 32" "handleConn env cf conn fin m = Done m'"
  shows "forward cf m m' (nat (ne_nodes_room env))"
proof -
  have idle: "forward cf m m1 (nat (ne_nodes_room env))" if "quiet m m1" for m1
    using forward_mono[OF forward_quiet[OF that assms(1)]] by simp
  have pp: "forward cf m m' (nat (ne_nodes_room env))" if h: "handle_pushpull env cf buf fin1 m = Done m'" for buf fin1
  proof (cases "readRemoteState env cf buf fin1")
    case (Returns x)
    show ?thesis
    proof (cases x)
      case (Inr y)
      obtain join remote user where y: "y = (join, remote, user)"
        by (rule prod_cases3)
      note r = readRemoteState_length[OF Returns[unfolded Inr y]]
      obtain err m1 where sl: "sendLocalState env cf join m = (err, m1)"
        by (rule prod.exhaust)
      have q: "quiet m m1"
        using quiet_sendLocalState[of m env cf join] by (simp add: sl)
      have ok: "ml_ok m1" "length (ml_nodes m1) = length (ml_nodes m)"
        using quiet_ok[OF q assms(1)] by auto
      consider "m' = m1" | err2 where "ml_mergeRemoteState env cf join remote user m1 = Done (err2, m')"
        using h by (auto simp: handle_pushpull_def Returns Inr y sl and_then_Done split: if_splits)
      then show ?thesis
      proof cases
        case 2
        have "length (ml_nodes m1) + length remote < 2 ^ 32"
        proof -
          have "int (length (ml_nodes m1) + length remote) < int (2 ^ 32)"
            using assms(2) r ok(2) by simp
          then show ?thesis
            by (simp only: of_nat_less_iff)
        qed
        from forward_mergeRemoteState[OF ok(1) this 2]
        have "forward cf m m' (0 + length remote)"
          by (rule forward_trans[OF forward_quiet[OF q assms(1)]])
        then show ?thesis
          using forward_mono r by fastforce
      qed (simp add: idle q)
    qed (use h Returns idle quiet_refl in \<open>simp add: handle_pushpull_def\<close>)
  qed (use h in \<open>simp add: handle_pushpull_def\<close>)
  have "quiet m m' \<or> (\<exists>buf fin1. handle_pushpull env cf buf fin1 m = Done m')"
    using assms(3) by (auto simp: handleConn_def and_then_Done quiet
        split: outcome.splits sum.splits if_splits intro: quiet_readUserMsg)
  then show ?thesis
    using idle pp by blast
qed

lemma forward_udpHandler:
  assumes "ml_ok m" "length (ml_nodes m) < 2 ^ 32" "udpHandler env cf m = Done m'"
  shows "forward cf m m' 1"
proof (cases "ml_handoff m")
  case Nil
  then show ?thesis
    using assms forward_mono[OF forward_refl[OF assms(1)], of 1] by (simp add: udpHandler_def)
next
  case (Cons x rest)
  obtain t buf where x: "x = (t, buf)"
    by (rule prod.exhaust)
  let ?m1 = "m\<lparr>ml_handoff := rest\<rparr>"
  have q: "quiet m ?m1"
    by (rule quiet_acks)
  have ok: "ml_ok ?m1" "length (ml_nodes ?m1) < 2 ^ 32"
    using quiet_ok[OF q assms(1)] assms(2) by simp_all
  have idle: "forward cf ?m1 m2 1" if "quiet ?m1 m2" for m2
    using forward_mono[OF forward_quiet[OF that ok(1)]] by simp
  have user: "quiet ?m1 (handleUser cf buf ?m1)"
    by (simp add: handleUser_def quiet)
  have "handleSuspect env cf buf ?m1 = Done m' \<or> handleAlive env cf buf ?m1 = Done m' \<or>
      handleDead env cf buf ?m1 = Done m' \<or> quiet ?m1 m'"
    using assms(3) user by (auto simp: udpHandler_def Cons x Let_def quiet split: if_splits)
  then have "forward cf ?m1 m' 1"
  proof (elim disjE)
    assume "handleSuspect env cf buf ?m1 = Done m'"
    then show ?thesis
      using idle[OF quiet_refl] forward_mono[OF forward_suspect[OF ok(1)]]
      by (auto simp: handleSuspect_def split: option.splits)
  next
    assume "handleAlive env cf buf ?m1 = Done m'"
    then show ?thesis
      using idle[OF quiet_refl] forward_alive[OF ok] by (auto simp: handleAlive_def Let_def split: option.splits)
  next
    assume "handleDead env cf buf ?m1 = Done m'"
    then show ?thesis
      using idle[OF quiet_refl] forward_mono[OF forward_dead[OF ok(1)]]
      by (auto simp: handleDead_def split: option.splits)
  qed (rule idle)
  from forward_trans[OF forward_quiet[OF q assms(1)] this] show ?thesis
    by simp
qed

text \<open>
  C15: no bytes from the network, over UDP or over a TCP connection, break the
  consistency of the node list or turn back what is known: if the handler returns, every known node
  is still known, at a higher incarnation or in a state no better within its incarnation.  A packet
  alone changes nothing about nodes; it only queues messages, answers pings and takes acks.
\<close>

theorem network_input_ok:
  assumes "ml_ok m" "go_sort (ne_sort env)" "0 \<le> ne_nodes_room env"
    "int (length (ml_nodes m)) + ne_nodes_room env < 2 ^ 32"
    "ingestPacket env cf src buf m = Done m' \<or> udpHandler env cf m = Done m' \<or> handleConn env cf conn fin m = Done m'"
  shows "ml_ok m' \<and> (ingestPacket env cf src buf m = Done m' \<longrightarrow> look m' = look m) \<and>
    (\<forall>n st. look m n = Some st \<longrightarrow> (\<exists>st'. look m' n = Some st' \<and> (Incarnation st < Incarnation st' \<or>
       Incarnation st = Incarnation st' \<and> rank (State st) \<le> rank (State st'))))"
proof -
  have len: "length (ml_nodes m) < 2 ^ 32"
  proof -
    have "int (length (ml_nodes m)) < int (2 ^ 32)"
      using assms(3,4) by simp
    then show ?thesis
      by (simp only: of_nat_less_iff)
  qed
  have "\<exists>k. forward cf m m' k"
    using assms(5) forward_quiet[OF quiet_ingestPacket[OF assms(2)] assms(1)]
      forward_udpHandler[OF assms(1) len] forward_handleConn[OF assms(1,4)] by blast
  moreover have "ingestPacket env cf src buf m = Done m' \<longrightarrow> look m' = look m"
    using quiet_ok(2)[OF quiet_ingestPacket[OF assms(2)] assms(1)] by blast
  ultimately show ?thesis
    by (auto simp: forward_def kept_def news_def)
qed

section \<open>Packets that crash\<close>

lemma handleCommand_simple:
  assumes "t \<noteq> compoundMsg" "t \<noteq> compressMsg"
  shows "\<exists>m'. handleCommand env cf src (t # buf) tail m = Done m'"
proof -
  have "\<exists>m'. command_step env cf src (t # buf) tail m = Returns ([], m')"
    unfolding command_step_def list.case using assms by (simp split: if_split)
  then obtain m' where "command_step env cf src (t # buf) tail m = Returns ([], m')" ..
  then have "handle_all env cf src [(t # buf, tail)] m = Some (Returns m')"
    by (subst handle_all.simps) (simp add: handle_all.simps)
  then show ?thesis
    by (simp add: handleCommand_def run_of_def)
qed

lemma dec_header:
  "fits_int (pp_Nodes h) \<Longrightarrow> fits_int (pp_UserStateLen h) \<Longrightarrow>
   dec_next struct_header zero_header (encodeStruct (header_struct h) @ r) = Some (h, r)"
  by (rule dec_encode(7)) (simp_all add: wf_structs)

lemma empty_part: "command_step env cf src [compoundMsg, 1, 0, 0] tail m = Returns ([([], tail)], m)"
proof -
  have "makeCompoundMessage [[]] = [compoundMsg, 1, 0, 0]"
    by (simp add: makeCompoundMessage_def be16_def)
  then have d: "decodeCompoundMessage [1, 0, 0] tail = Returns (0, [[]], None)"
    using decode_make[of "[[]]" tail] by (simp add: be16_def)
  show ?thesis
    by (simp add: command_step_def handleCompound_def d)
qed

lemma refute_no_panic: "refute a p k m \<noteq> Panic"
  by (simp add: refute_def Let_def split: option.split)

lemma and_then_Panic: "and_then r f = Panic \<longleftrightarrow> r = Panic \<or> (\<exists>x. r = Done x \<and> f x = Panic)"
  by (cases r) auto

lemma alive_known_panic: "alive_known cf now a k b p m = Panic \<Longrightarrow> 0 < length (al_Vsn a) \<and> length (al_Vsn a) < 6"
  by (auto simp: alive_known_def Let_def and_then_Panic refute_no_panic split: if_splits)

text \<open>What the handler takes from its queue panics only on an alive message with a version vector cut short.\<close>

lemma udpHandler_panic:
  assumes "udpHandler env cf m = Panic"
  shows "\<exists>buf rest a. ml_handoff m = (aliveMsg, buf) # rest \<and> decode struct_alive zero_alive buf = Some a \<and> length (al_Vsn a) < 6"
proof -
  obtain t buf rest where q: "ml_handoff m = (t, buf) # rest"
    using assms by (auto simp: udpHandler_def split: list.splits prod.splits)
  let ?m = "m\<lparr>ml_handoff := rest\<rparr>"
  have s: "suspectNode cf now su m1 \<noteq> Panic" for now su m1
    by (simp add: suspectNode_def Let_def refute_no_panic split: option.split)
  have d: "deadNode cf now de m1 \<noteq> Panic" for now de m1
    by (simp add: deadNode_def Let_def refute_no_panic split: option.split)
  have "t = aliveMsg \<and> handleAlive env cf buf ?m = Panic"
    using assms s d by (auto simp: udpHandler_def q handleSuspect_def handleDead_def Let_def split: if_splits option.splits)
  then have t: "t = aliveMsg" and h: "handleAlive env cf buf ?m = Panic"
    by simp_all
  obtain a where a: "decode struct_alive zero_alive buf = Some a"
    using h by (auto simp: handleAlive_def split: option.splits)
  let ?a = "if protocolVersion cf < 2 \<or> al_Port a = 0 then a\<lparr>al_Port := of_int (cf_BindPort cf)\<rparr> else a"
  have "aliveNode cf (ne_draws env 0) (ne_now env) ?a None False ?m = Panic"
    using h by (simp add: handleAlive_def a Let_def)
  then have "length (al_Vsn ?a) < 6"
    by (auto simp: aliveNode_def and_then_Panic ask_alive_def Let_def dest!: alive_known_panic split: if_splits option.splits prod.splits)
  then have "length (al_Vsn a) < 6"
    by (simp split: if_splits)
  then show ?thesis
    using q t a by blast
qed

text \<open>Such a message about a node that is new.\<close>

lemma alive_panics:
  assumes "ml_nodeMap m (al_Node a) = None" "al_Node a \<noteq> cf_Name cf" "0 < al_Incarnation a"
    "0 < length (al_Vsn a)" "length (al_Vsn a) < 6" "cf_Alive cf = None"
  shows "aliveNode cf draw now a None False m = Panic"
proof -
  let ?m1 = "snd (add_node draw a m)"
  have st: "deref ?m1 (length (ml_heap m)) = fresh_state a" "fst (add_node draw a m) = length (ml_heap m)"
    by (simp_all add: add_node_def Let_def deref_def)
  have "alive_known cf now a None False (length (ml_heap m)) ?m1 = Panic"
    using assms(2-5) by (simp add: alive_known_def Let_def st(1) fresh_state_def linorder_not_le)
  then show ?thesis
    using assms(1,2,6) st(2) by (simp add: aliveNode_def ask_alive_def Let_def split_beta)
qed

text \<open>
  C30: without encryption, one packet from anybody ends the process: a compound message
  whose only part is empty, of which \<open>handleCommand\<close> takes the first byte, or an alive message about a
  new node with one to five version bytes, which is queued and on which the handler of the queue
  panics; a push/pull header with a negative number of nodes over TCP does too.  A packet that is
  neither compound nor compressed never panics when it comes in, and of what is queued nothing but
  alive messages with fewer than six version bytes makes the handler panic.
\<close>

theorem crash_packets:
  assumes "\<not> encryptionEnabled cf"
  shows "ingestPacket env cf src [compoundMsg, 1, 0, 0] m = Panic \<and>
    (n < 0 \<and> - (2 ^ 63) \<le> n \<longrightarrow>
      handleConn env cf (pushPullMsg # encodeStruct (header_struct \<lparr>pp_Nodes = n, pp_UserStateLen = 0, pp_Join = j\<rparr>) @ r) fin m = Panic) \<and>
    (ml_nodeMap m (al_Node a) = None \<and> al_Node a \<noteq> cf_Name cf \<and> 0 < al_Incarnation a \<and>
       0 < length (al_Vsn a) \<and> length (al_Vsn a) < 6 \<and> wf_struct (alive_struct a) \<and> cf_Alive cf = None \<and> ml_handoff m = [] \<longrightarrow>
      (\<exists>m1. ingestPacket env cf src (aliveMsg # encodeStruct (alive_struct a)) m = Done m1 \<and> udpHandler env cf m1 = Panic)) \<and>
    (t \<noteq> compoundMsg \<and> t \<noteq> compressMsg \<longrightarrow> (\<exists>m'. ingestPacket env cf src (t # buf) m = Done m')) \<and>
    (udpHandler env cf m = Panic \<longrightarrow>
      (\<exists>buf rest a. ml_handoff m = (aliveMsg, buf) # rest \<and> decode struct_alive zero_alive buf = Some a \<and> length (al_Vsn a) < 6))"
proof (intro conjI impI)
  let ?tail = "replicate (65536 - length [compoundMsg, 1, 0, 0]) 0"
  have "command_step env cf src [compoundMsg, 1, 0, 0] ?tail m = Returns ([([], ?tail)], m)"
    by (rule empty_part)
  then have "handle_all env cf src [([compoundMsg, 1, 0, 0], ?tail)] m = handle_all env cf src [([], ?tail)] m"
    by (subst handle_all.simps) simp
  also have "\<dots> = Some Panics"
    by (subst handle_all.simps) (simp add: command_step_def)
  finally show "ingestPacket env cf src [compoundMsg, 1, 0, 0] m = Panic"
    using assms by (simp add: ingestPacket_def handleCommand_def run_of_def)
next
  assume n: "n < 0 \<and> - (2 ^ 63) \<le> n"
  let ?h = "\<lparr>pp_Nodes = n, pp_UserStateLen = 0, pp_Join = j\<rparr>"
  have "readTCP env cf (pushPullMsg # encodeStruct (header_struct ?h) @ r) fin =
      Returns (Inr (pushPullMsg, encodeStruct (header_struct ?h) @ r, fin))"
    using assms by (simp add: readTCP_def decompress_stream_def message_types)
  moreover have "readRemoteState env cf (encodeStruct (header_struct ?h) @ r) fin = Panics"
    using n dec_header[of ?h r] by (simp add: readRemoteState_def fits_int_def)
  ultimately show "handleConn env cf (pushPullMsg # encodeStruct (header_struct ?h) @ r) fin m = Panic"
    by (simp add: handleConn_def handle_pushpull_def message_types)
next
  assume h: "ml_nodeMap m (al_Node a) = None \<and> al_Node a \<noteq> cf_Name cf \<and> 0 < al_Incarnation a \<and>
      0 < length (al_Vsn a) \<and> length (al_Vsn a) < 6 \<and> wf_struct (alive_struct a) \<and> cf_Alive cf = None \<and> ml_handoff m = []"
  let ?body = "encodeStruct (alive_struct a)" and ?m1 = "m\<lparr>ml_handoff := [(aliveMsg, encodeStruct (alive_struct a))]\<rparr>"
  let ?tail = "replicate (65536 - length (aliveMsg # ?body)) (0 :: byte)"
  have step: "command_step env cf src (aliveMsg # ?body) tail m = Returns ([], ?m1)" for tail
    using h by (simp add: command_step_def message_types hand_off_def)
  have "handle_all env cf src [(aliveMsg # ?body, tail)] m = Some (Returns ?m1)" for tail
    by (subst handle_all.simps) (simp add: step handle_all.simps)
  then have i: "ingestPacket env cf src (aliveMsg # ?body) m = Done ?m1"
    using assms by (simp add: ingestPacket_def handleCommand_def run_of_def)
  have "dec_next struct_alive zero_alive (?body @ []) = Some (a, [])"
    using h by (intro dec_encode(5)) simp_all
  then have d: "decode struct_alive zero_alive ?body = Some a"
    by (simp add: decode_def)
  have m: "?m1\<lparr>ml_handoff := []\<rparr> = m"
    using h by (cases m) simp
  have "aliveNode cf draw now (if b then a\<lparr>al_Port := q\<rparr> else a) None False m = Panic" for draw now b q
    using h by (intro alive_panics) simp_all
  then have "udpHandler env cf ?m1 = Panic"
    using m by (simp add: udpHandler_def handleAlive_def d message_types Let_def)
  with i show "\<exists>m1. ingestPacket env cf src (aliveMsg # ?body) m = Done m1 \<and> udpHandler env cf m1 = Panic"
    by blast
next
  assume "udpHandler env cf m = Panic"
  then show "\<exists>buf rest a. ml_handoff m = (aliveMsg, buf) # rest \<and> decode struct_alive zero_alive buf = Some a \<and> length (al_Vsn a) < 6"
    by (rule udpHandler_panic)
next
  assume "t \<noteq> compoundMsg \<and> t \<noteq> compressMsg"
  then show "\<exists>m'. ingestPacket env cf src (t # buf) m = Done m'"
    using assms handleCommand_simple[of t] by (simp add: ingestPacket_def)
qed

section \<open>Samples\<close>

definition env_a :: netenv where
  "env_a = \<lparr>ne_lzw = (\<lambda>_. Inl (ErrMsg ''lzw'')), ne_unlzw = (\<lambda>_. Inl (ErrMsg ''lzw'')), ne_seal = toy_seal,
     ne_open = toy_open, ne_nonce = (\<lambda>_. sample_nonce), ne_draws = (\<lambda>_. 0), ne_now = 5, ne_sort = by_transmits,
     ne_err = (\<lambda>_. EOF), ne_user = (\<lambda>_ _ _. []), ne_local = (\<lambda>_. [42]), ne_udp = (\<lambda>_. None),
     ne_write = (\<lambda>b. (length b, None)), ne_tail = (\<lambda>_. []), ne_room = 2 ^ 31, ne_nodes_room = 2 ^ 24\<rparr>"

lemma not_encrypted [simp]: "\<not> encryptionEnabled cfg_a"
  by (simp add: encryptionEnabled_def cfg_a_def)

lemma network_input_ok_witness:
  "\<exists>m'. ingestPacket env_a cfg_a ([], 0) [userMsg, 1] ml_a = Done m' \<and> ml_ok m' \<and> look m' = look ml_a"
proof -
  obtain m' where m': "ingestPacket env_a cfg_a ([], 0) [userMsg, 1] ml_a = Done m'"
    using handleCommand_simple[of userMsg env_a cfg_a "([], 0)" "[1]" "replicate (65536 - length [userMsg, 1]) 0" ml_a]
    by (auto simp: ingestPacket_def message_types simp del: replicate.simps)
  have "go_sort (ne_sort env_a)" "0 \<le> ne_nodes_room env_a" "int (length (ml_nodes ml_a)) + ne_nodes_room env_a < 2 ^ 32"
    by (simp_all add: env_a_def go_sort_by_transmits ml_a_def ml_with_def)
  from network_input_ok[OF ml_ok_a this, of cfg_a "([], 0)" "[userMsg, 1]" m' "[]" EOF] show ?thesis
    using m' by blast
qed

lemma crash_packets_witness:
  "ingestPacket env_a cfg_a ([], 0) [compoundMsg, 1, 0, 0] ml_a = Panic \<and>
   (\<exists>m1. ingestPacket env_a cfg_a ([], 0) (aliveMsg # encodeStruct (alive_struct \<lparr>al_Incarnation = 1, al_Node = ''x'',
      al_Addr = [127, 0, 0, 1], al_Port = 7946, al_Meta = [], al_Vsn = [1]\<rparr>)) ml_a = Done m1 \<and> udpHandler env_a cfg_a m1 = Panic)"
proof -
  let ?a = "\<lparr>al_Incarnation = 1, al_Node = ''x'', al_Addr = [127, 0, 0, 1], al_Port = 7946, al_Meta = [], al_Vsn = [1]\<rparr>"
  have "wf_struct (alive_struct ?a)"
    by (simp add: wf_structs fits_def)
  moreover have "ml_nodeMap ml_a ''x'' = None" "cf_Name cfg_a = ''a''" "cf_Alive cfg_a = None" "ml_handoff ml_a = []"
    by (simp_all add: ml_a_def ml_with_def cfg_a_def)
  ultimately show ?thesis
    using crash_packets[OF not_encrypted, of env_a "([], 0)" ml_a 0 False "[]" EOF ?a] by simp
qed

end
