(* ===== verification/NetProps.thy ===== *)
theory NetProps
  imports NetInv
begin

text \<open>
  What arrives of what is sent: packets and streams between two nodes with the same keys, and how
  long the packets are.
\<close>

section \<open>Lengths on the wire\<close>

lemma length_be32: "length (be32 n) = 4"
  by (simp add: be32_def)

lemma base256:
  fixes n :: nat
  shows "n = a * 256 + r0 \<Longrightarrow> a = b * 256 + r1 \<Longrightarrow> b = c * 256 + r2 \<Longrightarrow> n = c * 2 ^ 24 + r2 * 2 ^ 16 + r1 * 2 ^ 8 + r0"
  by simp

lemma be_nat32_be32: "n < 2 ^ 32 \<Longrightarrow> be_nat32 (be32 n) = n"
proof -
  assume "n < 2 ^ 32"
  then have "n div 2 ^ 24 < 256"
    by simp
  moreover have "n = (n div 2 ^ 24) * 2 ^ 24 + (n div 2 ^ 16 mod 256) * 2 ^ 16 + (n div 2 ^ 8 mod 256) * 2 ^ 8 + n mod 256"
  proof -
    have "n = n div 256 * 256 + n mod 256" "n div 256 = n div 256 div 256 * 256 + n div 256 mod 256"
      "n div 256 div 256 = n div 256 div 256 div 256 * 256 + n div 256 div 256 mod 256"
      by simp_all
    then have "n = n div 256 div 256 div 256 * 2 ^ 24 + n div 256 div 256 mod 256 * 2 ^ 16 + n div 256 mod 256 * 2 ^ 8 + n mod 256"
      by (rule base256)
    then show ?thesis
      by (simp flip: div_mult2_eq)
  qed
  ultimately show ?thesis
    by (simp add: be_nat32_def be32_def unat_of_nat take_bit_eq_mod)
qed

section \<open>Two nodes that understand each other\<close>

text \<open>
  The receiver undoes the sender's compression, and either neither encrypts or both do and the first
  key of the receiver's ring is the sender's primary key.
\<close>

definition linked :: "netenv \<Rightarrow> config \<Rightarrow> netenv \<Rightarrow> config \<Rightarrow> bool" where
  "linked env cf envb cfb \<longleftrightarrow>
     (\<forall>x y. ne_lzw env x = Inr y \<longrightarrow> ne_unlzw envb y = Inr x \<and> fits y) \<and>
     aead (ne_seal env) (ne_open envb) \<and> (\<forall>k. length (ne_nonce env k) = 12) \<and>
     encryptionEnabled cf = encryptionEnabled cfb \<and>
     (encryptionEnabled cf \<longrightarrow> length (primary_of cf) = 16 \<and> (\<exists>rest. keys_of cfb = primary_of cf # rest))"

lemma linkedD:
  assumes "linked env cf envb cfb"
  shows "ne_lzw env x = Inr y \<Longrightarrow> ne_unlzw envb y = Inr x" "ne_lzw env x = Inr y \<Longrightarrow> fits y"
    "aead (ne_seal env) (ne_open envb)" "length (ne_nonce env k) = 12"
    "encryptionEnabled cfb = encryptionEnabled cf" "encryptionEnabled cf \<Longrightarrow> length (primary_of cf) = 16"
    "encryptionEnabled cf \<Longrightarrow> \<exists>rest. keys_of cfb = primary_of cf # rest"
  using assms by (auto simp: linked_def)

lemma encryptionVersion_le: "encryptionVersion cf \<le> 1"
  by (simp add: encryptionVersion_def)

lemma compress_undone:
  assumes "linked env cf envb cfb" "compressPayload env msg = Inr buf"
  shows "\<exists>b. buf = compressMsg # b \<and> decompressPayload envb b = Inr msg \<and>
    decompress_stream envb compressMsg b fin = (case msg of [] \<Rightarrow> Panics | t # r \<Rightarrow> Returns (Inr (t, r, EOF)))"
proof -
  obtain y where y: "ne_lzw env msg = Inr y" "buf = encode compressMsg (compress_struct \<lparr>co_Algo = lzwAlgo, co_Buf = y\<rparr>)"
    using assms(2) by (auto simp: compressPayload_def split: sum.splits)
  let ?b = "encodeStruct (compress_struct \<lparr>co_Algo = lzwAlgo, co_Buf = y\<rparr>)"
  have "dec_next struct_compress zero_compress (?b @ []) = Some (\<lparr>co_Algo = lzwAlgo, co_Buf = y\<rparr>, [])"
    using linkedD(2)[OF assms(1) y(1)] by (intro dec_encode(10)) (simp_all add: wf_structs)
  then have d: "dec_next struct_compress zero_compress ?b = Some (\<lparr>co_Algo = lzwAlgo, co_Buf = y\<rparr>, [])"
    by simp
  moreover have "decompressBuffer envb \<lparr>co_Algo = lzwAlgo, co_Buf = y\<rparr> = Inr msg"
    using linkedD(1)[OF assms(1) y(1)] by (simp add: decompressBuffer_def)
  ultimately show ?thesis
    using y(2) by (auto simp: encode_def decompressPayload_def decode_def decompress_stream_def split: list.split)
qed

lemma handleCommand_compressed:
  assumes "linked env cf envb cfb" "compressPayload env msg = Inr buf"
  shows "handleCommand envb cfb src buf tail mb = handleCommand envb cfb src msg (ne_tail envb msg) mb"
proof -
  obtain b where "buf = compressMsg # b" "decompressPayload envb b = Inr msg"
    using compress_undone[OF assms] by blast
  then have "command_step envb cfb src buf tail mb = Returns ([(msg, ne_tail envb msg)], mb)"
    by (simp add: command_step_def message_types handleCompressed_def)
  then show ?thesis
    unfolding handleCommand_def by (subst handle_all.simps) simp
qed

lemma udp_arrives:
  assumes "linked env cf envb cfb" "rawSendMsgUDP env cf to pkt m = (err, m')"
  shows "\<exists>wire. m' = emit [SendUDP to wire] m \<and>
    (\<forall>src mb. \<exists>tail. ingestPacket envb cfb src wire mb = handleCommand envb cfb src pkt tail mb)"
proof -
  let ?k = "length (ml_out m)"
  define msg1 where "msg1 = (if cf_EnableCompression cf then (case compressPayload env pkt of Inl _ \<Rightarrow> pkt
    | Inr buf \<Rightarrow> if length buf < length pkt then buf else pkt) else pkt)"
  have c: "\<exists>tail'. handleCommand envb cfb src msg1 tail mb = handleCommand envb cfb src pkt tail' mb" for src tail mb
    using handleCommand_compressed[OF assms(1)] by (auto simp: msg1_def split: sum.split)
  show ?thesis
  proof (cases "encryptionEnabled cf")
    case False
    then have "m' = emit [SendUDP to msg1] m"
      using assms(2) by (simp add: rawSendMsgUDP_def Let_def flip: msg1_def)
    then show ?thesis
      using c False linkedD(5)[OF assms(1)] by (auto simp: ingestPacket_def)
  next
    case True
    note key = linkedD(6)[OF assms(1) True]
    obtain rest where ring: "keys_of cfb = primary_of cf # rest"
      using linkedD(7)[OF assms(1) True] by blast
    obtain w where w: "encryptPayload (ne_seal env) (ne_nonce env ?k) (encryptionVersion cf) (primary_of cf) msg1 [] [] = Inr w"
      by (simp add: encryptPayload_eq[OF key linkedD(4)[OF assms(1)]])
    have "decryptPayload (ne_open envb) (keys_of cfb) w [] = Returns (Inr msg1)"
      using decrypt_encrypted[OF linkedD(3)[OF assms(1)] key linkedD(4)[OF assms(1)] encryptionVersion_le w, of "[]" rest]
      by (simp add: ring)
    moreover have "m' = emit [SendUDP to w] m"
      using assms(2) True w by (simp add: rawSendMsgUDP_def Let_def flip: msg1_def)
    ultimately show ?thesis
      using c True linkedD(5)[OF assms(1)] by (auto simp: ingestPacket_def)
  qed
qed

lemma length_with_tails: "map fst (with_tails ps mem) = ps"
  by (induction ps arbitrary: mem) auto

lemma compound_arrives:
  assumes "length msgs < 128" "\<forall>x\<in>set msgs. length x < 65536"
  shows "\<exists>parts. map fst parts = msgs \<and>
    handleCommand envb cfb src (makeCompoundMessage msgs) tail mb = run_of (handle_all envb cfb src parts mb)"
proof -
  obtain b where b: "makeCompoundMessage msgs = compoundMsg # b"
    by (simp add: makeCompoundMessage_def)
  then have "decodeCompoundMessage b tail = Returns (0, msgs, None)"
    using compound_decodes[OF assms, of tail] by simp
  then have "command_step envb cfb src (makeCompoundMessage msgs) tail mb =
      Returns (with_tails msgs (drop (unat (hd b * 2)) (tl b @ tail)), mb)"
    by (simp add: b command_step_def handleCompound_def)
  then have "handleCommand envb cfb src (makeCompoundMessage msgs) tail mb =
      run_of (handle_all envb cfb src (with_tails msgs (drop (unat (hd b * 2)) (tl b @ tail))) mb)"
    unfolding handleCommand_def by (subst handle_all.simps) simp
  then show ?thesis
    using length_with_tails by blast
qed

text \<open>
  C25: the packet of \<open>sendMsg\<close>, compressed and encrypted as configured, makes a node
  with the same keys handle the message and then the broadcasts that ride along, one by one and in
  order, as if each had come alone.
\<close>

theorem packet_arrives:
  assumes "linked env cf envb cfb" "sendMsg env cf to msg m = (err, m')"
    "ml_getBroadcasts env cf compoundOverhead (bytes_avail cf - int (length msg)) m = (extra, m1)"
    "length extra < 127" "\<forall>x\<in>set (msg # extra). length x < 65536"
  shows "\<exists>wire. m' = emit [SendUDP to wire] m1 \<and>
    (\<forall>src mb. \<exists>parts. map fst parts = msg # extra \<and>
       ingestPacket envb cfb src wire mb = run_of (handle_all envb cfb src parts mb))"
proof (cases extra)
  case Nil
  then have "rawSendMsgUDP env cf to msg m1 = (err, m')"
    using assms(2,3) by (simp add: sendMsg_def)
  then obtain wire where w: "m' = emit [SendUDP to wire] m1"
    "\<forall>src mb. \<exists>tail. ingestPacket envb cfb src wire mb = handleCommand envb cfb src msg tail mb"
    using udp_arrives[OF assms(1)] by blast
  have "\<exists>parts. map fst parts = msg # extra \<and> ingestPacket envb cfb src wire mb = run_of (handle_all envb cfb src parts mb)"
    for src mb
  proof -
    obtain tail where "ingestPacket envb cfb src wire mb = handleCommand envb cfb src msg tail mb"
      using w(2) by blast
    then show ?thesis
      unfolding handleCommand_def Nil by (intro exI[of _ "[(msg, tail)]"]) simp
  qed
  then show ?thesis
    using w(1) by blast
next
  case (Cons x xs)
  then have "rawSendMsgUDP env cf to (makeCompoundMessage (msg # extra)) m1 = (err, m')"
    using assms(2,3) by (simp add: sendMsg_def)
  then obtain wire where w: "m' = emit [SendUDP to wire] m1"
    "\<forall>src mb. \<exists>tail. ingestPacket envb cfb src wire mb = handleCommand envb cfb src (makeCompoundMessage (msg # extra)) tail mb"
    using udp_arrives[OF assms(1)] by blast
  have "\<exists>parts. map fst parts = msg # extra \<and> ingestPacket envb cfb src wire mb = run_of (handle_all envb cfb src parts mb)"
    for src mb
  proof -
    obtain tail where "ingestPacket envb cfb src wire mb = handleCommand envb cfb src (makeCompoundMessage (msg # extra)) tail mb"
      using w(2) by blast
    moreover have "length (msg # extra) < 128"
      using assms(4) by simp
    ultimately show ?thesis
      using compound_arrives[OF _ assms(5), of envb cfb src tail mb] by simp
  qed
  then show ?thesis
    using w(1) by blast
qed

section \<open>How long packets are\<close>

text \<open>A delegate that keeps to the limit it is given, as memberlist asks it to.\<close>

definition honest_user :: "netenv \<Rightarrow> bool" where
  "honest_user env \<longleftrightarrow> (\<forall>k overhead limit. let msgs = ne_user env k overhead limit in
     msgs = [] \<or> sum_list (map (\<lambda>x. int (length x) + overhead) msgs) \<le> limit)"

lemma getBroadcasts_within:
  assumes "go_sort srt" "getBroadcasts message srt rm n overhead limit q = (q', sent, fin)"
  shows "sent = [] \<or> sum_list (map (\<lambda>x. int (length x) + overhead) sent) \<le> limit"
proof -
  obtain kept used where
    s: "send_all message overhead limit (retransmitLimit rm n) (rev q) 0 = (kept, used, sent, fin)"
    using assms by (rule getBroadcasts_elim)
  show ?thesis
    using send_all_budget[OF s] by (auto simp: add.commute)
qed

lemma ml_getBroadcasts_within:
  assumes "go_sort (ne_sort env)" "honest_user env" "ml_getBroadcasts env cf overhead limit m = (msgs, m1)"
  shows "msgs = [] \<or> sum_list (map (\<lambda>x. int (length x) + overhead) msgs) \<le> limit"
proof -
  obtain q toSend fin where
    g: "getBroadcasts mb_Message (ne_sort env) (cf_RetransmitMult cf) (estNumNodes m) overhead limit (ml_broadcasts m) = (q, toSend, fin)"
    by (rule prod_cases3)
  let ?used = "sum_list (map (\<lambda>x. int (length x) + overhead) toSend)"
  let ?user = "ne_user env (length (ml_out m1)) (overhead + userMsgOverhead) (limit - ?used)"
  have own: "toSend = [] \<or> ?used \<le> limit"
    by (rule getBroadcasts_within[OF assms(1) g])
  consider "msgs = toSend" | "msgs = toSend @ map frame_user ?user" "?user \<noteq> []"
    using assms(3) unfolding ml_getBroadcasts_def g by (auto simp: Let_def split: if_splits)
  then show ?thesis
  proof cases
    case 2
    have "sum_list (map (\<lambda>x. int (length x) + overhead) (map frame_user ?user)) =
        sum_list (map (\<lambda>x. int (length x) + (overhead + userMsgOverhead)) ?user)"
      by (simp add: frame_user_def comp_def userMsgOverhead_def ac_simps)
    also have "\<dots> \<le> limit - ?used"
      using assms(2) 2(2) unfolding honest_user_def Let_def by blast
    finally show ?thesis
      by (simp add: 2(1))
  qed (use own in simp)
qed

lemma length_compound: "length (makeCompoundMessage msgs) = 2 + sum_list (map (\<lambda>x. length x + 2) msgs)"
proof -
  have "length (concat (map (\<lambda>m. be16 (length m mod 65536)) msgs)) = 2 * length msgs"
    by (rule length_be16_table)
  moreover have "length (concat msgs) + 2 * length msgs = sum_list (map (\<lambda>x. length x + 2) msgs)"
    by (induction msgs) auto
  ultimately show ?thesis
    by (simp add: makeCompoundMessage_def)
qed

lemma int_sum_list: "int (sum_list xs) = sum_list (map int xs)"
  by (induction xs) auto

lemma emit_Nil: "emit [] m = m"
  by (simp add: emit_def)

lemma raw_emits: "\<exists>x. snd (rawSendMsgUDP env cf to pkt m) = emit x m"
proof -
  have "snd (rawSendMsgUDP env cf to pkt m) = m \<or> (\<exists>w. snd (rawSendMsgUDP env cf to pkt m) = emit [SendUDP to w] m)"
    by (auto simp: rawSendMsgUDP_def Let_def split: sum.split)
  then show ?thesis
    using emit_Nil by metis
qed

text \<open>What is left of 1400 bytes for the packet before it is encrypted.\<close>

lemma raw_length:
  assumes "rawSendMsgUDP env cf to pkt m = (err, m')" "aead (ne_seal env) opn" "\<forall>k. length (ne_nonce env k) = 12"
    "int (length pkt) \<le> bytes_avail cf + 2 + slack" "SendUDP to' wire \<in> set (drop (length (ml_out m)) (ml_out m'))"
  shows "int (length wire) \<le> 1400 + slack"
proof -
  let ?k = "length (ml_out m)"
  define msg1 where "msg1 = (if cf_EnableCompression cf then (case compressPayload env pkt of Inl _ \<Rightarrow> pkt
    | Inr buf \<Rightarrow> if length buf < length pkt then buf else pkt) else pkt)"
  have l: "length msg1 \<le> length pkt"
    by (auto simp: msg1_def split: sum.split)
  show ?thesis
  proof (cases "encryptionEnabled cf")
    case False
    then have "m' = emit [SendUDP to msg1] m"
      using assms(1) by (simp add: rawSendMsgUDP_def Let_def flip: msg1_def)
    then have "wire = msg1"
      using assms(5) by (simp add: emit_def)
    then show ?thesis
      using l assms(4) False by (simp add: bytes_avail_def net_consts)
  next
    case True
    obtain n where n: "encryptOverhead (encryptionVersion cf) = Returns n"
      "encryptedLength (encryptionVersion cf) (length msg1) \<le> length msg1 + n"
      using encryptedLength_le[OF encryptionVersion_le] by blast
    show ?thesis
    proof (cases "encryptPayload (ne_seal env) (ne_nonce env ?k) (encryptionVersion cf) (primary_of cf) msg1 [] []")
      case (Inl e)
      then have "m' = m"
        using assms(1) True by (simp add: rawSendMsgUDP_def Let_def flip: msg1_def)
      then show ?thesis
        using assms(5) by simp
    next
      case (Inr w)
      have "m' = emit [SendUDP to w] m"
        using assms(1) True Inr by (simp add: rawSendMsgUDP_def Let_def flip: msg1_def)
      then have "wire = w"
        using assms(5) by (simp add: emit_def)
      moreover have "length w = encryptedLength (encryptionVersion cf) (length msg1)"
        using encryptPayload_length[OF assms(2) _ encryptionVersion_le Inr] assms(3) by simp
      ultimately show ?thesis
        using n l assms(4) True by (simp add: bytes_avail_def net_consts)
    qed
  qed
qed

text \<open>
  A packet of \<open>sendMsg\<close> is at most two bytes longer than \<open>udpSendBuf\<close>: the message that
  takes the broadcasts along is not charged its own entry in the compound message.  (A packet of
  gossip, which has no such message, stays within it.)
\<close>

theorem packet_size:
  assumes "go_sort (ne_sort env)" "honest_user env" "aead (ne_seal env) opn" "\<forall>k. length (ne_nonce env k) = 12"
    "int (length msg) \<le> bytes_avail cf" "sendMsg env cf to msg m = (err, m')"
    "SendUDP to' wire \<in> set (drop (length (ml_out m)) (ml_out m'))"
  shows "int (length wire) \<le> udpSendBuf + 2"
proof -
  obtain extra m1 where g: "ml_getBroadcasts env cf compoundOverhead (bytes_avail cf - int (length msg)) m = (extra, m1)"
    by (rule prod.exhaust)
  obtain es where es: "ml_out m1 = ml_out m @ map mb_Finished es"
    using g unfolding ml_getBroadcasts_def by (auto simp: Let_def emit_def split: prod.splits if_splits)
  have within: "extra = [] \<or> sum_list (map (\<lambda>x. int (length x) + compoundOverhead) extra) \<le> bytes_avail cf - int (length msg)"
    by (rule ml_getBroadcasts_within[OF assms(1,2) g])
  have new: "SendUDP to' wire \<in> set (drop (length (ml_out m1)) (ml_out m'))" if em: "\<exists>x. m' = emit x m1"
  proof -
    obtain x where x: "ml_out m' = ml_out m1 @ x"
      using em by (auto simp: emit_def)
    have "SendUDP to' wire \<in> set (map mb_Finished es) \<union> set x"
      using assms(7) unfolding x es by simp
    then show ?thesis
      unfolding x by (auto simp: mb_Finished_def)
  qed
  note ex = raw_emits[of env cf to _ m1]
  show ?thesis
  proof (cases extra)
    case Nil
    then have s: "rawSendMsgUDP env cf to msg m1 = (err, m')"
      using assms(6) g by (simp add: sendMsg_def)
    have "int (length msg) \<le> bytes_avail cf + 2 + 0"
      using assms(5) by simp
    from raw_length[OF s assms(3,4) this new] ex[of msg] s show ?thesis
      by (simp add: net_consts)
  next
    case (Cons x xs)
    let ?pkt = "makeCompoundMessage (msg # extra)"
    have s: "rawSendMsgUDP env cf to ?pkt m1 = (err, m')"
      using assms(6) g Cons by (simp add: sendMsg_def)
    have "int (length ?pkt) = 2 + int (length msg) + 2 + sum_list (map (\<lambda>x. int (length x) + 2) extra)"
      by (simp add: length_compound int_sum_list comp_def add.commute)
    then have "int (length ?pkt) \<le> bytes_avail cf + 2 + 2"
      using within Cons by (simp add: net_consts)
    from raw_length[OF s assms(3,4) this new] ex[of ?pkt] s show ?thesis
      by (simp add: net_consts)
  qed
qed


section \<open>Streams\<close>

text \<open>What is written, before it is encrypted: compressed whenever that works, longer or not.\<close>

definition tcp_body :: "netenv \<Rightarrow> config \<Rightarrow> bytes \<Rightarrow> bytes" where
  "tcp_body env cf buf = (if cf_EnableCompression cf
     then (case compressPayload env buf of Inl _ \<Rightarrow> buf | Inr c \<Rightarrow> c) else buf)"

lemma tcp_arrives:
  assumes "linked env cf envb cfb" "t \<noteq> encryptMsg" "t \<noteq> compressMsg" "rawSendMsgTCP env cf (t # body) m = (None, m')"
    "length (tcp_body env cf (t # body)) + 45 \<le> maxPushStateBytes"
  shows "\<exists>wire fin'. m' = emit [SendTCP wire] m \<and> readTCP envb cfb wire fin = Returns (Inr (t, body, fin')) \<and>
    (fin' = fin \<or> fin' = EOF)"
proof -
  define buf1 where "buf1 = tcp_body env cf (t # body)"
  note buf1_body = this and buf1_def = this[unfolded tcp_body_def]
  have plain: "\<exists>t1 r fin'. buf1 = t1 # r \<and> t1 \<noteq> encryptMsg \<and>
      decompress_stream envb t1 r f = Returns (Inr (t, body, fin')) \<and> (fin' = f \<or> fin' = EOF)" for f
  proof (cases "cf_EnableCompression cf \<and> (\<exists>c. compressPayload env (t # body) = Inr c)")
    case True
    then obtain c where c: "compressPayload env (t # body) = Inr c" "buf1 = c"
      by (auto simp: buf1_def)
    obtain b where "c = compressMsg # b" "decompress_stream envb compressMsg b f = Returns (Inr (t, body, EOF))"
      using compress_undone[OF assms(1) c(1), of f] by auto
    then show ?thesis
      using c(2) by (auto simp: message_types)
  next
    case False
    then have "buf1 = t # body"
      by (auto simp: buf1_def split: sum.split)
    then show ?thesis
      using assms(2,3) by (simp add: decompress_stream_def)
  qed
  show ?thesis
  proof (cases "encryptionEnabled cf")
    case False
    have "m' = emit [SendTCP buf1] m"
      using assms(4) False by (auto simp: rawSendMsgTCP_def Let_def split_beta simp flip: buf1_def split: if_splits)
    moreover obtain t1 r fin' where "buf1 = t1 # r" "t1 \<noteq> encryptMsg"
      "decompress_stream envb t1 r fin = Returns (Inr (t, body, fin'))" "fin' = fin \<or> fin' = EOF"
      using plain[of fin] by blast
    ultimately show ?thesis
      using False linkedD(5)[OF assms(1)] by (intro exI[of _ buf1]) (auto simp: readTCP_def)
  next
    case True
    note key = linkedD(6)[OF assms(1) True]
    obtain rest where ring: "keys_of cfb = primary_of cf # rest"
      using linkedD(7)[OF assms(1) True] by blast
    let ?vsn = "encryptionVersion cf" and ?k = "length (ml_out m)"
    define hdr where "hdr = be32 (encryptedLength ?vsn (length buf1) mod 2 ^ 32)"
    obtain w where w: "encryptPayload (ne_seal env) (ne_nonce env ?k) ?vsn (primary_of cf) buf1 (encryptMsg # hdr) (encryptMsg # hdr) = Inr w"
      by (simp add: encryptPayload_eq[OF key linkedD(4)[OF assms(1)]])
    have "take 5 (encryptMsg # hdr) = encryptMsg # hdr"
      by (simp add: hdr_def be32_def)
    then have e: "encryptLocalState env cf ?k buf1 = Inr w"
      using w by (simp add: encryptLocalState_def Let_def hdr_def)
    have out: "m' = emit [SendTCP w] m"
      using assms(4) True e by (auto simp: rawSendMsgTCP_def Let_def split_beta simp flip: buf1_def split: if_splits)
    obtain c where c: "w = encryptMsg # hdr @ c" "length c = encryptedLength ?vsn (length buf1)"
      "decryptPayload (ne_open envb) (keys_of cfb) c (encryptMsg # hdr) = Returns (Inr buf1)"
      using decrypt_encrypted[OF linkedD(3)[OF assms(1)] key linkedD(4)[OF assms(1)] encryptionVersion_le w, of "[]" rest]
      by (auto simp: ring)
    have small: "length c \<le> maxPushStateBytes"
      using encryptedLength_le[OF encryptionVersion_le[of cf], of "length buf1"] assms(5)[folded buf1_body] c(2)
      by (auto simp: encryptOverhead_def split: if_splits)
    have be: "be_nat32 hdr = length c"
      using small by (simp add: hdr_def be_nat32_be32 c(2) maxPushStateBytes_def)
    have "decryptRemoteState envb cfb (hdr @ c) fin = Returns (Inr buf1)"
      using small c(3) be length_be32 by (simp add: decryptRemoteState_def copyN_def hdr_def Let_def)
    moreover obtain t1 r fin' where "buf1 = t1 # r" "decompress_stream envb t1 r EOF = Returns (Inr (t, body, fin'))" "fin' = EOF"
      using plain[of EOF] by blast
    ultimately show ?thesis
      using out c(1) True linkedD(5)[OF assms(1)] by (intro exI[of _ w]) (auto simp: readTCP_def)
  qed
qed

lemma decode_nodes_encoded:
  "\<forall>n\<in>set ns. wf_struct (push_struct n) \<Longrightarrow>
   decode_nodes (length ns) (concat (map (\<lambda>n. encodeStruct (push_struct n)) ns) @ r) = Some (ns, r)"
proof (induction ns)
  case (Cons n ns)
  have "dec_next struct_push zero_push (encodeStruct (push_struct n) @ (concat (map (\<lambda>n. encodeStruct (push_struct n)) ns) @ r)) =
      Some (n, concat (map (\<lambda>n. encodeStruct (push_struct n)) ns) @ r)"
    using Cons.prems by (intro dec_encode(9)) simp_all
  then show ?case
    using Cons by simp
qed simp

text \<open>The node states that a peer can read back.\<close>

definition sendable :: "nodeState \<Rightarrow> bool" where
  "sendable st \<longleftrightarrow> fits (Name st) \<and> fits (Addr st) \<and> fits (Meta st)"

lemma wf_push_of: "sendable st \<Longrightarrow> wf_struct (push_struct (push_of st))"
  by (simp add: sendable_def wf_structs push_of_def versions_of_def fits_int_def fits_def state_code_def
      split: nodeStateType.split)

lemma state_read:
  assumes "linked env cf envb cfb" "sendLocalState env cf join m = (None, m')"
    "\<forall>p\<in>set (ml_nodes m). sendable (deref m p)" "user = (if cf_Delegate cf then ne_local env join else [])"
    "int (length (ml_nodes m)) \<le> ne_nodes_room envb" "ne_nodes_room envb < 2 ^ 63"
    "int (length user) \<le> ne_room envb" "ne_room envb < 2 ^ 63"
    "length (tcp_body env cf (local_state env cf join m)) + 45 \<le> maxPushStateBytes"
  shows "\<exists>wire buf fin'. m' = emit [SendTCP wire] m \<and>
    readTCP envb cfb wire fin = Returns (Inr (pushPullMsg, buf, fin')) \<and>
    readRemoteState envb cfb buf fin' =
      Returns (Inr (join, map (\<lambda>p. fix_port cfb (push_of (deref m p))) (ml_nodes m), user))"
proof -
  let ?nodes = "map (\<lambda>p. push_of (deref m p)) (ml_nodes m)"
  let ?h = "\<lparr>pp_Nodes = int (length ?nodes), pp_UserStateLen = int (length user), pp_Join = join\<rparr>"
  let ?rest = "concat (map (\<lambda>n. encodeStruct (push_struct n)) ?nodes) @ user"
  let ?body = "encodeStruct (header_struct ?h) @ ?rest"
  have ls: "local_state env cf join m = pushPullMsg # ?body"
    by (simp add: local_state_def Let_def assms(4) comp_def)
  have t: "pushPullMsg \<noteq> encryptMsg" "pushPullMsg \<noteq> compressMsg"
    by (simp_all add: message_types)
  obtain wire fin' where w: "m' = emit [SendTCP wire] m" "readTCP envb cfb wire fin = Returns (Inr (pushPullMsg, ?body, fin'))"
    using tcp_arrives[OF assms(1) t assms(2)[unfolded sendLocalState_def ls] assms(9)[unfolded ls]]
    by blast
  have h: "dec_next struct_header zero_header ?body = Some (?h, ?rest)"
    using assms(5-8) by (intro dec_header) (simp_all add: fits_int_def)
  have "\<forall>n\<in>set ?nodes. wf_struct (push_struct n)"
    using assms(3) wf_push_of by auto
  from decode_nodes_encoded[OF this, of user]
  have n: "decode_nodes (nat (pp_Nodes ?h)) ?rest = Some (?nodes, user)"
    by simp
  have "readRemoteState envb cfb ?body fin' = Returns (Inr (join, map (fix_port cfb) ?nodes, user))"
    unfolding readRemoteState_def h option.case prod.case n using assms(5,7)
    by (simp add: Let_def readFull_def)
  then show ?thesis
    using w by (intro exI[of _ wire] exI[of _ ?body] exI[of _ fin']) (simp add: comp_def)
qed

text \<open>
  C26: a node that takes in the state another one sent, over the stream compressed and
  encrypted as configured, reads the join flag, every node with its address, incarnation, state and
  versions, and the delegate's data, as they were sent.  What is written, whether compression made it
  shorter or longer, must keep to the limit of \<open>maxPushStateBytes\<close>, which only the receiver checks
  (45 bytes is what encryption adds at most).
\<close>

theorem state_exchange:
  assumes "linked env cf envb cfb" "sendLocalState env cf join m = (None, m')"
    "\<forall>p\<in>set (ml_nodes m). sendable (deref m p)" "user = (if cf_Delegate cf then ne_local env join else [])"
    "int (length (ml_nodes m)) \<le> ne_nodes_room envb" "ne_nodes_room envb < 2 ^ 63"
    "int (length user) \<le> ne_room envb" "ne_room envb < 2 ^ 63"
    "length (tcp_body env cf (local_state env cf join m)) + 45 \<le> maxPushStateBytes"
  shows "\<exists>wire buf fin'. m' = emit [SendTCP wire] m \<and>
    readTCP envb cfb wire fin = Returns (Inr (pushPullMsg, buf, fin')) \<and>
    readRemoteState envb cfb buf fin' =
      Returns (Inr (join, map (\<lambda>p. fix_port cfb (push_of (deref m p))) (ml_nodes m), user))"
  by (rule state_read[OF assms])

section \<open>Samples\<close>

lemma env_a_simps: "ne_lzw env_a x = Inl (ErrMsg ''lzw'')" "ne_udp env_a k = None" "ne_write env_a b = (length b, None)"
  "ne_user env_a k overhead limit = []" "ne_local env_a join = [42]"
  by (simp_all add: env_a_def)

lemma linked_a: "linked env_a cfg_a env_a cfg_a"
  using aead_toy by (simp add: linked_def env_a_def sample_nonce_def)

lemma broadcasts_a: "ml_getBroadcasts env_a cfg_a overhead limit ml_a = ([], ml_a)"
proof -
  have "ml_broadcasts ml_a = []" "ne_user env_a k overhead limit = []" for k overhead limit
    by (simp_all add: ml_a_def ml_with_def env_a_def)
  then show ?thesis
    by (simp add: ml_getBroadcasts_def getBroadcasts_def emit_def Let_def)
qed

lemma packet_arrives_witness:
  "\<exists>m' wire. sendMsg env_a cfg_a ([127, 0, 0, 1], 7946) [userMsg, 1] ml_a = (None, m') \<and>
    m' = emit [SendUDP ([127, 0, 0, 1], 7946) wire] ml_a \<and>
    (\<forall>src mb. \<exists>parts. map fst parts = [[userMsg, 1]] \<and>
       ingestPacket env_a cfg_a src wire mb = run_of (handle_all env_a cfg_a src parts mb))"
proof -
  have s: "\<exists>m'. sendMsg env_a cfg_a ([127, 0, 0, 1], 7946) [userMsg, 1] ml_a = (None, m')"
    by (simp add: sendMsg_def broadcasts_a rawSendMsgUDP_def compressPayload_def Let_def env_a_simps)
  then obtain m' where m': "sendMsg env_a cfg_a ([127, 0, 0, 1], 7946) [userMsg, 1] ml_a = (None, m')" ..
  from packet_arrives[OF linked_a m' broadcasts_a] show ?thesis
    using m' by simp
qed

definition env_full :: netenv where
  "env_full = env_a\<lparr>ne_user := (\<lambda>_ overhead limit. if overhead \<le> limit then [replicate (nat (limit - overhead)) 0] else [])\<rparr>"

lemma packet_size_witness:
  "\<exists>m' wire. sendMsg env_full cfg_a ([127, 0, 0, 1], 7946) [userMsg, 1] ml_a = (None, m') \<and>
    SendUDP ([127, 0, 0, 1], 7946) wire \<in> set (drop (length (ml_out ml_a)) (ml_out m')) \<and>
    int (length wire) = udpSendBuf + 2 \<and> int (length wire) \<le> udpSendBuf + 2"
proof -
  let ?to = "([127, 0, 0, 1], 7946)" and ?user = "[frame_user (replicate 1393 0)]"
  have av: "bytes_avail cfg_a = 1398"
    by (simp add: bytes_avail_def net_consts)
  have g: "ml_getBroadcasts env_full cfg_a compoundOverhead (bytes_avail cfg_a - int (length [userMsg, 1])) ml_a = (?user, ml_a)"
    unfolding av by (simp add: ml_getBroadcasts_def getBroadcasts_def ml_a_def ml_with_def env_full_def env_a_def
        emit_def net_consts cfg_a_def del: replicate.simps)
  let ?pkt = "makeCompoundMessage ([userMsg, 1] # ?user)"
  have s: "sendMsg env_full cfg_a ?to [userMsg, 1] ml_a = (None, emit [SendUDP ?to ?pkt] ml_a)"
    unfolding sendMsg_def Let_def g
    by (simp add: rawSendMsgUDP_def compressPayload_def Let_def) (simp add: env_full_def env_a_def)
  have l: "length ?pkt = 1402"
    by (simp add: length_compound frame_user_def)
  have new: "SendUDP ?to ?pkt \<in> set (drop (length (ml_out ml_a)) (ml_out (emit [SendUDP ?to ?pkt] ml_a)))"
    by (simp add: emit_def)
  have "go_sort (ne_sort env_full)" "honest_user env_full" "aead (ne_seal env_full) toy_open"
    "\<forall>k. length (ne_nonce env_full k) = 12" "int (length [userMsg, 1]) \<le> bytes_avail cfg_a"
    using aead_toy by (simp_all add: env_full_def env_a_def go_sort_by_transmits honest_user_def Let_def sample_nonce_def av)
  from packet_size[OF this s new] show ?thesis
    using s new l by (intro exI[of _ "emit [SendUDP ?to ?pkt] ml_a"] exI[of _ ?pkt]) (simp add: net_consts)
qed

text \<open>
  A node that encrypts and whose compressor works, here one that stores its input, so that every stream
  becomes longer.
\<close>

definition env_z :: netenv where
  "env_z = env_a\<lparr>ne_lzw := (\<lambda>x. if fits x then Inr x else Inl EOF), ne_unlzw := Inr\<rparr>"

definition cfg_z :: config where
  "cfg_z = cfg_a\<lparr>cf_Keyring := Some [sample_key]\<rparr>"

lemma z_simps: "encryptionEnabled cfg_z" "primary_of cfg_z = sample_key" "keys_of cfg_z = [sample_key]"
  "cf_Delegate cfg_z" "cf_EnableCompression cfg_z" "ne_local env_z join = [42]" "ne_room env_z = 2 ^ 31"
  "ne_nodes_room env_z = 2 ^ 24" "ne_write env_z b = (length b, None)" "ne_nonce env_z k = sample_nonce"
  by (simp_all add: cfg_z_def cfg_a_def env_z_def env_a_def encryptionEnabled_def primary_of_def keys_of_def
      getKeys_def getPrimaryKey_def)

lemma linked_z: "linked env_z cfg_z env_z cfg_z"
  using aead_toy by (simp add: linked_def z_simps) (simp add: env_z_def env_a_def sample_nonce_def sample_key_def)

lemma compress_z: "fits x \<Longrightarrow> compressPayload env_z x = Inr (encode compressMsg (compress_struct \<lparr>co_Algo = lzwAlgo, co_Buf = x\<rparr>))"
  by (simp add: compressPayload_def env_z_def)

lemma tcp_body_z:
  assumes "length x \<le> 400"
  shows "length (tcp_body env_z cfg_z x) \<le> length x + 50"
proof -
  have "fits x"
    using assms by (simp add: fits_def)
  then have "tcp_body env_z cfg_z x = encode compressMsg (compress_struct \<lparr>co_Algo = lzwAlgo, co_Buf = x\<rparr>)"
    by (simp add: tcp_body_def z_simps compress_z)
  also have "length \<dots> \<le> length x + 50"
    by (simp add: encode_def compress_struct_def encodeStruct_def sfi_def nilable_def encodeInt_def encodeUint_def
        writeContainerLen_def containers encodeString_def encodeStringBytes_def encodeNil_def lzwAlgo_def)
  finally show ?thesis .
qed

lemma rawSendMsgTCP_z: "rawSendMsgTCP env_z cfg_z buf m = (None, snd (rawSendMsgTCP env_z cfg_z buf m))"
proof -
  have k: "length sample_key = 16" "length sample_nonce = 12"
    by (simp_all add: sample_key_def sample_nonce_def)
  show ?thesis
    by (simp add: rawSendMsgTCP_def Let_def encryptLocalState_def z_simps encryptPayload_eq[OF k] split: sum.split)
qed

lemma state_z:
  "length (tcp_body env_z cfg_z (local_state env_z cfg_z True ml_a)) + 45 \<le> maxPushStateBytes"
  "sendLocalState env_z cfg_z True ml_a = (None, snd (sendLocalState env_z cfg_z True ml_a))"
  "\<forall>p\<in>set (ml_nodes ml_a). sendable (deref ml_a p)"
  "(if cf_Delegate cfg_z then ne_local env_z True else []) = [42]"
  "int (length (ml_nodes ml_a)) \<le> ne_nodes_room env_z" "ne_nodes_room env_z < 2 ^ 63"
  "int (length [42 :: byte]) \<le> ne_room env_z" "ne_room env_z < 2 ^ 63"
proof -
  have l: "length (local_state env_z cfg_z True ml_a) \<le> 400"
  proof -
    have h: "length (encodeStruct (header_struct \<lparr>pp_Nodes = 2, pp_UserStateLen = 1, pp_Join = True\<rparr>)) \<le> 100"
      by (simp add: encodeStruct_def header_struct_def sfi_def encodeInt_def encodeUint_def writeContainerLen_def
          containers encodeString_def encodeBool_def)
    have n: "length (encodeStruct (push_struct (push_of (state_b ''a'' 1 stateAlive)))) \<le> 100"
      "length (encodeStruct (push_struct (push_of (state_b ''b'' 3 stateAlive)))) \<le> 100"
      by (simp_all add: push_struct_def push_of_def nilable_def encodeStruct_def sfi_def encodeInt_def encodeUint_def
          writeContainerLen_def containers encodeString_def encodeBool_def encodeStringBytes_def encodeNil_def
          state_code_def versions_of_def)
    have "map (\<lambda>p. push_of (deref ml_a p)) (ml_nodes ml_a) =
        [push_of (state_b ''a'' 1 stateAlive), push_of (state_b ''b'' 3 stateAlive)]"
      by (simp add: ml_a_def ml_with_def deref_def)
    then show ?thesis
      using h n by (simp add: local_state_def Let_def z_simps)
  qed
  show "sendLocalState env_z cfg_z True ml_a = (None, snd (sendLocalState env_z cfg_z True ml_a))"
    unfolding sendLocalState_def by (rule rawSendMsgTCP_z)
  show "\<forall>p\<in>set (ml_nodes ml_a). sendable (deref ml_a p)"
    by (auto simp: ml_a_def ml_with_def deref_def sendable_def fits_def less_Suc_eq)
  show "(if cf_Delegate cfg_z then ne_local env_z True else []) = [42]"
    by (simp add: z_simps)
  show "int (length (ml_nodes ml_a)) \<le> ne_nodes_room env_z" "ne_nodes_room env_z < 2 ^ 63"
    "int (length [42 :: byte]) \<le> ne_room env_z" "ne_room env_z < 2 ^ 63"
    by (simp_all add: ml_a_def ml_with_def z_simps)
  show "length (tcp_body env_z cfg_z (local_state env_z cfg_z True ml_a)) + 45 \<le> maxPushStateBytes"
    using l tcp_body_z[OF l] by (simp add: maxPushStateBytes_def)
qed

lemma state_exchange_witness:
  "\<exists>wire buf fin'. snd (sendLocalState env_z cfg_z True ml_a) = emit [SendTCP wire] ml_a \<and>
    readTCP env_z cfg_z wire EOF = Returns (Inr (pushPullMsg, buf, fin')) \<and>
    readRemoteState env_z cfg_z buf fin' =
      Returns (Inr (True, map (\<lambda>p. fix_port cfg_z (push_of (deref ml_a p))) (ml_nodes ml_a), [42]))"
  using state_exchange[OF linked_z state_z(2,3) state_z(4)[symmetric] state_z(5-8,1), of EOF] .

end
