(* ===== verification/Probe.thy ===== *)
theory Probe
  imports NetProps
begin

text \<open>
  What memberlist does on its own (\<open>state.go\<close>): the triggers, probing a node, gossip to random
  nodes, the periodic exchange of states.
\<close>

section \<open>Triggers\<close>

text \<open>A new channel: its number is above all in use.\<close>

definition new_channel :: "memberlist \<Rightarrow> nat" where
  "new_channel m = Suc (foldr max (map fst (ml_triggers m)) (ml_stopTick m))"

definition schedule :: "config \<Rightarrow> memberlist \<Rightarrow> memberlist" where
  "schedule cf m =
     (if 0 < length (ml_tickers m) then m
      else
        let stopCh = new_channel m;
            probing = (if 0 < cf_ProbeInterval cf then [ProbeTrigger] else []);
            pushing = (if 0 < cf_PushPullInterval cf then [PushPullTrigger] else []);
            gossiping = (if 0 < cf_GossipInterval cf \<and> 0 < cf_GossipNodes cf then [GossipTrigger] else []);
            tickers = probing @ gossiping
        in m\<lparr>ml_triggers := ml_triggers m @ map (\<lambda>t. (stopCh, t)) (probing @ pushing @ gossiping),
             ml_tickers := tickers,
             ml_stopTick := (if 0 < length tickers then stopCh else ml_stopTick m)\<rparr>)"

definition deschedule :: "memberlist \<Rightarrow> memberlist" where
  "deschedule m =
     (if length (ml_tickers m) = 0 then m
      else m\<lparr>ml_triggers := filter (\<lambda>(c, t). c \<noteq> ml_stopTick m) (ml_triggers m), ml_tickers := []\<rparr>)"

section \<open>Choosing the node to probe\<close>

text \<open>
  The loop of \<open>probe\<close>, \<open>numCheck\<close> nodes in.  \<open>js\<close> are the swaps of the shuffles, should there be any.
\<close>

lemma length_resetNodes: "length (ml_nodes (resetNodes j m)) \<le> length (ml_nodes m)"
proof -
  obtain ns k where mv: "moveDeadNodes (deref m) (ml_nodes m) = (ns, k)"
    by (rule prod.exhaust)
  have "mset ns = mset (ml_nodes m)"
    using move_dead_spec[OF mv[unfolded moveDeadNodes_def]] by force
  then have "length ns = length (ml_nodes m)"
    by (rule mset_eq_length)
  moreover have "length (fold (\<lambda>i ns. swap i (j i) ns) is (xs :: nat list)) = length xs" for "is" xs
    by (induction "is" arbitrary: xs) (simp_all add: swap_def)
  ultimately show ?thesis
    by (simp add: resetNodes_def mv shuffleNodes_def)
qed

function probe_next :: "config \<Rightarrow> (nat \<Rightarrow> nat \<Rightarrow> nat) \<Rightarrow> nat \<Rightarrow> memberlist \<Rightarrow> nodeState option \<times> memberlist" where
  "probe_next cf js numCheck m =
     (if length (ml_nodes m) \<le> numCheck then (None, m)
      else if length (ml_nodes m) \<le> ml_probeIndex m
      then probe_next cf js (numCheck + 1) ((resetNodes (js numCheck) m)\<lparr>ml_probeIndex := 0\<rparr>)
      else
        let node = deref m (ml_nodes m ! ml_probeIndex m);
            skip = (Name node = cf_Name cf \<or> State node = stateDead);
            m1 = m\<lparr>ml_probeIndex := ml_probeIndex m + 1\<rparr>
        in if skip then probe_next cf js (numCheck + 1) m1 else (Some node, m1))"
  by pat_completeness auto
termination
  by (relation "measure (\<lambda>(cf, js, numCheck, m). length (ml_nodes m) - numCheck)")
    (auto intro!: diff_less_mono2 le_less_trans[OF diff_le_mono[OF length_resetNodes]])

declare probe_next.simps [simp del]

section \<open>Probing it\<close>

text \<open>The ping, under a new sequence number, with a channel for the ack.\<close>

definition probe_ping :: "u32 \<Rightarrow> nodeState \<Rightarrow> ping" where
  "probe_ping seqNo node = \<lparr>pi_SeqNo = seqNo, pi_Node = Name node\<rparr>"

definition probe_start :: "netenv \<Rightarrow> config \<Rightarrow> nodeState \<Rightarrow> memberlist \<Rightarrow> u32 \<times> goerr option \<times> memberlist" where
  "probe_start env cf node m =
     (let (seqNo, m1) = nextSeqNo m;
          m2 = setAckChannel seqNo (unat seqNo) (cf_ProbeInterval cf) m1;
          (err, m3) = encodeAndSendMsg env cf (Addr node, Port node) pingMsg (ping_struct (probe_ping seqNo node)) m2
      in (seqNo, err, m3))"

text \<open>
  The channel that \<open>setAckChannel\<close> attaches, as the messages that get into it with their times, counted
  from the ping.  \<open>ack\<close> is when the first ack with that number arrives, from the node itself or by way
  of another, and its payload.  An ack before the timer of \<open>ProbeInterval\<close> runs out removes the handler
  and stops the timer; otherwise the timer removes the handler and sends an incomplete message, and
  acks after that find no handler.  The channel has room for every message.
\<close>

record ackMessage =
  am_Complete :: bool
  am_Payload :: bytes

type_synonym ackChan = "(int \<times> ackMessage) list"

definition ack_channel :: "int \<Rightarrow> (int \<times> bytes) option \<Rightarrow> ackChan" where
  "ack_channel timeout ack =
     (case ack of
        Some (t, payload) \<Rightarrow>
          if t < timeout then [(t, \<lparr>am_Complete = True, am_Payload = payload\<rparr>)]
          else [(timeout, \<lparr>am_Complete = False, am_Payload = []\<rparr>)]
      | None \<Rightarrow> [(timeout, \<lparr>am_Complete = False, am_Payload = []\<rparr>)])"

text \<open>
  The first wait, for a message or \<open>ProbeTimeout\<close>: when it is over, the message received, if any, and
  the channel as it is then.  An incomplete message is put back.
\<close>

definition first_wait :: "config \<Rightarrow> ackChan \<Rightarrow> int \<times> ackMessage option \<times> ackChan" where
  "first_wait cf ackCh =
     (case ackCh of
        [] \<Rightarrow> (cf_ProbeTimeout cf, None, [])
      | (t, v) # rest \<Rightarrow>
          if t < cf_ProbeTimeout cf
          then (t, Some v, if am_Complete v = False then rest @ [(t, v)] else rest)
          else (cf_ProbeTimeout cf, None, ackCh))"

text \<open>Asking other nodes to ping it.\<close>

definition probe_indirect :: "netenv \<Rightarrow> config \<Rightarrow> u32 list \<Rightarrow> u32 \<Rightarrow> nodeState \<Rightarrow> memberlist \<Rightarrow> memberlist" where
  "probe_indirect env cf draws seqNo node m =
     (let kNodes = kRandomNodes (deref m) (cf_IndirectChecks cf) [cf_Name cf, Name node] draws (ml_nodes m);
          ind = \<lparr>ip_SeqNo = seqNo, ip_Target = Addr node, ip_Port = Port node, ip_Node = Name node\<rparr>
      in fold (\<lambda>p m. snd (encodeAndSendMsg env cf (Addr (deref m p), Port (deref m p)) indirectPingMsg (indirect_struct ind) m))
           kNodes m)"

text \<open>
  The attempt over TCP, begun at \<open>now\<close>: the deadline is \<open>ProbeInterval\<close> after the ping, and dialling fails
  once it has passed, as the documentation of \<open>net.Dialer\<close> has it; before, \<open>dial\<close> is the outcome.
\<close>

definition dial_until :: "int \<Rightarrow> int \<Rightarrow> goerr option \<Rightarrow> goerr option" where
  "dial_until deadline now dial = (if deadline \<le> now then Some (ErrMsg ''i/o timeout'') else dial)"

definition probe_fallback ::
  "netenv \<Rightarrow> config \<Rightarrow> u32 \<Rightarrow> int \<Rightarrow> goerr option \<Rightarrow> bytes \<Rightarrow> goerr \<Rightarrow> nodeState \<Rightarrow> memberlist \<Rightarrow>
   (bool \<times> memberlist) outcome" where
  "probe_fallback env cf seqNo now dial conn fin node m =
     (if 3 \<le> protocolVersion cf \<and> 3 \<le> PMax node then
        (case sendPingAndWaitForAck env cf (dial_until (cf_ProbeInterval cf) now dial) conn fin (probe_ping seqNo node) m of
              Panics \<Rightarrow> Panics
            | Returns ((didContact, err), m1) \<Rightarrow> Returns (err = None \<and> didContact, m1))
      else Returns (False, m))"

text \<open>
  \<open>others1\<close> and \<open>others2\<close> are what the rest of the program does meanwhile.  The second wait is a receive
  without a timeout: on a channel that stays empty it never ends.
\<close>

definition probeNode ::
  "netenv \<Rightarrow> config \<Rightarrow> u32 list \<Rightarrow> (int \<times> bytes) option \<Rightarrow> goerr option \<Rightarrow> bytes \<Rightarrow> goerr \<Rightarrow>
   (memberlist \<Rightarrow> memberlist) \<Rightarrow> (memberlist \<Rightarrow> memberlist) \<Rightarrow> nodeState \<Rightarrow> memberlist \<Rightarrow> memberlist run" where
  "probeNode env cf draws ack dial conn fin others1 others2 node m =
     (case probe_start env cf node m of (seqNo, err, m1) \<Rightarrow>
        if err \<noteq> None then Done m1
        else
          let m2 = others1 m1;
              (now, got, ackCh) = first_wait cf (ack_channel (cf_ProbeInterval cf) ack)
          in if (case got of Some v \<Rightarrow> am_Complete v | None \<Rightarrow> False)
             then Done (if cf_Ping cf \<noteq> None
                        then emit [PingComplete (node_of node) (case got of Some v \<Rightarrow> am_Payload v | None \<Rightarrow> [])] m2 else m2)
             else
                 (case probe_fallback env cf seqNo now dial conn fin node (probe_indirect env cf draws seqNo node m2) of
                    Panics \<Rightarrow> Panic
                  | Returns (didContact, m3) \<Rightarrow>
                      let m4 = others2 m3
                      in (case ackCh of
                            [] \<Rightarrow> Hang
                          | (_, v) # _ \<Rightarrow>
                              if am_Complete v then Done m4
                              else if didContact then Done m4
                              else suspectNode cf (ne_now env)
                                \<lparr>su_Incarnation = Incarnation node, su_Node = Name node, su_From = cf_Name cf\<rparr> m4)))"

definition probe ::
  "netenv \<Rightarrow> config \<Rightarrow> (nat \<Rightarrow> nat \<Rightarrow> nat) \<Rightarrow> u32 list \<Rightarrow> (int \<times> bytes) option \<Rightarrow> goerr option \<Rightarrow> bytes \<Rightarrow> goerr \<Rightarrow>
   (memberlist \<Rightarrow> memberlist) \<Rightarrow> (memberlist \<Rightarrow> memberlist) \<Rightarrow> memberlist \<Rightarrow> memberlist run" where
  "probe env cf js draws ack dial conn fin others1 others2 m =
     (case probe_next cf js 0 m of
        (None, m1) \<Rightarrow> Done m1
      | (Some node, m1) \<Rightarrow> probeNode env cf draws ack dial conn fin others1 others2 node m1)"

section \<open>Gossip and push/pull\<close>

fun gossip_to :: "netenv \<Rightarrow> config \<Rightarrow> nat list \<Rightarrow> memberlist \<Rightarrow> memberlist" where
  "gossip_to env cf [] m = m"
| "gossip_to env cf (p # kNodes) m =
     (let (msgs, m1) = ml_getBroadcasts env cf compoundOverhead (bytes_avail cf) m
      in if length msgs = 0 then m1
         else gossip_to env cf kNodes
           (snd (rawSendMsgUDP env cf (Addr (deref m1 p), Port (deref m1 p)) (makeCompoundMessage msgs) m1)))"

definition gossip :: "netenv \<Rightarrow> config \<Rightarrow> u32 list \<Rightarrow> memberlist \<Rightarrow> memberlist" where
  "gossip env cf draws m =
     gossip_to env cf (kRandomNodes (deref m) (cf_GossipNodes cf) [cf_Name cf] draws (ml_nodes m)) m"

definition pushPull :: "netenv \<Rightarrow> config \<Rightarrow> u32 list \<Rightarrow> goerr option \<Rightarrow> bytes \<Rightarrow> goerr \<Rightarrow> memberlist \<Rightarrow> memberlist run" where
  "pushPull env cf draws dial conn fin m =
     (case kRandomNodes (deref m) 1 [cf_Name cf] draws (ml_nodes m) of
        [] \<Rightarrow> Done m
      | node # _ \<Rightarrow> and_then (pushPullNode env cf dial conn fin False m) (\<lambda>(err, m1). Done m1))"

section \<open>Properties\<close>

lemma new_channel_fresh: "(new_channel m, t) \<notin> set (ml_triggers m)"
proof
  assume "(new_channel m, t) \<in> set (ml_triggers m)"
  then have "new_channel m \<in> set (map fst (ml_triggers m))"
    by force
  moreover have "c \<in> set cs \<Longrightarrow> c \<le> foldr max cs d" for c d and cs :: "nat list"
    by (induction cs) auto
  ultimately show False
    unfolding new_channel_def by (metis not_less_eq_eq order_refl)
qed

text \<open>
  With a probe or a gossip ticker, scheduling again changes nothing and
  descheduling stops all that was started.  With push/pull alone, which has no ticker, every call
  starts another trigger that descheduling does not stop.
\<close>

theorem schedule_once:
  assumes "ml_tickers m = []"
  shows "(0 < cf_ProbeInterval cf \<or> 0 < cf_GossipInterval cf \<and> 0 < cf_GossipNodes cf \<longrightarrow>
      schedule cf (schedule cf m) = schedule cf m \<and>
      ml_triggers (deschedule (schedule cf m)) = ml_triggers m) \<and>
    (cf_ProbeInterval cf \<le> 0 \<and> cf_GossipNodes cf = 0 \<and> 0 < cf_PushPullInterval cf \<longrightarrow>
      length (ml_triggers (schedule cf (schedule cf m))) = length (ml_triggers m) + 2 \<and>
      deschedule (schedule cf m) = schedule cf m)"
proof (intro conjI impI)
  have f: "filter (\<lambda>(c, t). c \<noteq> new_channel m) (ml_triggers m) = ml_triggers m"
    using new_channel_fresh[of m] by (auto simp: filter_id_conv)
  assume "0 < cf_ProbeInterval cf \<or> 0 < cf_GossipInterval cf \<and> 0 < cf_GossipNodes cf"
  then show "schedule cf (schedule cf m) = schedule cf m"
    "ml_triggers (deschedule (schedule cf m)) = ml_triggers m"
    using assms f by (auto simp: schedule_def deschedule_def Let_def)
qed (use assms in \<open>auto simp: schedule_def deschedule_def Let_def\<close>)

lemma schedule_once_witness:
  "schedule cfg_a (schedule cfg_a ml_a) = schedule cfg_a ml_a \<and> ml_triggers (deschedule (schedule cfg_a ml_a)) = []"
proof -
  have "ml_tickers ml_a = []" "ml_triggers ml_a = []" "0 < cf_ProbeInterval cfg_a"
    by (simp_all add: ml_a_def ml_with_def cfg_a_def)
  then show ?thesis
    using schedule_once[of ml_a cfg_a] by simp
qed

end
