(* ===== verification/HostPort.thy ===== *)
theory HostPort
  imports GoStrconv Probe
begin

text \<open>
  Host names and ports: what the code uses of \<open>net.SplitHostPort\<close> and \<open>strconv\<close>, the \<open>splitHostPort\<close>
  of the server (\<open>server/util.go\<close>) and \<open>resolveAddr\<close> of memberlist.  Parsing an IP address and asking
  the resolver are inputs.
\<close>

section \<open>net.SplitHostPort\<close>

text \<open>The position of the first and of the last occurrence of a character.\<close>

fun index_of :: "char \<Rightarrow> string \<Rightarrow> nat option" where
  "index_of c [] = None"
| "index_of c (x # s) = (if x = c then Some 0 else map_option Suc (index_of c s))"

fun last_index :: "char \<Rightarrow> string \<Rightarrow> nat option" where
  "last_index c [] = None"
| "last_index c (x # s) =
     (case last_index c s of Some i \<Rightarrow> Some (Suc i) | None \<Rightarrow> if x = c then Some 0 else None)"

text \<open>An error is the reason and the address.\<close>

definition missing_port :: string where
  "missing_port = ''missing port in address''"

definition too_many_colons :: string where
  "too_many_colons = ''too many colons in address''"

definition check_brackets :: "string \<Rightarrow> string \<Rightarrow> nat \<Rightarrow> nat \<Rightarrow> nat \<Rightarrow> (string \<times> string) + (string \<times> string)" where
  "check_brackets hostport host j k i =
     (if CHR ''['' \<in> set (drop j hostport) then Inl (''unexpected '' @ [CHR 0x27] @ ''['' @ [CHR 0x27] @ '' in address'', hostport)
      else if CHR '']'' \<in> set (drop k hostport) then Inl (''unexpected '' @ [CHR 0x27] @ '']'' @ [CHR 0x27] @ '' in address'', hostport)
      else Inr (host, drop (i + 1) hostport))"

definition net_split :: "string \<Rightarrow> (string \<times> string) + (string \<times> string)" where
  "net_split hostport =
     (case last_index (CHR '':'') hostport of
        None \<Rightarrow> Inl (missing_port, hostport)
      | Some i \<Rightarrow>
          if hd hostport = CHR ''['' then
            (case index_of (CHR '']'') hostport of
               None \<Rightarrow> Inl (''missing '' @ [CHR 0x27] @ '']'' @ [CHR 0x27] @ '' in address'', hostport)
             | Some e \<Rightarrow>
                 if e + 1 = length hostport then Inl (missing_port, hostport)
                 else if e + 1 = i then check_brackets hostport (take (e - 1) (drop 1 hostport)) 1 (e + 1) i
                 else if hostport ! (e + 1) = CHR '':'' then Inl (too_many_colons, hostport)
                 else Inl (missing_port, hostport))
          else
            let host = take i hostport
            in if CHR '':'' \<in> set host then Inl (too_many_colons, hostport)
               else check_brackets hostport host 0 0 i)"

definition addr_error :: "string \<times> string \<Rightarrow> goerr" where
  "addr_error e = ErrMsg (if snd e \<noteq> [] then fst e @ '' '' @ snd e else fst e)"

section \<open>strconv\<close>

definition parse_uint16 :: "string \<Rightarrow> nat result" where
  "parse_uint16 s =
     (if s = [] \<or> \<not> list_all is_digit s then Inl (num_error ''ParseUint'' s ''invalid syntax'')
      else if 65535 < digits_val s then Inl (num_error ''ParseUint'' s ''value out of range'')
      else Inr (digits_val s))"

definition parse_int32 :: "string \<Rightarrow> int result" where
  "parse_int32 s =
     (let (neg, d) = split_sign s; v = (if neg then - int (digits_val d) else int (digits_val d))
      in if d = [] \<or> \<not> list_all is_digit d then Inl (num_error ''ParseInt'' s ''invalid syntax'')
         else if v < - (2 ^ 31) \<or> 2 ^ 31 \<le> v then Inl (num_error ''ParseInt'' s ''value out of range'')
         else Inr v)"

section \<open>The server's addresses\<close>

text \<open>\<open>lookup\<close> is \<open>net.LookupIP\<close>, which answers with at least one address or an error.\<close>

definition splitHostPort :: "(string \<Rightarrow> bytes list result) \<Rightarrow> string \<Rightarrow> int \<Rightarrow> (string \<times> int) result outcome" where
  "splitHostPort lookup hostport defaultPort =
     (let hp = (if CHR '':'' \<notin> set hostport then hostport @ '':'' @ format_int defaultPort else hostport)
      in case net_split hp of
           Inl err \<Rightarrow> Returns (Inl (addr_error err))
         | Inr (host, portStr) \<Rightarrow>
             (case lookup host of
                Inl err \<Rightarrow> Returns (Inl err)
              | Inr ips \<Rightarrow>
                  (case parse_int32 portStr of
                     Inl err \<Rightarrow> Panics
                   | Inr port \<Rightarrow> (case ips of [] \<Rightarrow> Panics | ip # _ \<Rightarrow> Returns (Inr (ip_string ip, port))))))"

section \<open>The addresses of a host to join\<close>

text \<open>\<open>parseIP\<close> is \<open>net.ParseIP\<close>.\<close>

definition resolveAddr ::
  "(string \<Rightarrow> bytes option) \<Rightarrow> (string \<Rightarrow> bytes list result) \<Rightarrow> config \<Rightarrow> string \<Rightarrow> (bytes list \<times> u16) result" where
  "resolveAddr parseIP lookup cf hostStr =
     (let hp = (case net_split hostStr of
                  Inl err \<Rightarrow>
                    if fst err = missing_port then Inr (hostStr, of_int (cf_BindPort cf)) else Inl (addr_error err)
                | Inr (host, sport) \<Rightarrow>
                    (case parse_uint16 sport of Inl err \<Rightarrow> Inl err | Inr lport \<Rightarrow> Inr (host, of_nat lport)))
      in case hp of
           Inl err \<Rightarrow> Inl err
         | Inr (host, port) \<Rightarrow>
             (case parseIP host of
                Some ip \<Rightarrow> Inr ([ip], port)
              | None \<Rightarrow> (case lookup host of Inl err \<Rightarrow> Inl err | Inr ips \<Rightarrow> Inr (ips, port))))"

section \<open>Lemmas\<close>

lemma last_index_Some:
  "c \<notin> set t \<Longrightarrow> last_index c (s @ c # t) = Some (length s)"
proof (induction s)
  case Nil
  have "c \<notin> set t \<Longrightarrow> last_index c t = None"
    by (induction t) auto
  then show ?case
    using Nil by simp
qed simp

lemma net_split_plain:
  assumes "CHR '':'' \<notin> set host" "CHR '':'' \<notin> set port"
    "CHR ''['' \<notin> set (host @ port)" "CHR '']'' \<notin> set (host @ port)"
  shows "net_split (host @ '':'' @ port) = Inr (host, port)"
proof -
  have i: "last_index (CHR '':'') (host @ CHR '':'' # port) = Some (length host)"
    by (rule last_index_Some[OF assms(2)])
  have "hd (host @ CHR '':'' # port) \<noteq> CHR ''[''"
    using assms(3) by (cases host) auto
  then show ?thesis
    using i assms by (simp add: net_split_def check_brackets_def)
qed

lemma format_int_digits: "0 \<le> p \<Longrightarrow> format_int p \<noteq> [] \<and> list_all is_digit (format_int p) \<and> digits_val (format_int p) = nat p"
  using dec_digits by (simp add: format_int_def list_all_iff)

lemma digits_plain:
  assumes "list_all is_digit s"
  shows "CHR '':'' \<notin> set s" "CHR ''['' \<notin> set s" "CHR '']'' \<notin> set s" "CHR ''-'' \<notin> set s" "CHR ''+'' \<notin> set s"
  using assms by (auto simp: list_all_iff is_digit_def)

lemma split_sign_digits: "list_all is_digit s \<Longrightarrow> split_sign s = (False, s)"
  using digits_plain(4,5)[of s] by (cases s rule: split_sign.cases) auto

lemma parse_int32_format:
  assumes "0 \<le> p" "p < 2 ^ 31"
  shows "parse_int32 (format_int p) = Inr p"
  using format_int_digits[OF assms(1)] assms
  by (simp add: parse_int32_def split_sign_digits)

text \<open>
  A host without a port gets the default port and one with a port keeps it,
  with the first address the host resolves to; the error of the resolver is passed on; a port that
  is no number makes the server panic.
\<close>

theorem splitHostPort_spec:
  assumes "CHR '':'' \<notin> set host" "CHR ''['' \<notin> set host" "CHR '']'' \<notin> set host"
    "0 \<le> p" "p < 2 ^ 31"
  shows "(lookup host = Inr (ip # ips) \<longrightarrow>
      splitHostPort lookup host p = Returns (Inr (ip_string ip, p)) \<and>
      splitHostPort lookup (host @ '':'' @ format_int p) q = Returns (Inr (ip_string ip, p)) \<and>
      splitHostPort lookup (host @ '':http'') q = Panics) \<and>
    (lookup host = Inl err \<longrightarrow>
      splitHostPort lookup host p = Returns (Inl err) \<and> splitHostPort lookup (host @ '':http'') q = Returns (Inl err))"
proof -
  note dg = format_int_digits[OF assms(4)]
  have port: "net_split (host @ CHR '':'' # format_int p) = Inr (host, format_int p)"
    using net_split_plain[of host "format_int p"] digits_plain[of "format_int p"] dg assms by simp
  have name: "net_split (host @ CHR '':'' # ''http'') = Inr (host, ''http'')"
    using net_split_plain[of host "''http''"] assms by simp
  have "parse_int32 ''http'' = Inl (num_error ''ParseInt'' ''http'' ''invalid syntax'')"
    by (simp add: parse_int32_def is_digit_def)
  then show ?thesis
    using port name parse_int32_format[OF assms(4,5)] assms(1) by (simp add: splitHostPort_def)
qed

theorem splitHostPort_spec_witness:
  "splitHostPort (\<lambda>h. Inr [[10, 0, 0, 1]]) ''db'' 9373 = Returns (Inr (ip_string [10, 0, 0, 1], 9373))"
  using splitHostPort_spec[of "''db''" 9373 "\<lambda>h. Inr [[10, 0, 0, 1]]" "[10, 0, 0, 1]" "[]"] by simp

end
