(* ===== verification/Base64.thy ===== *)
theory Base64
  imports HostPort
begin

text \<open>
  What the command line uses of \<open>encoding/base64\<close> and \<open>fmt\<close>: the standard encoding with padding, in
  which keys are given and printed, and the verb \<open>%f\<close>, in which values are.
\<close>

section \<open>The alphabet\<close>

definition b64_alphabet :: string where
  "b64_alphabet = ''ABCDEFGHIJKLMNOPQRSTUVWXYZabcdefghijklmnopqrstuvwxyz0123456789+/''"

definition b64_char :: "nat \<Rightarrow> char" where
  "b64_char n = b64_alphabet ! n"

definition sextet :: "char \<Rightarrow> nat option" where
  "sextet c = index_of c b64_alphabet"

definition b64_pad :: char where
  "b64_pad = CHR ''=''"

section \<open>Encoding\<close>

text \<open>Three bytes make a number of 24 bits, which four characters spell.\<close>

definition group24 :: "nat \<Rightarrow> nat \<Rightarrow> nat \<Rightarrow> nat" where
  "group24 x y z = (x * 256 + y) * 256 + z"

definition spell :: "nat \<Rightarrow> string" where
  "spell g = map (\<lambda>k. b64_char (g div 64 ^ k mod 64)) [3, 2, 1, 0]"

fun encodeToString :: "bytes \<Rightarrow> string" where
  "encodeToString [] = []"
| "encodeToString [x] = take 2 (spell (group24 (unat x) 0 0)) @ [b64_pad, b64_pad]"
| "encodeToString [x, y] = take 3 (spell (group24 (unat x) (unat y) 0)) @ [b64_pad]"
| "encodeToString (x # y # z # bs) = spell (group24 (unat x) (unat y) (unat z)) @ encodeToString bs"

section \<open>Decoding\<close>

text \<open>
  \<open>DecodeString\<close> drops line ends first; an error names the offset in what is left.  The characters are
  looked at in order: \<open>pos\<close> is the offset of the group.
\<close>

definition corrupt :: "nat \<Rightarrow> 'a result" where
  "corrupt pos = Inl (ErrMsg (''illegal base64 data at input byte '' @ dec pos))"

definition bytes_of24 :: "nat \<Rightarrow> bytes" where
  "bytes_of24 g = [of_nat (g div 65536 mod 256), of_nat (g div 256 mod 256), of_nat (g mod 256)]"

definition read24 :: "nat \<Rightarrow> nat \<Rightarrow> nat \<Rightarrow> nat \<Rightarrow> nat" where
  "read24 a b c d = ((a * 64 + b) * 64 + c) * 64 + d"

fun decode_groups :: "nat \<Rightarrow> string \<Rightarrow> bytes result" where
  "decode_groups pos [] = Inr []"
| "decode_groups pos [a] = corrupt pos"
| "decode_groups pos [a, b] =
     (if sextet a = None then corrupt pos
      else if sextet b = None then corrupt (pos + 1)
      else corrupt pos)"
| "decode_groups pos [a, b, c] =
     (if sextet a = None then corrupt pos
      else if sextet b = None then corrupt (pos + 1)
      else if c = b64_pad then corrupt (pos + 3)
      else if sextet c = None then corrupt (pos + 2)
      else corrupt pos)"
| "decode_groups pos (a # b # c # d # s) =
     (case sextet a of
        None \<Rightarrow> corrupt pos
      | Some x \<Rightarrow>
          (case sextet b of
             None \<Rightarrow> corrupt (pos + 1)
           | Some y \<Rightarrow>
               if c = b64_pad then
                 (if d \<noteq> b64_pad then corrupt (pos + 2)
                  else if s \<noteq> [] then corrupt (pos + 4)
                  else Inr (take 1 (bytes_of24 (read24 x y 0 0))))
               else
                 (case sextet c of
                    None \<Rightarrow> corrupt (pos + 2)
                  | Some z \<Rightarrow>
                      if d = b64_pad then
                        (if s \<noteq> [] then corrupt (pos + 4) else Inr (take 2 (bytes_of24 (read24 x y z 0))))
                      else
                        (case sextet d of
                           None \<Rightarrow> corrupt (pos + 3)
                         | Some w \<Rightarrow>
                             (case decode_groups (pos + 4) s of
                                Inl e \<Rightarrow> Inl e
                              | Inr bs \<Rightarrow> Inr (bytes_of24 (read24 x y z w) @ bs))))))"

definition decodeString64 :: "string \<Rightarrow> bytes result" where
  "decodeString64 s = decode_groups 0 (filter (\<lambda>c. c \<noteq> CHR 0x0D \<and> c \<noteq> CHR 0x0A) s)"

section \<open>There and back\<close>

lemma sextet_all: "list_all (\<lambda>n. sextet (b64_char n) = Some n \<and> b64_char n \<noteq> b64_pad \<and>
    b64_char n \<noteq> CHR 0x0D \<and> b64_char n \<noteq> CHR 0x0A) [0..<64]"
  by code_simp

lemma sextet_char:
  assumes "n < 64"
  shows "sextet (b64_char n) = Some n" "b64_char n \<noteq> b64_pad" "b64_char n \<noteq> CHR 0x0D" "b64_char n \<noteq> CHR 0x0A"
  using sextet_all assms by (simp_all add: list_all_iff)

lemma spell_eq: "spell g = [b64_char (g div 262144 mod 64), b64_char (g div 4096 mod 64), b64_char (g div 64 mod 64), b64_char (g mod 64)]"
  by (simp add: spell_def)

lemma read24_spell:
  assumes "g < 16777216"
  shows "read24 (g div 262144 mod 64) (g div 4096 mod 64) (g div 64 mod 64) (g mod 64) = g"
proof -
  have d: "g div 4096 = g div 64 div 64" "g div 262144 = g div 64 div 64 div 64"
    by (simp_all add: div_mult2_eq[symmetric])
  have "g div 64 div 64 div 64 < 64"
    using assms by (simp add: div_mult2_eq[symmetric] div_less_iff_less_mult)
  then show ?thesis
    unfolding read24_def d by (simp add: div_mult_mod_eq)
qed

lemma bytes24:
  assumes "x < 256" "y < 256" "z < 256"
  shows "bytes_of24 (group24 x y z) = [of_nat x, of_nat y, of_nat z]" "group24 x y z < 16777216"
proof -
  have g: "group24 x y z div 256 = x * 256 + y" "group24 x y z mod 256 = z" "(x * 256 + y) div 256 = x" "(x * 256 + y) mod 256 = y"
  proof -
    have "group24 x y z mod 256 = z mod 256"
      unfolding group24_def by (rule mod_mult_self3)
    then show "group24 x y z mod 256 = z"
      using assms by simp
  qed (use assms in \<open>simp_all add: group24_def\<close>)
  have "group24 x y z div 65536 = group24 x y z div 256 div 256"
    by (simp add: div_mult2_eq[symmetric])
  then show "bytes_of24 (group24 x y z) = [of_nat x, of_nat y, of_nat z]"
    using assms by (simp add: bytes_of24_def g)
  show "group24 x y z < 16777216"
    using assms by (simp add: group24_def)
qed

lemma byte_bound: "unat (b :: byte) < 256"
  using unsigned_less[of b, where ?'a = nat] by simp

lemma group24_zeros:
  "group24 x 0 0 mod 64 = 0" "group24 x 0 0 div 64 mod 64 = 0" "group24 x y 0 mod 64 = 0"
proof -
  have "group24 x y 0 = ((x * 256 + y) * 4) * 64" for y
    by (simp add: group24_def)
  moreover have "x * 256 * 4 = (x * 16) * 64"
    by simp
  ultimately show "group24 x 0 0 mod 64 = 0" "group24 x 0 0 div 64 mod 64 = 0" "group24 x y 0 mod 64 = 0"
    by (simp_all only: mod_mult_self2_is_0 nonzero_mult_div_cancel_right zero_neq_numeral add_0_right not_False_eq_True)
qed

lemma decode_encode_groups: "decode_groups pos (encodeToString bs) = Inr bs"
proof (induction bs arbitrary: pos rule: encodeToString.induct)
  case (2 x)
  let ?g = "group24 (unat x) 0 0"
  have "read24 (?g div 262144 mod 64) (?g div 4096 mod 64) 0 0 = ?g"
    using read24_spell[OF bytes24(2)[of "unat x" 0 0]] byte_bound by (simp add: group24_zeros)
  then show ?case
    using sextet_char bytes24(1)[of "unat x" 0 0] byte_bound[of x] by (simp add: spell_eq)
next
  case (3 x y)
  let ?g = "group24 (unat x) (unat y) 0"
  have "read24 (?g div 262144 mod 64) (?g div 4096 mod 64) (?g div 64 mod 64) 0 = ?g"
    using read24_spell[OF bytes24(2)[of "unat x" "unat y" 0]] byte_bound by (simp add: group24_zeros)
  then show ?case
    using sextet_char bytes24(1)[of "unat x" "unat y" 0] byte_bound[of x] byte_bound[of y] by (simp add: spell_eq)
next
  case (4 x y z bs)
  have "bytes_of24 (group24 (unat x) (unat y) (unat z)) = [x, y, z]"
    using bytes24(1)[of "unat x" "unat y" "unat z"] byte_bound by simp
  then show ?case
    using 4[of "pos + 4"] sextet_char read24_spell[OF bytes24(2)[of "unat x" "unat y" "unat z"]] byte_bound
    by (simp add: spell_eq)
qed simp

lemma encode_clean: "c \<in> set (encodeToString bs) \<Longrightarrow> c \<noteq> CHR 0x0D \<and> c \<noteq> CHR 0x0A"
  using sextet_char(3,4) by (induction bs rule: encodeToString.induct) (auto simp: spell_eq b64_pad_def)

lemma encode_length: "length (encodeToString bs) = 4 * ((length bs + 2) div 3)"
proof (induction bs rule: encodeToString.induct)
  case (4 x y z bs)
  have "(Suc (Suc (Suc (length bs))) + 2) div 3 = Suc ((length bs + 2) div 3)"
    by simp
  then show ?case
    using 4 by (simp add: spell_eq)
qed (simp_all add: spell_eq)

lemma decode_encode64: "decodeString64 (encodeToString bs) = Inr bs"
proof -
  have "filter (\<lambda>c. c \<noteq> CHR 0x0D \<and> c \<noteq> CHR 0x0A) (encodeToString bs) = encodeToString bs"
    using encode_clean by (simp add: filter_id_conv)
  then show ?thesis
    by (simp add: decodeString64_def decode_encode_groups)
qed

text \<open>
  What is printed as base64 is read back, also when it was broken over lines; it
  takes four characters for every three bytes begun.
\<close>

theorem base64_roundtrip:
  "decodeString64 (encodeToString bs) = Inr bs \<and> decodeString64 (encodeToString bs @ [CHR 0x0D, CHR 0x0A]) = Inr bs \<and>
   length (encodeToString bs) = 4 * ((length bs + 2) div 3)"
  using decode_encode64[of bs] by (simp add: decodeString64_def encode_length)

section \<open>The verb %f\<close>

text \<open>Six digits behind the point, a tie to the even digit.\<close>

definition millionths :: "nat \<Rightarrow> nat" where
  "millionths m =
     (let q = m * 10 ^ 6 div f_one; r = m * 10 ^ 6 mod f_one
      in if f_one < 2 * r \<or> (f_one = 2 * r \<and> odd q) then q + 1 else q)"

fun print_f :: "f64 \<Rightarrow> string" where
  "print_f FNaN = ''NaN''"
| "print_f (FInf s) = (if s then ''-Inf'' else ''+Inf'')"
| "print_f (FFin s m) =
     (let c = millionths m
      in (if s then ''-'' else []) @ dec (c div 10 ^ 6) @ ''.'' @ pad_left 6 (dec (c mod 10 ^ 6)))"

lemma millionths_int: "millionths (k * f_one) = k * 10 ^ 6"
  by (simp add: millionths_def mult.assoc mult.commute[of f_one])

lemma print_f_int:
  assumes "v = f_of_int n"
  shows "print_f v = format_int n @ ''.000000''"
proof -
  have "pad_left 6 (dec 0) = ''000000''"
    by code_simp
  then show ?thesis
    by (simp add: assms f_of_int_def Let_def millionths_int format_int_def)
qed

end
