(* ===== verification/Ops.thy ===== *)
theory Ops
  imports HostPort
begin

text \<open>
  The operations a program calls on memberlist (\<open>memberlist.go\<close>), its configurations (\<open>config.go\<close>)
  and the one the server makes for itself (\<open>server/server.go\<close>).  What the sockets and the rest of
  the host answer are inputs; logging and the closing of sockets are left out.
\<close>

section \<open>Configurations\<close>

text \<open>Durations are in nanoseconds.\<close>

definition millisecond :: int where "millisecond = 1000000"
definition second :: int where "second = 1000000000"

definition protocolVersionMin :: u8 where "protocolVersionMin = 1"
definition protocolVersionMax :: u8 where "protocolVersionMax = 3"

definition defaultLANConfig :: "string \<Rightarrow> config" where
  "defaultLANConfig hostname =
     \<lparr>cf_Name = hostname, cf_BindAddr = ''0.0.0.0'', cf_BindPort = 7946, cf_AdvertiseAddr = [],
      cf_AdvertisePort = 7946, cf_ProtocolVersion = protocolVersionMax, cf_IndirectChecks = 3,
      cf_RetransmitMult = 4, cf_SuspicionMult = 5, cf_ProbeInterval = 1 * second,
      cf_ProbeTimeout = 500 * millisecond, cf_PushPullInterval = 30 * second,
      cf_GossipInterval = 200 * millisecond, cf_GossipNodes = 3, cf_TCPTimeout = 10 * second,
      cf_EnableCompression = True, cf_DMin = 0, cf_DMax = 0, cf_DCur = 0, cf_Events = False,
      cf_Conflict = False, cf_Alive = None, cf_Merge = None, cf_Ping = None, cf_Delegate = False,
      cf_SecretKey = [], cf_Keyring = None\<rparr>"

definition defaultWANConfig :: "string \<Rightarrow> config" where
  "defaultWANConfig hostname =
     (defaultLANConfig hostname)\<lparr>cf_TCPTimeout := 30 * second, cf_SuspicionMult := 6,
        cf_PushPullInterval := 60 * second, cf_ProbeTimeout := 3 * second,
        cf_ProbeInterval := 5 * second, cf_GossipNodes := 4, cf_GossipInterval := 500 * millisecond\<rparr>"

definition defaultLocalConfig :: "string \<Rightarrow> config" where
  "defaultLocalConfig hostname =
     (defaultLANConfig hostname)\<lparr>cf_TCPTimeout := second, cf_IndirectChecks := 1, cf_RetransmitMult := 2,
        cf_SuspicionMult := 3, cf_PushPullInterval := 15 * second, cf_ProbeTimeout := 200 * millisecond,
        cf_ProbeInterval := second, cf_GossipInterval := 100 * millisecond\<rparr>"

text \<open>What \<open>New\<close> of the server makes of it: the server is the delegate and hears the events.\<close>

definition server_base :: "string \<Rightarrow> string \<Rightarrow> config" where
  "server_base hostname name =
     (defaultWANConfig hostname)\<lparr>cf_Delegate := True, cf_Events := True, cf_Name := name,
        cf_SuspicionMult := 2, cf_ProbeInterval := 2 * second, cf_ProbeTimeout := 4 * second,
        cf_GossipNodes := 2, cf_PushPullInterval := 60 * second, cf_GossipInterval := 500 * millisecond\<rparr>"

definition serverConfig ::
  "(string \<Rightarrow> bytes list result) \<Rightarrow> string \<Rightarrow> string \<Rightarrow> string \<Rightarrow> string \<Rightarrow> config result outcome" where
  "serverConfig lookup hostname name bind advertise =
     (case splitHostPort lookup bind 9373 of
        Panics \<Rightarrow> Panics
      | Returns (Inl err) \<Rightarrow> Returns (Inl err)
      | Returns (Inr (ip, port)) \<Rightarrow>
          let cf = (server_base hostname name)\<lparr>cf_BindAddr := ip, cf_BindPort := port\<rparr>
          in (case splitHostPort lookup advertise port of
                Panics \<Rightarrow> Panics
              | Returns (Inl err) \<Rightarrow> Returns (Inl err)
              | Returns (Inr (ip2, port2)) \<Rightarrow>
                  Returns (Inr (cf\<lparr>cf_AdvertiseAddr := ip2, cf_AdvertisePort := port2\<rparr>))))"

section \<open>Making a memberlist\<close>

definition version_error :: "u8 \<Rightarrow> string \<Rightarrow> goerr" where
  "version_error v which =
     ErrMsg (''Protocol version '' @ [CHR 0x27] @ dec (unat v) @ [CHR 0x27] @ '' too '' @ which @
       ''. Must be in range: ['' @ dec (unat protocolVersionMin) @ '', '' @ dec (unat protocolVersionMax) @ '']'')"

text \<open>The secret key makes a keyring, or becomes the primary key of the one there is.\<close>

definition install_secret :: "config \<Rightarrow> goerr option \<times> config" where
  "install_secret cf =
     (if 0 < length (cf_SecretKey cf) then
        (case cf_Keyring cf of
           None \<Rightarrow>
             (case newKeyring [] (cf_SecretKey cf) of
                Inl err \<Rightarrow> (Some err, cf)
              | Inr k \<Rightarrow> (None, cf\<lparr>cf_Keyring := Some k\<rparr>))
         | Some k \<Rightarrow>
             (case addKey k (cf_SecretKey cf) of
                (Some err, k1) \<Rightarrow> (Some err, cf\<lparr>cf_Keyring := Some k1\<rparr>)
              | (None, k1) \<Rightarrow>
                  (case useKey k1 (cf_SecretKey cf) of (err, k2) \<Rightarrow> (err, cf\<lparr>cf_Keyring := Some k2\<rparr>))))
      else (None, cf))"

definition empty_memberlist :: memberlist where
  "empty_memberlist =
     \<lparr>ml_sequenceNum = 0, ml_incarnation = 0, ml_numNodes = 0, ml_shutdown = False, ml_leave = False,
      ml_heap = [], ml_nodes = [], ml_nodeMap = Map.empty, ml_tickers = [], ml_stopTick = 0, ml_triggers = [],
      ml_probeIndex = 0, ml_acks = Map.empty, ml_broadcasts = [], ml_handoff = [], ml_out = []\<rparr>"

text \<open>\<open>tcp\<close> and \<open>udp\<close> are the errors of listening.\<close>

definition newMemberlist :: "goerr option \<Rightarrow> goerr option \<Rightarrow> config \<Rightarrow> memberlist result \<times> config" where
  "newMemberlist tcp udp cf =
     (if cf_ProtocolVersion cf < protocolVersionMin then (Inl (version_error (cf_ProtocolVersion cf) ''low''), cf)
      else if protocolVersionMax < cf_ProtocolVersion cf then (Inl (version_error (cf_ProtocolVersion cf) ''high''), cf)
      else case install_secret cf of
        (Some err, cf1) \<Rightarrow> (Inl err, cf1)
      | (None, cf1) \<Rightarrow>
          (case tcp of
             Some err \<Rightarrow> (Inl (ErrMsg (''Failed to start TCP listener. Err: '' @ err_text err)), cf1)
           | None \<Rightarrow>
               (case udp of
                  Some err \<Rightarrow> (Inl (ErrMsg (''Failed to start UDP listener. Err: '' @ err_text err)), cf1)
                | None \<Rightarrow> (Inr empty_memberlist, cf1))))"

section \<open>Announcing the node\<close>

text \<open>
  The host: parsing an address, the addresses of the network interfaces (\<open>None\<close> for one that is no
  IP address), the address the TCP listener is bound to, and the meta data of the delegate.
\<close>

record hostenv =
  he_parse :: "string \<Rightarrow> bytes option"
  he_interfaces :: "bytes option list result"
  he_bound :: "bytes \<times> int"
  he_meta :: bytes

definition metaMaxSize :: nat where "metaMaxSize = 512"

definition private_v4 :: "bytes \<Rightarrow> bool" where
  "private_v4 ip \<longleftrightarrow> to4 ip \<noteq> None \<and> isPrivateIP ip"

fun first_private :: "bytes option list \<Rightarrow> bytes option" where
  "first_private [] = None"
| "first_private (None # addresses) = first_private addresses"
| "first_private (Some ip # addresses) = (if private_v4 ip then Some ip else first_private addresses)"

definition advertised :: "hostenv \<Rightarrow> config \<Rightarrow> (bytes \<times> int) result" where
  "advertised host cf =
     (if cf_AdvertiseAddr cf \<noteq> [] then
        (case he_parse host (cf_AdvertiseAddr cf) of
           None \<Rightarrow> Inl (ErrMsg ''Failed to parse advertise address!'')
         | Some ip \<Rightarrow> Inr (case to4 ip of None \<Rightarrow> ip | Some ip4 \<Rightarrow> ip4, cf_AdvertisePort cf))
      else if cf_BindAddr cf = ''0.0.0.0'' then
        (case he_interfaces host of
           Inl err \<Rightarrow> Inl (ErrMsg (''Failed to get interface addresses! Err: '' @ err_text err))
         | Inr addresses \<Rightarrow>
             (case first_private addresses of
                None \<Rightarrow> Inl (ErrMsg ''No private IP address found, and explicit IP not provided'')
              | Some ip \<Rightarrow> Inr (ip, snd (he_bound host))))
      else Inr (fst (he_bound host), snd (he_bound host)))"

text \<open>The meta data of the delegate; too much of it panics.\<close>

definition own_meta :: "hostenv \<Rightarrow> config \<Rightarrow> bytes outcome" where
  "own_meta host cf =
     (if cf_Delegate cf then (if metaMaxSize < length (he_meta host) then Panics else Returns (he_meta host))
      else Returns [])"

definition own_alive :: "config \<Rightarrow> u32 \<Rightarrow> bytes \<Rightarrow> u16 \<Rightarrow> bytes \<Rightarrow> alive" where
  "own_alive cf inc addr port mta =
     \<lparr>al_Incarnation = inc, al_Node = cf_Name cf, al_Addr = addr, al_Port = port, al_Meta = mta,
      al_Vsn = [protocolVersionMin, protocolVersionMax, cf_ProtocolVersion cf, cf_DMin cf, cf_DMax cf, cf_DCur cf]\<rparr>"

definition setAlive :: "hostenv \<Rightarrow> config \<Rightarrow> u32 \<Rightarrow> int \<Rightarrow> memberlist \<Rightarrow> (goerr option \<times> memberlist) run" where
  "setAlive host cf draw now m =
     (case advertised host cf of
        Inl err \<Rightarrow> Done (Some err, m)
      | Inr (addr, port) \<Rightarrow>
          (case own_meta host cf of
             Panics \<Rightarrow> Panic
           | Returns mta \<Rightarrow>
               let (inc, m1) = nextIncarnation m
               in and_then (aliveNode cf draw now (own_alive cf inc addr (of_int port) mta) None True m1)
                    (\<lambda>m2. Done (None, m2))))"

definition shutdownList :: "memberlist \<Rightarrow> memberlist" where
  "shutdownList m = (if ml_shutdown m then m else deschedule (m\<lparr>ml_shutdown := True\<rparr>))"

definition createList ::
  "hostenv \<Rightarrow> goerr option \<Rightarrow> goerr option \<Rightarrow> config \<Rightarrow> u32 \<Rightarrow> int \<Rightarrow> (memberlist result \<times> config) run" where
  "createList host tcp udp cf draw now =
     (case newMemberlist tcp udp cf of
        (Inl err, cf1) \<Rightarrow> Done (Inl err, cf1)
      | (Inr m, cf1) \<Rightarrow>
          and_then (setAlive host cf1 draw now m) (\<lambda>(err, m1).
            case err of Some e \<Rightarrow> Done (Inl e, cf1) | None \<Rightarrow> Done (Inr (schedule cf1 m1), cf1)))"

section \<open>Joining\<close>

text \<open>
  \<open>peers\<close> is what each attempt meets: the error of dialling, or the bytes of the answer and how the
  connection ends.  It is told the number of the attempt and the address.
\<close>

type_synonym peers = "nat \<Rightarrow> netaddr \<Rightarrow> goerr option \<times> bytes \<times> goerr"

fun join_addrs ::
  "netenv \<Rightarrow> config \<Rightarrow> peers \<Rightarrow> netaddr list \<Rightarrow> nat \<Rightarrow> nat \<Rightarrow> goerr option \<Rightarrow> memberlist \<Rightarrow>
   (nat \<times> nat \<times> goerr option \<times> memberlist) run" where
  "join_addrs env cf peers [] k numSuccess retErr m = Done (k, numSuccess, retErr, m)"
| "join_addrs env cf peers (a # addrs) k numSuccess retErr m =
     (case peers k a of (dial, conn, fin) \<Rightarrow>
        and_then (pushPullNode env cf dial conn fin True m) (\<lambda>(err, m1).
          if err \<noteq> None then join_addrs env cf peers addrs (k + 1) numSuccess err m1
          else join_addrs env cf peers addrs (k + 1) (numSuccess + 1) retErr m1))"

fun join_hosts ::
  "(string \<Rightarrow> (bytes list \<times> u16) result) \<Rightarrow> netenv \<Rightarrow> config \<Rightarrow> peers \<Rightarrow> string list \<Rightarrow> nat \<Rightarrow> nat \<Rightarrow> goerr option \<Rightarrow>
   memberlist \<Rightarrow> (nat \<times> goerr option \<times> memberlist) run" where
  "join_hosts resolve env cf peers [] k numSuccess retErr m = Done (numSuccess, retErr, m)"
| "join_hosts resolve env cf peers (exist # existing) k numSuccess retErr m =
     (case resolve exist of
        Inl err \<Rightarrow> join_hosts resolve env cf peers existing k numSuccess (Some err) m
      | Inr (addrs, port) \<Rightarrow>
          and_then (join_addrs env cf peers (map (\<lambda>a. (a, port)) addrs) k numSuccess retErr m)
            (\<lambda>(k1, numSuccess1, retErr1, m1). join_hosts resolve env cf peers existing k1 numSuccess1 retErr1 m1))"

definition joinList ::
  "(string \<Rightarrow> bytes option) \<Rightarrow> (string \<Rightarrow> bytes list result) \<Rightarrow> netenv \<Rightarrow> config \<Rightarrow> peers \<Rightarrow> string list \<Rightarrow>
   memberlist \<Rightarrow> ((nat \<times> goerr option) \<times> memberlist) run" where
  "joinList parse lookup env cf peers existing m =
     and_then (join_hosts (resolveAddr parse lookup cf) env cf peers existing 0 0 None m)
       (\<lambda>(numSuccess, retErr, m1). Done ((numSuccess, if 0 < numSuccess then None else retErr), m1))"

section \<open>Asking\<close>

definition localNode :: "config \<Rightarrow> memberlist \<Rightarrow> node outcome" where
  "localNode cf m = (case ml_nodeMap m (cf_Name cf) of None \<Rightarrow> Panics | Some p \<Rightarrow> Returns (node_of (deref m p)))"

definition membersList :: "memberlist \<Rightarrow> node list" where
  "membersList m = map (\<lambda>p. node_of (deref m p)) (filter (\<lambda>p. State (deref m p) \<noteq> stateDead) (ml_nodes m))"

definition numMembers :: "memberlist \<Rightarrow> nat" where
  "numMembers m = foldl (\<lambda>alive p. if State (deref m p) \<noteq> stateDead then alive + 1 else alive) 0 (ml_nodes m)"

definition anyAlive :: "config \<Rightarrow> memberlist \<Rightarrow> bool" where
  "anyAlive cf m \<longleftrightarrow> list_ex (\<lambda>p. State (deref m p) \<noteq> stateDead \<and> Name (deref m p) \<noteq> cf_Name cf) (ml_nodes m)"

section \<open>Updating and leaving\<close>

text \<open>
  How the wait for a broadcast ends: \<open>sent\<close> when it went out in time (or, without a timeout, at
  all).
\<close>

definition await :: "int \<Rightarrow> bool \<Rightarrow> string \<Rightarrow> memberlist \<Rightarrow> (goerr option \<times> memberlist) run" where
  "await timeout sent msg m =
     (if sent then Done (None, m) else if 0 < timeout then Done (Some (ErrMsg msg), m) else Hang)"

text \<open>\<open>ch\<close> is the channel that is made for the notification.\<close>

definition updateNode ::
  "hostenv \<Rightarrow> config \<Rightarrow> u32 \<Rightarrow> int \<Rightarrow> nat \<Rightarrow> int \<Rightarrow> bool \<Rightarrow> memberlist \<Rightarrow> (goerr option \<times> memberlist) run" where
  "updateNode host cf draw now ch timeout sent m =
     (case own_meta host cf of
        Panics \<Rightarrow> Panic
      | Returns mta \<Rightarrow>
          let (inc, m1) = nextIncarnation m
          in (case ml_nodeMap m (cf_Name cf) of
                None \<Rightarrow> Panic
              | Some p \<Rightarrow>
                  let st = deref m p
                  in and_then (aliveNode cf draw now (own_alive cf inc (Addr st) (Port st) mta) (Some ch) True m1) (\<lambda>m2.
                       if anyAlive cf m2 then await timeout sent ''timeout waiting for update broadcast'' m2
                       else Done (None, m2))))"

definition leaveList :: "config \<Rightarrow> int \<Rightarrow> int \<Rightarrow> bool \<Rightarrow> memberlist \<Rightarrow> (goerr option \<times> memberlist) run" where
  "leaveList cf now timeout sent m =
     (if ml_shutdown m then Panic
      else if \<not> ml_leave m then
        let m1 = m\<lparr>ml_leave := True\<rparr>
        in (case ml_nodeMap m1 (cf_Name cf) of
              None \<Rightarrow> Done (None, m1)
            | Some p \<Rightarrow>
                let st = deref m1 p; d = \<lparr>de_Incarnation = Incarnation st, de_Node = Name st, de_From = []\<rparr>
                in and_then (deadNode cf now d m1) (\<lambda>m2.
                     if anyAlive cf m2 then await timeout sent ''timeout waiting for leave broadcast'' m2
                     else Done (None, m2)))
      else Done (None, m))"

section \<open>Sending\<close>

definition sendTo :: "netenv \<Rightarrow> config \<Rightarrow> netaddr \<Rightarrow> bytes \<Rightarrow> memberlist \<Rightarrow> goerr option \<times> memberlist" where
  "sendTo env cf to msg m = (let buf = [userMsg] @ msg in rawSendMsgUDP env cf to buf m)"

definition sendToUDP :: "netenv \<Rightarrow> config \<Rightarrow> node \<Rightarrow> bytes \<Rightarrow> memberlist \<Rightarrow> goerr option \<times> memberlist" where
  "sendToUDP env cf to msg m = (let buf = [userMsg] @ msg in rawSendMsgUDP env cf (Addr to, Port to) buf m)"

text \<open>The address only decides how dialling ends.\<close>

definition sendToTCP ::
  "netenv \<Rightarrow> config \<Rightarrow> (netaddr \<Rightarrow> goerr option) \<Rightarrow> node \<Rightarrow> bytes \<Rightarrow> memberlist \<Rightarrow> goerr option \<times> memberlist" where
  "sendToTCP env cf dial to msg m = sendTCPUserMsg env cf (dial (Addr to, Port to)) msg m"

end
