(* ===== verification/OpsProps.thy ===== *)
theory OpsProps
  imports Ops
begin

text \<open>
  What the operations on a memberlist guarantee: of the members they list, of a new memberlist, of
  updates, of leaving and of joining.
\<close>

section \<open>The members\<close>

lemma in_nodes_look:
  assumes "ml_ok m"
  shows "(\<exists>p\<in>set (ml_nodes m). P (deref m p)) \<longleftrightarrow> (\<exists>n st. look m n = Some st \<and> P st)"
  unfolding ml_okD(4)[OF assms] ran_def look_def by auto

lemma anyAlive_look:
  assumes "ml_ok m"
  shows "anyAlive cf m \<longleftrightarrow> (\<exists>n st. look m n = Some st \<and> State st \<noteq> stateDead \<and> n \<noteq> cf_Name cf)"
proof -
  have "anyAlive cf m \<longleftrightarrow> (\<exists>n st. look m n = Some st \<and> State st \<noteq> stateDead \<and> Name st \<noteq> cf_Name cf)"
    using in_nodes_look[OF assms, of "\<lambda>st. State st \<noteq> stateDead \<and> Name st \<noteq> cf_Name cf"]
    by (simp add: anyAlive_def list_ex_iff)
  then show ?thesis
    using look_Name[OF assms] by metis
qed

lemma numMembers_eq: "numMembers m = length (membersList m)"
proof -
  have "foldl (\<lambda>alive p. if Q p then alive + 1 else alive) k ps = k + length (filter Q ps)" for Q k and ps :: "nat list"
    by (induction ps arbitrary: k) auto
  then show ?thesis
    by (simp add: numMembers_def membersList_def)
qed

lemma members_set:
  assumes "ml_ok m"
  shows "set (membersList m) = {x. \<exists>n st. look m n = Some st \<and> State st \<noteq> stateDead \<and> x = node_of st}"
proof (rule set_eqI)
  fix x
  show "x \<in> set (membersList m) \<longleftrightarrow> x \<in> {x. \<exists>n st. look m n = Some st \<and> State st \<noteq> stateDead \<and> x = node_of st}"
    using in_nodes_look[OF assms, of "\<lambda>st. State st \<noteq> stateDead \<and> x = node_of st"]
    by (auto simp: membersList_def)
qed

lemma members_distinct:
  assumes "ml_ok m"
  shows "distinct (map Name (membersList m))"
proof -
  have "inj_on (\<lambda>p. Name (deref m p)) (set (ml_nodes m))"
    unfolding ml_okD(4)[OF assms] ran_def using ml_okD(2)[OF assms] by (auto intro!: inj_onI)
  then have "inj_on (\<lambda>p. Name (deref m p)) (set (filter (\<lambda>p. State (deref m p) \<noteq> stateDead) (ml_nodes m)))"
    by (rule inj_on_subset) auto
  then show ?thesis
    using ml_okD(3)[OF assms] by (simp add: membersList_def comp_def distinct_map node_of_def)
qed

text \<open>
  \<open>Members\<close> lists every node that is known and not dead, as it is known, once,
  and no other; \<open>NumMembers\<close> counts them; a broadcast is waited for just when another member is
  listed.
\<close>

theorem members_are_live:
  assumes "ml_ok m"
  shows "set (membersList m) = {x. \<exists>n st. look m n = Some st \<and> State st \<noteq> stateDead \<and> x = node_of st} \<and>
    distinct (map Name (membersList m)) \<and> numMembers m = length (membersList m) \<and>
    (anyAlive cf m \<longleftrightarrow> (\<exists>x\<in>set (membersList m). Name x \<noteq> cf_Name cf))"
proof -
  have "Name (node_of st) = n" if "look m n = Some st" for n st
    using look_Name[OF assms that] by (simp add: node_of_def)
  then have "anyAlive cf m \<longleftrightarrow> (\<exists>x\<in>set (membersList m). Name x \<noteq> cf_Name cf)"
    unfolding anyAlive_look[OF assms] members_set[OF assms] by auto
  then show ?thesis
    using members_set[OF assms] members_distinct[OF assms] numMembers_eq by blast
qed

theorem members_are_live_witness:
  "distinct (map Name (membersList ml_a)) \<and> numMembers ml_a = length (membersList ml_a) \<and> anyAlive cfg_a ml_a"
  using members_are_live[OF ml_ok_a, of cfg_a] by (auto simp: anyAlive_def ml_a_def ml_with_def deref_def)

section \<open>Announcements\<close>

text \<open>A broadcast that waits in the queue, not sent yet.\<close>

definition queued :: "memberlist \<Rightarrow> string \<Rightarrow> bytes \<Rightarrow> nat option \<Rightarrow> bool" where
  "queued m n msg k \<longleftrightarrow>
     (\<exists>x\<in>set (ml_broadcasts m). bc x = \<lparr>mb_node = n, mb_msg = msg, mb_notify = k\<rparr> \<and> transmits x = 0)"

lemma queued_broadcast:
  "ml_ok m \<Longrightarrow> queued (encodeBroadcastNotify nd t x k m) nd (encode t x) k"
  by (auto simp: queued_def encodeBroadcastNotify_def ml_queueBroadcast_def emit_def
      mb.queueBroadcast_eq ml_okD)

lemma queued_frame [frame]: "queued (emit es m) = queued m" "queued (assign p st m) = queued m"
  "queued (events cf os om p m) = queued m"
  by (simp_all add: queued_def fun_eq_iff emit_def assign_def events_def)

text \<open>The rest of the state, which announcements leave alone.\<close>

definition rest_of :: "memberlist \<Rightarrow> bool \<times> bool \<times> trigger list \<times> nat \<times> (nat \<times> trigger) list" where
  "rest_of m = (ml_shutdown m, ml_leave m, ml_tickers m, ml_stopTick m, ml_triggers m)"

lemma rest_frame [frame]: "rest_of (emit es m) = rest_of m" "rest_of (assign p st m) = rest_of m"
  "rest_of (encodeBroadcastNotify nd t x k m) = rest_of m" "rest_of (events cf os om p m) = rest_of m"
  "rest_of (m\<lparr>ml_incarnation := i\<rparr>) = rest_of m"
  by (simp_all add: rest_of_def emit_def assign_def events_def encodeBroadcastNotify_def ml_queueBroadcast_def split_beta)

lemma announced:
  assumes "ml_ok m" "\<not> ml_leave m" "cf_Alive cf = None" "length (ml_nodes m) < 2 ^ 32" "al_Node a = cf_Name cf"
    "length (al_Vsn a) = 6" "known_or_fresh a m = st" "Addr st = al_Addr a" "Port st = al_Port a"
    "Incarnation st \<le> al_Incarnation a"
  shows "\<exists>m'. aliveNode cf draw now a k True m = Done m' \<and> ml_ok m' \<and>
    look m' = (look m)(cf_Name cf \<mapsto> set_alive now a st) \<and>
    queued m' (cf_Name cf) (encode aliveMsg (alive_struct a)) k \<and> rest_of m' = rest_of m"
proof -
  obtain p m1 where pm: "(case ml_nodeMap m (al_Node a) of Some p \<Rightarrow> (p, m) | None \<Rightarrow> add_node draw a m) = (p, m1)"
    by (rule prod.exhaust)
  have m1: "ml_ok m1 \<and> ml_nodeMap m1 (al_Node a) = Some p \<and> deref m1 p = st \<and>
      (\<forall>st'. (look m1)(al_Node a \<mapsto> st') = (look m)(al_Node a \<mapsto> st')) \<and> rest_of m1 = rest_of m"
  proof (cases "ml_nodeMap m (al_Node a)")
    case None
    then have an: "add_node draw a m = (p, m1)"
      using pm by simp
    note s = add_node_spec[OF assms(1) None an assms(4)]
    have "deref m1 p = fresh_state a"
      using s(2,3) by (auto simp: look_def fun_eq_iff dest: spec[of _ "al_Node a"])
    moreover have "rest_of m1 = rest_of m"
      using an by (auto simp: add_node_def Let_def rest_of_def)
    ultimately show ?thesis
      using s None assms(7) by (simp add: known_or_fresh_def look_def[of m])
  next
    case (Some q)
    then show ?thesis
      using pm assms(1,7) by (simp add: known_or_fresh_def look_def)
  qed
  have name: "Name st = cf_Name cf"
    using m1 ml_okD(2) assms(5) by metis
  let ?m1 = "encodeBroadcastNotify (al_Node a) aliveMsg (alive_struct a) k m1"
  have ok: "ml_ok ?m1" "ml_nodeMap ?m1 (al_Node a) = Some p"
    using m1 by (auto simp: frame)
  let ?m2 = "events cf (State st) (Meta st) p (assign p (set_alive now a st) ?m1)"
  have "aliveNode cf draw now a k True m = Done ?m2"
    using assms m1 pm name leD[OF assms(10)]
    by (simp add: aliveNode_def ask_alive_def alive_known_def Let_def)
  moreover have "ml_ok (assign p (set_alive now a st) ?m1)"
    by (rule ml_ok_assign[OF ok]) (simp add: name assms(5))
  moreover have "queued ?m2 (cf_Name cf) (encode aliveMsg (alive_struct a)) k"
    using queued_broadcast[of m1] m1 assms(5) by (simp add: frame)
  ultimately show ?thesis
    using look_assign[OF ok] m1 assms(5) by (auto simp: frame)
qed

section \<open>A new memberlist\<close>

lemma own_alive_simps [simp]:
  "al_Node (own_alive cf inc addr port mta) = cf_Name cf" "al_Addr (own_alive cf inc addr port mta) = addr"
  "al_Port (own_alive cf inc addr port mta) = port" "al_Meta (own_alive cf inc addr port mta) = mta"
  "al_Incarnation (own_alive cf inc addr port mta) = inc" "length (al_Vsn (own_alive cf inc addr port mta)) = 6"
  by (simp_all add: own_alive_def)

lemma install_secret_kept: "install_secret cf = (e, cf1) \<Longrightarrow> cf1 = cf\<lparr>cf_Keyring := cf_Keyring cf1\<rparr>"
  by (auto simp: install_secret_def split: if_splits option.splits sum.splits prod.splits)

lemma newMemberlist_ok:
  assumes "newMemberlist tcp udp cf = (Inr m, cf1)"
  shows "m = empty_memberlist \<and> cf1 = cf\<lparr>cf_Keyring := cf_Keyring cf1\<rparr>"
proof -
  obtain e cf2 where e: "install_secret cf = (e, cf2)"
    by (rule prod.exhaust)
  then show ?thesis
    using assms install_secret_kept[OF e]
    by (auto simp: newMemberlist_def split: if_splits option.splits)
qed

lemma own_meta_small: "own_meta host cf = Returns mta \<Longrightarrow> length mta \<le> metaMaxSize"
  by (auto simp: own_meta_def split: if_splits)

lemma ml_ok_empty: "ml_ok (empty_memberlist\<lparr>ml_incarnation := i\<rparr>)" "look (empty_memberlist\<lparr>ml_incarnation := i\<rparr>) = Map.empty"
  by (simp_all add: ml_ok_def empty_memberlist_def unique_keys_def look_def fun_eq_iff)

lemma rest_schedule [simp]: "ml_heap (schedule cf m) = ml_heap m" "ml_nodes (schedule cf m) = ml_nodes m"
  "ml_nodeMap (schedule cf m) = ml_nodeMap m" "ml_numNodes (schedule cf m) = ml_numNodes m"
  "ml_leave (schedule cf m) = ml_leave m" "ml_broadcasts (schedule cf m) = ml_broadcasts m"
  "ml_shutdown (schedule cf m) = ml_shutdown m"
  by (simp_all add: schedule_def Let_def)

lemma rest_empty: "rest_of (empty_memberlist\<lparr>ml_incarnation := i\<rparr>) = (False, False, [], 0, [])"
  "ml_nodes (empty_memberlist\<lparr>ml_incarnation := i\<rparr>) = []" "\<not> ml_leave (empty_memberlist\<lparr>ml_incarnation := i\<rparr>)"
  by (simp_all add: rest_of_def empty_memberlist_def)

lemma schedule_kept: "ml_ok (schedule cf m) = ml_ok m" "look (schedule cf m) = look m"
  "queued (schedule cf m) = queued m"
  by (simp_all add: ml_ok_def look_def deref_def[abs_def] queued_def fun_eq_iff)

text \<open>
  C16: what \<open>Create\<close> returns is consistent and has one member, the node itself: alive, with
  the first incarnation, the advertised address, the versions of the configuration and meta data of
  at most 512 bytes; its announcement waits to be sent.
\<close>

theorem create_alone:
  assumes "createList host tcp udp cf draw now = Done (Inr m, cf1)" "cf_Alive cf = None"
  shows "\<exists>addr port mta st a. advertised host cf = Inr (addr, port) \<and> own_meta host cf = Returns mta \<and>
    length mta \<le> metaMaxSize \<and> a = own_alive cf 1 addr (of_int port) mta \<and>
    ml_ok m \<and> look m = [cf_Name cf \<mapsto> st] \<and> State st = stateAlive \<and> Incarnation st = 1 \<and>
    membersList m = [node_of_alive a] \<and> numMembers m = 1 \<and> \<not> anyAlive cf m \<and>
    \<not> ml_shutdown m \<and> \<not> ml_leave m \<and> queued m (cf_Name cf) (encode aliveMsg (alive_struct a)) None"
proof -
  obtain k m2 where nm: "newMemberlist tcp udp cf = (Inr empty_memberlist, cf1)" and cf1: "cf1 = cf\<lparr>cf_Keyring := k\<rparr>"
    and sa: "setAlive host cf1 draw now empty_memberlist = Done (None, m2)" and m: "m = schedule cf1 m2"
    using assms(1) newMemberlist_ok[of tcp udp cf]
    by (auto simp: createList_def and_then_Done split: prod.splits sum.splits option.splits)
  have same: "advertised host cf1 = advertised host cf" "own_meta host cf1 = own_meta host cf"
    "own_alive cf1 = own_alive cf" "cf_Name cf1 = cf_Name cf" "cf_Alive cf1 = None"
    using assms(2) by (simp_all add: cf1 advertised_def own_meta_def own_alive_def fun_eq_iff split: option.split)
  let ?m1 = "empty_memberlist\<lparr>ml_incarnation := 1\<rparr>"
  have ni: "nextIncarnation empty_memberlist = (1, ?m1)"
    by (simp add: nextIncarnation_def empty_memberlist_def)
  obtain addr port mta where am: "advertised host cf = Inr (addr, port)" "own_meta host cf = Returns mta"
    and al: "aliveNode cf1 draw now (own_alive cf 1 addr (of_int port) mta) None True ?m1 = Done m2"
    using sa by (auto simp: setAlive_def same ni and_then_Done split: sum.splits outcome.splits)
  let ?a = "own_alive cf 1 addr (of_int port) mta" and ?st = "set_alive now (own_alive cf 1 addr (of_int port) mta) (fresh_state (own_alive cf 1 addr (of_int port) mta))"
  have "known_or_fresh ?a ?m1 = fresh_state ?a"
    by (simp add: known_or_fresh_def ml_ok_empty)
  then obtain m3 where m3: "aliveNode cf1 draw now ?a None True ?m1 = Done m3" "ml_ok m3" "look m3 = (look ?m1)(cf_Name cf1 \<mapsto> ?st)"
    "queued m3 (cf_Name cf1) (encode aliveMsg (alive_struct ?a)) None" "rest_of m3 = rest_of ?m1"
    using announced[of ?m1 cf1 ?a "fresh_state ?a" draw now None] ml_ok_empty(1)[of 1]
    by (auto simp: same rest_empty fresh_state_def)
  have [simp]: "m3 = m2"
    using m3(1) al by simp
  have m2: "ml_ok m" "look m = [cf_Name cf \<mapsto> ?st]" "queued m (cf_Name cf) (encode aliveMsg (alive_struct ?a)) None"
    "\<not> ml_shutdown m" "\<not> ml_leave m"
    using m3(2-5) unfolding rest_empty by (simp_all add: m schedule_kept same ml_ok_empty(2) rest_of_def)
  have nd: "node_of ?st = node_of_alive ?a"
    by (simp add: node_of_def set_alive_def set_versions_def fresh_state_def node_of_alive_def own_alive_def Let_def)
  have "set (membersList m) = {node_of_alive ?a}"
    unfolding members_set[OF m2(1)] m2(2) nd[symmetric] by (auto split: if_splits)
  moreover have "distinct (membersList m)"
    using members_distinct[OF m2(1)] by (simp add: distinct_map)
  ultimately have ms: "membersList m = [node_of_alive ?a]"
    by (cases "membersList m") (auto simp: subset_singleton_iff)
  have "\<not> anyAlive cf m"
    unfolding anyAlive_look[OF m2(1)] m2(2) by simp
  then show ?thesis
    using m2 ms am own_meta_small[OF am(2)]
    by (intro exI[of _ addr] exI[of _ port] exI[of _ mta] exI[of _ ?st] exI[of _ ?a]) (simp add: numMembers_eq)
qed

definition host_a :: hostenv where
  "host_a = \<lparr>he_parse = (\<lambda>_. Some [10, 0, 0, 1]), he_interfaces = Inr [None, Some [8, 8, 8, 8], Some [10, 0, 0, 1]],
     he_bound = ([0, 0, 0, 0], 7946), he_meta = [1]\<rparr>"

lemma meta_a: "own_meta host_a cf = Returns (if cf_Delegate cf then [1] else [])"
  by (simp add: own_meta_def host_a_def metaMaxSize_def)

lemma create_lan:
  assumes "cf = defaultLANConfig ''a''\<lparr>cf_Events := e, cf_Delegate := g\<rparr>" "host = host_a\<lparr>he_meta := mta\<rparr>" "length mta \<le> metaMaxSize"
  shows "\<exists>m. createList host None None cf 0 5 = Done (Inr m, cf)"
proof -
  have cf: "cf_ProtocolVersion cf = 3" "cf_SecretKey cf = []" "cf_AdvertiseAddr cf = []" "cf_BindAddr cf = ''0.0.0.0''"
    "cf_Alive cf = None"
    by (simp_all add: assms(1) defaultLANConfig_def protocolVersionMax_def)
  have mt: "own_meta host cf = Returns (if cf_Delegate cf then mta else [])"
    using assms(3) by (simp add: own_meta_def assms(2))
  have nm: "newMemberlist None None cf = (Inr empty_memberlist, cf)"
    by (simp add: newMemberlist_def cf install_secret_def protocolVersionMin_def protocolVersionMax_def)
  have "first_private [None, Some [8, 8, 8, 8], Some [10, 0, 0, 1]] = Some [10, 0, 0, 1]"
    by (simp add: private_v4_def isPrivateIP_def privateBlocks_def block_contains_def to4_def bits_of_def upt_rec)
  then have ad: "advertised host cf = Inr ([10, 0, 0, 1], 7946)"
    by (simp add: advertised_def cf assms(2) host_a_def)
  let ?mta = "if cf_Delegate cf then mta else []"
  let ?m1 = "empty_memberlist\<lparr>ml_incarnation := 1\<rparr>" and ?a = "own_alive cf 1 [10, 0, 0, 1] 7946 ?mta"
  have "known_or_fresh ?a ?m1 = fresh_state ?a"
    by (simp add: known_or_fresh_def ml_ok_empty)
  then obtain m3 where "aliveNode cf 0 5 ?a None True ?m1 = Done m3"
    using announced[of ?m1 cf ?a "fresh_state ?a" 0 5 None] ml_ok_empty(1)[of 1]
    by (auto simp: rest_empty fresh_state_def cf)
  then have "setAlive host cf 0 5 empty_memberlist = Done (None, m3)"
    by (simp add: setAlive_def ad mt cf nextIncarnation_def empty_memberlist_def)
  then have "createList host None None cf 0 5 = Done (Inr (schedule cf m3), cf)"
    by (simp add: createList_def nm)
  then show ?thesis
    by blast
qed

theorem create_alone_witness:
  "\<exists>m cf1. createList host_a None None (defaultLANConfig ''a'') 0 5 = Done (Inr m, cf1) \<and> ml_ok m \<and> numMembers m = 1"
proof -
  have c: "cf_Alive (defaultLANConfig ''a'') = None"
    "defaultLANConfig ''a'' = defaultLANConfig ''a''\<lparr>cf_Events := False, cf_Delegate := False\<rparr>"
    "host_a = host_a\<lparr>he_meta := [1]\<rparr>" "length [1 :: byte] \<le> metaMaxSize"
    by (simp_all add: defaultLANConfig_def host_a_def metaMaxSize_def)
  obtain m where "createList host_a None None (defaultLANConfig ''a'') 0 5 = Done (Inr m, defaultLANConfig ''a'')"
    using create_lan[OF c(2-4)] by blast
  then show ?thesis
    using create_alone[OF _ c(1)] by blast
qed

section \<open>Updates\<close>

text \<open>
  \<open>UpdateNode\<close> gives the node the next incarnation and the delegate's new meta
  data and queues the announcement, with a notification when it is sent; with no other member it
  does not wait.
\<close>

theorem update_announces:
  assumes "ml_ok m" "\<not> ml_leave m" "cf_Alive cf = None" "length (ml_nodes m) < 2 ^ 32"
    "look m (cf_Name cf) = Some st" "Incarnation st \<le> ml_incarnation m" "ml_incarnation m \<noteq> - 1"
    "own_meta host cf = Returns mta"
  shows "\<exists>m' st'. ml_ok m' \<and> look m' = (look m)(cf_Name cf \<mapsto> st') \<and> State st' = stateAlive \<and>
    Incarnation st' = ml_incarnation m + 1 \<and> Incarnation st < Incarnation st' \<and> Meta st' = mta \<and>
    Addr st' = Addr st \<and> Port st' = Port st \<and>
    queued m' (cf_Name cf) (encode aliveMsg (alive_struct (own_alive cf (Incarnation st') (Addr st) (Port st) mta))) (Some ch) \<and>
    updateNode host cf draw now ch timeout sent m =
      (if anyAlive cf m then await timeout sent ''timeout waiting for update broadcast'' m' else Done (None, m'))"
proof -
  obtain p where p: "ml_nodeMap m (cf_Name cf) = Some p" "deref m p = st"
    using assms(5) by (auto simp: look_def)
  let ?inc = "ml_incarnation m + 1"
  have up: "ml_incarnation m < ?inc"
    using refute_inc_above[OF refute_inc_Some[OF assms(7), of "ml_incarnation m"]] by simp
  let ?m1 = "m\<lparr>ml_incarnation := ?inc\<rparr>" and ?a = "own_alive cf ?inc (Addr st) (Port st) mta"
  have m1: "ml_ok ?m1" "look ?m1 = look m"
    using assms(1) by (auto simp: frame)
  then have "known_or_fresh ?a ?m1 = st"
    using assms(5) by (simp add: known_or_fresh_def)
  then obtain m' where m': "aliveNode cf draw now ?a (Some ch) True ?m1 = Done m'" "ml_ok m'"
    "look m' = (look ?m1)(cf_Name cf \<mapsto> set_alive now ?a st)" "queued m' (cf_Name cf) (encode aliveMsg (alive_struct ?a)) (Some ch)"
    using announced[of ?m1 cf ?a st draw now "Some ch"] m1(1) assms(2-4)
      order_trans[OF assms(6) less_imp_le[OF up]] by auto
  have "anyAlive cf m' = anyAlive cf m"
    unfolding anyAlive_look[OF m'(2)] anyAlive_look[OF assms(1)] m'(3) m1(2) by auto
  then have "updateNode host cf draw now ch timeout sent m =
      (if anyAlive cf m then await timeout sent ''timeout waiting for update broadcast'' m' else Done (None, m'))"
    using p m'(1) by (simp add: updateNode_def assms(8) nextIncarnation_def Let_def)
  then show ?thesis
    using m' m1 up le_less_trans[OF assms(6) up]
    by (intro exI[of _ m'] exI[of _ "set_alive now ?a st"]) simp
qed

theorem update_announces_witness:
  "\<exists>m'. updateNode host_a cfg_a 0 9 4 0 True ml_a = Done (None, m') \<and> map_option Meta (look m' ''a'') = Some [1]"
proof -
  have "own_meta host_a cfg_a = Returns [1]"
    by (simp add: meta_a cfg_a_def)
  moreover have "\<not> ml_leave ml_a" "length (ml_nodes ml_a) < 2 ^ 32" "ml_incarnation ml_a = 1"
    by (simp_all add: ml_a_def ml_with_def)
  ultimately show ?thesis
    using update_announces[OF ml_ok_a, of cfg_a "state_b ''a'' 1 stateAlive" host_a "[1]" 4 0 9 0 True] look_a(1)
    by (auto simp: await_def)
qed

section \<open>Leaving\<close>

text \<open>
  C20: \<open>Leave\<close> marks the node dead for itself under its present incarnation and queues
  the news, which is what it waits for if there is another member; from then on the node is not
  listed, \<open>Leave\<close> does nothing more, and no alive message, from wherever, brings the node back.
  Leaving after \<open>Shutdown\<close> panics.
\<close>

theorem leave_announces:
  assumes "ml_ok m" "\<not> ml_shutdown m" "\<not> ml_leave m" "look m (cf_Name cf) = Some st" "State st \<noteq> stateDead"
  shows "(\<exists>m'. ml_ok m' \<and> ml_leave m' \<and> look m' = (look m)(cf_Name cf \<mapsto> st\<lparr>State := stateDead, StateChange := now\<rparr>) \<and>
      queued m' (cf_Name cf)
        (encode deadMsg (dead_struct \<lparr>de_Incarnation = Incarnation st, de_Node = cf_Name cf, de_From = []\<rparr>)) (Some leaveBroadcast) \<and>
      leaveList cf now timeout sent m =
        (if anyAlive cf m then await timeout sent ''timeout waiting for leave broadcast'' m' else Done (None, m')) \<and>
      cf_Name cf \<notin> Name ` set (membersList m') \<and>
      leaveList cf now' timeout' sent' m' = Done (None, m') \<and>
      (al_Node a = cf_Name cf \<longrightarrow> aliveNode cf draw now' a k b m' = Done m')) \<and>
    leaveList cf now timeout sent (shutdownList m) = Panic"
proof -
  obtain p where p: "ml_nodeMap m (cf_Name cf) = Some p" "deref m p = st"
    using assms(4) by (auto simp: look_def)
  have name: "Name st = cf_Name cf"
    by (rule look_Name[OF assms(1,4)])
  let ?d = "\<lparr>de_Incarnation = Incarnation st, de_Node = cf_Name cf, de_From = []\<rparr>"
  let ?m1 = "m\<lparr>ml_leave := True\<rparr>"
  let ?m2 = "encodeBroadcastNotify (cf_Name cf) deadMsg (dead_struct ?d) (Some leaveBroadcast) ?m1"
  let ?st' = "st\<lparr>State := stateDead, StateChange := now\<rparr>"
  have m1: "ml_ok ?m1" "look ?m1 = look m" "deref ?m1 p = st"
    using assms(1) p(2) by (simp_all add: ml_ok_def deref_def[abs_def] look_def fun_eq_iff)
  have ok: "ml_ok ?m2" "ml_nodeMap ?m2 (cf_Name cf) = Some p"
    using m1(1) p(1) by (auto simp: frame)
  define m' where "m' = (if cf_Events cf then emit [EvLeave (node_of ?st')] (assign p ?st' ?m2) else assign p ?st' ?m2)"
  have dn: "deadNode cf now ?d ?m1 = Done m'"
    using p m1(3) assms(5) name by (simp add: deadNode_def Let_def m'_def)
  have ok': "ml_ok m'"
    using ml_ok_assign[OF ok, of ?st'] name by (auto simp: m'_def)
  have look': "look m' = (look m)(cf_Name cf \<mapsto> ?st')"
    using look_assign[OF ok, of ?st'] m1(2) by (simp add: m'_def frame)
  have sh: "rest_of m' = rest_of ?m1"
    by (simp add: m'_def frame)
  have q: "queued m' (cf_Name cf) (encode deadMsg (dead_struct ?d)) (Some leaveBroadcast)"
    using queued_broadcast[OF m1(1)] by (simp add: m'_def frame)
  have "anyAlive cf m' = anyAlive cf m"
    unfolding anyAlive_look[OF ok'] anyAlive_look[OF assms(1)] look' by auto
  then have l: "leaveList cf now timeout sent m =
      (if anyAlive cf m then await timeout sent ''timeout waiting for leave broadcast'' m' else Done (None, m'))"
    using assms(2,3) p m1(3) dn name by (simp add: leaveList_def Let_def)
  have "Name x \<noteq> cf_Name cf" if x: "x \<in> set (membersList m')" for x
  proof
    obtain n st2 where n: "look m' n = Some st2" "State st2 \<noteq> stateDead" "x = node_of st2"
      using x unfolding members_set[OF ok'] by blast
    assume "Name x = cf_Name cf"
    then have "n = cf_Name cf"
      using look_Name[OF ok' n(1)] n(3) by (simp add: node_of_def)
    then show False
      using n(1,2) look' by auto
  qed
  then have "cf_Name cf \<notin> Name ` set (membersList m')"
    by force
  moreover have "leaveList cf now timeout sent (shutdownList m) = Panic"
    using assms(2) by (simp add: shutdownList_def leaveList_def deschedule_def)
  ultimately show ?thesis
    using ok' look' q l sh by (intro conjI exI[of _ m']) (simp_all add: rest_of_def leaveList_def aliveNode_def assms(2))
qed

theorem leave_announces_witness:
  "\<exists>m'. leaveList cfg_a 9 0 True ml_a = Done (None, m') \<and> map_option State (look m' ''a'') = Some stateDead"
proof -
  have "\<not> ml_shutdown ml_a" "\<not> ml_leave ml_a"
    by (simp_all add: ml_a_def ml_with_def)
  from leave_announces[OF ml_ok_a this, of cfg_a "state_b ''a'' 1 stateAlive" 9 0 True 9 0 True
      "own_alive cfg_a 1 [] 0 []" 0 None False] show ?thesis
    using look_a(1) by (auto simp: await_def)
qed

end
