(* ===== verification/JoinProps.thy ===== *)
theory JoinProps
  imports OpsProps
begin

text \<open>
  Joining a cluster and what an exchange of states teaches; user messages on their way to the
  delegate of a peer; a secret key.
\<close>

section \<open>Joining\<close>

lemma forward_pushPullNode:
  assumes "ml_ok m" "int (length (ml_nodes m)) + ne_nodes_room env < 2 ^ 32" "0 \<le> ne_nodes_room env"
    "pushPullNode env cf dial conn fin join m = Done (err, m')"
  shows "forward cf m m' (nat (ne_nodes_room env))"
proof -
  obtain r m1 where sr: "sendAndReceiveState env cf dial conn fin join m = Returns (r, m1)"
    using assms(4) by (auto simp: pushPullNode_def split: outcome.splits)
  have q: "quiet m m1"
    using sr quiet_sendLocalState[of m env cf join]
    by (auto simp: sendAndReceiveState_def Let_def split_beta quiet_refl
        split: option.splits outcome.splits sum.splits if_splits)
  note ok = quiet_ok[OF q assms(1)]
  show ?thesis
  proof (cases r)
    case (Inl e)
    then have "m' = m1"
      using assms(4) sr by (simp add: pushPullNode_def)
    then show ?thesis
      using forward_mono[OF forward_quiet[OF q assms(1)]] by simp
  next
    case (Inr x)
    obtain remote user where x: "x = (remote, user)"
      by (rule prod.exhaust)
    have len: "int (length remote) \<le> ne_nodes_room env"
      using sr unfolding Inr x
      by (auto simp: sendAndReceiveState_def Let_def split_beta dest!: readRemoteState_length
          split: option.splits outcome.splits sum.splits if_splits)
    have "int (length (ml_nodes m1) + length remote) < int (2 ^ 32)"
      using assms(2) len ok(3) by simp
    then have "length (ml_nodes m1) + length remote < 2 ^ 32"
      by (simp only: of_nat_less_iff)
    moreover have "ml_mergeRemoteState env cf join remote user m1 = Done (err, m')"
      using assms(4) sr by (simp add: pushPullNode_def Inr x)
    ultimately have "forward cf m1 m' (length remote)"
      by (intro forward_mergeRemoteState[OF ok(1)])
    from forward_trans[OF forward_quiet[OF q assms(1)] this] show ?thesis
      using len forward_mono by fastforce
  qed
qed

text \<open>The nodes that a number of exchanges can add.\<close>

lemma room_step:
  assumes "forward cf m m1 (nat r)" "0 \<le> r" "int (length (ml_nodes m)) + int (Suc k) * r < 2 ^ 32"
  shows "ml_ok m1" "int (length (ml_nodes m1)) + int k * r < 2 ^ 32"
proof -
  show "ml_ok m1"
    using assms(1) by (simp add: forward_def)
  have "length (ml_nodes m1) \<le> length (ml_nodes m) + nat r"
    using assms(1) by (simp add: forward_def)
  then have "int (length (ml_nodes m1)) \<le> int (length (ml_nodes m)) + r"
    using assms(2) by linarith
  then show "int (length (ml_nodes m1)) + int k * r < 2 ^ 32"
    using assms(3) by (simp add: algebra_simps)
qed

lemma room_one: "0 \<le> r \<Longrightarrow> int n + int (Suc k) * r < b \<Longrightarrow> int n + r < b"
proof -
  assume a: "0 \<le> r" "int n + int (Suc k) * r < b"
  have "0 \<le> int k * r"
    using a(1) by (intro mult_nonneg_nonneg) simp_all
  moreover have "int (Suc k) * r = r + int k * r"
    by (simp add: distrib_right)
  ultimately show "int n + r < b"
    using a(2) by linarith
qed

lemma join_addrs_spec:
  assumes "ml_ok m" "0 \<le> ne_nodes_room env" "int (length (ml_nodes m)) + int (length addrs) * ne_nodes_room env < 2 ^ 32"
    "join_addrs env cf peers addrs k ns re m = Done (k', ns', re', m')"
  shows "forward cf m m' (length addrs * nat (ne_nodes_room env)) \<and> ns \<le> ns' \<and> ns' \<le> ns + length addrs \<and>
    (ns' = ns \<longrightarrow> (re' = None \<longleftrightarrow> re = None \<and> addrs = []))"
  using assms
proof (induction addrs arbitrary: m k ns re)
  case Nil
  then show ?case
    by (simp add: forward_refl)
next
  case (Cons a addrs)
  obtain dial conn fin where pe: "peers k a = (dial, conn, fin)"
    by (rule prod_cases3)
  obtain err m1 where pp: "pushPullNode env cf dial conn fin True m = Done (err, m1)"
    and rest: "join_addrs env cf peers addrs (k + 1) (if err = None then ns + 1 else ns) (if err = None then re else err) m1 =
      Done (k', ns', re', m')"
    using Cons.prems(4) by (auto simp: pe and_then_Done split: if_splits)
  let ?r = "ne_nodes_room env"
  have bound: "int (length (ml_nodes m)) + int (Suc (length addrs)) * ?r < 2 ^ 32"
    using Cons.prems(3) by simp
  note f = forward_pushPullNode[OF Cons.prems(1) room_one[OF Cons.prems(2) bound] Cons.prems(2) pp]
  note IH = Cons.IH[OF room_step(1)[OF f Cons.prems(2) bound] Cons.prems(2) room_step(2)[OF f Cons.prems(2) bound] rest]
  have "forward cf m m' (nat ?r + length addrs * nat ?r)"
    by (rule forward_trans[OF f]) (use IH in blast)
  then show ?case
    using IH by (cases err) auto
qed

text \<open>How many addresses the hosts have that resolve.\<close>

definition attempts :: "(string \<Rightarrow> (bytes list \<times> u16) result) \<Rightarrow> string list \<Rightarrow> nat" where
  "attempts resolve existing =
     sum_list (map (\<lambda>h. case resolve h of Inl _ \<Rightarrow> 0 | Inr (addrs, _) \<Rightarrow> length addrs) existing)"

lemma attempts_simps [simp]:
  "attempts resolve [] = 0"
  "resolve h = Inl e \<Longrightarrow> attempts resolve (h # hs) = attempts resolve hs"
  "resolve h = Inr (addrs, port) \<Longrightarrow> attempts resolve (h # hs) = length addrs + attempts resolve hs"
  by (simp_all add: attempts_def)

lemma join_hosts_spec:
  assumes "ml_ok m" "0 \<le> ne_nodes_room env"
    "int (length (ml_nodes m)) + int (attempts resolve existing) * ne_nodes_room env < 2 ^ 32"
    "join_hosts resolve env cf peers existing k ns re m = Done (ns', re', m')"
  shows "(\<exists>n. forward cf m m' n) \<and> ns \<le> ns' \<and> ns' \<le> ns + attempts resolve existing \<and>
    (ns' = ns \<longrightarrow> (re' = None \<longleftrightarrow> re = None \<and> (\<forall>h\<in>set existing. \<exists>port. resolve h = Inr ([], port))))"
  using assms
proof (induction existing arbitrary: m k ns re)
  case Nil
  then show ?case
    using forward_refl by auto
next
  case (Cons h existing)
  let ?r = "ne_nodes_room env"
  show ?case
  proof (cases "resolve h")
    case (Inl e)
    have "join_hosts resolve env cf peers existing k ns (Some e) m = Done (ns', re', m')"
      using Cons.prems(4) by (simp add: Inl)
    from Cons.IH[OF Cons.prems(1,2) _ this] show ?thesis
      using Cons.prems(3) Inl by simp
  next
    case (Inr x)
    obtain addrs port where x: "x = (addrs, port)"
      by (rule prod.exhaust)
    note re = Inr[unfolded x]
    obtain k1 ns1 re1 m1 where j: "join_addrs env cf peers (map (\<lambda>a. (a, port)) addrs) k ns re m = Done (k1, ns1, re1, m1)"
      and rest: "join_hosts resolve env cf peers existing k1 ns1 re1 m1 = Done (ns', re', m')"
      using Cons.prems(4) by (auto simp: re and_then_Done)
    have b: "int (length (ml_nodes m)) + (int (length addrs) + int (attempts resolve existing)) * ?r < 2 ^ 32"
      using Cons.prems(3) by (simp add: re)
    moreover have "0 \<le> int (attempts resolve existing) * ?r"
      using Cons.prems(2) by (intro mult_nonneg_nonneg) simp_all
    ultimately have "int (length (ml_nodes m)) + int (length addrs) * ?r < 2 ^ 32"
      unfolding distrib_right by linarith
    then have "int (length (ml_nodes m)) + int (length (map (\<lambda>a. (a, port)) addrs)) * ?r < 2 ^ 32"
      by simp
    note ja = join_addrs_spec[OF Cons.prems(1,2) this j]
    have "length (ml_nodes m1) \<le> length (ml_nodes m) + length addrs * nat ?r"
      using ja by (simp add: forward_def)
    then have "int (length (ml_nodes m1)) \<le> int (length (ml_nodes m)) + int (length addrs * nat ?r)"
      by linarith
    then have "int (length (ml_nodes m1)) \<le> int (length (ml_nodes m)) + int (length addrs) * ?r"
      using Cons.prems(2) by simp
    then have room: "int (length (ml_nodes m1)) + int (attempts resolve existing) * ?r < 2 ^ 32"
      using b by (simp add: algebra_simps)
    have "ml_ok m1"
      using ja by (simp add: forward_def)
    note IH = Cons.IH[OF this Cons.prems(2) room rest]
    have "\<exists>n. forward cf m m' n"
      using IH ja forward_trans by blast
    then show ?thesis
      using IH ja by (auto simp: re)
  qed
qed

text \<open>
  What \<open>Join\<close> comes to: the hosts are resolved, and a state is exchanged with every address in turn, each
  in the state the last one left; the result of every exchange and resolution, in order.
\<close>

definition contact :: "netenv \<Rightarrow> config \<Rightarrow> peers \<Rightarrow> nat \<Rightarrow> netaddr \<Rightarrow> memberlist \<Rightarrow> (goerr option \<times> memberlist) run" where
  "contact env cf peers k a m = (case peers k a of (dial, conn, fin) \<Rightarrow> pushPullNode env cf dial conn fin True m)"

fun contact_all :: "netenv \<Rightarrow> config \<Rightarrow> peers \<Rightarrow> netaddr result list \<Rightarrow> nat \<Rightarrow> memberlist \<Rightarrow> (goerr option list \<times> memberlist) run" where
  "contact_all env cf peers [] k m = Done ([], m)"
| "contact_all env cf peers (Inl e # hosts) k m =
     and_then (contact_all env cf peers hosts k m) (\<lambda>(outs, m). Done (Some e # outs, m))"
| "contact_all env cf peers (Inr a # hosts) k m =
     and_then (contact env cf peers k a m) (\<lambda>(err, m).
       and_then (contact_all env cf peers hosts (k + 1) m) (\<lambda>(outs, m). Done (err # outs, m)))"

definition contacts :: "(string \<Rightarrow> (bytes list \<times> u16) result) \<Rightarrow> string list \<Rightarrow> netaddr result list" where
  "contacts resolve existing = concat (map (\<lambda>h. case resolve h of
     Inl e \<Rightarrow> [Inl e] | Inr (addrs, port) \<Rightarrow> map (\<lambda>a. Inr (a, port)) addrs) existing)"

definition successes :: "goerr option list \<Rightarrow> nat" where
  "successes outs = length (filter (\<lambda>e. e = None) outs)"

definition last_failure :: "goerr option \<Rightarrow> goerr option list \<Rightarrow> goerr option" where
  "last_failure re outs = foldl (\<lambda>re e. if e = None then re else e) re outs"

lemma contact_all_addrs:
  "contact_all env cf peers (map Inr addrs) k m = Done (outs, m1) \<Longrightarrow>
   contact_all env cf peers hosts (k + length addrs) m1 = Done (outs', m2) \<Longrightarrow>
   contact_all env cf peers (map Inr addrs @ hosts) k m = Done (outs @ outs', m2)"
proof (induction addrs arbitrary: k m outs)
  case (Cons a addrs)
  then obtain err m' outs1 where "contact env cf peers k a m = Done (err, m')"
    "contact_all env cf peers (map Inr addrs) (k + 1) m' = Done (outs1, m1)" "outs = err # outs1"
    by (auto simp: and_then_Done)
  with Cons show ?case
    by (simp add: and_then_Done)
qed simp

lemma contact_all_length: "contact_all env cf peers hosts k m = Done (outs, m') \<Longrightarrow> length outs = length hosts"
  by (induction env cf peers hosts k m arbitrary: outs m' rule: contact_all.induct) (auto simp: and_then_Done)

lemma last_failure_None: "last_failure re outs = None \<longleftrightarrow> re = None \<and> (\<forall>e\<in>set outs. e = None)"
  by (induction outs arbitrary: re) (auto simp: last_failure_def)

lemma last_failure_Cons: "last_failure re (e # outs) = last_failure (if e = None then re else e) outs"
  by (simp add: last_failure_def)

lemma last_failure_append: "last_failure re (xs @ ys) = last_failure (last_failure re xs) ys"
  by (simp add: last_failure_def)

lemma join_addrs_contacts:
  "join_addrs env cf peers addrs k ns re m = Done (k', ns', re', m') \<Longrightarrow>
   \<exists>outs. contact_all env cf peers (map Inr addrs) k m = Done (outs, m') \<and> k' = k + length addrs \<and>
     ns' = ns + successes outs \<and> re' = last_failure re outs"
proof (induction addrs arbitrary: k ns re m)
  case Nil
  then show ?case
    by (simp add: successes_def last_failure_def)
next
  case (Cons a addrs)
  obtain dial conn fin where pe: "peers k a = (dial, conn, fin)"
    by (rule prod_cases3)
  obtain err m1 where c: "contact env cf peers k a m = Done (err, m1)"
    and rest: "join_addrs env cf peers addrs (k + 1) (if err = None then ns + 1 else ns) (if err = None then re else err) m1 =
      Done (k', ns', re', m')"
    using Cons.prems by (auto simp: pe contact_def and_then_Done split: if_splits)
  from Cons.IH[OF rest] c show ?case
    by (auto simp: and_then_Done successes_def last_failure_Cons)
qed

lemma join_hosts_contacts:
  "join_hosts resolve env cf peers existing k ns re m = Done (ns', re', m') \<Longrightarrow>
   \<exists>outs. contact_all env cf peers (contacts resolve existing) k m = Done (outs, m') \<and>
     ns' = ns + successes outs \<and> re' = last_failure re outs"
proof (induction existing arbitrary: k ns re m)
  case Nil
  then show ?case
    by (simp add: contacts_def successes_def last_failure_def)
next
  case (Cons h existing)
  show ?case
  proof (cases "resolve h")
    case (Inl e)
    then have "join_hosts resolve env cf peers existing k ns (Some e) m = Done (ns', re', m')"
      using Cons.prems by simp
    from Cons.IH[OF this] show ?thesis
      by (auto simp: contacts_def Inl and_then_Done successes_def last_failure_Cons)
  next
    case (Inr x)
    obtain addrs port where x: "x = (addrs, port)"
      by (rule prod.exhaust)
    obtain k1 ns1 re1 m1 where j: "join_addrs env cf peers (map (\<lambda>a. (a, port)) addrs) k ns re m = Done (k1, ns1, re1, m1)"
      and rest: "join_hosts resolve env cf peers existing k1 ns1 re1 m1 = Done (ns', re', m')"
      using Cons.prems by (auto simp: Inr x and_then_Done)
    obtain outs where outs: "contact_all env cf peers (map Inr (map (\<lambda>a. (a, port)) addrs)) k m = Done (outs, m1)"
      "k1 = k + length (map (\<lambda>a. (a, port)) addrs)" "ns1 = ns + successes outs" "re1 = last_failure re outs"
      using join_addrs_contacts[OF j] by blast
    obtain outs' where outs': "contact_all env cf peers (contacts resolve existing) k1 m1 = Done (outs', m')"
      "ns' = ns1 + successes outs'" "re' = last_failure re1 outs'"
      using Cons.IH[OF rest] by blast
    have "contacts resolve (h # existing) = map Inr (map (\<lambda>a. (a, port)) addrs) @ contacts resolve existing"
      by (simp add: contacts_def Inr x comp_def)
    with contact_all_addrs[OF outs(1) outs'(1)[unfolded outs(2)]] show ?thesis
      using outs(3,4) outs'(2,3) by (simp add: successes_def last_failure_append)
  qed
qed

text \<open>
  C18: \<open>Join\<close> exchanges states with every address the hosts resolve to, one after the other,
  each as the last one left the nodes; it counts the exchanges that brought no error; when none did it
  returns the last error there was, if there was anything to try.  Whatever the peers answered, the nodes
  stay consistent and nothing known is turned back.
\<close>

theorem join_result:
  assumes "ml_ok m" "0 \<le> ne_nodes_room env"
    "int (length (ml_nodes m)) + int (attempts (resolveAddr parse lookup cf) existing) * ne_nodes_room env < 2 ^ 32"
    "joinList parse lookup env cf peers existing m = Done ((n, err), m')"
  shows "(\<exists>outs. contact_all env cf peers (contacts (resolveAddr parse lookup cf) existing) 0 m = Done (outs, m') \<and>
      length outs = length (contacts (resolveAddr parse lookup cf) existing) \<and>
      n = successes outs \<and> err = (if 0 < n then None else last_failure None outs)) \<and>
    (err = None \<longleftrightarrow> 0 < n \<or> contacts (resolveAddr parse lookup cf) existing = []) \<and>
    ml_ok m' \<and>
    (\<forall>nm st. look m nm = Some st \<longrightarrow> (\<exists>st'. look m' nm = Some st' \<and> (Incarnation st < Incarnation st' \<or>
       Incarnation st = Incarnation st' \<and> rank (State st) \<le> rank (State st'))))"
proof -
  obtain re where j: "join_hosts (resolveAddr parse lookup cf) env cf peers existing 0 0 None m = Done (n, re, m')"
    and err: "err = (if 0 < n then None else re)"
    using assms(4) by (auto simp: joinList_def and_then_Done)
  obtain k where f: "forward cf m m' k"
    using join_hosts_spec[OF assms(1-3) j] by blast
  have "\<exists>st'. look m' nm = Some st' \<and> (Incarnation st < Incarnation st' \<or>
       Incarnation st = Incarnation st' \<and> rank (State st) \<le> rank (State st'))" if "look m nm = Some st" for nm st
    using f that unfolding forward_def kept_def news_def by blast
  moreover obtain outs where outs: "contact_all env cf peers (contacts (resolveAddr parse lookup cf) existing) 0 m = Done (outs, m')"
    "n = 0 + successes outs" "re = last_failure None outs"
    using join_hosts_contacts[OF j] by blast
  have l: "length outs = length (contacts (resolveAddr parse lookup cf) existing)"
    by (rule contact_all_length[OF outs(1)])
  have "err = None \<longleftrightarrow> 0 < n \<or> contacts (resolveAddr parse lookup cf) existing = []"
    using err outs(2,3) l last_failure_None[of None outs] by (cases "outs = []") (auto simp: successes_def)
  ultimately show ?thesis
    using f outs err l by (auto simp: forward_def)
qed

theorem join_result_witness:
  "joinList (\<lambda>_. Some [10, 0, 0, 2]) (\<lambda>_. Inl EOF) env_a cfg_a (\<lambda>_ _. (Some ConnReset, [], EOF)) [''b''] ml_a =
     Done ((0, Some ConnReset), ml_a) \<and> ml_ok ml_a"
proof -
  have r: "resolveAddr (\<lambda>_. Some [10, 0, 0, 2]) (\<lambda>_. Inl EOF) cfg_a ''b'' = Inr ([[10, 0, 0, 2]], 7946)"
    by (simp add: resolveAddr_def net_split_def cfg_a_def)
  have j: "joinList (\<lambda>_. Some [10, 0, 0, 2]) (\<lambda>_. Inl EOF) env_a cfg_a (\<lambda>_ _. (Some ConnReset, [], EOF)) [''b''] ml_a =
      Done ((0, Some ConnReset), ml_a)"
    by (simp add: joinList_def r pushPullNode_def sendAndReceiveState_def)
  have "int (length (ml_nodes ml_a)) + int (attempts (resolveAddr (\<lambda>_. Some [10, 0, 0, 2]) (\<lambda>_. Inl EOF) cfg_a) [''b'']) *
      ne_nodes_room env_a < 2 ^ 32" "0 \<le> ne_nodes_room env_a"
    using r by (simp_all add: env_a_def ml_a_def ml_with_def)
  then show ?thesis
    using join_result[OF ml_ok_a _ _ j] j by blast
qed

section \<open>What an exchange teaches\<close>

text \<open>Entries stay, at their address, and their incarnations do not go down.\<close>

definition follows :: "(string \<rightharpoonup> nodeState) \<Rightarrow> (string \<rightharpoonup> nodeState) \<Rightarrow> bool" where
  "follows l l' \<longleftrightarrow> (\<forall>n st. l n = Some st \<longrightarrow>
     (\<exists>st'. l' n = Some st' \<and> Incarnation st \<le> Incarnation st' \<and> Addr st' = Addr st \<and> Port st' = Port st))"

lemma follows_refl [simp]: "follows l l"
  by (simp add: follows_def)

lemma follows_trans:
  assumes "follows l l1" "follows l1 l'"
  shows "follows l l'"
  unfolding follows_def
proof (intro allI impI)
  fix n st
  assume "l n = Some st"
  then obtain st1 where 1: "l1 n = Some st1" "Incarnation st \<le> Incarnation st1" "Addr st1 = Addr st" "Port st1 = Port st"
    using assms(1) unfolding follows_def by blast
  then obtain st2 where "l' n = Some st2" "Incarnation st1 \<le> Incarnation st2" "Addr st2 = Addr st1" "Port st2 = Port st1"
    using assms(2) unfolding follows_def by blast
  then show "\<exists>st'. l' n = Some st' \<and> Incarnation st \<le> Incarnation st' \<and> Addr st' = Addr st \<and> Port st' = Port st"
    using 1 order_trans[OF 1(2)] by (intro exI[of _ st2]) simp
qed

lemma follows_upd:
  "(\<And>st. l n = Some st \<Longrightarrow> Incarnation st \<le> Incarnation st' \<and> Addr st' = Addr st \<and> Port st' = Port st) \<Longrightarrow>
   follows l (l(n \<mapsto> st'))"
  by (simp add: follows_def)

lemma follows_alive:
  assumes "ml_ok m" "length (ml_nodes m) < 2 ^ 32" "aliveNode cf draw now a k False m = Done m'"
  shows "follows (look m) (look m')"
  using aliveNode_spec[OF assms]
proof (elim conjE disjE exE)
  fix st'
  assume h: "look m' = (look m)(al_Node a \<mapsto> st')" "alive_effect cf now a False (known_or_fresh a m) st'"
  show ?thesis
    unfolding h(1) using h(2) by (intro follows_upd) (auto simp: known_or_fresh_def alive_effect_def)
qed simp

lemma follows_suspect:
  assumes "ml_ok m" "suspectNode cf now s m = Done m'"
  shows "follows (look m) (look m')"
  using suspectNode_spec[OF assms]
proof (elim conjE disjE exE)
  fix st st'
  assume h: "look m (su_Node s) = Some st" "look m' = (look m)(su_Node s \<mapsto> st')"
    "accused_effect cf (Name st = cf_Name cf) (su_Incarnation s) now stateSuspect st st'"
  show ?thesis
    unfolding h(2) using h(1,3) by (intro follows_upd) (auto simp: accused_effect_def split: if_splits)
qed simp

text \<open>A node is known, and if at the address of the message, with an incarnation not below it.\<close>

definition knows :: "memberlist \<Rightarrow> string \<Rightarrow> bytes \<Rightarrow> u16 \<Rightarrow> u32 \<Rightarrow> bool" where
  "knows m n addr port inc \<longleftrightarrow>
     (\<exists>st. look m n = Some st \<and> (Addr st = addr \<and> Port st = port \<longrightarrow> inc \<le> Incarnation st))"

lemma knows_follows:
  assumes "knows m n addr port inc" "follows (look m) (look m')"
  shows "knows m' n addr port inc"
proof -
  obtain st where st: "look m n = Some st" "Addr st = addr \<and> Port st = port \<longrightarrow> inc \<le> Incarnation st"
    using assms(1) unfolding knows_def by blast
  then obtain st' where "look m' n = Some st'" "Incarnation st \<le> Incarnation st'" "Addr st' = Addr st" "Port st' = Port st"
    using assms(2) unfolding follows_def by blast
  then show ?thesis
    using st(2) order_trans[of inc "Incarnation st" "Incarnation st'"] unfolding knows_def by (intro exI[of _ st']) simp
qed

lemma alive_known_learns:
  assumes "ml_ok m" "ml_nodeMap m (al_Node a) = Some p" "alive_known cf now a k False p m = Done m'"
  shows "knows m' (al_Node a) (al_Addr a) (al_Port a) (al_Incarnation a)"
proof -
  let ?st = "deref m p"
  obtain st' where st': "look m' = (look m)(al_Node a \<mapsto> st')" "alive_effect cf now a False ?st st'"
    using alive_known_spec[OF assms] by blast
  have "al_Incarnation a \<le> Incarnation st'" if h: "Addr st' = al_Addr a" "Port st' = al_Port a"
  proof (rule ccontr)
    assume "\<not> al_Incarnation a \<le> Incarnation st'"
    then have same: "st' = ?st" and less: "Incarnation ?st < al_Incarnation a"
      using st'(2) by (auto simp: alive_effect_def)
    have e: "alive_known cf now a k False p m =
        (if Name ?st = cf_Name cf
         then and_then (refute (al_Incarnation a) p k m) (\<lambda>m1. Done (events cf (State ?st) (Meta ?st) p m1))
         else (let m1 = encodeBroadcastNotify (al_Node a) aliveMsg (alive_struct a) k m
               in if 0 < length (al_Vsn a) \<and> length (al_Vsn a) < 6 then Panic
                  else Done (events cf (State ?st) (Meta ?st) p (assign p (set_alive now a ?st) m1))))"
      using less h same by (auto simp: alive_known_def Let_def)
    show False
    proof (cases "Name ?st = cf_Name cf")
      case True
      then obtain m1 where m1: "refute (al_Incarnation a) p k m = Done m1" "m' = events cf (State ?st) (Meta ?st) p m1"
        using assms(3) e by (auto simp: and_then_Done)
      then have "al_Incarnation a \<noteq> - 1"
        using refute_spec(1)[OF assms(1,2)] by auto
      from refute_spec(2)[OF assms(1,2) this, of k] m1 obtain inc where
        "al_Incarnation a < inc" "look m' = (look m)(al_Node a \<mapsto> ?st\<lparr>Incarnation := inc\<rparr>)"
        by (auto simp: frame)
      then have "?st\<lparr>Incarnation := inc\<rparr> = ?st"
        using fun_cong[OF st'(1), of "al_Node a"] same by simp
      then have "Incarnation (?st\<lparr>Incarnation := inc\<rparr>) = Incarnation ?st"
        by (rule arg_cong)
      then have "Incarnation ?st = inc"
        by simp
      then show False
        using less \<open>al_Incarnation a < inc\<close> by simp
    next
      case False
      let ?m1 = "encodeBroadcastNotify (al_Node a) aliveMsg (alive_struct a) k m"
      have ok: "ml_ok ?m1" "ml_nodeMap ?m1 (al_Node a) = Some p"
        using assms(1,2) by (auto simp: frame)
      have "m' = events cf (State ?st) (Meta ?st) p (assign p (set_alive now a ?st) ?m1)"
        using assms(3) e False by (auto simp: Let_def split: if_splits)
      then have "look m' (al_Node a) = Some (set_alive now a ?st)"
        by (simp add: frame look_assign[OF ok])
      then have "set_alive now a ?st = ?st"
        using st'(1) same by simp
      then show False
        using less set_alive_simps(2)[of now a ?st] by simp
    qed
  qed
  then show ?thesis
    by (simp add: knows_def st'(1))
qed

lemma alive_learns:
  assumes "ml_ok m" "length (ml_nodes m) < 2 ^ 32" "cf_Alive cf = None" "\<not> (ml_leave m \<and> al_Node a = cf_Name cf)"
    "aliveNode cf draw now a k False m = Done m'"
  shows "knows m' (al_Node a) (al_Addr a) (al_Port a) (al_Incarnation a)"
proof -
  obtain p m1 where pm: "(case ml_nodeMap m (al_Node a) of Some p \<Rightarrow> (p, m) | None \<Rightarrow> add_node draw a m) = (p, m1)"
    by (rule prod.exhaust)
  have k: "alive_known cf now a k False p m1 = Done m'"
    using assms(3-5) pm by (auto simp: aliveNode_def ask_alive_def)
  have "ml_ok m1 \<and> ml_nodeMap m1 (al_Node a) = Some p"
  proof (cases "ml_nodeMap m (al_Node a)")
    case None
    then have "add_node draw a m = (p, m1)"
      using pm by simp
    from add_node_spec[OF assms(1) None this assms(2)] show ?thesis
      by blast
  qed (use pm assms(1) in simp)
  then show ?thesis
    using alive_known_learns k by blast
qed

lemma merge_one_step:
  assumes "ml_ok m" "length (ml_nodes m) < 2 ^ 32" "merge_one cf draw now r m = Done m1"
  shows "ml_ok m1 \<and> length (ml_nodes m1) \<le> Suc (length (ml_nodes m)) \<and> follows (look m) (look m1) \<and>
    ml_leave m1 = ml_leave m"
proof -
  have acc: ?thesis if a: "suspectNode cf now s m = Done m1" for s
  proof -
    have "ml_ok m1 \<and> ml_leave m1 = ml_leave m \<and> ml_nodes m1 = ml_nodes m"
      using suspectNode_spec[OF assms(1) a] by (intro conjI; elim conjE)
    then show ?thesis
      using follows_suspect[OF assms(1) a] by simp
  qed
  show ?thesis
  proof (cases "pn_State r = state_code stateAlive")
    case True
    then have al: "aliveNode cf draw now (alive_of_push r) None False m = Done m1"
      using assms(3) by (simp add: merge_one_def)
    from aliveNode_spec[OF assms(1,2) al] follows_alive[OF assms(1,2) al] show ?thesis
      by (intro conjI; elim conjE)
  next
    case False
    show ?thesis
    proof (cases "pn_State r = state_code stateDead \<or> pn_State r = state_code stateSuspect")
      case True
      show ?thesis
        by (rule acc) (use assms(3) False True in \<open>simp add: merge_one_def\<close>)
    next
      case no: False
      have "m1 = m"
        using assms(3) False no by (simp add: merge_one_def)
      then show ?thesis
        using assms(1) by simp
    qed
  qed
qed

lemma merge_teaches:
  assumes "ml_ok m" "length (ml_nodes m) + length remote < 2 ^ 32" "cf_Alive cf = None"
    "mergeState cf draws now remote m = Done m'"
  shows "follows (look m) (look m') \<and>
    (\<forall>r\<in>set remote. pn_State r = state_code stateAlive \<and> \<not> (ml_leave m \<and> pn_Name r = cf_Name cf) \<longrightarrow>
       knows m' (pn_Name r) (pn_Addr r) (pn_Port r) (pn_Incarnation r))"
  using assms
proof (induction remote arbitrary: m draws)
  case (Cons r remote)
  obtain m1 where m1: "merge_one cf (draws 0) now r m = Done m1" "mergeState cf (\<lambda>i. draws (Suc i)) now remote m1 = Done m'"
    using Cons.prems(4) by (auto simp: and_then_Done)
  have len: "length (ml_nodes m) < 2 ^ 32"
    using Cons.prems(2) by simp
  have one: "ml_ok m1" "length (ml_nodes m1) + length remote < 2 ^ 32" "follows (look m) (look m1)" "ml_leave m1 = ml_leave m"
    using merge_one_step[OF Cons.prems(1) len m1(1)] Cons.prems(2) by auto
  note IH = Cons.IH[OF one(1,2) Cons.prems(3) m1(2)]
  have "knows m' (pn_Name r) (pn_Addr r) (pn_Port r) (pn_Incarnation r)"
    if h: "pn_State r = state_code stateAlive" "\<not> (ml_leave m \<and> pn_Name r = cf_Name cf)"
  proof -
    have "aliveNode cf (draws 0) now (alive_of_push r) None False m = Done m1"
      using m1(1) h(1) by (simp add: merge_one_def)
    from alive_learns[OF Cons.prems(1) len Cons.prems(3) _ this] h(2)
    have "knows m1 (pn_Name r) (pn_Addr r) (pn_Port r) (pn_Incarnation r)"
      by (simp add: alive_of_push_def)
    then show ?thesis
      using IH knows_follows by blast
  qed
  then show ?case
    using IH one(3,4) follows_trans by auto
qed simp

lemma merge_accepted:
  assumes "ml_mergeRemoteState env cf join remote user m = Done (None, m')"
  shows "\<exists>m2. mergeState cf (ne_draws env) (ne_now env) remote m = Done m2 \<and>
    m' = (if cf_Delegate cf then emit [UserState user join] m2 else m2)"
proof -
  have "verifyProtocol remote m = Returns None"
    using assms by (simp add: ml_mergeRemoteState_def split: outcome.splits option.splits)
  moreover obtain refused where "ask_merge cf join remote = Done refused"
    using assms calculation by (auto simp: ml_mergeRemoteState_def and_then_Done)
  ultimately have "refused = None"
    "and_then (mergeState cf (ne_draws env) (ne_now env) remote m)
      (\<lambda>m1. Done (None :: goerr option, if cf_Delegate cf then emit [UserState user join] m1 else m1)) = Done (None, m')"
    using assms by (auto simp: ml_mergeRemoteState_def split: if_splits)
  then show ?thesis
    by (simp only: and_then_Done) blast
qed

text \<open>
  C17: when a node takes in the state that a peer sent (compressed and encrypted as
  configured, no longer on the stream than \<open>maxPushStateBytes\<close>) and does not refuse it, it knows every
  node the peer had alive: at the peer's address for it (the port as the protocol version
  reads it) with an incarnation no lower, or still at another address, which is a conflict.  Only a
  node that is leaving does not take back its own name.
\<close>

theorem exchange_teaches:
  assumes "linked envb cfb env cf" "sendLocalState envb cfb join mb = (None, mb')"
    "\<forall>p\<in>set (ml_nodes mb). sendable (deref mb p)"
    "int (length (ml_nodes mb)) \<le> ne_nodes_room env" "ne_nodes_room env < 2 ^ 63"
    "int (length (if cf_Delegate cfb then ne_local envb join else [])) \<le> ne_room env" "ne_room env < 2 ^ 63"
    "length (tcp_body envb cfb (local_state envb cfb join mb)) + 45 \<le> maxPushStateBytes"
    "ml_ok m" "length (ml_nodes m) + length (ml_nodes mb) < 2 ^ 32" "cf_Alive cf = None"
  shows "\<exists>wire. mb' = emit [SendTCP wire] mb \<and>
    (\<forall>m'. pushPullNode env cf None wire fin join m = Done (None, m') \<longrightarrow>
       (\<forall>p\<in>set (ml_nodes mb). State (deref mb p) = stateAlive \<and> \<not> (ml_leave m \<and> Name (deref mb p) = cf_Name cf) \<longrightarrow>
          knows m' (Name (deref mb p)) (Addr (deref mb p)) (pn_Port (fix_port cf (push_of (deref mb p))))
            (Incarnation (deref mb p))))"
proof -
  let ?remote = "map (\<lambda>p. fix_port cf (push_of (deref mb p))) (ml_nodes mb)"
  obtain user where user: "user = (if cf_Delegate cfb then ne_local envb join else [])"
    by simp
  obtain wire buf fin' where w: "mb' = emit [SendTCP wire] mb" "readTCP env cf wire fin = Returns (Inr (pushPullMsg, buf, fin'))"
    "readRemoteState env cf buf fin' = Returns (Inr (join, ?remote, user))"
    using state_read[OF assms(1-3) user assms(4,5) assms(6)[folded user] assms(7,8)] by blast
  have taught: "knows m' (pn_Name r) (pn_Addr r) (pn_Port r) (pn_Incarnation r)"
    if h: "pushPullNode env cf None wire fin join m = Done (None, m')" and r: "r \<in> set ?remote"
      "pn_State r = state_code stateAlive" "\<not> (ml_leave m \<and> pn_Name r = cf_Name cf)" for m' r
  proof -
    obtain sent m1 where sl: "sendLocalState env cf join m = (sent, m1)"
      by (rule prod.exhaust)
    have q: "quiet m m1"
      using quiet_sendLocalState[of m env cf join] by (simp add: sl)
    note ok = quiet_ok[OF q assms(9)]
    have "ml_mergeRemoteState env cf join ?remote user m1 = Done (None, m')"
      using h w(2,3) sl by (cases sent) (simp_all add: pushPullNode_def sendAndReceiveState_def)
    from merge_accepted[OF this] obtain m2 where m2: "mergeState cf (ne_draws env) (ne_now env) ?remote m1 = Done m2"
      "m' = (if cf_Delegate cf then emit [UserState user join] m2 else m2)"
      by blast
    have "length (ml_nodes m1) + length ?remote < 2 ^ 32"
      using assms(10) ok(3) by simp
    from merge_teaches[OF ok(1) this assms(11) m2(1)] have "knows m2 (pn_Name r) (pn_Addr r) (pn_Port r) (pn_Incarnation r)"
      using r ok(4) by blast
    then show ?thesis
      by (simp add: m2(2) knows_def frame)
  qed
  have fp: "pn_Name (fix_port cf (push_of st)) = Name st" "pn_Addr (fix_port cf (push_of st)) = Addr st"
    "pn_Incarnation (fix_port cf (push_of st)) = Incarnation st" "pn_State (fix_port cf (push_of st)) = state_code (State st)" for st
    by (simp_all add: fix_port_def push_of_def)
  show ?thesis
  proof (intro exI[of _ wire] conjI allI impI ballI)
    fix m' p
    assume h: "pushPullNode env cf None wire fin join m = Done (None, m')" and p: "p \<in> set (ml_nodes mb)"
      "State (deref mb p) = stateAlive \<and> \<not> (ml_leave m \<and> Name (deref mb p) = cf_Name cf)"
    have "fix_port cf (push_of (deref mb p)) \<in> set ?remote"
      using p(1) by simp
    from taught[OF h this] p(2) show "knows m' (Name (deref mb p)) (Addr (deref mb p))
        (pn_Port (fix_port cf (push_of (deref mb p)))) (Incarnation (deref mb p))"
      by (simp add: fp)
  qed (rule w(1))
qed

theorem exchange_teaches_witness:
  "\<exists>wire. snd (sendLocalState env_z cfg_z True ml_a) = emit [SendTCP wire] ml_a \<and>
    (\<forall>m'. pushPullNode env_z cfg_z None wire EOF True ml_a = Done (None, m') \<longrightarrow>
       knows m' ''b'' [127, 0, 0, 1] 7946 3)"
proof -
  have n: "1 \<in> set (ml_nodes ml_a)" "deref ml_a 1 = state_b ''b'' 3 stateAlive" "length (ml_nodes ml_a) = 2"
    by (simp_all add: ml_a_def ml_with_def deref_def)
  have port: "pn_Port (fix_port cfg_z (push_of (state_b ''b'' 3 stateAlive))) = 7946"
    by (simp add: fix_port_def push_of_def protocolVersion_def cfg_z_def cfg_a_def)
  moreover have "int (length (if cf_Delegate cfg_z then ne_local env_z True else [])) \<le> ne_room env_z"
    unfolding state_z(4) by (rule state_z(7))
  moreover have "length (ml_nodes ml_a) + length (ml_nodes ml_a) < 2 ^ 32" "cf_Alive cfg_z = None" "\<not> ml_leave ml_a"
    using n(3) by (simp_all add: ml_a_def ml_with_def cfg_z_def cfg_a_def)
  ultimately obtain wire where w: "snd (sendLocalState env_z cfg_z True ml_a) = emit [SendTCP wire] ml_a"
    "\<forall>m'. pushPullNode env_z cfg_z None wire EOF True ml_a = Done (None, m') \<longrightarrow>
       (\<forall>p\<in>set (ml_nodes ml_a). State (deref ml_a p) = stateAlive \<and> \<not> (ml_leave ml_a \<and> Name (deref ml_a p) = cf_Name cfg_z) \<longrightarrow>
          knows m' (Name (deref ml_a p)) (Addr (deref ml_a p)) (pn_Port (fix_port cfg_z (push_of (deref ml_a p))))
            (Incarnation (deref ml_a p)))"
    using exchange_teaches[OF linked_z state_z(2,3,5,6) _ state_z(8,1) ml_ok_a, of EOF] by blast
  have "knows m' ''b'' [127, 0, 0, 1] 7946 3" if h: "pushPullNode env_z cfg_z None wire EOF True ml_a = Done (None, m')" for m'
    using w(2)[rule_format, OF h n(1)] port n(2) \<open>\<not> ml_leave ml_a\<close> by simp
  then show ?thesis
    using w(1) by blast
qed

section \<open>User messages\<close>

lemma emit_once: "emit [SendTCP w] m = emit [SendTCP w'] m \<longleftrightarrow> w = w'"
  by (cases m) (auto simp: emit_def)

lemma user_header: "int (length msg) < 2 ^ 63 \<Longrightarrow>
  dec_next struct_user zero_user (encodeStruct (user_struct \<lparr>um_UserMsgLen = int (length msg)\<rparr>) @ r) =
    Some (\<lparr>um_UserMsgLen = int (length msg)\<rparr>, r)"
  by (intro dec_encode) (simp_all add: wf_structs fits_int_def)

text \<open>
  C21: a message sent by \<open>SendToUDP\<close> goes out as one packet, which puts it, unless
  1024 messages wait there already, into the queue of the peer's handler, who gives it to the
  delegate; one that \<open>SendToTCP\<close> sends without an error, no longer on the stream than
  \<open>maxPushStateBytes\<close>, is given to the delegate at once, unless it is empty, when the peer drops it.
\<close>

theorem user_messages_arrive:
  assumes "linked env cf envb cfb" "cf_Delegate cfb" "int (length msg) \<le> ne_room envb" "ne_room envb < 2 ^ 63"
    "length (tcp_body env cf (userMsg # encodeStruct (user_struct \<lparr>um_UserMsgLen = int (length msg)\<rparr>) @ msg)) + 45
      \<le> maxPushStateBytes"
  shows "(\<exists>wire. snd (sendToUDP env cf to msg m) = emit [SendUDP (Addr to, Port to) wire] m \<and>
      (\<forall>src mb. length (ml_handoff mb) < 1024 \<longrightarrow>
         (\<exists>mb'. ingestPacket envb cfb src wire mb = Done mb' \<and> mb' = mb\<lparr>ml_handoff := ml_handoff mb @ [(userMsg, msg)]\<rparr> \<and>
            (ml_handoff mb = [] \<longrightarrow> udpHandler envb cfb mb' = Done (emit [UserMsg msg] mb))))) \<and>
    (sendToTCP env cf dial to msg m = (None, m') \<longrightarrow>
      (\<exists>wire. m' = emit [SendTCP wire] m \<and>
         (\<forall>fin mb. handleConn envb cfb wire fin mb = Done (if msg = [] then mb else emit [UserMsg msg] mb))))"
proof (intro conjI impI)
  obtain err m1 where r: "rawSendMsgUDP env cf (Addr to, Port to) (userMsg # msg) m = (err, m1)"
    by (rule prod.exhaust)
  obtain wire where w: "m1 = emit [SendUDP (Addr to, Port to) wire] m"
    "\<forall>src mb. \<exists>tail. ingestPacket envb cfb src wire mb = handleCommand envb cfb src (userMsg # msg) tail mb"
    using udp_arrives[OF assms(1) r] by blast
  have "\<exists>mb'. ingestPacket envb cfb src wire mb = Done mb' \<and> mb' = mb\<lparr>ml_handoff := ml_handoff mb @ [(userMsg, msg)]\<rparr> \<and>
      (ml_handoff mb = [] \<longrightarrow> udpHandler envb cfb mb' = Done (emit [UserMsg msg] mb))"
    if room: "length (ml_handoff mb) < 1024" for src mb
  proof -
    let ?mb = "mb\<lparr>ml_handoff := ml_handoff mb @ [(userMsg, msg)]\<rparr>"
    obtain tail where t: "ingestPacket envb cfb src wire mb = handleCommand envb cfb src (userMsg # msg) tail mb"
      using w(2) by blast
    have "command_step envb cfb src (userMsg # msg) tail mb = Returns ([], ?mb)"
      using room by (simp add: command_step_def message_types hand_off_def)
    then have "handleCommand envb cfb src (userMsg # msg) tail mb = Done ?mb"
      unfolding handleCommand_def by (subst handle_all.simps) (simp add: handle_all.simps run_of_def)
    moreover have "udpHandler envb cfb ?mb = Done (emit [UserMsg msg] mb)" if e: "ml_handoff mb = []"
    proof -
      have "mb\<lparr>ml_handoff := []\<rparr> = mb"
        using e by (cases mb) simp
      moreover have "udpHandler envb cfb ?mb = Done (emit [UserMsg msg] (mb\<lparr>ml_handoff := []\<rparr>))"
        using assms(2) e by (simp add: udpHandler_def handleUser_def message_types)
      ultimately show ?thesis
        by (simp only:)
    qed
    ultimately show ?thesis
      using t by auto
  qed
  then show "\<exists>wire. snd (sendToUDP env cf to msg m) = emit [SendUDP (Addr to, Port to) wire] m \<and>
      (\<forall>src mb. length (ml_handoff mb) < 1024 \<longrightarrow>
         (\<exists>mb'. ingestPacket envb cfb src wire mb = Done mb' \<and> mb' = mb\<lparr>ml_handoff := ml_handoff mb @ [(userMsg, msg)]\<rparr> \<and>
            (ml_handoff mb = [] \<longrightarrow> udpHandler envb cfb mb' = Done (emit [UserMsg msg] mb))))"
    using r w(1) by (intro exI[of _ wire]) (simp add: sendToUDP_def)
next
  let ?h = "\<lparr>um_UserMsgLen = int (length msg)\<rparr>"
  let ?body = "encodeStruct (user_struct ?h) @ msg"
  assume "sendToTCP env cf dial to msg m = (None, m')"
  then have s: "rawSendMsgTCP env cf (userMsg # ?body) m = (None, m')"
    by (simp add: sendToTCP_def sendTCPUserMsg_def Let_def split: if_splits)
  have t: "userMsg \<noteq> encryptMsg" "userMsg \<noteq> compressMsg"
    by (simp_all add: message_types)
  have arr: "\<exists>wire fin'. m' = emit [SendTCP wire] m \<and> readTCP envb cfb wire fin = Returns (Inr (userMsg, ?body, fin'))" for fin
    using tcp_arrives[OF assms(1) t s assms(5), of fin] by (elim exE conjE) (intro exI conjI)
  then obtain wire where m': "m' = emit [SendTCP wire] m"
    by blast
  have "handleConn envb cfb wire fin mb = Done (if msg = [] then mb else emit [UserMsg msg] mb)" for fin mb
  proof -
    obtain fin' where rd: "readTCP envb cfb wire fin = Returns (Inr (userMsg, ?body, fin'))"
    proof -
      obtain w2 fin' where "m' = emit [SendTCP w2] m" "readTCP envb cfb w2 fin = Returns (Inr (userMsg, ?body, fin'))"
        using arr[of fin] by (elim exE conjE)
      moreover have "w2 = wire"
        using calculation(1) m' emit_once[of w2 m wire] by simp
      ultimately show thesis
        by (intro that) simp
    qed
    have "int (length msg) < 2 ^ 63"
      using assms(3,4) by simp
    then have "readUserMsg envb cfb ?body fin' mb = Done (None, if msg = [] then mb else emit [UserMsg msg] mb)"
      using user_header[of msg msg] assms(2,3) by (simp add: readUserMsg_def Let_def readFull_def)
    then show ?thesis
      by (simp add: handleConn_def rd)
  qed
  then show "\<exists>wire. m' = emit [SendTCP wire] m \<and>
      (\<forall>fin mb. handleConn envb cfb wire fin mb = Done (if msg = [] then mb else emit [UserMsg msg] mb))"
    using m' by blast
qed

lemma user_len: "length (encodeStruct (user_struct \<lparr>um_UserMsgLen = 1\<rparr>)) = 13"
  by (simp add: encodeStruct_def user_struct_def sfi_def encodeInt_def encodeUint_def writeContainerLen_def
      containers encodeString_def)

theorem user_messages_arrive_witness:
  "\<exists>wire m'. sendToTCP env_z cfg_z (\<lambda>_. None) (node_of (state_b ''b'' 3 stateAlive)) [7] ml_a = (None, m') \<and>
    m' = emit [SendTCP wire] ml_a \<and> handleConn env_z cfg_z wire EOF ml_a = Done (emit [UserMsg [7]] ml_a)"
proof -
  let ?to = "node_of (state_b ''b'' 3 stateAlive)"
  let ?body = "userMsg # encodeStruct (user_struct \<lparr>um_UserMsgLen = int (length [7 :: byte])\<rparr>) @ [7]"
  have "sendToTCP env_z cfg_z (\<lambda>_. None) ?to [7] ml_a = rawSendMsgTCP env_z cfg_z ?body ml_a"
    by (simp add: sendToTCP_def sendTCPUserMsg_def Let_def)
  then obtain m' where s: "sendToTCP env_z cfg_z (\<lambda>_. None) ?to [7] ml_a = (None, m')"
    using rawSendMsgTCP_z[of ?body ml_a] by (metis prod.collapse)
  have "length ?body \<le> 400"
    by (simp add: user_len)
  then have "length (tcp_body env_z cfg_z ?body) + 45 \<le> maxPushStateBytes"
    using tcp_body_z[of ?body] by (simp add: maxPushStateBytes_def)
  moreover have "int (length [7 :: byte]) \<le> ne_room env_z" "ne_room env_z < 2 ^ 63"
    by (simp_all add: z_simps)
  ultimately show ?thesis
    using s user_messages_arrive[OF linked_z z_simps(4), of "[7]" ?to ml_a "\<lambda>_. None" m'] by auto
qed

section \<open>The secret key\<close>

text \<open>
  A secret key of any length but 16 makes \<open>Create\<close> fail, 24 and 32 included,
  which the configuration promises; one of 16 bytes is the primary key afterwards and turns
  encryption on.
\<close>

theorem secret_key_sizes:
  assumes "1 \<le> cf_ProtocolVersion cf" "cf_ProtocolVersion cf \<le> 3" "cf_SecretKey cf \<noteq> []"
    "case cf_Keyring cf of None \<Rightarrow> True | Some k \<Rightarrow> ring_ok k"
  shows "(length (cf_SecretKey cf) \<noteq> 16 \<longrightarrow>
      (\<exists>cf1. createList host tcp udp cf draw now = Done (Inl (ErrMsg ''key size must be 16 bytes''), cf1))) \<and>
    (length (cf_SecretKey cf) = 16 \<longrightarrow>
      (\<exists>cf1. newMemberlist None None cf = (Inr empty_memberlist, cf1) \<and>
         encryptionEnabled cf1 \<and> primary_of cf1 = cf_SecretKey cf))"
proof -
  let ?key = "cf_SecretKey cf"
  have v: "\<not> cf_ProtocolVersion cf < protocolVersionMin" "\<not> protocolVersionMax < cf_ProtocolVersion cf"
    using assms(1,2) by (simp_all only: protocolVersionMin_def protocolVersionMax_def not_less)
  have bad: "install_secret cf = (Some (ErrMsg ''key size must be 16 bytes''), cf\<lparr>cf_Keyring := cf_Keyring cf\<rparr>)"
    if "length ?key \<noteq> 16"
    using that assms(3) by (simp add: install_secret_def newKeyring_def addKey_def split: option.split)
  have good: "\<exists>k rest. install_secret cf = (None, cf\<lparr>cf_Keyring := Some k\<rparr>) \<and> k = ?key # rest" if "length ?key = 16"
  proof (cases "cf_Keyring cf")
    case None
    then show ?thesis
      using that assms(3)
      by (intro exI[of _ "[?key]"] exI[of _ "[]"])
        (simp add: install_secret_def newKeyring_def addKey_def installKeys_def getPrimaryKey_def)
  next
    case (Some k)
    then have ok: "ring_ok k"
      using assms(4) by simp
    let ?k1 = "if ?key \<in> set k then k else k @ [?key]"
    have "addKey k ?key = (None, ?k1)" "useKey ?k1 ?key = (None, installKeys ?k1 ?key)"
      using that by (simp_all add: addKey_eq[OF ok] useKey_def)
    then have "install_secret cf = (None, cf\<lparr>cf_Keyring := Some (installKeys ?k1 ?key)\<rparr>)"
      using assms(3) Some by (simp add: install_secret_def)
    then show ?thesis
      by (intro exI conjI) (assumption, simp only: installKeys_def)
  qed
  show ?thesis
  proof (intro conjI impI)
    assume "length ?key \<noteq> 16"
    from bad[OF this] show "\<exists>cf1. createList host tcp udp cf draw now = Done (Inl (ErrMsg ''key size must be 16 bytes''), cf1)"
      by (simp add: createList_def newMemberlist_def v)
  next
    assume "length ?key = 16"
    from good[OF this] obtain rest where "install_secret cf = (None, cf\<lparr>cf_Keyring := Some (?key # rest)\<rparr>)"
      by blast
    then show "\<exists>cf1. newMemberlist None None cf = (Inr empty_memberlist, cf1) \<and>
        encryptionEnabled cf1 \<and> primary_of cf1 = cf_SecretKey cf"
      by (simp add: newMemberlist_def v encryptionEnabled_def primary_of_def getKeys_def getPrimaryKey_def)
  qed
qed

theorem secret_key_sizes_witness:
  "\<exists>cf1. createList host_a None None ((defaultLANConfig ''a'')\<lparr>cf_SecretKey := replicate 32 7\<rparr>) 0 5 =
     Done (Inl (ErrMsg ''key size must be 16 bytes''), cf1)"
proof -
  let ?cf = "(defaultLANConfig ''a'')\<lparr>cf_SecretKey := replicate 32 (7 :: byte)\<rparr>"
  have "1 \<le> cf_ProtocolVersion ?cf" "cf_ProtocolVersion ?cf \<le> 3" "cf_SecretKey ?cf \<noteq> []"
    "case cf_Keyring ?cf of None \<Rightarrow> True | Some k \<Rightarrow> ring_ok k" "length (cf_SecretKey ?cf) \<noteq> 16"
    by (simp_all add: defaultLANConfig_def protocolVersionMax_def)
  then show ?thesis
    using secret_key_sizes[of ?cf host_a None None 0 5] by blast
qed

section \<open>Probing with the server's configuration\<close>

text \<open>
  C24: when the probe timeout is not below the probe interval, a node whose ack
  does not come within the interval is suspected, whatever the other nodes and the connection over
  TCP would have brought; when it is below, an ack that comes in between, by way of another node for
  instance, clears the node.
\<close>

theorem late_probe_suspects:
  assumes "probe_start env cf node m = (seqNo, None, m1)"
  shows "(cf_ProbeInterval cf \<le> cf_ProbeTimeout cf \<and> (\<forall>t payload. ack = Some (t, payload) \<longrightarrow> cf_ProbeInterval cf \<le> t) \<longrightarrow>
      (\<exists>m4. probeNode env cf draws ack dial conn fin others1 others2 node m =
         suspectNode cf (ne_now env) \<lparr>su_Incarnation = Incarnation node, su_Node = Name node, su_From = cf_Name cf\<rparr> (others2 m4))) \<and>
    (ack = Some (t, payload) \<and> cf_ProbeTimeout cf \<le> t \<and> t < cf_ProbeInterval cf \<longrightarrow>
      probeNode env cf draws ack dial conn fin others1 others2 node m = Panic \<or>
      (\<exists>m4. probeNode env cf draws ack dial conn fin others1 others2 node m = Done (others2 m4)))"
proof (intro conjI impI)
  assume h: "cf_ProbeInterval cf \<le> cf_ProbeTimeout cf \<and> (\<forall>t payload. ack = Some (t, payload) \<longrightarrow> cf_ProbeInterval cf \<le> t)"
  let ?late = "(cf_ProbeInterval cf, \<lparr>am_Complete = False, am_Payload = []\<rparr>)"
  have "ack_channel (cf_ProbeInterval cf) ack = [?late]"
    using h by (auto simp: ack_channel_def split: option.split)
  then have w: "\<exists>now got. first_wait cf (ack_channel (cf_ProbeInterval cf) ack) = (now, got, [?late]) \<and>
      cf_ProbeInterval cf \<le> now \<and> (\<forall>v. got = Some v \<longrightarrow> \<not> am_Complete v)"
    using h by (auto simp: first_wait_def)
  then obtain now got where w: "first_wait cf (ack_channel (cf_ProbeInterval cf) ack) = (now, got, [?late])"
    "cf_ProbeInterval cf \<le> now" "(case got of Some v \<Rightarrow> am_Complete v | None \<Rightarrow> False) = False"
    by (auto split: option.splits)
  have "probe_fallback env cf seqNo now dial conn fin node x = Returns (False, x)" for x
    using w(2) by (simp add: probe_fallback_def sendPingAndWaitForAck_def dial_until_def)
  then show "\<exists>m4. probeNode env cf draws ack dial conn fin others1 others2 node m =
      suspectNode cf (ne_now env) \<lparr>su_Incarnation = Incarnation node, su_Node = Name node, su_From = cf_Name cf\<rparr> (others2 m4)"
    unfolding probeNode_def assms by (auto simp: w Let_def)
next
  assume "ack = Some (t, payload) \<and> cf_ProbeTimeout cf \<le> t \<and> t < cf_ProbeInterval cf"
  then have w: "first_wait cf (ack_channel (cf_ProbeInterval cf) ack) =
      (cf_ProbeTimeout cf, None, [(t, \<lparr>am_Complete = True, am_Payload = payload\<rparr>)])"
    by (auto simp: first_wait_def ack_channel_def)
  show "probeNode env cf draws ack dial conn fin others1 others2 node m = Panic \<or>
      (\<exists>m4. probeNode env cf draws ack dial conn fin others1 others2 node m = Done (others2 m4))"
    unfolding probeNode_def assms by (auto simp: w Let_def split: outcome.split prod.split)
qed

lemma server_base_simps:
  "cf_ProbeInterval (server_base h n) = 2 * second" "cf_ProbeTimeout (server_base h n) = 4 * second"
  "cf_Name (server_base h n) = n" "cf_Keyring (server_base h n) = None" "cf_RetransmitMult (server_base h n) = 4"
  by (simp_all add: server_base_def defaultWANConfig_def defaultLANConfig_def)

theorem late_probe_suspects_witness:
  "\<exists>m4. probeNode env_a (server_base ''h'' ''a'') [] None None [] EOF id id (state_b ''b'' 3 stateAlive) ml_a =
     suspectNode (server_base ''h'' ''a'') 5 \<lparr>su_Incarnation = 3, su_Node = ''b'', su_From = ''a''\<rparr> m4"
proof -
  let ?cf = "server_base ''h'' ''a''" and ?node = "state_b ''b'' 3 stateAlive"
  have c: "compressPayload env_a x = Inl (ErrMsg ''lzw'')" for x
    by (simp add: compressPayload_def env_a_def)
  have "\<not> encryptionEnabled ?cf"
    by (simp add: encryptionEnabled_def server_base_simps)
  then have u: "fst (rawSendMsgUDP env_a ?cf to pkt m) = None" for to pkt m
    by (simp add: rawSendMsgUDP_def c Let_def env_a_simps)
  have "fst (snd (probe_start env_a ?cf ?node ml_a)) = None"
    using u by (simp add: probe_start_def encodeAndSendMsg_def sendMsg_def Let_def split_beta)
  then obtain seqNo m1 where p: "probe_start env_a ?cf ?node ml_a = (seqNo, None, m1)"
    by (metis prod.collapse)
  have "cf_ProbeInterval ?cf \<le> cf_ProbeTimeout ?cf"
    by (simp add: server_base_simps second_def)
  then show ?thesis
    using late_probe_suspects[OF p, of None "[]" None "[]" EOF id id]
    by (auto simp: server_base_simps env_a_def)
qed

end
