(* ===== verification/Listen.thy ===== *)
theory Listen
  imports JoinProps
begin

text \<open>
  The goroutines of a memberlist that never rest (\<open>net.go\<close>, \<open>state.go\<close>): the listeners for packets and
  connections, and the triggers behind probing, gossip and push/pull.  What they wait for, the
  errors and bytes of the sockets, ticks and the closing of the stop channel, is a list of events;
  a list that is used up is a goroutine that waits.
\<close>

section \<open>The receive buffer\<close>

definition udpRecvBuf :: int where "udpRecvBuf = 2 * 1024 * 1024"

text \<open>\<open>set_buf\<close> is \<open>SetReadBuffer\<close>; the size is halved until it accepts.\<close>

partial_function (option) shrink_buf :: "(int \<Rightarrow> goerr option) \<Rightarrow> int \<Rightarrow> int option" where
  "shrink_buf set_buf sz = (if set_buf sz = None then Some sz else shrink_buf set_buf (sz div 2))"

definition setUDPRecvBuf :: "(int \<Rightarrow> goerr option) \<Rightarrow> int option" where
  "setUDPRecvBuf set_buf = shrink_buf set_buf udpRecvBuf"

section \<open>The listeners\<close>

text \<open>\<open>others\<close> is what the other goroutines do while this one waits.\<close>

datatype read =
    ReadError
  | ReadPacket netaddr bytes
  | OthersRun "memberlist \<Rightarrow> memberlist"

fun udpListen :: "netenv \<Rightarrow> config \<Rightarrow> read list \<Rightarrow> memberlist \<Rightarrow> memberlist run" where
  "udpListen env cf [] m = Done m"
| "udpListen env cf (OthersRun f # evs) m = udpListen env cf evs (f m)"
| "udpListen env cf (ReadError # evs) m = (if ml_shutdown m then Done m else udpListen env cf evs m)"
| "udpListen env cf (ReadPacket src buf # evs) m =
     (if length buf < 1 then udpListen env cf evs m
      else and_then (ingestPacket env cf src buf m) (udpListen env cf evs))"

text \<open>
  A connection is handled in a goroutine of its own: the result is the connections that are
  handed on.
\<close>

datatype accept =
    AcceptError bool
  | Accepted bytes goerr

fun tcpListen :: "accept list \<Rightarrow> (bytes \<times> goerr) list" where
  "tcpListen [] = []"
| "tcpListen (AcceptError shutdown # evs) = (if shutdown then [] else tcpListen evs)"
| "tcpListen (Accepted conn fin # evs) = (conn, fin) # tcpListen evs"

section \<open>The triggers\<close>

text \<open>\<open>Tick f\<close>: after the others did \<open>f\<close>, the ticker ticks.\<close>

datatype tick =
    Tick "memberlist \<Rightarrow> memberlist"
  | StopTick

text \<open>\<open>f k\<close> is what is triggered, with the inputs it meets the \<open>k\<close>-th time.\<close>

fun trigger_loop :: "(nat \<Rightarrow> memberlist \<Rightarrow> memberlist run) \<Rightarrow> nat \<Rightarrow> tick list \<Rightarrow> memberlist \<Rightarrow> memberlist run" where
  "trigger_loop f k [] m = Done m"
| "trigger_loop f k (StopTick # evs) m = Done m"
| "trigger_loop f k (Tick g # evs) m = and_then (f k (g m)) (trigger_loop f (k + 1) evs)"

text \<open>The first wait is a random part of the interval.\<close>

definition randStagger :: "64 word \<Rightarrow> int \<Rightarrow> int" where
  "randStagger draw stagger = uint draw mod (stagger mod 2 ^ 64)"

definition triggerFunc ::
  "bool \<Rightarrow> (nat \<Rightarrow> memberlist \<Rightarrow> memberlist run) \<Rightarrow> tick list \<Rightarrow> memberlist \<Rightarrow> memberlist run" where
  "triggerFunc stopped f evs m = (if stopped then Done m else trigger_loop f 0 evs m)"

text \<open>The push/pull trigger works out how long to wait every time; the waits are the second result.\<close>

fun push_loop ::
  "config \<Rightarrow> (nat \<Rightarrow> memberlist \<Rightarrow> memberlist run) \<Rightarrow> nat \<Rightarrow> tick list \<Rightarrow> int list \<Rightarrow> memberlist \<Rightarrow> (int list \<times> memberlist) run" where
  "push_loop cf f k [] waits m = Done (waits @ [pushPullScale (cf_PushPullInterval cf) (estNumNodes m)], m)"
| "push_loop cf f k (StopTick # evs) waits m = Done (waits @ [pushPullScale (cf_PushPullInterval cf) (estNumNodes m)], m)"
| "push_loop cf f k (Tick g # evs) waits m =
     and_then (f k (g m))
       (push_loop cf f (k + 1) evs (waits @ [pushPullScale (cf_PushPullInterval cf) (estNumNodes m)]))"

definition pushPullTrigger ::
  "bool \<Rightarrow> config \<Rightarrow> (nat \<Rightarrow> memberlist \<Rightarrow> memberlist run) \<Rightarrow> tick list \<Rightarrow> memberlist \<Rightarrow> (int list \<times> memberlist) run" where
  "pushPullTrigger stopped cf f evs m = (if stopped then Done ([], m) else push_loop cf f 0 evs [] m)"

section \<open>The receive buffer shrinks\<close>

lemma shrink_buf_accepted: "shrink_buf set_buf sz = Some y \<Longrightarrow> \<exists>k. set_buf (sz div 2 ^ k) = None"
proof (rule shrink_buf.raw_induct[where P = "\<lambda>f s y. \<exists>k. f (s div 2 ^ k) = None"])
  fix shrink :: "(int \<Rightarrow> goerr option) \<Rightarrow> int \<Rightarrow> int option" and f s y
  assume IH: "\<And>f s y. shrink f s = Some y \<Longrightarrow> \<exists>k. f (s div 2 ^ k) = None"
    and e: "(if f s = None then Some s else shrink f (s div 2)) = Some y"
  show "\<exists>k. f (s div 2 ^ k) = None"
  proof (cases "f s = None")
    case True
    then show ?thesis
      by (intro exI[of _ 0]) simp
  next
    case False
    then have "shrink f (s div 2) = Some y"
      using e by (simp only: if_False)
    from IH[OF this] obtain k where "f (s div 2 div 2 ^ k) = None"
      by blast
    then show ?thesis
      by (intro exI[of _ "Suc k"]) (simp add: zdiv_zmult2_eq)
  qed
qed

lemma shrink_buf_None: "\<forall>k. set_buf (sz div 2 ^ k) \<noteq> None \<Longrightarrow> shrink_buf set_buf sz = None"
  using shrink_buf_accepted[of set_buf sz] by (cases "shrink_buf set_buf sz") blast+

lemma shrink_buf_Some:
  assumes "set_buf (sz div 2 ^ k) = None" "\<forall>i<k. set_buf (sz div 2 ^ i) \<noteq> None"
  shows "shrink_buf set_buf sz = Some (sz div 2 ^ k)"
  using assms
proof (induction k arbitrary: sz)
  case 0
  then show ?case
    by (subst shrink_buf.simps) simp
next
  case (Suc k)
  have h: "sz div 2 div 2 ^ i = sz div 2 ^ Suc i" for i
    by (simp add: zdiv_zmult2_eq)
  have "set_buf sz \<noteq> None"
    using Suc.prems(2) by force
  moreover have "shrink_buf set_buf (sz div 2) = Some (sz div 2 div 2 ^ k)"
    using Suc.prems by (intro Suc.IH) (auto simp: h simp del: power_Suc)
  ultimately show ?case
    by (subst shrink_buf.simps) (simp only: h if_False)
qed

text \<open>
  The receive buffer ends up at the first of the sizes 2 MB, 1 MB, and so on, that
  the socket accepts; the sizes run out at 0 after 22 steps, and if the socket refuses that too the
  loop never ends.
\<close>

theorem buffer_shrinks:
  "(setUDPRecvBuf set_buf = Some sz \<longrightarrow>
      set_buf sz = None \<and> (\<exists>k\<le>22. sz = udpRecvBuf div 2 ^ k \<and> (\<forall>i<k. set_buf (udpRecvBuf div 2 ^ i) \<noteq> None))) \<and>
   (setUDPRecvBuf set_buf = None \<longleftrightarrow> (\<forall>k\<le>22. set_buf (udpRecvBuf div 2 ^ k) \<noteq> None))"
proof -
  have zero: "udpRecvBuf div 2 ^ k = 0" if "22 \<le> k" for k
  proof -
    have "(2 :: int) ^ 22 \<le> 2 ^ k"
      using that by (rule power_increasing) simp
    then show ?thesis
      by (intro div_pos_pos_trivial) (simp_all add: udpRecvBuf_def)
  qed
  have all: "(\<forall>k\<le>22. set_buf (udpRecvBuf div 2 ^ k) \<noteq> None) \<longleftrightarrow> (\<forall>k. set_buf (udpRecvBuf div 2 ^ k) \<noteq> None)"
    using zero by (metis nat_le_linear order_refl)
  show ?thesis
  proof (cases "\<forall>k. set_buf (udpRecvBuf div 2 ^ k) \<noteq> None")
    case True
    then have "setUDPRecvBuf set_buf = None"
      unfolding setUDPRecvBuf_def by (rule shrink_buf_None)
    then show ?thesis
      using True by simp
  next
    case False
    define k where "k = (LEAST k. set_buf (udpRecvBuf div 2 ^ k) = None)"
    have k: "set_buf (udpRecvBuf div 2 ^ k) = None" "\<forall>i<k. set_buf (udpRecvBuf div 2 ^ i) \<noteq> None"
    proof -
      obtain k' where "set_buf (udpRecvBuf div 2 ^ k') = None"
        using False by blast
      then show "set_buf (udpRecvBuf div 2 ^ k) = None"
        unfolding k_def by (rule LeastI)
      show "\<forall>i<k. set_buf (udpRecvBuf div 2 ^ i) \<noteq> None"
        unfolding k_def using not_less_Least by blast
    qed
    have "k \<le> 22"
    proof (rule ccontr)
      assume "\<not> k \<le> 22"
      then have "22 < k" "22 \<le> k"
        by simp_all
      then have "set_buf (udpRecvBuf div 2 ^ 22) \<noteq> None" "udpRecvBuf div 2 ^ 22 = udpRecvBuf div 2 ^ k"
        using k(2) zero[of k] zero[OF order_refl] by (blast, simp only:)
      then show False
        using k(1) by (simp only: simp_thms)
    qed
    moreover have "setUDPRecvBuf set_buf = Some (udpRecvBuf div 2 ^ k)"
      unfolding setUDPRecvBuf_def by (rule shrink_buf_Some[OF k])
    ultimately show ?thesis
      using k False all by auto
  qed
qed

theorem buffer_shrinks_witness:
  "setUDPRecvBuf (\<lambda>_. Some EOF) = None \<and>
   (setUDPRecvBuf (\<lambda>sz. if sz = udpRecvBuf then None else Some EOF) \<noteq> None)"
proof -
  have "setUDPRecvBuf (\<lambda>_. Some EOF) = None"
    using buffer_shrinks[of "\<lambda>_. Some EOF" 0] by simp
  moreover have "\<not> (\<forall>k\<le>22. (if udpRecvBuf div 2 ^ k = udpRecvBuf then None else Some EOF) \<noteq> None)"
    by (auto intro!: exI[of _ 0])
  ultimately show ?thesis
    using buffer_shrinks[of "\<lambda>sz. if sz = udpRecvBuf then None else Some EOF" 0] by simp
qed

section \<open>The nodes stay consistent\<close>

definition keeps :: "(memberlist \<Rightarrow> memberlist) \<Rightarrow> bool" where
  "keeps f \<longleftrightarrow> (\<forall>m. ml_ok m \<longrightarrow> ml_ok (f m))"

lemma keepsD: "keeps f \<Longrightarrow> ml_ok m \<Longrightarrow> ml_ok (f m)"
  by (simp add: keeps_def)

lemma ml_ok_index: "ml_ok (m\<lparr>ml_probeIndex := i\<rparr>) = ml_ok m"
  by (simp add: ml_ok_def deref_def)

lemma probe_next_ok:
  assumes "\<forall>k i. js k i \<le> i" "ml_ok m"
  shows "ml_ok (snd (probe_next cf js k m))"
  using assms
proof (induction cf js k m rule: probe_next.induct)
  case (1 cf js k m)
  have reset: "ml_ok ((resetNodes (js k) m)\<lparr>ml_probeIndex := 0\<rparr>)"
    unfolding ml_ok_index using resetNodes_ok[OF 1(4), of "js k"] 1(3) by blast
  have next_ok: "ml_ok (m\<lparr>ml_probeIndex := ml_probeIndex m + 1\<rparr>)"
    using 1(4) by (simp add: ml_ok_index)
  show ?case
    using 1(1)[OF _ _ 1(3) reset] 1(2)[OF _ _ refl refl refl _ 1(3) next_ok] 1(4) next_ok
    by (subst probe_next.simps) (simp add: Let_def)
qed

lemma quiet_emit_if: "filter is_event es = [] \<Longrightarrow> quiet m (if b then emit es m else m)"
  by (simp add: quiet)

lemma probeNode_ok:
  assumes "go_sort (ne_sort env)" "keeps others1" "keeps others2" "ml_ok m"
    "probeNode env cf draws ack dial conn fin others1 others2 node m = Done m'"
  shows "ml_ok m'"
proof -
  obtain seqNo err m1 where st: "probe_start env cf node m = (seqNo, err, m1)"
    by (rule prod_cases3)
  have "quiet m m1"
  proof -
    have "quiet m (setAckChannel s c t (snd (nextSeqNo m)))" for s c t
      by (simp add: setAckChannel_def setAckHandler_def nextSeqNo_def quiet_def member_events_def grows_def emit_def Let_def)
    note q = quiet_trans[OF this quiet_encodeAndSendMsg[OF assms(1)]]
    have "m1 = snd (encodeAndSendMsg env cf (Addr node, Port node) pingMsg (ping_struct (probe_ping seqNo node))
        (setAckChannel seqNo (unat seqNo) (cf_ProbeInterval cf) (snd (nextSeqNo m))))"
      using st by (auto simp: probe_start_def Let_def split_beta)
    then show ?thesis
      using q by simp
  qed
  from quiet_ok(1)[OF this assms(4)] have m1: "ml_ok m1" "ml_ok (others1 m1)"
    using assms(2) keepsD by auto
  have ind: "ml_ok (probe_indirect env cf draws seqNo node m2)" if "ml_ok m2" for m2
  proof -
    have "ml_ok (fold (\<lambda>p m. snd (encodeAndSendMsg env cf (Addr (deref m p), Port (deref m p)) t x m)) ps m2)"
      if "ml_ok m2" for t x ps m2
      using that quiet_ok(1)[OF quiet_encodeAndSendMsg[OF assms(1)]] by (induction ps arbitrary: m2) auto
    then show ?thesis
      using that by (simp add: probe_indirect_def Let_def)
  qed
  have fb: "ml_ok m3" if h: "probe_fallback env cf seqNo now dial conn fin node m2 = Returns (b, m3)" "ml_ok m2" for now b m2 m3
  proof -
    have "quiet m2 m3"
      using h(1) quiet_rawSendMsgTCP[of m2 env cf]
      by (auto simp: probe_fallback_def sendPingAndWaitForAck_def Let_def split_beta quiet_refl
          split: if_splits outcome.splits option.splits sum.splits)
    then show ?thesis
      using h(2) quiet_ok(1) by blast
  qed
  have sus: "ml_ok m'" if "suspectNode cf now su m2 = Done m'" "ml_ok m2" for now su m2
    using suspectNode_spec[OF that(2,1)] by (elim conjE)
  show ?thesis
  proof (cases "err = None")
    case False
    then have "m' = m1"
      using assms(5) st by (simp add: probeNode_def)
    then show ?thesis
      using m1(1) by simp
  next
    case err: True
    show ?thesis
    proof -
      obtain now got ackCh where w: "first_wait cf (ack_channel (cf_ProbeInterval cf) ack) = (now, got, ackCh)"
        by (rule prod_cases3)
      show ?thesis
      proof (cases "case got of Some v \<Rightarrow> am_Complete v | None \<Rightarrow> False")
        case True
        then show ?thesis
          using assms(5) st err w m1(2) by (auto simp: probeNode_def Let_def split: if_splits)
      next
        case False
        obtain b m3 where f: "probe_fallback env cf seqNo now dial conn fin node (probe_indirect env cf draws seqNo node (others1 m1)) =
            Returns (b, m3)"
          using assms(5) st err w False by (auto simp: probeNode_def Let_def split: outcome.splits)
        have m4: "ml_ok (others2 m3)"
          by (rule keepsD[OF assms(3) fb[OF f ind[OF m1(2)]]])
        have "m' = others2 m3 \<or>
            suspectNode cf (ne_now env) \<lparr>su_Incarnation = Incarnation node, su_Node = Name node, su_From = cf_Name cf\<rparr> (others2 m3) = Done m'"
          using assms(5) st err w False f by (auto simp: probeNode_def Let_def split: if_splits list.splits)
        then show ?thesis
          using m4 sus by blast
      qed
    qed
  qed
qed

lemma probe_ok:
  assumes "go_sort (ne_sort env)" "keeps others1" "keeps others2" "\<forall>k i. js k i \<le> i" "ml_ok m"
    "probe env cf js draws ack dial conn fin others1 others2 m = Done m'"
  shows "ml_ok m'"
proof -
  obtain nd m1 where n: "probe_next cf js 0 m = (nd, m1)"
    by (rule prod.exhaust)
  have m1: "ml_ok m1"
    using probe_next_ok[OF assms(4,5), of cf 0] n by simp
  show ?thesis
  proof (cases nd)
    case None
    then show ?thesis
      using assms(6) n m1 by (simp add: probe_def)
  next
    case (Some node)
    then have "probeNode env cf draws ack dial conn fin others1 others2 node m1 = Done m'"
      using assms(6) n by (simp add: probe_def)
    then show ?thesis
      by (rule probeNode_ok[OF assms(1-3) m1])
  qed
qed

lemma gossip_quiet:
  assumes "go_sort (ne_sort env)"
  shows "quiet m (gossip env cf draws m)"
proof -
  have "quiet m (gossip_to env cf ps m)" for ps m
  proof (induction ps arbitrary: m)
    case (Cons p ps)
    obtain msgs m1 where g: "ml_getBroadcasts env cf compoundOverhead (bytes_avail cf) m = (msgs, m1)"
      by (rule prod.exhaust)
    have q: "quiet m m1"
      by (rule quiet_getBroadcasts[OF assms g])
    show ?case
      using quiet_trans[OF q quiet_trans[OF quiet_rawSendMsgUDP Cons.IH]] q by (simp add: g)
  qed (simp add: quiet_refl)
  then show ?thesis
    by (simp add: gossip_def)
qed

text \<open>What the tickers trigger, with its inputs: a probe or gossip.\<close>

inductive background :: "config \<Rightarrow> (memberlist \<Rightarrow> memberlist run) \<Rightarrow> bool" for cf where
  bg_probe: "go_sort (ne_sort env) \<Longrightarrow> keeps others1 \<Longrightarrow> keeps others2 \<Longrightarrow> \<forall>k i. js k i \<le> i \<Longrightarrow>
    background cf (probe env cf js draws ack dial conn fin others1 others2)"
| bg_gossip: "go_sort (ne_sort env) \<Longrightarrow> background cf (\<lambda>m. Done (gossip env cf draws m))"

lemma background_ok:
  assumes "background cf f" "ml_ok m" "f m = Done m'"
  shows "ml_ok m'"
  using assms(1)
proof cases
  case bg_probe
  then show ?thesis
    using probe_ok assms(2,3) by blast
next
  case (bg_gossip env draws)
  then show ?thesis
    using quiet_ok(1)[OF gossip_quiet assms(2)] assms(3) by auto
qed

lemma trigger_loop_ok:
  assumes "\<forall>k. background cf (f k)"
  shows "ml_ok m \<Longrightarrow> \<forall>g. Tick g \<in> set ticks \<longrightarrow> keeps g \<Longrightarrow> trigger_loop f k ticks m = Done m' \<Longrightarrow> ml_ok m'"
proof (induction ticks arbitrary: k m)
  case (Cons t ticks)
  then show ?case
  proof (cases t)
    case (Tick g)
    then obtain m1 where m1: "f k (g m) = Done m1" "trigger_loop f (k + 1) ticks m1 = Done m'"
      using Cons.prems(3) by (auto simp: and_then_Done)
    have "ml_ok (g m)"
      using Cons.prems(1,2) Tick keepsD[of g m] by simp
    then have "ml_ok m1"
      using background_ok[of cf "f k" "g m" m1] assms m1(1) by blast
    from Cons.IH[OF this _ m1(2)] show ?thesis
      using Cons.prems(2) by simp
  qed simp
qed simp

lemma pushPull_ok:
  assumes "ml_ok m" "0 \<le> ne_nodes_room env" "int (length (ml_nodes m)) + ne_nodes_room env < 2 ^ 32"
    "pushPull env cf draws dial conn fin m = Done m'"
  shows "ml_ok m'"
proof (cases "kRandomNodes (deref m) 1 [cf_Name cf] draws (ml_nodes m)")
  case Nil
  then show ?thesis
    using assms(1,4) by (simp add: pushPull_def)
next
  case (Cons nd rest)
  then obtain err where "pushPullNode env cf dial conn fin False m = Done (err, m')"
    using assms(4) by (auto simp: pushPull_def and_then_Done)
  from forward_pushPullNode[OF assms(1,3,2) this] show ?thesis
    by (simp add: forward_def)
qed

text \<open>
  At each of its ticks the push/pull trigger finds room in the list for the nodes a peer may send: the
  list and what one message can hold stay below \<open>2 ^ 32\<close> nodes, where the count of nodes wraps around.
\<close>

fun room_at_ticks :: "int \<Rightarrow> (nat \<Rightarrow> memberlist \<Rightarrow> memberlist run) \<Rightarrow> nat \<Rightarrow> tick list \<Rightarrow> memberlist \<Rightarrow> bool" where
  "room_at_ticks room f k (Tick g # evs) m \<longleftrightarrow>
     int (length (ml_nodes (g m))) + room < 2 ^ 32 \<and>
     (case f k (g m) of Done m1 \<Rightarrow> room_at_ticks room f (k + 1) evs m1 | _ \<Rightarrow> True)"
| "room_at_ticks room f k _ m \<longleftrightarrow> True"

lemma push_loop_ok:
  assumes "\<forall>k. f k = pushPull (env k) cf (draws k) (dial k) (conn k) (fin k)"
    "0 \<le> room" "\<forall>k. 0 \<le> ne_nodes_room (env k) \<and> ne_nodes_room (env k) \<le> room"
  shows "ml_ok m \<Longrightarrow> \<forall>g. Tick g \<in> set ticks \<longrightarrow> keeps g \<Longrightarrow> room_at_ticks room f k ticks m \<Longrightarrow>
    push_loop cf f k ticks waits m = Done (waits', m') \<Longrightarrow> ml_ok m'"
proof (induction ticks arbitrary: k m waits)
  case (Cons t ticks)
  then show ?case
  proof (cases t)
    case (Tick g)
    then obtain m1 where m1: "f k (g m) = Done m1"
      "push_loop cf f (k + 1) ticks (waits @ [pushPullScale (cf_PushPullInterval cf) (estNumNodes m)]) m1 = Done (waits', m')"
      using Cons.prems(4) by (auto simp: and_then_Done)
    have g: "ml_ok (g m)"
      using Cons.prems(1,2) Tick keepsD[of g m] by simp
    have "int (length (ml_nodes (g m))) + ne_nodes_room (env k) < 2 ^ 32"
      using Cons.prems(3) Tick assms(3) by (simp, meson add_left_mono le_less_trans)
    then have "ml_ok m1"
      using pushPull_ok[OF g] assms(1,3) m1(1) by metis
    moreover have "room_at_ticks room f (k + 1) ticks m1"
      using Cons.prems(3) Tick m1(1) by simp
    ultimately show ?thesis
      using Cons.IH[OF _ _ _ m1(2)] Cons.prems(2) by simp
  qed simp
qed simp

lemma udpListen_ok:
  assumes "go_sort (ne_sort env)"
  shows "ml_ok m \<Longrightarrow> \<forall>g. OthersRun g \<in> set evs \<longrightarrow> keeps g \<Longrightarrow> udpListen env cf evs m = Done m' \<Longrightarrow> ml_ok m'"
proof (induction evs arbitrary: m)
  case (Cons e evs)
  have IH: "ml_ok m'" if "udpListen env cf evs m1 = Done m'" "ml_ok m1" for m1
    using Cons.IH[OF that(2) _ that(1)] Cons.prems(2) by simp
  show ?case
  proof (cases e)
    case ReadError
    then show ?thesis
      using Cons.prems(1,3) IH by (auto split: if_splits)
  next
    case (ReadPacket src buf)
    show ?thesis
    proof (cases "length buf < 1")
      case True
      then show ?thesis
        using Cons.prems(1,3) IH ReadPacket by simp
    next
      case False
      then obtain m1 where m1: "ingestPacket env cf src buf m = Done m1" "udpListen env cf evs m1 = Done m'"
        using Cons.prems(3) ReadPacket by (auto simp: and_then_Done)
      show ?thesis
        by (rule IH[OF m1(2) quiet_ok(1)[OF quiet_ingestPacket[OF assms m1(1)] Cons.prems(1)]])
    qed
  next
    case (OthersRun g)
    then show ?thesis
      using Cons.prems IH keepsD[of g m] by simp
  qed
qed simp

text \<open>
  C23: the packet listener, a trigger of probes or gossip and the trigger of
  push/pulls, each with other goroutines in between that keep the nodes consistent, and whatever
  packets, socket errors, acks, answers and ticks come, keep node list, name map and count consistent
  as long as they return; for the push/pulls, as long as the list has room for what a peer may send
  when they start.
\<close>

theorem background_consistent:
  assumes "ml_ok m" "\<forall>g. Tick g \<in> set ticks \<longrightarrow> keeps g" "\<forall>g. OthersRun g \<in> set evs \<longrightarrow> keeps g"
  shows "(\<forall>f m'. (\<forall>k. background cf (f k)) \<and> triggerFunc stopped f ticks m = Done m' \<longrightarrow> ml_ok m') \<and>
    (\<forall>env draws dial conn fin f room waits m'.
       (\<forall>k. f k = pushPull (env k) cf (draws k) (dial k) (conn k) (fin k) \<and>
          0 \<le> ne_nodes_room (env k) \<and> ne_nodes_room (env k) \<le> room) \<and>
       room_at_ticks room f 0 ticks m \<and> pushPullTrigger stopped cf f ticks m = Done (waits, m') \<longrightarrow> ml_ok m') \<and>
    (\<forall>env m'. go_sort (ne_sort env) \<and> udpListen env cf evs m = Done m' \<longrightarrow> ml_ok m')"
proof (intro conjI allI impI; elim conjE)
  fix f m' assume "\<forall>k. background cf (f k)" "triggerFunc stopped f ticks m = Done m'"
  then show "ml_ok m'"
    using trigger_loop_ok[of cf f m ticks 0 m'] assms(1,2) by (auto simp: triggerFunc_def split: if_splits)
next
  fix env draws dial conn fin f room waits m'
  assume p: "\<forall>k. f k = pushPull (env k) cf (draws k) (dial k) (conn k) (fin k) \<and>
      0 \<le> ne_nodes_room (env k) \<and> ne_nodes_room (env k) \<le> room"
    and r: "room_at_ticks room f 0 ticks m" "pushPullTrigger stopped cf f ticks m = Done (waits, m')"
  have "0 \<le> room"
    using p by (meson order_trans)
  with p r(2) show "ml_ok m'"
    using push_loop_ok[of f env cf draws dial conn fin room m ticks 0 "[]" waits m'] r(1) assms(1,2)
    by (auto simp: pushPullTrigger_def split: if_splits)
next
  fix env m' assume "go_sort (ne_sort env)" "udpListen env cf evs m = Done m'"
  then show "ml_ok m'"
    using udpListen_ok assms(1,3) by blast
qed

lemma pushPull_silent: "\<exists>m1. pushPull env cf draws dial [] fin m = Done m1"
proof -
  have "\<exists>x. pushPullNode env cf dial [] fin False m = Done x"
    by (auto simp: pushPullNode_def sendAndReceiveState_def readTCP_def Let_def split: option.split prod.split)
  then show ?thesis
    by (auto simp: pushPull_def split: list.split)
qed

theorem background_consistent_witness:
  "ml_ok (gossip env_a cfg_a [1, 2] ml_a) \<and>
   (\<exists>waits m'. pushPullTrigger False cfg_a (\<lambda>_. pushPull env_a cfg_a [1, 2] None [] EOF) [Tick id] ml_a = Done (waits, m') \<and>
      ml_ok m') \<and>
   (\<exists>m'. udpListen env_a cfg_a [ReadPacket ([], 0) [userMsg, 1], ReadError] ml_a = Done m' \<and> ml_ok m')"
proof -
  let ?f = "\<lambda>(_ :: nat) m. Done (gossip env_a cfg_a [1, 2] m)" and ?p = "\<lambda>_ :: nat. pushPull env_a cfg_a [1, 2] None [] EOF"
  let ?evs = "[ReadPacket ([], 0) [userMsg, 1], ReadError]"
  have g: "go_sort (ne_sort env_a)"
    by (simp add: env_a_def go_sort_by_transmits)
  have k: "\<forall>g. Tick g \<in> set [Tick id] \<longrightarrow> keeps g" "\<forall>g. OthersRun g \<in> set ?evs \<longrightarrow> keeps g"
    by (simp_all add: keeps_def)
  note bc = background_consistent[OF ml_ok_a k, of cfg_a False]
  have "triggerFunc False ?f [Tick id] ml_a = Done (gossip env_a cfg_a [1, 2] ml_a)"
    by (simp add: triggerFunc_def)
  moreover have "\<forall>k. background cfg_a (?f k)"
    using bg_gossip[OF g] by blast
  ultimately have 1: "ml_ok (gossip env_a cfg_a [1, 2] ml_a)"
    using bc[THEN conjunct1, rule_format, of ?f "gossip env_a cfg_a [1, 2] ml_a"] by blast
  have room: "room_at_ticks (2 ^ 24) ?p 0 [Tick id] ml_a"
    by (auto simp: ml_a_def ml_with_def split: run.split)
  have r: "0 \<le> ne_nodes_room env_a \<and> ne_nodes_room env_a \<le> 2 ^ 24"
    by (simp add: env_a_def)
  obtain m1 where "pushPull env_a cfg_a [1, 2] None [] EOF ml_a = Done m1"
    using pushPull_silent by blast
  then obtain waits where p: "pushPullTrigger False cfg_a ?p [Tick id] ml_a = Done (waits, m1)"
    by (simp add: pushPullTrigger_def)
  then have 2: "ml_ok m1"
    using bc[THEN conjunct2, THEN conjunct1, rule_format, of ?p "\<lambda>_. env_a" "\<lambda>_. [1, 2]" "\<lambda>_. None" "\<lambda>_. []" "\<lambda>_. EOF"
        "2 ^ 24" waits m1] r room by blast
  obtain m2 where "ingestPacket env_a cfg_a ([], 0) [userMsg, 1] ml_a = Done m2"
    using handleCommand_simple[of userMsg env_a cfg_a "([], 0)" "[1]" "replicate (65536 - length [userMsg, 1]) 0" ml_a]
    by (auto simp: ingestPacket_def message_types simp del: replicate.simps)
  then have u: "udpListen env_a cfg_a ?evs ml_a = Done m2"
    by simp
  then have "ml_ok m2"
    using bc[THEN conjunct2, THEN conjunct2] g by blast
  then show ?thesis
    using 1 2 p u by blast
qed

end
