(* ===== verification/EventProps.thy ===== *)
theory EventProps
  imports Listen
begin

text \<open>
  What the event delegate of a memberlist hears over its whole life, from \<open>Create\<close> on.
\<close>

section \<open>A life\<close>

text \<open>
  What happens to a memberlist: packets and streams arrive, queued messages are handled, state is
  exchanged, suspicions time out, dead nodes are reaped, the node leaves.
\<close>

inductive life :: "config \<Rightarrow> memberlist \<Rightarrow> memberlist \<Rightarrow> bool" for cf where
  life_packet: "go_sort (ne_sort env) \<Longrightarrow> ingestPacket env cf src buf m = Done m' \<Longrightarrow> life cf m m'"
| life_handler: "length (ml_nodes m) < 2 ^ 32 \<Longrightarrow> udpHandler env cf m = Done m' \<Longrightarrow> life cf m m'"
| life_stream: "int (length (ml_nodes m)) + ne_nodes_room env < 2 ^ 32 \<Longrightarrow>
    handleConn env cf conn fin m = Done m' \<Longrightarrow> life cf m m'"
| life_exchange: "0 \<le> ne_nodes_room env \<Longrightarrow> int (length (ml_nodes m)) + ne_nodes_room env < 2 ^ 32 \<Longrightarrow>
    pushPullNode env cf dial conn fin join m = Done (err, m') \<Longrightarrow> life cf m m'"
| life_gossip: "go_sort (ne_sort env) \<Longrightarrow> life cf m (gossip env cf draws m)"
| life_timer: "suspect_timer cf now n t m = Done m' \<Longrightarrow> life cf m m'"
| life_reap: "\<forall>i. j i \<le> i \<Longrightarrow> life cf m (resetNodes j m)"
| life_leave: "leaveList cf now timeout sent m = Done (err, m') \<Longrightarrow> life cf m m'"

lemma told_dead:
  assumes "ml_ok m" "deadNode cf now d m = Done m'"
  shows "told cf m m' \<and> grows m m' \<and> ml_ok m'"
  using forward_dead[OF assms] by (simp add: forward_def)

lemma told_leaving:
  assumes "ml_ok m"
  shows "told cf m (m\<lparr>ml_leave := True\<rparr>)" "grows m (m\<lparr>ml_leave := True\<rparr>)" "ml_ok (m\<lparr>ml_leave := True\<rparr>)"
proof -
  have d: "deref (m\<lparr>ml_leave := True\<rparr>) = deref m"
    by (simp add: deref_def fun_eq_iff)
  then have "look (m\<lparr>ml_leave := True\<rparr>) = look m"
    by (intro ext) (simp add: look_def)
  then show "told cf m (m\<lparr>ml_leave := True\<rparr>)"
    using mirrors_same[OF _ live_look, of "m\<lparr>ml_leave := True\<rparr>" m]
    by (simp add: told_def self_ok_def member_events_def)
  show "grows m (m\<lparr>ml_leave := True\<rparr>)"
    by (simp add: grows_def)
  show "ml_ok (m\<lparr>ml_leave := True\<rparr>)"
    using assms by (simp add: ml_ok_def d)
qed

lemma told_leave:
  assumes "ml_ok m" "leaveList cf now timeout sent m = Done (err, m')"
  shows "told cf m m' \<and> grows m m' \<and> ml_ok m'"
proof -
  let ?m1 = "m\<lparr>ml_leave := True\<rparr>"
  note m1 = told_leaving[OF assms(1)]
  consider "m' = m" | "m' = ?m1" | now d where "deadNode cf now d ?m1 = Done m'"
    using assms(2) unfolding leaveList_def Let_def
    by (auto simp: and_then_Done await_def split: if_splits option.splits)
  then show ?thesis
  proof cases
    case 3
    then show ?thesis
      using told_dead[OF m1(3) 3] told_trans[OF m1(1)] grows_trans[OF m1(2)] by blast
  qed (use assms(1) m1 told_refl in auto)
qed

lemma told_life:
  assumes "life cf m m'" "ml_ok m"
  shows "told cf m m' \<and> grows m m' \<and> ml_ok m'"
  using assms(1)
proof cases
  case (life_packet env src buf)
  from quiet_ingestPacket[OF this] show ?thesis
    using told_quiet quiet_ok(1) assms(2) unfolding quiet_def by blast
next
  case (life_handler env)
  from forward_udpHandler[OF assms(2) this] show ?thesis
    by (simp add: forward_def)
next
  case (life_stream env conn fin)
  from forward_handleConn[OF assms(2) this] show ?thesis
    by (simp add: forward_def)
next
  case (life_exchange env dial conn fin join err)
  from forward_pushPullNode[OF assms(2) life_exchange(2,1,3)] show ?thesis
    by (simp add: forward_def)
next
  case (life_gossip env draws)
  from gossip_quiet[OF life_gossip(2)] show ?thesis
    unfolding life_gossip(1) using told_quiet quiet_ok(1) assms(2) unfolding quiet_def by blast
next
  case (life_timer now n t)
  then show ?thesis
    using suspect_timer_spec[OF assms(2) life_timer] told_dead[OF assms(2)] told_refl assms(2) by blast
next
  case (life_reap j)
  note r = resetNodes_ok[OF assms(2) life_reap(2)]
  have "told cf m m'"
    unfolding life_reap(1) using r
    by (intro told_step[OF step_reset[OF life_reap(2)] assms(2)] resetNodes_mirrors[OF assms(2) life_reap(2)]) simp
  then show ?thesis
    using r life_reap(1) by simp
next
  case (life_leave now timeout sent err)
  then show ?thesis
    by (rule told_leave[OF assms(2)])
qed

lemma told_lives:
  assumes "(life cf)\<^sup>*\<^sup>* m m'" "ml_ok m"
  shows "told cf m m' \<and> grows m m' \<and> ml_ok m'"
  using assms
proof (induction rule: rtranclp_induct)
  case (step y z)
  then show ?case
    using told_life[of cf y z] told_trans[of cf m y z] grows_trans[of m y z] by blast
qed (simp add: told_refl)

lemma schedule_events [simp]: "member_events (schedule cf m) = member_events m"
  by (simp add: member_events_def schedule_def Let_def)

text \<open>What \<open>Create\<close> tells the delegate: the node itself has joined.\<close>

lemma create_told:
  assumes "createList host tcp udp cf draw now = Done (Inr m, cf1)" "cf_Alive cf = None" "cf_Events cf"
  shows "ml_ok m \<and> self_ok cf m \<and> follow (member_events m) {} = Some (live m)"
proof -
  note alone = create_alone[OF assms(1,2)]
  obtain k m2 where cf1: "cf1 = cf\<lparr>cf_Keyring := k\<rparr>"
    and sa: "setAlive host cf1 draw now empty_memberlist = Done (None, m2)" and m: "m = schedule cf1 m2"
    using assms(1) newMemberlist_ok[of tcp udp cf]
    by (auto simp: createList_def and_then_Done split: prod.splits sum.splits option.splits)
  let ?m1 = "empty_memberlist\<lparr>ml_incarnation := 1\<rparr>"
  have ni: "nextIncarnation empty_memberlist = (1, ?m1)"
    by (simp add: nextIncarnation_def empty_memberlist_def)
  obtain a where "aliveNode cf1 draw now a None True ?m1 = Done m2"
    using sa unfolding setAlive_def ni by (auto simp: and_then_Done split: sum.splits outcome.splits)
  then have "mirrors ?m1 m2"
    by (intro aliveNode_mirrors[of ?m1 cf1 True draw now a None m2])
      (simp_all add: cf1 rest_empty ml_ok_empty assms(3))
  moreover have "live ?m1 = {}" "member_events ?m1 = []"
    by (simp_all add: live_def ml_ok_empty(2)) (simp add: member_events_def empty_memberlist_def)
  moreover have "live m = live m2" "member_events m = member_events m2"
    unfolding m by (rule live_look[OF schedule_kept(2)], rule schedule_events)
  ultimately have "follow (member_events m) {} = Some (live m)"
    by (simp add: mirrors_def)
  then show ?thesis
    using alone by (auto simp: self_ok_def)
qed

lemma live_members: "ml_ok m \<Longrightarrow> live m = Name ` set (membersList m)"
  using look_Name Name_node_of unfolding members_set live_def image_def by auto metis

text \<open>
  C11: an event delegate that keeps a set of names, adding on a join and deleting on a
  leave, has at every moment exactly the nodes that are known and not dead, and never hears of the
  join of a node it has or the leave of one it does not have: whatever packets, streams, exchanges
  of state, timers, reaping and a departure of the node itself do after \<open>Create\<close>.  As long as the
  node does not leave it has itself.
\<close>

theorem events_mirror:
  assumes "createList host tcp udp cf draw now = Done (Inr m0, cf1)" "cf_Alive cf = None" "cf_Events cf"
    "(life cf)\<^sup>*\<^sup>* m0 m"
  shows "follow (member_events m) {} = Some (live m) \<and> live m = Name ` set (membersList m) \<and>
    (\<not> ml_leave m \<longrightarrow> cf_Name cf \<in> live m)"
proof -
  note c = create_told[OF assms(1-3)]
  have t: "told cf m0 m" "ml_ok m"
    using told_lives[OF assms(4)] c by simp_all
  then have "mirrors m0 m" "self_ok cf m"
    using c assms(3) by (simp_all add: told_def)
  then obtain es where "member_events m = member_events m0 @ es" "follow es (live m0) = Some (live m)"
    by (auto simp: mirrors_def)
  then have "follow (member_events m) {} = Some (live m)"
    using c by (simp add: follow_append)
  moreover have "live m = Name ` set (membersList m)"
    by (rule live_members[OF t(2)])
  moreover have "\<not> ml_leave m \<longrightarrow> cf_Name cf \<in> live m"
    using \<open>self_ok cf m\<close> by (auto simp: self_ok_def live_def)
  ultimately show ?thesis
    by blast
qed

theorem events_mirror_witness:
  "\<exists>m m' cf1. createList host_a None None (defaultLANConfig ''a''\<lparr>cf_Events := True, cf_Delegate := False\<rparr>) 0 5 = Done (Inr m, cf1) \<and>
     leaveList (defaultLANConfig ''a''\<lparr>cf_Events := True, cf_Delegate := False\<rparr>) 6 0 True m = Done (None, m') \<and>
     follow (member_events m) {} = Some {''a''} \<and> follow (member_events m') {} = Some {}"
proof -
  let ?cf = "defaultLANConfig ''a''\<lparr>cf_Events := True, cf_Delegate := False\<rparr>"
  have cf: "cf_Alive ?cf = None" "cf_Events ?cf" "cf_Name ?cf = ''a''"
    by (simp_all add: defaultLANConfig_def)
  obtain m where m: "createList host_a None None ?cf 0 5 = Done (Inr m, ?cf)"
    using create_lan[where host = host_a and mta = "[1]" and e = True and g = False, OF refl] by (auto simp: host_a_def metaMaxSize_def)
  obtain st where a: "ml_ok m" "look m = [''a'' \<mapsto> st]" "State st = stateAlive" "\<not> anyAlive ?cf m"
    "\<not> ml_shutdown m" "\<not> ml_leave m"
    using create_alone[OF m cf(1)] unfolding cf(3) by blast
  then have "look m (cf_Name ?cf) = Some st" "State st \<noteq> stateDead"
    by (simp_all add: cf)
  from leave_announces[OF a(1,5,6) this, of 6 0 True, THEN conjunct1] obtain m' where m': "look m' = (look m)(cf_Name ?cf \<mapsto> st\<lparr>State := stateDead, StateChange := 6\<rparr>)"
    "leaveList ?cf 6 0 True m = Done (None, m')"
    unfolding if_not_P[OF a(4)] by blast
  then have l: "(life ?cf)\<^sup>*\<^sup>* m m'"
    by (intro r_into_rtranclp life_leave)
  have "live m = {''a''}" "live m' = {}"
    using a(3) by (simp_all add: live_def m' a(2) cf(3))
  then show ?thesis
    using events_mirror[OF m cf(1,2) rtranclp.rtrancl_refl] events_mirror[OF m cf(1,2) l] m m'(2) by simp
qed

end
