(* ===== verification/Counter.thy ===== *)
theory Counter
  imports GoFloat
begin

text \<open>
  \<open>Counter\<close> of \<open>server/counter.go\<close>: its layout on the wire (\<open>binary.Write\<close> and
  \<open>binary.Read\<close>, little endian) and the merge that \<open>readChange\<close> and \<open>MergeRemoteState\<close>
  apply to an incoming value.  The abstract specification is a join semilattice ordered first
  by revision; the merge refines it for values that are not older than the one they meet.
\<close>

record counter =
  Up :: f64
  Down :: f64
  Revision :: u32

definition emptyCounter :: counter where
  "emptyCounter = \<lparr>Up = 0, Down = 0, Revision = 0\<rparr>"

definition counter_ok :: "counter \<Rightarrow> bool" where
  "counter_ok c \<longleftrightarrow> f64_ok (Up c) \<and> f64_ok (Down c)"

section \<open>On the wire\<close>

definition counter_bytes :: "counter \<Rightarrow> bytes" where
  "counter_bytes c =
     le_bytes 8 (f64_bits (Up c)) @ le_bytes 8 (f64_bits (Down c)) @ le_bytes 4 (unat (Revision c))"

definition read_counter :: "bytes \<Rightarrow> (counter \<times> bytes) result" where
  "read_counter bs =
     (case read_full 20 bs of
        Inl e \<Rightarrow> Inl e
      | Inr (b, rest) \<Rightarrow>
          Inr (\<lparr>Up = f64_of_bits (le_nat (take 8 b)),
                Down = f64_of_bits (le_nat (take 8 (drop 8 b))),
                Revision = of_nat (le_nat (drop 16 b))\<rparr>, rest))"

lemma length_counter_bytes [simp]: "length (counter_bytes c) = 20"
  by (simp add: counter_bytes_def)

lemma read_counter_bytes [wire]:
  assumes "counter_ok c"
  shows "read_counter (counter_bytes c @ rest) = Inr (c, rest)"
proof -
  have "unat (Revision c) < 2 ^ 32"
    using unsigned_less[of "Revision c", where ?'a = nat] by simp
  then have "of_nat (unat (Revision c) mod 256 ^ 4) = Revision c"
    by simp
  moreover have "f64_bits (Up c) mod 256 ^ 8 = f64_bits (Up c)"
    "f64_bits (Down c) mod 256 ^ 8 = f64_bits (Down c)"
    using assms f64_bits_less[of "Up c"] f64_bits_less[of "Down c"] by (simp_all add: counter_ok_def)
  ultimately show ?thesis
    using assms
    by (simp only: read_counter_def read_full_append[OF length_counter_bytes])
      (simp add: counter_bytes_def wire counter_ok_def)
qed

lemma read_counter_ok: "read_counter bs = Inr (c, rest) \<Longrightarrow> counter_ok c"
  by (auto simp: read_counter_def counter_ok_def split: sum.splits prod.splits)

lemma read_counter_short: "length bs < 20 \<Longrightarrow> \<exists>e. read_counter bs = Inl e"
  by (simp add: read_counter_def read_full_def)

section \<open>The merge\<close>

definition merge_counter :: "counter option \<Rightarrow> counter \<Rightarrow> counter" where
  "merge_counter old c =
     (case old of
        None \<Rightarrow> c
      | Some oc \<Rightarrow>
          if Revision oc < Revision c then c
          else oc\<lparr>Up := (if f_less (Up oc) (Up c) then Up c else Up oc),
                  Down := (if f_less (Down oc) (Down c) then Down c else Down oc)\<rparr>)"

lemma counter_ok_merge:
  "counter_ok c \<Longrightarrow> (\<And>oc. old = Some oc \<Longrightarrow> counter_ok oc) \<Longrightarrow> counter_ok (merge_counter old c)"
  by (auto simp: merge_counter_def counter_ok_def split: option.splits)

section \<open>The lattice\<close>

text \<open>
  The abstract value of a counter without NaN: its revision and the two totals as numbers.
  A higher revision wins; at one revision the totals only grow.
\<close>

definition no_nan :: "counter \<Rightarrow> bool" where
  "no_nan c \<longleftrightarrow> Up c \<noteq> FNaN \<and> Down c \<noteq> FNaN"

type_synonym gvalue = "nat \<times> int \<times> int"

definition counter_abs :: "counter \<Rightarrow> gvalue" where
  "counter_abs c = (unat (Revision c), fkey (Up c), fkey (Down c))"

fun gjoin :: "gvalue \<Rightarrow> gvalue \<Rightarrow> gvalue" where
  "gjoin (r, u, d) (r', u', d') =
     (if r < r' then (r', u', d') else if r' < r then (r, u, d) else (r, max u u', max d d'))"

fun gle :: "gvalue \<Rightarrow> gvalue \<Rightarrow> bool" where
  "gle (r, u, d) (r', u', d') = (r < r' \<or> (r = r' \<and> u \<le> u' \<and> d \<le> d'))"

text \<open>
  The contract of a join: replicas that join the same values, in any order and any number of
  times, agree.
\<close>

locale replica_join =
  fixes join :: "'a \<Rightarrow> 'a \<Rightarrow> 'a"
  assumes join_commute: "join a b = join b a"
    and join_assoc: "join (join a b) c = join a (join b c)"
    and join_idem: "join a a = a"
begin

lemma join_left_commute: "join a (join b c) = join b (join a c)"
  by (metis join_assoc join_commute)

lemma join_left_idem: "join a (join a b) = join a b"
  by (metis join_assoc join_idem)

end

sublocale replica_join \<subseteq> folding: comp_fun_idem join
  by unfold_locales (auto simp: fun_eq_iff join_left_commute join_left_idem)

context replica_join
begin

lemma fold_absorbs: "finite A \<Longrightarrow> x \<in> A \<Longrightarrow> join x (Finite_Set.fold join z A) = Finite_Set.fold join z A"
  using folding.fold_insert_idem[of A z x] by (simp add: insert_absorb)

lemma fold_start: "finite A \<Longrightarrow> x \<in> A \<Longrightarrow> y \<in> A \<Longrightarrow> Finite_Set.fold join x A = Finite_Set.fold join y A"
  by (metis fold_absorbs folding.fold_fun_left_comm join_commute)

lemma fold_values:
  assumes "set (x # xs) = set (y # ys)"
  shows "fold join xs x = fold join ys y"
proof -
  have "fold join (z # zs) z = fold join zs z" for z zs
    by (simp add: join_idem)
  then have "fold join zs z = Finite_Set.fold join z (set (z # zs))" for z zs
    by (metis folding.fold_set_fold)
  then have f: "fold join xs x = Finite_Set.fold join x (set (x # xs))"
    "fold join ys y = Finite_Set.fold join y (set (y # ys))"
    by blast+
  show ?thesis
    unfolding f assms using assms by (intro fold_start) auto
qed

end

text \<open>
  The contract between a concrete merge and the join: on values of rank at least that of the
  current one (never older), the merge computes the join.
\<close>

locale replica_merge = replica_join join
  for join :: "'a \<Rightarrow> 'a \<Rightarrow> 'a" +
  fixes abs :: "'c \<Rightarrow> 'a"
    and merge :: "'c option \<Rightarrow> 'c \<Rightarrow> 'c"
    and rank :: "'c \<Rightarrow> nat"
    and good :: "'c \<Rightarrow> bool"
  assumes merge_first: "merge None a = a"
    and merge_abs: "good a \<Longrightarrow> good b \<Longrightarrow> rank a \<le> rank b \<Longrightarrow> abs (merge (Some a) b) = join (abs b) (abs a)"
    and merge_good: "good a \<Longrightarrow> good b \<Longrightarrow> good (merge (Some a) b)"
    and merge_rank: "rank a \<le> rank b \<Longrightarrow> rank (merge (Some a) b) = rank b"
begin

lemma deliver_abs:
  "good a \<Longrightarrow> \<forall>c \<in> set cs. good c \<Longrightarrow> sorted (map rank (a # cs)) \<Longrightarrow>
   \<exists>b. fold (\<lambda>c old. Some (merge old c)) cs (Some a) = Some b \<and>
       abs b = fold join (map abs cs) (abs a)"
proof (induction cs arbitrary: a)
  case (Cons c cs)
  have ac: "rank a \<le> rank c" "good c" "rank (merge (Some a) c) = rank c"
    using Cons.prems merge_rank by simp_all
  then have "\<exists>b. fold (\<lambda>c old. Some (merge old c)) cs (Some (merge (Some a) c)) = Some b \<and>
      abs b = fold join (map abs cs) (abs (merge (Some a) c))"
    using Cons.prems by (intro Cons.IH) (auto intro: merge_good)
  with ac Cons.prems(1) show ?case
    by (simp add: merge_abs)
qed simp

lemma deliver_converges:
  assumes "set (a # cs) = set (b # ds)" "\<forall>c \<in> set (a # cs). good c"
    and "sorted (map rank (a # cs))" "sorted (map rank (b # ds))"
  shows "\<exists>x y. fold (\<lambda>c old. Some (merge old c)) (a # cs) None = Some x \<and>
    fold (\<lambda>c old. Some (merge old c)) (b # ds) None = Some y \<and> abs x = abs y"
proof -
  have g: "good a" "good b" "\<forall>c\<in>set cs. good c" "\<forall>c\<in>set ds. good c"
    using assms(1,2) by auto
  obtain x where x: "fold (\<lambda>c old. Some (merge old c)) cs (Some a) = Some x"
      "abs x = fold join (map abs cs) (abs a)"
    using deliver_abs[OF g(1,3) assms(3)] by blast
  obtain y where y: "fold (\<lambda>c old. Some (merge old c)) ds (Some b) = Some y"
      "abs y = fold join (map abs ds) (abs b)"
    using deliver_abs[OF g(2,4) assms(4)] by blast
  have "set (map abs (a # cs)) = set (map abs (b # ds))"
    using assms(1) by (metis set_map)
  then have "abs x = abs y"
    unfolding x(2) y(2) by (intro fold_values) simp
  then show ?thesis
    using x(1) y(1) by (simp add: merge_first)
qed

end

interpretation gvalue: replica_join gjoin
proof
  fix a b c :: gvalue
  show "gjoin a b = gjoin b a"
    by (cases a; cases b) (auto simp: max.commute)
  show "gjoin (gjoin a b) c = gjoin a (gjoin b c)"
    by (cases a; cases b; cases c) (auto simp: max.assoc)
  show "gjoin a a = a"
    by (cases a) auto
qed

interpretation crdt: replica_merge gjoin counter_abs merge_counter
  "\<lambda>c. unat (Revision c)" no_nan
proof
  fix a b :: counter
  show "merge_counter None a = a"
    by (simp add: merge_counter_def)
  show "counter_abs (merge_counter (Some a) b) = gjoin (counter_abs b) (counter_abs a)"
    if "no_nan a" "no_nan b" "unat (Revision a) \<le> unat (Revision b)"
    using that
    by (auto simp: merge_counter_def counter_abs_def no_nan_def f_less_def word_less_nat_alt max_def)
  show "no_nan (merge_counter (Some a) b)" if "no_nan a" "no_nan b"
    using that by (auto simp: merge_counter_def no_nan_def)
  show "unat (Revision (merge_counter (Some a) b)) = unat (Revision b)"
    if "unat (Revision a) \<le> unat (Revision b)"
    using that by (auto simp: merge_counter_def word_less_nat_alt)
qed

text \<open>Whatever comes in, a merge never moves a counter down.\<close>

lemma merge_inflates:
  "no_nan oc \<Longrightarrow> no_nan c \<Longrightarrow> gle (counter_abs oc) (counter_abs (merge_counter (Some oc) c))"
  by (auto simp: merge_counter_def counter_abs_def no_nan_def f_less_def word_less_nat_alt)

lemma merge_idem: "merge_counter (Some c) c = c"
  by (simp add: merge_counter_def f_less_def)

end
