(* ===== verification/Server.thy ===== *)
theory Server
  imports Counter Node TransmitQueue "HOL-Library.AList"
begin

text \<open>
  The dcounter server: \<open>server/server.go\<close>, \<open>server/api.go\<close> (the operations; the client
  protocol is in theory \<open>Handle\<close>), \<open>server/memberlist.go\<close> (the delegate and event
  callbacks), \<open>server/meta.go\<close>, \<open>server/buffer.go\<close>, \<open>server/state.go\<close> and
  \<open>server/change/change.go\<close>.  Every operation takes the server's state and returns the new
  one; locks, logging and goroutines are left out, a callback runs as one step.
\<close>

section \<open>Queued changes\<close>

record change =
  ch_name :: string
  ch_data :: bytes

definition Invalidates :: "change \<Rightarrow> change \<Rightarrow> bool" where
  "Invalidates c o' \<longleftrightarrow> ch_name c = ch_name o'"

definition Message :: "change \<Rightarrow> bytes" where
  "Message c = ch_data c"

interpretation change: broadcast_kind Invalidates ch_name
  by unfold_locales (simp add: Invalidates_def)

section \<open>Node meta data\<close>

text \<open>
  \<open>buffer\<close> is a byte slice of fixed capacity: a write that does not fit fails with
  \<open>io.EOF\<close> and changes nothing.
\<close>

record buffer =
  buf_data :: bytes
  buf_cap :: nat

definition buffer_write :: "buffer \<Rightarrow> bytes \<Rightarrow> (buffer \<times> nat) result" where
  "buffer_write b p =
     (if buf_cap b < length (buf_data b) + length p then Inl EOF
      else Inr (b\<lparr>buf_data := buf_data b @ p\<rparr>, length p))"

record meta =
  Leaving :: byte

definition go_min :: "int \<Rightarrow> int \<Rightarrow> int" where
  "go_min a b = (if a \<le> b then a else b)"

text \<open>\<open>None\<close> is the panic: a negative capacity, or no room for the one byte.\<close>

definition meta_encode :: "meta \<Rightarrow> int \<Rightarrow> bytes option" where
  "meta_encode m limit =
     (if go_min 1024 limit < 0 then None
      else case buffer_write \<lparr>buf_data = [], buf_cap = nat (go_min 1024 limit)\<rparr> [Leaving m] of
        Inl e \<Rightarrow> None
      | Inr (b, n) \<Rightarrow> Some (buf_data b))"

definition meta_decode :: "bytes \<Rightarrow> meta result" where
  "meta_decode bs =
     (case read_full 1 bs of Inl e \<Rightarrow> Inl e | Inr (b, r) \<Rightarrow> Inr \<lparr>Leaving = hd b\<rparr>)"

section \<open>The server's state\<close>

record mstate =
  Active :: byte
  When :: int

type_synonym counters = "string \<rightharpoonup> counter"
type_synonym replica_map = "string \<rightharpoonup> counters"
type_synonym states = "string \<rightharpoonup> mstate"

text \<open>
  \<open>replicas\<close> is a map of maps of pointers.  In a running server no inner map and no pointer is nil,
  unless a file that was loaded has a \<open>null\<close> there; \<open>srv_nils\<close> then has the pair of the member and None
  for a nil map, or of the member and the counter for a nil pointer, and \<open>replicas\<close> reads as if the map
  were empty or the counter missing.  The operations below are those of a server without such holes
  (the transition system of \<open>ServerSteps\<close> runs no other); \<open>loadReplicas\<close>, \<open>incCounter\<close> and \<open>setLocal\<close>
  have them too.
\<close>

record server =
  cfgName :: string
  srv_meta :: meta
  consistent :: bool
  replicas :: replica_map
  srv_nils :: "(string \<times> string option) set"
  changes :: "change bcQueue"
  members :: states
  reconnects :: "string set"

section \<open>Gossiped changes and resets\<close>

definition resetMessage :: byte where "resetMessage = 0"
definition changeMessage :: byte where "changeMessage = 1"

definition change_bytes :: "string \<Rightarrow> string \<Rightarrow> counter \<Rightarrow> bytes" where
  "change_bytes member name c =
     changeMessage # str_bytes (member @ [NL]) @ str_bytes (name @ [NL]) @ counter_bytes c"

definition reset_bytes :: "string \<Rightarrow> counter \<Rightarrow> bytes" where
  "reset_bytes name c = resetMessage # str_bytes (name @ [NL]) @ counter_bytes c"

text \<open>The writes of \<open>broadcastChange\<close> go to memory and never fail, so it returns no error.\<close>

definition broadcastChange :: "server \<Rightarrow> string \<Rightarrow> counter \<Rightarrow> server" where
  "broadcastChange s name c =
     s\<lparr>changes := fst (queueBroadcast Invalidates
         \<lparr>ch_name = name, ch_data = change_bytes (cfgName s) name c\<rparr> (changes s))\<rparr>"

definition replica_counter :: "replica_map \<Rightarrow> string \<Rightarrow> string \<Rightarrow> counter option" where
  "replica_counter r member name =
     (case r member of None \<Rightarrow> None | Some cs \<Rightarrow> cs name)"

definition put_counter :: "replica_map \<Rightarrow> string \<Rightarrow> string \<Rightarrow> counter \<Rightarrow> replica_map" where
  "put_counter r member name c =
     r(member \<mapsto> (case r member of None \<Rightarrow> Map.empty | Some cs \<Rightarrow> cs)(name \<mapsto> c))"

definition readChange :: "server \<Rightarrow> bytes \<Rightarrow> server result" where
  "readChange s bs =
     (case read_string newline bs of
        Inl e \<Rightarrow> Inl e
      | Inr (n, bs1) \<Rightarrow>
          (let memberName = bytes_str (butlast n)
           in if members s memberName = None
              then Inl (ErrMsg (''change for unknown member '' @ memberName))
              else case read_string newline bs1 of
                Inl e \<Rightarrow> Inl e
              | Inr (n', bs2) \<Rightarrow>
                  (let name = bytes_str (butlast n')
                   in case read_counter bs2 of
                     Inl e \<Rightarrow> Inl e
                   | Inr (c, _) \<Rightarrow>
                       Inr (s\<lparr>replicas := put_counter (replicas s) memberName name
                                (merge_counter (replica_counter (replicas s) memberName name) c)\<rparr>))))"

definition readReset :: "server \<Rightarrow> bytes \<Rightarrow> server result" where
  "readReset s bs =
     (case read_string newline bs of
        Inl e \<Rightarrow> Inl e
      | Inr (n, bs1) \<Rightarrow>
          (let name = bytes_str (butlast n)
           in case read_counter bs1 of
             Inl e \<Rightarrow> Inl e
           | Inr (c, _) \<Rightarrow>
               (case replica_counter (replicas s) (cfgName s) name of
                  None \<Rightarrow> Inr s
                | Some oc \<Rightarrow>
                    if Revision c = Revision oc then
                      (let oc' = \<lparr>Up = Up oc - Up c, Down = Down oc - Down c,
                                  Revision = Revision oc + 1\<rparr>
                       in Inr (broadcastChange
                            (s\<lparr>replicas := put_counter (replicas s) (cfgName s) name oc'\<rparr>) name oc'))
                    else Inr s)))"

text \<open>An error is logged and leaves the state as it was.\<close>

definition notifyMsg :: "server \<Rightarrow> bytes \<Rightarrow> server" where
  "notifyMsg s msg =
     (case msg of
        [] \<Rightarrow> s
      | t # r \<Rightarrow>
          if t = resetMessage then (case readReset s r of Inl e \<Rightarrow> s | Inr s' \<Rightarrow> s')
          else if t = changeMessage then (case readChange s r of Inl e \<Rightarrow> s | Inr s' \<Rightarrow> s')
          else s)"

definition getBroadcastsS ::
  "(change bcQueue \<Rightarrow> change bcQueue) \<Rightarrow> nat \<Rightarrow> int \<Rightarrow> int \<Rightarrow> server \<Rightarrow> server \<times> bytes list" where
  "getBroadcastsS srt numMembers overhead limit s =
     (let (q, toSend, fin) = getBroadcasts Message srt 4 numMembers overhead limit (changes s)
      in (s\<lparr>changes := q\<rparr>, toSend))"

section \<open>The client operations\<close>

text \<open>
  The own map is nil, so that an assignment to it panics, or the pointer to the counter is.
\<close>

definition own_nil :: "server \<Rightarrow> string \<Rightarrow> bool" where
  "own_nil s name \<longleftrightarrow> (cfgName s, None) \<in> srv_nils s \<or> (cfgName s, Some name) \<in> srv_nils s"

lemma own_nil_none [simp]: "srv_nils s = {} \<Longrightarrow> own_nil s name = False"
  by (simp add: own_nil_def)

text \<open>\<open>ms\<close> is the order in which the runtime ranges over \<open>s.replicas\<close>.\<close>

definition getCounter :: "server \<Rightarrow> string list \<Rightarrow> string \<Rightarrow> f64 \<times> bool" where
  "getCounter s ms name =
     (fold (\<lambda>m value. case replica_counter (replicas s) m name of
              None \<Rightarrow> value | Some c \<Rightarrow> value + (Up c - Down c)) ms 0,
      consistent s)"

definition incCounter :: "server \<Rightarrow> string \<Rightarrow> f64 \<Rightarrow> (server \<times> f64) outcome" where
  "incCounter s name diff =
     (case replicas s (cfgName s) of
        None \<Rightarrow> Panics
      | Some own \<Rightarrow>
          if own_nil s name then Panics else
          (let c = (case own name of None \<Rightarrow> emptyCounter | Some c \<Rightarrow> c);
               c' = (if f_less 0 diff then c\<lparr>Up := Up c + diff\<rparr> else c\<lparr>Down := Down c - diff\<rparr>);
               s' = s\<lparr>replicas := (replicas s)(cfgName s \<mapsto> own(name \<mapsto> c'))\<rparr>
           in Returns (broadcastChange s' name c', Up c' - Down c')))"

text \<open>
  The first half of \<open>set\<close>: every other member whose replica holds the counter is sent what
  this server knows of it.  \<open>send\<close> says how each transfer ends (\<open>None\<close>: delivered); the
  result is the messages handed to \<open>SendToTCP\<close>, in order, and the errors.
\<close>

fun send_resets ::
  "server \<Rightarrow> string \<Rightarrow> (node \<Rightarrow> bytes \<Rightarrow> goerr option) \<Rightarrow> node list \<Rightarrow> (node \<times> bytes) list \<times> goerr list" where
  "send_resets s name send [] = ([], [])"
| "send_resets s name send (node # nodes) =
     (let (msgs, errs) = send_resets s name send nodes
      in if Name node = cfgName s then (msgs, errs)
         else case replica_counter (replicas s) (Name node) name of
           None \<Rightarrow> (msgs, errs)
         | Some counter \<Rightarrow>
             (let data = reset_bytes name counter
              in ((node, data) # msgs,
                  (case send node data of None \<Rightarrow> errs | Some e \<Rightarrow> e # errs))))"

text \<open>
  The second half, once every transfer went well: the own counter is overwritten under the next
  revision.  \<open>setCounter\<close> runs both without a step of another goroutine in between; the two
  halves are also separate steps of the transition system.
\<close>

definition setLocal :: "server \<Rightarrow> string \<Rightarrow> f64 \<Rightarrow> (server \<times> f64) outcome" where
  "setLocal s name value =
     (let up = (if f_less 0 value then value else 0);
          down = (if f_less 0 value then 0 else - value)
      in case replicas s (cfgName s) of
           None \<Rightarrow> Panics
         | Some own \<Rightarrow>
             if own_nil s name then Panics else
             (let (c, old) = (case own name of
                    Some c \<Rightarrow> (\<lparr>Up = up, Down = down, Revision = Revision c + 1\<rparr>, Up c - Down c)
                  | None \<Rightarrow> (\<lparr>Up = up, Down = down, Revision = 0\<rparr>, 0));
                  s' = s\<lparr>replicas := (replicas s)(cfgName s \<mapsto> own(name \<mapsto> c))\<rparr>
              in Returns (broadcastChange s' name c, old)))"

text \<open>The list of errors a successful call returns has one entry, \<open>nil\<close>.\<close>

definition setCounter ::
  "server \<Rightarrow> string \<Rightarrow> f64 \<Rightarrow> (node \<Rightarrow> bytes \<Rightarrow> goerr option) \<Rightarrow> node list \<Rightarrow>
   (server \<times> f64 \<times> goerr option list) outcome" where
  "setCounter s name value send nodes =
     (let errs = snd (send_resets s name send nodes)
      in if errs \<noteq> [] then Returns (s, 0, map Some errs)
         else case setLocal s name value of
           Panics \<Rightarrow> Panics
         | Returns (s', old) \<Rightarrow> Returns (s', old, [None]))"

text \<open>
  \<open>list\<close>: \<open>ms\<close> orders the members, \<open>ns m\<close> the counters of member \<open>m\<close>; a missing entry of the
  accumulator reads as 0.
\<close>

definition list_add :: "(string \<rightharpoonup> f64) \<Rightarrow> string \<Rightarrow> f64 \<Rightarrow> (string \<rightharpoonup> f64)" where
  "list_add l name v = l(name \<mapsto> (case l name of None \<Rightarrow> 0 | Some x \<Rightarrow> x) + v)"

definition listCounters :: "server \<Rightarrow> string list \<Rightarrow> (string \<Rightarrow> string list) \<Rightarrow> (string \<rightharpoonup> f64)" where
  "listCounters s ms ns =
     (let l = fold (\<lambda>m l. fold (\<lambda>n l. case replica_counter (replicas s) m n of
                None \<Rightarrow> l | Some c \<Rightarrow> list_add l n (Up c - Down c)) (ns m) l) ms Map.empty
      in (\<lambda>n. case l n of None \<Rightarrow> None | Some v \<Rightarrow> if f_eq v 0 then None else Some v))"

section \<open>State exchange\<close>

text \<open>
  A gob stream is the sequence of values encoded into it; \<open>Decode\<close> takes the next one and
  fails on the end or on a value of another type.  Gob leaves out zero fields, so a negative
  zero arrives as zero.
\<close>

datatype gob = GobStates states | GobCounters replica_map

definition gob_float :: "f64 \<Rightarrow> f64" where
  "gob_float f = (if f_eq f 0 then 0 else f)"

definition gob_counter :: "counter \<Rightarrow> counter" where
  "gob_counter c = c\<lparr>Up := gob_float (Up c), Down := gob_float (Down c)\<rparr>"

definition gob_replicas :: "replica_map \<Rightarrow> replica_map" where
  "gob_replicas r = (\<lambda>m. map_option (\<lambda>cs n. map_option gob_counter (cs n)) (r m))"

definition localState :: "server \<Rightarrow> gob list" where
  "localState s = [GobStates (members s), GobCounters (gob_replicas (replicas s))]"

fun decode_states :: "gob list \<Rightarrow> (states \<times> gob list) result" where
  "decode_states [] = Inl EOF"
| "decode_states (GobStates m # r) = Inr (m, r)"
| "decode_states (GobCounters c # r) = Inl (ErrMsg ''gob: type mismatch'')"

fun decode_counters :: "gob list \<Rightarrow> (replica_map \<times> gob list) result" where
  "decode_counters [] = Inl EOF"
| "decode_counters (GobCounters c # r) = Inr (c, r)"
| "decode_counters (GobStates m # r) = Inl (ErrMsg ''gob: type mismatch'')"

definition merge_state :: "states \<Rightarrow> string \<Rightarrow> mstate \<Rightarrow> states" where
  "merge_state ms m st =
     (case ms m of None \<Rightarrow> ms(m \<mapsto> st) | Some x \<Rightarrow> if When x < When st then ms(m \<mapsto> st) else ms)"

definition merge_member_counters :: "string \<Rightarrow> counters \<Rightarrow> string list \<Rightarrow> replica_map \<Rightarrow> replica_map" where
  "merge_member_counters m counters ns r =
     fold (\<lambda>n r. case counters n of None \<Rightarrow> r
             | Some c \<Rightarrow> put_counter r m n (merge_counter (replica_counter r m n) c)) ns
       (if r m = None then r(m \<mapsto> Map.empty) else r)"

text \<open>
  The orders of the three loops are arguments: \<open>ks\<close> over the remote members, \<open>ms\<close> over the
  remote replicas, \<open>ns m\<close> over the counters of \<open>m\<close>; \<open>now\<close> is \<open>time.Now().UTC().Unix()\<close>.
  \<open>updateConsistent\<close>, which the code starts as a goroutine, is a step of its own.
\<close>

definition mergeRemoteState ::
  "server \<Rightarrow> int \<Rightarrow> string list \<Rightarrow> string list \<Rightarrow> (string \<Rightarrow> string list) \<Rightarrow> gob list \<Rightarrow> server" where
  "mergeRemoteState s now ks ms ns buf =
     (case decode_states buf of
        Inl e \<Rightarrow> s
      | Inr (rmembers, buf') \<Rightarrow>
          (case decode_counters buf' of
             Inl e \<Rightarrow> s
           | Inr (rreplicas, _) \<Rightarrow>
               (let mem = fold (\<lambda>k mem. case rmembers k of None \<Rightarrow> mem | Some st \<Rightarrow> merge_state mem k st)
                       ks (members s);
                    mem' = mem(cfgName s \<mapsto> \<lparr>Active = 1, When = now\<rparr>);
                    rep = fold (\<lambda>m rep. case rreplicas m of None \<Rightarrow> rep
                              | Some counters \<Rightarrow>
                                  if mem' m = None then rep
                                  else merge_member_counters m counters (ns m) rep)
                       ms (replicas s)
                in s\<lparr>members := mem', replicas := rep\<rparr>)))"

section \<open>Membership events\<close>

definition notifyJoin :: "server \<Rightarrow> int \<Rightarrow> node \<Rightarrow> server" where
  "notifyJoin s now node =
     s\<lparr>members := (members s)(Name node \<mapsto> \<lparr>Active = 1, When = now\<rparr>),
       reconnects := reconnects s - {node_addr node}\<rparr>"

definition notifyLeave :: "server \<Rightarrow> int \<Rightarrow> node \<Rightarrow> server" where
  "notifyLeave s now node =
     (case meta_decode (Meta node) of
        Inl e \<Rightarrow> s
      | Inr m \<Rightarrow>
          if Leaving m = 0 then s\<lparr>reconnects := reconnects s \<union> {node_addr node}\<rparr>
          else s\<lparr>members := (members s)(Name node \<mapsto> \<lparr>Active = 0, When = now\<rparr>),
                 reconnects := reconnects s - {node_addr node}\<rparr>)"

text \<open>\<open>updateConsistent\<close>: \<open>ks\<close> orders \<open>s.members\<close>; the loop stops at the first missing member.\<close>

definition updateConsistent :: "server \<Rightarrow> string list \<Rightarrow> node list \<Rightarrow> server" where
  "updateConsistent s ks nodes =
     s\<lparr>consistent := list_all (\<lambda>k. case members s k of None \<Rightarrow> True
          | Some st \<Rightarrow> Active st = 1 \<longrightarrow> k \<in> Name ` set nodes) ks\<rparr>"

section \<open>Start, Stop, Join\<close>

definition newServer :: "string \<Rightarrow> server" where
  "newServer name =
     \<lparr>cfgName = name, srv_meta = \<lparr>Leaving = 0\<rparr>, consistent = True, replicas = Map.empty, srv_nils = {},
      changes = [], members = Map.empty, reconnects = {}\<rparr>"

definition startServer :: "server \<Rightarrow> int \<Rightarrow> server" where
  "startServer s now =
     s\<lparr>replicas := (replicas s)(cfgName s \<mapsto> Map.empty),
       srv_nils := {x \<in> srv_nils s. fst x \<noteq> cfgName s},
       members := (members s)(cfgName s \<mapsto> \<lparr>Active = 1, When = now\<rparr>),
       changes := []\<rparr>"

text \<open>\<open>Stop\<close> announces the leave in the meta data before the member leaves.\<close>

definition stopServer :: "server \<Rightarrow> server" where
  "stopServer s = s\<lparr>srv_meta := \<lparr>Leaving = 1\<rparr>\<rparr>"

definition nodeMeta :: "server \<Rightarrow> int \<Rightarrow> bytes option" where
  "nodeMeta s limit = meta_encode (srv_meta s) limit"

definition joinCluster :: "server \<Rightarrow> int \<Rightarrow> server" where
  "joinCluster s now =
     s\<lparr>consistent := False,
       replicas := [cfgName s \<mapsto> Map.empty],
       srv_nils := {},
       changes := [],
       members := [cfgName s \<mapsto> \<lparr>Active = 1, When = now\<rparr>],
       reconnects := {}\<rparr>"

text \<open>
  What \<open>Decode\<close> reads: the document \<open>null\<close>, or the members of an object, each with an object of
  counters; a \<open>null\<close> for the counters of a member, as a value of another type, leaves a nil map there, a
  \<open>null\<close> for a counter a nil pointer.  A document that is not read to its end is an object without
  members.  The last of equal names counts.
\<close>

type_synonym json_counters = "(string \<times> counter option) list"
type_synonym json_replicas = "(string \<times> json_counters option) list"

datatype decoded = DecodedNull | Decoded json_replicas

definition last_wins :: "(string \<times> 'a) list \<Rightarrow> (string \<times> 'a) list" where
  "last_wins l = AList.clearjunk (rev l)"

definition json_counters_map :: "json_counters option \<Rightarrow> counters" where
  "json_counters_map cs =
     (case cs of None \<Rightarrow> Map.empty
      | Some l \<Rightarrow> (\<lambda>n. case map_of (last_wins l) n of Some (Some c) \<Rightarrow> Some c | _ \<Rightarrow> None))"

definition json_map :: "json_replicas \<Rightarrow> replica_map" where
  "json_map d = (\<lambda>m. map_option json_counters_map (map_of (last_wins d) m))"

definition json_nils :: "json_replicas \<Rightarrow> (string \<times> string option) set" where
  "json_nils d = set (concat (map (\<lambda>(m, cs). case cs of
       None \<Rightarrow> [(m, None)]
     | Some l \<Rightarrow> map (\<lambda>(n, _). (m, Some n)) (filter (\<lambda>(_, c). c = None) (last_wins l))) (last_wins d)))"

text \<open>
  \<open>Load\<close> after the file was opened: the objects are decoded into the existing map, key by key.  The
  document \<open>null\<close> makes the map nil, so that storing the server's own map panics.
\<close>

definition loadReplicas :: "server \<Rightarrow> decoded \<Rightarrow> server outcome" where
  "loadReplicas s decoded =
     (case decoded of
        DecodedNull \<Rightarrow> Panics
      | Decoded d \<Rightarrow>
          (let r = replicas s ++ json_map d
           in Returns (s\<lparr>replicas := (if r (cfgName s) = None then r(cfgName s \<mapsto> Map.empty) else r),
                         srv_nils := {x \<in> srv_nils s. fst x \<notin> fst ` set d} \<union> json_nils d\<rparr>)))"

text \<open>
  The error \<open>Save\<close> returns, from those of creating the file, encoding and closing it: the
  deferred function replaces the result only when there is one already.
\<close>

definition saveFile :: "goerr option \<Rightarrow> goerr option \<Rightarrow> goerr option \<Rightarrow> goerr option" where
  "saveFile create_err encode_err close_err =
     (case create_err of
        Some e \<Rightarrow> Some e
      | None \<Rightarrow> (if close_err \<noteq> None \<and> encode_err \<noteq> None then close_err else encode_err))"

end
