(* ===== verification/ServerInv.thy ===== *)
theory ServerInv
  imports Server
begin

text \<open>
  What the server keeps true of its state, whatever arrives: its own replica map and member
  entry exist, nothing in the replicas is nil, replicas belong to known members, every counter is a proper pair of doubles, and
  the gossip queue holds at most one message per counter, each a well-formed change of this
  server's own replica.
\<close>

section \<open>Looking up and storing counters\<close>

lemma replica_counter_put [simp]:
  "replica_counter (put_counter r m n c) m' n' =
     (if m' = m \<and> n' = n then Some c else replica_counter r m' n')"
  by (auto simp: replica_counter_def put_counter_def split: option.splits)

lemma dom_put_counter [simp]: "dom (put_counter r m n c) = insert m (dom r)"
  by (simp add: put_counter_def)

lemma put_counter_own_map: "r m = Some own \<Longrightarrow> r(m \<mapsto> own(n \<mapsto> c)) = put_counter r m n c"
  by (simp add: put_counter_def)

lemma replica_counter_own: "r m = Some own \<Longrightarrow> replica_counter r m n = own n"
  by (simp add: replica_counter_def)

lemma replica_counter_dom: "replica_counter r m n = Some c \<Longrightarrow> m \<in> dom r"
  by (auto simp: replica_counter_def split: option.splits)

definition counters_ok :: "replica_map \<Rightarrow> bool" where
  "counters_ok r \<longleftrightarrow> (\<forall>m n c. replica_counter r m n = Some c \<longrightarrow> counter_ok c)"

lemma counters_okD: "counters_ok r \<Longrightarrow> replica_counter r m n = Some c \<Longrightarrow> counter_ok c"
  by (auto simp: counters_ok_def)

lemma counters_ok_put: "counters_ok r \<Longrightarrow> counter_ok c \<Longrightarrow> counters_ok (put_counter r m n c)"
  by (auto simp: counters_ok_def)

lemma counters_ok_empty_map [simp]: "counters_ok [m \<mapsto> Map.empty]"
  by (auto simp: counters_ok_def replica_counter_def split: if_splits)

lemma counters_ok_add_empty: "counters_ok r \<Longrightarrow> counters_ok (r(m \<mapsto> Map.empty))"
  by (auto simp: counters_ok_def replica_counter_def split: if_splits)

section \<open>The invariant\<close>

definition queued_ok :: "string \<Rightarrow> change \<Rightarrow> bool" where
  "queued_ok me x \<longleftrightarrow>
     (\<exists>c. counter_ok c \<and> NL \<notin> set (ch_name x) \<and> ch_data x = change_bytes me (ch_name x) c)"

definition queue_ok :: "string \<Rightarrow> change bcQueue \<Rightarrow> bool" where
  "queue_ok me q \<longleftrightarrow> unique_keys ch_name q \<and> (\<forall>x \<in> set q. queued_ok me (bc x))"

definition server_ok :: "server \<Rightarrow> bool" where
  "server_ok s \<longleftrightarrow>
     NL \<notin> set (cfgName s) \<and> cfgName s \<in> dom (replicas s) \<and> cfgName s \<in> dom (members s) \<and> srv_nils s = {} \<and>
     counters_ok (replicas s) \<and> queue_ok (cfgName s) (changes s)"

text \<open>Replicas belong to known members, except those that came out of a loaded file.\<close>

definition replicas_known :: "server \<Rightarrow> bool" where
  "replicas_known s \<longleftrightarrow> dom (replicas s) \<subseteq> dom (members s)"

lemma queue_ok_Nil [simp]: "queue_ok me []"
  by (simp add: queue_ok_def unique_keys_def)

lemma queue_ok_broadcast:
  assumes "queue_ok me q" "queued_ok me b"
  shows "queue_ok me (fst (queueBroadcast Invalidates b q))"
proof -
  have u: "unique_keys ch_name q"
    using assms(1) by (simp add: queue_ok_def)
  with assms show ?thesis
    using change.unique_keys_queueBroadcast[OF u, of b]
    by (auto simp: queue_ok_def change.queueBroadcast_eq)
qed

lemma server_ok_put:
  assumes "server_ok s" "counter_ok c"
  shows "server_ok (s\<lparr>replicas := put_counter (replicas s) m n c\<rparr>)"
  using assms by (auto simp: server_ok_def intro: counters_ok_put)

lemma broadcastChange_sel [simp]:
  "cfgName (broadcastChange s n c) = cfgName s" "srv_meta (broadcastChange s n c) = srv_meta s"
  "consistent (broadcastChange s n c) = consistent s" "replicas (broadcastChange s n c) = replicas s"
  "srv_nils (broadcastChange s n c) = srv_nils s"
  "members (broadcastChange s n c) = members s" "reconnects (broadcastChange s n c) = reconnects s"
  by (simp_all add: broadcastChange_def)

lemma server_ok_broadcast:
  assumes "server_ok s" "NL \<notin> set n" "counter_ok c"
  shows "server_ok (broadcastChange s n c)"
proof -
  have "queued_ok (cfgName s) \<lparr>ch_name = n, ch_data = change_bytes (cfgName s) n c\<rparr>"
    using assms(2,3) by (auto simp: queued_ok_def)
  then show ?thesis
    using assms(1) queue_ok_broadcast by (simp add: server_ok_def broadcastChange_def)
qed

lemma server_ok_own_nil [simp]: "server_ok s \<Longrightarrow> \<not> own_nil s n"
  by (simp add: server_ok_def)

lemma counter_ok_empty [simp]: "counter_ok emptyCounter"
  by (simp add: counter_ok_def emptyCounter_def)

section \<open>Messages are read back\<close>

lemma str_bytes_NL [simp]: "str_bytes [NL] = [newline]"
  by (simp add: str_bytes_def byte_of_NL)

lemma read_line [wire]:
  "NL \<notin> set n \<Longrightarrow> read_string newline (str_bytes n @ newline # r) = Inr (str_bytes n @ [newline], r)"
  by (rule read_string_append) simp

lemma readChange_bytes [wire]:
  assumes "NL \<notin> set m" "NL \<notin> set n" "counter_ok c" "m \<in> dom (members s)"
  shows "readChange s (tl (change_bytes m n c)) =
    Inr (s\<lparr>replicas := put_counter (replicas s) m n (merge_counter (replica_counter (replicas s) m n) c)\<rparr>)"
  using assms read_counter_bytes[of c "[]"]
  by (auto simp: readChange_def change_bytes_def wire)

lemma notifyMsg_change [wire]:
  assumes "NL \<notin> set m" "NL \<notin> set n" "counter_ok c" "m \<in> dom (members s)"
  shows "notifyMsg s (change_bytes m n c) =
    s\<lparr>replicas := put_counter (replicas s) m n (merge_counter (replica_counter (replicas s) m n) c)\<rparr>"
  using readChange_bytes[OF assms]
  by (simp add: notifyMsg_def change_bytes_def changeMessage_def resetMessage_def)

lemma notifyMsg_reset [wire]:
  assumes "NL \<notin> set n" "counter_ok c"
  shows "notifyMsg s (reset_bytes n c) =
    (case replica_counter (replicas s) (cfgName s) n of
       None \<Rightarrow> s
     | Some oc \<Rightarrow>
         if Revision c = Revision oc then
           (let oc' = \<lparr>Up = Up oc - Up c, Down = Down oc - Down c, Revision = Revision oc + 1\<rparr>
            in broadcastChange (s\<lparr>replicas := put_counter (replicas s) (cfgName s) n oc'\<rparr>) n oc')
         else s)"
  using assms read_counter_bytes[of c "[]"]
  by (auto simp: notifyMsg_def readReset_def reset_bytes_def wire resetMessage_def Let_def
      split: option.splits)

section \<open>Every operation keeps the invariant\<close>

lemma readChange_Inr:
  assumes "readChange s bs = Inr s'"
  obtains m n c where "m \<in> dom (members s)" "counter_ok c"
    "s' = s\<lparr>replicas := put_counter (replicas s) m n (merge_counter (replica_counter (replicas s) m n) c)\<rparr>"
  using assms
  by (fastforce simp: readChange_def Let_def split: sum.splits prod.splits if_splits
      dest: read_counter_ok)

lemma server_ok_readChange:
  assumes "server_ok s" "readChange s bs = Inr s'"
  shows "server_ok s'"
  using assms(2)
proof (rule readChange_Inr)
  fix m n c
  assume a: "m \<in> dom (members s)" "counter_ok c"
    "s' = s\<lparr>replicas := put_counter (replicas s) m n (merge_counter (replica_counter (replicas s) m n) c)\<rparr>"
  have "counter_ok (merge_counter (replica_counter (replicas s) m n) c)"
    using a(2) assms(1) by (auto simp: server_ok_def intro: counter_ok_merge counters_okD)
  then show ?thesis
    using server_ok_put[OF assms(1)] a(3) by simp
qed

lemma read_string_clean:
  "read_string newline bs = Inr (n, r) \<Longrightarrow> NL \<notin> set (bytes_str (butlast n))"
proof (drule read_string_Inr, elim exE conjE)
  fix t
  assume t: "n = t @ [newline]" "newline \<notin> set t"
  have "b = newline" if "char_of_byte b = NL" for b :: byte
    using that by (metis byte_of_NL byte_of_char_of_byte)
  with t show "NL \<notin> set (bytes_str (butlast n))"
    by (auto simp: bytes_str_def)
qed

lemma readReset_Inr:
  assumes "readReset s bs = Inr s'"
  obtains "s' = s"
  | n c oc oc' where "NL \<notin> set n" "counter_ok c" "replica_counter (replicas s) (cfgName s) n = Some oc"
      "oc' = \<lparr>Up = Up oc - Up c, Down = Down oc - Down c, Revision = Revision oc + 1\<rparr>"
      "s' = broadcastChange (s\<lparr>replicas := put_counter (replicas s) (cfgName s) n oc'\<rparr>) n oc'"
  using assms
  by (fastforce simp: readReset_def Let_def split: sum.splits prod.splits if_splits option.splits
      dest: read_counter_ok read_string_clean)

lemma server_ok_readReset:
  assumes "server_ok s" "readReset s bs = Inr s'"
  shows "server_ok s'"
  using assms(2)
proof (rule readReset_Inr)
  fix n c oc oc'
  assume a: "NL \<notin> set n" "counter_ok c" "replica_counter (replicas s) (cfgName s) n = Some oc"
    "oc' = \<lparr>Up = Up oc - Up c, Down = Down oc - Down c, Revision = Revision oc + 1\<rparr>"
    "s' = broadcastChange (s\<lparr>replicas := put_counter (replicas s) (cfgName s) n oc'\<rparr>) n oc'"
  have "counter_ok oc"
    using assms(1) a(3) by (auto simp: server_ok_def intro: counters_okD)
  then have "counter_ok oc'"
    using a(2,4) by (simp add: counter_ok_def)
  then show ?thesis
    using a(1,5) server_ok_broadcast[OF server_ok_put[OF assms(1)]] by simp
qed (use assms in simp)

lemma server_ok_notifyMsg:
  assumes "server_ok s"
  shows "server_ok (notifyMsg s msg)"
proof (cases msg)
  case (Cons t r)
  have "server_ok (case readReset s r of Inl e \<Rightarrow> s | Inr s' \<Rightarrow> s')"
    using assms server_ok_readReset by (cases "readReset s r") auto
  moreover have "server_ok (case readChange s r of Inl e \<Rightarrow> s | Inr s' \<Rightarrow> s')"
    using assms server_ok_readChange by (cases "readChange s r") auto
  ultimately show ?thesis
    using assms by (simp add: notifyMsg_def Cons)
qed (use assms in \<open>simp add: notifyMsg_def\<close>)

lemma server_ok_inc:
  assumes "server_ok s" "NL \<notin> set n" "f64_ok d" "incCounter s n d = Returns (s', v)"
  shows "server_ok s'"
proof -
  obtain own where own: "replicas s (cfgName s) = Some own"
    using assms(1) by (auto simp: server_ok_def)
  have "counter_ok (case own n of None \<Rightarrow> emptyCounter | Some c \<Rightarrow> c)"
    using assms(1) counters_okD[of "replicas s" "cfgName s" n] own
    by (auto simp: server_ok_def replica_counter_own split: option.splits)
  then show ?thesis
    using assms(2-4) server_ok_broadcast[OF server_ok_put[OF assms(1)]] own
    by (auto simp: incCounter_def Let_def put_counter_own_map counter_ok_def split: if_splits)
qed

lemma server_ok_setLocal:
  assumes "server_ok s" "NL \<notin> set n" "f64_ok v" "setLocal s n v = Returns (s', old)"
  shows "server_ok s'"
proof -
  obtain own where own: "replicas s (cfgName s) = Some own"
    using assms(1) by (auto simp: server_ok_def)
  show ?thesis
    using assms server_ok_broadcast[OF server_ok_put[OF assms(1)]] own
    by (auto simp: setLocal_def Let_def put_counter_own_map counter_ok_def split: if_splits option.splits)
qed

lemma server_ok_set:
  assumes "server_ok s" "NL \<notin> set n" "f64_ok v" "setCounter s n v send nodes = Returns (s', old, errs)"
  shows "server_ok s'"
  using assms server_ok_setLocal[OF assms(1-3)]
  by (auto simp: setCounter_def Let_def split: if_splits outcome.splits)

lemma server_ok_getBroadcasts:
  assumes "server_ok s" "go_sort srt"
  shows "server_ok (fst (getBroadcastsS srt k overhead limit s))"
proof -
  obtain q sent fin where g: "getBroadcasts Message srt 4 k overhead limit (changes s) = (q, sent, fin)"
    by (rule prod_cases3)
  obtain kept used where
    s: "send_all Message overhead limit (retransmitLimit 4 k) (rev (changes s)) 0 = (kept, used, sent, fin)"
    and m: "mset q = mset kept"
    using assms(2) g by (rule getBroadcasts_elim)
  have "unique_keys ch_name q"
    by (rule unique_keys_getBroadcasts[OF assms(2) _ g])
      (use assms(1) in \<open>simp add: server_ok_def queue_ok_def\<close>)
  moreover have "queued_ok (cfgName s) (bc x)" if "x \<in> set q" for x
  proof -
    have "x \<in> set kept"
      using that m by (metis set_mset_mset)
    then obtain b where "b \<in> set (changes s)" "bc x = bc b"
      using send_all_transmits[OF s] by auto
    then show ?thesis
      using assms(1) by (simp add: server_ok_def queue_ok_def)
  qed
  ultimately have "queue_ok (cfgName s) q"
    by (simp add: queue_ok_def)
  then show ?thesis
    using assms(1) by (simp add: getBroadcastsS_def g server_ok_def)
qed

section \<open>MergeRemoteState\<close>

lemma replica_map_eqI:
  assumes "dom r = dom r'" "\<And>m n. replica_counter r m n = replica_counter r' m n"
  shows "r = r'"
proof (rule map_le_antisym; unfold map_le_def; rule ballI)
  fix m
  assume "m \<in> dom r"
  with assms(1) obtain cs cs' where "r m = Some cs" "r' m = Some cs'"
    by (metis domD)
  then show "r m = r' m"
    using assms(2)[of m] by (auto simp: replica_counter_def)
next
  fix m
  assume "m \<in> dom r'"
  with assms(1) obtain cs cs' where "r m = Some cs" "r' m = Some cs'"
    by (metis domD)
  then show "r' m = r m"
    using assms(2)[of m] by (auto simp: replica_counter_def)
qed

text \<open>The merge of one incoming value, and of a whole remote replica map, key by key.\<close>

definition merged_value :: "counter option \<Rightarrow> counter option \<Rightarrow> counter option" where
  "merged_value old new = (case new of None \<Rightarrow> old | Some c \<Rightarrow> Some (merge_counter old c))"

definition newer_state :: "mstate option \<Rightarrow> mstate option \<Rightarrow> mstate option" where
  "newer_state old new =
     (case (old, new) of
        (_, None) \<Rightarrow> old
      | (None, Some st) \<Rightarrow> Some st
      | (Some x, Some st) \<Rightarrow> Some (if When x < When st then st else x))"

lemma merge_state_apply:
  "merge_state ms m st k = (if k = m then newer_state (ms k) (Some st) else ms k)"
  by (auto simp: merge_state_def newer_state_def split: option.splits)

lemma merge_states_fold:
  "distinct ks \<Longrightarrow>
   fold (\<lambda>k mem. case rm k of None \<Rightarrow> mem | Some st \<Rightarrow> merge_state mem k st) ks mem k =
     (if k \<in> set ks then newer_state (mem k) (rm k) else mem k)"
  by (induction ks arbitrary: mem) (auto simp: merge_state_apply newer_state_def split: option.splits)

lemma put_counters_fold:
  "distinct ns \<Longrightarrow>
   replica_counter (fold (\<lambda>n r. case cs n of None \<Rightarrow> r
       | Some c \<Rightarrow> put_counter r m n (merge_counter (replica_counter r m n) c)) ns r) m' n' =
     (if m' = m \<and> n' \<in> set ns then merged_value (replica_counter r m' n') (cs n')
      else replica_counter r m' n')"
  by (induction ns arbitrary: r) (auto simp: merged_value_def split: option.splits)

lemma put_counters_dom:
  "m \<in> dom r \<Longrightarrow>
   dom (fold (\<lambda>n r. case cs n of None \<Rightarrow> r
       | Some c \<Rightarrow> put_counter r m n (merge_counter (replica_counter r m n) c)) ns r) = dom r"
proof (induction ns arbitrary: r)
  case (Cons n ns)
  then have "m \<in> dom (case cs n of None \<Rightarrow> r
      | Some c \<Rightarrow> put_counter r m n (merge_counter (replica_counter r m n) c))"
    by (auto split: option.splits)
  from Cons.IH[OF this] Cons.prems show ?case
    by (auto split: option.splits)
qed simp

lemma replica_counter_add_empty [simp]:
  "replica_counter (if r m = None then r(m \<mapsto> Map.empty) else r) m' n = replica_counter r m' n"
  by (auto simp: replica_counter_def)

lemma merge_member_counters_apply:
  assumes "range_order cs ns"
  shows "replica_counter (merge_member_counters m cs ns r) m' n' =
    (if m' = m then merged_value (replica_counter r m' n') (cs n') else replica_counter r m' n')"
proof -
  have "cs n' = None" if "n' \<notin> set ns"
    using that assms by (auto simp: range_order_def)
  then show ?thesis
    unfolding merge_member_counters_def put_counters_fold[OF range_orderD(1)[OF assms]]
      replica_counter_add_empty
    by (auto simp: merged_value_def)
qed

lemma merge_member_counters_dom: "dom (merge_member_counters m cs ns r) = insert m (dom r)"
proof -
  have "m \<in> dom (if r m = None then r(m \<mapsto> Map.empty) else r)"
    by auto
  from put_counters_dom[OF this] show ?thesis
    by (auto simp: merge_member_counters_def)
qed

text \<open>The remote counters that are looked at: those of members known after the first loop.\<close>

definition accepted :: "states \<Rightarrow> replica_map \<Rightarrow> replica_map" where
  "accepted mem rr = (\<lambda>m. if mem m = None then None else rr m)"

lemma accepted_apply:
  "replica_counter (accepted mem rr) m n = (if mem m = None then None else replica_counter rr m n)"
  by (simp add: accepted_def replica_counter_def)

lemma merged_value_None [simp]: "merged_value old None = old"
  by (simp add: merged_value_def)

lemma merge_replicas_fold:
  assumes "distinct ms" "\<And>m cs. rr m = Some cs \<Longrightarrow> range_order cs (ns m)"
  shows "replica_counter (fold (\<lambda>m rep. case rr m of None \<Rightarrow> rep
      | Some cs \<Rightarrow> if mem m = None then rep else merge_member_counters m cs (ns m) rep) ms rep) m' n' =
    (if m' \<in> set ms then merged_value (replica_counter rep m' n') (replica_counter (accepted mem rr) m' n')
     else replica_counter rep m' n')"
    and "dom (fold (\<lambda>m rep. case rr m of None \<Rightarrow> rep
      | Some cs \<Rightarrow> if mem m = None then rep else merge_member_counters m cs (ns m) rep) ms rep) =
    dom rep \<union> (set ms \<inter> dom (accepted mem rr))"
proof -
  show "dom (fold (\<lambda>m rep. case rr m of None \<Rightarrow> rep
      | Some cs \<Rightarrow> if mem m = None then rep else merge_member_counters m cs (ns m) rep) ms rep) =
    dom rep \<union> (set ms \<inter> dom (accepted mem rr))"
    by (induction ms arbitrary: rep)
      (auto simp: accepted_def merge_member_counters_dom split: option.splits if_splits)
  show "replica_counter (fold (\<lambda>m rep. case rr m of None \<Rightarrow> rep
      | Some cs \<Rightarrow> if mem m = None then rep else merge_member_counters m cs (ns m) rep) ms rep) m' n' =
    (if m' \<in> set ms then merged_value (replica_counter rep m' n') (replica_counter (accepted mem rr) m' n')
     else replica_counter rep m' n')"
    using assms(1)
  proof (induction ms arbitrary: rep)
    case (Cons m ms)
    let ?rep = "case rr m of None \<Rightarrow> rep
      | Some cs \<Rightarrow> if mem m = None then rep else merge_member_counters m cs (ns m) rep"
    have "replica_counter ?rep m' n' =
        (if m' = m then merged_value (replica_counter rep m' n') (replica_counter (accepted mem rr) m' n')
         else replica_counter rep m' n')"
    proof (cases "rr m")
      case None
      then show ?thesis
        by (simp add: accepted_apply replica_counter_def[of rr])
    next
      case (Some cs)
      then show ?thesis
        using merge_member_counters_apply[OF assms(2)[OF Some]]
        by (simp add: accepted_apply replica_counter_def[of rr])
    qed
    then show ?case
      using Cons by auto
  qed simp
qed

text \<open>
  The three loops together: whatever orders the runtime picks, the members are the newer
  entries of both sides, and the replicas are merged counter by counter.
\<close>

definition merge_orders ::
  "gob list \<Rightarrow> string list \<Rightarrow> string list \<Rightarrow> (string \<Rightarrow> string list) \<Rightarrow> bool" where
  "merge_orders buf ks ms ns \<longleftrightarrow>
     (\<forall>rm rr r. buf = GobStates rm # GobCounters rr # r \<longrightarrow>
        range_order rm ks \<and> range_order rr ms \<and> (\<forall>m cs. rr m = Some cs \<longrightarrow> range_order cs (ns m)))"

lemma mergeRemoteState_sel [simp]:
  "cfgName (mergeRemoteState s now ks ms ns buf) = cfgName s"
  "changes (mergeRemoteState s now ks ms ns buf) = changes s"
  "consistent (mergeRemoteState s now ks ms ns buf) = consistent s"
  "srv_nils (mergeRemoteState s now ks ms ns buf) = srv_nils s"
  by (simp_all add: mergeRemoteState_def Let_def split: sum.splits prod.splits)

lemma mergeRemoteState_spec:
  fixes s :: server and now :: int and ks ms :: "string list" and ns :: "string \<Rightarrow> string list"
    and m n :: string and r :: "gob list"
  assumes "merge_orders (GobStates rm # GobCounters rr # r) ks ms ns"
  defines "s' \<equiv> mergeRemoteState s now ks ms ns (GobStates rm # GobCounters rr # r)"
  shows "members s' m = (if m = cfgName s then Some \<lparr>Active = 1, When = now\<rparr>
           else newer_state (members s m) (rm m))"
    and "replica_counter (replicas s') m n = merged_value (replica_counter (replicas s) m n)
           (replica_counter (accepted (members s') rr) m n)"
    and "dom (replicas s') = dom (replicas s) \<union> dom (accepted (members s') rr)"
proof -
  have o': "range_order rm ks" "range_order rr ms" "\<And>m cs. rr m = Some cs \<Longrightarrow> range_order cs (ns m)"
    using assms(1) by (auto simp: merge_orders_def)
  define mem where "mem = (fold (\<lambda>k mem. case rm k of None \<Rightarrow> mem | Some st \<Rightarrow> merge_state mem k st)
     ks (members s))(cfgName s \<mapsto> \<lparr>Active = 1, When = now\<rparr>)"
  have mem: "members s' = mem"
    by (simp add: s'_def mergeRemoteState_def mem_def Let_def)
  have rep: "replicas s' = fold (\<lambda>m rep. case rr m of None \<Rightarrow> rep
      | Some cs \<Rightarrow> if mem m = None then rep else merge_member_counters m cs (ns m) rep) ms (replicas s)"
    unfolding mem_def by (simp add: s'_def mergeRemoteState_def Let_def)
  have out: "newer_state x (rm m) = x" if "m \<notin> set ks" for x
    using that o'(1) by (auto simp: range_order_def newer_state_def split: option.splits)
  show "members s' m = (if m = cfgName s then Some \<lparr>Active = 1, When = now\<rparr>
           else newer_state (members s m) (rm m))"
    unfolding mem mem_def using merge_states_fold[OF range_orderD(1)[OF o'(1)]] out by simp
  have out': "replica_counter (accepted mem rr) m n = None" if "m \<notin> set ms"
    using that o'(2) by (auto simp: range_order_def accepted_apply replica_counter_def[of rr])
  show "replica_counter (replicas s') m n = merged_value (replica_counter (replicas s) m n)
           (replica_counter (accepted (members s') rr) m n)"
    unfolding mem rep using merge_replicas_fold(1)[OF range_orderD(1)[OF o'(2)] o'(3)] out' by simp
  have "dom (accepted mem rr) \<subseteq> set ms"
    using o'(2) by (auto simp: range_order_def accepted_def split: if_splits)
  then show "dom (replicas s') = dom (replicas s) \<union> dom (accepted (members s') rr)"
    unfolding mem rep
    by (subst merge_replicas_fold(2)) (use range_orderD(1)[OF o'(2)] o'(3) in auto)
qed

text \<open>A stream that is not two values of the right types changes nothing.\<close>

lemma mergeRemoteState_malformed:
  assumes "\<nexists>rm rr r. buf = GobStates rm # GobCounters rr # r"
  shows "mergeRemoteState s now ks ms ns buf = s"
proof (cases "decode_states buf")
  case (Inr p)
  then obtain rm r where b: "buf = GobStates rm # r" "p = (rm, r)"
    by (cases buf rule: decode_states.cases) auto
  with assms have "\<exists>e. decode_counters r = Inl e"
    by (cases r rule: decode_counters.cases) auto
  with b show ?thesis
    by (auto simp: mergeRemoteState_def)
qed (simp add: mergeRemoteState_def)

lemma counters_ok_merge:
  assumes "counters_ok r" "counters_ok rr"
    "\<And>m n. replica_counter r' m n = merged_value (replica_counter r m n) (replica_counter (accepted mem rr) m n)"
  shows "counters_ok r'"
  unfolding counters_ok_def
proof (intro allI impI)
  fix m n c
  assume "replica_counter r' m n = Some c"
  then show "counter_ok c"
    using assms counters_okD[OF assms(1), of m n] counters_okD[OF assms(2), of m n]
    by (auto simp: accepted_apply merged_value_def split: option.splits if_splits
        intro: counter_ok_merge)
qed

end
