(* ===== verification/ServerSteps.thy ===== *)
theory ServerSteps
  imports ServerInv
begin

text \<open>
  The server as a transition system.  A step is one operation under the server's lock: a
  client's increment, the local half of a set, a gossip message received or handed out, a state
  exchange, a membership event.  The invariant of \<open>ServerInv\<close> holds in every reachable state,
  and no step moves a counter back.
\<close>

section \<open>The remaining operations keep the invariant\<close>

lemma mergeRemoteState_cases:
  obtains (ignored) "mergeRemoteState s now ks ms ns buf = s"
  | (merged) rm rr r where "buf = GobStates rm # GobCounters rr # r"
proof (cases "\<exists>rm rr r. buf = GobStates rm # GobCounters rr # r")
  case False
  then show ?thesis
    using mergeRemoteState_malformed ignored by blast
qed (use merged in blast)

lemma server_ok_merge:
  assumes "server_ok s" "merge_orders buf ks ms ns"
    and "\<And>rr. GobCounters rr \<in> set buf \<Longrightarrow> counters_ok rr"
  shows "server_ok (mergeRemoteState s now ks ms ns buf)"
proof (cases rule: mergeRemoteState_cases[of s now ks ms ns buf])
  case (merged rm rr r)
  note spec = mergeRemoteState_spec[OF assms(2)[unfolded merged], folded merged]
  have "counters_ok (replicas (mergeRemoteState s now ks ms ns buf))"
    using assms(1,3) merged
    by (intro counters_ok_merge[OF _ _ spec(2)]) (auto simp: server_ok_def)
  then show ?thesis
    using assms(1) spec(1)[where m = "cfgName s"] spec(3) by (auto simp: server_ok_def)
qed (use assms in simp)

lemma server_ok_members:
  "server_ok s \<Longrightarrow> dom (members s) \<subseteq> dom (members s') \<Longrightarrow> cfgName s' = cfgName s \<Longrightarrow>
   replicas s' = replicas s \<Longrightarrow> srv_nils s' = srv_nils s \<Longrightarrow> changes s' = changes s \<Longrightarrow> server_ok s'"
  by (auto simp: server_ok_def)

lemma server_ok_notifyJoin: "server_ok s \<Longrightarrow> server_ok (notifyJoin s now node)"
  by (erule server_ok_members) (auto simp: notifyJoin_def)

lemma server_ok_notifyLeave: "server_ok s \<Longrightarrow> server_ok (notifyLeave s now node)"
  by (erule server_ok_members) (auto simp: notifyLeave_def split: sum.splits)

lemma server_ok_updateConsistent: "server_ok s \<Longrightarrow> server_ok (updateConsistent s ks nodes)"
  by (erule server_ok_members) (auto simp: updateConsistent_def)

lemma server_ok_start: "NL \<notin> set name \<Longrightarrow> server_ok (startServer (newServer name) now)"
  by (simp add: server_ok_def startServer_def newServer_def)

lemma server_ok_join: "server_ok s \<Longrightarrow> server_ok (joinCluster s now)"
  by (simp add: server_ok_def joinCluster_def)

lemma replica_counter_add:
  "replica_counter (r ++ d) m n = (case d m of None \<Rightarrow> replica_counter r m n | Some cs \<Rightarrow> cs n)"
  by (auto simp: replica_counter_def map_add_def split: option.splits)

lemma server_ok_load:
  assumes "server_ok s" "counters_ok (json_map d)" "json_nils d = {}" "loadReplicas s (Decoded d) = Returns s'"
  shows "server_ok s'"
proof -
  let ?r = "replicas s ++ json_map d"
  have s': "s' = s\<lparr>replicas := (if ?r (cfgName s) = None then ?r(cfgName s \<mapsto> Map.empty) else ?r), srv_nils := {}\<rparr>"
    using assms(1,3,4) by (auto simp: loadReplicas_def Let_def server_ok_def)
  have "counter_ok c" if "replica_counter ?r m n = Some c" for m n c
    using that assms(1,2) counters_okD[of "replicas s" m n] counters_okD[of "json_map d" m n]
    by (auto simp: replica_counter_add server_ok_def replica_counter_def[of "json_map d"] split: option.splits)
  then have "counters_ok ?r"
    by (simp add: counters_ok_def)
  then show ?thesis
    using assms(1) counters_ok_add_empty unfolding s' by (auto simp: server_ok_def)
qed

text \<open>
  A file in which the own counters are \<open>null\<close> is taken without an error, and from then on every
  increment and every set panics.
\<close>

lemma load_null_panics:
  assumes "loadReplicas s (Decoded [(cfgName s, None)]) = Returns s'"
  shows "incCounter s' n d = Panics" "setLocal s' n d = Panics"
proof -
  have "cfgName s' = cfgName s" "(cfgName s, None) \<in> srv_nils s'"
    using assms by (auto simp: loadReplicas_def Let_def json_nils_def last_wins_def)
  then have "own_nil s' n"
    by (simp add: own_nil_def)
  then show "incCounter s' n d = Panics" "setLocal s' n d = Panics"
    by (simp_all add: incCounter_def setLocal_def Let_def split: option.split)
qed

section \<open>Steps and reachable states\<close>

text \<open>A counter's name travels on a line of its own and is separated by spaces.\<close>

definition counter_name :: "string \<Rightarrow> bool" where
  "counter_name n \<longleftrightarrow> n \<noteq> [] \<and> NL \<notin> set n \<and> CHR '' '' \<notin> set n"

inductive server_step :: "server \<Rightarrow> server \<Rightarrow> bool" where
  step_notifyMsg: "server_step s (notifyMsg s msg)"
| step_getBroadcasts:
    "go_sort srt \<Longrightarrow> server_step s (fst (getBroadcastsS srt k overhead limit s))"
| step_inc:
    "counter_name n \<Longrightarrow> f64_ok d \<Longrightarrow> incCounter s n d = Returns (s', v) \<Longrightarrow> server_step s s'"
| step_set:
    "counter_name n \<Longrightarrow> f64_ok v \<Longrightarrow> setLocal s n v = Returns (s', old) \<Longrightarrow> server_step s s'"
| step_merge:
    "merge_orders buf ks ms ns \<Longrightarrow> (\<And>rr. GobCounters rr \<in> set buf \<Longrightarrow> counters_ok rr) \<Longrightarrow>
     server_step s (mergeRemoteState s now ks ms ns buf)"
| step_notifyJoin: "server_step s (notifyJoin s now node)"
| step_notifyLeave: "server_step s (notifyLeave s now node)"
| step_updateConsistent: "server_step s (updateConsistent s ks nodes)"
| step_stop: "server_step s (stopServer s)"

text \<open>
  Starting over: joining a cluster drops the data, loading a file replaces replicas.  The file is one
  without a \<open>null\<close> for the counters of a member or for a counter, as \<open>Save\<close> writes; what follows a load
  of another one is not part of the system (see \<open>load_null_panics\<close>).
\<close>

inductive restart_step :: "server \<Rightarrow> server \<Rightarrow> bool" where
  restart_join: "restart_step s (joinCluster s now)"
| restart_load:
    "counters_ok (json_map d) \<Longrightarrow> json_nils d = {} \<Longrightarrow> loadReplicas s (Decoded d) = Returns s' \<Longrightarrow>
     restart_step s s'"

inductive reachable :: "string \<Rightarrow> server \<Rightarrow> bool" for name where
  reach_start: "reachable name (startServer (newServer name) now)"
| reach_step: "reachable name s \<Longrightarrow> server_step s s' \<Longrightarrow> reachable name s'"
| reach_restart: "reachable name s \<Longrightarrow> restart_step s s' \<Longrightarrow> reachable name s'"

inductive_cases server_stepE: "server_step s s'"
inductive_cases restart_stepE: "restart_step s s'"

lemmas server_ok_ops =
  server_ok_notifyMsg server_ok_getBroadcasts server_ok_merge server_ok_notifyJoin
  server_ok_notifyLeave server_ok_updateConsistent

lemma server_ok_stop: "server_ok s \<Longrightarrow> server_ok (stopServer s)"
  by (erule server_ok_members) (auto simp: stopServer_def)

lemma server_ok_step:
  assumes "server_step s s'" "server_ok s"
  shows "server_ok s'"
  using assms
proof cases
  case (step_inc n d v)
  then show ?thesis
    using server_ok_inc[OF assms(2)] by (auto simp: counter_name_def)
next
  case (step_set n v old)
  then show ?thesis
    using server_ok_setLocal[OF assms(2)] by (auto simp: counter_name_def)
qed (use assms(2) server_ok_ops server_ok_stop in simp_all)

lemma server_ok_restart: "restart_step s s' \<Longrightarrow> server_ok s \<Longrightarrow> server_ok s'"
  by (erule restart_stepE) (auto intro: server_ok_join server_ok_load)

lemma server_ok_reachable: "reachable name s \<Longrightarrow> NL \<notin> set name \<Longrightarrow> server_ok s"
  by (induction rule: reachable.induct)
    (auto intro: server_ok_start server_ok_step server_ok_restart)

section \<open>No step moves a counter back\<close>

text \<open>
  \<open>moves_up oc c\<close>: the value \<open>c\<close> replaces \<open>oc\<close> without going back in the replica order.  A
  NaN is beyond any order, and a revision that wraps around at \<open>2 ^ 32\<close> starts over.
\<close>

definition moves_up :: "counter \<Rightarrow> counter \<Rightarrow> bool" where
  "moves_up oc c \<longleftrightarrow> (no_nan c \<and> Revision oc \<noteq> - 1 \<longrightarrow> gle (counter_abs oc) (counter_abs c))"

definition all_move_up :: "replica_map \<Rightarrow> replica_map \<Rightarrow> bool" where
  "all_move_up r r' \<longleftrightarrow>
     (\<forall>m n oc. replica_counter r m n = Some oc \<longrightarrow>
        (\<exists>c. replica_counter r' m n = Some c \<and> moves_up oc c))"

lemma moves_up_refl [simp]: "moves_up c c"
  by (simp add: moves_up_def counter_abs_def)

lemma all_move_up_refl [simp]: "all_move_up r r"
  by (simp add: all_move_up_def)

lemma all_move_up_put:
  "(\<And>oc. replica_counter r m n = Some oc \<Longrightarrow> moves_up oc c) \<Longrightarrow> all_move_up r (put_counter r m n c)"
  by (auto simp: all_move_up_def)

lemma moves_up_merge: "old = Some oc \<Longrightarrow> moves_up oc (merge_counter old c)"
  by (auto simp: moves_up_def merge_counter_def counter_abs_def no_nan_def f_less_def
      word_less_nat_alt)

lemma moves_up_merged_value:
  "old = Some oc \<Longrightarrow> \<exists>c. merged_value old new = Some c \<and> moves_up oc c"
  by (auto simp: merged_value_def moves_up_merge split: option.splits)

lemma u32_succ: "w \<noteq> - 1 \<Longrightarrow> unat w < unat (w + 1)" for w :: u32
  using unatSuc[of w] by (metis add.commute add_eq_0_iff lessI minus_equation_iff)

lemma moves_up_revision: "Revision c = Revision oc + 1 \<Longrightarrow> moves_up oc c"
  by (simp add: moves_up_def counter_abs_def u32_succ)

lemma fadd_nan: "a + d \<noteq> FNaN \<Longrightarrow> a \<noteq> FNaN \<and> d \<noteq> (FNaN :: f64)"
  by (cases a; cases d) (auto simp: plus_f64_def)

lemma all_move_up_notifyMsg: "all_move_up (replicas s) (replicas (notifyMsg s msg))"
proof (cases msg)
  case (Cons t bs)
  have "all_move_up (replicas s) (replicas s')" if "readChange s bs = Inr s'" for s'
    using that by (rule readChange_Inr) (auto intro: all_move_up_put moves_up_merge)
  moreover have "all_move_up (replicas s) (replicas s')" if "readReset s bs = Inr s'" for s'
    using that by (rule readReset_Inr) (auto intro!: all_move_up_put intro: moves_up_revision)
  ultimately show ?thesis
    by (auto simp: notifyMsg_def Cons split: sum.splits)
qed (simp add: notifyMsg_def)

lemma all_move_up_set:
  "setLocal s n v = Returns (s', old) \<Longrightarrow> all_move_up (replicas s) (replicas s')"
  by (auto simp: setLocal_def Let_def put_counter_own_map replica_counter_own
      intro!: all_move_up_put moves_up_revision split: option.splits if_split_asm)

lemma all_move_up_merge:
  assumes "merge_orders buf ks ms ns"
  shows "all_move_up (replicas s) (replicas (mergeRemoteState s now ks ms ns buf))"
proof (cases rule: mergeRemoteState_cases[of s now ks ms ns buf])
  case (merged rm rr r)
  note spec = mergeRemoteState_spec(2)[OF assms[unfolded merged], folded merged]
  show ?thesis
    unfolding all_move_up_def spec by (intro allI impI) (rule moves_up_merged_value)
qed simp

lemma minus_nonpos:
  assumes "d \<noteq> FNaN" "\<not> f_less 0 d"
  shows "fkey d = 0 \<or> f_less 0 (- d)"
  using assms by (cases d) (auto simp: f_less_def zero_f64_def uminus_f64_def sval_def split: if_splits)

lemma f_minus_grows:
  assumes "f64_ok a" "f64_ok d" "\<not> f_less 0 d" "a - d \<noteq> FNaN"
  shows "fkey a \<le> fkey (a - d)"
proof (cases "fkey d = 0")
  case True
  have "d \<noteq> FNaN"
    using fadd_nan[of a "- d"] assms(4) by (auto simp: minus_f64_eq uminus_f64_def)
  with True obtain t where d: "d = FFin t 0"
    by (cases d) (auto simp: sval_def split: if_splits)
  show ?thesis
  proof (cases a)
    case (FFin s m)
    then show ?thesis
      using assms(1) rnd_exact[of m 1]
      by (auto simp: d minus_f64_def Let_def fkey_mk sval_def f64_rep_def split: if_splits)
  qed (auto simp: d minus_f64_def)
next
  case False
  then have "f_less 0 (- d)"
    using minus_nonpos[of d] assms(3) by (cases d) auto
  then show ?thesis
    using f_add_grows[of a "- d"] assms by (simp add: minus_f64_eq)
qed

lemma all_move_up_inc:
  assumes "server_ok s" "f64_ok d" "incCounter s n d = Returns (s', v)"
  shows "all_move_up (replicas s) (replicas s')"
proof -
  obtain own where own: "replicas s (cfgName s) = Some own"
    using assms(1) by (auto simp: server_ok_def)
  have ok: "counter_ok c" if "own n = Some c" for c
    using that own assms(1) counters_okD[of "replicas s" "cfgName s" n c]
    by (auto simp: server_ok_def replica_counter_own)
  have "moves_up c (if f_less 0 d then c\<lparr>Up := Up c + d\<rparr> else c\<lparr>Down := Down c - d\<rparr>)"
    if "own n = Some c" for c
    using ok[OF that] assms(2) f_add_grows[of "Up c" d] f_minus_grows[of "Down c" d]
    by (auto simp: moves_up_def counter_abs_def no_nan_def counter_ok_def)
  then show ?thesis
    using assms(1,3) own
    by (auto simp: incCounter_def Let_def put_counter_own_map replica_counter_own
        intro!: all_move_up_put)
qed

lemma all_move_up_step:
  assumes "server_step s s'" "server_ok s"
  shows "all_move_up (replicas s) (replicas s')"
  using assms
proof cases
  case step_merge
  then show ?thesis
    using all_move_up_merge by simp
qed (use assms(2) all_move_up_notifyMsg all_move_up_inc all_move_up_set in
     \<open>auto simp: getBroadcastsS_def notifyJoin_def notifyLeave_def updateConsistent_def
       stopServer_def split: prod.splits sum.splits\<close>)

section \<open>Replicas belong to known members\<close>

lemma inc_dom:
  "incCounter s n d = Returns (s', v) \<Longrightarrow>
   members s' = members s \<and> dom (replicas s') = insert (cfgName s) (dom (replicas s))"
  by (auto simp: incCounter_def Let_def split: option.splits if_split_asm)

lemma set_dom:
  "setLocal s n v = Returns (s', old) \<Longrightarrow>
   members s' = members s \<and> dom (replicas s') = insert (cfgName s) (dom (replicas s))"
  by (auto simp: setLocal_def Let_def split: option.splits prod.splits if_split_asm)

lemma replicas_known_step:
  assumes "server_step s s'" "server_ok s" "replicas_known s"
  shows "replicas_known s'"
  using assms(1)
proof cases
  case (step_notifyMsg msg)
  show ?thesis
  proof (cases msg)
    case (Cons t bs)
    have "replicas_known s'" if "readChange s bs = Inr s'" for s'
      using that by (rule readChange_Inr) (use assms(3) in \<open>auto simp: replicas_known_def\<close>)
    moreover have "replicas_known s'" if "readReset s bs = Inr s'" for s'
      using that by (rule readReset_Inr) (use assms(2,3) in \<open>auto simp: replicas_known_def server_ok_def\<close>)
    ultimately show ?thesis
      using assms(3) by (auto simp: step_notifyMsg notifyMsg_def Cons split: sum.splits)
  qed (use assms(3) step_notifyMsg in \<open>simp add: notifyMsg_def\<close>)
next
  case (step_merge buf ks ms ns now)
  show ?thesis
  proof (cases rule: mergeRemoteState_cases[of s now ks ms ns buf])
    case (merged rm rr r)
    note spec = mergeRemoteState_spec[OF step_merge(2)[unfolded merged], folded merged]
    have "dom (accepted (members s') rr) \<subseteq> dom (members s')"
      by (auto simp: accepted_def split: if_splits)
    moreover have "dom (members s) \<subseteq> dom (members s')"
      by (auto simp: step_merge(1) spec(1) newer_state_def split: option.splits)
    ultimately show ?thesis
      using assms(3) spec(3) by (auto simp: replicas_known_def step_merge(1))
  qed (use assms(3) step_merge in simp)
next
  case (step_inc n d v)
  then show ?thesis
    using assms(2,3) inc_dom[OF step_inc(3)] by (auto simp: replicas_known_def server_ok_def)
next
  case (step_set n v old)
  then show ?thesis
    using assms(2,3) set_dom[OF step_set(3)] by (auto simp: replicas_known_def server_ok_def)
qed (use assms(2,3) in \<open>auto simp: replicas_known_def getBroadcastsS_def notifyJoin_def
       notifyLeave_def updateConsistent_def stopServer_def split: prod.splits sum.splits\<close>)

end
