(* ===== verification/Replication.thy ===== *)
theory Replication
  imports ServerSteps
begin

text \<open>
  What the replicas mean: the value of a counter as a number, and what increments, resets,
  state exchanges and the gossip of changes do to it.
\<close>

section \<open>The value of a counter\<close>

text \<open>
  \<open>contributes r n v\<close>: in every replica the counter \<open>n\<close> holds whole numbers, and \<open>v m\<close> is what
  member \<open>m\<close> adds to the total (0 where it has no such counter).
\<close>

definition contributes :: "replica_map \<Rightarrow> string \<Rightarrow> (string \<Rightarrow> int) \<Rightarrow> bool" where
  "contributes r n v \<longleftrightarrow>
     (\<forall>m. replica_counter r m n = None \<longrightarrow> v m = 0) \<and>
     (\<forall>m c. replica_counter r m n = Some c \<longrightarrow>
        (\<exists>u d. f_is_int (Up c) u \<and> f_is_int (Down c) d \<and> v m = u - d))"

lemma contributes_None: "contributes r n v \<Longrightarrow> replica_counter r m n = None \<Longrightarrow> v m = 0"
  by (simp add: contributes_def)

lemma contributes_Some:
  assumes "contributes r n v" "replica_counter r m n = Some c"
  shows "\<exists>u d. f_is_int (Up c) u \<and> f_is_int (Down c) d \<and> v m = u - d"
  using assms by (simp add: contributes_def)

lemma contributes_put:
  assumes "contributes r n v" "f_is_int (Up c) u" "f_is_int (Down c) d"
  shows "contributes (put_counter r m n c) n (v(m := u - d))"
  using assms by (auto simp: contributes_def)

lemma contributes_put_other:
  "contributes r n v \<Longrightarrow> n \<noteq> n' \<Longrightarrow> contributes (put_counter r m n' c) n v"
  unfolding contributes_def by simp

definition get_step :: "replica_map \<Rightarrow> string \<Rightarrow> string \<Rightarrow> f64 \<Rightarrow> f64" where
  "get_step r n m value =
     (case replica_counter r m n of None \<Rightarrow> value | Some c \<Rightarrow> value + (Up c - Down c))"

lemma getCounter_get_step:
  "getCounter s ms n = (fold (get_step (replicas s) n) ms 0, consistent s)"
  by (simp add: getCounter_def get_step_def[abs_def])

lemma get_step_int:
  assumes "contributes r n v" "f_is_int a x" "\<bar>x\<bar> + \<bar>v m\<bar> \<le> 2 ^ 53"
  shows "f_is_int (get_step r n m a) (x + v m)"
proof (cases "replica_counter r m n")
  case None
  then show ?thesis
    using assms(2) contributes_None[OF assms(1) None] by (simp add: get_step_def)
next
  case (Some c)
  obtain u d where c: "f_is_int (Up c) u" "f_is_int (Down c) d" "v m = u - d"
    using contributes_Some[OF assms(1) Some] by blast
  have "f_is_int (Up c - Down c) (v m)"
    using f_is_int_minus[OF c(1,2)] assms(3) c(3) by simp
  then show ?thesis
    using f_is_int_add[OF assms(2)] assms(3) by (simp add: get_step_def Some)
qed

lemma get_fold_int:
  "contributes r n v \<Longrightarrow> f_is_int a x \<Longrightarrow> \<bar>x\<bar> + (\<Sum>m\<leftarrow>ms. \<bar>v m\<bar>) \<le> 2 ^ 53 \<Longrightarrow>
   f_is_int (fold (get_step r n) ms a) (x + (\<Sum>m\<leftarrow>ms. v m))"
proof (induction ms arbitrary: a x)
  case (Cons m ms)
  have p: "0 \<le> (\<Sum>m\<leftarrow>ms. \<bar>v m\<bar>)"
    by (intro sum_list_nonneg) auto
  have b: "\<bar>x\<bar> + \<bar>v m\<bar> \<le> 2 ^ 53"
    using Cons.prems(3) p by simp
  have "\<bar>x + v m\<bar> + (\<Sum>m\<leftarrow>ms. \<bar>v m\<bar>) \<le> 2 ^ 53"
    using Cons.prems(3) abs_triangle_ineq[of x "v m"] by simp
  from Cons.IH[OF Cons.prems(1) get_step_int[OF Cons.prems(1,2) b] this] show ?case
    by (simp add: add.assoc)
qed simp

lemma get_int:
  assumes "contributes (replicas s) n v" "range_order (replicas s) ms"
    "(\<Sum>m\<in>dom (replicas s). \<bar>v m\<bar>) \<le> 2 ^ 53"
  shows "f_is_int (fst (getCounter s ms n)) (\<Sum>m\<in>dom (replicas s). v m)"
proof -
  have s: "(\<Sum>m\<leftarrow>ms. g m) = (\<Sum>m\<in>dom (replicas s). g m)" for g :: "string \<Rightarrow> int"
    using assms(2) by (metis range_order_def sum_list_distinct_conv_sum_set)
  show ?thesis
    using get_fold_int[OF assms(1) f_is_int_0, of ms] assms(3) by (simp add: getCounter_get_step s)
qed

section \<open>List and get\<close>

text \<open>
  \<open>list\<close> adds up every counter in one pass over all replicas; restricted to one name, its
  accumulator is the running total of \<open>get\<close>.
\<close>

lemma list_inner:
  assumes "distinct ns"
  shows "fold (\<lambda>n l. case replica_counter r m n of None \<Rightarrow> l
           | Some c \<Rightarrow> list_add l n (Up c - Down c)) ns l n' =
     (if n' \<in> set ns then
        (case replica_counter r m n' of None \<Rightarrow> l n'
         | Some c \<Rightarrow> Some ((case l n' of None \<Rightarrow> 0 | Some x \<Rightarrow> x) + (Up c - Down c)))
      else l n')"
  using assms
  by (induction ns arbitrary: l) (auto simp: list_add_def split: option.splits)

lemma list_outer:
  assumes "\<And>m cs. r m = Some cs \<Longrightarrow> range_order cs (ns m)" "set ms \<subseteq> dom r"
  shows "(case fold (\<lambda>m l. fold (\<lambda>n l. case replica_counter r m n of None \<Rightarrow> l
           | Some c \<Rightarrow> list_add l n (Up c - Down c)) (ns m) l) ms l n' of None \<Rightarrow> 0 | Some x \<Rightarrow> x) =
     fold (get_step r n') ms (case l n' of None \<Rightarrow> 0 | Some x \<Rightarrow> x)"
  using assms(2)
proof (induction ms arbitrary: l)
  case (Cons m ms)
  then obtain cs where cs: "r m = Some cs"
    by auto
  have d: "distinct (ns m)" "n' \<in> set (ns m) \<longleftrightarrow> cs n' \<noteq> None"
    using assms(1)[OF cs] by (auto simp: range_order_def)
  have "(case fold (\<lambda>n l. case replica_counter r m n of None \<Rightarrow> l
           | Some c \<Rightarrow> list_add l n (Up c - Down c)) (ns m) l n' of None \<Rightarrow> 0 | Some x \<Rightarrow> x) =
      get_step r n' m (case l n' of None \<Rightarrow> 0 | Some x \<Rightarrow> x)"
    unfolding list_inner[OF d(1)] by (simp add: d(2) get_step_def replica_counter_def cs split: option.split)
  with Cons show ?case
    by simp
qed simp

lemma list_get:
  assumes "range_order (replicas s) ms" "\<And>m cs. replicas s m = Some cs \<Longrightarrow> range_order cs (ns m)"
  shows "listCounters s ms ns n =
    (if f_eq (fst (getCounter s ms n)) 0 then None else Some (fst (getCounter s ms n)))"
proof -
  let ?l = "fold (\<lambda>m l. fold (\<lambda>n l. case replica_counter (replicas s) m n of None \<Rightarrow> l
           | Some c \<Rightarrow> list_add l n (Up c - Down c)) (ns m) l) ms Map.empty"
  have "(case ?l n of None \<Rightarrow> 0 | Some x \<Rightarrow> x) = fst (getCounter s ms n)"
    using list_outer[OF assms(2), where l = Map.empty and ms = ms and n' = n] range_orderD(2)[OF assms(1)]
    by (simp add: getCounter_get_step)
  moreover have "f_eq 0 (0 :: f64)"
    by (simp add: f_eq_def zero_f64_def)
  ultimately show ?thesis
    by (auto simp: listCounters_def Let_def split: option.splits)
qed

text \<open>
  \<open>list\<close> reports for every counter exactly the double that \<open>get\<close>
  computes, and leaves out those of value 0 (and those that no replica has), when both range over
  the members in the same order.
\<close>

theorem list_agrees_with_get:
  assumes "range_order (replicas s) ms" "\<And>m cs. replicas s m = Some cs \<Longrightarrow> range_order cs (ns m)"
  shows "listCounters s ms ns n =
    (if f_eq (fst (getCounter s ms n)) 0 then None else Some (fst (getCounter s ms n)))"
  by (rule list_get[OF assms])

section \<open>Increments\<close>

definition own_value :: "server \<Rightarrow> string \<Rightarrow> counter" where
  "own_value s n =
     (case replica_counter (replicas s) (cfgName s) n of None \<Rightarrow> emptyCounter | Some c \<Rightarrow> c)"

definition bump :: "f64 \<Rightarrow> counter \<Rightarrow> counter" where
  "bump d c = (if f_less 0 d then c\<lparr>Up := Up c + d\<rparr> else c\<lparr>Down := Down c - d\<rparr>)"

definition put_own :: "server \<Rightarrow> string \<Rightarrow> counter \<Rightarrow> server" where
  "put_own s n c =
     broadcastChange (s\<lparr>replicas := put_counter (replicas s) (cfgName s) n c\<rparr>) n c"

lemma put_own_sel [simp]:
  "cfgName (put_own s n c) = cfgName s" "members (put_own s n c) = members s"
  "consistent (put_own s n c) = consistent s"
  "replicas (put_own s n c) = put_counter (replicas s) (cfgName s) n c"
  by (simp_all add: put_own_def)

lemma put_own_queued:
  assumes "server_ok s" "x \<in> set (changes (put_own s n c))" "ch_name (bc x) = n"
  shows "Message (bc x) = change_bytes (cfgName s) n c"
  using assms change.queueBroadcast_newest[of "changes s" x "\<lparr>ch_name = n, ch_data = change_bytes (cfgName s) n c\<rparr>"]
  by (auto simp: put_own_def broadcastChange_def server_ok_def queue_ok_def Message_def)

lemma put_own_queues:
  assumes "server_ok s"
  obtains x where "x \<in> set (changes (put_own s n c))" "ch_name (bc x) = n" "transmits x = 0"
proof -
  have "unique_keys ch_name (changes s)"
    using assms by (simp add: server_ok_def queue_ok_def)
  from change.queueBroadcast_eq[OF this] show ?thesis
    by (intro that[of "\<lparr>transmits = 0, bc = \<lparr>ch_name = n, ch_data = change_bytes (cfgName s) n c\<rparr>\<rparr>"])
      (auto simp: put_own_def broadcastChange_def)
qed

lemma own_mapE:
  assumes "server_ok s"
  obtains own where "replicas s (cfgName s) = Some own"
  using assms by (auto simp: server_ok_def)

lemma incCounter_eq:
  assumes "server_ok s"
  shows "incCounter s n d = Returns (put_own s n (bump d (own_value s n)),
     Up (bump d (own_value s n)) - Down (bump d (own_value s n)))"
  using assms
  by (rule own_mapE)
    (simp add: server_ok_own_nil[OF assms] incCounter_def Let_def bump_def put_own_def own_value_def replica_counter_own
      put_counter_own_map)

lemma setLocal_eq:
  assumes "server_ok s"
  shows "setLocal s n v =
    (let up = (if f_less 0 v then v else 0); down = (if f_less 0 v then 0 else - v)
     in case replica_counter (replicas s) (cfgName s) n of
          None \<Rightarrow> Returns (put_own s n \<lparr>Up = up, Down = down, Revision = 0\<rparr>, 0)
        | Some c \<Rightarrow> Returns (put_own s n \<lparr>Up = up, Down = down, Revision = Revision c + 1\<rparr>, Up c - Down c))"
  using assms
  by (rule own_mapE)
    (simp add: server_ok_own_nil[OF assms] setLocal_def Let_def put_own_def replica_counter_own put_counter_own_map
      split: option.splits)

lemma bump_int:
  assumes "f_is_int x d" "f_is_int (Up c) u" "f_is_int (Down c) w" "\<bar>u\<bar> + \<bar>w\<bar> + \<bar>d\<bar> \<le> 2 ^ 53"
  obtains u' w' where "f_is_int (Up (bump x c)) u'" "f_is_int (Down (bump x c)) w'"
    "u' - w' = u - w + d" "\<bar>u' - w'\<bar> \<le> 2 ^ 53"
proof (cases "f_less 0 x")
  case True
  then show ?thesis
    using that[of "u + d" w] f_is_int_add[OF assms(2,1)] assms(3,4) by (simp add: bump_def)
next
  case False
  then show ?thesis
    using that[of u "w - d"] f_is_int_minus[OF assms(3,1)] assms(2,4) by (simp add: bump_def)
qed

lemma sum_fun_upd:
  "finite A \<Longrightarrow> a \<in> A \<Longrightarrow> (\<Sum>x\<in>A. g ((f(a := z)) x)) = (\<Sum>x\<in>A. g (f x)) - g (f a) + g (z::int)"
  for g :: "int \<Rightarrow> int"
  by (simp add: sum.remove[of A a] cong: sum.cong_simp)

lemma getCounter_other:
  "n \<noteq> n' \<Longrightarrow> getCounter (put_own s n' c) ms n = getCounter s ms n"
  by (simp add: getCounter_def cong: option.case_cong)

lemma own_value_int:
  assumes "contributes (replicas s) n v" "f_is_int (Up (own_value s n)) u" "f_is_int (Down (own_value s n)) w"
  shows "v (cfgName s) = u - w"
proof (cases "replica_counter (replicas s) (cfgName s) n")
  case None
  then show ?thesis
    using assms(2,3) contributes_None[OF assms(1) None]
      f_is_int_unique[OF _ f_is_int_0, of u] f_is_int_unique[OF _ f_is_int_0, of w]
    by (simp add: own_value_def emptyCounter_def)
next
  case (Some c)
  then obtain u' w' where "f_is_int (Up c) u'" "f_is_int (Down c) w'" "v (cfgName s) = u' - w'"
    using contributes_Some[OF assms(1)] by blast
  then show ?thesis
    using assms(2,3) Some f_is_int_unique[of "Up c" u u'] f_is_int_unique[of "Down c" w w']
    by (simp add: own_value_def)
qed

text \<open>
  C3: an increment by a whole number \<open>d\<close> (of either sign) raises the total that
  \<open>get\<close> reports by exactly \<open>d\<close>, returns the server's own share after it, and leaves every
  other counter's total alone, as long as the totals stay within the \<open>2 ^ 53\<close> that doubles
  count exactly.  The order in which the runtime ranges over the replicas plays no part.
\<close>

theorem inc_then_get:
  assumes "server_ok s" "incCounter s n x = Returns (s', y)" "f_is_int x d"
    and "contributes (replicas s) n v"
    and "f_is_int (Up (own_value s n)) u" "f_is_int (Down (own_value s n)) w"
    and "\<bar>u\<bar> + \<bar>w\<bar> + \<bar>d\<bar> \<le> 2 ^ 53" "(\<Sum>m\<in>dom (replicas s). \<bar>v m\<bar>) + \<bar>d\<bar> \<le> 2 ^ 53"
    and "range_order (replicas s) ms" "range_order (replicas s) ms'"
  shows "f_is_int y (v (cfgName s) + d) \<and>
    f_is_int (fst (getCounter s ms n)) (\<Sum>m\<in>dom (replicas s). v m) \<and>
    f_is_int (fst (getCounter s' ms' n)) ((\<Sum>m\<in>dom (replicas s). v m) + d) \<and>
    (n' \<noteq> n \<longrightarrow> getCounter s' ms n' = getCounter s ms n')"
proof -
  let ?c = "bump x (own_value s n)" and ?D = "dom (replicas s)"
  have s': "s' = put_own s n ?c" "y = Up ?c - Down ?c"
    using assms(2) incCounter_eq[OF assms(1)] by simp_all
  obtain u' w' where c: "f_is_int (Up ?c) u'" "f_is_int (Down ?c) w'" "u' - w' = u - w + d"
      "\<bar>u' - w'\<bar> \<le> 2 ^ 53"
    using bump_int[OF assms(3,5,6,7)] .
  have own: "v (cfgName s) = u - w"
    by (rule own_value_int[OF assms(4-6)])
  have me: "cfgName s \<in> ?D"
    using assms(1) by (simp add: server_ok_def)
  have fin: "finite ?D" "dom (replicas s') = ?D"
    using me s'(1) range_orderD(2)[OF assms(9)] finite_set[of ms] by auto
  let ?v' = "v(cfgName s := u' - w')"
  have "f_is_int y (v (cfgName s) + d)"
    using f_is_int_minus[OF c(1,2,4)] by (simp add: s'(2) own c(3))
  moreover have "f_is_int (fst (getCounter s ms n)) (\<Sum>m\<in>?D. v m)"
    using get_int[OF assms(4,9)] assms(8) by simp
  moreover have "f_is_int (fst (getCounter s' ms' n)) ((\<Sum>m\<in>?D. v m) + d)"
  proof -
    have "contributes (replicas s') n ?v'"
      using contributes_put[OF assms(4) c(1,2)] by (simp add: s'(1))
    moreover have "(\<Sum>m\<in>?D. \<bar>?v' m\<bar>) \<le> 2 ^ 53"
      using assms(8) sum_fun_upd[OF fin(1) me, of abs v] own c(3) by simp
    moreover have "(\<Sum>m\<in>?D. ?v' m) = (\<Sum>m\<in>?D. v m) + d"
      using sum_fun_upd[OF fin(1) me, of id v] own c(3) by simp
    ultimately show ?thesis
      using get_int[of s' n ?v' ms'] assms(10) fin(2) by (simp add: range_order_def)
  qed
  ultimately show ?thesis
    by (simp add: s'(1) getCounter_other)
qed

section \<open>Gossip\<close>

text \<open>
  \<open>deliver m n cs s\<close>: the server receives the changes \<open>cs\<close> of member \<open>m\<close>'s counter \<open>n\<close>, one
  gossip message each; \<open>seen\<close> is every value its replica has then met.
\<close>

definition deliver :: "string \<Rightarrow> string \<Rightarrow> counter list \<Rightarrow> server \<Rightarrow> server" where
  "deliver m n cs s = fold (\<lambda>c s. notifyMsg s (change_bytes m n c)) cs s"

definition seen :: "server \<Rightarrow> string \<Rightarrow> string \<Rightarrow> counter list \<Rightarrow> counter list" where
  "seen s m n cs = (case replica_counter (replicas s) m n of None \<Rightarrow> cs | Some a \<Rightarrow> a # cs)"

abbreviation revision_of :: "counter \<Rightarrow> nat" where
  "revision_of c \<equiv> unat (Revision c)"

lemma deliver_replica:
  assumes "NL \<notin> set m" "NL \<notin> set n" "m \<in> dom (members s)" "\<forall>c\<in>set cs. counter_ok c"
  shows "replica_counter (replicas (deliver m n cs s)) m n =
    fold (\<lambda>c old. Some (merge_counter old c)) cs (replica_counter (replicas s) m n)"
  using assms(3,4)
  by (induction cs arbitrary: s) (simp_all add: deliver_def notifyMsg_change[OF assms(1,2)])

lemma deliver_seen:
  assumes "NL \<notin> set m" "NL \<notin> set n" "m \<in> dom (members s)" "\<forall>c\<in>set (seen s m n cs). counter_ok c"
  shows "replica_counter (replicas (deliver m n cs s)) m n =
    fold (\<lambda>c old. Some (merge_counter old c)) (seen s m n cs) None"
proof -
  have "\<forall>c\<in>set cs. counter_ok c"
    using assms(4) by (auto simp: seen_def split: option.splits)
  from deliver_replica[OF assms(1-3) this] show ?thesis
    by (simp add: seen_def crdt.merge_first split: option.splits)
qed

text \<open>
  C4: two servers whose replicas of a counter have met the same values, in
  whatever order and however often each, hold the same value, provided that no value reaches either
  of them after one of a later revision and none is a NaN.  (Without that they need not agree:
  \<open>stale_change_resurrects\<close>.)
\<close>

theorem gossip_converges:
  assumes "NL \<notin> set m" "NL \<notin> set n" "m \<in> dom (members p)" "m \<in> dom (members q)"
    and "set (seen p m n cs) = set (seen q m n ds)"
    and "\<forall>c\<in>set (seen p m n cs). counter_ok c \<and> no_nan c"
    and "sorted (map revision_of (seen p m n cs))" "sorted (map revision_of (seen q m n ds))"
  shows "map_option counter_abs (replica_counter (replicas (deliver m n cs p)) m n) =
    map_option counter_abs (replica_counter (replicas (deliver m n ds q)) m n)"
proof -
  have d: "replica_counter (replicas (deliver m n cs p)) m n =
      fold (\<lambda>c old. Some (merge_counter old c)) (seen p m n cs) None"
    "replica_counter (replicas (deliver m n ds q)) m n =
      fold (\<lambda>c old. Some (merge_counter old c)) (seen q m n ds) None"
    using assms(5,6) deliver_seen[OF assms(1,2,3)] deliver_seen[OF assms(1,2,4)] by simp_all
  show ?thesis
  proof (cases "seen p m n cs")
    case Nil
    then show ?thesis
      using assms(5) d by simp
  next
    case (Cons a as)
    then obtain b bs where "seen q m n ds = b # bs"
      using assms(5) by (cases "seen q m n ds") auto
    with Cons show ?thesis
      using crdt.deliver_converges[of a as b bs] assms(5-8) d by auto
  qed
qed

text \<open>
  C6: after an increment the counter's newest value waits in the gossip queue,
  and a server that knows the sender and receives it holds the sender's own value, if what it
  held before was an earlier value of that counter.
\<close>

theorem inc_reaches_peer:
  assumes "server_ok s" "counter_name n" "f64_ok d" "incCounter s n d = Returns (s', y)"
    and "replica_counter (replicas s') (cfgName s) n = Some c" "no_nan c"
    and "cfgName s \<in> dom (members p)"
    and "\<And>oc. replica_counter (replicas p) (cfgName s) n = Some oc \<Longrightarrow>
      no_nan oc \<and> gle (counter_abs oc) (counter_abs c)"
  shows "\<exists>x\<in>set (changes s'). ch_name (bc x) = n \<and> transmits x = 0 \<and>
    map_option counter_abs (replica_counter (replicas (notifyMsg p (Message (bc x)))) (cfgName s) n) =
      Some (counter_abs c)"
proof -
  have s': "s' = put_own s n c"
    using assms(4,5) incCounter_eq[OF assms(1), of n d] by auto
  have ok: "server_ok s'"
    using server_ok_inc[OF assms(1) _ assms(3,4)] assms(2) by (simp add: counter_name_def)
  then have "counter_ok c"
    using assms(5) counters_okD by (auto simp: server_ok_def)
  obtain x where x: "x \<in> set (changes s')" "ch_name (bc x) = n" "transmits x = 0"
    using put_own_queues[OF assms(1)] unfolding s' .
  have m: "Message (bc x) = change_bytes (cfgName s) n c"
    using put_own_queued[OF assms(1)] x unfolding s' by blast
  have "NL \<notin> set (cfgName s)" "NL \<notin> set n"
    using assms(1,2) by (simp_all add: server_ok_def counter_name_def)
  from notifyMsg_change[OF this \<open>counter_ok c\<close> assms(7)] x m assms(6,8) show ?thesis
    by (intro bexI[of _ x])
      (auto simp: merge_counter_def counter_abs_def no_nan_def f_less_def word_less_nat_alt
        split: option.splits)
qed

text \<open>
  C37: the order matters across revisions.  A value of an older revision
  (one a reset has made obsolete) that arrives after the newer one is merged into it, and brings
  its larger total back; in the other order the newer value simply replaces it.
\<close>

theorem stale_change_resurrects:
  assumes "NL \<notin> set m" "NL \<notin> set n" "m \<in> dom (members p)"
    and "replica_counter (replicas p) m n = None"
    and "counter_ok c0" "counter_ok c1" "Revision c0 < Revision c1" "f_less (Up c1) (Up c0)"
  shows "map_option Up (replica_counter (replicas (deliver m n [c0, c1] p)) m n) = Some (Up c1) \<and>
    map_option Up (replica_counter (replicas (deliver m n [c1, c0] p)) m n) = Some (Up c0)"
  using assms deliver_replica[OF assms(1-3)] by (simp add: merge_counter_def not_less_iff_gr_or_eq)

section \<open>Set\<close>

text \<open>The messages of \<open>set\<close>, and what a server makes of those addressed to it.\<close>

definition receive :: "(node \<times> bytes) list \<Rightarrow> server \<Rightarrow> server" where
  "receive msgs p = fold (\<lambda>(nd, data) p. if Name nd = cfgName p then notifyMsg p data else p) msgs p"

text \<open>\<open>relay n p s\<close>: the changes of counter \<open>n\<close> that \<open>p\<close> has queued reach \<open>s\<close>.\<close>

definition relay :: "string \<Rightarrow> server \<Rightarrow> server \<Rightarrow> server" where
  "relay n p s =
     fold (\<lambda>x s. notifyMsg s (Message (bc x))) (filter (\<lambda>x. ch_name (bc x) = n) (changes p)) s"

lemma notifyMsg_cfgName [simp]: "cfgName (notifyMsg s msg) = cfgName s"
proof (cases msg)
  case (Cons t bs)
  have "cfgName (case readChange s bs of Inl e \<Rightarrow> s | Inr s' \<Rightarrow> s') = cfgName s"
    by (cases "readChange s bs") (auto elim: readChange_Inr)
  moreover have "cfgName (case readReset s bs of Inl e \<Rightarrow> s | Inr s' \<Rightarrow> s') = cfgName s"
    by (cases "readReset s bs") (auto elim: readReset_Inr)
  ultimately show ?thesis
    by (simp add: notifyMsg_def Cons)
qed (simp add: notifyMsg_def)

lemma send_resets_eq:
  "fst (send_resets s n send nodes) =
   [(nd, reset_bytes n (the (replica_counter (replicas s) (Name nd) n))).
      nd \<leftarrow> nodes, Name nd \<noteq> cfgName s \<and> replica_counter (replicas s) (Name nd) n \<noteq> None]"
  by (induction nodes) (auto simp: Let_def split: prod.splits option.splits)

lemma send_resets_ok: "snd (send_resets s n (\<lambda>_ _. None) nodes) = []"
  by (induction nodes) (auto simp: Let_def split: prod.splits option.splits)

lemma receive_other: "\<forall>x\<in>set msgs. Name (fst x) \<noteq> cfgName p \<Longrightarrow> receive msgs p = p"
  by (induction msgs) (auto simp: receive_def)

lemma receive_append: "receive (ms @ ns) p = receive ns (receive ms p)"
  by (simp add: receive_def)

lemma receive_cfgName [simp]: "cfgName (receive msgs p) = cfgName p"
  by (induction msgs arbitrary: p) (auto simp: receive_def split: prod.splits)

lemma receive_resets:
  assumes "distinct (map Name nodes)" "cfgName p \<in> Name ` set nodes" "cfgName p \<noteq> cfgName s"
    and "replica_counter (replicas s) (cfgName p) n = Some c"
  shows "receive (fst (send_resets s n send nodes)) p = notifyMsg p (reset_bytes n c)"
proof -
  obtain nd where nd: "nd \<in> set nodes" "Name nd = cfgName p"
    using assms(2) by auto
  then obtain as bs where nodes: "nodes = as @ nd # bs"
    by (meson split_list)
  have o: "Name x \<noteq> cfgName p" if "x \<in> set as \<union> set bs" for x
    using that assms(1) by (auto simp: nodes nd(2)[symmetric] image_iff)
  have r: "receive (fst (send_resets s n send as)) q = q" "receive (fst (send_resets s n send bs)) q = q"
    if "cfgName q = cfgName p" for q
    using that o by (auto simp: send_resets_eq intro!: receive_other)
  have "fst (send_resets s n send nodes) =
    fst (send_resets s n send as) @ (nd, reset_bytes n c) # fst (send_resets s n send bs)"
    using assms(3,4) nd(2) by (simp add: send_resets_eq nodes)
  then show ?thesis
    by (simp add: receive_append r) (simp add: receive_def r[unfolded receive_def] nd(2))
qed

lemma relay_put_own:
  assumes "server_ok p"
  shows "relay n (put_own p n c) s = notifyMsg s (change_bytes (cfgName p) n c)"
proof -
  have u: "unique_keys ch_name (changes p)"
    using assms by (simp add: server_ok_def queue_ok_def)
  have "filter (\<lambda>x. ch_name (bc x) = n) (changes (put_own p n c)) =
      [\<lparr>transmits = 0, bc = \<lparr>ch_name = n, ch_data = change_bytes (cfgName p) n c\<rparr>\<rparr>]"
    using change.queueBroadcast_eq[OF u, of "\<lparr>ch_name = n, ch_data = change_bytes (cfgName p) n c\<rparr>"]
    by (simp add: put_own_def broadcastChange_def)
  then show ?thesis
    by (simp add: relay_def Message_def)
qed

text \<open>
  \<open>peer_of s n w p\<close>: \<open>p\<close> is a member that \<open>s\<close> has a replica of, of the same revision as \<open>p\<close>'s
  own counter; since then \<open>p\<close> has counted \<open>w (cfgName p)\<close> that \<open>s\<close> has not heard of.
\<close>

definition peer_of :: "server \<Rightarrow> string \<Rightarrow> (string \<Rightarrow> int) \<Rightarrow> server \<Rightarrow> bool" where
  "peer_of s n w p \<longleftrightarrow>
     server_ok p \<and> cfgName p \<noteq> cfgName s \<and> cfgName p \<in> dom (members s) \<and>
     (\<exists>c oc u d u' d'.
        replica_counter (replicas s) (cfgName p) n = Some c \<and>
        replica_counter (replicas p) (cfgName p) n = Some oc \<and>
        Revision c = Revision oc \<and> Revision oc \<noteq> - 1 \<and>
        f_is_int (Up c) u \<and> f_is_int (Down c) d \<and> f_is_int (Up oc) u' \<and> f_is_int (Down oc) d' \<and>
        \<bar>u' - u\<bar> \<le> 2 ^ 53 \<and> \<bar>d' - d\<bar> \<le> 2 ^ 53 \<and> w (cfgName p) = (u' - u) - (d' - d))"

lemma reset_put_own:
  assumes "NL \<notin> set n" "counter_ok c" "replica_counter (replicas p) (cfgName p) n = Some oc"
    "Revision c = Revision oc"
  shows "notifyMsg p (reset_bytes n c) =
    put_own p n \<lparr>Up = Up oc - Up c, Down = Down oc - Down c, Revision = Revision oc + 1\<rparr>"
  using notifyMsg_reset[OF assms(1,2), of p] assms(3,4) by (simp add: put_own_def Let_def)

lemma relay_step:
  assumes "server_ok s" "NL \<notin> set n" "peer_of s n w p"
    and "distinct (map Name nodes)" "cfgName p \<in> Name ` set nodes"
    and "members t = members s" "contributes (replicas t) n v"
    and "replica_counter (replicas t) (cfgName p) n = replica_counter (replicas s) (cfgName p) n"
  obtains c' where
    "relay n (receive (fst (send_resets s n send nodes)) p) t =
       t\<lparr>replicas := put_counter (replicas t) (cfgName p) n c'\<rparr>"
    "contributes (put_counter (replicas t) (cfgName p) n c') n (v(cfgName p := w (cfgName p)))"
proof -
  obtain c oc u d u' d' where p: "server_ok p" "cfgName p \<noteq> cfgName s" "cfgName p \<in> dom (members s)"
    and c: "replica_counter (replicas s) (cfgName p) n = Some c" "f_is_int (Up c) u" "f_is_int (Down c) d"
    and oc: "replica_counter (replicas p) (cfgName p) n = Some oc" "f_is_int (Up oc) u'" "f_is_int (Down oc) d'"
    and rev: "Revision c = Revision oc" "Revision oc \<noteq> - 1"
    and w: "\<bar>u' - u\<bar> \<le> 2 ^ 53" "\<bar>d' - d\<bar> \<le> 2 ^ 53" "w (cfgName p) = (u' - u) - (d' - d)"
    using assms(3) unfolding peer_of_def by blast
  let ?oc = "\<lparr>Up = Up oc - Up c, Down = Down oc - Down c, Revision = Revision oc + 1\<rparr>"
  have "counter_ok c" "counter_ok oc"
    using assms(1) p(1) c(1) oc(1) counters_okD unfolding server_ok_def by blast+
  then have ok: "counter_ok ?oc" "counter_ok c"
    by (simp_all add: counter_ok_def)
  have nl: "NL \<notin> set (cfgName p)"
    using p(1) by (simp add: server_ok_def)
  have lt: "Revision oc < Revision oc + 1"
    using u32_succ[OF rev(2)] by (simp add: word_less_nat_alt)
  have "receive (fst (send_resets s n send nodes)) p = put_own p n ?oc"
    using receive_resets[OF assms(4,5) p(2) c(1)] reset_put_own[OF assms(2) ok(2) oc(1) rev(1)] by simp
  then have "relay n (receive (fst (send_resets s n send nodes)) p) t =
      t\<lparr>replicas := put_counter (replicas t) (cfgName p) n ?oc\<rparr>"
    using notifyMsg_change[OF nl assms(2) ok(1), of t] p(3) assms(6,8) c(1) rev(1) lt
    by (simp add: relay_put_own[OF p(1)] merge_counter_def)
  moreover have "contributes (put_counter (replicas t) (cfgName p) n ?oc) n (v(cfgName p := w (cfgName p)))"
    unfolding w(3)
    by (rule contributes_put[OF assms(7)])
      (use f_is_int_minus[OF oc(2) c(2)] f_is_int_minus[OF oc(3) c(3)] w in simp_all)
  ultimately show ?thesis
    by (rule that)
qed

lemma relay_all:
  assumes "server_ok s" "NL \<notin> set n" "distinct (map Name nodes)"
  shows "\<forall>p\<in>set ps. peer_of s n w p \<and> cfgName p \<in> Name ` set nodes \<and> cfgName p \<in> dom (replicas t) \<and>
      replica_counter (replicas t) (cfgName p) n = replica_counter (replicas s) (cfgName p) n \<Longrightarrow>
    distinct (map cfgName ps) \<Longrightarrow> members t = members s \<Longrightarrow> contributes (replicas t) n v \<Longrightarrow>
    contributes (replicas (fold (\<lambda>p t. relay n (receive (fst (send_resets s n send nodes)) p) t) ps t)) n
      (\<lambda>m. if m \<in> cfgName ` set ps then w m else v m) \<and>
    dom (replicas (fold (\<lambda>p t. relay n (receive (fst (send_resets s n send nodes)) p) t) ps t)) =
      dom (replicas t)"
proof (induction ps arbitrary: t v)
  case (Cons p ps)
  have p: "peer_of s n w p" "cfgName p \<in> Name ` set nodes" "cfgName p \<in> dom (replicas t)"
    "replica_counter (replicas t) (cfgName p) n = replica_counter (replicas s) (cfgName p) n"
    using Cons.prems(1) by simp_all
  obtain c' where c': "relay n (receive (fst (send_resets s n send nodes)) p) t =
       t\<lparr>replicas := put_counter (replicas t) (cfgName p) n c'\<rparr>"
    "contributes (put_counter (replicas t) (cfgName p) n c') n (v(cfgName p := w (cfgName p)))"
    using relay_step[OF assms(1,2) p(1) assms(3) p(2) Cons.prems(3,4) p(4)] by blast
  let ?t = "t\<lparr>replicas := put_counter (replicas t) (cfgName p) n c'\<rparr>"
  have "cfgName q \<noteq> cfgName p" if "q \<in> set ps" for q
    using imageI[OF that, of cfgName] Cons.prems(2) by auto
  then have "\<forall>q\<in>set ps. peer_of s n w q \<and> cfgName q \<in> Name ` set nodes \<and> cfgName q \<in> dom (replicas ?t) \<and>
      replica_counter (replicas ?t) (cfgName q) n = replica_counter (replicas s) (cfgName q) n"
    using Cons.prems(1) by auto
  note IH = Cons.IH[OF this]
  define v' where "v' = v(cfgName p := w (cfgName p))"
  have "contributes (replicas ?t) n v'"
    using c'(2) by (simp add: v'_def)
  from IH[OF _ _ this] Cons.prems(2,3) p(3)
  have ih: "contributes (replicas (fold (\<lambda>p t. relay n (receive (fst (send_resets s n send nodes)) p) t) ps ?t)) n
      (\<lambda>m. if m \<in> cfgName ` set ps then w m else v' m)"
    "dom (replicas (fold (\<lambda>p t. relay n (receive (fst (send_resets s n send nodes)) p) t) ps ?t)) = dom (replicas t)"
    by (simp_all add: insert_absorb)
  have "(\<lambda>m. if m \<in> cfgName ` set (p # ps) then w m else v m) =
      (\<lambda>m. if m \<in> cfgName ` set ps then w m else v' m)"
    by (auto simp: v'_def)
  with ih c'(1) show ?case
    by simp
qed simp

text \<open>
  C2: \<open>set\<close> with every transfer going well.  Once each peer has received its reset
  and its answering change has come back, \<open>get\<close> reports the value set plus exactly what the
  peers had counted that this server did not know of: what was known is gone, and no concurrent
  increment is lost.  The call itself reports the old own share and no error.
\<close>

theorem set_then_get:
  assumes "server_ok s" "counter_name n" "f_is_int x k" "\<bar>k\<bar> + (\<Sum>p\<leftarrow>ps. \<bar>w (cfgName p)\<bar>) \<le> 2 ^ 53"
    and "distinct (map Name nodes)" "distinct (map cfgName ps)"
    and "setCounter s n x (\<lambda>_ _. None) nodes = Returns (s1, old, errs)"
    and "contributes (replicas s) n v"
    and "\<And>p. p \<in> set ps \<Longrightarrow> peer_of s n w p \<and> cfgName p \<in> Name ` set nodes"
    and "\<And>m. replica_counter (replicas s) m n \<noteq> None \<Longrightarrow> m = cfgName s \<or> m \<in> cfgName ` set ps"
    and "s2 = fold (\<lambda>p t. relay n (receive (fst (send_resets s n (\<lambda>_ _. None) nodes)) p) t) ps s1"
    and "range_order (replicas s) ms"
  shows "errs = [None] \<and> f_is_int (fst (getCounter s2 ms n)) (k + (\<Sum>p\<leftarrow>ps. w (cfgName p)))"
proof -
  have NLn: "NL \<notin> set n"
    using assms(2) by (simp add: counter_name_def)
  have set: "setLocal s n x = Returns (s1, old)" "errs = [None]"
    using assms(7) by (auto simp: setCounter_def send_resets_ok split: outcome.splits)
  obtain r where s1: "s1 = put_own s n \<lparr>Up = (if f_less 0 x then x else 0),
      Down = (if f_less 0 x then 0 else - x), Revision = r\<rparr>"
    using set(1) by (auto simp: setLocal_eq[OF assms(1)] Let_def split: option.splits)
  have "f_is_int (if f_less 0 x then x else 0) (if f_less 0 x then k else 0)"
    "f_is_int (if f_less 0 x then 0 else - x) (if f_less 0 x then 0 else - k)"
    "(if f_less 0 x then k else 0) - (if f_less 0 x then 0 else - k) = k"
    using assms(3) f_is_int_uminus[OF assms(3)] by simp_all
  then obtain a b where ab: "f_is_int (if f_less 0 x then x else 0) a"
      "f_is_int (if f_less 0 x then 0 else - x) b" "a - b = k"
    by blast
  have c1: "contributes (replicas s1) n (v(cfgName s := k))"
    using contributes_put[OF assms(8), where u = a and d = b] ab by (simp add: s1)
  have mem: "members s1 = members s"
    by (simp add: s1)
  have ps: "\<forall>p\<in>set ps. peer_of s n w p \<and> cfgName p \<in> Name ` set nodes \<and> cfgName p \<in> dom (replicas s1) \<and>
      replica_counter (replicas s1) (cfgName p) n = replica_counter (replicas s) (cfgName p) n"
    using assms(9) by (auto simp: s1 peer_of_def dest: replica_counter_dom)
  let ?v = "\<lambda>m. if m \<in> cfgName ` set ps then w m else (v(cfgName s := k)) m"
  have s2: "contributes (replicas s2) n ?v" "dom (replicas s2) = dom (replicas s1)"
    using relay_all[OF assms(1) NLn assms(5) ps assms(6) mem c1] assms(11) by simp_all
  have ms: "range_order (replicas s2) ms"
    using assms(1,12) s2(2) by (auto simp: range_order_def s1 server_ok_def insert_absorb)
  have "cfgName p \<noteq> cfgName s" if "p \<in> set ps" for p
    using assms(9)[OF that] by (simp add: peer_of_def)
  then have "cfgName s \<notin> cfgName ` set ps"
    by (metis imageE)
  then have me: "cfgName s \<notin> cfgName ` set ps" "cfgName s \<in> dom (replicas s2)"
    using s2(2) by (auto simp: s1)
  have v0: "v m = 0" if "m \<noteq> cfgName s" "m \<notin> cfgName ` set ps" for m
    using contributes_None[OF assms(8)] assms(10) that by blast
  have sub: "insert (cfgName s) (cfgName ` set ps) \<subseteq> dom (replicas s2)" "finite (dom (replicas s2))"
    using ps me(2) s2(2) range_orderD(2)[OF ms] finite_set[of ms] by auto
  have sum: "(\<Sum>m\<in>dom (replicas s2). g (?v m)) = g k + (\<Sum>p\<leftarrow>ps. g (w (cfgName p)))"
    if "g 0 = 0" for g :: "int \<Rightarrow> int"
  proof -
    have "(\<Sum>m\<in>dom (replicas s2). g (?v m)) = (\<Sum>m\<in>insert (cfgName s) (cfgName ` set ps). g (?v m))"
      using sub v0 that by (intro sum.mono_neutral_right) auto
    also have "\<dots> = g k + (\<Sum>m\<in>cfgName ` set ps. g (w m))"
      using me(1) by simp
    also have "(\<Sum>m\<in>cfgName ` set ps. g (w m)) = (\<Sum>p\<leftarrow>ps. g (w (cfgName p)))"
      using assms(6) by (simp add: sum.reindex distinct_map sum_list_distinct_conv_sum_set)
    finally show ?thesis .
  qed
  have "(\<Sum>m\<in>dom (replicas s2). \<bar>?v m\<bar>) \<le> 2 ^ 53"
    using sum[of abs] assms(4) by simp
  from get_int[OF s2(1) ms this] show ?thesis
    using sum[of "\<lambda>z. z"] set(2) by simp
qed

section \<open>Full state exchange\<close>

lemma server_eqI:
  "cfgName s = cfgName t \<Longrightarrow> srv_meta s = srv_meta t \<Longrightarrow> consistent s = consistent t \<Longrightarrow>
   replicas s = replicas t \<Longrightarrow> changes s = changes t \<Longrightarrow> members s = members t \<Longrightarrow>
   reconnects s = reconnects t \<Longrightarrow> srv_nils s = srv_nils t \<Longrightarrow> s = (t :: server)"
  by simp

lemma mergeRemoteState_rest [simp]:
  "srv_meta (mergeRemoteState s now ks ms ns buf) = srv_meta s"
  "reconnects (mergeRemoteState s now ks ms ns buf) = reconnects s"
  by (simp_all add: mergeRemoteState_def Let_def split: sum.splits prod.splits)

text \<open>
  C8: the result of \<open>MergeRemoteState\<close> does not depend on the three orders in
  which the runtime ranges over the decoded maps.
\<close>

theorem merge_any_order:
  assumes "merge_orders buf ks ms ns" "merge_orders buf ks' ms' ns'"
  shows "mergeRemoteState s now ks ms ns buf = mergeRemoteState s now ks' ms' ns' buf"
proof (cases "\<exists>rm rr r. buf = GobStates rm # GobCounters rr # r")
  case True
  then obtain rm rr r where merged: "buf = GobStates rm # GobCounters rr # r"
    by blast
  note spec = mergeRemoteState_spec[OF assms(1)[unfolded merged], of s now]
    mergeRemoteState_spec[OF assms(2)[unfolded merged], of s now]
  have mem: "members (mergeRemoteState s now ks ms ns buf) = members (mergeRemoteState s now ks' ms' ns' buf)"
    by (rule ext) (simp add: merged spec(1,4))
  show ?thesis
    by (rule server_eqI; (rule mem | rule replica_map_eqI)?)
      (use mem in \<open>simp_all add: merged spec(2,3,5,6)\<close>)
qed (simp add: mergeRemoteState_malformed)

lemma counter_abs_gob [simp]: "counter_abs (gob_counter c) = counter_abs c"
  by (auto simp: counter_abs_def gob_counter_def gob_float_def f_eq_def zero_f64_def)

lemma no_nan_gob [simp]: "no_nan (gob_counter c) = no_nan c"
  by (auto simp: no_nan_def gob_counter_def gob_float_def f_eq_def zero_f64_def)

lemma revision_gob [simp]: "Revision (gob_counter c) = Revision c"
  by (simp add: gob_counter_def)

lemma replica_counter_gob:
  "replica_counter (gob_replicas r) m n = map_option gob_counter (replica_counter r m n)"
  by (simp add: replica_counter_def gob_replicas_def split: option.split)

lemma merged_value_abs:
  assumes "\<And>a b. old = Some a \<Longrightarrow> new = Some b \<Longrightarrow> no_nan a \<and> no_nan b \<and> Revision a = Revision b"
  shows "map_option counter_abs (merged_value old (map_option gob_counter new)) =
    (case (old, new) of
       (None, None) \<Rightarrow> None
     | (Some a, None) \<Rightarrow> Some (counter_abs a)
     | (None, Some b) \<Rightarrow> Some (counter_abs b)
     | (Some a, Some b) \<Rightarrow> Some (gjoin (counter_abs b) (counter_abs a)))"
  using assms crdt.merge_abs
  by (auto simp: merged_value_def crdt.merge_first split: option.splits)

text \<open>
  C9: after a push/pull (each of two servers merges the other's local state) both hold
  the same value of a counter of a member that both know, if the two replicas they started from were
  of the same revision and without a NaN, or one of them had none.
\<close>

theorem push_pull_agrees:
  assumes "merge_orders (localState q) ks ms ns" "merge_orders (localState p) ks' ms' ns'"
    and "p' = mergeRemoteState p now ks ms ns (localState q)"
    and "q' = mergeRemoteState q now' ks' ms' ns' (localState p)"
    and "m \<in> dom (members p')" "m \<in> dom (members q')"
    and "\<And>a b. replica_counter (replicas p) m n = Some a \<Longrightarrow> replica_counter (replicas q) m n = Some b \<Longrightarrow>
      no_nan a \<and> no_nan b \<and> Revision a = Revision b"
  shows "map_option counter_abs (replica_counter (replicas p') m n) =
    map_option counter_abs (replica_counter (replicas q') m n)"
proof -
  have acc: "replica_counter (accepted mem r) m n = replica_counter r m n" if "m \<in> dom mem" for mem r
    using that by (auto simp: accepted_apply)
  have "replica_counter (replicas p') m n =
      merged_value (replica_counter (replicas p) m n) (map_option gob_counter (replica_counter (replicas q) m n))"
    using mergeRemoteState_spec(2)[OF assms(1)[unfolded localState_def], of p now m n] acc[OF assms(5)]
    by (simp add: assms(3) localState_def replica_counter_gob)
  moreover have "replica_counter (replicas q') m n =
      merged_value (replica_counter (replicas q) m n) (map_option gob_counter (replica_counter (replicas p) m n))"
    using mergeRemoteState_spec(2)[OF assms(2)[unfolded localState_def], of q now' m n] acc[OF assms(6)]
    by (simp add: assms(4) localState_def replica_counter_gob)
  ultimately show ?thesis
    using assms(7) by (simp add: merged_value_abs gvalue.join_commute split: option.split)
qed

section \<open>Consistency\<close>

text \<open>
  After \<open>updateConsistent\<close> the server calls itself consistent exactly if every
  member it counts as active is in the membership list, in whatever order it looks.
\<close>

theorem consistent_iff:
  assumes "range_order (members s) ks"
  shows "consistent (updateConsistent s ks nodes) \<longleftrightarrow>
    (\<forall>m st. members s m = Some st \<and> Active st = 1 \<longrightarrow> (\<exists>nd\<in>set nodes. Name nd = m))"
  using range_orderD(2)[OF assms]
  by (fastforce simp: updateConsistent_def list_all_iff image_iff dom_def split: option.splits)

section \<open>Two servers\<close>

text \<open>
  A cluster of two, at which the properties are tried: \<open>srv_a\<close> counted 5 itself and has heard of
  3 from \<open>srv_b\<close>, which has since counted one more.
\<close>

definition cnt :: "int \<Rightarrow> int \<Rightarrow> u32 \<Rightarrow> counter" where
  "cnt u d r = \<lparr>Up = f_of_int u, Down = f_of_int d, Revision = r\<rparr>"

definition active :: mstate where
  "active = \<lparr>Active = 1, When = 0\<rparr>"

definition plain_node :: "string \<Rightarrow> node" where
  "plain_node n = \<lparr>Name = n, Addr = [127, 0, 0, 1], Port = 9373, Meta = [0], PMin = 0, PMax = 0,
     PCur = 0, DMin = 0, DMax = 0, DCur = 0\<rparr>"

definition srv :: "string \<Rightarrow> replica_map \<Rightarrow> server" where
  "srv n r = \<lparr>cfgName = n, srv_meta = \<lparr>Leaving = 0\<rparr>, consistent = True, replicas = r, srv_nils = {},
     changes = [], members = [''a'' \<mapsto> active, ''b'' \<mapsto> active], reconnects = {}\<rparr>"

definition srv_a :: server where
  "srv_a = srv ''a'' [''a'' \<mapsto> [''x'' \<mapsto> cnt 5 0 0], ''b'' \<mapsto> [''x'' \<mapsto> cnt 3 0 0]]"

definition srv_b :: server where
  "srv_b = srv ''b'' [''b'' \<mapsto> [''x'' \<mapsto> cnt 4 0 0]]"

lemma cnt_sel [simp]:
  "Up (cnt u d r) = f_of_int u" "Down (cnt u d r) = f_of_int d" "Revision (cnt u d r) = r"
  by (simp_all add: cnt_def)

lemma f_is_int_of_int_iff [simp]: "f_is_int (f_of_int a) b \<longleftrightarrow> a = b"
  using f_is_int_unique by (auto intro: f_is_int_of_int)

lemma f_of_int_not_nan [simp]: "f_of_int n \<noteq> FNaN"
  by (simp add: f_of_int_def)

lemma no_nan_cnt [simp]: "no_nan (cnt u d r)"
  by (simp add: no_nan_def)

lemma counter_ok_cnt [simp]: "\<bar>u\<bar> \<le> 2 ^ 53 \<Longrightarrow> \<bar>d\<bar> \<le> 2 ^ 53 \<Longrightarrow> counter_ok (cnt u d r)"
  by (simp add: counter_ok_def f64_ok_of_int)

lemma f_less_of_int [simp]: "f_less (f_of_int a) (f_of_int b) \<longleftrightarrow> a < b"
  using f_is_int_less[OF f_is_int_of_int f_is_int_of_int] .

lemma counter_abs_cnt: "counter_abs (cnt u d r) = (unat r, u * int f_one, d * int f_one)"
  using f_holds_fkey f_is_int_of_int by (auto simp: counter_abs_def f_is_int_def)

lemma srv_sel [simp]:
  "cfgName (srv n r) = n" "replicas (srv n r) = r" "changes (srv n r) = []" "srv_nils (srv n r) = {}"
  "members (srv n r) = [''a'' \<mapsto> active, ''b'' \<mapsto> active]"
  by (simp_all add: srv_def)

lemma replica_counter_upd [simp]:
  "replica_counter (r(m \<mapsto> cs)) m' n = (if m' = m then cs n else replica_counter r m' n)"
  "replica_counter Map.empty m n = None"
  by (simp_all add: replica_counter_def)

lemma server_ok_a [simp]: "server_ok srv_a"
  by (simp add: server_ok_def srv_a_def counters_ok_def)

lemma server_ok_b [simp]: "server_ok srv_b"
  by (simp add: server_ok_def srv_b_def counters_ok_def)

lemma order_a: "range_order (replicas srv_a) [''a'', ''b'']" "range_order (replicas srv_a) [''b'', ''a'']"
  by (auto simp: range_order_def srv_a_def)

definition share_a :: "string \<Rightarrow> int" where
  "share_a = (\<lambda>_. 0)(''a'' := 5, ''b'' := 3)"

lemma contributes_a: "contributes (replicas srv_a) ''x'' share_a"
  by (auto simp: contributes_def srv_a_def share_a_def split: if_splits)

lemma sum_a: "(\<Sum>m\<in>dom (replicas srv_a). g (share_a m)) = g 5 + (g 3 :: int)"
  by (simp add: srv_a_def share_a_def)

theorem inc_then_get_witness:
  "\<exists>s' y. incCounter srv_a ''x'' (f_of_int 2) = Returns (s', y) \<and> f_is_int y 7 \<and>
     f_is_int (fst (getCounter srv_a [''a'', ''b''] ''x'')) 8 \<and>
     f_is_int (fst (getCounter s' [''b'', ''a''] ''x'')) 10"
proof -
  obtain s' y where i: "incCounter srv_a ''x'' (f_of_int 2) = Returns (s', y)"
    using incCounter_eq[OF server_ok_a] by blast
  have own: "own_value srv_a ''x'' = cnt 5 0 0"
    by (simp add: own_value_def srv_a_def)
  have "f_is_int y (share_a (cfgName srv_a) + 2) \<and>
    f_is_int (fst (getCounter srv_a [''a'', ''b''] ''x'')) (\<Sum>m\<in>dom (replicas srv_a). share_a m) \<and>
    f_is_int (fst (getCounter s' [''b'', ''a''] ''x'')) ((\<Sum>m\<in>dom (replicas srv_a). share_a m) + 2) \<and>
    (''x'' \<noteq> ''x'' \<longrightarrow> getCounter s' [''a'', ''b''] ''x'' = getCounter srv_a [''a'', ''b''] ''x'')"
    by (rule inc_then_get[where x = "f_of_int 2" and u = 5 and w = 0])
      (use i own order_a contributes_a sum_a[of abs] in simp_all)
  then show ?thesis
    using i sum_a[of "\<lambda>z. z"] by (simp add: srv_a_def share_a_def)
qed

theorem list_agrees_with_get_witness:
  "listCounters srv_a [''a'', ''b''] (\<lambda>_. [''x'']) ''x'' =
     Some (fst (getCounter srv_a [''a'', ''b''] ''x''))"
proof -
  have eq: "listCounters srv_a [''a'', ''b''] (\<lambda>_. [''x'']) ''x'' =
      (if f_eq (fst (getCounter srv_a [''a'', ''b''] ''x'')) 0 then None
       else Some (fst (getCounter srv_a [''a'', ''b''] ''x'')))"
    by (rule list_agrees_with_get[OF order_a(1)])
      (auto simp: srv_a_def range_order_def split: if_splits)
  have "f_is_int (fst (getCounter srv_a [''a'', ''b''] ''x'')) 8"
    using get_int[OF contributes_a order_a(1)] sum_a[of abs] sum_a[of "\<lambda>z. z"] by simp
  then have "\<not> f_eq (fst (getCounter srv_a [''a'', ''b''] ''x'')) 0"
    using f_is_int_eq[OF _ f_is_int_0] by simp
  with eq show ?thesis
    by simp
qed

text \<open>The same three changes of \<open>srv_b\<close>'s counter, in two orders, one of them twice.\<close>

theorem gossip_converges_witness:
  "map_option counter_abs (replica_counter (replicas (deliver ''b'' ''x'' [cnt 4 1 0, cnt 1 0 1] srv_a)) ''b'' ''x'') =
   map_option counter_abs (replica_counter
     (replicas (deliver ''b'' ''x'' [cnt 4 1 0, cnt 3 0 0, cnt 4 1 0, cnt 1 0 1] (srv ''c'' Map.empty))) ''b'' ''x'')"
  by (rule gossip_converges) (auto simp: seen_def srv_a_def)

theorem inc_reaches_peer_witness:
  "\<exists>s' y. incCounter srv_b ''x'' (f_of_int 2) = Returns (s', y) \<and>
    (\<exists>x\<in>set (changes s'). ch_name (bc x) = ''x'' \<and> transmits x = 0 \<and>
       map_option counter_abs (replica_counter (replicas (notifyMsg srv_a (Message (bc x)))) ''b'' ''x'') =
         map_option counter_abs (replica_counter (replicas s') ''b'' ''x''))"
proof -
  let ?c = "bump (f_of_int 2) (cnt 4 0 0)"
  have i: "incCounter srv_b ''x'' (f_of_int 2) = Returns (put_own srv_b ''x'' ?c, Up ?c - Down ?c)"
    using incCounter_eq[OF server_ok_b] by (simp add: own_value_def srv_b_def)
  have up: "f_is_int (Up ?c) 6" "Down ?c = f_of_int 0" "Revision ?c = 0"
    using f_is_int_add[of "f_of_int 4" 4 "f_of_int 2" 2] f_is_int_less[OF f_is_int_0, of "f_of_int 2" 2]
    by (simp_all add: bump_def)
  then have "Up ?c \<noteq> FNaN" "fkey (Up ?c) = 6 * int f_one"
    by (auto simp: f_is_int_def dest: f_holds_fkey)
  then have c: "no_nan ?c" "counter_abs ?c = (0, 6 * int f_one, 0)"
    using up counter_abs_cnt[of 0 0 0] by (simp_all add: no_nan_def counter_abs_def)
  have "\<exists>x\<in>set (changes (put_own srv_b ''x'' ?c)). ch_name (bc x) = ''x'' \<and> transmits x = 0 \<and>
      map_option counter_abs (replica_counter (replicas (notifyMsg srv_a (Message (bc x)))) (cfgName srv_b) ''x'') =
        Some (counter_abs ?c)"
    by (rule inc_reaches_peer[OF server_ok_b _ _ i])
      (use c in \<open>auto simp: srv_a_def srv_b_def counter_name_def counter_abs_cnt f64_ok_of_int\<close>)
  then show ?thesis
    using i by (simp add: srv_b_def)
qed

theorem stale_change_resurrects_witness:
  "map_option Up (replica_counter (replicas (deliver ''b'' ''x'' [cnt 7 0 0, cnt 2 0 1] srv_b)) ''b'' ''y'') = None \<and>
   map_option Up (replica_counter (replicas (deliver ''a'' ''x'' [cnt 7 0 0, cnt 2 0 1] srv_b)) ''a'' ''x'') =
     Some (f_of_int 2) \<and>
   map_option Up (replica_counter (replicas (deliver ''a'' ''x'' [cnt 2 0 1, cnt 7 0 0] srv_b)) ''a'' ''x'') =
     Some (f_of_int 7)"
  using stale_change_resurrects[of "''a''" "''x''" srv_b "cnt 7 0 0" "cnt 2 0 1"]
  by (simp add: srv_b_def deliver_def notifyMsg_change)

text \<open>\<open>srv_a\<close> sets the counter to 10; the one that \<open>srv_b\<close> counted since survives.\<close>

theorem set_then_get_witness:
  "\<exists>s1 old. setCounter srv_a ''x'' (f_of_int 10) (\<lambda>_ _. None) [plain_node ''a'', plain_node ''b''] =
       Returns (s1, old, [None]) \<and>
     f_is_int (fst (getCounter
       (relay ''x'' (receive (fst (send_resets srv_a ''x'' (\<lambda>_ _. None) [plain_node ''a'', plain_node ''b''])) srv_b) s1)
       [''a'', ''b''] ''x'')) 11"
proof -
  let ?nodes = "[plain_node ''a'', plain_node ''b'']"
  have "\<exists>s1 old. setLocal srv_a ''x'' (f_of_int 10) = Returns (s1, old)"
    by (simp add: setLocal_eq Let_def split: option.split)
  then obtain s1 old where s1: "setLocal srv_a ''x'' (f_of_int 10) = Returns (s1, old)"
    by blast
  have set: "setCounter srv_a ''x'' (f_of_int 10) (\<lambda>_ _. None) ?nodes = Returns (s1, old, [None])"
    unfolding setCounter_def send_resets_ok s1 by simp
  have peer: "peer_of srv_a ''x'' (\<lambda>_. 1) srv_b"
    by (auto simp: peer_of_def srv_a_def srv_b_def counters_ok_def server_ok_def)
  have "[None] = [None :: goerr option] \<and> f_is_int (fst (getCounter
       (relay ''x'' (receive (fst (send_resets srv_a ''x'' (\<lambda>_ _. None) ?nodes)) srv_b) s1)
       [''a'', ''b''] ''x'')) (10 + (\<Sum>p\<leftarrow>[srv_b]. (\<lambda>_. 1) (cfgName p)))"
    by (rule set_then_get[OF server_ok_a _ _ _ _ _ set contributes_a, where ps = "[srv_b]" and w = "\<lambda>_. 1"])
      (use peer in \<open>auto simp: counter_name_def plain_node_def srv_a_def srv_b_def range_order_def split: if_splits\<close>)
  then show ?thesis
    using set by auto
qed

theorem merge_any_order_witness:
  "mergeRemoteState srv_b 7 [''a'', ''b''] [''a'', ''b''] (\<lambda>_. [''x'']) (localState srv_a) =
   mergeRemoteState srv_b 7 [''b'', ''a''] [''b'', ''a''] (\<lambda>_. [''x'']) (localState srv_a)"
  by (rule merge_any_order)
    (auto simp: merge_orders_def localState_def gob_replicas_def srv_a_def range_order_def split: if_splits)

theorem push_pull_agrees_witness:
  "map_option counter_abs (replica_counter (replicas
     (mergeRemoteState srv_a 7 [''a'', ''b''] [''b''] (\<lambda>_. [''x'']) (localState srv_b))) ''b'' ''x'') =
   map_option counter_abs (replica_counter (replicas
     (mergeRemoteState srv_b 8 [''b'', ''a''] [''b'', ''a''] (\<lambda>_. [''x'']) (localState srv_a))) ''b'' ''x'')"
  by (rule push_pull_agrees[OF _ _ refl refl])
    (auto simp: merge_orders_def localState_def gob_replicas_def srv_a_def srv_b_def range_order_def
      mergeRemoteState_def merge_state_def Let_def split: if_splits)

theorem consistent_iff_witness:
  "consistent (updateConsistent srv_a [''a'', ''b''] [plain_node ''b'', plain_node ''a'']) \<and>
   \<not> consistent (updateConsistent srv_a [''a'', ''b''] [plain_node ''a''])"
proof -
  have o': "range_order (members srv_a) [''a'', ''b'']"
    by (auto simp: range_order_def srv_a_def)
  have m: "members srv_a m = Some st \<longleftrightarrow> st = active \<and> (m = ''a'' \<or> m = ''b'')" for m st
    by (auto simp: srv_a_def split: if_splits)
  have "Active active = 1" "Name (plain_node n) = n" for n
    by (simp_all add: active_def plain_node_def)
  then show ?thesis
    unfolding consistent_iff[OF o'] m by auto
qed

end
