(* ===== verification/System.thy ===== *)
theory System
  imports EventProps Replication
begin

text \<open>
  The server and its memberlist together: what memberlist hands to its delegate reaches the server's
  handlers, \<open>Start\<close>, \<open>Stop\<close>, \<open>Kill\<close>, \<open>Join\<close> and the reconnect loop (\<open>server/server.go\<close>) act on both.
\<close>

section \<open>Delivery\<close>

text \<open>
  The clock, the decoding of gob, and the orders in which maps are ranged over.  Memberlist calls its
  delegate while it handles a message; the calls are made one after the other.
\<close>

record delivery =
  dv_now :: int
  dv_gob :: "bytes \<Rightarrow> gob list"
  dv_orders :: "gob list \<Rightarrow> string list \<times> string list \<times> (string \<Rightarrow> string list)"

fun notify :: "delivery \<Rightarrow> server \<Rightarrow> effect \<Rightarrow> server" where
  "notify dv s (EvJoin n) = notifyJoin s (dv_now dv) n"
| "notify dv s (EvLeave n) = notifyLeave s (dv_now dv) n"
| "notify dv s (UserMsg msg) = notifyMsg s msg"
| "notify dv s (UserState buf join) =
     (case dv_orders dv (dv_gob dv buf) of (ks, ms, ns) \<Rightarrow> mergeRemoteState s (dv_now dv) ks ms ns (dv_gob dv buf))"
| "notify dv s _ = s"

text \<open>What memberlist did between two of its states.\<close>

definition pump :: "delivery \<Rightarrow> memberlist \<Rightarrow> memberlist \<Rightarrow> server \<Rightarrow> server" where
  "pump dv m m' s = foldl (notify dv) s (drop (length (ml_out m)) (ml_out m'))"

section \<open>Start, stop and join\<close>

record daemon =
  dm_srv :: server
  dm_list :: memberlist
  dm_conf :: config

text \<open>The delegate's \<open>NodeMeta\<close> is the server's.\<close>

definition served :: "server \<Rightarrow> hostenv \<Rightarrow> hostenv" where
  "served s host = host\<lparr>he_meta := (case nodeMeta s (int metaMaxSize) of None \<Rightarrow> [] | Some b \<Rightarrow> b)\<rparr>"

text \<open>
  \<open>socket\<close> is the error of listening for clients; the memberlist runs already then, and is what
  stays behind.
\<close>

definition startDaemon ::
  "hostenv \<Rightarrow> goerr option \<Rightarrow> goerr option \<Rightarrow> goerr option \<Rightarrow> delivery \<Rightarrow> u32 \<Rightarrow> config \<Rightarrow> server \<Rightarrow>
   (goerr option \<times> server \<times> memberlist option \<times> config) run" where
  "startDaemon host tcp udp socket dv draw cf s =
     (let s1 = startServer s (dv_now dv)
      in and_then (createList (served s1 host) tcp udp cf draw (dv_now dv)) (\<lambda>(r, cf1).
           case r of
             Inl err \<Rightarrow> Done (Some err, s1, None, cf1)
           | Inr m \<Rightarrow> Done (socket, pump dv empty_memberlist m s1, Some m, cf1)))"

text \<open>\<open>others\<close> is what goes on during the two seconds that \<open>Stop\<close> sleeps.\<close>

definition stopDaemon ::
  "hostenv \<Rightarrow> delivery \<Rightarrow> u32 \<Rightarrow> nat \<Rightarrow> bool \<Rightarrow> bool \<Rightarrow> (daemon \<Rightarrow> daemon) \<Rightarrow> daemon \<Rightarrow> (goerr option \<times> daemon) run" where
  "stopDaemon host dv draw ch sent_update sent_leave others d =
     (let s1 = stopServer (dm_srv d); cf = dm_conf d; m = dm_list d
      in and_then (updateNode (served s1 host) cf draw (dv_now dv) ch (10 * second) sent_update m) (\<lambda>(_, m1).
           let d1 = others (d\<lparr>dm_srv := pump dv m m1 s1, dm_list := m1\<rparr>)
           in and_then (leaveList (dm_conf d1) (dv_now dv) (10 * second) sent_leave (dm_list d1)) (\<lambda>(err, m2).
                let d2 = d1\<lparr>dm_srv := pump dv (dm_list d1) m2 (dm_srv d1), dm_list := m2\<rparr>
                in Done (if err \<noteq> None then (err, d2) else (None, d2\<lparr>dm_list := shutdownList m2\<rparr>)))))"

definition killDaemon :: "daemon \<Rightarrow> daemon" where
  "killDaemon d = d\<lparr>dm_list := shutdownList (dm_list d)\<rparr>"

text \<open>The \<open>JOIN\<close> of a client, and of the command line.\<close>

definition joinDaemon ::
  "(string \<Rightarrow> bytes option) \<Rightarrow> (string \<Rightarrow> bytes list result) \<Rightarrow> netenv \<Rightarrow> delivery \<Rightarrow> peers \<Rightarrow> string list \<Rightarrow>
   daemon \<Rightarrow> (goerr option \<times> daemon) run" where
  "joinDaemon parse lookup env dv peers hosts d =
     (let s1 = joinCluster (dm_srv d) (dv_now dv)
      in and_then (joinList parse lookup env (dm_conf d) peers hosts (dm_list d)) (\<lambda>((n, err), m).
           Done (err, d\<lparr>dm_srv := pump dv (dm_list d) m s1, dm_list := m\<rparr>)))"

text \<open>
  One round of the reconnect loop: \<open>hosts\<close> is the order of \<open>s.reconnects\<close>; the error is dropped.  The
  second value is how long it sleeps then.
\<close>

definition reconnect ::
  "(string \<Rightarrow> bytes option) \<Rightarrow> (string \<Rightarrow> bytes list result) \<Rightarrow> netenv \<Rightarrow> delivery \<Rightarrow> peers \<Rightarrow> string list \<Rightarrow>
   daemon \<Rightarrow> (int \<times> daemon) run" where
  "reconnect parse lookup env dv peers hosts d =
     (if hosts = [] then Done (second, d)
      else and_then (joinList parse lookup env (dm_conf d) peers hosts (dm_list d)) (\<lambda>(_, m).
             Done (2 * second + (second * 10) div int (length hosts),
                   d\<lparr>dm_srv := pump dv (dm_list d) m (dm_srv d), dm_list := m\<rparr>)))"

text \<open>\<open>updateConsistent\<close> with the members memberlist has.\<close>

definition refresh :: "string list \<Rightarrow> daemon \<Rightarrow> daemon" where
  "refresh ks d = d\<lparr>dm_srv := updateConsistent (dm_srv d) ks (membersList (dm_list d))\<rparr>"

section \<open>What delivery does\<close>

definition dv_ok :: "delivery \<Rightarrow> bool" where
  "dv_ok dv \<longleftrightarrow> (\<forall>buf. (case dv_orders dv (dv_gob dv buf) of (ks, ms, ns) \<Rightarrow> merge_orders (dv_gob dv buf) ks ms ns) \<and>
     (\<forall>rr. GobCounters rr \<in> set (dv_gob dv buf) \<longrightarrow> counters_ok rr))"

text \<open>Members are never forgotten.\<close>

definition keeps_members :: "server \<Rightarrow> server \<Rightarrow> bool" where
  "keeps_members s s' \<longleftrightarrow> dom (members s) \<subseteq> dom (members s') \<and> cfgName s' = cfgName s"

lemma keeps_members_refl [simp]: "keeps_members s s"
  by (simp add: keeps_members_def)

lemma keeps_members_trans: "keeps_members s s1 \<Longrightarrow> keeps_members s1 s' \<Longrightarrow> keeps_members s s'"
  by (auto simp: keeps_members_def)

lemma keeps_members_notifyMsg: "keeps_members s (notifyMsg s msg)"
proof (cases msg)
  case (Cons t bs)
  have "keeps_members s s'" if "readChange s bs = Inr s'" for s'
    using that by (rule readChange_Inr) (auto simp: keeps_members_def)
  moreover have "keeps_members s s'" if "readReset s bs = Inr s'" for s'
    using that by (rule readReset_Inr) (auto simp: keeps_members_def)
  ultimately show ?thesis
    by (auto simp: notifyMsg_def Cons split: sum.split)
qed (simp add: notifyMsg_def)

lemma keeps_members_merge:
  assumes "merge_orders buf ks ms ns"
  shows "keeps_members s (mergeRemoteState s now ks ms ns buf)"
proof (cases "\<exists>rm rr r. buf = GobStates rm # GobCounters rr # r")
  case True
  then obtain rm rr r where buf: "buf = GobStates rm # GobCounters rr # r"
    by blast
  have "members (mergeRemoteState s now ks ms ns buf) n \<noteq> None" if "members s n = Some st" for n st
    using that unfolding buf mergeRemoteState_spec(1)[OF assms[unfolded buf]]
    by (simp add: newer_state_def split: option.split)
  then show ?thesis
    by (auto simp: keeps_members_def)
next
  case False
  then show ?thesis
    using mergeRemoteState_malformed[of buf s now ks ms ns] by simp
qed

lemma keeps_members_step:
  assumes "server_step s s'" "server_ok s"
  shows "keeps_members s s'"
  using assms(1)
proof cases
  case (step_getBroadcasts srt k overhead limit)
  then show ?thesis
    by (simp add: keeps_members_def getBroadcastsS_def split_beta)
next
  case (step_inc n d v)
  then show ?thesis
    using incCounter_eq[OF assms(2), of n d] by (auto simp: keeps_members_def put_own_def)
next
  case (step_set n v old)
  then show ?thesis
    using setLocal_eq[OF assms(2)]
    by (auto simp: keeps_members_def put_own_def Let_def split: option.splits)
next
  case (step_notifyLeave now node)
  then show ?thesis
    by (auto simp: keeps_members_def notifyLeave_def split: sum.split)
next
  case (step_notifyMsg msg)
  then show ?thesis
    by (simp add: keeps_members_notifyMsg)
next
  case (step_merge buf ks ms ns now)
  then show ?thesis
    by (simp add: keeps_members_merge)
qed (auto simp: keeps_members_def notifyJoin_def updateConsistent_def stopServer_def)

text \<open>A delivery is a step of the server, or none.\<close>

lemma notify_step:
  assumes "dv_ok dv"
  shows "notify dv s e = s \<or> server_step s (notify dv s e)"
proof (cases e)
  case (UserState buf join)
  obtain ks ms ns where o: "dv_orders dv (dv_gob dv buf) = (ks, ms, ns)"
    by (rule prod_cases3)
  then have "merge_orders (dv_gob dv buf) ks ms ns" "\<And>rr. GobCounters rr \<in> set (dv_gob dv buf) \<Longrightarrow> counters_ok rr"
    using assms by (auto simp: dv_ok_def dest!: spec[of _ buf])
  then show ?thesis
    using step_merge[of "dv_gob dv buf" ks ms ns s "dv_now dv"] by (simp add: UserState o)
qed (simp_all add: step_notifyJoin step_notifyLeave step_notifyMsg)

lemma notify_ok:
  assumes "dv_ok dv" "server_ok s"
  shows "server_ok (notify dv s e)" "keeps_members s (notify dv s e)"
  using notify_step[OF assms(1), of s e] server_ok_step[OF _ assms(2)] keeps_members_step[OF _ assms(2)] assms(2)
  by auto

lemma deliver_ok:
  assumes "dv_ok dv" "server_ok s"
  shows "server_ok (foldl (notify dv) s es) \<and> keeps_members s (foldl (notify dv) s es)"
  using assms(2)
proof (induction es arbitrary: s)
  case (Cons e es)
  note n = notify_ok[OF assms(1) Cons.prems, of e]
  show ?case
    using Cons.IH[OF n(1)] keeps_members_trans[OF n(2)] by simp
qed simp

text \<open>
  What an event delegate owes to memberlist: it keeps to its invariant, it knows a node once it was
  told of its joining, and it does not forget on anything else but a leave.
\<close>

locale event_delegate =
  fixes hear :: "'s \<Rightarrow> effect \<Rightarrow> 's" and known :: "'s \<Rightarrow> string set" and valid :: "'s \<Rightarrow> bool"
  assumes hear_valid: "valid s \<Longrightarrow> valid (hear s e)"
    and hear_join: "valid s \<Longrightarrow> Name nd \<in> known (hear s (EvJoin nd))"
    and hear_leave: "valid s \<Longrightarrow> known s - {Name nd} \<subseteq> known (hear s (EvLeave nd))"
    and hear_other: "valid s \<Longrightarrow> (\<forall>nd. e \<noteq> EvLeave nd) \<Longrightarrow> known s \<subseteq> known (hear s e)"
begin

text \<open>Then it knows every node that is live, whatever it was told.\<close>

lemma follow_known:
  assumes "valid s" "follow es L = Some L'" "L \<subseteq> known s"
  shows "L' \<subseteq> known (foldl hear s es)"
  using assms
proof (induction es arbitrary: s L)
  case (Cons e es)
  obtain L1 where L1: "follow es L1 = Some L'" "L1 \<subseteq> known (hear s e)"
  proof (cases e)
    case (EvJoin n)
    have "insert (Name n) L \<subseteq> known (hear s e)"
      using Cons.prems(3) hear_join[OF Cons.prems(1), of n] hear_other[OF Cons.prems(1), of e] by (auto simp: EvJoin)
    then show ?thesis
      using that[of "insert (Name n) L"] Cons.prems(2) EvJoin by (simp split: if_splits)
  next
    case (EvLeave n)
    have "L - {Name n} \<subseteq> known (hear s e)"
      using Cons.prems(3) hear_leave[OF Cons.prems(1), of n] by (auto simp: EvLeave)
    then show ?thesis
      using that[of "L - {Name n}"] Cons.prems(2) EvLeave by (simp split: if_splits)
  qed (use that[of L] Cons.prems(2,3) hear_other[OF Cons.prems(1), of e] in \<open>auto\<close>)
  show ?case
    using Cons.IH[OF hear_valid[OF Cons.prems(1)] L1] by simp
qed simp

end

interpretation heard: event_delegate "notify dv" "\<lambda>s. dom (members s)" "\<lambda>s. dv_ok dv \<and> server_ok s" for dv
proof
  fix s e nd
  assume v: "dv_ok dv \<and> server_ok s"
  then have k: "dom (members s) \<subseteq> dom (members (notify dv s e))" for e
    using notify_ok(2)[of dv s e] by (simp add: keeps_members_def)
  show "dv_ok dv \<and> server_ok (notify dv s e)"
    using v notify_ok(1) by blast
  show "Name nd \<in> dom (members (notify dv s (EvJoin nd)))"
    by (simp add: notifyJoin_def)
  show "dom (members s) - {Name nd} \<subseteq> dom (members (notify dv s (EvLeave nd)))"
    using k by blast
  show "dom (members s) \<subseteq> dom (members (notify dv s e))"
    by (rule k)
qed

lemma follow_events: "follow (filter is_event es) L = follow es L"
  by (induction es L rule: follow.induct) auto

lemma pump_live:
  assumes "dv_ok dv" "server_ok s" "grows m m'" "mirrors m m'" "live m \<subseteq> dom (members s)"
  shows "live m' \<subseteq> dom (members (pump dv m m' s))"
proof -
  obtain es where es: "ml_out m' = ml_out m @ es"
    using assms(3) by (auto simp: grows_def)
  then have "follow es (live m) = Some (live m')"
    using assms(4) by (simp add: mirrors_def member_events_def follow_events)
  then show ?thesis
    using heard.follow_known[of dv s es "live m" "live m'"] assms(1,2,5) es by (simp add: pump_def)
qed

lemma pump_ok: "dv_ok dv \<Longrightarrow> server_ok s \<Longrightarrow> server_ok (pump dv m m' s) \<and> keeps_members s (pump dv m m' s)"
  by (simp add: pump_def deliver_ok)

section \<open>A running server\<close>

text \<open>
  What changes a running server: its memberlist meets the world and delivers, a client operation, a
  poll for broadcasts or an update of the consistency flag, loading a file without a \<open>null\<close>, a round of
  the reconnect loop, and leaving; and, apart from these, joining other hosts, which drops what the
  server knows of its members, those that are live in its memberlist included.
\<close>

inductive daemon_step :: "daemon \<Rightarrow> daemon \<Rightarrow> bool" where
  dm_life: "dv_ok dv \<Longrightarrow> life (dm_conf d) (dm_list d) m \<Longrightarrow>
    daemon_step d (d\<lparr>dm_srv := pump dv (dm_list d) m (dm_srv d), dm_list := m\<rparr>)"
| dm_server: "server_step (dm_srv d) s \<Longrightarrow> daemon_step d (d\<lparr>dm_srv := s\<rparr>)"
| dm_load: "counters_ok (json_map j) \<Longrightarrow> json_nils j = {} \<Longrightarrow> loadReplicas (dm_srv d) (Decoded j) = Returns s \<Longrightarrow>
    daemon_step d (d\<lparr>dm_srv := s\<rparr>)"
| dm_refresh: "daemon_step d (refresh ks d)"
| dm_reconnect: "dv_ok dv \<Longrightarrow> 0 \<le> ne_nodes_room env \<Longrightarrow>
    int (length (ml_nodes (dm_list d))) +
      int (attempts (resolveAddr parse lookup (dm_conf d)) hosts) * ne_nodes_room env < 2 ^ 32 \<Longrightarrow>
    reconnect parse lookup env dv peers hosts d = Done (wait, d') \<Longrightarrow> daemon_step d d'"

inductive join_step :: "daemon \<Rightarrow> daemon \<Rightarrow> bool" where
  dm_join: "dv_ok dv \<Longrightarrow> 0 \<le> ne_nodes_room env \<Longrightarrow>
    int (length (ml_nodes (dm_list d))) +
      int (attempts (resolveAddr parse lookup (dm_conf d)) hosts) * ne_nodes_room env < 2 ^ 32 \<Longrightarrow>
    joinDaemon parse lookup env dv peers hosts d = Done (err, d') \<Longrightarrow> join_step d d'"

text \<open>Any run of a server, and one in which it joins others only while no other node is live.\<close>

definition run_step :: "daemon \<Rightarrow> daemon \<Rightarrow> bool" where
  "run_step d d' \<longleftrightarrow> daemon_step d d' \<or> join_step d d'"

definition calm_step :: "daemon \<Rightarrow> daemon \<Rightarrow> bool" where
  "calm_step d d' \<longleftrightarrow> daemon_step d d' \<or> (live (dm_list d) \<subseteq> {cfgName (dm_srv d)} \<and> join_step d d')"

definition daemon_wf :: "daemon \<Rightarrow> bool" where
  "daemon_wf d \<longleftrightarrow> server_ok (dm_srv d) \<and> ml_ok (dm_list d) \<and> cf_Events (dm_conf d) \<and>
     self_ok (dm_conf d) (dm_list d)"

definition daemon_ok :: "daemon \<Rightarrow> bool" where
  "daemon_ok d \<longleftrightarrow> daemon_wf d \<and> live (dm_list d) \<subseteq> dom (members (dm_srv d))"

lemma joinList_forward:
  assumes "ml_ok m" "0 \<le> ne_nodes_room env"
    "int (length (ml_nodes m)) + int (attempts (resolveAddr parse lookup cf) existing) * ne_nodes_room env < 2 ^ 32"
    "joinList parse lookup env cf peers existing m = Done (r, m')"
  shows "\<exists>k. forward cf m m' k"
proof -
  obtain n re where "join_hosts (resolveAddr parse lookup cf) env cf peers existing 0 0 None m = Done (n, re, m')"
    using assms(4) by (auto simp: joinList_def and_then_Done)
  from join_hosts_spec[OF assms(1-3) this] show ?thesis
    by blast
qed

text \<open>A step of memberlist that tells what it does keeps the whole well.\<close>

lemma daemon_wf_pump:
  assumes "dv_ok dv" "server_ok s" "cf_Events cf" "self_ok cf m" "told cf m m'" "ml_ok m'"
  shows "daemon_wf \<lparr>dm_srv = pump dv m m' s, dm_list = m', dm_conf = cf\<rparr>"
  using pump_ok[OF assms(1,2)] assms(3-6) by (simp add: daemon_wf_def told_def)

lemma daemon_ok_pump:
  assumes "dv_ok dv" "server_ok s" "cf_Events cf" "self_ok cf m" "told cf m m'" "ml_ok m'" "live m \<subseteq> dom (members s)" "grows m m'"
  shows "daemon_ok \<lparr>dm_srv = pump dv m m' s, dm_list = m', dm_conf = cf\<rparr>"
proof -
  have "mirrors m m'"
    using assms(3-5) by (simp add: told_def)
  then show ?thesis
    using pump_live[OF assms(1,2,8) _ assms(7)] daemon_wf_pump[OF assms(1-6)] by (simp add: daemon_ok_def)
qed

lemma joinCluster_ok:
  "server_ok s \<Longrightarrow> server_ok (joinCluster s now)"
  "dom (members (joinCluster s now)) = {cfgName s}"
  by (simp_all add: server_ok_join) (simp add: joinCluster_def)

lemma load_members:
  "loadReplicas s (Decoded j) = Returns s' \<Longrightarrow> members s' = members s"
  by (auto simp: loadReplicas_def Let_def)

lemma daemon_upd: "d\<lparr>dm_srv := s, dm_list := m\<rparr> = \<lparr>dm_srv = s, dm_list = m, dm_conf = dm_conf d\<rparr>"
  by simp

text \<open>Each step but \<open>Join\<close> keeps the server well-formed and the live nodes known.\<close>

lemma daemon_step_cases:
  assumes "daemon_step d d'" "daemon_wf d"
  obtains (tells) dv m where "dv_ok dv" "d' = d\<lparr>dm_srv := pump dv (dm_list d) m (dm_srv d), dm_list := m\<rparr>"
      "told (dm_conf d) (dm_list d) m" "grows (dm_list d) m" "ml_ok m"
  | (serves) s where "d' = d\<lparr>dm_srv := s\<rparr>" "server_ok s" "dom (members (dm_srv d)) \<subseteq> dom (members s)"
proof -
  have ok: "server_ok (dm_srv d)" "ml_ok (dm_list d)"
    using assms(2) by (simp_all add: daemon_wf_def)
  show ?thesis
    using assms(1)
  proof cases
    case (dm_life dv m)
    then show ?thesis
      using told_life[OF dm_life(3) ok(2)] by (intro tells[of dv m]) simp_all
  next
    case (dm_server s)
    then show ?thesis
      using server_ok_step[OF dm_server(2) ok(1)] keeps_members_step[OF dm_server(2) ok(1)]
      by (intro serves[of s]) (simp_all add: keeps_members_def)
  next
    case (dm_load j s)
    then show ?thesis
      using server_ok_load[OF ok(1)] load_members[of "dm_srv d" j s] by (intro serves[of s]) simp_all
  next
    case (dm_refresh ks)
    let ?s = "updateConsistent (dm_srv d) ks (membersList (dm_list d))"
    have st: "server_step (dm_srv d) ?s"
      by (rule step_updateConsistent)
    show ?thesis
      using server_ok_step[OF st ok(1)] keeps_members_step[OF st ok(1)] dm_refresh
      by (intro serves[of ?s]) (simp_all add: refresh_def keeps_members_def)
  next
    case (dm_reconnect dv env parse lookup hosts peers wait)
    show ?thesis
    proof (cases "hosts = []")
      case False
      then obtain r m where j: "joinList parse lookup env (dm_conf d) peers hosts (dm_list d) = Done (r, m)"
        and d': "d' = d\<lparr>dm_srv := pump dv (dm_list d) m (dm_srv d), dm_list := m\<rparr>"
        using dm_reconnect(4) by (auto simp: reconnect_def and_then_Done)
      obtain k where "forward (dm_conf d) (dm_list d) m k"
        using joinList_forward[OF ok(2) dm_reconnect(2,3) j] by blast
      then show ?thesis
        by (intro tells[OF dm_reconnect(1) d']) (simp_all add: forward_def)
    next
      case True
      then have "d' = d\<lparr>dm_srv := dm_srv d\<rparr>"
        using dm_reconnect(4) by (simp add: reconnect_def)
      then show ?thesis
        using ok(1) by (intro serves[of "dm_srv d"]) simp_all
    qed
  qed
qed

lemma join_stepD:
  assumes "join_step d d'" "daemon_wf d"
  obtains dv m where "dv_ok dv" "d' = d\<lparr>dm_srv := pump dv (dm_list d) m (joinCluster (dm_srv d) (dv_now dv)), dm_list := m\<rparr>"
    "told (dm_conf d) (dm_list d) m" "grows (dm_list d) m" "ml_ok m"
  using assms(1)
proof cases
  case (dm_join dv env parse lookup hosts peers err)
  have "ml_ok (dm_list d)"
    using assms(2) by (simp add: daemon_wf_def)
  obtain n m where j: "joinList parse lookup env (dm_conf d) peers hosts (dm_list d) = Done ((n, err), m)"
    and d': "d' = d\<lparr>dm_srv := pump dv (dm_list d) m (joinCluster (dm_srv d) (dv_now dv)), dm_list := m\<rparr>"
    using dm_join(4) by (auto simp: joinDaemon_def Let_def and_then_Done)
  obtain k where "forward (dm_conf d) (dm_list d) m k"
    using joinList_forward[OF \<open>ml_ok (dm_list d)\<close> dm_join(2,3) j] by blast
  then show ?thesis
    by (intro that[OF dm_join(1) d']) (simp_all add: forward_def)
qed

lemma daemon_wf_step:
  assumes "run_step d d'" "daemon_wf d"
  shows "daemon_wf d'"
proof (cases "daemon_step d d'")
  case True
  show ?thesis
    using True assms(2)
  proof (cases rule: daemon_step_cases)
    case (tells dv m)
    then show ?thesis
      unfolding tells(2) daemon_upd using assms(2) by (intro daemon_wf_pump) (simp_all add: daemon_wf_def)
  qed (use assms(2) in \<open>simp_all add: daemon_wf_def\<close>)
next
  case False
  then have "join_step d d'"
    using assms(1) by (simp add: run_step_def)
  from join_stepD[OF this assms(2)] obtain dv m where j: "dv_ok dv"
    "d' = d\<lparr>dm_srv := pump dv (dm_list d) m (joinCluster (dm_srv d) (dv_now dv)), dm_list := m\<rparr>"
    "told (dm_conf d) (dm_list d) m" "grows (dm_list d) m" "ml_ok m"
    by blast
  then show ?thesis
    unfolding j(2) daemon_upd using assms(2) joinCluster_ok(1) by (intro daemon_wf_pump) (simp_all add: daemon_wf_def)
qed

lemma daemon_ok_step:
  assumes "calm_step d d'" "daemon_ok d"
  shows "daemon_ok d'"
proof -
  have wf: "daemon_wf d" and known: "live (dm_list d) \<subseteq> dom (members (dm_srv d))"
    using assms(2) by (simp_all add: daemon_ok_def)
  show ?thesis
  proof (cases "daemon_step d d'")
    case True
    show ?thesis
      using True wf
    proof (cases rule: daemon_step_cases)
      case (tells dv m)
      then show ?thesis
        unfolding tells(2) daemon_upd using wf known by (intro daemon_ok_pump) (simp_all add: daemon_wf_def)
    next
      case (serves s)
      then show ?thesis
        using wf known by (auto simp: daemon_ok_def daemon_wf_def)
    qed
  next
    case False
    then have l: "live (dm_list d) \<subseteq> {cfgName (dm_srv d)}" and js: "join_step d d'"
      using assms(1) by (simp_all add: calm_step_def)
    from join_stepD[OF js wf] obtain dv m where j: "dv_ok dv"
      "d' = d\<lparr>dm_srv := pump dv (dm_list d) m (joinCluster (dm_srv d) (dv_now dv)), dm_list := m\<rparr>"
      "told (dm_conf d) (dm_list d) m" "grows (dm_list d) m" "ml_ok m"
      by blast
    then show ?thesis
      unfolding j(2) daemon_upd using wf l joinCluster_ok(1)
      by (intro daemon_ok_pump) (simp_all add: daemon_wf_def joinCluster_ok(2))
  qed
qed

text \<open>
  Joining no hosts at all, which a client may ask for: it succeeds, and from then on a node that was live
  before is still live but no member, so that its changes are refused.
\<close>

lemma join_forgets:
  assumes "joinDaemon parse lookup env dv peers [] d = Done (err, d')"
    "n \<in> live (dm_list d)" "n \<noteq> cfgName (dm_srv d)" "NL \<notin> set n"
  shows "err = None \<and> n \<in> live (dm_list d') \<and> n \<notin> dom (members (dm_srv d')) \<and>
    notifyMsg (dm_srv d') (change_bytes n x c) = dm_srv d'"
proof -
  have d': "err = None" "dm_list d' = dm_list d" "dm_srv d' = joinCluster (dm_srv d) (dv_now dv)"
    using assms(1) by (auto simp: joinDaemon_def joinList_def Let_def pump_def)
  have m: "members (dm_srv d') n = None"
    using assms(3) unfolding d' by (simp add: joinCluster_def)
  have "readChange (dm_srv d') (tl (change_bytes n x c)) = Inl (ErrMsg (''change for unknown member '' @ n))"
    using assms(4) m by (simp add: readChange_def change_bytes_def wire)
  then have "notifyMsg (dm_srv d') (change_bytes n x c) = dm_srv d'"
    by (simp add: notifyMsg_def change_bytes_def changeMessage_def resetMessage_def)
  then show ?thesis
    using d' m assms(2) by auto
qed

lemma served_meta: "Leaving (srv_meta s) = b \<Longrightarrow> he_meta (served s host) = [b]"
  by (simp add: served_def nodeMeta_def meta_encode_def go_min_def metaMaxSize_def buffer_write_def)

lemma createList_config:
  assumes "createList host tcp udp cf draw now = Done (Inr m, cf1)"
  obtains k where "cf1 = cf\<lparr>cf_Keyring := k\<rparr>"
  using assms newMemberlist_ok[of tcp udp cf]
  by (auto simp: createList_def and_then_Done split: prod.splits sum.splits option.splits)

lemma startDaemon_created:
  assumes "startDaemon host tcp udp socket dv draw cf q = Done (err, s, Some m, cf1)"
  shows "createList (served (startServer q (dv_now dv)) host) tcp udp cf draw (dv_now dv) = Done (Inr m, cf1)"
    "s = pump dv empty_memberlist m (startServer q (dv_now dv))"
proof -
  obtain r cf2 where "createList (served (startServer q (dv_now dv)) host) tcp udp cf draw (dv_now dv) = Done (r, cf2)"
    using assms by (auto simp: startDaemon_def Let_def and_then_Done)
  with assms show "createList (served (startServer q (dv_now dv)) host) tcp udp cf draw (dv_now dv) = Done (Inr m, cf1)"
    "s = pump dv empty_memberlist m (startServer q (dv_now dv))"
    by (auto simp: startDaemon_def Let_def and_then_Done split: sum.splits)
qed

lemma startDaemon_ok:
  assumes "startDaemon host tcp udp socket dv draw cf (newServer (cf_Name cf)) = Done (None, s, Some m, cf1)"
    "dv_ok dv" "cf_Alive cf = None" "cf_Events cf" "NL \<notin> set (cf_Name cf)"
  shows "daemon_ok \<lparr>dm_srv = s, dm_list = m, dm_conf = cf1\<rparr>"
proof -
  let ?s1 = "startServer (newServer (cf_Name cf)) (dv_now dv)"
  note c = startDaemon_created(1)[OF assms(1)] and s = startDaemon_created(2)[OF assms(1)]
  note t = create_told[OF c assms(3,4)]
  obtain k where cf1: "cf1 = cf\<lparr>cf_Keyring := k\<rparr>"
    by (rule createList_config[OF c])
  have out: "ml_out empty_memberlist = []"
    by (simp add: empty_memberlist_def)
  have ok: "server_ok ?s1"
    by (rule server_ok_start[OF assms(5)])
  have "live m \<subseteq> dom (members s)"
    using heard.follow_known[of dv ?s1 "ml_out m" "{}" "live m"] assms(2) ok t
    by (simp add: s pump_def out member_events_def follow_events)
  then show ?thesis
    using t pump_ok[OF assms(2) ok] assms(4) by (simp add: daemon_ok_def daemon_wf_def s cf1 self_ok_def)
qed

section \<open>Properties\<close>

text \<open>
  C7: from \<open>Start\<close> on, through packets, exchanges, timers, client operations, loads,
  joins, reconnects and a leave, server and memberlist stay well-formed, and the flag clients see, once
  updated, says exactly that every member held for active is live.  As long as the server joins others
  only while no other node is live, it knows every live node as a member, so that a change about one is
  merged and never refused as one about an unknown member.  A join while another node is live, which
  any client may ask for, makes the server forget it: with no hosts to join that is no error, and the
  changes of a node that is live are refused from then on.
\<close>

theorem daemon_consistent:
  assumes "startDaemon host tcp udp socket dv draw cf (newServer (cf_Name cf)) = Done (None, s, Some m, cf1)"
    "dv_ok dv" "cf_Alive cf = None" "cf_Events cf" "NL \<notin> set (cf_Name cf)"
    "run_step\<^sup>*\<^sup>* \<lparr>dm_srv = s, dm_list = m, dm_conf = cf1\<rparr> d"
  shows "server_ok (dm_srv d) \<and> ml_ok (dm_list d) \<and>
    (range_order (members (dm_srv d)) ks \<longrightarrow>
       consistent (dm_srv (refresh ks d)) =
         (\<forall>n st. members (dm_srv d) n = Some st \<and> Active st = 1 \<longrightarrow> n \<in> live (dm_list d))) \<and>
    (calm_step\<^sup>*\<^sup>* \<lparr>dm_srv = s, dm_list = m, dm_conf = cf1\<rparr> d \<longrightarrow>
       live (dm_list d) \<subseteq> dom (members (dm_srv d)) \<and>
       (\<forall>n\<in>live (dm_list d). NL \<notin> set n \<and> NL \<notin> set x \<and> counter_ok c \<longrightarrow>
          replica_counter (replicas (notifyMsg (dm_srv d) (change_bytes n x c))) n x =
            Some (merge_counter (replica_counter (replicas (dm_srv d)) n x) c))) \<and>
    (\<forall>n parse lookup env dv peers err d'.
       n \<in> live (dm_list d) \<and> n \<noteq> cfgName (dm_srv d) \<and> NL \<notin> set n \<and>
       joinDaemon parse lookup env dv peers [] d = Done (err, d') \<longrightarrow>
         err = None \<and> n \<in> live (dm_list d') \<and> notifyMsg (dm_srv d') (change_bytes n x c) = dm_srv d')"
proof -
  let ?d = "\<lparr>dm_srv = s, dm_list = m, dm_conf = cf1\<rparr>"
  note start = startDaemon_ok[OF assms(1-5)]
  have "daemon_wf d"
    using assms(6) start by (induction rule: rtranclp_induct) (auto simp: daemon_ok_def dest: daemon_wf_step)
  then have w: "server_ok (dm_srv d)" "ml_ok (dm_list d)"
    by (simp_all add: daemon_wf_def)
  have known: "live (dm_list d) \<subseteq> dom (members (dm_srv d))" if "calm_step\<^sup>*\<^sup>* ?d d"
  proof -
    have "daemon_ok d"
      using that start by (induction rule: rtranclp_induct) (auto dest: daemon_ok_step)
    then show ?thesis
      by (simp add: daemon_ok_def)
  qed
  have "replica_counter (replicas (notifyMsg (dm_srv d) (change_bytes n x c))) n x =
         Some (merge_counter (replica_counter (replicas (dm_srv d)) n x) c)"
    if "n \<in> dom (members (dm_srv d))" "NL \<notin> set n" "NL \<notin> set x" "counter_ok c" for n
    by (simp add: notifyMsg_change[OF that(2-4,1)])
  moreover have "consistent (dm_srv (refresh ks d)) =
      (\<forall>n st. members (dm_srv d) n = Some st \<and> Active st = 1 \<longrightarrow> n \<in> live (dm_list d))"
    if "range_order (members (dm_srv d)) ks"
    unfolding live_members[OF w(2)] using consistent_iff[OF that] by (auto simp: refresh_def image_iff)
  ultimately show ?thesis
    using w known join_forgets by blast
qed

text \<open>A server that runs alone, and a gob decoder that takes nothing.\<close>

definition dv_a :: delivery where
  "dv_a = \<lparr>dv_now = 5, dv_gob = (\<lambda>_. []), dv_orders = (\<lambda>_. ([], [], \<lambda>_. []))\<rparr>"

lemma dv_ok_a: "dv_ok dv_a"
  by (simp add: dv_ok_def dv_a_def merge_orders_def)

theorem daemon_consistent_witness:
  "\<exists>s m cf1. startDaemon host_a None None None dv_a 0 (defaultLANConfig ''a''\<lparr>cf_Events := True, cf_Delegate := True\<rparr>)
       (newServer ''a'') = Done (None, s, Some m, cf1) \<and> ''a'' \<in> dom (members s)"
proof -
  let ?cf = "defaultLANConfig ''a''\<lparr>cf_Events := True, cf_Delegate := True\<rparr>"
  let ?s = "startServer (newServer ''a'') (dv_now dv_a)"
  have cf: "cf_Alive ?cf = None" "cf_Events ?cf" "cf_Name ?cf = ''a''"
    by (simp_all add: defaultLANConfig_def)
  have "he_meta (served ?s host_a) = [0]"
    by (rule served_meta) (simp add: startServer_def newServer_def)
  then have "served ?s host_a = host_a\<lparr>he_meta := [0]\<rparr>"
    by (simp add: served_def)
  then obtain m where m: "createList (served ?s host_a) None None ?cf 0 5 = Done (Inr m, ?cf)"
    using create_lan[where host = "served ?s host_a" and mta = "[0]" and e = True and g = True, OF refl] by (auto simp: metaMaxSize_def)
  then have st: "startDaemon host_a None None None dv_a 0 ?cf (newServer (cf_Name ?cf)) =
      Done (None, pump dv_a empty_memberlist m ?s, Some m, ?cf)"
    unfolding startDaemon_def Let_def cf(3) by (simp add: dv_a_def)
  have "NL \<notin> set (cf_Name ?cf)"
    unfolding cf(3) by simp
  from daemon_consistent[OF st dv_ok_a cf(1,2) this rtranclp.rtrancl_refl]
  have "server_ok (pump dv_a empty_memberlist m ?s)"
    by simp
  moreover have "cfgName (pump dv_a empty_memberlist m ?s) = ''a''"
    using pump_ok[OF dv_ok_a server_ok_start, of "''a''"] by (simp add: keeps_members_def startServer_def newServer_def)
  ultimately show ?thesis
    using st unfolding cf(3) by (fastforce simp: server_ok_def)
qed

section \<open>Leaving and going missing\<close>

lemma broadcast_out:
  obtains fin where "ml_out (encodeBroadcastNotify nd t x k m) = ml_out m @ map mb_Finished fin"
  by (auto simp: encodeBroadcastNotify_def ml_queueBroadcast_def emit_def split_beta)

lemma notify_finished: "foldl (notify dv) s (map mb_Finished fin) = s"
  by (induction fin) (simp_all add: mb_Finished_def)

lemma out_assign: "ml_out (assign p st m) = ml_out m"
  by (simp add: assign_def)

text \<open>News about another node that is live: only its data change, and the server is not told.\<close>

lemma alive_told:
  assumes "ml_ok m" "look m (al_Node a) = Some st" "State st \<noteq> stateDead" "al_Node a \<noteq> cf_Name cf" "cf_Alive cf = None"
    "al_Addr a = Addr st" "al_Port a = Port st" "length (al_Vsn a) = 6" "Incarnation st < al_Incarnation a"
  obtains m' where "aliveNode cf draw now a k False m = Done m'" "ml_ok m'"
    "look m' = (look m)(al_Node a \<mapsto> set_alive now a st)" "\<exists>es. ml_out m' = ml_out m @ es \<and> foldl (notify dv) s es = s"
proof -
  obtain p where p: "ml_nodeMap m (al_Node a) = Some p" "deref m p = st"
    using assms(2) by (auto simp: look_def)
  have name: "Name st = al_Node a"
    using ml_okD(2)[OF assms(1) p(1)] p(2) by simp
  let ?m1 = "encodeBroadcastNotify (al_Node a) aliveMsg (alive_struct a) k m"
  let ?m2 = "assign p (set_alive now a st) ?m1"
  have m1: "ml_ok ?m1" "ml_nodeMap ?m1 (al_Node a) = Some p"
    using assms(1) p(1) by (auto simp: frame)
  let ?m = "events cf (State st) (Meta st) p ?m2"
  have "aliveNode cf draw now a k False m = Done ?m"
    using assms(4-9) p name leD by (auto simp: aliveNode_def ask_alive_def alive_known_def Let_def)
  moreover have "Name (set_alive now a st) = al_Node a"
    by (simp add: name)
  then have "ml_ok ?m2"
    by (rule ml_ok_assign[OF m1])
  then have "ml_ok ?m"
    by (auto simp: events_def frame)
  moreover have "look ?m = (look m)(al_Node a \<mapsto> set_alive now a st)"
    by (simp add: frame look_assign[OF m1])
  moreover have "\<exists>es. ml_out ?m = ml_out m @ es \<and> foldl (notify dv) s es = s"
  proof -
    obtain fin where fin: "ml_out ?m1 = ml_out m @ map mb_Finished fin"
      by (rule broadcast_out)
    show ?thesis
      using assms(3) by (auto simp: events_def emit_def out_assign fin notify_finished)
  qed
  ultimately show ?thesis
    by (rule that)
qed

lemma dead_told:
  assumes "ml_ok m" "look m n = Some st" "State st \<noteq> stateDead" "n \<noteq> cf_Name cf" "cf_Events cf"
    "Meta st = [b]" "Incarnation st \<le> i"
  obtains m' nd where "deadNode cf now \<lparr>de_Incarnation = i, de_Node = n, de_From = f\<rparr> m = Done m'"
    "look m' = (look m)(n \<mapsto> st\<lparr>Incarnation := i, State := stateDead, StateChange := now\<rparr>)"
    "Name nd = n" "node_addr nd = node_addr (node_of st)" "Meta nd = [b]"
    "\<exists>es. ml_out m' = ml_out m @ es \<and> foldl (notify dv) s es = notifyLeave s (dv_now dv) nd"
proof -
  let ?d = "\<lparr>de_Incarnation = i, de_Node = n, de_From = f\<rparr>"
  obtain p where p: "ml_nodeMap m n = Some p" "deref m p = st"
    using assms(2) by (auto simp: look_def)
  have name: "Name st = n"
    using ml_okD(2)[OF assms(1) p(1)] p(2) by simp
  let ?st' = "st\<lparr>Incarnation := i, State := stateDead, StateChange := now\<rparr>"
  let ?m1 = "encodeBroadcastNotify n deadMsg (dead_struct ?d) None m"
  have m1: "ml_ok ?m1" "ml_nodeMap ?m1 n = Some p"
    using assms(1) p(1) by (auto simp: frame)
  let ?m = "emit [EvLeave (node_of ?st')] (assign p ?st' ?m1)"
  have "deadNode cf now ?d m = Done ?m"
    using assms(3-5,7) p name leD by (auto simp: deadNode_def Let_def encodeAndBroadcast_def)
  moreover have "look ?m = (look m)(n \<mapsto> ?st')"
    by (simp only: frame look_assign[OF m1])
  moreover have "Name (node_of ?st') = n" "node_addr (node_of ?st') = node_addr (node_of st)" "Meta (node_of ?st') = [b]"
    using name assms(6) by (simp_all add: node_of_def node_addr_def)
  moreover have "\<exists>es. ml_out ?m = ml_out m @ es \<and> foldl (notify dv) s es = notifyLeave s (dv_now dv) (node_of ?st')"
  proof -
    obtain fin where fin: "ml_out ?m1 = ml_out m @ map mb_Finished fin"
      by (rule broadcast_out)
    show ?thesis
      by (simp add: emit_def out_assign fin notify_finished)
  qed
  ultimately show ?thesis
    by (rule that)
qed

text \<open>
  C12: a server announces in its meta data whether it is leaving.  A peer that knows it as live
  and hears its announcement and then of its death, from itself or from a third party, marks it as
  inactive and drops its address from those to reconnect if it was leaving; if it was not, it stays as
  it was among the members, and its address is put on the list of those the reconnect loop tries.
\<close>

theorem stop_seen:
  assumes "ml_ok m" "look m n = Some st" "State st \<noteq> stateDead" "n \<noteq> cf_Name cf" "cf_Events cf" "cf_Alive cf = None"
    "a = \<lparr>al_Incarnation = i, al_Node = n, al_Addr = Addr st, al_Port = Port st,
       al_Meta = he_meta (served q host), al_Vsn = v\<rparr>" "length v = 6" "Incarnation st < i" "i \<le> j"
  shows "Leaving (srv_meta (stopServer q)) = 1 \<and>
    (\<exists>m1 m2. aliveNode cf draw now a None False m = Done m1 \<and>
       deadNode cf now' \<lparr>de_Incarnation = j, de_Node = n, de_From = f\<rparr> m1 = Done m2 \<and>
       n \<in> live m1 \<and> n \<notin> live m2 \<and>
       members (pump dv m m2 s) n =
         (if Leaving (srv_meta q) = 0 then members s n else Some \<lparr>Active = 0, When = dv_now dv\<rparr>) \<and>
       (node_addr (node_of st) \<in> reconnects (pump dv m m2 s) \<longleftrightarrow> Leaving (srv_meta q) = 0))"
proof -
  have meta: "he_meta (served q host) = [Leaving (srv_meta q)]"
    by (rule served_meta) simp
  obtain m1 where m1: "aliveNode cf draw now a None False m = Done m1" "ml_ok m1"
      "look m1 = (look m)(n \<mapsto> set_alive now a st)" "\<exists>es. ml_out m1 = ml_out m @ es \<and> foldl (notify dv) s es = s"
    using alive_told[of m a st cf draw now None dv s] assms by auto
  let ?st = "set_alive now a st"
  have st: "State ?st \<noteq> stateDead" "Meta ?st = [Leaving (srv_meta q)]" "Incarnation ?st \<le> j"
    "node_addr (node_of ?st) = node_addr (node_of st)"
    using assms(10) by (simp_all add: assms(7) meta node_of_def node_addr_def)
  obtain m2 nd where m2: "deadNode cf now' \<lparr>de_Incarnation = j, de_Node = n, de_From = f\<rparr> m1 = Done m2"
      "look m2 = (look m1)(n \<mapsto> ?st\<lparr>Incarnation := j, State := stateDead, StateChange := now'\<rparr>)"
      "Name nd = n" "node_addr nd = node_addr (node_of ?st)" "Meta nd = [Leaving (srv_meta q)]"
      "\<exists>es. ml_out m2 = ml_out m1 @ es \<and> foldl (notify dv) s es = notifyLeave s (dv_now dv) nd"
    by (rule dead_told[OF m1(2) _ st(1) assms(4,5) st(2,3)]) (simp_all add: m1(3))
  have "pump dv m m2 s = notifyLeave s (dv_now dv) nd"
    using m1(4) m2(6) by (auto simp: pump_def)
  moreover have "meta_decode (Meta nd) = Inr \<lparr>Leaving = Leaving (srv_meta q)\<rparr>"
    by (simp add: m2(5) meta_decode_def read_full_def)
  moreover have "n \<in> live m1" "n \<notin> live m2"
    using st(1) by (simp_all add: live_def m1(3) m2(2))
  ultimately show ?thesis
    using m1(1) m2(1) by (intro conjI exI[of _ m1] exI[of _ m2])
      (auto simp: notifyLeave_def m2(3,4) st(4) stopServer_def)
qed

theorem stop_seen_witness:
  "\<exists>m1 m2. aliveNode (cfg_a\<lparr>cf_Events := True\<rparr>) 0 6 \<lparr>al_Incarnation = 4, al_Node = ''b'', al_Addr = [127, 0, 0, 1],
       al_Port = 7946, al_Meta = [1], al_Vsn = [1, 3, 2, 0, 0, 0]\<rparr> None False ml_a = Done m1 \<and>
     deadNode (cfg_a\<lparr>cf_Events := True\<rparr>) 7 \<lparr>de_Incarnation = 4, de_Node = ''b'', de_From = []\<rparr> m1 = Done m2 \<and>
     members (pump dv_a ml_a m2 srv_a) ''b'' = Some \<lparr>Active = 0, When = 5\<rparr>"
proof -
  let ?q = "stopServer srv_b"
  have q: "Leaving (srv_meta ?q) = 1" "he_meta (served ?q host_a) = [1]"
    by (simp_all add: stopServer_def served_meta)
  show ?thesis
    using stop_seen[OF ml_ok_a look_a(2), of "cfg_a\<lparr>cf_Events := True\<rparr>" _ 4 ?q host_a "[1, 3, 2, 0, 0, 0]" 4 0 6 7 "[]" dv_a srv_a]
    by (auto simp: q dv_a_def)
qed

section \<open>The server's gossip\<close>

text \<open>
  What a source of gossip owes to memberlist, which asks for messages of so many bytes, each with an
  overhead.
\<close>

locale gossip_source =
  fixes get :: "int \<Rightarrow> int \<Rightarrow> 's \<Rightarrow> 's \<times> bytes list" and ready :: "'s \<Rightarrow> bool"
  assumes get_within: "ready s \<Longrightarrow> get overhead limit s = (s', msgs) \<Longrightarrow>
    msgs = [] \<or> sum_list (map (\<lambda>x. int (length x) + overhead) msgs) \<le> limit"
begin

lemma honest:
  assumes "\<And>k overhead limit. \<exists>s s'. ready s \<and> get overhead limit s = (s', ne_user env k overhead limit)"
  shows "honest_user env"
  unfolding honest_user_def Let_def
proof (intro allI)
  fix k overhead limit
  obtain s s' where "ready s" "get overhead limit s = (s', ne_user env k overhead limit)"
    using assms by blast
  then show "ne_user env k overhead limit = [] \<or>
      sum_list (map (\<lambda>x. int (length x) + overhead) (ne_user env k overhead limit)) \<le> limit"
    by (rule get_within)
qed

end

interpretation polled: gossip_source "getBroadcastsS srt n" "\<lambda>_. go_sort srt" for srt n
proof
  fix s s' :: server and overhead limit msgs
  assume srt: "go_sort srt" and get: "getBroadcastsS srt n overhead limit s = (s', msgs)"
  obtain q fin where "getBroadcasts Message srt 4 n overhead limit (changes s) = (q, msgs, fin)"
    using get by (auto simp: getBroadcastsS_def split: prod.splits)
  then show "msgs = [] \<or> sum_list (map (\<lambda>x. int (length x) + overhead) msgs) \<le> limit"
    by (rule getBroadcasts_within[OF srt])
qed

text \<open>
  C31: a message of memberlist that takes the server's gossip along, whatever state the
  server is in at each poll, makes packets at most two bytes longer than \<open>udpSendBuf\<close>, encrypted or
  not, compressed or not.
\<close>

theorem gossip_packets:
  assumes "go_sort (ne_sort env)" "go_sort srt" "aead (ne_seal env) opn" "\<forall>k. length (ne_nonce env k) = 12"
    "\<And>k overhead limit. \<exists>s s'. getBroadcastsS srt n overhead limit s = (s', ne_user env k overhead limit)"
    "int (length msg) \<le> bytes_avail cf" "sendMsg env cf to msg m = (err, m')"
    "SendUDP to' wire \<in> set (drop (length (ml_out m)) (ml_out m'))"
  shows "int (length wire) \<le> udpSendBuf + 2"
proof -
  have "honest_user env"
    using assms(2,5) by (intro polled.honest) blast
  from packet_size[OF assms(1) this assms(3,4,6-8)] show ?thesis .
qed

definition srv_busy :: server where
  "srv_busy = broadcastChange srv_a ''x'' (cnt 5 0 0)"

definition env_busy :: netenv where
  "env_busy = env_a\<lparr>ne_user := (\<lambda>_ overhead limit. snd (getBroadcastsS by_transmits 2 overhead limit srv_busy))\<rparr>"

lemma busy_sends:
  "\<exists>err wire m1. sendMsg env_busy cfg_a to msg m = (err, emit [SendUDP to wire] m1) \<and> (\<exists>q. ml_out m1 = ml_out m @ q)"
proof -
  obtain extra m1 where g: "ml_getBroadcasts env_busy cfg_a compoundOverhead (bytes_avail cfg_a - int (length msg)) m = (extra, m1)"
    by (rule prod.exhaust)
  have "\<exists>q. ml_out m1 = ml_out m @ q"
    using g unfolding ml_getBroadcasts_def by (auto simp: Let_def emit_def split: prod.splits if_splits)
  moreover have "\<exists>err. rawSendMsgUDP env_busy cfg_a to x m1 = (err, emit [SendUDP to x] m1)" for x
    by (simp add: rawSendMsgUDP_def compressPayload_def Let_def env_busy_def env_a_def)
  moreover have "\<exists>x. sendMsg env_busy cfg_a to msg m = rawSendMsgUDP env_busy cfg_a to x m1"
    by (simp add: sendMsg_def g del: length_0_conv) metis
  ultimately show ?thesis
    by metis
qed

theorem gossip_packets_witness:
  "\<exists>err m' wire. sendMsg env_busy cfg_a ([127, 0, 0, 1], 7946) [userMsg, 1] ml_a = (err, m') \<and>
     SendUDP ([127, 0, 0, 1], 7946) wire \<in> set (drop (length (ml_out ml_a)) (ml_out m')) \<and>
     int (length wire) \<le> udpSendBuf + 2"
proof -
  let ?to = "([127, 0, 0, 1], 7946)"
  obtain err wire m1 q where s: "sendMsg env_busy cfg_a ?to [userMsg, 1] ml_a = (err, emit [SendUDP ?to wire] m1)"
      and q: "ml_out m1 = ml_out ml_a @ q"
    using busy_sends by blast
  have new: "SendUDP ?to wire \<in> set (drop (length (ml_out ml_a)) (ml_out (emit [SendUDP ?to wire] m1)))"
    by (simp add: emit_def q)
  have e: "go_sort (ne_sort env_busy)" "aead (ne_seal env_busy) toy_open" "\<forall>k. length (ne_nonce env_busy k) = 12"
    "\<exists>s s'. getBroadcastsS by_transmits 2 overhead limit s = (s', ne_user env_busy k overhead limit)" for k overhead limit
    using aead_toy by (simp_all add: env_busy_def env_a_def go_sort_by_transmits sample_nonce_def)
      (metis prod.collapse)
  have "int (length [userMsg, 1]) \<le> bytes_avail cfg_a"
    by (simp add: bytes_avail_def net_consts)
  from gossip_packets[OF e(1) go_sort_by_transmits e(2,3) e(4) this s new] show ?thesis
    using s new by blast
qed

section \<open>Reconnecting\<close>

lemma dec_chars: "list_all is_digit (dec k)"
  using dec_digits[of k] by (auto simp: list_all_iff)

lemma dotted_chars: "c \<in> set (dotted bs) \<Longrightarrow> is_digit c \<or> c = CHR ''.''"
  using set_join_with[of "''.''" "map (\<lambda>b. dec (unat b)) bs"] dec_chars
  by (fastforce simp: dotted_def list_all_iff)

lemma port_text: "parse_uint16 (dec (unat (p :: u16))) = Inr (unat p)"
proof -
  have "unat p < 65536"
    using unsigned_less[of p, where ?'a = nat] by simp
  then have "\<not> 65535 < unat p"
    by linarith
  then show ?thesis
    using dec_chars[of "unat p"] by (simp add: parse_uint16_def)
qed

lemma groups16_length: "length (groups16 bs) = length bs div 2"
  by (induction bs rule: groups16.induct) auto

text \<open>The characters of addresses: digits, lower case hexadecimal digits, dots and colons.\<close>

definition ip_char :: "char \<Rightarrow> bool" where
  "ip_char c \<longleftrightarrow> (let n = of_char c :: nat in n = 46 \<or> (48 \<le> n \<and> n \<le> 58) \<or> (97 \<le> n \<and> n \<le> 102))"

lemma hex_chars: "c \<in> set (hex k) \<Longrightarrow> ip_char c"
proof (induction k rule: hex.induct)
  case (1 n)
  have d: "ip_char (hex_char m)" if "m < 16" for m
    using that by (simp add: hex_char_def take_bit_nat_eq_self ip_char_def Let_def)
  show ?case
  proof (cases "n < 16")
    case True
    then show ?thesis
      using 1(2) d by (simp add: hex.simps[of n])
  next
    case False
    then have "c \<in> set (hex (n div 16)) \<or> c = hex_char (n mod 16)"
      using 1(2) by (auto simp: hex.simps[of n])
    then show ?thesis
      using 1(1)[OF False] d[of "n mod 16"] by fastforce
  qed
qed

lemma dotted_ip: "c \<in> set (dotted bs) \<Longrightarrow> ip_char c"
  using dotted_chars[of c bs] by (auto simp: ip_char_def is_digit_def Let_def)

lemma ipv6_ip: "c \<in> set (ipv6 bs) \<Longrightarrow> ip_char c"
proof -
  have h: "ip_char c" if "c \<in> set (join_with '':'' (map hex gs))" for gs c
    using that set_join_with[of "'':''" "map hex gs"] hex_chars by (fastforce simp: ip_char_def)
  obtain s n where sn: "longest_run (groups16 bs) = (s, n)"
    by (rule prod.exhaust)
  show "c \<in> set (ipv6 bs) \<Longrightarrow> ip_char c"
    using h by (auto simp: ipv6_def sn Let_def ip_char_def[of "CHR '':''"] split: if_splits)
qed

lemma join_sep: "2 \<le> length xs \<Longrightarrow> set sep \<subseteq> set (join_with sep xs)"
  by (cases xs; cases "tl xs") auto

lemma ipv6_chars:
  assumes "length bs = 16"
  shows "CHR '':'' \<in> set (ipv6 bs)" "CHR ''['' \<notin> set (ipv6 bs)"
proof -
  let ?gs = "groups16 bs"
  have l: "2 \<le> length (map hex ?gs)"
    using assms by (simp add: groups16_length)
  obtain s n where sn: "longest_run ?gs = (s, n)"
    by (rule prod.exhaust)
  show "CHR '':'' \<in> set (ipv6 bs)"
    using join_sep[OF l, of "'':''"] by (simp add: ipv6_def sn Let_def)
  show "CHR ''['' \<notin> set (ipv6 bs)"
    using ipv6_ip[of "CHR ''[''" bs] by (auto simp: ip_char_def)
qed

lemma ip_string_chars:
  assumes "length ip = 4 \<or> length ip = 16"
  shows "ip_string ip \<noteq> []" "c \<in> set (ip_string ip) \<Longrightarrow> ip_char c"
proof -
  have dots: "2 \<le> length bs \<Longrightarrow> dotted bs \<noteq> []" for bs
    using join_sep[of "map (\<lambda>b. dec (unat b)) bs" "''.''"] by (auto simp: dotted_def)
  show "ip_string ip \<noteq> []"
    using assms dots[of ip] dots[of "drop 12 ip"] ipv6_chars(1)[of ip]
    by (auto simp: ip_string_def to4_def split: option.splits)
  show "c \<in> set (ip_string ip) \<Longrightarrow> ip_char c"
    using assms dotted_ip ipv6_ip by (auto simp: ip_string_def to4_def split: option.splits if_splits)
qed

text \<open>
  C19: the address under which a missing node is kept leads back to it when it is an
  IPv4 address, of 4 or of 16 bytes: it is resolved to what \<open>net.ParseIP\<close> makes of the dotted form (in
  whichever of the two forms) and to the node's port.  An IPv6 address has no brackets, is refused as
  one with too many colons, and a round of the reconnect loop with it does nothing but wait: such a
  node is never reconnected.
\<close>

theorem reconnect_address:
  shows "(to4 (Addr n) = Some q \<and> parse (dotted q) = Some p \<and> to4 p = Some q \<longrightarrow>
      resolveAddr parse lookup cf (node_addr n) = Inr ([p], Port n) \<and>
      to4 p = to4 (Addr n) \<and> ip_string p = ip_string (Addr n)) \<and>
    (length (Addr n) = 16 \<and> to4 (Addr n) = None \<longrightarrow>
      resolveAddr parse lookup cf (node_addr n) = Inl (ErrMsg (too_many_colons @ '' '' @ node_addr n)) \<and>
      reconnect parse lookup env dv peers [node_addr n] d = Done (12 * second, d))"
proof (intro conjI impI; elim conjE)
  note port = digits_plain[OF dec_chars, of "unat (Port n)"]
  assume v4: "to4 (Addr n) = Some q" "parse (dotted q) = Some p" "to4 p = Some q"
  have ne: "Addr n \<noteq> []" "p \<noteq> []"
    using v4(1,3) by (auto simp: to4_def)
  show "to4 p = to4 (Addr n)" "ip_string p = ip_string (Addr n)"
    using v4(1,3) ne by (simp_all add: ip_string_def)
  have "CHR '':'' \<notin> set (dotted q)" "CHR ''['' \<notin> set (dotted q)" "CHR '']'' \<notin> set (dotted q)"
    using dotted_chars[of _ q] by (force simp: is_digit_def)+
  then have "net_split (node_addr n) = Inr (dotted q, dec (unat (Port n)))"
    using net_split_plain[of "dotted q" "dec (unat (Port n))"] port v4(1) ne
    by (auto simp: node_addr_def ip_string_def)
  then show "resolveAddr parse lookup cf (node_addr n) = Inr ([p], Port n)"
    using v4(2) by (simp add: resolveAddr_def port_text)
next
  assume v6: "length (Addr n) = 16" "to4 (Addr n) = None"
  have t: "node_addr n = ipv6 (Addr n) @ CHR '':'' # dec (unat (Port n))"
    using v6 by (auto simp: node_addr_def ip_string_def)
  have i: "last_index (CHR '':'') (node_addr n) = Some (length (ipv6 (Addr n)))"
    unfolding t by (rule last_index_Some[OF digits_plain(1)[OF dec_chars]])
  have ne: "ipv6 (Addr n) \<noteq> []"
    using ipv6_chars(1)[OF v6(1)] by auto
  have h: "hd (node_addr n) \<noteq> CHR ''[''"
  proof (rule notI)
    assume "hd (node_addr n) = CHR ''[''"
    then have "hd (ipv6 (Addr n)) = CHR ''[''"
      using ne by (simp add: t)
    then show False
      using hd_in_set[OF ne] ipv6_chars(2)[OF v6(1)] by (simp only:)
  qed
  have "net_split (node_addr n) = Inl (too_many_colons, node_addr n)"
    unfolding net_split_def i using h ipv6_chars(1)[OF v6(1)] by (simp add: t)
  moreover have "missing_port \<noteq> too_many_colons"
    by (simp add: missing_port_def too_many_colons_def)
  ultimately show r: "resolveAddr parse lookup cf (node_addr n) = Inl (ErrMsg (too_many_colons @ '' '' @ node_addr n))" for cf
    by (simp add: resolveAddr_def addr_error_def t)
  show "reconnect parse lookup env dv peers [node_addr n] d = Done (12 * second, d)"
    by (simp add: reconnect_def joinList_def r pump_def second_def)
qed

theorem reconnect_address_witness:
  "resolveAddr (\<lambda>_. Some [0, 0, 0, 0, 0, 0, 0, 0, 0, 0, 255, 255, 127, 0, 0, 1]) (\<lambda>_. Inl EOF) cfg_a (node_addr (plain_node ''b'')) =
     Inr ([[0, 0, 0, 0, 0, 0, 0, 0, 0, 0, 255, 255, 127, 0, 0, 1]], 9373) \<and>
   reconnect (\<lambda>_. None) (\<lambda>_. Inl EOF) env_a dv_a (\<lambda>_ _. (None, [], EOF))
     [node_addr ((plain_node ''b'')\<lparr>Addr := [32, 1, 13, 184, 0, 0, 0, 0, 0, 0, 0, 0, 0, 0, 0, 1]\<rparr>)]
     \<lparr>dm_srv = srv_a, dm_list = ml_a, dm_conf = cfg_a\<rparr> =
   Done (12 * second, \<lparr>dm_srv = srv_a, dm_list = ml_a, dm_conf = cfg_a\<rparr>)"
proof -
  let ?n = "(plain_node ''b'')\<lparr>Addr := [32, 1, 13, 184, 0, 0, 0, 0, 0, 0, 0, 0, 0, 0, 0, 1]\<rparr>"
  let ?p = "[0, 0, 0, 0, 0, 0, 0, 0, 0, 0, 255, 255, 127, 0, 0, 1] :: bytes"
  have "length (Addr ?n) = 16" "to4 (Addr ?n) = None"
    by (simp_all add: to4_def)
  moreover have "to4 (Addr (plain_node ''b'')) = Some [127, 0, 0, 1]" "Port (plain_node ''b'') = 9373"
    by (simp_all add: plain_node_def to4_def)
  moreover have "to4 ?p = Some [127, 0, 0, 1]"
    by (simp add: to4_def numeral_eq_Suc)
  ultimately show ?thesis
    using reconnect_address[of "plain_node ''b''" "[127, 0, 0, 1]" "\<lambda>_. Some ?p" ?p "\<lambda>_. Inl EOF" cfg_a]
      reconnect_address[of ?n _ "\<lambda>_. None" _ "\<lambda>_. Inl EOF" _ env_a dv_a "\<lambda>_ _. (None, [], EOF)"
        "\<lparr>dm_srv = srv_a, dm_list = ml_a, dm_conf = cfg_a\<rparr>"] by simp
qed

end
