(* ===== verification/Proto.thy ===== *)
theory Proto
  imports GoStrings
begin

text \<open>
  The client protocol (\<open>proto/proto.go\<close>): one line per command or reply, words separated by
  spaces, and \<open>ERR\<close> lines that turn into errors.  Also the server's lists of errors
  (\<open>server/errors.go\<close>), which travel on such lines.
\<close>

section \<open>Reading and writing\<close>

text \<open>
  \<open>fin\<close> is how the connection ends: the error that the reader reports once the bytes are used up.
  The result is a command with its arguments or an error, and the bytes not yet read.
\<close>

definition proto_read :: "goerr \<Rightarrow> bytes \<Rightarrow> (string \<times> string list) result \<times> bytes" where
  "proto_read fin bs =
     (case read_string newline bs of
        Inl _ \<Rightarrow> (Inl fin, [])
      | Inr (n, r) \<Rightarrow>
          (let s = bytes_str (butlast n)
           in if has_prefix ''ERR '' s then (Inl (ErrMsg (errorf (drop 4 s))), r)
              else let ca = split_on (CHR '' '') s in (Inr (hd ca, tl ca), r)))"

definition proto_write :: "string \<Rightarrow> string list \<Rightarrow> bytes" where
  "proto_write cmd args = str_bytes (join_with '' '' (cmd # args) @ [NL])"

definition proto_error :: "goerr \<Rightarrow> bytes" where
  "proto_error e = proto_write ''ERR'' [err_text e]"

section \<open>Lists of errors\<close>

text \<open>An entry may be \<open>nil\<close>, that is \<open>None\<close>; only the others count.\<close>

definition errors_Len :: "goerr option list \<Rightarrow> nat" where
  "errors_Len errs = fold (\<lambda>e n. if e \<noteq> None then n + 1 else n) errs 0"

definition first_error :: "goerr option list \<Rightarrow> goerr option" where
  "first_error errs = (case filter (\<lambda>e. e \<noteq> None) errs of [] \<Rightarrow> None | e # _ \<Rightarrow> e)"

definition errors_Error :: "goerr option list \<Rightarrow> string" where
  "errors_Error errs =
     (let n = errors_Len errs
      in if n = 0 then []
         else if n = 1 then (case first_error errs of None \<Rightarrow> [] | Some e \<Rightarrow> err_text e)
         else fold (\<lambda>e msg. case e of None \<Rightarrow> msg | Some e \<Rightarrow> msg @ NL # err_text e) errs
                (dec n @ '' errors:''))"

definition errors_Merge :: "goerr option list \<Rightarrow> goerr option" where
  "errors_Merge errs =
     (let n = errors_Len errs
      in if n = 0 then None
         else if n = 1 then first_error errs
         else Some (ErrMsg (errors_Error errs)))"

section \<open>Lines\<close>

lemma proto_read_line:
  assumes "NL \<notin> set s"
  shows "proto_read fin (str_bytes (s @ [NL]) @ r) =
    (if has_prefix ''ERR '' s then (Inl (ErrMsg (errorf (drop 4 s))), r)
     else (Inr (hd (split_on (CHR '' '') s), tl (split_on (CHR '' '') s)), r))"
proof -
  have "read_string newline (str_bytes s @ newline # r) = Inr (str_bytes s @ [newline], r)"
    using assms by (intro read_string_append) simp
  moreover have "str_bytes (s @ [NL]) @ r = str_bytes s @ newline # r"
    by (simp add: str_bytes_def byte_of_NL)
  ultimately show ?thesis
    by (simp add: proto_read_def Let_def)
qed

lemma has_prefix_err:
  assumes "CHR '' '' \<notin> set cmd"
  shows "has_prefix ''ERR '' (join_with '' '' (cmd # args)) \<longleftrightarrow> cmd = ''ERR'' \<and> args \<noteq> []"
proof (cases args)
  case Nil
  have "CHR '' '' \<notin> set (take 4 cmd)"
    using assms by (meson in_set_takeD)
  then have "take 4 cmd \<noteq> ''ERR ''"
    by auto
  then show ?thesis
    unfolding has_prefix_def by (simp add: Nil numeral_eq_Suc)
next
  case (Cons a as)
  let ?s = "cmd @ '' '' @ join_with '' '' args"
  have tw: "takeWhile (\<lambda>c. c \<noteq> CHR '' '') ?s = cmd"
    using assms by (subst takeWhile_append2) auto
  have "cmd = ''ERR''" if "take 4 ?s = ''ERR ''"
  proof -
    have "takeWhile (\<lambda>c. c \<noteq> CHR '' '') (''ERR '' @ drop 4 ?s) = ''ERR''"
      by simp
    then show ?thesis
      using tw that append_take_drop_id[of 4 ?s] by metis
  qed
  then have "take 4 ?s = ''ERR '' \<longleftrightarrow> cmd = ''ERR''"
    by auto
  moreover have j: "join_with '' '' (cmd # args) = ?s" "length ''ERR '' = 4"
    using Cons by simp_all
  ultimately show ?thesis
    unfolding has_prefix_def j using Cons by blast
qed

lemma join_clean:
  "\<forall>x\<in>set xs. NL \<notin> set x \<Longrightarrow> NL \<notin> set (join_with '' '' xs)"
  using set_join_with[of "'' ''" xs] by fastforce

section \<open>Properties\<close>

text \<open>
  What \<open>Read\<close> makes of a written line: the command, and as arguments the words of
  the arguments written.  Arguments without spaces arrive as they are; one with spaces arrives in
  pieces.  Nothing of the bytes that follow the line is consumed.
\<close>

theorem proto_words:
  assumes "CHR '' '' \<notin> set cmd" "NL \<notin> set cmd" "\<forall>a\<in>set args. NL \<notin> set a" "cmd \<noteq> ''ERR''"
  shows "proto_read fin (proto_write cmd args @ r) =
      (Inr (cmd, concat (map (split_on (CHR '' '')) args)), r) \<and>
    ((\<forall>a\<in>set args. CHR '' '' \<notin> set a) \<longrightarrow> proto_read fin (proto_write cmd args @ r) = (Inr (cmd, args), r))"
proof -
  have nl: "NL \<notin> set (join_with '' '' (cmd # args))"
    using assms(2,3) by (intro join_clean) auto
  have "split_on (CHR '' '') (join_with '' '' (cmd # args)) = cmd # concat (map (split_on (CHR '' '')) args)"
    using split_on_join[of "cmd # args" "CHR '' ''"] split_on_one[OF assms(1)] by simp
  then have "proto_read fin (proto_write cmd args @ r) = (Inr (cmd, concat (map (split_on (CHR '' '')) args)), r)"
    unfolding proto_write_def proto_read_line[OF nl] has_prefix_err[OF assms(1)] using assms(4) by simp
  moreover have "concat (map (split_on (CHR '' '')) args) = args" if "\<forall>a\<in>set args. CHR '' '' \<notin> set a"
    using that by (induction args) (simp_all add: split_on_one)
  ultimately show ?thesis
    by simp
qed

theorem proto_words_witness:
  "proto_read EOF (proto_write ''INC'' [''hits'', ''2.5''] @ proto_write ''PING'' []) =
     (Inr (''INC'', [''hits'', ''2.5'']), proto_write ''PING'' []) \<and>
   proto_read EOF (proto_write ''RET'' [''a b'']) = (Inr (''RET'', [''a'', ''b'']), [])"
  using proto_words[of "''INC''" "[''hits'', ''2.5'']" EOF "proto_write ''PING'' []"]
    proto_words[of "''RET''" "[''a b'']" EOF "[]"] by simp

text \<open>
  An error of one line whose text has no percent sign arrives as an error with
  the same text.
\<close>

theorem proto_error_text:
  assumes "NL \<notin> set (err_text e)" "CHR ''%'' \<notin> set (err_text e)"
  shows "proto_read fin (proto_error e @ r) = (Inl (ErrMsg (err_text e)), r)"
proof -
  have nl: "NL \<notin> set (join_with '' '' [''ERR'', err_text e])"
    using assms(1) by simp
  show ?thesis
    unfolding proto_error_def proto_write_def proto_read_line[OF nl]
    using assms(2) by (simp add: has_prefix_def errorf_plain)
qed

theorem proto_error_text_witness:
  "proto_read EOF (proto_error (ErrMsg ''RET expected'')) = (Inl (ErrMsg ''RET expected''), [])"
  using proto_error_text[of "ErrMsg ''RET expected''" EOF "[]"] by simp

lemma errors_Len_eq: "errors_Len errs = length (filter (\<lambda>e. e \<noteq> None) errs)"
proof -
  have "fold (\<lambda>e n. if e \<noteq> None then n + 1 else n) errs k = k + length (filter (\<lambda>e. e \<noteq> None) errs)" for k
    by (induction errs arbitrary: k) auto
  then show ?thesis
    by (simp add: errors_Len_def)
qed

lemma errors_fold:
  "fold (\<lambda>e msg. case e of None \<Rightarrow> msg | Some e \<Rightarrow> msg @ NL # err_text e) errs m =
   m @ concat (map (\<lambda>e. case e of None \<Rightarrow> [] | Some e \<Rightarrow> NL # err_text e) errs)"
  by (induction errs arbitrary: m) (auto split: option.splits)

lemma concat_errors:
  "errors_Len errs > 0 \<Longrightarrow>
   \<exists>t. concat (map (\<lambda>e. case e of None \<Rightarrow> [] | Some e \<Rightarrow> NL # err_text e) errs) = NL # t"
  by (induction errs) (auto simp: errors_Len_eq split: option.splits)

lemma dec_clean: "NL \<notin> set (dec n)" "CHR ''%'' \<notin> set (dec n)" "CHR '' '' \<notin> set (dec n)"
  using dec_digits[of n] by (auto simp: is_digit_def)

text \<open>
  The text of two or more errors has line breaks, so the line that a
  client reads ends after the count, and the remaining lines are left for the client to take as the
  reply to its next command.
\<close>

theorem merged_errors_desync:
  assumes "2 \<le> errors_Len errs" "errors_Merge errs = Some e"
  shows "\<exists>t. proto_read fin (proto_error e) =
    (Inl (ErrMsg (dec (errors_Len errs) @ '' errors:'')), str_bytes (t @ [NL]))"
proof -
  obtain t where t: "concat (map (\<lambda>e. case e of None \<Rightarrow> [] | Some e \<Rightarrow> NL # err_text e) errs) = NL # t"
    using concat_errors[of errs] assms(1) by auto
  have e: "err_text e = (dec (errors_Len errs) @ '' errors:'') @ NL # t"
    using assms by (auto simp: errors_Merge_def errors_Error_def Let_def errors_fold t)
  let ?l = "''ERR '' @ dec (errors_Len errs) @ '' errors:''"
  have nl: "NL \<notin> set ?l" "CHR ''%'' \<notin> set (dec (errors_Len errs) @ '' errors:'')"
    using dec_clean by auto
  have "proto_error e = str_bytes (?l @ [NL]) @ str_bytes (t @ [NL])"
    by (simp add: proto_error_def proto_write_def e del: str_bytes_append flip: str_bytes_append)
  then show ?thesis
    using proto_read_line[OF nl(1), of fin "str_bytes (t @ [NL])"] errorf_plain[OF nl(2)]
    by (auto simp: has_prefix_def)
qed

theorem merged_errors_desync_witness:
  "\<exists>t. proto_read EOF (proto_error (ErrMsg (errors_Error [Some EOF, None, Some UnexpectedEOF]))) =
    (Inl (ErrMsg (dec (errors_Len [Some EOF, None, Some UnexpectedEOF]) @ '' errors:'')), str_bytes (t @ [NL]))"
  by (rule merged_errors_desync) (simp_all add: errors_Merge_def errors_Len_def)

end
