(* ===== verification/Handle.thy ===== *)
theory Handle
  imports Replication Proto
begin

text \<open>
  The client side of the server: \<open>handle\<close> of \<open>server/api.go\<close>, which reads commands from one
  connection until it ends and answers each.
\<close>

section \<open>The world around one command\<close>

text \<open>
  \<open>e_before\<close>: what other goroutines did to the server since the last command of this connection;
  \<open>e_nodes\<close>: \<open>memberlist.Members()\<close>; \<open>e_send\<close>: how each \<open>SendToTCP\<close> ends; \<open>e_ms\<close>, \<open>e_ns\<close>, \<open>e_order\<close>:
  the orders of the map loops of \<open>get\<close>, \<open>list\<close> and of the reply to \<open>LIST\<close>; \<open>e_joined\<close>: the error of
  \<open>memberlist.Join\<close>; \<open>e_saved\<close>, \<open>e_members\<close>: what \<open>json.Marshal\<close> makes of the replicas and of
  the members; \<open>e_write_ok\<close>: does the reply get through.
\<close>

record env =
  e_before :: "server \<Rightarrow> server"
  e_now :: int
  e_nodes :: "node list"
  e_send :: "node \<Rightarrow> bytes \<Rightarrow> goerr option"
  e_ms :: "string list"
  e_ns :: "string \<Rightarrow> string list"
  e_order :: "string list"
  e_joined :: "string list \<Rightarrow> goerr option"
  e_saved :: "replica_map \<Rightarrow> string result"
  e_members :: "(string \<times> bytes) list \<Rightarrow> string result"
  e_write_ok :: bool

section \<open>One command\<close>

definition replied :: "server \<Rightarrow> string result \<Rightarrow> (server \<times> bytes) outcome" where
  "replied s r = Returns (s, case r of Inl e \<Rightarrow> proto_error e | Inr d \<Rightarrow> proto_write ''RET'' [d])"

definition handle_get :: "env \<Rightarrow> server \<Rightarrow> string list \<Rightarrow> (server \<times> bytes) outcome" where
  "handle_get e s args =
     (if length args < 1 then Returns (s, proto_error (ErrMsg ''GET requires exactly one argument''))
      else
        let (amount, cons) = getCounter s (e_ms e) (args ! 0)
        in Returns (s, proto_write ''RET'' [format_float amount, format_bool cons]))"

definition handle_inc :: "env \<Rightarrow> server \<Rightarrow> string list \<Rightarrow> (server \<times> bytes) outcome" where
  "handle_inc e s args =
     (if length args < 2 then Returns (s, proto_error (ErrMsg ''INC requires exactly two arguments''))
      else if args ! 0 = [] then Returns (s, proto_error (ErrMsg (''Invalid counter name '' @ quote [])))
      else case parse_float (args ! 1) of
        Inl err \<Rightarrow> Returns (s, proto_error err)
      | Inr diff \<Rightarrow>
          (case incCounter s (args ! 0) diff of
             Panics \<Rightarrow> Panics
           | Returns (s', amount) \<Rightarrow> Returns (s', proto_write ''RET'' [format_float amount])))"

definition handle_set :: "env \<Rightarrow> server \<Rightarrow> string list \<Rightarrow> (server \<times> bytes) outcome" where
  "handle_set e s args =
     (if length args < 2 then Returns (s, proto_error (ErrMsg ''SET requires exactly two argument''))
      else if args ! 0 = [] then Returns (s, proto_error (ErrMsg (''Invalid counter name '' @ quote [])))
      else case parse_float (args ! 1) of
        Inl err \<Rightarrow> Returns (s, proto_error err)
      | Inr value \<Rightarrow>
          (case setCounter s (args ! 0) value (e_send e) (e_nodes e) of
             Panics \<Rightarrow> Panics
           | Returns (s', amount, errs) \<Rightarrow>
               if errors_Len errs > 0
               then (case errors_Merge errs of None \<Rightarrow> Panics | Some err \<Rightarrow> Returns (s', proto_error err))
               else Returns (s', proto_write ''RET'' [format_float amount])))"

definition handle_list :: "env \<Rightarrow> server \<Rightarrow> bytes" where
  "handle_list e s =
     (let l = listCounters s (e_ms e) (e_ns e)
      in proto_write ''RET'' (concat (map (\<lambda>n. case l n of None \<Rightarrow> [] | Some v \<Rightarrow> [n, format_float v])
           (e_order e))))"

definition handle_cmd :: "env \<Rightarrow> server \<Rightarrow> string \<Rightarrow> string list \<Rightarrow> (server \<times> bytes) outcome" where
  "handle_cmd e s cmd args =
     (if cmd = ''PING'' then Returns (s, proto_write ''PONG'' [])
      else if cmd = ''GET'' then handle_get e s args
      else if cmd = ''INC'' then handle_inc e s args
      else if cmd = ''SET'' then handle_set e s args
      else if cmd = ''LIST'' then Returns (s, handle_list e s)
      else if cmd = ''JOIN'' then
        Returns (joinCluster s (e_now e),
          case e_joined e args of Some err \<Rightarrow> proto_error err | None \<Rightarrow> proto_write ''OK'' [])
      else if cmd = ''SAVE'' then replied s (e_saved e (replicas s))
      else if cmd = ''MEMBERS'' then replied s (e_members e (map (\<lambda>nd. (Name nd, Addr nd)) (e_nodes e)))
      else Returns (s, proto_error (ErrMsg (''unknown command '' @ cmd))))"

section \<open>The loop\<close>

text \<open>
  How serving a connection ends: without a word (end of the stream or a reset), or by a panic, which is
  recovered and logged: with the error of reading a command, with that of writing a reply, or out of
  the command itself.  The connection is closed either way.
\<close>

datatype ending = Quiet | ReadFailed goerr | WriteFailed | CommandPanicked

lemma proto_read_shorter: "proto_read fin bs = (Inr ca, r) \<Longrightarrow> length r < length bs"
  by (auto simp: proto_read_def Let_def split: sum.splits prod.splits if_splits dest!: read_string_Inr)

function handle :: "(nat \<Rightarrow> env) \<Rightarrow> nat \<Rightarrow> goerr \<Rightarrow> server \<Rightarrow> bytes \<Rightarrow> server \<times> bytes \<times> ending" where
  "handle envs k fin s bs =
     (case proto_read fin bs of
        (Inl err, _) \<Rightarrow> (s, [], if err = EOF \<or> err = ConnReset then Quiet else ReadFailed err)
      | (Inr (cmd, args), r) \<Rightarrow>
          (let e = envs k; s0 = e_before e s
           in case handle_cmd e s0 cmd args of
                Panics \<Rightarrow> (s0, [], CommandPanicked)
              | Returns (s1, out) \<Rightarrow>
                  if e_write_ok e
                  then (let (s2, outs, ending) = handle envs (Suc k) fin s1 r in (s2, out @ outs, ending))
                  else (s1, [], WriteFailed)))"
  by pat_completeness auto
termination
  by (relation "measure (\<lambda>(_, _, _, _, bs). length bs)") (auto dest!: sym[THEN proto_read_shorter] intro: proto_read_shorter)

declare handle.simps [simp del]

section \<open>No client can break the server\<close>

lemma round_dec_ok: "m = round_dec d e \<Longrightarrow> m < f_lim \<Longrightarrow> f64_rep m"
  using f64_ok_mk_rnd[of False "d * 10 ^ nat e * f_one" 1]
    f64_ok_mk_rnd[of False "d * f_one" "10 ^ nat (- e)"]
  by (auto simp: round_dec_def f_mk_def split: if_splits)

lemma special_float_ok: "special_float s = Some f \<Longrightarrow> f64_ok f"
  by (auto simp: special_float_def Let_def split: if_splits)

lemma parse_float_ok: "parse_float s = Inr f \<Longrightarrow> f64_ok f"
  by (auto simp: parse_float_def Let_def special_float_ok not_le intro: round_dec_ok
      split: option.splits prod.splits if_splits)

lemma errors_Merge_None: "errors_Merge errs = None \<longleftrightarrow> errors_Len errs = 0"
proof -
  have "first_error errs \<noteq> None" if "errors_Len errs = 1"
  proof -
    have "filter (\<lambda>e. e \<noteq> None) errs \<noteq> []"
      using that by (auto simp: errors_Len_eq)
    then obtain e es where f: "filter (\<lambda>e. e \<noteq> None) errs = e # es"
      by (meson neq_Nil_conv)
    then have "e \<in> set (filter (\<lambda>e. e \<noteq> None) errs)"
      by simp
    then have "e \<noteq> None"
      by auto
    with f show ?thesis
      by (simp add: first_error_def)
  qed
  then show ?thesis
    by (auto simp: errors_Merge_def Let_def)
qed

definition arg_ok :: "string \<Rightarrow> bool" where
  "arg_ok a \<longleftrightarrow> NL \<notin> set a \<and> CHR '' '' \<notin> set a"

lemma proto_read_args:
  assumes "proto_read fin bs = (Inr (cmd, args), r)" "a \<in> set args"
  shows "arg_ok a"
proof -
  obtain n where n: "read_string newline bs = Inr (n, r)"
    and ca: "tl (split_on (CHR '' '') (bytes_str (butlast n))) = args"
    using assms(1) by (auto simp: proto_read_def Let_def split: sum.splits if_splits)
  have "a \<in> set (split_on (CHR '' '') (bytes_str (butlast n)))"
    using assms(2) ca by (metis list.set_sel(2) split_on_nonempty)
  then show ?thesis
    using split_on_parts[of a] read_string_clean[OF n] by (auto simp: arg_ok_def)
qed

lemma handle_inc_reachable:
  assumes "reachable name s" "server_ok s" "\<forall>a\<in>set args. arg_ok a"
  shows "\<exists>s' out. handle_inc e s args = Returns (s', out) \<and> reachable name s'"
proof (cases "length args < 2 \<or> args ! 0 = []")
  case False
  then have "args ! 0 \<in> set args"
    by (intro nth_mem) linarith
  then have n: "counter_name (args ! 0)"
    using False assms(3) by (auto simp: counter_name_def arg_ok_def)
  show ?thesis
  proof (cases "parse_float (args ! 1)")
    case (Inr d)
    have "incCounter s (args ! 0) d = Returns (put_own s (args ! 0) (bump d (own_value s (args ! 0))),
        Up (bump d (own_value s (args ! 0))) - Down (bump d (own_value s (args ! 0))))"
      by (rule incCounter_eq[OF assms(2)])
    moreover from step_inc[OF n parse_float_ok[OF Inr] this] have "reachable name (put_own s (args ! 0) (bump d (own_value s (args ! 0))))"
      using assms(1) reach_step by blast
    ultimately show ?thesis
      using False Inr by (simp add: handle_inc_def)
  qed (use False assms(1) in \<open>simp add: handle_inc_def\<close>)
qed (use assms(1) in \<open>auto simp: handle_inc_def\<close>)

lemma handle_set_reachable:
  assumes "reachable name s" "server_ok s" "\<forall>a\<in>set args. arg_ok a"
  shows "\<exists>s' out. handle_set e s args = Returns (s', out) \<and> reachable name s'"
proof (cases "length args < 2 \<or> args ! 0 = []")
  case False
  then have "args ! 0 \<in> set args"
    by (intro nth_mem) linarith
  then have n: "counter_name (args ! 0)"
    using False assms(3) by (auto simp: counter_name_def arg_ok_def)
  show ?thesis
  proof (cases "parse_float (args ! 1)")
    case (Inr d)
    have "\<exists>s' old. setLocal s (args ! 0) d = Returns (s', old)"
      by (simp add: setLocal_eq[OF assms(2)] Let_def split: option.split)
    then obtain s' old where l: "setLocal s (args ! 0) d = Returns (s', old)"
      by blast
    from step_set[OF n parse_float_ok[OF Inr] this] have r: "reachable name s'"
      using assms(1) reach_step by blast
    have "\<exists>s2 amount errs. setCounter s (args ! 0) d (e_send e) (e_nodes e) = Returns (s2, amount, errs) \<and>
        (s2 = s \<or> s2 = s')"
      using l by (simp add: setCounter_def Let_def)
    then obtain s2 amount errs where "setCounter s (args ! 0) d (e_send e) (e_nodes e) = Returns (s2, amount, errs)"
      "s2 = s \<or> s2 = s'"
      by blast
    then show ?thesis
      using False Inr r assms(1) errors_Merge_None[of errs]
      by (auto simp: handle_set_def split: option.splits)
  qed (use False assms(1) in \<open>simp add: handle_set_def\<close>)
qed (use assms(1) in \<open>auto simp: handle_set_def\<close>)

lemma handle_cmd_reachable:
  assumes "reachable name s" "NL \<notin> set name" "\<forall>a\<in>set args. arg_ok a"
  shows "\<exists>s' out. handle_cmd e s cmd args = Returns (s', out) \<and> reachable name s'"
proof -
  have ok: "server_ok s"
    by (rule server_ok_reachable[OF assms(1,2)])
  have "reachable name (joinCluster s (e_now e))"
    using assms(1) reach_restart restart_join by blast
  note r = this assms(1)
  let ?good = "\<lambda>x. \<exists>s' out. x = Returns (s', out) \<and> reachable name s'"
  have i: "?good (if b then x else y)" if "?good x" "?good y" for b and x y :: "(server \<times> bytes) outcome"
    using that by simp
  have ret: "?good (Returns (s, out))" "?good (Returns (joinCluster s (e_now e), out))" "?good (replied s d)"
    "?good (handle_get e s args)" for out d
    using r by (auto simp: replied_def handle_get_def split: prod.split)
  show ?thesis
    unfolding handle_cmd_def
    by (intro i ret handle_inc_reachable[OF assms(1) ok assms(3)] handle_set_reachable[OF assms(1) ok assms(3)])
qed

lemma str_bytes_of_bytes [simp]: "str_bytes (bytes_str b) = b"
  by (simp add: str_bytes_def bytes_str_def byte_of_char_of_byte map_idI)

lemma proto_read_Inl:
  assumes "proto_read fin bs = (Inl err, r)"
  shows "err = fin \<or> (\<exists>text post. err = ErrMsg (errorf text) \<and> bs = str_bytes (''ERR '' @ text @ [NL]) @ post)"
proof (cases "read_string newline bs")
  case (Inr p)
  then obtain n where n: "read_string newline bs = Inr (n, r)" "has_prefix ''ERR '' (bytes_str (butlast n))"
    and e: "err = ErrMsg (errorf (drop 4 (bytes_str (butlast n))))"
    using assms by (cases p) (auto simp: proto_read_def Let_def split: if_splits)
  obtain t where t: "n = t @ [newline]" "bs = t @ newline # r"
    using read_string_Inr[OF n(1)] by blast
  have "take 4 (bytes_str t) = ''ERR ''"
    using n(2) by (simp add: has_prefix_def t(1) numeral_eq_Suc)
  then have "bytes_str t = ''ERR '' @ drop 4 (bytes_str t)"
    by (metis append_take_drop_id)
  then have "t = str_bytes ''ERR '' @ str_bytes (drop 4 (bytes_str t))"
    using str_bytes_of_bytes[of t] by (metis str_bytes_append)
  then have "bs = str_bytes (''ERR '' @ drop 4 (bytes_str t) @ [NL]) @ r"
    unfolding t(2) str_bytes_append str_bytes_NL by (metis append.assoc append_Cons append_Nil)
  then show ?thesis
    using e t(1) by auto
qed (use assms in \<open>simp add: proto_read_def\<close>)

text \<open>A line of the input that begins with \<open>ERR\<close> and a space, where \<open>Read\<close> makes an error of it.\<close>

definition err_line_in :: "string \<Rightarrow> bytes \<Rightarrow> bool" where
  "err_line_in text bs \<longleftrightarrow>
     (\<exists>pre post. bs = pre @ str_bytes (''ERR '' @ text @ [NL]) @ post \<and> (pre = [] \<or> last pre = newline))"

lemma proto_read_suffix: "proto_read fin bs = (Inr ca, r) \<Longrightarrow> \<exists>pre. bs = pre @ newline # r"
  by (auto simp: proto_read_def Let_def split: sum.splits prod.splits if_splits dest!: read_string_Inr)

lemma err_line_later:
  assumes "proto_read fin bs = (Inr ca, r)" "err_line_in text r"
  shows "err_line_in text bs"
proof -
  obtain pre where pre: "bs = pre @ newline # r"
    using proto_read_suffix[OF assms(1)] by blast
  obtain p q where r: "r = p @ str_bytes (''ERR '' @ text @ [NL]) @ q" "p = [] \<or> last p = newline"
    using assms(2) unfolding err_line_in_def by blast
  have "bs = (pre @ newline # p) @ str_bytes (''ERR '' @ text @ [NL]) @ q"
    unfolding pre r(1) by simp
  moreover have "last (pre @ newline # p) = newline"
    using r(2) by auto
  ultimately show ?thesis
    unfolding err_line_in_def by blast
qed

lemma handle_end:
  assumes "proto_read fin bs = (Inl err, r)"
  shows "handle envs k fin s bs = (s, [], if err = EOF \<or> err = ConnReset then Quiet else ReadFailed err)"
  by (simp add: handle.simps assms)

lemma handle_command:
  assumes "proto_read fin bs = (Inr (cmd, args), r)"
    "handle_cmd (envs k) (e_before (envs k) s) cmd args = Returns (s1, out)"
  shows "handle envs k fin s bs =
    (if e_write_ok (envs k)
     then let (s2, outs, ending) = handle envs (Suc k) fin s1 r in (s2, out @ outs, ending)
     else (s1, [], WriteFailed))"
  by (subst handle.simps) (simp add: assms)

definition ended_well :: "(nat \<Rightarrow> env) \<Rightarrow> goerr \<Rightarrow> bytes \<Rightarrow> ending \<Rightarrow> bool" where
  "ended_well envs fin bs ending \<longleftrightarrow>
     (case ending of
        Quiet \<Rightarrow> True
      | ReadFailed err \<Rightarrow> err \<noteq> EOF \<and> err \<noteq> ConnReset \<and>
          (err = fin \<or> (\<exists>text. err = ErrMsg (errorf text) \<and> err_line_in text bs))
      | WriteFailed \<Rightarrow> \<exists>k. \<not> e_write_ok (envs k)
      | CommandPanicked \<Rightarrow> False)"

lemma handle_reachable:
  assumes "NL \<notin> set name" "\<And>k s. reachable name s \<Longrightarrow> reachable name (e_before (envs k) s)"
  shows "reachable name s \<Longrightarrow> handle envs k fin s bs = (s', out, ending) \<Longrightarrow>
    reachable name s' \<and> ended_well envs fin bs ending"
proof (induction "length bs" arbitrary: bs k s s' out ending rule: less_induct)
  case less
  obtain res r where pr: "proto_read fin bs = (res, r)"
    by (rule prod.exhaust)
  show ?case
  proof (cases res)
    case (Inl err)
    have "err = fin \<or> (\<exists>text. err = ErrMsg (errorf text) \<and> err_line_in text bs)"
      using proto_read_Inl[OF pr[unfolded Inl]] unfolding err_line_in_def by (metis append_Nil)
    then show ?thesis
      using less.prems handle_end[of fin bs err r envs k s] pr Inl
      by (auto simp: ended_well_def split: if_splits)
  next
    case (Inr ca)
    obtain cmd args where ca: "ca = (cmd, args)"
      by (rule prod.exhaust)
    note pr' = pr[unfolded Inr ca]
    have "\<forall>a\<in>set args. arg_ok a"
      using proto_read_args[OF pr'] by blast
    then obtain s1 o1 where c: "handle_cmd (envs k) (e_before (envs k) s) cmd args = Returns (s1, o1)"
      "reachable name s1"
      using handle_cmd_reachable[OF assms(2)[OF less.prems(1)] assms(1)] by blast
    obtain s2 outs en where h: "handle envs (Suc k) fin s1 r = (s2, outs, en)"
      by (rule prod_cases3)
    have ih: "reachable name s2 \<and> ended_well envs fin r en"
      by (rule less.hyps[OF proto_read_shorter[OF pr'] c(2) h])
    then have "ended_well envs fin bs en"
      using err_line_later[OF pr'] by (auto simp: ended_well_def split: ending.splits)
    then show ?thesis
      using ih c(2) less.prems(2) handle_command[where envs = envs and k = k, OF pr' c(1)] h
      by (auto simp: ended_well_def split: if_splits)
  qed
qed


definition calm :: env where
  "calm = \<lparr>e_before = id, e_now = 0, e_nodes = [plain_node ''a'', plain_node ''b''],
     e_send = (\<lambda>_ _. None), e_ms = [''a'', ''b''], e_ns = (\<lambda>_. [''x'']), e_order = [''x''],
     e_joined = (\<lambda>_. None), e_saved = (\<lambda>_. Inr ''{}''), e_members = (\<lambda>_. Inr ''[]''), e_write_ok = True\<rparr>"

lemma calm_sel [simp]:
  "e_before calm s = s" "e_write_ok calm" "e_send calm = (\<lambda>_ _. None)" "e_ms calm = [''a'', ''b'']"
  "e_ns calm = (\<lambda>_. [''x''])" "e_order calm = [''x'']" "e_nodes calm = [plain_node ''a'', plain_node ''b'']"
  by (simp_all add: calm_def)


section \<open>Commands that change nothing\<close>

text \<open>
  Only \<open>INC\<close>, \<open>SET\<close> and \<open>JOIN\<close> change the server, and an \<open>INC\<close> or \<open>SET\<close>
  with too few arguments, an empty name or something that is not a number changes nothing and is
  answered by an \<open>ERR\<close> line.
\<close>

theorem rejected_commands:
  "(cmd \<notin> {''INC'', ''SET'', ''JOIN''} \<longrightarrow> (\<exists>out. handle_cmd e s cmd args = Returns (s, out))) \<and>
   (cmd \<in> {''INC'', ''SET''} \<and>
      (length args < 2 \<or> args ! 0 = [] \<or> (\<exists>err. parse_float (args ! 1) = Inl err)) \<longrightarrow>
    (\<exists>err. handle_cmd e s cmd args = Returns (s, proto_error err)))"
proof -
  have "\<exists>out. handle_get e s args = Returns (s, out)"
    by (simp add: handle_get_def split: prod.split)
  moreover have "\<exists>out. replied s r = Returns (s, out)" for r
    by (simp add: replied_def)
  moreover have "\<exists>err. handle_inc e s args = Returns (s, proto_error err)"
    "\<exists>err. handle_set e s args = Returns (s, proto_error err)"
    if "length args < 2 \<or> args ! 0 = [] \<or> (\<exists>err. parse_float (args ! 1) = Inl err)"
    using that by (auto simp: handle_inc_def handle_set_def)
  ultimately show ?thesis
    unfolding handle_cmd_def by auto
qed

theorem rejected_commands_witness:
  "(\<exists>out. handle_cmd calm srv_a ''MEMBERS'' [] = Returns (srv_a, out)) \<and>
   (\<exists>err. handle_cmd calm srv_a ''INC'' [''x''] = Returns (srv_a, proto_error err))"
  using rejected_commands[of "''MEMBERS''" calm srv_a "[]"] rejected_commands[of "''INC''" calm srv_a "[''x'']"]
  by simp

section \<open>NaN\<close>

lemma nan_absorbs [simp]: "FNaN + a = FNaN" "a + FNaN = FNaN" "a - FNaN = FNaN" "FNaN - a = FNaN"
  by (cases a; simp add: plus_f64_def minus_f64_def)+

lemma get_fold_nan: "fold (get_step r n) ms FNaN = FNaN"
  by (induction ms) (simp_all add: get_step_def split: option.split)

lemma get_nan:
  assumes "m \<in> set ms" "replica_counter r m n = Some c" "Down c = FNaN"
  shows "fold (get_step r n) ms a = FNaN"
  using assms(1)
proof (induction ms arbitrary: a)
  case (Cons x ms)
  have "get_step r n m a = FNaN"
    using assms(2,3) by (simp add: get_step_def)
  then show ?case
    using Cons get_fold_nan by auto
qed simp

text \<open>
  \<open>INC\<close> takes \<open>nan\<close> for a number.  After it the counter's total is NaN, and every
  further increment returns NaN: the counter does not recover.
\<close>

theorem nan_sticks:
  assumes "server_ok s" "counter_name n" "range_order (replicas s) ms"
  shows "\<exists>s'. handle_cmd e s ''INC'' [n, ''nan''] = Returns (s', proto_write ''RET'' [''NaN'']) \<and>
    fst (getCounter s' ms n) = FNaN \<and>
    (\<forall>d. \<exists>s''. incCounter s' n d = Returns (s'', FNaN))"
proof -
  have p: "parse_float ''nan'' = Inr FNaN"
    by code_simp
  let ?c = "bump FNaN (own_value s n)"
  let ?s = "put_own s n ?c"
  have c: "Down ?c = FNaN"
    by (simp add: bump_def f_less_def)
  have i: "incCounter s n FNaN = Returns (?s, FNaN)"
    using incCounter_eq[OF assms(1), of n FNaN] c by simp
  have "cfgName s \<in> set ms"
    using assms(1,3) by (simp add: server_ok_def range_order_def)
  then have g: "fst (getCounter ?s ms n) = FNaN"
    using get_nan[of "cfgName s" ms "replicas ?s" n ?c] c by (simp add: getCounter_get_step)
  have ok: "server_ok ?s"
    using server_ok_inc[OF assms(1) _ _ i] assms(2) by (simp add: counter_name_def)
  have o': "own_value ?s n = ?c"
    by (simp add: own_value_def)
  have "Down (bump d ?c) = FNaN" for d
    using c by (cases "f_less 0 d") (simp_all add: bump_def[of d])
  then have "incCounter ?s n d = Returns (put_own ?s n (bump d ?c), FNaN)" for d
    using incCounter_eq[OF ok, of n d] by (simp add: o')
  then show ?thesis
    using i g assms(2) by (simp add: handle_cmd_def handle_inc_def p counter_name_def)
qed

theorem nan_sticks_witness:
  "\<exists>s'. handle_cmd calm srv_a ''INC'' [''x'', ''nan''] = Returns (s', proto_write ''RET'' [''NaN'']) \<and>
    fst (getCounter s' [''a'', ''b''] ''x'') = FNaN \<and>
    (\<forall>d. \<exists>s''. incCounter s' ''x'' d = Returns (s'', FNaN))"
  by (rule nan_sticks[OF server_ok_a _ order_a(1)]) (simp add: counter_name_def)

end
