(* ===== verification/Api.thy ===== *)
theory Api
  imports Handle
begin

text \<open>
  The Go client (\<open>api/api.go\<close>).  Every method tries at most twice: it connects if it has no
  connection, writes a command and reads the reply, and drops the connection when either fails.
\<close>

section \<open>Attempts\<close>

text \<open>
  What the network does during one turn of the loop: the error of dialing (if it dials), of
  writing, the bytes that arrive, and the error that reading ends with.  The connection \<open>a.c\<close> is
  the bytes received and not yet read, or \<open>None\<close> for \<open>nil\<close>.
\<close>

record attempt =
  at_dial :: "goerr option"
  at_wr :: "goerr option"
  at_input :: bytes
  at_fin :: goerr

text \<open>
  How a method goes on after a reply: it returns, panics, or (only \<open>Ping\<close>) takes another turn.
\<close>

datatype 'r step = Stop 'r | Crash | Again

text \<open>
  The loop, with \<open>err\<close> the method's outer variable.  The error of reading is bound to an inner
  variable of the same name, so a failed read leaves the outer one as the write set it, \<open>nil\<close>.
  The result is what the method returns, the connection left, and the lines written.
\<close>

fun api_loop ::
  "string \<Rightarrow> string list \<Rightarrow> (string \<Rightarrow> string list \<Rightarrow> 'r step) \<Rightarrow> (goerr option \<Rightarrow> 'r) \<Rightarrow> (goerr \<Rightarrow> 'r) \<Rightarrow>
   attempt list \<Rightarrow> bytes option \<Rightarrow> goerr option \<Rightarrow> ('r \<times> bytes option \<times> bytes list) outcome" where
  "api_loop cmd args k give_up no_dial [] conn err = Returns (give_up err, conn, [])"
| "api_loop cmd args k give_up no_dial (a # as) conn err =
     (case (if conn = None then at_dial a else None) of
        Some e \<Rightarrow> Returns (no_dial e, None, [])
      | None \<Rightarrow>
          (let buf = (case conn of None \<Rightarrow> [] | Some b \<Rightarrow> b); line = proto_write cmd args;
               more = (\<lambda>r. case r of Panics \<Rightarrow> Panics | Returns (v, c, w) \<Rightarrow> Returns (v, c, line # w))
           in case at_wr a of
                Some e \<Rightarrow> api_loop cmd args k give_up no_dial as None (Some e)
              | None \<Rightarrow>
                  (case proto_read (at_fin a) (buf @ at_input a) of
                     (Inl e, _) \<Rightarrow> more (api_loop cmd args k give_up no_dial as None None)
                   | (Inr (c, xs), rest) \<Rightarrow>
                       (case k c xs of
                          Stop r \<Rightarrow> Returns (r, Some rest, [line])
                        | Crash \<Rightarrow> Panics
                        | Again \<Rightarrow> more (api_loop cmd args k give_up no_dial as (Some rest) None)))))"

declare api_loop.simps [simp del]

definition expected :: "string \<Rightarrow> goerr" where
  "expected w = ErrMsg (w @ '' expected'')"

section \<open>The methods\<close>

definition ping_reply :: "string \<Rightarrow> string list \<Rightarrow> goerr option step" where
  "ping_reply cmd args = (if cmd \<noteq> ''PONG'' then Stop (Some (expected ''PONG'')) else Again)"

definition api_Ping :: "attempt list \<Rightarrow> bytes option \<Rightarrow> (goerr option \<times> bytes option \<times> bytes list) outcome" where
  "api_Ping as conn =
     api_loop ''PING'' [] ping_reply (\<lambda>err. err) Some as conn None"

definition get_reply :: "string \<Rightarrow> string list \<Rightarrow> (f64 \<times> bool \<times> goerr option) step" where
  "get_reply cmd args =
     (if cmd \<noteq> ''RET'' then Stop (0, False, Some (expected ''RET''))
      else if length args \<noteq> 2 then Stop (0, False, Some (expected ''2 arguments''))
      else case parse_float (args ! 0) of
        Inl e \<Rightarrow> Stop (0, False, Some e)
      | Inr v \<Rightarrow> (case parse_bool (args ! 1) of
          Inl e \<Rightarrow> Stop (0, False, Some e)
        | Inr c \<Rightarrow> Stop (v, c, None)))"

definition api_Get ::
  "string \<Rightarrow> attempt list \<Rightarrow> bytes option \<Rightarrow> ((f64 \<times> bool \<times> goerr option) \<times> bytes option \<times> bytes list) outcome" where
  "api_Get n as conn =
     api_loop ''GET'' [n] get_reply (\<lambda>err. (0, True, err)) (\<lambda>e. (0, False, Some e)) as conn None"

text \<open>\<open>Inc\<close> and \<open>Set\<close> read the same kind of reply.\<close>

definition one_float :: "string \<Rightarrow> string list \<Rightarrow> (f64 \<times> goerr option) step" where
  "one_float cmd args =
     (if cmd \<noteq> ''RET'' then Stop (0, Some (expected ''RET''))
      else if length args \<noteq> 1 then Stop (0, Some (expected ''1 arguments''))
      else case parse_float (args ! 0) of Inl e \<Rightarrow> Stop (0, Some e) | Inr v \<Rightarrow> Stop (v, None))"

definition api_Inc ::
  "string \<Rightarrow> f64 \<Rightarrow> attempt list \<Rightarrow> bytes option \<Rightarrow> ((f64 \<times> goerr option) \<times> bytes option \<times> bytes list) outcome" where
  "api_Inc n diff as conn =
     api_loop ''INC'' [n, format_float diff] one_float (\<lambda>err. (0, err)) (\<lambda>e. (0, Some e)) as conn None"

definition api_Set ::
  "string \<Rightarrow> f64 \<Rightarrow> attempt list \<Rightarrow> bytes option \<Rightarrow> ((f64 \<times> goerr option) \<times> bytes option \<times> bytes list) outcome" where
  "api_Set n value as conn =
     api_loop ''SET'' [n, format_float value] one_float (\<lambda>err. (0, err)) (\<lambda>e. (0, Some e)) as conn None"

text \<open>\<open>List\<close> walks its arguments in pairs; an odd one is an index out of range.\<close>

fun list_pairs :: "(string \<rightharpoonup> f64) \<Rightarrow> string list \<Rightarrow> ((string \<rightharpoonup> f64) option \<times> goerr option) step" where
  "list_pairs l [] = Stop (Some l, None)"
| "list_pairs l [x] = Crash"
| "list_pairs l (n # x # xs) =
     (case parse_float x of
        Inl e \<Rightarrow> Stop (None, Some e)
      | Inr v \<Rightarrow> list_pairs (l(n \<mapsto> v)) xs)"

definition list_reply :: "string \<Rightarrow> string list \<Rightarrow> ((string \<rightharpoonup> f64) option \<times> goerr option) step" where
  "list_reply cmd args =
     (if cmd \<noteq> ''RET'' then Stop (None, Some (expected ''RET'')) else list_pairs Map.empty args)"

definition api_List ::
  "attempt list \<Rightarrow> bytes option \<Rightarrow> (((string \<rightharpoonup> f64) option \<times> goerr option) \<times> bytes option \<times> bytes list) outcome" where
  "api_List as conn =
     api_loop ''LIST'' [] list_reply (\<lambda>err. (None, err)) (\<lambda>e. (None, Some e)) as conn None"

definition api_Join ::
  "string list \<Rightarrow> attempt list \<Rightarrow> bytes option \<Rightarrow> (goerr option \<times> bytes option \<times> bytes list) outcome" where
  "api_Join hosts as conn =
     api_loop ''JOIN'' hosts
       (\<lambda>cmd args. if cmd \<noteq> ''OK'' then Stop (Some (expected ''OK'')) else Stop None)
       (\<lambda>err. err) Some as conn None"

definition api_Save ::
  "attempt list \<Rightarrow> bytes option \<Rightarrow> ((string \<times> goerr option) \<times> bytes option \<times> bytes list) outcome" where
  "api_Save as conn =
     api_loop ''SAVE'' []
       (\<lambda>cmd args.
          if cmd \<noteq> ''RET'' then Stop ([], Some (expected ''RET''))
          else case args of [] \<Rightarrow> Crash | d # _ \<Rightarrow> Stop (d, None))
       (\<lambda>err. ([], err)) (\<lambda>e. ([], Some e)) as conn None"

text \<open>\<open>unmarshal\<close> is \<open>json.Unmarshal\<close> into a list of members.\<close>

definition api_Members ::
  "(string \<Rightarrow> 'm list result) \<Rightarrow> attempt list \<Rightarrow> bytes option \<Rightarrow>
   (('m list option \<times> goerr option) \<times> bytes option \<times> bytes list) outcome" where
  "api_Members unmarshal as conn =
     api_loop ''MEMBERS'' []
       (\<lambda>cmd args.
          if cmd \<noteq> ''RET'' then Stop (None, Some (expected ''RET''))
          else case args of
            [] \<Rightarrow> Crash
          | d # _ \<Rightarrow> (case unmarshal d of Inl e \<Rightarrow> Stop (None, Some e) | Inr m \<Rightarrow> Stop (Some m, None)))
       (\<lambda>err. (None, err)) (\<lambda>e. (None, Some e)) as conn None"

definition api_Close :: "goerr option \<Rightarrow> bytes option \<Rightarrow> goerr option \<times> bytes option" where
  "api_Close close_err conn = (if conn \<noteq> None then close_err else None, None)"

text \<open>\<open>New\<close> makes a client without a connection; \<open>Dial\<close> pings first.\<close>

definition api_New :: "bytes option" where
  "api_New = None"

definition api_Dial :: "attempt list \<Rightarrow> (bytes option result) outcome" where
  "api_Dial as =
     (case api_Ping as api_New of
        Panics \<Rightarrow> Panics
      | Returns (Some e, _, _) \<Rightarrow> Returns (Inl e)
      | Returns (None, conn, _) \<Rightarrow> Returns (Inr conn))"

section \<open>The words of a reply\<close>

lemma digits_arg_ok: "\<forall>c\<in>set s. is_digit c \<Longrightarrow> arg_ok s"
  by (auto simp: arg_ok_def is_digit_def)

lemma arg_ok_append: "arg_ok (s @ t) \<longleftrightarrow> arg_ok s \<and> arg_ok t"
  by (auto simp: arg_ok_def)

lemma arg_ok_Cons: "arg_ok (c # s) \<longleftrightarrow> c \<noteq> NL \<and> c \<noteq> CHR '' '' \<and> arg_ok s"
  by (auto simp: arg_ok_def)

lemma arg_ok_Nil [simp]: "arg_ok []"
  by (simp add: arg_ok_def)

lemma arg_ok_float [simp]: "arg_ok (format_float f)"
proof (cases f)
  case (FFin s m)
  obtain ip fp where "format_dec (shortest m) = ip @ (if fp = [] then [] else CHR ''.'' # fp)"
    "\<forall>d\<in>set ip. is_digit d" "\<forall>d\<in>set fp. is_digit d"
    by (rule format_dec_shape[of "shortest m"])
  then show ?thesis
    using digits_arg_ok[of ip] digits_arg_ok[of fp] by (simp add: FFin arg_ok_append arg_ok_Cons)
qed (auto simp: arg_ok_Cons)

lemma arg_ok_bool [simp]: "arg_ok (format_bool b)"
  by (simp add: format_bool_def arg_ok_Cons)

lemma read_words:
  assumes "arg_ok cmd" "cmd \<noteq> ''ERR''" "\<forall>a\<in>set args. arg_ok a"
  shows "proto_read fin (proto_write cmd args) = (Inr (cmd, args), [])"
proof -
  have nl: "NL \<notin> set (join_with '' '' (cmd # args))"
    using assms by (intro join_clean) (auto simp: arg_ok_def)
  have "CHR '' '' \<notin> set cmd" "\<forall>x\<in>set (cmd # args). CHR '' '' \<notin> set x"
    using assms(1,3) by (auto simp: arg_ok_def)
  then show ?thesis
    using proto_read_line[OF nl, of fin "[]"] has_prefix_err[of cmd args] assms(2)
      split_on_join_clean[of "cmd # args" "CHR '' ''"]
    by (simp add: proto_write_def)
qed

section \<open>One request, one reply\<close>

lemma handle_one:
  assumes "proto_read fin req = (Inr (cmd, args), [])" "handle_cmd (envs 0) s cmd args = Returns (s1, out)"
    "e_write_ok (envs 0)" "e_before (envs 0) s = s"
    and "handle envs 0 fin s req = (s', reply, ending)"
  shows "s' = s1 \<and> reply = out"
proof -
  have e: "handle envs (Suc 0) fin s1 [] = (s1, [], if fin = EOF \<or> fin = ConnReset then Quiet else ReadFailed fin)"
    by (rule handle_end[where r = "[]"]) (simp add: proto_read_def)
  show ?thesis
    using handle_command[OF assms(1), where envs = envs and k = 0 and s = s] assms(2-5) e by simp
qed

definition connected :: "attempt \<Rightarrow> bytes option \<Rightarrow> bool" where
  "connected a conn \<longleftrightarrow> at_wr a = None \<and> (conn = Some [] \<or> (conn = None \<and> at_dial a = None))"

lemma api_loop_one:
  assumes "connected a conn" "proto_read (at_fin a) (at_input a) = (Inr (c, xs), [])" "k c xs = Stop r"
  shows "api_loop cmd args k g nd (a # as) conn err = Returns (r, Some [], [proto_write cmd args])"
  using assms by (auto simp: connected_def api_loop.simps)

lemma counter_name_arg: "counter_name n \<Longrightarrow> arg_ok n \<and> n \<noteq> []"
  by (simp add: counter_name_def arg_ok_def)

lemma own_value_ok: "server_ok s \<Longrightarrow> counter_ok (own_value s n)"
  by (auto simp: own_value_def server_ok_def intro: counters_okD split: option.split)

lemma getCounter_ok:
  assumes "server_ok s"
  shows "f64_ok (fst (getCounter s ms n))"
proof -
  have "f64_ok (fold (get_step (replicas s) n) ms a)" if "f64_ok a" for a
    using that
  proof (induction ms arbitrary: a)
    case (Cons m ms)
    have "f64_ok (get_step (replicas s) n m a)"
      using Cons.prems assms counters_okD[of "replicas s" m n]
      by (auto simp: get_step_def server_ok_def counter_ok_def split: option.split)
    then show ?case
      using Cons.IH by simp
  qed simp
  then show ?thesis
    by (simp add: getCounter_get_step)
qed

section \<open>Client and server together\<close>

text \<open>
  An increment through the client.  The bytes the client writes make the server do
  exactly \<open>inc\<close> with the double the caller passed, and the caller gets the double that \<open>inc\<close>
  returned, without an error.
\<close>

theorem client_inc:
  assumes "server_ok s" "counter_name n" "f64_ok d" "e_write_ok (envs 0)" "e_before (envs 0) s = s"
    and "handle envs 0 fin s (proto_write ''INC'' [n, format_float d]) = (s', reply, ending)"
    and "connected a conn" "at_input a = reply"
  shows "\<exists>y. incCounter s n d = Returns (s', y) \<and>
    api_Inc n d (a # as) conn = Returns ((y, None), Some [], [proto_write ''INC'' [n, format_float d]])"
proof -
  let ?c = "bump d (own_value s n)"
  have i: "incCounter s n d = Returns (put_own s n ?c, Up ?c - Down ?c)"
    by (rule incCounter_eq[OF assms(1)])
  have y: "f64_ok (Up ?c - Down ?c)"
    using own_value_ok[OF assms(1), of n] assms(3) by (simp add: bump_def counter_ok_def)
  have req: "proto_read fin (proto_write ''INC'' [n, format_float d]) = (Inr (''INC'', [n, format_float d]), [])"
    using counter_name_arg[OF assms(2)] by (intro read_words) (auto simp: arg_ok_Cons)
  have h: "handle_cmd (envs 0) s ''INC'' [n, format_float d] =
      Returns (put_own s n ?c, proto_write ''RET'' [format_float (Up ?c - Down ?c)])"
    using counter_name_arg[OF assms(2)] i
    by (simp add: handle_cmd_def handle_inc_def parse_format_float[OF assms(3)])
  have r: "s' = put_own s n ?c" "reply = proto_write ''RET'' [format_float (Up ?c - Down ?c)]"
    using handle_one[OF req h assms(4,5,6)] by simp_all
  have "proto_read (at_fin a) (at_input a) = (Inr (''RET'', [format_float (Up ?c - Down ?c)]), [])"
    unfolding assms(8) r(2) by (rule read_words) (auto simp: arg_ok_Cons)
  then have "api_Inc n d (a # as) conn =
      Returns ((Up ?c - Down ?c, None), Some [], [proto_write ''INC'' [n, format_float d]])"
    unfolding api_Inc_def
    by (rule api_loop_one[OF assms(7)]) (simp add: one_float_def parse_format_float[OF y])
  then show ?thesis
    using i r(1) by simp
qed

text \<open>
  A get through the client returns the double and the flag that \<open>get\<close> computed on
  the server, and leaves the server as it was.
\<close>

theorem client_get:
  assumes "server_ok s" "arg_ok n" "e_write_ok (envs 0)" "e_before (envs 0) s = s"
    and "handle envs 0 fin s (proto_write ''GET'' [n]) = (s', reply, ending)"
    and "connected a conn" "at_input a = reply"
  shows "s' = s \<and> api_Get n (a # as) conn =
    Returns ((fst (getCounter s (e_ms (envs 0)) n), consistent s, None), Some [], [proto_write ''GET'' [n]])"
proof -
  let ?v = "fst (getCounter s (e_ms (envs 0)) n)"
  have req: "proto_read fin (proto_write ''GET'' [n]) = (Inr (''GET'', [n]), [])"
    using assms(2) by (intro read_words) (auto simp: arg_ok_Cons)
  have h: "handle_cmd (envs 0) s ''GET'' [n] =
      Returns (s, proto_write ''RET'' [format_float ?v, format_bool (consistent s)])"
    by (simp add: handle_cmd_def handle_get_def getCounter_def)
  have r: "s' = s" "reply = proto_write ''RET'' [format_float ?v, format_bool (consistent s)]"
    using handle_one[OF req h assms(3,4,5)] by simp_all
  have "proto_read (at_fin a) (at_input a) = (Inr (''RET'', [format_float ?v, format_bool (consistent s)]), [])"
    unfolding assms(7) r(2) by (rule read_words) (auto simp: arg_ok_Cons)
  then have "api_Get n (a # as) conn = Returns ((?v, consistent s, None), Some [], [proto_write ''GET'' [n]])"
    unfolding api_Get_def
    by (rule api_loop_one[OF assms(6)])
      (simp add: get_reply_def parse_format_float[OF getCounter_ok[OF assms(1)]] parse_format_bool)
  with r(1) show ?thesis
    by simp
qed

text \<open>
  A set through the client, with every transfer of a reset going well, changes the
  server as \<open>set\<close> does and returns the old value of the server's own share.
\<close>

theorem client_set:
  assumes "server_ok s" "counter_name n" "f64_ok d" "e_write_ok (envs 0)" "e_before (envs 0) s = s"
    and "e_send (envs 0) = (\<lambda>_ _. None)"
    and "handle envs 0 fin s (proto_write ''SET'' [n, format_float d]) = (s', reply, ending)"
    and "connected a conn" "at_input a = reply"
  shows "\<exists>old. setCounter s n d (\<lambda>_ _. None) (e_nodes (envs 0)) = Returns (s', old, [None]) \<and>
    api_Set n d (a # as) conn = Returns ((old, None), Some [], [proto_write ''SET'' [n, format_float d]])"
proof -
  have "\<exists>s1 old. setLocal s n d = Returns (s1, old) \<and> f64_ok old"
    using own_value_ok[OF assms(1), of n]
    by (simp add: setLocal_eq[OF assms(1)] own_value_def Let_def counter_ok_def split: option.splits)
  then obtain s1 old where l: "setLocal s n d = Returns (s1, old)" and old: "f64_ok old"
    by blast
  have c: "setCounter s n d (\<lambda>_ _. None) (e_nodes (envs 0)) = Returns (s1, old, [None])"
    unfolding setCounter_def send_resets_ok l by simp
  have req: "proto_read fin (proto_write ''SET'' [n, format_float d]) = (Inr (''SET'', [n, format_float d]), [])"
    using counter_name_arg[OF assms(2)] by (intro read_words) (auto simp: arg_ok_Cons)
  have h: "handle_cmd (envs 0) s ''SET'' [n, format_float d] = Returns (s1, proto_write ''RET'' [format_float old])"
    using counter_name_arg[OF assms(2)] c assms(6)
    by (simp add: handle_cmd_def handle_set_def parse_format_float[OF assms(3)] errors_Len_def)
  have r: "s' = s1" "reply = proto_write ''RET'' [format_float old]"
    using handle_one[OF req h assms(4,5,7)] by simp_all
  have "proto_read (at_fin a) (at_input a) = (Inr (''RET'', [format_float old]), [])"
    unfolding assms(9) r(2) by (rule read_words) (auto simp: arg_ok_Cons)
  then have "api_Set n d (a # as) conn = Returns ((old, None), Some [], [proto_write ''SET'' [n, format_float d]])"
    unfolding api_Set_def
    by (rule api_loop_one[OF assms(8)]) (simp add: one_float_def parse_format_float[OF old])
  then show ?thesis
    using c r(1) by simp
qed

lemma list_pairs_map:
  assumes "\<forall>n\<in>set ns. \<exists>v. m n = Some v \<and> f64_ok v" "distinct ns"
  shows "list_pairs l (concat (map (\<lambda>n. case m n of None \<Rightarrow> [] | Some v \<Rightarrow> [n, format_float v]) ns)) =
    Stop (Some (\<lambda>n. if n \<in> set ns then m n else l n), None)"
  using assms
proof (induction ns arbitrary: l)
  case (Cons n ns)
  then obtain v where v: "m n = Some v" "f64_ok v"
    by auto
  define l' where "l' = l(n \<mapsto> v)"
  have "(\<lambda>x. if x \<in> set ns then m x else l' x) = (\<lambda>x. if x \<in> set (n # ns) then m x else l x)"
    using v(1) by (auto simp: l'_def)
  then show ?case
    using Cons.IH[of l'] Cons.prems v by (simp add: parse_format_float l'_def[symmetric])
qed simp

text \<open>
  A list through the client returns exactly the map of counters that the server
  computed, in whatever order the server wrote it.
\<close>

theorem client_list:
  assumes "server_ok s" "e_write_ok (envs 0)" "e_before (envs 0) s = s"
    and "range_order (replicas s) (e_ms (envs 0))"
    and "\<And>m cs. replicas s m = Some cs \<Longrightarrow> range_order cs (e_ns (envs 0) m)"
    and "range_order (listCounters s (e_ms (envs 0)) (e_ns (envs 0))) (e_order (envs 0))"
    and "\<And>n. n \<in> set (e_order (envs 0)) \<Longrightarrow> arg_ok n"
    and "handle envs 0 fin s (proto_write ''LIST'' []) = (s', reply, ending)"
    and "connected a conn" "at_input a = reply"
  shows "s' = s \<and> api_List (a # as) conn =
    Returns ((Some (listCounters s (e_ms (envs 0)) (e_ns (envs 0))), None), Some [], [proto_write ''LIST'' []])"
proof -
  let ?l = "listCounters s (e_ms (envs 0)) (e_ns (envs 0))"
  let ?args = "concat (map (\<lambda>n. case ?l n of None \<Rightarrow> [] | Some v \<Rightarrow> [n, format_float v]) (e_order (envs 0)))"
  have req: "proto_read fin (proto_write ''LIST'' []) = (Inr (''LIST'', []), [])"
    by (intro read_words) (auto simp: arg_ok_Cons)
  have h: "handle_cmd (envs 0) s ''LIST'' [] = Returns (s, proto_write ''RET'' ?args)"
    by (simp add: handle_cmd_def handle_list_def)
  have r: "s' = s" "reply = proto_write ''RET'' ?args"
    using handle_one[OF req h assms(2,3,8)] by simp_all
  have "\<forall>x\<in>set ?args. arg_ok x"
    using assms(7) by (auto split: option.splits)
  then have rd: "proto_read (at_fin a) (at_input a) = (Inr (''RET'', ?args), [])"
    unfolding assms(10) r(2) by (intro read_words) (auto simp: arg_ok_Cons)
  have "\<forall>n\<in>set (e_order (envs 0)). \<exists>v. ?l n = Some v \<and> f64_ok v"
  proof
    fix n
    assume "n \<in> set (e_order (envs 0))"
    then obtain v where "?l n = Some v"
      using assms(6) by (auto simp: range_order_def)
    moreover have "?l n = (if f_eq (fst (getCounter s (e_ms (envs 0)) n)) 0 then None
        else Some (fst (getCounter s (e_ms (envs 0)) n)))"
      by (rule list_get[OF assms(4)]) (rule assms(5))
    ultimately show "\<exists>v. ?l n = Some v \<and> f64_ok v"
      using getCounter_ok[OF assms(1)] by (auto split: if_splits)
  qed
  then have lp: "list_pairs Map.empty ?args = Stop (Some (\<lambda>n. if n \<in> set (e_order (envs 0)) then ?l n else None), None)"
    using list_pairs_map[of "e_order (envs 0)" ?l Map.empty] assms(6) by (simp add: range_order_def)
  have l: "(\<lambda>n. if n \<in> set (e_order (envs 0)) then ?l n else None) = ?l"
    using assms(6) by (auto simp: range_order_def fun_eq_iff dom_def)
  have "api_List (a # as) conn = Returns ((Some ?l, None), Some [], [proto_write ''LIST'' []])"
    unfolding api_List_def by (rule api_loop_one[OF assms(9) rd]) (simp only: list_reply_def lp l, simp)
  with r(1) show ?thesis
    by simp
qed

section \<open>When the network fails\<close>

definition read_fails :: "attempt \<Rightarrow> bool" where
  "read_fails a \<longleftrightarrow> at_dial a = None \<and> at_wr a = None \<and> at_input a = []"

lemma read_fails_read: "read_fails a \<Longrightarrow> proto_read (at_fin a) (at_input a) = (Inl (at_fin a), [])"
  by (simp add: read_fails_def proto_read_def)

lemma api_loop_lost:
  assumes "read_fails a" "read_fails b"
  shows "api_loop cmd args k g nd [a, b] None None =
    Returns (g None, None, [proto_write cmd args, proto_write cmd args])"
  using assms read_fails_read[OF assms(1)] read_fails_read[OF assms(2)]
  by (simp add: api_loop.simps read_fails_def)

text \<open>
  When the connection breaks before the reply in both tries, the methods
  report no error at all: \<open>Ping\<close> says the server is well, \<open>Get\<close> says the counter is 0 and the
  cluster stable, \<open>Inc\<close> and \<open>Set\<close> say the value is 0.
\<close>

theorem lost_replies_unnoticed:
  assumes "read_fails a" "read_fails b"
  shows "(\<exists>w. api_Ping [a, b] None = Returns (None, None, w)) \<and>
    (\<exists>w. api_Get n [a, b] None = Returns ((0, True, None), None, w)) \<and>
    (\<exists>w. api_Inc n d [a, b] None = Returns ((0, None), None, w)) \<and>
    (\<exists>w. api_Set n d [a, b] None = Returns ((0, None), None, w)) \<and>
    (\<exists>w. api_List [a, b] None = Returns ((None, None), None, w)) \<and>
    (\<exists>w. api_Join hosts [a, b] None = Returns (None, None, w))"
  by (simp add: api_Ping_def api_Get_def api_Inc_def api_Set_def api_List_def api_Join_def
      api_loop_lost[OF assms])

text \<open>
  A \<open>Ping\<close> that is answered takes a second turn all the same: it writes two
  requests and reads two answers.
\<close>

theorem ping_pings_twice:
  assumes "connected a None" "at_wr b = None"
    and "at_input a = proto_write ''PONG'' []" "at_input b = proto_write ''PONG'' []"
  shows "api_Ping [a, b] None = Returns (None, Some [], [proto_write ''PING'' [], proto_write ''PING'' []])"
proof -
  have "proto_read fin (proto_write ''PONG'' []) = (Inr (''PONG'', []), [])" for fin
    by (intro read_words) (auto simp: arg_ok_Cons)
  then show ?thesis
    using assms by (simp add: api_Ping_def api_loop.simps connected_def ping_reply_def)
qed

section \<open>At the sample servers\<close>

definition answer :: "bytes \<Rightarrow> attempt" where
  "answer bs = \<lparr>at_dial = None, at_wr = None, at_input = bs, at_fin = EOF\<rparr>"

lemma answer_sel [simp]:
  "at_input (answer bs) = bs" "at_wr (answer bs) = None" "connected (answer bs) None"
  by (simp_all add: answer_def connected_def)

lemma counter_name_x [simp]: "counter_name ''x''"
  by (simp add: counter_name_def)

lemma f64_ok_two [simp]: "f64_ok (f_of_int 2)"
  by (rule f64_ok_of_int) simp

theorem client_inc_witness:
  "\<exists>s' reply ending y.
     handle (\<lambda>_. calm) 0 EOF srv_a (proto_write ''INC'' [''x'', format_float (f_of_int 2)]) = (s', reply, ending) \<and>
     incCounter srv_a ''x'' (f_of_int 2) = Returns (s', y) \<and>
     api_Inc ''x'' (f_of_int 2) [answer reply] None =
       Returns ((y, None), Some [], [proto_write ''INC'' [''x'', format_float (f_of_int 2)]])"
proof -
  obtain s' reply ending where h:
    "handle (\<lambda>_. calm) 0 EOF srv_a (proto_write ''INC'' [''x'', format_float (f_of_int 2)]) = (s', reply, ending)"
    by (rule prod_cases3)
  with client_inc[OF server_ok_a counter_name_x f64_ok_two _ _ h, of "answer reply" None "[]"] show ?thesis
    by auto
qed

theorem client_get_witness:
  "\<exists>s' reply ending.
     handle (\<lambda>_. calm) 0 EOF srv_a (proto_write ''GET'' [''x'']) = (s', reply, ending) \<and> s' = srv_a \<and>
     api_Get ''x'' [answer reply] None =
       Returns ((fst (getCounter srv_a [''a'', ''b''] ''x''), consistent srv_a, None), Some [],
         [proto_write ''GET'' [''x'']])"
proof -
  obtain s' reply ending where h:
    "handle (\<lambda>_. calm) 0 EOF srv_a (proto_write ''GET'' [''x'']) = (s', reply, ending)"
    by (rule prod_cases3)
  with client_get[OF server_ok_a _ _ _ h, of "answer reply" None "[]"] show ?thesis
    by (simp add: arg_ok_def)
qed

theorem client_set_witness:
  "\<exists>s' reply ending old.
     handle (\<lambda>_. calm) 0 EOF srv_a (proto_write ''SET'' [''x'', format_float (f_of_int 2)]) = (s', reply, ending) \<and>
     setCounter srv_a ''x'' (f_of_int 2) (\<lambda>_ _. None) (e_nodes calm) = Returns (s', old, [None]) \<and>
     api_Set ''x'' (f_of_int 2) [answer reply] None =
       Returns ((old, None), Some [], [proto_write ''SET'' [''x'', format_float (f_of_int 2)]])"
proof -
  obtain s' reply ending where h:
    "handle (\<lambda>_. calm) 0 EOF srv_a (proto_write ''SET'' [''x'', format_float (f_of_int 2)]) = (s', reply, ending)"
    by (rule prod_cases3)
  have "\<exists>old. setCounter srv_a ''x'' (f_of_int 2) (\<lambda>_ _. None) (e_nodes calm) = Returns (s', old, [None]) \<and>
     api_Set ''x'' (f_of_int 2) [answer reply] None =
       Returns ((old, None), Some [], [proto_write ''SET'' [''x'', format_float (f_of_int 2)]])"
    by (rule client_set[OF server_ok_a counter_name_x f64_ok_two _ _ _ h]) simp_all
  with h show ?thesis
    by blast
qed

theorem client_list_witness:
  "\<exists>s' reply ending.
     handle (\<lambda>_. calm) 0 EOF srv_a (proto_write ''LIST'' []) = (s', reply, ending) \<and> s' = srv_a \<and>
     api_List [answer reply] None =
       Returns ((Some (listCounters srv_a [''a'', ''b''] (\<lambda>_. [''x''])), None), Some [], [proto_write ''LIST'' []])"
proof -
  obtain s' reply ending where h:
    "handle (\<lambda>_. calm) 0 EOF srv_a (proto_write ''LIST'' []) = (s', reply, ending)"
    by (rule prod_cases3)
  have ns: "replicas srv_a m = Some cs \<Longrightarrow> range_order cs [''x'']" for m cs
    by (auto simp: srv_a_def range_order_def split: if_splits)
  have lc: "listCounters srv_a [''a'', ''b''] (\<lambda>_. [''x'']) n =
      (if f_eq (fst (getCounter srv_a [''a'', ''b''] n)) 0 then None
       else Some (fst (getCounter srv_a [''a'', ''b''] n)))" for n
    by (rule list_get[OF order_a(1)]) (rule ns)
  have "f_is_int (fst (getCounter srv_a [''a'', ''b''] ''x'')) 8"
    using get_int[OF contributes_a order_a(1)] sum_a[of abs] sum_a[of "\<lambda>z. z"] by simp
  then have nz: "\<not> f_eq (fst (getCounter srv_a [''a'', ''b''] ''x'')) 0"
    using f_is_int_eq[OF _ f_is_int_0] by simp
  have other: "getCounter srv_a [''a'', ''b''] n = (0, True)" if "n \<noteq> ''x''" for n
    using that by (simp add: getCounter_def srv_a_def) (simp add: srv_def)
  have "f_eq 0 (0 :: f64)"
    by (simp add: f_eq_def zero_f64_def)
  then have "listCounters srv_a [''a'', ''b''] (\<lambda>_. [''x'']) n \<noteq> None \<longleftrightarrow> n = ''x''" for n
    using nz other[of n] by (cases "n = ''x''") (simp_all add: lc)
  then have l: "range_order (listCounters srv_a [''a'', ''b''] (\<lambda>_. [''x''])) [''x'']"
    by (simp add: range_order_def dom_def)
  have "s' = srv_a \<and> api_List [answer reply] None =
      Returns ((Some (listCounters srv_a (e_ms calm) (e_ns calm)), None), Some [], [proto_write ''LIST'' []])"
    by (rule client_list[OF server_ok_a _ _ _ _ _ _ h]) (use order_a l ns in \<open>simp_all add: arg_ok_def\<close>)
  with h show ?thesis
    by simp
qed

theorem lost_replies_unnoticed_witness:
  "\<exists>w. api_Get ''x'' [answer [], answer []] None = Returns ((0, True, None), None, w)"
  using lost_replies_unnoticed[of "answer []" "answer []" "''x''" 0 "[]"]
  by (simp add: read_fails_def answer_def)

theorem ping_pings_twice_witness:
  "api_Ping [answer (proto_write ''PONG'' []), answer (proto_write ''PONG'' [])] None =
     Returns (None, Some [], [proto_write ''PING'' [], proto_write ''PING'' []])"
  by (rule ping_pings_twice) simp_all

end
