(* ===== verification/Columnize.thy ===== *)
theory Columnize
  imports GoStrings
begin

text \<open>
  Package \<open>columnize\<close>, which lays out the table of \<open>dcounter cli members\<close>, on what it uses of \<open>strings\<close>
  (\<open>Split\<close>, \<open>TrimSpace\<close>) and of \<open>fmt\<close> (\<open>Sprintf\<close> with strings as arguments).
\<close>

section \<open>Strings\<close>

text \<open>Splitting at a text; at the empty text, into runes (an invalid byte becomes U+FFFD).\<close>

lemma next_rune_length [simp]: "length (snd (next_rune c s)) \<le> length s"
  by (auto simp: next_rune_def Let_def split: list.splits)

function explode :: "string \<Rightarrow> string list" where
  "explode [] = []"
| "explode (c # s) = (let (r, t) = next_rune c s in r # explode t)"
  by pat_completeness auto
termination
proof (relation "measure length")
  fix c :: char and s x r t
  assume "x = next_rune c s" "(r, t) = x"
  then show "(t, c # s) \<in> measure length"
    using next_rune_length[of c s] by (cases "next_rune c s") auto
qed simp

function split_at :: "string \<Rightarrow> string \<Rightarrow> string list" where
  "split_at sep s =
     (if sep = [] \<or> length s < length sep then [s]
      else if has_prefix sep s then [] # split_at sep (drop (length sep) s)
      else (case s of
              [] \<Rightarrow> [s]
            | c # t \<Rightarrow> (case split_at sep t of [] \<Rightarrow> [[c]] | p # ps \<Rightarrow> (c # p) # ps)))"
  by pat_completeness auto
termination
proof (relation "measure (\<lambda>(sep, s). length s)")
  fix sep s :: string
  assume "\<not> (sep = [] \<or> length s < length sep)"
  then show "((sep, drop (length sep) s), sep, s) \<in> measure (\<lambda>(sep, s). length s)"
    by (cases sep; cases s) auto
qed auto

declare split_at.simps [simp del]

definition go_split :: "string \<Rightarrow> string \<Rightarrow> string list" where
  "go_split s sep = (if sep = [] then explode s else split_at sep s)"

text \<open>The white space of Unicode in UTF-8.\<close>

definition space_runes :: "string list" where
  "space_runes =
     map (\<lambda>n. [char_of n]) [9, 10, 11, 12, 13, 32 :: nat] @
     map (map char_of) ([[194, 133], [194, 160], [225, 154, 128]] @ map (\<lambda>n. [226, 128, n]) [128..<139] @
       [[226, 128, 168], [226, 128, 169], [226, 128, 175], [226, 129, 159], [227, 128, 128 :: nat]])"

lemma space_runes_nonempty: "r \<in> set space_runes \<Longrightarrow> r \<noteq> []"
  by (auto simp: space_runes_def)

function trim_left :: "string \<Rightarrow> string" where
  "trim_left s = (case find (\<lambda>r. has_prefix r s) space_runes of None \<Rightarrow> s | Some r \<Rightarrow> trim_left (drop (length r) s))"
  by pat_completeness auto
termination
proof (relation "measure length")
  fix s r
  assume "find (\<lambda>r. has_prefix r s) space_runes = Some r"
  then have "r \<noteq> []" "take (length r) s = r"
    using space_runes_nonempty by (auto simp: find_Some_iff has_prefix_def)
  then show "(drop (length r) s, s) \<in> measure length"
    by (cases s) auto
qed simp

function trim_right :: "string \<Rightarrow> string" where
  "trim_right s =
     (case find (\<lambda>r. has_prefix (rev r) (rev s)) space_runes of
        None \<Rightarrow> s
      | Some r \<Rightarrow> trim_right (take (length s - length r) s))"
  by pat_completeness auto
termination
proof (relation "measure length")
  fix s r
  assume "find (\<lambda>r. has_prefix (rev r) (rev s)) space_runes = Some r"
  then have "r \<noteq> []" "take (length r) (rev s) = rev r"
    using space_runes_nonempty by (auto simp: find_Some_iff has_prefix_def)
  then show "(take (length s - length r) s, s) \<in> measure length"
    by (cases s) auto
qed simp

declare trim_left.simps [simp del] trim_right.simps [simp del]

definition trim_space :: "string \<Rightarrow> string" where
  "trim_space s = trim_right (trim_left s)"

text \<open>The number of runes, an invalid byte counting as one.\<close>

definition rune_count :: "string \<Rightarrow> nat" where
  "rune_count s = length (explode s)"

text \<open>
  \<open>Sprintf\<close> on string arguments, for formats of literal text, \<open>%%\<close>, \<open>%s\<close> and \<open>%-Ns\<close>, with as many
  arguments as verbs; other formats are outside of the model.  A leading zero of \<open>N\<close> is a flag without
  effect.
\<close>

definition pad_right :: "nat \<Rightarrow> string \<Rightarrow> string" where
  "pad_right w s = s @ replicate (w - rune_count s) (CHR '' '')"

function sprintf :: "string \<Rightarrow> string list \<Rightarrow> string option" where
  "sprintf [] args = (if args = [] then Some [] else None)"
| "sprintf (c # f) args =
     (if c \<noteq> CHR ''%'' then map_option (Cons c) (sprintf f args)
      else (case f of
         [] \<Rightarrow> None
       | v # g \<Rightarrow>
           if v = CHR ''%'' then map_option (Cons c) (sprintf g args)
           else (let w = (if v = CHR ''-'' then takeWhile is_digit g else []);
                     h = (if v = CHR ''-'' then dropWhile is_digit g else f)
                 in (case h of
                       [] \<Rightarrow> None
                     | u # r \<Rightarrow>
                         if u \<noteq> CHR ''s'' then None
                         else (case args of
                                 [] \<Rightarrow> None
                               | a # as \<Rightarrow> map_option ((@) (pad_right (digits_val w) a)) (sprintf r as))))))"
  by pat_completeness auto
termination
proof (relation "measure (\<lambda>(f, args). length f)")
  fix c :: char and f args v g w h u r a as
  assume h: "h = (if v = CHR ''-'' then dropWhile is_digit g else f)" "f = v # g" "h = u # r"
  have "length h \<le> length f"
    using length_dropWhile_le[of is_digit g] by (simp add: h(1,2) le_SucI)
  then show "((r, as), (c # f, args)) \<in> measure (\<lambda>(f, args). length f)"
    by (simp add: h(3))
qed auto

section \<open>Formatting a table\<close>

record colconf =
  co_Delim :: string
  co_Glue :: string
  co_Prefix :: string

definition DefaultConfig :: colconf where
  "DefaultConfig = \<lparr>co_Delim = ''|'', co_Glue = ''  '', co_Prefix = ''''\<rparr>"

definition getElementsFromLine :: "string \<Rightarrow> string \<Rightarrow> string list" where
  "getElementsFromLine line delim = map trim_space (go_split line delim)"

fun widen :: "nat list \<Rightarrow> string list \<Rightarrow> nat list" where
  "widen ws [] = ws"
| "widen [] (x # xs) = length x # widen [] xs"
| "widen (w # ws) (x # xs) = (if w < length x then length x else w) # widen ws xs"

definition getWidthsFromLines :: "string list \<Rightarrow> string \<Rightarrow> nat list" where
  "getWidthsFromLines lines delim = foldl (\<lambda>ws line. widen ws (getElementsFromLine line delim)) [] lines"

definition getStringFormat :: "colconf \<Rightarrow> nat list \<Rightarrow> nat \<Rightarrow> string" where
  "getStringFormat c widths columns =
     co_Prefix c @ concat (map (\<lambda>i.
       if i = columns - 1 then ''%s'' @ [NL]
       else ''%-'' @ dec (widths ! i) @ ''s'' @ co_Glue c) [0..<min columns (length widths)])"

text \<open>A missing left configuration would be dereferenced; \<open>Format\<close> passes the default.\<close>

definition MergeConfig :: "colconf option \<Rightarrow> colconf option \<Rightarrow> colconf outcome" where
  "MergeConfig a b =
     (case a of
        None \<Rightarrow> Panics
      | Some ca \<Rightarrow>
          (case b of
             None \<Rightarrow> Returns ca
           | Some cb \<Rightarrow> Returns \<lparr>
               co_Delim = (if co_Delim cb \<noteq> [] then co_Delim cb else co_Delim ca),
               co_Glue = (if co_Glue cb \<noteq> [] then co_Glue cb else co_Glue ca),
               co_Prefix = (if co_Prefix cb \<noteq> [] then co_Prefix cb else co_Prefix ca)\<rparr>))"

fun format_lines :: "colconf \<Rightarrow> nat list \<Rightarrow> string list \<Rightarrow> string option" where
  "format_lines conf widths [] = Some []"
| "format_lines conf widths (line # lines) =
     (let elems = getElementsFromLine line (co_Delim conf)
      in case sprintf (getStringFormat conf widths (length elems)) elems of
           None \<Rightarrow> None
         | Some s \<Rightarrow> map_option ((@) s) (format_lines conf widths lines))"

text \<open>\<open>None\<close> when a glue or prefix with verbs takes the format out of the model of \<open>Sprintf\<close>.\<close>

definition format_table :: "string list \<Rightarrow> colconf option \<Rightarrow> string option" where
  "format_table lines config =
     (case MergeConfig (Some DefaultConfig) config of
        Panics \<Rightarrow> None
      | Returns conf \<Rightarrow>
          (let widths = getWidthsFromLines lines (co_Delim conf)
           in map_option (\<lambda>result. if result \<noteq> [] \<and> last result = NL then butlast result else result)
                (format_lines conf widths lines)))"

definition SimpleFormat :: "string list \<Rightarrow> string option" where
  "SimpleFormat lines = format_table lines None"

section \<open>The table\<close>

lemma next_rune_ascii: "of_char c < (128 :: nat) \<Longrightarrow> next_rune c s = ([c], s)"
  by (simp add: next_rune_def)

lemma rune_count_ascii: "\<forall>c\<in>set s. of_char c < (128 :: nat) \<Longrightarrow> rune_count s = length s"
proof (induction s)
  case (Cons c s)
  then show ?case
    using next_rune_ascii[of c s] by (simp add: rune_count_def)
qed (simp add: rune_count_def)

lemma split_at_one: "split_at [d] s = split_on d s"
proof (induction s)
  case Nil
  then show ?case
    by (simp add: split_at.simps)
next
  case (Cons c s)
  then show ?case
    by (subst split_at.simps) (auto simp: has_prefix_def)
qed

text \<open>What a row looks like: each cell but the last as wide as its column, and two blanks.\<close>

definition cells :: "string \<Rightarrow> string list" where
  "cells line = map trim_space (split_on (CHR ''|'') line)"

definition table_row :: "nat list \<Rightarrow> string list \<Rightarrow> string" where
  "table_row ws xs = concat (map2 (\<lambda>w x. pad_right w x @ ''  '') ws (butlast xs)) @ last xs"

lemma dec_span: "takeWhile is_digit (dec w @ CHR ''s'' # r) = dec w" "dropWhile is_digit (dec w @ CHR ''s'' # r) = CHR ''s'' # r"
proof -
  have "\<forall>c\<in>set (dec w). is_digit c"
    using dec_digits[of w] by (simp add: list_all_iff)
  moreover have "\<not> is_digit (CHR ''s'')"
    by (simp add: is_digit_def)
  ultimately show "takeWhile is_digit (dec w @ CHR ''s'' # r) = dec w" "dropWhile is_digit (dec w @ CHR ''s'' # r) = CHR ''s'' # r"
    by (simp_all add: takeWhile_append2 dropWhile_append2)
qed

abbreviation cell_format :: "nat \<Rightarrow> string" where
  "cell_format w \<equiv> ''%-'' @ dec w @ ''s  ''"

lemma sprintf_cell:
  "sprintf (cell_format w @ f) (x # xs) = map_option (\<lambda>s. pad_right w x @ ''  '' @ s) (sprintf f xs)"
  by (simp add: dec_span Let_def option.map_comp comp_def)

lemma sprintf_row:
  assumes "xs \<noteq> []" "length xs \<le> length ws"
  shows "sprintf (concat (map cell_format (take (length xs - 1) ws)) @ ''%s'' @ [NL]) xs = Some (table_row ws xs @ [NL])"
  using assms
proof (induction xs arbitrary: ws)
  case (Cons x xs)
  then obtain w vs where ws: "ws = w # vs"
    by (cases ws) auto
  show ?case
  proof (cases xs)
    case Nil
    then show ?thesis
      by (simp add: table_row_def pad_right_def Let_def)
  next
    case (Cons y ys)
    then have h: "xs \<noteq> []" "length xs \<le> length vs"
      using Cons.prems ws by simp_all
    have "take (length (x # xs) - 1) ws = w # take (length xs - 1) vs"
      using h(1) by (cases xs) (simp_all add: ws)
    then have "sprintf (concat (map cell_format (take (length (x # xs) - 1) ws)) @ ''%s'' @ [NL]) (x # xs) =
        sprintf (cell_format w @ (concat (map cell_format (take (length xs - 1) vs)) @ ''%s'' @ [NL])) (x # xs)"
      by (simp del: sprintf.simps)
    also have "\<dots> = Some (table_row ws (x # xs) @ [NL])"
      using h(1) unfolding sprintf_cell Cons.IH[OF h] by (simp add: table_row_def ws)
    finally show ?thesis .
  qed
qed simp

lemma row_format:
  assumes "0 < n" "n \<le> length ws"
  shows "getStringFormat DefaultConfig ws n = concat (map cell_format (take (n - 1) ws)) @ ''%s'' @ [NL]"
proof -
  have "[0..<min n (length ws)] = [0..<n - 1] @ [n - 1]"
    using assms by (metis Suc_pred' min.absorb1 upt_Suc_append zero_le)
  moreover have "map (\<lambda>i. if i = n - 1 then ''%s'' @ [NL] else ''%-'' @ dec (ws ! i) @ ''s'' @ co_Glue DefaultConfig) [0..<n - 1] =
      map cell_format (take (n - 1) ws)"
    using assms by (intro nth_equalityI) (simp_all add: DefaultConfig_def)
  ultimately show ?thesis
    by (simp add: getStringFormat_def) (simp add: DefaultConfig_def)
qed

lemma widen_spec:
  "length (widen ws xs) = max (length ws) (length xs) \<and>
   (\<forall>i<length ws. ws ! i \<le> widen ws xs ! i) \<and> (\<forall>i<length xs. length (xs ! i) \<le> widen ws xs ! i)"
proof (induction ws xs rule: widen.induct)
  case (2 x xs)
  then show ?case
    by (auto simp: nth_Cons split: nat.splits)
next
  case (3 w ws x xs)
  then show ?case
    by (auto simp: nth_Cons split: nat.splits)
qed simp

lemma widths_grow:
  "length ws \<le> length (foldl (\<lambda>ws line. widen ws (f line)) ws lines) \<and>
   (\<forall>i<length ws. ws ! i \<le> foldl (\<lambda>ws line. widen ws (f line)) ws lines ! i)"
proof (induction lines arbitrary: ws)
  case (Cons l lines)
  show ?case
    using Cons[of "widen ws (f l)"] widen_spec[of ws "f l"] by (auto intro: order_trans)
qed simp

lemma elements: "getElementsFromLine line ''|'' = cells line"
  by (simp add: getElementsFromLine_def cells_def go_split_def split_at_one)

lemma widths_fit:
  assumes "line \<in> set lines"
  shows "length (cells line) \<le> length (getWidthsFromLines lines ''|'') \<and>
    (\<forall>i<length (cells line). length (cells line ! i) \<le> getWidthsFromLines lines ''|'' ! i)"
proof -
  obtain as bs where l: "lines = as @ line # bs"
    using assms by (meson split_list)
  let ?f = "\<lambda>ws line. widen ws (cells line)"
  let ?w = "widen (foldl ?f [] as) (cells line)"
  have "getWidthsFromLines lines ''|'' = foldl ?f ?w bs"
    by (simp add: getWidthsFromLines_def l elements)
  then show ?thesis
    using widths_grow[of ?w cells bs] widen_spec[of "foldl ?f [] as" "cells line"] by (auto intro: order_trans)
qed

lemma format_lines_table:
  assumes "\<forall>line\<in>set lines. length (cells line) \<le> length ws"
  shows "format_lines DefaultConfig ws lines = Some (concat (map (\<lambda>line. table_row ws (cells line) @ [NL]) lines))"
  using assms
proof (induction lines)
  case (Cons line lines)
  have n: "cells line \<noteq> []" "length (cells line) \<le> length ws"
    using Cons.prems by (simp_all add: cells_def)
  have d: "co_Delim DefaultConfig = ''|''"
    by (simp add: DefaultConfig_def)
  have "sprintf (getStringFormat DefaultConfig ws (length (cells line))) (cells line) = Some (table_row ws (cells line) @ [NL])"
    using sprintf_row[OF n] n by (simp add: row_format del: sprintf.simps)
  then show ?case
    using Cons by (simp add: elements d Let_def)
qed simp

lemma concat_lines: "concat (map (\<lambda>l. f l @ [NL]) lines) = join_with [NL] (map f lines) @ (if lines = [] then [] else [NL])"
proof (induction lines)
  case (Cons l lines)
  then show ?case
    by (cases lines) auto
qed simp

theorem table_rows:
  "SimpleFormat lines =
     Some (join_with [NL] (map (\<lambda>line. table_row (getWidthsFromLines lines ''|'') (cells line)) lines))"
proof -
  let ?ws = "getWidthsFromLines lines ''|''"
  have "format_lines DefaultConfig ?ws lines = Some (concat (map (\<lambda>line. table_row ?ws (cells line) @ [NL]) lines))"
    using widths_fit by (intro format_lines_table) blast
  then show ?thesis
    unfolding concat_lines
    by (cases "lines = []") (simp_all add: SimpleFormat_def format_table_def MergeConfig_def DefaultConfig_def Let_def)
qed

text \<open>Where column \<open>i\<close> begins, and that every cell begins there.\<close>

definition column_at :: "nat list \<Rightarrow> nat \<Rightarrow> nat" where
  "column_at ws i = sum_list (map (\<lambda>w. w + 2) (take i ws))"

lemma row_aligned:
  assumes "i < length xs" "length xs \<le> length ws" "\<forall>j<length xs. length (xs ! j) \<le> ws ! j"
    "\<forall>x\<in>set xs. \<forall>c\<in>set x. of_char c < (128 :: nat)"
  shows "has_prefix (xs ! i) (drop (column_at ws i) (table_row ws xs))"
  using assms
proof (induction xs arbitrary: ws i)
  case (Cons x xs)
  then obtain w vs where ws: "ws = w # vs"
    by (cases ws) auto
  show ?case
  proof (cases "xs = []")
    case True
    then show ?thesis
      using Cons.prems(1) by (simp add: column_at_def table_row_def has_prefix_def)
  next
    case False
    have row: "table_row ws (x # xs) = pad_right w x @ ''  '' @ table_row vs xs"
      using False by (simp add: table_row_def ws)
    have "length x \<le> w"
      using Cons.prems(3) ws by force
    moreover have "rune_count x = length x"
      using Cons.prems(4) by (intro rune_count_ascii) simp
    ultimately have l: "length (pad_right w x) = w"
      by (simp add: pad_right_def)
    show ?thesis
    proof (cases i)
      case 0
      then show ?thesis
        by (simp add: column_at_def row pad_right_def has_prefix_def)
    next
      case (Suc j)
      have "has_prefix (xs ! j) (drop (column_at vs j) (table_row vs xs))"
        using Cons.prems Suc ws by (intro Cons.IH) (auto simp: nth_Cons split: nat.splits dest: spec[of _ "Suc _"])
      moreover have "drop (column_at ws i) (table_row ws (x # xs)) = drop (column_at vs j) (table_row vs xs)"
        using l unfolding row by (simp add: column_at_def ws Suc)
      ultimately show ?thesis
        by (simp add: Suc)
    qed
  qed
qed simp

text \<open>
  The table is a line per line of input, and in every one the cells, which keep to ASCII, begin where
  their columns begin.
\<close>

theorem table_aligned:
  assumes "line \<in> set lines" "i < length (cells line)" "\<forall>x\<in>set (cells line). \<forall>c\<in>set x. of_char c < (128 :: nat)"
  shows "\<exists>rows. SimpleFormat lines = Some (join_with [NL] (map rows lines)) \<and>
    has_prefix (cells line ! i) (drop (column_at (getWidthsFromLines lines ''|'') i) (rows line))"
  using table_rows row_aligned[OF assms(2) _ _ assms(3)] widths_fit[OF assms(1)] by blast

text \<open>Trimming a text between graphic characters.\<close>

definition graphic :: "char \<Rightarrow> bool" where
  "graphic c \<longleftrightarrow> 33 \<le> (of_char c :: nat) \<and> (of_char c :: nat) \<le> 126"

lemma space_runes_ends:
  "list_all (\<lambda>r. r \<noteq> [] \<and> \<not> graphic (hd r) \<and> \<not> graphic (last r) \<and> (last r = NL \<longrightarrow> r = [NL])) space_runes"
  by code_simp

lemma space_rune:
  assumes "r \<in> set space_runes"
  shows "r \<noteq> []" "\<not> graphic (hd r)" "\<not> graphic (last r)" "last r = NL \<Longrightarrow> r = [NL]"
  using assms space_runes_ends by (simp_all add: list_all_iff)

lemma trim_left_graphic:
  assumes "graphic c"
  shows "trim_left (c # s) = c # s"
proof -
  have "\<not> has_prefix r (c # s)" if r: "r \<in> set space_runes" for r
    using space_rune(1,2)[OF r] assms by (cases r) (simp_all add: has_prefix_def, metis)
  then have "find (\<lambda>r. has_prefix r (c # s)) space_runes = None"
    by (simp add: find_None_iff)
  then show ?thesis
    by (subst trim_left.simps) simp
qed

lemma rev_prefix: "r \<noteq> [] \<Longrightarrow> has_prefix (rev r) (rev (s @ [c])) \<Longrightarrow> last r = c"
  by (cases r rule: rev_cases) (simp_all add: has_prefix_def)

lemma trim_right_graphic:
  assumes "graphic c"
  shows "trim_right (s @ [c]) = s @ [c]"
proof -
  have "\<not> has_prefix (rev r) (rev (s @ [c]))" if r: "r \<in> set space_runes" for r
    using space_rune(1,3)[OF r] rev_prefix[of r s c] assms by blast
  then have "find (\<lambda>r. has_prefix (rev r) (rev (s @ [c]))) space_runes = None"
    by (simp add: find_None_iff)
  then show ?thesis
    by (subst trim_right.simps) simp
qed

lemma trim_right_NL: "trim_right (s @ [NL]) = trim_right s"
proof -
  let ?p = "\<lambda>r. has_prefix (rev r) (rev (s @ [NL]))"
  have "[NL] \<in> set space_runes"
    by code_simp
  moreover have "?p [NL]"
    by (simp add: has_prefix_def)
  ultimately have "find ?p space_runes \<noteq> None"
    unfolding find_None_iff by blast
  then obtain r where f: "find ?p space_runes = Some r"
    by blast
  then have "r \<in> set space_runes" "?p r"
    by (auto simp: find_Some_iff)
  then have "r = [NL]"
    using space_rune rev_prefix by blast
  then show ?thesis
    using f by (subst trim_right.simps) simp
qed

lemma trim_clean:
  assumes "s \<noteq> []" "graphic (hd s)" "graphic (last s)"
  shows "trim_space s = s" "trim_space (s @ [NL]) = s"
proof -
  obtain c t where c: "s = c # t" "graphic c"
    using assms by (cases s) auto
  obtain u d where d: "s = u @ [d]" "graphic d"
    using assms by (cases s rule: rev_cases) auto
  have "trim_left s = s" "trim_left (s @ [NL]) = s @ [NL]"
    using trim_left_graphic[OF c(2)] by (simp_all add: c(1))
  moreover have "trim_right s = s"
    using trim_right_graphic[OF d(2)] by (simp add: d(1))
  ultimately show "trim_space s = s" "trim_space (s @ [NL]) = s"
    by (simp_all add: trim_space_def trim_right_NL)
qed

end
