(* ===== verification/Command.thy ===== *)
theory Command
  imports Base64 System Api Columnize
begin

text \<open>
  The actions of the program \<open>dcounter\<close>: the commands \<open>server\<close> (\<open>server.go\<close>), \<open>genkey\<close> and \<open>cli\<close>.  The
  values of the flags and the arguments are inputs here; \<open>CommandLine\<close> takes them from the command line.
\<close>

section \<open>The server command\<close>

record options =
  op_name :: string
  op_bind :: string
  op_advertise :: string
  op_client :: string
  op_join :: "string list"
  op_load :: string
  op_save :: string
  op_save_interval :: int
  op_pidfile :: string
  op_syslog :: string
  op_sync_interval :: int
  op_update_interval :: int
  op_update_nodes :: int
  op_key :: string

definition default_options :: "string \<Rightarrow> options" where
  "default_options hostname =
     \<lparr>op_name = hostname, op_bind = ''127.0.0.1:9373'', op_advertise = [], op_client = ''127.0.0.1:9374'',
      op_join = [], op_load = [], op_save = [], op_save_interval = 60 * second, op_pidfile = [],
      op_syslog = [], op_sync_interval = second * 10, op_update_interval = millisecond * 100,
      op_update_nodes = 2, op_key = []\<rparr>"

text \<open>
  What the machine answers: writing the file with the process id, resolving and parsing addresses, the
  host and the sockets, delivery, the network, and the file to load: the error of opening it, or what
  was decoded with the error of decoding.
\<close>

record machine =
  os_hostname :: string
  os_pid :: int
  os_write :: "string \<Rightarrow> string \<Rightarrow> goerr option"
  os_lookup :: "string \<Rightarrow> bytes list result"
  os_parse :: "string \<Rightarrow> bytes option"
  os_host :: hostenv
  os_tcp :: "goerr option"
  os_udp :: "goerr option"
  os_socket :: "goerr option"
  os_deliver :: delivery
  os_draw :: u32
  os_net :: netenv
  os_peers :: peers
  os_load :: "string \<Rightarrow> (decoded \<times> goerr option) result"

text \<open>\<open>SplitN\<close> at the first colon.\<close>

definition syslog_parts :: "string \<Rightarrow> string list" where
  "syslog_parts s = (case index_of (CHR '':'') s of None \<Rightarrow> [s] | Some i \<Rightarrow> [take i s, drop (i + 1) s])"

definition err_line :: "goerr \<Rightarrow> string" where
  "err_line e = ''[ERR] '' @ err_text e"

definition with_port :: "string \<Rightarrow> string" where
  "with_port h = (if CHR '':'' \<in> set h then h else h @ '':9373'')"

text \<open>A negative number of nodes means no gossip, as none does.\<close>

definition configure :: "options \<Rightarrow> config \<Rightarrow> config result" where
  "configure o' cf =
     (let cf1 = cf\<lparr>cf_PushPullInterval := op_sync_interval o', cf_GossipInterval := op_update_interval o',
                  cf_GossipNodes := nat (op_update_nodes o')\<rparr>
      in if op_key o' \<noteq> [] then
           (case decodeString64 (op_key o') of Inl e \<Rightarrow> Inl e | Inr key \<Rightarrow> Inr (cf1\<lparr>cf_SecretKey := key\<rparr>))
         else Inr cf1)"

text \<open>After \<open>Start\<close>: joining or loading; their errors are logged only.\<close>

definition afterStart :: "machine \<Rightarrow> options \<Rightarrow> daemon \<Rightarrow> (string list \<times> daemon option) run" where
  "afterStart os o' d =
     (let log = (\<lambda>err. case err of None \<Rightarrow> [] | Some e \<Rightarrow> [err_line e])
      in if 0 < length (op_join o') then
           and_then (joinDaemon (os_parse os) (os_lookup os) (os_net os) (os_deliver os) (os_peers os)
               (map with_port (op_join o')) d) (\<lambda>(err, d1). Done (log err, Some d1))
         else if op_load o' \<noteq> [] then
           (case os_load os (op_load o') of
              Inl e \<Rightarrow> Done ([err_line e], Some d)
            | Inr (decoded, err) \<Rightarrow>
                (case loadReplicas (dm_srv d) decoded of
                   Panics \<Rightarrow> Panic
                 | Returns s \<Rightarrow> Done (log err, Some (d\<lparr>dm_srv := s\<rparr>))))
         else Done ([], Some d))"

text \<open>
  The lines logged and the server that is left running, if any, when the command waits for a signal or
  has returned.  A syslog flag without a colon is complained about and then indexed.
\<close>

definition serverAction :: "machine \<Rightarrow> options \<Rightarrow> (string list \<times> daemon option) run" where
  "serverAction os o' =
     (if op_syslog o' \<noteq> [] \<and> length (syslog_parts (op_syslog o')) < 2 then Panic
      else case (if op_pidfile o' \<noteq> [] then os_write os (op_pidfile o') (format_int (os_pid os)) else None) of
        Some e \<Rightarrow> Done ([err_line e], None)
      | None \<Rightarrow>
          if 0 < length (op_join o') \<and> op_load o' \<noteq> []
          then Done ([''[ERR] Can not use --load and --join at the same time''], None)
          else
            let advertise = (if op_advertise o' = [] then op_bind o' else op_advertise o')
            in (case serverConfig (os_lookup os) (os_hostname os) (op_name o') (op_bind o') advertise of
                  Panics \<Rightarrow> Panic
                | Returns (Inl e) \<Rightarrow> Done ([err_line e], None)
                | Returns (Inr cf) \<Rightarrow>
                    (case configure o' cf of
                       Inl e \<Rightarrow> Done ([err_line e], None)
                     | Inr cf1 \<Rightarrow>
                         and_then (startDaemon (os_host os) (os_tcp os) (os_udp os) (os_socket os) (os_deliver os)
                             (os_draw os) cf1 (newServer (op_name o'))) (\<lambda>(err, s, ml, cf2).
                           case err of
                             Some e \<Rightarrow> Done ([err_line e], None)
                           | None \<Rightarrow>
                               (case ml of
                                  None \<Rightarrow> Panic
                                | Some m \<Rightarrow> afterStart os o' \<lparr>dm_srv = s, dm_list = m, dm_conf = cf2\<rparr>)))))"

text \<open>One turn of the loop that saves every \<open>save-interval\<close>.\<close>

definition save_turn :: "goerr option \<Rightarrow> goerr option \<Rightarrow> goerr option \<Rightarrow> string list" where
  "save_turn create_err encode_err close_err =
     (case saveFile create_err encode_err close_err of None \<Rightarrow> [] | Some e \<Rightarrow> [err_line e])"

section \<open>genkey and cli\<close>

datatype printed = Stdout string | Log string

text \<open>\<open>random\<close>: what reading 32 bytes of randomness gave.\<close>

definition genkey :: "bytes result \<Rightarrow> printed" where
  "genkey random =
     (case random of Inl e \<Rightarrow> Log (err_line e) | Inr data \<Rightarrow> Stdout (encodeToString data @ [NL]))"

definition arg :: "string list \<Rightarrow> nat \<Rightarrow> string" where
  "arg args i = (if i < length args then args ! i else [])"

text \<open>Every subcommand dials first; \<open>dial\<close> and \<open>as\<close> are what the network does.\<close>

definition with_client ::
  "attempt list \<Rightarrow> (bytes option \<Rightarrow> printed list outcome) \<Rightarrow> printed list outcome" where
  "with_client dial f =
     (case api_Dial dial of
        Panics \<Rightarrow> Panics
      | Returns (Inl e) \<Rightarrow> Returns [Log (err_line e)]
      | Returns (Inr conn) \<Rightarrow> f conn)"

definition cli_get :: "attempt list \<Rightarrow> attempt list \<Rightarrow> string list \<Rightarrow> printed list outcome" where
  "cli_get dial as args = with_client dial (\<lambda>conn.
     case api_Get (arg args 0) as conn of
       Panics \<Rightarrow> Panics
     | Returns ((value, cons, err), _, _) \<Rightarrow>
         Returns [case err of
             Some e \<Rightarrow> Log (err_line e)
           | None \<Rightarrow>
               let state = (if \<not> cons then ''INCONSISTENT'' else ''CONSISTENT'')
               in Stdout (print_f value @ '' ('' @ state @ '')'' @ [NL])])"

definition cli_inc :: "attempt list \<Rightarrow> attempt list \<Rightarrow> string list \<Rightarrow> printed list outcome" where
  "cli_inc dial as args = with_client dial (\<lambda>conn.
     case parse_float (arg args 1) of
       Inl e \<Rightarrow> Returns [Log (err_line e)]
     | Inr diff \<Rightarrow>
         (case api_Inc (arg args 0) diff as conn of
            Panics \<Rightarrow> Panics
          | Returns ((value, err), _, _) \<Rightarrow>
              Returns [case err of Some e \<Rightarrow> Log (err_line e) | None \<Rightarrow> Stdout (print_f value @ [NL])]))"

definition cli_set :: "attempt list \<Rightarrow> attempt list \<Rightarrow> string list \<Rightarrow> printed list outcome" where
  "cli_set dial as args = with_client dial (\<lambda>conn.
     case parse_float (arg args 1) of
       Inl e \<Rightarrow> Returns [Log (err_line e)]
     | Inr value \<Rightarrow>
         (case api_Set (arg args 0) value as conn of
            Panics \<Rightarrow> Panics
          | Returns ((old, err), _, _) \<Rightarrow>
              Returns [case err of
                  Some e \<Rightarrow> Log (err_line e)
                | None \<Rightarrow> Stdout (print_f value @ '' ('' @ print_f old @ '')'' @ [NL])]))"

text \<open>\<open>ks\<close> is the order in which the list is ranged over.\<close>

definition cli_list :: "string list \<Rightarrow> attempt list \<Rightarrow> attempt list \<Rightarrow> printed list outcome" where
  "cli_list ks dial as = with_client dial (\<lambda>conn.
     case api_List as conn of
       Panics \<Rightarrow> Panics
     | Returns ((l, err), _, _) \<Rightarrow>
         Returns (case err of
             Some e \<Rightarrow> [Log (err_line e)]
           | None \<Rightarrow>
               (case l of
                  None \<Rightarrow> []
                | Some m \<Rightarrow> concat (map (\<lambda>k. case m k of None \<Rightarrow> [] | Some v \<Rightarrow> [Stdout (k @ '': '' @ print_f v @ [NL])]) ks))))"

definition cli_join :: "attempt list \<Rightarrow> attempt list \<Rightarrow> string list \<Rightarrow> printed list outcome" where
  "cli_join dial as args = with_client dial (\<lambda>conn.
     case api_Join args as conn of
       Panics \<Rightarrow> Panics
     | Returns (err, _, _) \<Rightarrow> Returns [case err of Some e \<Rightarrow> Log (err_line e) | None \<Rightarrow> Stdout (''OK'' @ [NL])])"

text \<open>A member is its name and its address.\<close>

definition cli_members ::
  "(string \<Rightarrow> (string \<times> bytes) list result) \<Rightarrow> attempt list \<Rightarrow> attempt list \<Rightarrow> printed list outcome" where
  "cli_members unmarshal dial as = with_client dial (\<lambda>conn.
     case api_Members unmarshal as conn of
       Panics \<Rightarrow> Panics
     | Returns ((ms, err), _, _) \<Rightarrow>
         Returns [case err of
             Some e \<Rightarrow> Log (err_line e)
           | None \<Rightarrow>
               let result = ''Name|Address'' #
                     map (\<lambda>(n, a). n @ ''|'' @ ip_string a @ [NL]) (case ms of None \<Rightarrow> [] | Some l \<Rightarrow> l)
               in Stdout (case SimpleFormat result of None \<Rightarrow> [] | Some t \<Rightarrow> t @ [NL])])"

definition cli_save :: "attempt list \<Rightarrow> attempt list \<Rightarrow> printed list outcome" where
  "cli_save dial as = with_client dial (\<lambda>conn.
     case api_Save as conn of
       Panics \<Rightarrow> Panics
     | Returns ((data, err), _, _) \<Rightarrow>
         Returns [case err of Some e \<Rightarrow> Log (err_line e) | None \<Rightarrow> Stdout (data @ [NL])])"

section \<open>Properties\<close>

lemma with_client_connected: "api_Dial dial = Returns (Inr conn) \<Longrightarrow> with_client dial f = f conn"
  by (simp add: with_client_def)

text \<open>
  When the server answers, \<open>dcounter cli get\<close> prints the value the server computed and
  whether it is consistent; a whole number is printed as its digits and six zeros.
\<close>

theorem cli_get_prints:
  assumes "server_ok s" "arg_ok n" "e_write_ok (envs 0)" "e_before (envs 0) s = s"
    "handle envs 0 fin s (proto_write ''GET'' [n]) = (s', reply, ending)"
    "api_Dial dial = Returns (Inr conn)" "connected a conn" "at_input a = reply"
    "fst (getCounter s (e_ms (envs 0)) n) = f_of_int k"
  shows "s' = s \<and> cli_get dial (a # as) [n] = Returns [Stdout (format_int k @ ''.000000 ('' @
    (if consistent s then ''CONSISTENT'' else ''INCONSISTENT'') @ '')'' @ [NL])]"
proof -
  have g: "s' = s" "api_Get n (a # as) conn =
      Returns ((f_of_int k, consistent s, None), Some [], [proto_write ''GET'' [n]])"
    using client_get[OF assms(1-5,7,8), of as] assms(9) by simp_all
  show ?thesis
    unfolding cli_get_def with_client_connected[OF assms(6)] using print_f_int[OF refl, of k]
    by (simp add: arg_def g Let_def)
qed

lemma ip_graphic: "ip_char c \<Longrightarrow> graphic c \<and> c \<noteq> CHR ''|''"
  by (auto simp: ip_char_def graphic_def Let_def)

lemma member_cells:
  assumes "CHR ''|'' \<notin> set n" "n \<noteq> []" "graphic (hd n)" "graphic (last n)" "length a = 4 \<or> length a = 16"
  shows "cells (n @ ''|'' @ ip_string a @ [NL]) = [n, ip_string a]"
proof -
  have ip: "CHR ''|'' \<notin> set (ip_string a @ [NL])" "ip_string a \<noteq> []" "graphic (hd (ip_string a))" "graphic (last (ip_string a))"
    using ip_string_chars[OF assms(5)] ip_graphic by (auto intro!: hd_in_set last_in_set)
  have "split_on (CHR ''|'') (n @ CHR ''|'' # (ip_string a @ [NL])) = [n, ip_string a @ [NL]]"
    unfolding split_on_append split_on_one[OF assms(1)] split_on_one[OF ip(1)] by simp
  then show ?thesis
    using trim_clean[OF assms(2-4)] trim_clean[OF ip(2-4)] by (simp add: cells_def)
qed

text \<open>
  The members come as a table, a row for each with its name and its address under the
  headings, if the names are visible and have no bars.
\<close>

theorem members_table:
  assumes "api_Dial dial = Returns (Inr conn)" "api_Members unmarshal as conn = Returns ((Some ms, None), r)"
    "\<forall>(n, a)\<in>set ms. CHR ''|'' \<notin> set n \<and> n \<noteq> [] \<and> graphic (hd n) \<and> graphic (last n) \<and> (length a = 4 \<or> length a = 16)"
  shows "\<exists>ws. cli_members unmarshal dial as = Returns [Stdout (join_with [NL]
      (map (table_row ws) ([''Name'', ''Address''] # map (\<lambda>(n, a). [n, ip_string a]) ms)) @ [NL])]"
proof -
  let ?row = "\<lambda>(n, a). n @ ''|'' @ ip_string a @ [NL]"
  have "cells ''Name|Address'' = [''Name'', ''Address'']"
    by (simp add: cells_def trim_clean graphic_def)
  moreover have "table_row ws (cells (?row m)) = table_row ws (case m of (n, a) \<Rightarrow> [n, ip_string a])" if "m \<in> set ms" for m ws
    using assms(3) member_cells that by fastforce
  ultimately have "map (\<lambda>l. table_row ws (cells l)) (''Name|Address'' # map ?row ms) =
      map (table_row ws) ([''Name'', ''Address''] # map (\<lambda>(n, a). [n, ip_string a]) ms)" for ws
    by simp
  note rows = this
  have "\<exists>ws. SimpleFormat (''Name|Address'' # map ?row ms) = Some (join_with [NL]
      (map (table_row ws) ([''Name'', ''Address''] # map (\<lambda>(n, a). [n, ip_string a]) ms)))"
    unfolding table_rows rows by (rule exI, rule refl)
  then show ?thesis
    unfolding cli_members_def with_client_connected[OF assms(1)] assms(2)
    by (cases r) (auto simp: Let_def)
qed

lemma serverConfig_fresh:
  assumes "serverConfig lookup hostname name bind advertise = Returns (Inr cf)"
  shows "cf_ProtocolVersion cf = 3 \<and> cf_Keyring cf = None"
  using assms
  by (auto simp: serverConfig_def server_base_def defaultWANConfig_def defaultLANConfig_def protocolVersionMax_def Let_def
      split: outcome.splits sum.splits)

lemma configure_key:
  assumes "op_key o' = encodeToString data" "data \<noteq> []"
  obtains cf1 where "configure o' cf = Inr cf1" "cf_SecretKey cf1 = data" "cf_Keyring cf1 = cf_Keyring cf"
    "cf_ProtocolVersion cf1 = cf_ProtocolVersion cf"
proof -
  have "length (op_key o') \<noteq> 0"
    using assms encode_length[of data] by (simp add: div_greater_zero_iff flip: length_greater_0_conv)
  then show ?thesis
    using that by (simp add: configure_def assms(1) decode_encode64)
qed

lemma afterStart_conf: "afterStart os o' d = Done (lines, Some d') \<Longrightarrow> dm_conf d' = dm_conf d"
  by (auto simp: afterStart_def Let_def joinDaemon_def and_then_Done split: if_splits sum.splits outcome.splits)

lemma createList_made:
  assumes "createList host tcp udp cf draw now = Done (Inr m, cf2)"
  shows "newMemberlist None None cf = (Inr empty_memberlist, cf2)"
proof -
  obtain m0 where "newMemberlist tcp udp cf = (Inr m0, cf2)"
    using assms by (auto simp: createList_def and_then_Done split: prod.splits sum.splits option.splits)
  then show ?thesis
    by (auto simp: newMemberlist_def split: if_splits prod.splits option.splits)
qed

text \<open>
  C22: the key \<open>genkey\<close> prints has 32 bytes, and a server started with it refuses to run;
  with a key of 16 bytes in base64 whatever server runs is encrypted with that key.
\<close>

theorem genkey_refused:
  assumes "op_syslog o' = []" "op_pidfile o' = []" "op_join o' = [] \<or> op_load o' = []"
    "serverConfig (os_lookup os) (os_hostname os) (op_name o') (op_bind o')
       (if op_advertise o' = [] then op_bind o' else op_advertise o') = Returns (Inr cf)"
    "op_key o' = encodeToString data"
  shows "(length data = 32 \<longrightarrow> genkey (Inr data) = Stdout (op_key o' @ [NL]) \<and>
      serverAction os o' = Done ([''[ERR] key size must be 16 bytes''], None)) \<and>
    (length data = 16 \<and> serverAction os o' = Done (lines, Some d) \<longrightarrow>
      encryptionEnabled (dm_conf d) \<and> primary_of (dm_conf d) = data)"
proof -
  let ?advertise = "if op_advertise o' = [] then op_bind o' else op_advertise o'"
  let ?start = "\<lambda>cf1. startDaemon (os_host os) (os_tcp os) (os_udp os) (os_socket os) (os_deliver os) (os_draw os) cf1
    (newServer (op_name o'))"
  have act: "serverAction os o' = and_then (?start cf1) (\<lambda>(err, s, ml, cf2).
      case err of Some e \<Rightarrow> Done ([err_line e], None)
      | None \<Rightarrow> (case ml of None \<Rightarrow> Panic | Some m \<Rightarrow> afterStart os o' \<lparr>dm_srv = s, dm_list = m, dm_conf = cf2\<rparr>))"
    if "configure o' cf = Inr cf1" for cf1
    using assms(1-4) that by (auto simp: serverAction_def Let_def)
  have cf: "cf_ProtocolVersion cf = 3" "cf_Keyring cf = None"
    using serverConfig_fresh[OF assms(4)] by simp_all
  show ?thesis
  proof (intro conjI impI)
    assume l: "length data = 32"
    then show "genkey (Inr data) = Stdout (op_key o' @ [NL])"
      by (simp add: genkey_def assms(5))
    obtain cf1 where c: "configure o' cf = Inr cf1" "cf_SecretKey cf1 = data" "cf_Keyring cf1 = None" "cf_ProtocolVersion cf1 = 3"
      using configure_key[OF assms(5), of cf] l cf by force
    obtain cf2 where "createList (served (startServer (newServer (op_name o')) (dv_now (os_deliver os))) (os_host os))
        (os_tcp os) (os_udp os) cf1 (os_draw os) (dv_now (os_deliver os)) = Done (Inl (ErrMsg ''key size must be 16 bytes''), cf2)"
      using secret_key_sizes[of cf1] c l by force
    then show "serverAction os o' = Done ([''[ERR] key size must be 16 bytes''], None)"
      unfolding act[OF c(1)] by (simp add: startDaemon_def Let_def err_line_def)
  next
    assume l: "length data = 16 \<and> serverAction os o' = Done (lines, Some d)"
    obtain cf1 where c: "configure o' cf = Inr cf1" "cf_SecretKey cf1 = data" "cf_Keyring cf1 = None" "cf_ProtocolVersion cf1 = 3"
      using configure_key[OF assms(5), of cf] l cf by force
    obtain s m cf2 where st: "?start cf1 = Done (None, s, Some m, cf2)"
      and as: "afterStart os o' \<lparr>dm_srv = s, dm_list = m, dm_conf = cf2\<rparr> = Done (lines, Some d)"
      using l unfolding act[OF c(1)] by (auto simp: and_then_Done split: option.splits)
    have "newMemberlist None None cf1 = (Inr empty_memberlist, cf2)"
      by (rule createList_made[OF startDaemon_created(1)[OF st]])
    then have "encryptionEnabled cf2 \<and> primary_of cf2 = data"
      using secret_key_sizes[of cf1] c l by force
    then show "encryptionEnabled (dm_conf d)" "primary_of (dm_conf d) = data"
      using afterStart_conf[OF as] by simp_all
  qed
qed

section \<open>Samples\<close>

lemma f_is_int_pos:
  assumes "f_is_int v n" "0 < n"
  shows "v = f_of_int n"
proof -
  obtain s m where v: "v = FFin s m" "sval s m = n * int f_one"
    using assms(1) by (cases v) (auto simp: f_is_int_def)
  have "0 < n * int f_one"
    using assms(2) by (intro mult_pos_pos) simp_all
  then have m: "\<not> s" "int m = n * int f_one"
    using v(2) by (auto simp: sval_def split: if_splits)
  have "int (nat n * f_one) = int m"
    using assms(2) m(2) by simp
  then show ?thesis
    using m(1) assms(2) by (simp only: v(1) f_of_int_def of_nat_eq_iff) simp
qed

lemma pong: "api_Dial [answer (proto_write ''PONG'' []), answer (proto_write ''PONG'' [])] = Returns (Inr (Some []))"
  using ping_pings_twice[of "answer (proto_write ''PONG'' [])" "answer (proto_write ''PONG'' [])"]
  by (simp add: api_Dial_def api_New_def)

theorem cli_get_prints_witness:
  "\<exists>s' reply ending. handle (\<lambda>_. calm) 0 EOF srv_a (proto_write ''GET'' [''x'']) = (s', reply, ending) \<and>
     cli_get [answer (proto_write ''PONG'' []), answer (proto_write ''PONG'' [])] [answer reply] [''x''] =
       Returns [Stdout (format_int 8 @ ''.000000 ('' @ (if consistent srv_a then ''CONSISTENT'' else ''INCONSISTENT'') @ '')'' @ [NL])]"
proof -
  obtain s' reply ending where h:
    "handle (\<lambda>_. calm) 0 EOF srv_a (proto_write ''GET'' [''x'']) = (s', reply, ending)"
    by (rule prod_cases3)
  have "f_is_int (fst (getCounter srv_a [''a'', ''b''] ''x'')) 8"
    using get_int[OF contributes_a order_a(1)] sum_a[of abs] sum_a[of "\<lambda>z. z"] by simp
  then have v: "fst (getCounter srv_a (e_ms calm) ''x'') = f_of_int 8"
    by (simp add: f_is_int_pos)
  have "arg_ok ''x''" "connected (answer reply) (Some [])"
    by (simp_all add: arg_ok_def answer_def connected_def)
  then show ?thesis
    using cli_get_prints[where as = "[]", OF server_ok_a _ _ _ h pong _ _ v] h by simp
qed

definition machine_a :: machine where
  "machine_a = \<lparr>os_hostname = ''a'', os_pid = 1, os_write = (\<lambda>_ _. None), os_lookup = (\<lambda>_. Inr [[127, 0, 0, 1]]),
     os_parse = (\<lambda>_. Some [127, 0, 0, 1]), os_host = host_a, os_tcp = None, os_udp = None, os_socket = None,
     os_deliver = dv_a, os_draw = 0, os_net = env_a, os_peers = (\<lambda>_ _. (Some ConnReset, [], EOF)),
     os_load = (\<lambda>_. Inl EOF)\<rparr>"

theorem genkey_refused_witness:
  "serverAction machine_a ((default_options ''a'')\<lparr>op_key := encodeToString (replicate 32 7)\<rparr>) =
     Done ([''[ERR] key size must be 16 bytes''], None)"
proof -
  let ?o = "(default_options ''a'')\<lparr>op_key := encodeToString (replicate 32 (7 :: byte))\<rparr>"
  have o': "op_syslog ?o = []" "op_pidfile ?o = []" "op_join ?o = [] \<or> op_load ?o = []" "op_advertise ?o = []"
    "op_bind ?o = ''127.0.0.1'' @ '':'' @ format_int 9373" "op_name ?o = ''a''"
    by (simp_all add: default_options_def format_int_def dec.simps digit_chars)
  have "splitHostPort (\<lambda>_. Inr [[127, 0, 0, 1]]) (''127.0.0.1'' @ '':'' @ format_int 9373) q =
      Returns (Inr (ip_string [127, 0, 0, 1], 9373))" for q
    using splitHostPort_spec[where q = q, of "''127.0.0.1''" 9373 "\<lambda>_. Inr [[127, 0, 0, 1]]" "[127, 0, 0, 1]" "[]"] by simp
  then obtain cf where cf: "serverConfig (os_lookup machine_a) (os_hostname machine_a) (op_name ?o) (op_bind ?o)
      (if op_advertise ?o = [] then op_bind ?o else op_advertise ?o) = Returns (Inr cf)"
    unfolding o' by (simp add: serverConfig_def machine_a_def Let_def)
  show ?thesis
    using genkey_refused[OF o'(1-3) cf, of "replicate 32 7"] by simp
qed

end
