(* ===== verification/Flags.thy ===== *)
theory Flags
  imports Columnize
begin

text \<open>
  The flags of a command line: package \<open>flag\<close> of Go's library as far as \<open>codegangsta/cli\<close> uses it, and
  \<open>flag.go\<close> and the lookups of \<open>context.go\<close> of that package.  Flags for floats and generic values, which
  the program does not have, are left out.
\<close>

section \<open>Integers\<close>

text \<open>\<open>ParseUint\<close>: the loop over the digits stops at the first that is none or goes too far.\<close>

definition digit_of :: "char \<Rightarrow> nat option" where
  "digit_of c =
     (let n = of_char c :: nat
      in if 48 \<le> n \<and> n \<le> 57 then Some (n - 48)
         else if 97 \<le> n \<and> n \<le> 122 then Some (n - 87)
         else if 65 \<le> n \<and> n \<le> 90 then Some (n - 55)
         else None)"

datatype scanned = Number nat | TooBig | NoNumber

fun scan_uint :: "nat \<Rightarrow> nat \<Rightarrow> string \<Rightarrow> scanned" where
  "scan_uint b n [] = Number n"
| "scan_uint b n (c # s) =
     (case digit_of c of
        None \<Rightarrow> NoNumber
      | Some v \<Rightarrow> if b \<le> v then NoNumber
                  else if 2 ^ 64 \<le> b * n + v then TooBig
                  else scan_uint b (b * n + v) s)"

definition parse_uint :: "nat \<Rightarrow> string \<Rightarrow> scanned" where
  "parse_uint b s =
     (if s = [] then NoNumber
      else if b \<noteq> 0 then scan_uint b 0 s
      else if hd s = CHR ''0'' \<and> 1 < length s \<and> (s ! 1 = CHR ''x'' \<or> s ! 1 = CHR ''X'')
        then (if length s = 2 then NoNumber else scan_uint 16 0 (drop 2 s))
      else scan_uint (if hd s = CHR ''0'' then 8 else 10) 0 s)"

text \<open>\<open>ParseInt\<close> into 64 bits: the number, which is 0 or the nearest one on an error.\<close>

definition parse_int :: "nat \<Rightarrow> string \<Rightarrow> int \<times> goerr option" where
  "parse_int b s =
     (if s = [] then (0, Some (num_error ''ParseInt'' s ''invalid syntax''))
      else let (neg, d) = split_sign s
           in case parse_uint b d of
                NoNumber \<Rightarrow> (0, Some (num_error ''ParseInt'' s ''invalid syntax''))
              | TooBig \<Rightarrow> (if neg then - (2 ^ 63) else 2 ^ 63 - 1, Some (num_error ''ParseInt'' s ''value out of range''))
              | Number n \<Rightarrow>
                  if \<not> neg \<and> 2 ^ 63 \<le> n then (2 ^ 63 - 1, Some (num_error ''ParseInt'' s ''value out of range''))
                  else if neg \<and> 2 ^ 63 < n then (- (2 ^ 63), Some (num_error ''ParseInt'' s ''value out of range''))
                  else (if neg then - int n else int n, None))"

section \<open>Values\<close>

text \<open>
  The environment, and \<open>ParseDuration\<close> and \<open>Duration.String\<close> of package \<open>time\<close>, whose rounding of
  fractions depends on Go's release.
\<close>

record flagenv =
  fe_getenv :: "string \<Rightarrow> string"
  fe_parse :: "string \<Rightarrow> int result"
  fe_show :: "int \<Rightarrow> string"

datatype fvalue =
    VString string
  | VBool bool
  | VInt int
  | VDuration int
  | VStrings "string list"
  | VInts "int list"

definition bracket :: "string list \<Rightarrow> string" where
  "bracket xs = ''['' @ join_with '' '' xs @ '']''"

fun value_string :: "flagenv \<Rightarrow> fvalue \<Rightarrow> string" where
  "value_string fe (VString s) = s"
| "value_string fe (VBool b) = format_bool b"
| "value_string fe (VInt n) = format_int n"
| "value_string fe (VDuration d) = fe_show fe d"
| "value_string fe (VStrings xs) = bracket xs"
| "value_string fe (VInts ns) = bracket (map format_int ns)"

text \<open>\<open>Set\<close>: a value that does not parse still replaces the old one, except in a slice.\<close>

fun value_set :: "flagenv \<Rightarrow> string \<Rightarrow> fvalue \<Rightarrow> fvalue \<times> goerr option" where
  "value_set fe s (VString _) = (VString s, None)"
| "value_set fe s (VBool _) = (case parse_bool s of Inl e \<Rightarrow> (VBool False, Some e) | Inr b \<Rightarrow> (VBool b, None))"
| "value_set fe s (VInt _) = (let (n, err) = parse_int 0 s in (VInt n, err))"
| "value_set fe s (VDuration _) = (case fe_parse fe s of Inl e \<Rightarrow> (VDuration 0, Some e) | Inr d \<Rightarrow> (VDuration d, None))"
| "value_set fe s (VStrings xs) = (VStrings (xs @ [s]), None)"
| "value_set fe s (VInts ns) =
     (let (n, err) = parse_int 10 s in case err of Some e \<Rightarrow> (VInts ns, Some e) | None \<Rightarrow> (VInts (ns @ [n]), None))"

section \<open>Flag sets\<close>

text \<open>
  The values are cells, since the two names of a slice flag share one.  \<open>fs_actual\<close> are the names that
  were set, \<open>fs_args\<close> what is left of the arguments.
\<close>

record flagset =
  fs_cells :: "fvalue list"
  fs_formal :: "string \<rightharpoonup> nat"
  fs_actual :: "string list"
  fs_args :: "string list"

definition newFlagSet :: flagset where
  "newFlagSet = \<lparr>fs_cells = [], fs_formal = Map.empty, fs_actual = [], fs_args = []\<rparr>"

definition set_var :: "nat \<Rightarrow> string \<Rightarrow> flagset \<Rightarrow> flagset outcome" where
  "set_var cell name fs =
     (if fs_formal fs name \<noteq> None then Panics else Returns (fs\<lparr>fs_formal := (fs_formal fs)(name \<mapsto> cell)\<rparr>))"

definition new_cell :: "fvalue \<Rightarrow> flagset \<Rightarrow> nat \<times> flagset" where
  "new_cell v fs = (length (fs_cells fs), fs\<lparr>fs_cells := fs_cells fs @ [v]\<rparr>)"

definition lookup :: "string \<Rightarrow> flagset \<Rightarrow> fvalue option" where
  "lookup name fs = map_option ((!) (fs_cells fs)) (fs_formal fs name)"

definition store :: "nat \<Rightarrow> fvalue \<Rightarrow> flagset \<Rightarrow> flagset" where
  "store cell v fs = fs\<lparr>fs_cells := (fs_cells fs)[cell := v]\<rparr>"

definition mark :: "string \<Rightarrow> flagset \<Rightarrow> flagset" where
  "mark name fs = fs\<lparr>fs_actual := name # fs_actual fs\<rparr>"

text \<open>\<open>FlagSet.Set\<close>\<close>

definition set_flag :: "flagenv \<Rightarrow> string \<Rightarrow> string \<Rightarrow> flagset \<Rightarrow> flagset \<times> goerr option" where
  "set_flag fe name s fs =
     (case fs_formal fs name of
        None \<Rightarrow> (fs, Some (ErrMsg (''no such flag -'' @ name)))
      | Some cell \<Rightarrow>
          (let (v, err) = value_set fe s (fs_cells fs ! cell)
           in case err of
                Some e \<Rightarrow> (store cell v fs, Some e)
              | None \<Rightarrow> (mark name (store cell v fs), None)))"

text \<open>The name of a flag, and its value behind the first \<open>=\<close> that is not at the start.\<close>

definition split_eq :: "string \<Rightarrow> string \<times> string option" where
  "split_eq name =
     (let (a, b) = (takeWhile (\<lambda>c. c \<noteq> CHR ''='') (tl name), dropWhile (\<lambda>c. c \<noteq> CHR ''='') (tl name))
      in (hd name # a, if b = [] then None else Some (tl b)))"

definition bad_value :: "string \<Rightarrow> string \<Rightarrow> string \<Rightarrow> string \<Rightarrow> goerr \<Rightarrow> goerr" where
  "bad_value what value between name e =
     ErrMsg (''invalid '' @ what @ ''value '' @ quote value @ '' for '' @ between @ ''-'' @ name @ '': '' @ err_text e)"

text \<open>What follows the one or two dashes.\<close>

definition flag_body :: "string \<Rightarrow> string" where
  "flag_body s = drop (if s ! 1 = CHR ''-'' then 2 else 1) s"

definition parseOne :: "flagenv \<Rightarrow> flagset \<Rightarrow> flagset \<times> bool \<times> goerr option" where
  "parseOne fe fs =
     (case fs_args fs of
        [] \<Rightarrow> (fs, False, None)
      | s # rest \<Rightarrow>
          if length s < 2 \<or> hd s \<noteq> CHR ''-'' then (fs, False, None)
          else if s = ''--'' then (fs\<lparr>fs_args := rest\<rparr>, False, None)
          else let name = flag_body s
               in if name = [] \<or> hd name = CHR ''-'' \<or> hd name = CHR ''=''
                  then (fs, False, Some (ErrMsg (''bad flag syntax: '' @ s)))
                  else let (name, value) = split_eq name; fs1 = fs\<lparr>fs_args := rest\<rparr>
                       in case fs_formal fs name of
                            None \<Rightarrow> (fs1, False, Some (ErrMsg
                              (if name = ''help'' \<or> name = ''h'' then ''flag: help requested''
                               else ''flag provided but not defined: -'' @ name)))
                          | Some cell \<Rightarrow>
                              (case fs_cells fs ! cell of
                                 VBool b \<Rightarrow>
                                   (let x = (case value of None \<Rightarrow> ''true'' | Some x \<Rightarrow> x);
                                        (v, err) = value_set fe x (VBool b)
                                    in case err of
                                         Some e \<Rightarrow> (store cell v fs1, False, Some (bad_value ''boolean '' x [] name e))
                                       | None \<Rightarrow> (mark name (store cell v fs1), True, None))
                               | old \<Rightarrow>
                                   (case (case value of
                                            Some x \<Rightarrow> Some (x, rest)
                                          | None \<Rightarrow> (case rest of [] \<Rightarrow> None | x # rest1 \<Rightarrow> Some (x, rest1))) of
                                      None \<Rightarrow> (fs1, False, Some (ErrMsg (''flag needs an argument: -'' @ name)))
                                    | Some (x, rest1) \<Rightarrow>
                                        (let (v, err) = value_set fe x old; fs2 = store cell v (fs\<lparr>fs_args := rest1\<rparr>)
                                         in case err of
                                              Some e \<Rightarrow> (fs2, False, Some (bad_value [] x ''flag '' name e))
                                            | None \<Rightarrow> (mark name fs2, True, None)))))"

lemma parseOne_shrinks: "parseOne fe fs = (fs', True, err) \<Longrightarrow> length (fs_args fs') < length (fs_args fs)"
  unfolding parseOne_def Let_def
  by (auto simp: store_def mark_def split: list.splits if_splits prod.splits option.splits fvalue.splits)

text \<open>\<open>Parse\<close>, with the arguments as \<open>fs_args\<close>.\<close>

function parse_args :: "flagenv \<Rightarrow> flagset \<Rightarrow> flagset \<times> goerr option" where
  "parse_args fe fs =
     (case parseOne fe fs of
        (fs', seen, err) \<Rightarrow> if seen then parse_args fe fs' else (fs', err))"
  by pat_completeness auto
termination
  apply (relation "measure (\<lambda>(fe, fs). length (fs_args fs))")
  subgoal by simp
  subgoal for fe fs fs' y seen err
    using parseOne_shrinks[of fe fs fs' err] by auto
  done

declare parse_args.simps [simp del]

definition parse_set :: "flagenv \<Rightarrow> string list \<Rightarrow> flagset \<Rightarrow> flagset \<times> goerr option" where
  "parse_set fe arguments fs = parse_args fe (fs\<lparr>fs_args := arguments\<rparr>)"

section \<open>Kinds of flags\<close>

datatype cliflag =
    StringFlag (f_Name: string) (f_String: string) (f_Usage: string) (f_EnvVar: string)
  | BoolFlag (f_Name: string) (f_Usage: string) (f_EnvVar: string)
  | BoolTFlag (f_Name: string) (f_Usage: string) (f_EnvVar: string)
  | IntFlag (f_Name: string) (f_Int: int) (f_Usage: string) (f_EnvVar: string)
  | DurationFlag (f_Name: string) (f_Duration: int) (f_Usage: string) (f_EnvVar: string)
  | StringSliceFlag (f_Name: string) (f_Strings: "string list option") (f_Usage: string) (f_EnvVar: string)
  | IntSliceFlag (f_Name: string) (f_Ints: "int list option") (f_Usage: string) (f_EnvVar: string)

definition BashCompletionFlag :: cliflag where
  "BashCompletionFlag = BoolFlag ''generate-bash-completion'' [] []"

definition VersionFlag :: cliflag where
  "VersionFlag = BoolFlag ''version, v'' ''print the version'' []"

definition HelpFlag :: cliflag where
  "HelpFlag = BoolFlag ''help, h'' ''show help'' []"

definition strip_blanks :: "string \<Rightarrow> string" where
  "strip_blanks s = rev (dropWhile (\<lambda>c. c = CHR '' '') (rev (dropWhile (\<lambda>c. c = CHR '' '') s)))"

definition eachName :: "string \<Rightarrow> string list" where
  "eachName longName = map strip_blanks (split_on (CHR '','') longName)"

text \<open>The values of the environment variables of a flag that are not empty, in order.\<close>

definition env_values :: "flagenv \<Rightarrow> string \<Rightarrow> string list" where
  "env_values fe envVar =
     (if envVar = [] then []
      else filter (\<lambda>v. v \<noteq> []) (map (\<lambda>n. fe_getenv fe (trim_space n)) (split_on (CHR '','') envVar)))"

text \<open>The first that parses, for the kinds that go on when one does not.\<close>

fun first_good :: "(string \<Rightarrow> 'a result) \<Rightarrow> 'a \<Rightarrow> string list \<Rightarrow> 'a" where
  "first_good p d [] = d"
| "first_good p d (v # vs) = (case p v of Inl _ \<Rightarrow> first_good p d vs | Inr x \<Rightarrow> x)"

definition env_int :: "string \<Rightarrow> int result" where
  "env_int s = (case parse_int 0 s of (n, None) \<Rightarrow> Inr n | (_, Some e) \<Rightarrow> Inl e)"

definition comma_ints :: "string \<Rightarrow> int list" where
  "comma_ints v = concat (map (\<lambda>s. case parse_int 10 (trim_space s) of (n, None) \<Rightarrow> [n] | _ \<Rightarrow> []) (split_on (CHR '','') v))"

fun add_names :: "fvalue \<Rightarrow> string list \<Rightarrow> flagset \<Rightarrow> flagset outcome" where
  "add_names v [] fs = Returns fs"
| "add_names v (name # names) fs =
     (let (cell, fs1) = new_cell v fs
      in case set_var cell name fs1 of Panics \<Rightarrow> Panics | Returns fs2 \<Rightarrow> add_names v names fs2)"

fun add_shared :: "nat \<Rightarrow> string list \<Rightarrow> flagset \<Rightarrow> flagset outcome" where
  "add_shared cell [] fs = Returns fs"
| "add_shared cell (name # names) fs =
     (case set_var cell name fs of Panics \<Rightarrow> Panics | Returns fs1 \<Rightarrow> add_shared cell names fs1)"

text \<open>
  \<open>Apply\<close>, kind by kind: the value from the environment or the default, one per name, but a single one for
  all names of a slice.
\<close>

definition applyString :: "flagenv \<Rightarrow> string \<Rightarrow> string \<Rightarrow> string \<Rightarrow> flagset \<Rightarrow> flagset outcome" where
  "applyString fe name v ev fs =
     add_names (VString (case env_values fe ev of [] \<Rightarrow> v | x # _ \<Rightarrow> x)) (eachName name) fs"

definition applyBool :: "flagenv \<Rightarrow> string \<Rightarrow> string \<Rightarrow> flagset \<Rightarrow> flagset outcome" where
  "applyBool fe name ev fs =
     (let val = (case env_values fe ev of [] \<Rightarrow> False | x # _ \<Rightarrow> (case parse_bool x of Inl _ \<Rightarrow> False | Inr b \<Rightarrow> b))
      in add_names (VBool val) (eachName name) fs)"

definition applyBoolT :: "flagenv \<Rightarrow> string \<Rightarrow> string \<Rightarrow> flagset \<Rightarrow> flagset outcome" where
  "applyBoolT fe name ev fs = add_names (VBool (first_good parse_bool True (env_values fe ev))) (eachName name) fs"

definition applyInt :: "flagenv \<Rightarrow> string \<Rightarrow> int \<Rightarrow> string \<Rightarrow> flagset \<Rightarrow> flagset outcome" where
  "applyInt fe name v ev fs = add_names (VInt (first_good env_int v (env_values fe ev))) (eachName name) fs"

definition applyDuration :: "flagenv \<Rightarrow> string \<Rightarrow> int \<Rightarrow> string \<Rightarrow> flagset \<Rightarrow> flagset outcome" where
  "applyDuration fe name v ev fs = add_names (VDuration (first_good (fe_parse fe) v (env_values fe ev))) (eachName name) fs"

definition applyStringSlice :: "flagenv \<Rightarrow> string \<Rightarrow> string list option \<Rightarrow> string \<Rightarrow> flagset \<Rightarrow> flagset outcome" where
  "applyStringSlice fe name v ev fs =
     (let xs = (case env_values fe ev of
                  [] \<Rightarrow> (case v of None \<Rightarrow> [] | Some xs \<Rightarrow> xs)
                | x # _ \<Rightarrow> map trim_space (split_on (CHR '','') x));
          (cell, fs1) = new_cell (VStrings xs) fs
      in add_shared cell (eachName name) fs1)"

definition applyIntSlice :: "flagenv \<Rightarrow> string \<Rightarrow> int list option \<Rightarrow> string \<Rightarrow> flagset \<Rightarrow> flagset outcome" where
  "applyIntSlice fe name v ev fs =
     (let ns = (case env_values fe ev of [] \<Rightarrow> (case v of None \<Rightarrow> [] | Some ns \<Rightarrow> ns) | x # _ \<Rightarrow> comma_ints x);
          (cell, fs1) = new_cell (VInts ns) fs
      in add_shared cell (eachName name) fs1)"

fun applyFlag :: "flagenv \<Rightarrow> cliflag \<Rightarrow> flagset \<Rightarrow> flagset outcome" where
  "applyFlag fe (StringFlag n v u ev) fs = applyString fe n v ev fs"
| "applyFlag fe (BoolFlag n u ev) fs = applyBool fe n ev fs"
| "applyFlag fe (BoolTFlag n u ev) fs = applyBoolT fe n ev fs"
| "applyFlag fe (IntFlag n v u ev) fs = applyInt fe n v ev fs"
| "applyFlag fe (DurationFlag n v u ev) fs = applyDuration fe n v ev fs"
| "applyFlag fe (StringSliceFlag n v u ev) fs = applyStringSlice fe n v ev fs"
| "applyFlag fe (IntSliceFlag n v u ev) fs = applyIntSlice fe n v ev fs"

fun apply_flags :: "flagenv \<Rightarrow> cliflag list \<Rightarrow> flagset \<Rightarrow> flagset outcome" where
  "apply_flags fe [] fs = Returns fs"
| "apply_flags fe (f # flags) fs =
     (case applyFlag fe f fs of Panics \<Rightarrow> Panics | Returns fs1 \<Rightarrow> apply_flags fe flags fs1)"

definition flagSet :: "flagenv \<Rightarrow> cliflag list \<Rightarrow> flagset outcome" where
  "flagSet fe flags = apply_flags fe flags newFlagSet"

section \<open>Lookups\<close>

definition lookupString :: "flagenv \<Rightarrow> string \<Rightarrow> flagset \<Rightarrow> string" where
  "lookupString fe name fs = (case lookup name fs of None \<Rightarrow> [] | Some v \<Rightarrow> value_string fe v)"

definition lookupInt :: "flagenv \<Rightarrow> string \<Rightarrow> flagset \<Rightarrow> int" where
  "lookupInt fe name fs =
     (case lookup name fs of
        None \<Rightarrow> 0
      | Some v \<Rightarrow> (case parse_int 10 (value_string fe v) of (n, None) \<Rightarrow> n | _ \<Rightarrow> 0))"

definition lookupDuration :: "flagenv \<Rightarrow> string \<Rightarrow> flagset \<Rightarrow> int" where
  "lookupDuration fe name fs =
     (case lookup name fs of
        None \<Rightarrow> 0
      | Some v \<Rightarrow> (case fe_parse fe (value_string fe v) of Inl _ \<Rightarrow> 0 | Inr d \<Rightarrow> d))"

definition lookupBool :: "flagenv \<Rightarrow> string \<Rightarrow> flagset \<Rightarrow> bool" where
  "lookupBool fe name fs =
     (case lookup name fs of
        None \<Rightarrow> False
      | Some v \<Rightarrow> (case parse_bool (value_string fe v) of Inl _ \<Rightarrow> False | Inr b \<Rightarrow> b))"

definition lookupBoolT :: "flagenv \<Rightarrow> string \<Rightarrow> flagset \<Rightarrow> bool" where
  "lookupBoolT fe name fs =
     (case lookup name fs of
        None \<Rightarrow> False
      | Some v \<Rightarrow> (case parse_bool (value_string fe v) of Inl _ \<Rightarrow> True | Inr b \<Rightarrow> b))"

text \<open>The type assertions panic on a flag of another kind.\<close>

definition lookupStringSlice :: "string \<Rightarrow> flagset \<Rightarrow> string list outcome" where
  "lookupStringSlice name fs =
     (case lookup name fs of None \<Rightarrow> Returns [] | Some (VStrings xs) \<Rightarrow> Returns xs | _ \<Rightarrow> Panics)"

definition lookupIntSlice :: "string \<Rightarrow> flagset \<Rightarrow> int list outcome" where
  "lookupIntSlice name fs =
     (case lookup name fs of None \<Rightarrow> Returns [] | Some (VInts ns) \<Rightarrow> Returns ns | _ \<Rightarrow> Panics)"

section \<open>Two names for one flag\<close>

definition copyFlag :: "flagenv \<Rightarrow> string \<Rightarrow> string \<Rightarrow> flagset \<Rightarrow> flagset" where
  "copyFlag fe name ff fs =
     (case lookup ff fs of
        None \<Rightarrow> fs
      | Some (VStrings _) \<Rightarrow> fs
      | Some v \<Rightarrow> fst (set_flag fe name (value_string fe v) fs))"

text \<open>The form that was used, or the error that two were.\<close>

fun used_form :: "string set \<Rightarrow> string option \<Rightarrow> string list \<Rightarrow> string option result" where
  "used_form visited ff [] = Inr ff"
| "used_form visited ff (name # names) =
     (if name \<in> visited then
        (case ff of
           Some other \<Rightarrow> Inl (ErrMsg (''Cannot use two forms of the same flag: '' @ name @ '' '' @ other))
         | None \<Rightarrow> used_form visited (Some name) names)
      else used_form visited ff names)"

fun normalize :: "flagenv \<Rightarrow> string set \<Rightarrow> cliflag list \<Rightarrow> flagset \<Rightarrow> flagset \<times> goerr option" where
  "normalize fe visited [] fs = (fs, None)"
| "normalize fe visited (f # flags) fs =
     (let parts = eachName (f_Name f)
      in if length parts = 1 then normalize fe visited flags fs
         else case used_form visited None parts of
                Inl e \<Rightarrow> (fs, Some e)
              | Inr None \<Rightarrow> normalize fe visited flags fs
              | Inr (Some ff) \<Rightarrow>
                  normalize fe visited flags
                    (foldl (\<lambda>fs name. if name \<in> visited then fs else copyFlag fe name ff fs) fs parts))"

definition normalizeFlags :: "flagenv \<Rightarrow> cliflag list \<Rightarrow> flagset \<Rightarrow> flagset \<times> goerr option" where
  "normalizeFlags fe flags fs = normalize fe (set (fs_actual fs)) flags fs"

end
