(* ===== verification/FlagProps.thy ===== *)
theory FlagProps
  imports Flags
begin

text \<open>
  What flag sets and parsing do, for the proofs about command lines.
\<close>

section \<open>Flag sets\<close>

lemma names:
  "eachName ''connect, c'' = [''connect'', ''c'']" "eachName ''help, h'' = [''help'', ''h'']"
  "eachName ''version, v'' = [''version'', ''v'']"
  by (simp_all add: eachName_def strip_blanks_def)

text \<open>All names of the flags.\<close>

definition flag_names :: "cliflag list \<Rightarrow> string list" where
  "flag_names flags = concat (map (\<lambda>f. eachName (f_Name f)) flags)"

definition formal_ok :: "flagset \<Rightarrow> bool" where
  "formal_ok fs \<longleftrightarrow> (\<forall>n k. fs_formal fs n = Some k \<longrightarrow> k < length (fs_cells fs))"

lemma old_cells:
  "formal_ok fs \<Longrightarrow> map_option ((!) (fs_cells fs @ [v])) (fs_formal fs n) = map_option ((!) (fs_cells fs)) (fs_formal fs n)"
  by (cases "fs_formal fs n") (auto simp: formal_ok_def nth_append)

text \<open>What adding names does: the new ones have the value, in a cell of their own or in one, the others keep theirs.\<close>

lemma add_names_ok:
  assumes "distinct names" "set names \<inter> dom (fs_formal fs) = {}" "formal_ok fs"
  shows "\<exists>fs'. add_names v names fs = Returns fs' \<and> formal_ok fs' \<and> fs_actual fs' = fs_actual fs \<and>
    dom (fs_formal fs') = dom (fs_formal fs) \<union> set names \<and>
    (\<forall>n. lookup n fs' = (if n \<in> set names then Some v else lookup n fs))"
  using assms
proof (induction names arbitrary: fs)
  case (Cons name names)
  let ?fs = "fs\<lparr>fs_cells := fs_cells fs @ [v], fs_formal := (fs_formal fs)(name \<mapsto> length (fs_cells fs))\<rparr>"
  have ok: "formal_ok ?fs"
    using Cons.prems(3) by (auto simp: formal_ok_def less_Suc_eq)
  have d: "distinct names" "set names \<inter> dom (fs_formal ?fs) = {}"
    using Cons.prems by auto
  obtain fs' where fs': "add_names v names ?fs = Returns fs'" "formal_ok fs'" "fs_actual fs' = fs_actual ?fs"
      "dom (fs_formal fs') = dom (fs_formal ?fs) \<union> set names"
      "\<And>n. lookup n fs' = (if n \<in> set names then Some v else lookup n ?fs)"
    using Cons.IH[OF d ok] by blast
  have "lookup n ?fs = (if n = name then Some v else lookup n fs)" for n
    using old_cells[OF Cons.prems(3)] by (simp add: lookup_def)
  moreover have "fs_formal fs name = None"
    using Cons.prems(2) by auto
  ultimately show ?case
    using fs' by (auto simp: new_cell_def set_var_def Let_def)
qed simp

lemma add_shared_ok:
  assumes "distinct names" "set names \<inter> dom (fs_formal fs) = {}" "formal_ok fs" "k < length (fs_cells fs)"
  shows "\<exists>fs'. add_shared k names fs = Returns fs' \<and> formal_ok fs' \<and> fs_actual fs' = fs_actual fs \<and> fs_cells fs' = fs_cells fs \<and>
    (\<forall>n. fs_formal fs' n = (if n \<in> set names then Some k else fs_formal fs n))"
  using assms
proof (induction names arbitrary: fs)
  case (Cons name names)
  let ?fs = "fs\<lparr>fs_formal := (fs_formal fs)(name \<mapsto> k)\<rparr>"
  have ok: "formal_ok ?fs" "k < length (fs_cells ?fs)"
    using Cons.prems(3,4) by (auto simp: formal_ok_def)
  have d: "distinct names" "set names \<inter> dom (fs_formal ?fs) = {}"
    using Cons.prems by auto
  obtain fs' where "add_shared k names ?fs = Returns fs'" "formal_ok fs'" "fs_actual fs' = fs_actual ?fs"
      "fs_cells fs' = fs_cells ?fs" "\<And>n. fs_formal fs' n = (if n \<in> set names then Some k else fs_formal ?fs n)"
    using Cons.IH[OF d ok] by blast
  moreover have "fs_formal fs name = None"
    using Cons.prems(2) by auto
  ultimately show ?case
    by (auto simp: set_var_def)
qed simp

text \<open>What a flag holds before the arguments are parsed.\<close>

fun initial :: "flagenv \<Rightarrow> cliflag \<Rightarrow> fvalue" where
  "initial fe (StringFlag n v u ev) = VString (case env_values fe ev of [] \<Rightarrow> v | x # _ \<Rightarrow> x)"
| "initial fe (BoolFlag n u ev) =
     VBool (case env_values fe ev of [] \<Rightarrow> False | x # _ \<Rightarrow> (case parse_bool x of Inl _ \<Rightarrow> False | Inr b \<Rightarrow> b))"
| "initial fe (BoolTFlag n u ev) = VBool (first_good parse_bool True (env_values fe ev))"
| "initial fe (IntFlag n v u ev) = VInt (first_good env_int v (env_values fe ev))"
| "initial fe (DurationFlag n v u ev) = VDuration (first_good (fe_parse fe) v (env_values fe ev))"
| "initial fe (StringSliceFlag n v u ev) =
     VStrings (case env_values fe ev of
         [] \<Rightarrow> (case v of None \<Rightarrow> [] | Some xs \<Rightarrow> xs)
       | x # _ \<Rightarrow> map trim_space (split_on (CHR '','') x))"
| "initial fe (IntSliceFlag n v u ev) =
     VInts (case env_values fe ev of [] \<Rightarrow> (case v of None \<Rightarrow> [] | Some xs \<Rightarrow> xs) | x # _ \<Rightarrow> comma_ints x)"

lemma applyFlag_initial:
  "applyFlag fe f fs =
     (case initial fe f of
        VStrings xs \<Rightarrow> (let (cell, fs1) = new_cell (VStrings xs) fs in add_shared cell (eachName (f_Name f)) fs1)
      | VInts ns \<Rightarrow> (let (cell, fs1) = new_cell (VInts ns) fs in add_shared cell (eachName (f_Name f)) fs1)
      | v \<Rightarrow> add_names v (eachName (f_Name f)) fs)"
  by (cases f) (simp_all add: applyString_def applyBool_def applyBoolT_def applyInt_def applyDuration_def
      applyStringSlice_def applyIntSlice_def Let_def)

lemma applyFlag_ok:
  assumes "distinct (eachName (f_Name f))" "set (eachName (f_Name f)) \<inter> dom (fs_formal fs) = {}" "formal_ok fs"
  shows "\<exists>fs'. applyFlag fe f fs = Returns fs' \<and> formal_ok fs' \<and> fs_actual fs' = fs_actual fs \<and>
    dom (fs_formal fs') = dom (fs_formal fs) \<union> set (eachName (f_Name f)) \<and>
    (\<forall>n. lookup n fs' = (if n \<in> set (eachName (f_Name f)) then Some (initial fe f) else lookup n fs))"
proof -
  let ?names = "eachName (f_Name f)"
  have shared: "\<exists>fs'. (let (cell, fs1) = new_cell v fs in add_shared cell ?names fs1) = Returns fs' \<and> formal_ok fs' \<and>
      fs_actual fs' = fs_actual fs \<and> dom (fs_formal fs') = dom (fs_formal fs) \<union> set ?names \<and>
      (\<forall>n. lookup n fs' = (if n \<in> set ?names then Some v else lookup n fs))" for v
  proof -
    let ?fs = "fs\<lparr>fs_cells := fs_cells fs @ [v]\<rparr>"
    have "formal_ok ?fs"
      using assms(3) by (auto simp: formal_ok_def less_Suc_eq)
    then obtain fs' where fs': "add_shared (length (fs_cells fs)) ?names ?fs = Returns fs'" "formal_ok fs'"
        "fs_actual fs' = fs_actual fs" "fs_cells fs' = fs_cells fs @ [v]"
        "\<And>n. fs_formal fs' n = (if n \<in> set ?names then Some (length (fs_cells fs)) else fs_formal fs n)"
      using add_shared_ok[of ?names ?fs "length (fs_cells fs)"] assms by auto
    have "lookup n fs' = (if n \<in> set ?names then Some v else lookup n fs)" for n
      using old_cells[OF assms(3)] fs'(4,5) by (simp add: lookup_def)
    moreover have "dom (fs_formal fs') = dom (fs_formal fs) \<union> set ?names"
      using fs'(5) by (auto simp: dom_def split: if_splits)
    ultimately show ?thesis
      using fs'(1-3) by (simp add: new_cell_def)
  qed
  show ?thesis
    using shared[of "initial fe f"] add_names_ok[OF assms, of "initial fe f"]
    by (cases "initial fe f") (simp_all add: applyFlag_initial)
qed

lemma flagSet_ok:
  assumes "distinct (flag_names flags)"
  shows "\<exists>fs. flagSet fe flags = Returns fs \<and> formal_ok fs \<and> fs_actual fs = [] \<and>
    dom (fs_formal fs) = set (flag_names flags) \<and>
    (\<forall>f\<in>set flags. \<forall>n\<in>set (eachName (f_Name f)). lookup n fs = Some (initial fe f))"
proof -
  have "\<exists>fs'. apply_flags fe flags fs = Returns fs' \<and> formal_ok fs' \<and> fs_actual fs' = fs_actual fs \<and>
      dom (fs_formal fs') = dom (fs_formal fs) \<union> set (flag_names flags) \<and>
      (\<forall>f\<in>set flags. \<forall>n\<in>set (eachName (f_Name f)). lookup n fs' = Some (initial fe f)) \<and>
      (\<forall>n. n \<notin> set (flag_names flags) \<longrightarrow> lookup n fs' = lookup n fs)"
    if "formal_ok fs" "set (flag_names flags) \<inter> dom (fs_formal fs) = {}" for fs
    using assms that
  proof (induction flags arbitrary: fs)
    case (Cons f flags)
    have d: "distinct (eachName (f_Name f))" "set (eachName (f_Name f)) \<inter> dom (fs_formal fs) = {}"
      using Cons.prems by (auto simp: flag_names_def)
    obtain fs1 where 1: "applyFlag fe f fs = Returns fs1" "formal_ok fs1" "fs_actual fs1 = fs_actual fs"
        "dom (fs_formal fs1) = dom (fs_formal fs) \<union> set (eachName (f_Name f))"
        "\<And>n. lookup n fs1 = (if n \<in> set (eachName (f_Name f)) then Some (initial fe f) else lookup n fs)"
      using applyFlag_ok[OF d Cons.prems(2)] by blast
    have "distinct (flag_names flags)" "set (flag_names flags) \<inter> dom (fs_formal fs1) = {}"
      "set (flag_names flags) \<inter> set (eachName (f_Name f)) = {}"
      using Cons.prems unfolding 1(4) by (auto simp: flag_names_def)
    note rest = this
    obtain fs2 where 2: "apply_flags fe flags fs1 = Returns fs2" "formal_ok fs2" "fs_actual fs2 = fs_actual fs1"
        "dom (fs_formal fs2) = dom (fs_formal fs1) \<union> set (flag_names flags)"
        "\<And>g n. g \<in> set flags \<Longrightarrow> n \<in> set (eachName (f_Name g)) \<Longrightarrow> lookup n fs2 = Some (initial fe g)"
        "\<And>n. n \<notin> set (flag_names flags) \<Longrightarrow> lookup n fs2 = lookup n fs1"
      using Cons.IH[OF rest(1) 1(2) rest(2)] by blast
    have names: "flag_names (f # flags) = eachName (f_Name f) @ flag_names flags"
      by (simp add: flag_names_def)
    have "lookup n fs2 = Some (initial fe f)" if "n \<in> set (eachName (f_Name f))" for n
      using 2(6)[of n] rest(3) that 1(5) by auto
    then show ?case
      using 1 2 unfolding names by auto
  qed (simp add: flag_names_def)
  from this[of newFlagSet] show ?thesis
    by (auto simp: flagSet_def newFlagSet_def formal_ok_def)
qed

section \<open>Parsing\<close>

text \<open>Arguments at which parsing stops, names of flags, and the two ways to write a flag.\<close>

definition plain :: "string \<Rightarrow> bool" where
  "plain s \<longleftrightarrow> length s < 2 \<or> hd s \<noteq> CHR ''-''"

definition flag_name :: "string \<Rightarrow> bool" where
  "flag_name n \<longleftrightarrow> n \<noteq> [] \<and> hd n \<noteq> CHR ''-'' \<and> CHR ''='' \<notin> set n"

definition flag_arg :: "string \<Rightarrow> string \<Rightarrow> bool" where
  "flag_arg n s \<longleftrightarrow> s = ''-'' @ n \<or> s = ''--'' @ n"

lemma parse_stop: "fs_args fs = [] \<or> plain (hd (fs_args fs)) \<Longrightarrow> parse_args fe fs = (fs, None)"
  by (subst parse_args.simps) (auto simp: parseOne_def plain_def split: list.splits)

lemma parse_terminator: "fs_args fs = ''--'' # rest \<Longrightarrow> parse_args fe fs = (fs\<lparr>fs_args := rest\<rparr>, None)"
  by (subst parse_args.simps) (simp add: parseOne_def)

lemma split_eq_name: "n \<noteq> [] \<Longrightarrow> CHR ''='' \<notin> set n \<Longrightarrow> split_eq n = (n, None)"
  by (cases n) (auto simp: split_eq_def Let_def takeWhile_eq_all_conv dropWhile_eq_Nil_conv)

lemma flag_text:
  assumes "flag_name n" "flag_arg n s"
  shows "\<not> length s < 2" "hd s = CHR ''-''" "s \<noteq> ''--''" "flag_body s = n"
    "n \<noteq> []" "hd n \<noteq> CHR ''-''" "hd n \<noteq> CHR ''=''" "split_eq n = (n, None)"
proof -
  have n: "n \<noteq> []" "hd n \<noteq> CHR ''-''" "CHR ''='' \<notin> set n"
    using assms(1) by (simp_all add: flag_name_def)
  then show "n \<noteq> []" "hd n \<noteq> CHR ''-''" "split_eq n = (n, None)"
    by (simp_all add: split_eq_name)
  show "hd n \<noteq> CHR ''=''"
    using n hd_in_set[of n] by metis
  show "\<not> length s < 2" "hd s = CHR ''-''" "s \<noteq> ''--''" "flag_body s = n"
    using n assms(2) by (cases n; auto simp: flag_arg_def flag_body_def)+
qed

lemma parse_string:
  assumes "flag_name n" "flag_arg n s" "fs_args fs = s # v # rest" "fs_formal fs n = Some k" "fs_cells fs ! k = VString old"
  shows "parse_args fe fs = parse_args fe (mark n (store k (VString v) (fs\<lparr>fs_args := rest\<rparr>)))"
  by (subst parse_args.simps) (simp add: parseOne_def flag_text[OF assms(1,2)] assms(3-5) Let_def store_def)

lemma parse_slice:
  assumes "flag_name n" "flag_arg n s" "fs_args fs = s # v # rest" "fs_formal fs n = Some k" "fs_cells fs ! k = VStrings xs"
  shows "parse_args fe fs = parse_args fe (mark n (store k (VStrings (xs @ [v])) (fs\<lparr>fs_args := rest\<rparr>)))"
  by (subst parse_args.simps) (simp add: parseOne_def flag_text[OF assms(1,2)] assms(3-5) Let_def store_def)

lemma parse_switch:
  assumes "flag_name n" "flag_arg n s" "fs_args fs = s # rest" "fs_formal fs n = Some k" "fs_cells fs ! k = VBool old"
  shows "parse_args fe fs = parse_args fe (mark n (store k (VBool True) (fs\<lparr>fs_args := rest\<rparr>)))"
  by (subst parse_args.simps)
    (simp add: parseOne_def flag_text[OF assms(1,2)] assms(3-5) Let_def store_def parse_bool_def)

lemma parse_unknown:
  assumes "n \<noteq> []" "hd n \<noteq> CHR ''-''" "hd n \<noteq> CHR ''=''" "fs_args fs = (''-'' @ n) # rest"
    "fs_formal fs (fst (split_eq n)) = None"
  shows "\<exists>e. parse_args fe fs = (fs\<lparr>fs_args := rest\<rparr>, Some e)"
proof -
  obtain m v where m: "split_eq n = (m, v)"
    by (rule prod.exhaust)
  have "\<not> length (''-'' @ n) < 2" "(''-'' @ n) \<noteq> ''--''" "flag_body (''-'' @ n) = n"
    using assms(1,2) by (cases n; auto simp: flag_body_def)+
  then show ?thesis
    using assms m by (subst parse_args.simps) (simp add: parseOne_def Let_def)
qed

text \<open>An unmarked flag set is normal.\<close>

lemma used_form_none: "set names \<inter> visited = {} \<Longrightarrow> used_form visited ff names = Inr ff"
  by (induction names arbitrary: ff) auto

lemma normalize_other:
  assumes "\<forall>f\<in>set flags. length (eachName (f_Name f)) \<noteq> 1 \<longrightarrow> set (eachName (f_Name f)) \<inter> visited = {}"
  shows "normalize fe visited flags fs = (fs, None)"
  using assms by (induction flags) (auto simp: Let_def used_form_none)

lemma normalize_append:
  "normalize fe visited (xs @ ys) fs =
     (case normalize fe visited xs fs of (fs1, Some e) \<Rightarrow> (fs1, Some e) | (fs1, None) \<Rightarrow> normalize fe visited ys fs1)"
  by (induction xs arbitrary: fs) (auto simp: Let_def split: sum.splits option.splits)

lemma normalize_unmarked: "fs_actual fs = [] \<Longrightarrow> normalizeFlags fe flags fs = (fs, None)"
  by (simp add: normalizeFlags_def normalize_other)

text \<open>Parsing never panics on a set whose names have cells, and keeps it so.\<close>

lemma formal_ok_store [simp]: "formal_ok (store k v fs) = formal_ok fs"
  by (simp add: formal_ok_def store_def)

lemma formal_ok_mark [simp]: "formal_ok (mark n fs) = formal_ok fs"
  by (simp add: formal_ok_def mark_def)

lemma formal_ok_args [simp]: "formal_ok (fs\<lparr>fs_args := as\<rparr>) = formal_ok fs"
  by (simp add: formal_ok_def)

end
