(* ===== verification/Cli.thy ===== *)
theory Cli
  imports FlagProps
begin

text \<open>
  Package \<open>codegangsta/cli\<close>: applications, commands and contexts (\<open>app.go\<close>, \<open>command.go\<close>, \<open>context.go\<close>,
  \<open>help.go\<close>).  A function a user hangs into an application is a name of type \<open>'a\<close>, and \<open>behaviour\<close> says
  what it does; the package's own functions are constructors of \<open>action\<close>.
\<close>

section \<open>Applications, commands, contexts\<close>

datatype 'a action = HelpAction | SubHelpAction | NamesAction | User 'a

datatype 'a command = Command
  (c_Name: string) (c_ShortName: string) (c_Aliases: "string list") (c_Usage: string) (c_Description: string)
  (c_BashComplete: "'a action option") (c_Before: "'a option") (c_After: "'a option") (c_Action: "'a action option")
  (c_Subcommands: "'a command list") (c_Flags: "cliflag list") (c_SkipFlagParsing: bool) (c_HideHelp: bool)

record 'a app =
  a_Name :: string
  a_Usage :: string
  a_Version :: string
  a_Commands :: "'a command list"
  a_Flags :: "cliflag list"
  a_EnableBashCompletion :: bool
  a_HideHelp :: bool
  a_HideVersion :: bool
  a_BashComplete :: "'a action option"
  a_Before :: "'a option"
  a_After :: "'a option"
  a_Action :: "'a action option"
  a_CommandNotFound :: "'a option"
  a_Authors :: "(string \<times> string) list"
  a_Copyright :: string
  a_Author :: string
  a_Email :: string

datatype 'a cli_context = Context
  (x_App: "'a app") (x_flagSet: flagset) (x_Command: "'a command") (x_parent: "'a cli_context option")

text \<open>
  What is shown: text, or help, which \<open>HelpPrinter\<close> makes from a template and what it is about, or
  what a user's function does.
\<close>

datatype ('a, 'o) shown = Text string | AppHelp "'a app" | CommandHelp "'a command" | SubcommandHelp "'a app" | Did 'o

record ('a, 'o) behaviour =
  run_action :: "'a \<Rightarrow> 'a cli_context \<Rightarrow> 'o list"
  run_hook :: "'a \<Rightarrow> 'a cli_context \<Rightarrow> goerr option \<times> 'o list"
  run_missing :: "'a \<Rightarrow> 'a cli_context \<Rightarrow> string \<Rightarrow> 'o list"

definition no_command :: "'a command" where
  "no_command = Command [] [] [] [] [] None None None None [] [] False False"

definition helpCommand :: "'a command" where
  "helpCommand = Command ''help'' [] [''h''] ''Shows a list of commands or help for one command'' []
     None None None (Some HelpAction) [] [] False False"

definition NewContext :: "'a app \<Rightarrow> flagset \<Rightarrow> 'a cli_context option \<Rightarrow> 'a cli_context" where
  "NewContext app fs parent = Context app fs no_command parent"

definition NewApp :: "string \<Rightarrow> 'a app" where
  "NewApp arg0 = \<lparr>a_Name = arg0, a_Usage = ''A new cli application'', a_Version = ''0.0.0'', a_Commands = [],
     a_Flags = [], a_EnableBashCompletion = False, a_HideHelp = False, a_HideVersion = False,
     a_BashComplete = Some NamesAction, a_Before = None, a_After = None, a_Action = Some HelpAction,
     a_CommandNotFound = None, a_Authors = [], a_Copyright = [], a_Author = [], a_Email = []\<rparr>"

definition Names :: "'a command \<Rightarrow> string list" where
  "Names c = [c_Name c] @ (if c_ShortName c \<noteq> [] then [c_ShortName c] else []) @ c_Aliases c"

definition HasName :: "'a command \<Rightarrow> string \<Rightarrow> bool" where
  "HasName c name \<longleftrightarrow> name \<in> set (Names c)"

definition find_command :: "'a app \<Rightarrow> string \<Rightarrow> 'a command option" where
  "find_command a name = find (\<lambda>c. HasName c name) (a_Commands a)"

definition appendFlag :: "cliflag \<Rightarrow> 'a app \<Rightarrow> 'a app" where
  "appendFlag f a = (if f \<in> set (a_Flags a) then a else a\<lparr>a_Flags := a_Flags a @ [f]\<rparr>)"

section \<open>Arguments and global flags\<close>

definition x_args :: "'a cli_context \<Rightarrow> string list" where
  "x_args ctx = fs_args (x_flagSet ctx)"

definition args_Get :: "string list \<Rightarrow> nat \<Rightarrow> string" where
  "args_Get a n = (if n < length a then a ! n else [])"

definition args_Tail :: "string list \<Rightarrow> string list" where
  "args_Tail a = (if 2 \<le> length a then drop 1 a else [])"

definition context_String :: "flagenv \<Rightarrow> string \<Rightarrow> 'a cli_context \<Rightarrow> string" where
  "context_String fe name ctx = lookupString fe name (x_flagSet ctx)"

definition context_Int :: "flagenv \<Rightarrow> string \<Rightarrow> 'a cli_context \<Rightarrow> int" where
  "context_Int fe name ctx = lookupInt fe name (x_flagSet ctx)"

definition context_Duration :: "flagenv \<Rightarrow> string \<Rightarrow> 'a cli_context \<Rightarrow> int" where
  "context_Duration fe name ctx = lookupDuration fe name (x_flagSet ctx)"

definition context_StringSlice :: "string \<Rightarrow> 'a cli_context \<Rightarrow> string list outcome" where
  "context_StringSlice name ctx = lookupStringSlice name (x_flagSet ctx)"

definition context_Bool :: "flagenv \<Rightarrow> string \<Rightarrow> 'a cli_context \<Rightarrow> bool" where
  "context_Bool fe name ctx = lookupBool fe name (x_flagSet ctx)"

fun lookupParentFlagSet :: "string \<Rightarrow> 'a cli_context \<Rightarrow> flagset option" where
  "lookupParentFlagSet name (Context a fs c parent) =
     (case parent of
        None \<Rightarrow> None
      | Some ctx \<Rightarrow> if lookup name (x_flagSet ctx) \<noteq> None then Some (x_flagSet ctx) else lookupParentFlagSet name ctx)"

definition global_Bool :: "flagenv \<Rightarrow> string \<Rightarrow> 'a cli_context \<Rightarrow> bool" where
  "global_Bool fe name ctx = (case lookupParentFlagSet name ctx of None \<Rightarrow> False | Some fs \<Rightarrow> lookupBool fe name fs)"

section \<open>Help\<close>

definition ShowCommandHelp :: "('a, 'o) behaviour \<Rightarrow> 'a cli_context \<Rightarrow> string \<Rightarrow> ('a, 'o) shown list" where
  "ShowCommandHelp b ctx command =
     (if command = [] then [SubcommandHelp (x_App ctx)]
      else case find_command (x_App ctx) command of
        Some c \<Rightarrow> [CommandHelp c]
      | None \<Rightarrow>
          (case a_CommandNotFound (x_App ctx) of
             Some f \<Rightarrow> map Did (run_missing b f ctx command)
           | None \<Rightarrow> [Text (''No help topic for '' @ [CHR 0x27] @ command @ [CHR 0x27] @ [NL])]))"

definition ShowSubcommandHelp :: "('a, 'o) behaviour \<Rightarrow> 'a cli_context \<Rightarrow> ('a, 'o) shown list" where
  "ShowSubcommandHelp b ctx = ShowCommandHelp b ctx (c_Name (x_Command ctx))"

definition ShowVersion :: "'a cli_context \<Rightarrow> ('a, 'o) shown list" where
  "ShowVersion ctx = [Text (a_Name (x_App ctx) @ '' version '' @ a_Version (x_App ctx) @ [NL])]"

definition DefaultAppComplete :: "'a cli_context \<Rightarrow> ('a, 'o) shown list" where
  "DefaultAppComplete ctx = map (\<lambda>n. Text (n @ [NL])) (concat (map Names (a_Commands (x_App ctx))))"

definition do_action :: "('a, 'o) behaviour \<Rightarrow> 'a action \<Rightarrow> 'a cli_context \<Rightarrow> ('a, 'o) shown list" where
  "do_action b act ctx =
     (case act of
        HelpAction \<Rightarrow> if x_args ctx \<noteq> [] then ShowCommandHelp b ctx (args_Get (x_args ctx) 0) else [AppHelp (x_App ctx)]
      | SubHelpAction \<Rightarrow> if x_args ctx \<noteq> [] then ShowCommandHelp b ctx (args_Get (x_args ctx) 0) else ShowSubcommandHelp b ctx
      | NamesAction \<Rightarrow> DefaultAppComplete ctx
      | User f \<Rightarrow> map Did (run_action b f ctx))"

definition ShowCompletions :: "('a, 'o) behaviour \<Rightarrow> 'a cli_context \<Rightarrow> ('a, 'o) shown list" where
  "ShowCompletions b ctx = (case a_BashComplete (x_App ctx) of None \<Rightarrow> [] | Some act \<Rightarrow> do_action b act ctx)"

definition ShowCommandCompletions :: "('a, 'o) behaviour \<Rightarrow> 'a cli_context \<Rightarrow> string \<Rightarrow> ('a, 'o) shown list" where
  "ShowCommandCompletions b ctx command =
     (case find_command (x_App ctx) command of
        None \<Rightarrow> []
      | Some c \<Rightarrow> (case c_BashComplete c of None \<Rightarrow> [] | Some act \<Rightarrow> do_action b act ctx))"

text \<open>The checks: what they show when they hold.\<close>

definition bash :: string where
  "bash = f_Name BashCompletionFlag"

definition checkCompletions :: "('a, 'o) behaviour \<Rightarrow> flagenv \<Rightarrow> 'a cli_context \<Rightarrow> ('a, 'o) shown list option" where
  "checkCompletions b fe ctx =
     (if (global_Bool fe bash ctx \<or> context_Bool fe bash ctx) \<and> a_EnableBashCompletion (x_App ctx)
      then Some (ShowCompletions b ctx) else None)"

definition checkCommandCompletions :: "('a, 'o) behaviour \<Rightarrow> flagenv \<Rightarrow> 'a cli_context \<Rightarrow> string \<Rightarrow> ('a, 'o) shown list option" where
  "checkCommandCompletions b fe ctx name =
     (if context_Bool fe bash ctx \<and> a_EnableBashCompletion (x_App ctx)
      then Some (ShowCommandCompletions b ctx name) else None)"

definition checkVersion :: "flagenv \<Rightarrow> 'a cli_context \<Rightarrow> ('a, 'o) shown list option" where
  "checkVersion fe ctx =
     (if global_Bool fe ''version'' ctx \<or> global_Bool fe ''v'' ctx \<or> context_Bool fe ''version'' ctx \<or> context_Bool fe ''v'' ctx
      then Some (ShowVersion ctx) else None)"

definition checkHelp :: "flagenv \<Rightarrow> 'a cli_context \<Rightarrow> ('a, 'o) shown list option" where
  "checkHelp fe ctx =
     (if global_Bool fe ''h'' ctx \<or> global_Bool fe ''help'' ctx \<or> context_Bool fe ''h'' ctx \<or> context_Bool fe ''help'' ctx
      then Some [AppHelp (x_App ctx)] else None)"

definition checkCommandHelp :: "('a, 'o) behaviour \<Rightarrow> flagenv \<Rightarrow> 'a cli_context \<Rightarrow> string \<Rightarrow> ('a, 'o) shown list option" where
  "checkCommandHelp b fe ctx name =
     (if context_Bool fe ''h'' ctx \<or> context_Bool fe ''help'' ctx then Some (ShowCommandHelp b ctx name) else None)"

definition checkSubcommandHelp :: "('a, 'o) behaviour \<Rightarrow> flagenv \<Rightarrow> 'a cli_context \<Rightarrow> ('a, 'o) shown list option" where
  "checkSubcommandHelp b fe ctx =
     (if global_Bool fe ''h'' ctx \<or> global_Bool fe ''help'' ctx then Some (ShowSubcommandHelp b ctx) else None)"

section \<open>Running\<close>

type_synonym ('a, 'o) ran = "('a, 'o) shown list \<times> goerr option"

text \<open>\<open>Before\<close>, the command named by the first argument or the default action, and the deferred \<open>After\<close>.\<close>

definition after_hook :: "('a, 'o) behaviour \<Rightarrow> 'a app \<Rightarrow> 'a cli_context \<Rightarrow> ('a, 'o) ran \<Rightarrow> ('a, 'o) ran" where
  "after_hook b a ctx r =
     (case a_After a of
        None \<Rightarrow> r
      | Some f \<Rightarrow>
          (let (aerr, o') = run_hook b f ctx
           in (fst r @ map Did o',
               case aerr of
                 None \<Rightarrow> snd r
               | Some e \<Rightarrow> Some (case snd r of None \<Rightarrow> e | Some e0 \<Rightarrow> ErrMsg (err_text e0 @ [NL] @ err_text e)))))"

definition chosen :: "'a app \<Rightarrow> 'a cli_context \<Rightarrow> 'a command option" where
  "chosen a ctx = (if x_args ctx \<noteq> [] then find_command a (args_Get (x_args ctx) 0) else None)"

definition conclude ::
  "('a, 'o) behaviour \<Rightarrow> 'a app \<Rightarrow> 'a cli_context \<Rightarrow> ('a command \<Rightarrow> 'a cli_context \<Rightarrow> ('a, 'o) ran outcome) \<Rightarrow> ('a, 'o) ran outcome" where
  "conclude b a ctx run =
     (let (berr, o') = (case a_Before a of None \<Rightarrow> (None, []) | Some f \<Rightarrow> run_hook b f ctx);
          out = map Did o'
      in case berr of
           Some e \<Rightarrow> Returns (after_hook b a ctx (out, Some e))
         | None \<Rightarrow>
             (case chosen a ctx of
                Some c \<Rightarrow> map_outcome (\<lambda>(o1, err). after_hook b a ctx (out @ o1, err)) (run c ctx)
              | None \<Rightarrow>
                  (case a_Action a of
                     None \<Rightarrow> Panics
                   | Some act \<Rightarrow> Returns (after_hook b a ctx (out @ do_action b act ctx, None)))))"

lemma conclude_cong [fundef_cong]:
  assumes "b = b'" "a = a'" "ctx = ctx'" "\<And>c. chosen a' ctx' = Some c \<Longrightarrow> run c ctx' = run' c ctx'"
  shows "conclude b a ctx run = conclude b' a' ctx' run'"
  using assms by (auto simp: conclude_def Let_def split: option.splits prod.splits)

definition incorrect :: string where
  "incorrect = ''Incorrect Usage.'' @ [NL, NL]"

definition with_help :: "'a app \<Rightarrow> 'a app" where
  "with_help a =
     (if find_command a (c_Name (helpCommand :: 'a command)) = None \<and> \<not> a_HideHelp a
      then appendFlag HelpFlag (a\<lparr>a_Commands := a_Commands a @ [helpCommand]\<rparr>) else a)"

definition with_bash :: "'a app \<Rightarrow> 'a app" where
  "with_bash a = (if a_EnableBashCompletion a then appendFlag BashCompletionFlag a else a)"

text \<open>Parsing for an application: the context it runs in, or what is shown instead.\<close>

definition sub_prepared :: "'a app \<Rightarrow> 'a app" where
  "sub_prepared a = with_bash (if a_Commands a \<noteq> [] then with_help a else a)"

definition enter_sub ::
  "('a, 'o) behaviour \<Rightarrow> flagenv \<Rightarrow> 'a app \<Rightarrow> 'a cli_context \<Rightarrow> (('a, 'o) ran + 'a cli_context) outcome" where
  "enter_sub b fe a ctx =
     map_outcome (\<lambda>set0.
       let (set1, err) = parse_set fe (args_Tail (x_args ctx)) set0;
           (set2, nerr) = normalizeFlags fe (a_Flags a) set1;
           context' = NewContext a set2 (Some ctx);
           first = args_Get (x_args context') 0
       in case nerr of
            Some e \<Rightarrow> Inl ([Text (err_text e @ [NL])] @
                (if a_Commands a \<noteq> [] then ShowSubcommandHelp b context' else ShowCommandHelp b ctx first) @ [Text [NL]], Some e)
          | None \<Rightarrow>
              (case err of
                 Some e \<Rightarrow> Inl ([Text incorrect] @ ShowSubcommandHelp b context', Some e)
               | None \<Rightarrow>
                   (case checkCompletions b fe context' of
                      Some o' \<Rightarrow> Inl (o', None)
                    | None \<Rightarrow>
                        (case (if a_Commands a \<noteq> [] then checkSubcommandHelp b fe context'
                               else checkCommandHelp b fe ctx first) of
                           Some o' \<Rightarrow> Inl (o', None)
                         | None \<Rightarrow> Inr context'))))
       (flagSet fe (a_Flags a))"

definition startApp :: "'a command \<Rightarrow> 'a cli_context \<Rightarrow> 'a app" where
  "startApp c ctx =
     (NewApp [])\<lparr>
       a_Name := a_Name (x_App ctx) @ '' '' @ c_Name c,
       a_Usage := (if c_Description c \<noteq> [] then c_Description c else c_Usage c),
       a_CommandNotFound := a_CommandNotFound (x_App ctx),
       a_Commands := c_Subcommands c, a_Flags := c_Flags c, a_HideHelp := c_HideHelp c,
       a_Version := a_Version (x_App ctx), a_HideVersion := a_HideVersion (x_App ctx),
       a_Author := a_Author (x_App ctx), a_Email := a_Email (x_App ctx),
       a_EnableBashCompletion := a_EnableBashCompletion (x_App ctx),
       a_BashComplete := (if c_BashComplete c \<noteq> None then c_BashComplete c else Some NamesAction),
       a_Before := c_Before c, a_After := c_After c,
       a_Action := (if c_Action c \<noteq> None then c_Action c else Some SubHelpAction)\<rparr>"

text \<open>The first argument that looks like a flag and the first \<open>--\<close>, in front of which it must be.\<close>

fun flag_scan :: "nat \<Rightarrow> nat option \<Rightarrow> string list \<Rightarrow> nat option \<times> nat option" where
  "flag_scan i ff [] = (ff, None)"
| "flag_scan i ff (a # as) =
     (if a = ''--'' then (ff, Some i)
      else if has_prefix ''-'' a \<and> ff = None then flag_scan (i + 1) (Some i) as
      else flag_scan (i + 1) ff as)"

text \<open>The arguments in the order in which they are parsed: from the first flag on, then the others.\<close>

definition reordered :: "bool \<Rightarrow> string list \<Rightarrow> string list outcome" where
  "reordered skip args =
     (let (firstFlag, terminator) = flag_scan 0 None args
      in case (if skip then None else firstFlag) of
           None \<Rightarrow> Returns (args_Tail args)
         | Some 0 \<Rightarrow> Panics
         | Some f \<Rightarrow>
             (let regular = drop 1 (take f args)
              in Returns (case terminator of
                   Some t \<Rightarrow> drop f (take t args) @ regular @ drop t args
                 | None \<Rightarrow> drop f args @ regular)))"

definition run_leaf :: "('a, 'o) behaviour \<Rightarrow> flagenv \<Rightarrow> 'a command \<Rightarrow> 'a cli_context \<Rightarrow> ('a, 'o) ran outcome" where
  "run_leaf b fe c ctx =
     (let flags = c_Flags c @ (if \<not> c_HideHelp c then [HelpFlag] else []) @
                  (if a_EnableBashCompletion (x_App ctx) then [BashCompletionFlag] else []);
          c1 = (case c of Command n s al u d bc be af ac subs _ sk hh \<Rightarrow> Command n s al u d bc be af ac subs flags sk hh)
      in case flagSet fe flags of
           Panics \<Rightarrow> Panics
         | Returns set0 \<Rightarrow>
             (case reordered (c_SkipFlagParsing c) (x_args ctx) of
                Panics \<Rightarrow> Panics
              | Returns args \<Rightarrow>
                  (let (set1, err) = parse_set fe args set0
                   in case err of
                        Some e \<Rightarrow> Returns ([Text incorrect] @ ShowCommandHelp b ctx (c_Name c) @ [Text [NL]], Some e)
                      | None \<Rightarrow>
                          (let (set2, nerr) = normalizeFlags fe flags set1; context' = NewContext (x_App ctx) set2 (Some ctx)
                           in case nerr of
                                Some e \<Rightarrow> Returns ([Text (err_text e @ [NL]), Text [NL]] @ ShowCommandHelp b ctx (c_Name c) @ [Text [NL]], Some e)
                              | None \<Rightarrow>
                                  (case checkCommandCompletions b fe context' (c_Name c) of
                                     Some o' \<Rightarrow> Returns (o', None)
                                   | None \<Rightarrow>
                                       (case checkCommandHelp b fe context' (c_Name c) of
                                          Some o' \<Rightarrow> Returns (o', None)
                                        | None \<Rightarrow>
                                            (case c_Action c of
                                               None \<Rightarrow> Panics
                                             | Some act \<Rightarrow> Returns (do_action b act (Context (x_App ctx) set2 c1 (Some ctx)), None))))))))"

text \<open>How deeply commands are nested.\<close>

fun depth :: "'a command \<Rightarrow> nat" where
  "depth (Command n s al u d bc be af ac subs fl sk hh) = (if subs = [] then 0 else Suc (Max (set (map depth subs))))"

lemma depth_sub: "c' \<in> set (c_Subcommands c) \<Longrightarrow> depth c' < depth c"
proof (cases c)
  case (Command n s al u d bc be af ac subs fl sk hh)
  assume "c' \<in> set (c_Subcommands c)"
  then have "depth c' \<le> Max (set (map depth subs))" "subs \<noteq> []"
    using Command by auto
  then show ?thesis
    by (simp add: Command)
qed

lemma depth_help [simp]: "depth helpCommand = 0"
  by (simp add: helpCommand_def)

lemma depth_chosen:
  assumes "chosen (sub_prepared (startApp c ctx)) ctx' = Some c'"
  shows "depth c' < depth c"
proof -
  let ?a = "startApp c ctx"
  have "c' \<in> set (a_Commands (sub_prepared ?a))"
    using assms by (auto simp: chosen_def find_command_def find_Some_iff split: if_splits)
  moreover have "a_Commands (sub_prepared ?a) = c_Subcommands c \<or>
      c_Subcommands c \<noteq> [] \<and> a_Commands (sub_prepared ?a) = c_Subcommands c @ [helpCommand]"
    by (auto simp: sub_prepared_def with_bash_def with_help_def appendFlag_def startApp_def)
  moreover have "0 < depth c" if "c_Subcommands c \<noteq> []"
    using depth_sub[of "hd (c_Subcommands c)" c] that by simp
  ultimately show ?thesis
    using depth_sub by auto
qed

function run_command :: "('a, 'o) behaviour \<Rightarrow> flagenv \<Rightarrow> 'a command \<Rightarrow> 'a cli_context \<Rightarrow> ('a, 'o) ran outcome" where
  "run_command b fe c ctx =
     (if c_Subcommands c \<noteq> [] \<or> c_Before c \<noteq> None \<or> c_After c \<noteq> None then
        (let a = sub_prepared (startApp c ctx)
         in case enter_sub b fe a ctx of
              Panics \<Rightarrow> Panics
            | Returns (Inl r) \<Rightarrow> Returns r
            | Returns (Inr ctx') \<Rightarrow> conclude b a ctx' (run_command b fe))
      else run_leaf b fe c ctx)"
  by pat_completeness auto
termination
  by (relation "measure (\<lambda>(b, fe, c, ctx). depth c)") (auto dest: depth_chosen)

declare run_command.simps [simp del]

definition app_prepared :: "'a app \<Rightarrow> 'a app" where
  "app_prepared a =
     (let a1 = (if a_Author a \<noteq> [] \<or> a_Email a \<noteq> [] then a\<lparr>a_Authors := a_Authors a @ [(a_Author a, a_Email a)]\<rparr> else a);
          a2 = with_bash (with_help a1)
      in if \<not> a_HideVersion a2 then appendFlag VersionFlag a2 else a2)"

definition app_Run :: "('a, 'o) behaviour \<Rightarrow> flagenv \<Rightarrow> 'a app \<Rightarrow> string list \<Rightarrow> ('a, 'o) ran outcome" where
  "app_Run b fe a0 arguments =
     (if arguments = [] then Panics
      else let a = app_prepared a0
           in case flagSet fe (a_Flags a) of
                Panics \<Rightarrow> Panics
              | Returns set0 \<Rightarrow>
                  (let (set1, err) = parse_set fe (tl arguments) set0;
                       (set2, nerr) = normalizeFlags fe (a_Flags a) set1;
                       ctx = NewContext a set2 None
                   in case nerr of
                        Some e \<Rightarrow> Returns ([Text (err_text e @ [NL]), AppHelp a, Text [NL]], Some e)
                      | None \<Rightarrow>
                          (case err of
                             Some e \<Rightarrow> Returns ([Text incorrect, AppHelp a, Text [NL]], Some e)
                           | None \<Rightarrow>
                               (case checkCompletions b fe ctx of
                                  Some o' \<Rightarrow> Returns (o', None)
                                | None \<Rightarrow>
                                    (case checkHelp fe ctx of
                                       Some o' \<Rightarrow> Returns (o', None)
                                     | None \<Rightarrow>
                                         (case checkVersion fe ctx of
                                            Some o' \<Rightarrow> Returns (o', None)
                                          | None \<Rightarrow> conclude b a ctx (run_command b fe)))))))"

section \<open>The order in which arguments are parsed\<close>

abbreviation undashed :: "string \<Rightarrow> bool" where
  "undashed a \<equiv> \<not> has_prefix ''-'' a"

lemma undashed_plain: "undashed a \<Longrightarrow> plain a"
  by (cases a) (auto simp: has_prefix_def plain_def)

lemma flag_scan_undashed:
  "\<forall>a\<in>set pre. undashed a \<Longrightarrow> flag_scan i ff (pre @ rest) = flag_scan (i + length pre) ff rest"
  by (induction pre arbitrary: i) (auto simp: has_prefix_def)

lemma flag_scan_rest: "''--'' \<notin> set rest \<Longrightarrow> flag_scan i (Some f) rest = (Some f, None)"
  by (induction rest arbitrary: i) auto

lemma flag_scan_later: "flag_scan i None args = (Some f, t) \<Longrightarrow> i \<le> f"
proof (induction args arbitrary: i)
  case (Cons a args)
  have "flag_scan j (Some k) as = (Some f, t) \<Longrightarrow> f = k" for j k as
    by (induction as arbitrary: j) (auto split: if_splits)
  then show ?case
    using Cons by (fastforce split: if_splits)
qed simp

lemma reordered_returns:
  assumes "args \<noteq> []" "undashed (hd args)"
  shows "\<exists>r. reordered skip args = Returns r"
proof -
  obtain a as where args: "args = a # as"
    using assms(1) by (cases args) auto
  obtain ff t where s: "flag_scan 1 None as = (ff, t)"
    by (rule prod.exhaust)
  have "a \<noteq> ''--''"
    using assms(2) by (auto simp: args has_prefix_def)
  then have "flag_scan 0 None args = (ff, t)"
    using assms(2) s by (simp add: args)
  moreover have "ff \<noteq> Some 0"
    using flag_scan_later[of 1 as _ t] s by fastforce
  ultimately show ?thesis
    by (auto simp: reordered_def Let_def split: option.splits nat.splits)
qed

lemma reordered_undashed:
  assumes "undashed c" "\<forall>a\<in>set pre. undashed a"
  shows "reordered skip (c # pre) = Returns pre"
  using flag_scan_undashed[of "c # pre" 0 None "[]"] assms by (cases pre) (simp_all add: reordered_def args_Tail_def)

lemma reordered_terminated:
  assumes "undashed c" "\<forall>a\<in>set pre. undashed a"
  shows "reordered skip (c # pre @ ''--'' # rest) = Returns (pre @ ''--'' # rest)"
  using flag_scan_undashed[of "c # pre" 0 None "''--'' # rest"] assms
  by (cases pre) (simp_all add: reordered_def args_Tail_def)

lemma reordered_flags:
  assumes "undashed c" "\<forall>a\<in>set pre. undashed a" "has_prefix ''-'' s" "s \<noteq> ''--''" "''--'' \<notin> set rest"
  shows "reordered False (c # pre @ s # rest) = Returns (s # rest @ pre)"
proof -
  have "flag_scan 0 None ((c # pre) @ s # rest) = (Some (Suc (length pre)), None)"
    using flag_scan_undashed[of "c # pre" 0 None "s # rest"] flag_scan_rest[OF assms(5)] assms(1-4) by simp
  then show ?thesis
    by (simp add: reordered_def)
qed

section \<open>Leaves\<close>

text \<open>A command without commands or hooks under it and with an action.\<close>

definition leaf :: "'a command \<Rightarrow> bool" where
  "leaf c \<longleftrightarrow> c_Subcommands c = [] \<and> c_Before c = None \<and> c_After c = None \<and> c_Action c \<noteq> None \<and> \<not> c_HideHelp c \<and>
    \<not> c_SkipFlagParsing c \<and> distinct (flag_names (c_Flags c @ [HelpFlag])) \<and> list_all undashed (Names c)"

lemma leaf_run:
  assumes "leaf c" "\<not> a_EnableBashCompletion (x_App ctx)" "x_args ctx \<noteq> []" "hd (x_args ctx) \<in> set (Names c)"
  shows "\<exists>out err. run_command b fe c ctx = Returns (out, err)"
proof -
  let ?flags = "c_Flags c @ [HelpFlag]"
  obtain set0 where "flagSet fe ?flags = Returns set0"
    using flagSet_ok[of ?flags fe] assms(1) by (auto simp: leaf_def)
  moreover obtain args where "reordered False (x_args ctx) = Returns args"
    using reordered_returns[OF assms(3), of False] assms(1,4) by (auto simp: leaf_def list_all_iff)
  ultimately have "run_leaf b fe c ctx \<noteq> Panics"
    using assms(1,2) by (auto simp: run_leaf_def leaf_def Let_def split: prod.splits option.splits)
  then show ?thesis
    using assms(1) by (subst run_command.simps) (cases "run_leaf b fe c ctx"; auto simp: leaf_def)
qed

text \<open>What a leaf does when its arguments parse and ask for no help.\<close>

lemma leaf_acts:
  assumes "leaf c" "\<not> a_EnableBashCompletion (x_App ctx)" "c_Action c = Some (User act)"
    "flagSet fe (c_Flags c @ [HelpFlag]) = Returns set0" "reordered False (x_args ctx) = Returns args"
    "parse_set fe args set0 = (set1, None)" "normalizeFlags fe (c_Flags c @ [HelpFlag]) set1 = (set2, None)"
    "\<not> lookupBool fe ''h'' set2" "\<not> lookupBool fe ''help'' set2"
  shows "\<exists>c1. run_command b fe c ctx = Returns (map Did (run_action b act (Context (x_App ctx) set2 c1 (Some ctx))), None)"
proof -
  have "run_leaf b fe c ctx = Returns (map Did (run_action b act (Context (x_App ctx) set2
      (case c of Command n s al u d bc be af ac subs _ sk hh \<Rightarrow> Command n s al u d bc be af ac subs (c_Flags c @ [HelpFlag]) sk hh)
      (Some ctx))), None)"
    using assms by (simp add: run_leaf_def leaf_def checkCommandCompletions_def checkCommandHelp_def context_Bool_def
        NewContext_def do_action_def)
  then show ?thesis
    using assms(1) by (subst run_command.simps) (auto simp: leaf_def)
qed

lemma leaf_refuses:
  assumes "leaf c" "\<not> a_EnableBashCompletion (x_App ctx)"
    "flagSet fe (c_Flags c @ [HelpFlag]) = Returns set0" "reordered False (x_args ctx) = Returns args"
    "parse_set fe args set0 = (set1, Some e)"
  shows "run_command b fe c ctx = Returns ([Text incorrect] @ ShowCommandHelp b ctx (c_Name c) @ [Text [NL]], Some e)"
proof -
  have "run_leaf b fe c ctx = Returns ([Text incorrect] @ ShowCommandHelp b ctx (c_Name c) @ [Text [NL]], Some e)"
    using assms by (simp add: run_leaf_def leaf_def)
  then show ?thesis
    using assms(1) by (subst run_command.simps) (auto simp: leaf_def)
qed

end
