(* ===== verification/CommandLine.thy ===== *)
theory CommandLine
  imports Command Cli FlagProps
begin

text \<open>
  The command line of \<open>dcounter\<close>: the application of \<open>main.go\<close> with the commands that \<open>cli.go\<close>,
  \<open>genkey.go\<close> and \<open>server.go\<close> hang into it, run on the arguments of the process.
\<close>

section \<open>The application\<close>

datatype act = ServerAct | GenkeyAct | GetAct | IncAct | SetAct | ListAct | JoinAct | MembersAct | SaveAct

definition plain_command :: "string \<Rightarrow> string \<Rightarrow> cliflag list \<Rightarrow> act \<Rightarrow> act command" where
  "plain_command name usage flags act =
     Command name [] [] usage [] None None None (Some (User act)) [] flags False False"

definition connectFlags :: "cliflag list" where
  "connectFlags = [StringFlag ''connect, c'' ''127.0.0.1:9374'' ''connect to this ip:port combination'' []]"

definition cliCommands :: "act command list" where
  "cliCommands =
     [plain_command ''get'' ''get the value of a counter'' connectFlags GetAct,
      plain_command ''inc'' ''increment a counter'' connectFlags IncAct,
      plain_command ''set'' ''set the value of a counter'' connectFlags SetAct,
      plain_command ''list'' ''list all counters and their values'' connectFlags ListAct,
      plain_command ''join'' ''join a cluster'' connectFlags JoinAct,
      plain_command ''members'' ''list the members in the cluster'' connectFlags MembersAct,
      plain_command ''save'' ''return the state of the server as json'' connectFlags SaveAct]"

definition cliCommand :: "act command" where
  "cliCommand = Command ''cli'' [] [] ''run commands'' [] None None None None cliCommands [] False False"

definition genkeyCommand :: "act command" where
  "genkeyCommand = plain_command ''genkey'' ''Generate a random encryption key.'' [] GenkeyAct"

definition serverFlags :: "string \<Rightarrow> cliflag list" where
  "serverFlags hostname =
     [StringFlag ''name, n'' hostname ''Name of this node in the cluster. This must be unique within the cluster.'' [],
      StringFlag ''bind, b'' ''127.0.0.1:9373'' ''The address that should be bound to for internal cluster communications.'' [],
      StringFlag ''advertise, a'' [] ''The address that should be used to broadcast, can be different than the bind address in case of a NAT.'' [],
      StringFlag ''client, c'' ''127.0.0.1:9374'' ''The address that should be bound to for client communications.'' [],
      StringSliceFlag ''join, j'' (Some []) ''Join these hosts after starting.'' [],
      StringFlag ''load, l'' [] ''Load data from this json file.'' [],
      StringFlag ''save, s'' [] ''Persist data to this json file.'' [],
      DurationFlag ''save-interval, i'' (60 * second) ''Persist data this often.'' [],
      StringFlag ''pidfile, p'' [] ''Create a pidfile at this path.'' [],
      StringFlag ''syslog'' [] ''Log to syslog, protocol:address, for example udp:localhost:514'' [],
      DurationFlag ''sync-interval'' (second * 10) ''Interval between full state syncs between random nodes'' [],
      DurationFlag ''update-interval'' (millisecond * 100) ''Interval between partial update <update-nodes> random nodes'' [],
      IntFlag ''update-nodes'' 2 ''Number of random nodes to do partial updates to'' [],
      StringFlag ''key'' [] ''Encryption key to use. Base64 encoded AES key, either 16, 24, or 32 bytes to select AES-128, AES-192, or AES-256'' []]"

definition serverCommand :: "string \<Rightarrow> act command" where
  "serverCommand hostname = plain_command ''server'' ''Run a server.'' (serverFlags hostname) ServerAct"

text \<open>The commands are appended in the order of the files.\<close>

definition dcounterApp :: "string \<Rightarrow> act app" where
  "dcounterApp hostname =
     (NewApp [])\<lparr>a_Name := ''dcounter'', a_Usage := ''high performance, eventually consisten, distributed counters.'',
       a_Version := ''master'', a_Author := ''Erik Dubbelboer'', a_Email := ''erik@dubbelboer.com'',
       a_Commands := [cliCommand, genkeyCommand, serverCommand hostname]\<rparr>"

section \<open>The actions\<close>

text \<open>What the process meets: the machine, the connections to an address, the orders of map loops.\<close>

record world =
  w_machine :: machine
  w_dial :: "string \<Rightarrow> attempt list"
  w_talk :: "string \<Rightarrow> attempt list"
  w_order :: "string list"
  w_unmarshal :: "string \<Rightarrow> (string \<times> bytes) list result"
  w_rand :: "bytes result"

datatype deed = Served "(string list \<times> daemon option) run" | Printed "printed list" | Crashed

definition server_options :: "flagenv \<Rightarrow> 'a cli_context \<Rightarrow> options outcome" where
  "server_options fe ctx =
     (let str = (\<lambda>name. context_String fe name ctx)
      in map_outcome (\<lambda>join.
           \<lparr>op_name = str ''name'', op_bind = str ''bind'', op_advertise = str ''advertise'', op_client = str ''client'',
            op_join = join, op_load = str ''load'', op_save = str ''save'',
            op_save_interval = context_Duration fe ''save-interval'' ctx, op_pidfile = str ''pidfile'',
            op_syslog = str ''syslog'', op_sync_interval = context_Duration fe ''sync-interval'' ctx,
            op_update_interval = context_Duration fe ''update-interval'' ctx,
            op_update_nodes = context_Int fe ''update-nodes'' ctx, op_key = str ''key''\<rparr>)
         (context_StringSlice ''join'' ctx))"

definition printed_of :: "printed list outcome \<Rightarrow> deed" where
  "printed_of r = (case r of Returns ps \<Rightarrow> Printed ps | Panics \<Rightarrow> Crashed)"

text \<open>The commands of \<open>cli\<close>, for a server at an address; the other two make no connection.\<close>

definition client :: "world \<Rightarrow> act \<Rightarrow> string \<Rightarrow> string list \<Rightarrow> deed" where
  "client w act addr args =
     (let dial = w_dial w addr; talk = w_talk w addr
      in case act of
           GetAct \<Rightarrow> printed_of (cli_get dial talk args)
         | IncAct \<Rightarrow> printed_of (cli_inc dial talk args)
         | SetAct \<Rightarrow> printed_of (cli_set dial talk args)
         | ListAct \<Rightarrow> printed_of (cli_list (w_order w) dial talk)
         | JoinAct \<Rightarrow> printed_of (cli_join dial talk args)
         | MembersAct \<Rightarrow> printed_of (cli_members (w_unmarshal w) dial talk)
         | SaveAct \<Rightarrow> printed_of (cli_save dial talk)
         | _ \<Rightarrow> Printed [])"

definition perform :: "flagenv \<Rightarrow> world \<Rightarrow> act \<Rightarrow> act cli_context \<Rightarrow> deed" where
  "perform fe w act ctx =
     (case act of
        ServerAct \<Rightarrow> (case server_options fe ctx of Panics \<Rightarrow> Crashed | Returns o' \<Rightarrow> Served (serverAction (w_machine w) o'))
      | GenkeyAct \<Rightarrow> Printed [genkey (w_rand w)]
      | _ \<Rightarrow> client w act (context_String fe ''connect'' ctx) (x_args ctx))"

definition behave :: "flagenv \<Rightarrow> world \<Rightarrow> (act, deed) behaviour" where
  "behave fe w = \<lparr>run_action = (\<lambda>act ctx. [perform fe w act ctx]), run_hook = (\<lambda>_ _. (None, [])), run_missing = (\<lambda>_ _ _. [])\<rparr>"

text \<open>\<open>main\<close> drops the error of \<open>Run\<close>.\<close>

definition main_run :: "flagenv \<Rightarrow> world \<Rightarrow> string list \<Rightarrow> (act, deed) shown list outcome" where
  "main_run fe w args = map_outcome fst (app_Run (behave fe w) fe (dcounterApp (os_hostname (w_machine w))) args)"

section \<open>The application, prepared\<close>

lemma eachName_simps [simp]:
  "eachName ''connect, c'' = [''connect'', ''c'']" "eachName ''help, h'' = [''help'', ''h'']"
  "eachName ''version, v'' = [''version'', ''v'']"
  by (simp_all add: eachName_def strip_blanks_def)

abbreviation top :: "string \<Rightarrow> act app" where
  "top hostname \<equiv> app_prepared (dcounterApp hostname)"

abbreviation sub :: "act cli_context \<Rightarrow> act app" where
  "sub ctx \<equiv> sub_prepared (startApp cliCommand ctx)"

lemmas find_defs = find_command_def HasName_def Names_def

lemma top_simps [simp]:
  "a_Commands (top h) = [cliCommand, genkeyCommand, serverCommand h, helpCommand]"
  "a_Flags (top h) = [HelpFlag, VersionFlag]" "a_EnableBashCompletion (top h) = False"
  "a_Before (top h) = None" "a_After (top h) = None" "a_Action (top h) = Some HelpAction" "a_CommandNotFound (top h) = None"
  by (simp_all add: app_prepared_def dcounterApp_def NewApp_def with_help_def with_bash_def appendFlag_def find_defs
      cliCommand_def genkeyCommand_def serverCommand_def plain_command_def helpCommand_def HelpFlag_def VersionFlag_def)

lemma sub_simps:
  assumes "x_App ctx = top h"
  shows "a_Commands (sub ctx) = cliCommands @ [helpCommand]" "a_Flags (sub ctx) = [HelpFlag]"
    "a_EnableBashCompletion (sub ctx) = False" "a_Before (sub ctx) = None" "a_After (sub ctx) = None"
    "a_Action (sub ctx) = Some SubHelpAction" "a_CommandNotFound (sub ctx) = None"
  using assms
  by (simp_all add: sub_prepared_def startApp_def NewApp_def with_help_def with_bash_def appendFlag_def find_defs
      cliCommand_def cliCommands_def plain_command_def helpCommand_def)

lemma server_flag_names: "distinct (flag_names (serverFlags h @ [HelpFlag]))"
  by (simp add: serverFlags_def flag_names_def HelpFlag_def eachName_def strip_blanks_def)

lemma leaves:
  "\<forall>c\<in>set cliCommands. leaf c" "leaf genkeyCommand" "leaf (serverCommand h)" "leaf helpCommand"
proof -
  have n: "distinct (flag_names (connectFlags @ [HelpFlag]))" "distinct (flag_names [HelpFlag])"
    by (simp_all add: flag_names_def connectFlags_def HelpFlag_def)
  show "\<forall>c\<in>set cliCommands. leaf c" "leaf genkeyCommand" "leaf helpCommand"
    using n by (simp_all add: leaf_def cliCommands_def genkeyCommand_def helpCommand_def plain_command_def Names_def has_prefix_def)
  show "leaf (serverCommand h)"
    using server_flag_names[of h] by (simp add: leaf_def serverCommand_def plain_command_def Names_def has_prefix_def)
qed

section \<open>No command line breaks the program\<close>

lemma conclude_returns:
  assumes "a_Action a \<noteq> None" "\<And>c. chosen a ctx = Some c \<Longrightarrow> \<exists>out err. run c ctx = Returns (out, err)"
  shows "\<exists>out err. conclude b a ctx run = Returns (out, err)"
proof (cases "chosen a ctx")
  case None
  then show ?thesis
    using assms(1) by (auto simp: conclude_def Let_def split: prod.splits option.splits)
next
  case (Some c)
  then obtain out err where "run c ctx = Returns (out, err)"
    using assms(2) by blast
  then show ?thesis
    using Some by (auto simp: conclude_def Let_def split: prod.splits option.splits)
qed

lemma chosen_in:
  assumes "chosen a ctx = Some c"
  shows "c \<in> set (a_Commands a)" "x_args ctx \<noteq> []" "hd (x_args ctx) \<in> set (Names c)"
proof -
  have a: "x_args ctx \<noteq> []" and f: "find (\<lambda>c. HasName c (hd (x_args ctx))) (a_Commands a) = Some c"
    using assms by (auto simp: chosen_def find_command_def args_Get_def hd_conv_nth split: if_splits)
  show "x_args ctx \<noteq> []"
    by (rule a)
  show "c \<in> set (a_Commands a)" "hd (x_args ctx) \<in> set (Names c)"
    using f by (auto simp: find_Some_iff HasName_def)
qed

lemma help_flags: "distinct (flag_names [HelpFlag, VersionFlag])" "distinct (flag_names [HelpFlag])"
  by (simp_all add: flag_names_def HelpFlag_def VersionFlag_def)

lemma enter_sub_app: "enter_sub b fe a ctx = Returns (Inr ctx') \<Longrightarrow> x_App ctx' = a"
  by (cases "flagSet fe (a_Flags a)")
    (auto simp: enter_sub_def Let_def NewContext_def split: prod.splits option.splits if_splits)

lemma cli_returns:
  assumes "x_App ctx = top h"
  shows "\<exists>out err. run_command b fe cliCommand ctx = Returns (out, err)"
proof -
  note sub = sub_simps[OF assms]
  obtain set0 where "flagSet fe (a_Flags (sub ctx)) = Returns set0"
    using flagSet_ok[OF help_flags(2)] sub(2) by fastforce
  then obtain e where e: "enter_sub b fe (sub ctx) ctx = Returns e"
    by (auto simp: enter_sub_def)
  have run: "\<exists>out err. run_command b fe c ctx' = Returns (out, err)" if "chosen (sub ctx) ctx' = Some c" "x_App ctx' = sub ctx" for c ctx'
  proof (rule leaf_run)
    have "c \<in> set (cliCommands @ [helpCommand])"
      using chosen_in(1)[OF that(1)] by (simp only: sub(1))
    then show "leaf c"
      using leaves by auto
  qed (use that sub(3) chosen_in(2,3)[OF that(1)] in auto)
  have "\<exists>out err. conclude b (sub ctx) ctx' (run_command b fe) = Returns (out, err)" if "e = Inr ctx'" for ctx'
    using run enter_sub_app[of b fe "sub ctx" ctx ctx'] e that sub(6) by (intro conclude_returns) auto
  moreover have "c_Subcommands cliCommand \<noteq> []"
    by (simp add: cliCommand_def cliCommands_def)
  ultimately show ?thesis
    using e by (subst run_command.simps) (cases e; auto simp: Let_def)
qed

text \<open>
  C35: whatever the arguments of the process are, they are parsed without a panic (no
  flag is defined twice, no slice is out of bounds) to an end: help or a version is shown, or a command
  acts.
\<close>

theorem command_line_total:
  assumes "args \<noteq> []"
  shows "\<exists>out. main_run fe w args = Returns out"
proof -
  let ?h = "os_hostname (w_machine w)" and ?b = "behave fe w"
  obtain set0 where set0: "flagSet fe (a_Flags (top ?h)) = Returns set0"
    using flagSet_ok[OF help_flags(1)] by fastforce
  have run: "\<exists>out err. run_command ?b fe c ctx = Returns (out, err)" if "chosen (top ?h) ctx = Some c" "x_App ctx = top ?h" for c ctx
  proof (cases "c = cliCommand")
    case True
    then show ?thesis
      using cli_returns[OF that(2)] by simp
  next
    case False
    show ?thesis
    proof (rule leaf_run)
      show "leaf c"
        using chosen_in(1)[OF that(1)] False leaves by auto
    qed (use that chosen_in(2,3)[OF that(1)] in auto)
  qed
  have "conclude ?b (top ?h) (NewContext (top ?h) fs None) (run_command ?b fe) \<noteq> Panics" for fs
    using conclude_returns[of "top ?h" "NewContext (top ?h) fs None" "run_command ?b fe" ?b] run
    by (auto simp: NewContext_def)
  then have "app_Run ?b fe (dcounterApp ?h) args \<noteq> Panics"
    using assms set0 by (auto simp: app_Run_def Let_def split: prod.splits option.splits)
  then show ?thesis
    by (cases "app_Run ?b fe (dcounterApp ?h) args") (auto simp: main_run_def)
qed

section \<open>From the arguments to a command\<close>

lemma conclude_chosen:
  assumes "a_Before a = None" "a_After a = None" "chosen a ctx = Some c"
  shows "conclude b a ctx run = run c ctx"
  using assms by (cases "run c ctx") (simp_all add: conclude_def after_hook_def)

text \<open>The flags of an application whose arguments begin with a command.\<close>

lemma enter_plain:
  assumes "flagSet fe flags = Returns set0" "distinct (flag_names flags)" "args = [] \<or> plain (hd args)"
  shows "\<exists>fs. parse_set fe args set0 = (fs, None) \<and> normalizeFlags fe flags fs = (fs, None) \<and> fs_args fs = args \<and>
    (\<forall>f\<in>set flags. \<forall>n\<in>set (eachName (f_Name f)). lookup n fs = Some (initial fe f))"
proof -
  have "fs_actual set0 = []" "\<forall>f\<in>set flags. \<forall>n\<in>set (eachName (f_Name f)). lookup n set0 = Some (initial fe f)"
    using flagSet_ok[OF assms(2), of fe] assms(1) by auto
  moreover have "lookup n (set0\<lparr>fs_args := args\<rparr>) = lookup n set0" for n
    by (simp add: lookup_def)
  moreover have "parse_set fe args set0 = (set0\<lparr>fs_args := args\<rparr>, None)"
    using assms(3) by (simp add: parse_set_def parse_stop)
  ultimately show ?thesis
    by (intro exI[of _ "set0\<lparr>fs_args := args\<rparr>"]) (simp add: normalize_unmarked)
qed

lemma no_env [simp]: "env_values fe [] = []"
  by (simp add: env_values_def)

lemma off: "lookup n fs = Some (VBool False) \<Longrightarrow> \<not> lookupBool fe n fs"
  by (simp add: lookupBool_def parse_bool_def format_bool_def)

definition calm_context :: "flagenv \<Rightarrow> 'a cli_context \<Rightarrow> bool" where
  "calm_context fe ctx \<longleftrightarrow> \<not> context_Bool fe ''h'' ctx \<and> \<not> context_Bool fe ''help'' ctx"

lemma top_dispatch:
  assumes "plain name" "find_command (top (os_hostname (w_machine w))) name = Some c"
  shows "\<exists>ctx. x_App ctx = top (os_hostname (w_machine w)) \<and> x_args ctx = name # rest \<and> x_parent ctx = None \<and> calm_context fe ctx \<and>
    main_run fe w (p # name # rest) = map_outcome fst (run_command (behave fe w) fe c ctx)"
proof -
  let ?a = "top (os_hostname (w_machine w))"
  obtain set0 where 0: "flagSet fe (a_Flags ?a) = Returns set0"
    using flagSet_ok[OF help_flags(1)] by fastforce
  obtain fs where fs: "parse_set fe (name # rest) set0 = (fs, None)" "normalizeFlags fe (a_Flags ?a) fs = (fs, None)"
      "fs_args fs = name # rest" "\<forall>f\<in>set (a_Flags ?a). \<forall>n\<in>set (eachName (f_Name f)). lookup n fs = Some (initial fe f)"
    using enter_plain[OF 0 _ disjI2, of "name # rest"] help_flags(1) assms(1) by auto
  let ?ctx = "NewContext ?a fs None"
  have off: "\<not> context_Bool fe ''h'' ?ctx" "\<not> context_Bool fe ''help'' ?ctx" "\<not> context_Bool fe ''v'' ?ctx" "\<not> context_Bool fe ''version'' ?ctx"
    using fs(4) by (simp_all add: context_Bool_def NewContext_def HelpFlag_def VersionFlag_def off)
  have glob: "\<not> global_Bool fe n ?ctx" for n
    by (simp add: global_Bool_def NewContext_def)
  have ch: "chosen ?a ?ctx = Some c"
    using assms(2) fs(3) by (simp add: chosen_def x_args_def NewContext_def args_Get_def)
  have "app_Run (behave fe w) fe (dcounterApp (os_hostname (w_machine w))) (p # name # rest) =
      conclude (behave fe w) ?a ?ctx (run_command (behave fe w) fe)"
    using 0 fs(1,2) off glob
    by (simp add: app_Run_def checkCompletions_def checkHelp_def checkVersion_def NewContext_def Let_def)
  also have "\<dots> = run_command (behave fe w) fe c ?ctx"
    by (rule conclude_chosen[OF _ _ ch]) simp_all
  finally show ?thesis
    using off(1,2) fs(3)
    by (intro exI[of _ ?ctx]) (simp add: main_run_def calm_context_def x_args_def, simp add: NewContext_def)
qed

lemma sub_enters:
  assumes "x_App ctx = top h" "x_parent ctx = None" "calm_context fe ctx" "flagSet fe [HelpFlag] = Returns set0"
    "parse_set fe (args_Tail (x_args ctx)) set0 = (fs1, None)" "normalizeFlags fe [HelpFlag] fs1 = (fs, None)"
    "fs_args fs = name # rest" "find_command (sub ctx) name = Some c"
  shows "\<exists>ctx'. x_App ctx' = sub ctx \<and> x_args ctx' = name # rest \<and> run_command b fe cliCommand ctx = run_command b fe c ctx'"
proof -
  let ?a = "sub ctx" and ?ctx = "NewContext (sub ctx) fs (Some ctx)"
  note sub = sub_simps[OF assms(1)]
  have glob: "\<not> global_Bool fe ''h'' ?ctx" "\<not> global_Bool fe ''help'' ?ctx"
    using assms(2,3) by (cases ctx; simp add: global_Bool_def NewContext_def calm_context_def context_Bool_def)+
  have ch: "chosen ?a ?ctx = Some c"
    using assms(7,8) by (simp add: chosen_def x_args_def NewContext_def args_Get_def)
  have "enter_sub b fe ?a ctx = Returns (Inr ?ctx)"
    using assms(4-6) glob sub(1-3)
    by (simp add: enter_sub_def checkCompletions_def checkSubcommandHelp_def NewContext_def Let_def)
  moreover have "c_Subcommands cliCommand \<noteq> []"
    by (simp add: cliCommand_def cliCommands_def)
  moreover have "conclude b ?a ?ctx (run_command b fe) = run_command b fe c ?ctx"
    by (rule conclude_chosen[OF sub(4,5) ch])
  ultimately have "run_command b fe cliCommand ctx = run_command b fe c ?ctx"
    by (subst run_command.simps) (simp add: Let_def)
  then show ?thesis
    using assms(7) by (intro exI[of _ ?ctx]) (simp add: x_args_def NewContext_def)
qed

lemma sub_dispatch:
  assumes "x_App ctx = top h" "x_args ctx = ''cli'' # name # rest" "x_parent ctx = None" "calm_context fe ctx"
    "plain name" "find_command (sub ctx) name = Some c"
  shows "\<exists>ctx'. x_App ctx' = sub ctx \<and> x_args ctx' = name # rest \<and> run_command b fe cliCommand ctx = run_command b fe c ctx'"
proof -
  obtain set0 where 0: "flagSet fe [HelpFlag] = Returns set0"
    using flagSet_ok[OF help_flags(2)] by fastforce
  obtain fs where fs: "parse_set fe (name # rest) set0 = (fs, None)" "normalizeFlags fe [HelpFlag] fs = (fs, None)" "fs_args fs = name # rest"
    using enter_plain[OF 0 help_flags(2) disjI2, of "name # rest"] assms(5) by auto
  have "args_Tail (x_args ctx) = name # rest"
    by (simp add: assms(2) args_Tail_def)
  then show ?thesis
    using sub_enters[OF assms(1,3,4) 0 _ fs(2,3) assms(6)] fs(1) by simp
qed

text \<open>A flag for help in front of a command of \<open>cli\<close> is parsed and then not looked at.\<close>

lemma sub_help:
  assumes "x_App ctx = top h" "x_args ctx = ''cli'' # ''-h'' # name # rest" "x_parent ctx = None" "calm_context fe ctx"
    "plain name" "find_command (sub ctx) name = Some c"
  shows "\<exists>ctx'. x_App ctx' = sub ctx \<and> x_args ctx' = name # rest \<and> run_command b fe cliCommand ctx = run_command b fe c ctx'"
proof -
  let ?set = "\<lparr>fs_cells = [VBool False, VBool False], fs_formal = [''help'' \<mapsto> 0, ''h'' \<mapsto> 1], fs_actual = [], fs_args = []\<rparr>"
  let ?fs = "\<lparr>fs_cells = [VBool False, VBool True], fs_formal = [''help'' \<mapsto> 0, ''h'' \<mapsto> 1], fs_actual = [''h''], fs_args = name # rest\<rparr>"
  have 0: "flagSet fe [HelpFlag] = Returns ?set"
    by (simp add: HelpFlag_def flagSet_def newFlagSet_def applyBool_def new_cell_def set_var_def Let_def)
  have "parse_set fe (args_Tail (x_args ctx)) ?set = parse_args fe ?fs"
    using parse_switch[of "''h''" "''-h''" "?set\<lparr>fs_args := ''-h'' # name # rest\<rparr>" "name # rest" 1 False fe]
    by (simp add: assms(2) args_Tail_def parse_set_def flag_name_def flag_arg_def mark_def store_def)
  then have 1: "parse_set fe (args_Tail (x_args ctx)) ?set = (?fs, None)"
    using assms(5) by (simp add: parse_stop)
  have 2: "normalizeFlags fe [HelpFlag] ?fs = (?fs\<lparr>fs_cells := [VBool True, VBool True], fs_actual := [''help'', ''h'']\<rparr>, None)"
    by (simp add: normalizeFlags_def HelpFlag_def copyFlag_def set_flag_def lookup_def mark_def store_def parse_bool_def format_bool_def)
  show ?thesis
    by (rule sub_enters[OF assms(1,3,4) 0 1 2 _ assms(6)]) simp
qed

lemma find_key: "distinct (map f xs) \<Longrightarrow> x \<in> set xs \<Longrightarrow> find (\<lambda>y. f y = f x) xs = Some x"
  by (induction xs) (auto simp: image_iff)

lemma find_append_Some: "find P xs = Some x \<Longrightarrow> find P (xs @ ys) = Some x"
  by (induction xs) (auto split: if_splits)

lemma sub_finds:
  assumes "x_App ctx = top h" "c \<in> set cliCommands"
  shows "find_command (sub ctx) (c_Name c) = Some c"
proof -
  have "distinct (map c_Name cliCommands)"
    by (simp add: cliCommands_def plain_command_def)
  then have "find (\<lambda>d. c_Name d = c_Name c) cliCommands = Some c"
    by (rule find_key[OF _ assms(2)])
  moreover have "\<forall>d\<in>set cliCommands. c_ShortName d = [] \<and> c_Aliases d = []"
    by (simp add: cliCommands_def plain_command_def)
  then have "HasName d n \<longleftrightarrow> c_Name d = n" if "d \<in> set cliCommands" for d n
    using that by (auto simp: HasName_def Names_def)
  ultimately have "find (\<lambda>d. HasName d (c_Name c)) (cliCommands @ [helpCommand]) = Some c"
    by (intro find_append_Some) (simp cong: find_cong)
  then show ?thesis
    by (simp add: find_command_def sub_simps(1)[OF assms(1)])
qed

lemma cli_dispatch:
  assumes "c \<in> set cliCommands" "help = [] \<or> help = [''-h'']"
  shows "\<exists>ctx. \<not> a_EnableBashCompletion (x_App ctx) \<and> find_command (x_App ctx) (c_Name c) = Some c \<and>
    x_args ctx = c_Name c # rest \<and>
    main_run fe w (p # ''cli'' # help @ c_Name c # rest) = map_outcome fst (run_command (behave fe w) fe c ctx)"
proof -
  let ?h = "os_hostname (w_machine w)"
  have "plain ''cli''" "find_command (top ?h) ''cli'' = Some cliCommand"
    by (simp_all add: plain_def find_defs cliCommand_def)
  then obtain ctx where ctx: "x_App ctx = top ?h" "x_args ctx = ''cli'' # help @ c_Name c # rest" "x_parent ctx = None" "calm_context fe ctx"
      "main_run fe w (p # ''cli'' # help @ c_Name c # rest) = map_outcome fst (run_command (behave fe w) fe cliCommand ctx)"
    using top_dispatch[of "''cli''" w cliCommand "help @ c_Name c # rest" fe p] by blast
  have "plain (c_Name c)"
    using assms leaves(1) by (auto simp: leaf_def Names_def intro: undashed_plain)
  note found = this sub_finds[OF ctx(1) assms(1)]
  obtain ctx' where "x_App ctx' = sub ctx" "x_args ctx' = c_Name c # rest"
      "run_command (behave fe w) fe cliCommand ctx = run_command (behave fe w) fe c ctx'"
    using assms(2) sub_dispatch[OF ctx(1) _ ctx(3,4) found] sub_help[OF ctx(1) _ ctx(3,4) found] ctx(2) by fastforce
  then show ?thesis
    using ctx(5) sub_simps(3)[OF ctx(1)] found(2) by (intro exI[of _ ctx']) simp
qed

section \<open>The commands of cli\<close>

definition connect_set :: flagset where
  "connect_set = \<lparr>fs_cells = [VString ''127.0.0.1:9374'', VString ''127.0.0.1:9374'', VBool False, VBool False],
     fs_formal = [''connect'' \<mapsto> 0, ''c'' \<mapsto> 1, ''help'' \<mapsto> 2, ''h'' \<mapsto> 3], fs_actual = [], fs_args = []\<rparr>"

lemma connect_flags: "flagSet fe (connectFlags @ [HelpFlag]) = Returns connect_set"
  by (simp add: connectFlags_def HelpFlag_def flagSet_def newFlagSet_def applyString_def applyBool_def new_cell_def
      set_var_def Let_def connect_set_def numeral_3_eq_3 numeral_2_eq_2)

text \<open>The flag set after an address is given under one of its names.\<close>

lemma connect_addr:
  assumes "n = ''connect'' \<or> n = ''c''" "flag_arg n s" "args = [] \<or> plain (hd args)"
  shows "\<exists>fs1 fs2. parse_set fe (s # addr # args) connect_set = (fs1, None) \<and>
    normalizeFlags fe (connectFlags @ [HelpFlag]) fs1 = (fs2, None) \<and> fs_args fs2 = args \<and>
    lookupString fe ''connect'' fs2 = addr \<and> \<not> lookupBool fe ''h'' fs2 \<and> \<not> lookupBool fe ''help'' fs2"
proof -
  let ?k = "if n = ''connect'' then 0 else 1"
  let ?fs = "connect_set\<lparr>fs_args := s # addr # args\<rparr>"
  let ?fs1 = "mark n (store ?k (VString addr) (?fs\<lparr>fs_args := args\<rparr>))"
  let ?fs2 = "?fs1\<lparr>fs_cells := [VString addr, VString addr, VBool False, VBool False], fs_actual := [''connect'', ''c'']\<rparr>"
  have n: "flag_name n"
    using assms(1) by (auto simp: flag_name_def)
  have "fs_formal ?fs n = Some ?k" "fs_cells ?fs ! ?k = VString ''127.0.0.1:9374''"
    using assms(1) by (auto simp: connect_set_def)
  then have "parse_set fe (s # addr # args) connect_set = (?fs1, None)"
    using parse_string[OF n assms(2), of ?fs addr args ?k] parse_stop[of ?fs1] assms(3)
    by (simp add: parse_set_def mark_def store_def)
  moreover have "\<exists>as. normalizeFlags fe (connectFlags @ [HelpFlag]) ?fs1 = (?fs2\<lparr>fs_actual := as\<rparr>, None)"
    using assms(1)
    by (auto simp: normalizeFlags_def connectFlags_def HelpFlag_def copyFlag_def set_flag_def lookup_def mark_def store_def
        connect_set_def Let_def)
  then obtain as where "normalizeFlags fe (connectFlags @ [HelpFlag]) ?fs1 = (?fs2\<lparr>fs_actual := as\<rparr>, None)" ..
  ultimately show ?thesis
    by (intro exI[of _ ?fs1] exI[of _ "?fs2\<lparr>fs_actual := as\<rparr>"])
      (simp add: lookupString_def lookupBool_def lookup_def mark_def store_def connect_set_def parse_bool_def format_bool_def)
qed

lemma cli_command_shape:
  assumes "c \<in> set cliCommands"
  shows "c_Flags c = connectFlags" "leaf c" "c_Name c \<noteq> []" "undashed (c_Name c)"
    "c_Action c = Some (User act) \<Longrightarrow> act \<noteq> ServerAct \<and> act \<noteq> GenkeyAct"
proof -
  have "\<forall>c\<in>set cliCommands. c_Flags c = connectFlags \<and> c_Name c \<noteq> [] \<and>
      c_Action c \<noteq> Some (User ServerAct) \<and> c_Action c \<noteq> Some (User GenkeyAct)"
    by (simp add: cliCommands_def plain_command_def)
  then show "c_Flags c = connectFlags" "c_Name c \<noteq> []" "c_Action c = Some (User act) \<Longrightarrow> act \<noteq> ServerAct \<and> act \<noteq> GenkeyAct"
    using assms by auto
  show "leaf c" "undashed (c_Name c)"
    using assms leaves(1) by (auto simp: leaf_def Names_def)
qed

lemma client_runs:
  assumes "c \<in> set cliCommands" "c_Action c = Some (User act)" "reordered False (c_Name c # rest) = Returns args"
    "parse_set fe args connect_set = (fs1, None)" "normalizeFlags fe (connectFlags @ [HelpFlag]) fs1 = (fs2, None)"
    "\<not> lookupBool fe ''h'' fs2" "\<not> lookupBool fe ''help'' fs2" "help = [] \<or> help = [''-h'']"
  shows "main_run fe w (p # ''cli'' # help @ c_Name c # rest) = Returns [Did (client w act (lookupString fe ''connect'' fs2) (fs_args fs2))]"
proof -
  note shape = cli_command_shape[OF assms(1)]
  obtain ctx where ctx: "\<not> a_EnableBashCompletion (x_App ctx)" "x_args ctx = c_Name c # rest"
      "main_run fe w (p # ''cli'' # help @ c_Name c # rest) = map_outcome fst (run_command (behave fe w) fe c ctx)"
    using cli_dispatch[OF assms(1,8), of rest fe w p] by blast
  have "\<exists>c1. run_command (behave fe w) fe c ctx =
      Returns (map Did (run_action (behave fe w) act (Context (x_App ctx) fs2 c1 (Some ctx))), None)"
    by (rule leaf_acts[OF shape(2) ctx(1) assms(2)]) (use assms ctx(2) connect_flags in \<open>simp_all add: shape(1)\<close>)
  moreover have "perform fe w act (Context (x_App ctx) fs2 c1 (Some ctx)) = client w act (lookupString fe ''connect'' fs2) (fs_args fs2)" for c1
    using shape(5)[OF assms(2)] by (cases act) (simp_all add: perform_def context_String_def x_args_def)
  ultimately show ?thesis
    unfolding ctx(3) by (auto simp: behave_def)
qed

text \<open>An argument that is a negative number.\<close>

definition negative :: "string \<Rightarrow> bool" where
  "negative a \<longleftrightarrow> (\<exists>c d. a = ''-'' @ c # d \<and> (is_digit c \<or> c = CHR ''.''))"

lemma negative_refused:
  assumes "c \<in> set cliCommands" "\<forall>a\<in>set pre. undashed a" "negative amount"
  shows "main_run fe w (p # ''cli'' # c_Name c # pre @ [amount]) = Returns [Text incorrect, CommandHelp c, Text [NL]]"
proof -
  note shape = cli_command_shape[OF assms(1)]
  obtain k d where a: "amount = ''-'' @ k # d" "is_digit k \<or> k = CHR ''.''"
    using assms(3) by (auto simp: negative_def)
  have k: "k \<noteq> CHR ''-''" "k \<noteq> CHR ''=''" "k \<noteq> CHR ''c''" "k \<noteq> CHR ''h''"
    using a(2) by (auto simp: is_digit_def)
  have "fst (split_eq (k # d)) \<noteq> []" "hd (fst (split_eq (k # d))) = k"
    by (simp_all add: split_eq_def Let_def)
  then have "fs_formal connect_set (fst (split_eq (k # d))) = None"
    using k by (auto simp: connect_set_def)
  then obtain e where e: "parse_set fe (amount # pre) connect_set = (connect_set\<lparr>fs_args := pre\<rparr>, Some e)"
    using parse_unknown[of "k # d" "connect_set\<lparr>fs_args := amount # pre\<rparr>" pre fe] k by (auto simp: a(1) parse_set_def)
  obtain ctx where ctx: "\<not> a_EnableBashCompletion (x_App ctx)" "find_command (x_App ctx) (c_Name c) = Some c"
      "x_args ctx = c_Name c # pre @ [amount]"
      "main_run fe w (p # ''cli'' # c_Name c # pre @ [amount]) = map_outcome fst (run_command (behave fe w) fe c ctx)"
    using cli_dispatch[OF assms(1) disjI1[OF refl], of "pre @ [amount]" fe w p] by auto
  have "has_prefix ''-'' amount" "amount \<noteq> ''--''"
    using k by (auto simp: a(1) has_prefix_def)
  then have "reordered False (x_args ctx) = Returns (amount # pre)"
    using reordered_flags[OF shape(4) assms(2), of amount "[]"] by (simp add: ctx(3))
  from leaf_refuses[OF shape(2) ctx(1) _ this e, where b = "behave fe w"]
  show ?thesis
    unfolding ctx(4) using connect_flags ctx(2) shape(3) by (simp add: shape(1) ShowCommandHelp_def)
qed

lemma calm_set:
  "\<not> lookupBool fe ''h'' (connect_set\<lparr>fs_args := args\<rparr>)" "\<not> lookupBool fe ''help'' (connect_set\<lparr>fs_args := args\<rparr>)"
  "lookupString fe ''connect'' (connect_set\<lparr>fs_args := args\<rparr>) = ''127.0.0.1:9374''"
  "normalizeFlags fe (connectFlags @ [HelpFlag]) (connect_set\<lparr>fs_args := args\<rparr>) = (connect_set\<lparr>fs_args := args\<rparr>, None)"
  by (simp_all add: lookupBool_def lookupString_def lookup_def connect_set_def parse_bool_def format_bool_def normalize_unmarked)

lemma undashed_stop: "\<forall>a\<in>set as. undashed a \<Longrightarrow> as = [] \<or> plain (hd as)"
  using undashed_plain by (cases as) auto

lemma client_default:
  assumes "c \<in> set cliCommands" "c_Action c = Some (User act)" "\<forall>a\<in>set pre. undashed a" "help = [] \<or> help = [''-h'']"
  shows "main_run fe w (p # ''cli'' # help @ c_Name c # pre) = Returns [Did (client w act ''127.0.0.1:9374'' pre)]"
proof -
  have "parse_set fe pre connect_set = (connect_set\<lparr>fs_args := pre\<rparr>, None)"
    using parse_stop[of "connect_set\<lparr>fs_args := pre\<rparr>" fe] undashed_stop[OF assms(3)] by (simp add: parse_set_def)
  from client_runs[OF assms(1,2) reordered_undashed[OF cli_command_shape(4)[OF assms(1)] assms(3)] this calm_set(4) calm_set(1,2) assms(4)]
  show ?thesis
    unfolding calm_set(3) by simp
qed

text \<open>
  C39: the commands of \<open>cli\<close> talk to the server at the default address, or at the one given
  with \<open>-c\<close> or \<open>--connect\<close>.  Arguments behind a flag come before those in front of it, so \<open>inc x -c a 5\<close>
  increments the counter 5 by x.  A flag for help in front of the command is ignored.  An amount that is a negative number is taken for a flag and refused,
  unless \<open>--\<close> comes first.
\<close>

theorem cli_arguments:
  assumes "c \<in> set cliCommands" "c_Action c = Some (User act)" "\<forall>a\<in>set pre. undashed a" "\<forall>a\<in>set post. undashed a"
    "n = ''connect'' \<or> n = ''c''" "flag_arg n s" "addr \<noteq> ''--''" "negative amount"
  shows "main_run fe w (p # ''cli'' # c_Name c # pre) = Returns [Did (client w act ''127.0.0.1:9374'' pre)] \<and>
    main_run fe w (p # ''cli'' # ''-h'' # c_Name c # pre) = Returns [Did (client w act ''127.0.0.1:9374'' pre)] \<and>
    main_run fe w (p # ''cli'' # c_Name c # pre @ s # addr # post) = Returns [Did (client w act addr (post @ pre))] \<and>
    main_run fe w (p # ''cli'' # c_Name c # pre @ [amount]) = Returns [Text incorrect, CommandHelp c, Text [NL]] \<and>
    main_run fe w (p # ''cli'' # c_Name c # ''--'' # rest) = Returns [Did (client w act ''127.0.0.1:9374'' rest)]"
proof (intro conjI)
  note name = cli_command_shape(4)[OF assms(1)]
  show "main_run fe w (p # ''cli'' # c_Name c # pre) = Returns [Did (client w act ''127.0.0.1:9374'' pre)]"
    using client_default[OF assms(1-3), of "[]" fe w p] by simp
  show "main_run fe w (p # ''cli'' # ''-h'' # c_Name c # pre) = Returns [Did (client w act ''127.0.0.1:9374'' pre)]"
    using client_default[OF assms(1-3), of "[''-h'']" fe w p] by simp
  have "parse_set fe (''--'' # rest) connect_set = (connect_set\<lparr>fs_args := rest\<rparr>, None)"
    using parse_terminator[of "connect_set\<lparr>fs_args := ''--'' # rest\<rparr>"] by (simp add: parse_set_def)
  from client_runs[OF assms(1,2) reordered_terminated[OF name, of "[]", simplified] this calm_set(4) calm_set(1,2) disjI1[OF refl]]
  show "main_run fe w (p # ''cli'' # c_Name c # ''--'' # rest) = Returns [Did (client w act ''127.0.0.1:9374'' rest)]"
    unfolding calm_set(3) by simp
  have s: "has_prefix ''-'' s" "s \<noteq> ''--''" "''--'' \<notin> set (addr # post)"
    using assms(4-7) by (auto simp: flag_arg_def has_prefix_def)
  have "post @ pre = [] \<or> plain (hd (post @ pre))"
    using assms(3,4) by (intro undashed_stop) auto
  from connect_addr[OF assms(5,6) this, of fe addr] obtain fs1 fs2 where
    fs: "parse_set fe (s # addr # post @ pre) connect_set = (fs1, None)"
      "normalizeFlags fe (connectFlags @ [HelpFlag]) fs1 = (fs2, None)" "fs_args fs2 = post @ pre"
      "lookupString fe ''connect'' fs2 = addr" "\<not> lookupBool fe ''h'' fs2" "\<not> lookupBool fe ''help'' fs2"
    by auto
  have "reordered False (c_Name c # pre @ s # addr # post) = Returns (s # addr # post @ pre)"
    using reordered_flags[OF name assms(3) s] by simp
  from client_runs[OF assms(1,2) this fs(1,2,5,6) disjI1[OF refl]]
  show "main_run fe w (p # ''cli'' # c_Name c # pre @ s # addr # post) = Returns [Did (client w act addr (post @ pre))]"
    unfolding fs(3,4) by simp
  show "main_run fe w (p # ''cli'' # c_Name c # pre @ [amount]) = Returns [Text incorrect, CommandHelp c, Text [NL]]"
    by (rule negative_refused[OF assms(1,3,8)])
qed

section \<open>The server command\<close>

lemma server_names:
  "eachName ''name, n'' = [''name'', ''n'']"
  "eachName ''bind, b'' = [''bind'', ''b'']"
  "eachName ''advertise, a'' = [''advertise'', ''a'']"
  "eachName ''client, c'' = [''client'', ''c'']"
  "eachName ''join, j'' = [''join'', ''j'']"
  "eachName ''load, l'' = [''load'', ''l'']"
  "eachName ''save, s'' = [''save'', ''s'']"
  "eachName ''save-interval, i'' = [''save-interval'', ''i'']"
  "eachName ''pidfile, p'' = [''pidfile'', ''p'']"
  "eachName ''syslog'' = [''syslog'']"
  "eachName ''sync-interval'' = [''sync-interval'']"
  "eachName ''update-interval'' = [''update-interval'']"
  "eachName ''update-nodes'' = [''update-nodes'']"
  "eachName ''key'' = [''key'']"
  by (simp_all add: eachName_def strip_blanks_def)

definition server_set :: "string \<Rightarrow> flagset" where
  "server_set h = \<lparr>fs_cells =
     [VString h, VString h, VString ''127.0.0.1:9373'', VString ''127.0.0.1:9373'', VString [], VString [],
     VString ''127.0.0.1:9374'', VString ''127.0.0.1:9374'', VStrings [], VString [], VString [], VString [],
     VString [], VDuration (60 * second), VDuration (60 * second), VString [], VString [], VString [],
     VDuration (second * 10), VDuration (millisecond * 100), VInt 2, VString [], VBool False, VBool False],
     fs_formal = [''name'' \<mapsto> 0, ''n'' \<mapsto> 1, ''bind'' \<mapsto> 2, ''b'' \<mapsto> 3, ''advertise'' \<mapsto> 4,
     ''a'' \<mapsto> 5, ''client'' \<mapsto> 6, ''c'' \<mapsto> 7, ''join'' \<mapsto> 8, ''j'' \<mapsto> 8,
     ''load'' \<mapsto> 9, ''l'' \<mapsto> 10, ''save'' \<mapsto> 11, ''s'' \<mapsto> 12,
     ''save-interval'' \<mapsto> 13, ''i'' \<mapsto> 14, ''pidfile'' \<mapsto> 15, ''p'' \<mapsto> 16,
     ''syslog'' \<mapsto> 17, ''sync-interval'' \<mapsto> 18, ''update-interval'' \<mapsto> 19,
     ''update-nodes'' \<mapsto> 20, ''key'' \<mapsto> 21, ''help'' \<mapsto> 22, ''h'' \<mapsto> 23], fs_actual = [], fs_args = []\<rparr>"

lemma server_flags: "flagSet fe (serverFlags h @ [HelpFlag]) = Returns (server_set h)"
  by (simp add: serverFlags_def HelpFlag_def server_names flagSet_def newFlagSet_def applyString_def applyBool_def
      applyDuration_def applyInt_def applyStringSlice_def new_cell_def set_var_def Let_def server_set_def numeral_eq_Suc)

text \<open>Flags and hosts: \<open>-j h1 -j h2\<close>.\<close>

definition join_args :: "(string \<times> string) list \<Rightarrow> string list" where
  "join_args js = concat (map (\<lambda>(s, host). [s, host]) js)"

lemma parse_joins:
  assumes "flag_name n" "\<forall>(s, host)\<in>set js. flag_arg n s" "fs_args fs = join_args js"
    "fs_formal fs n = Some k" "k < length (fs_cells fs)" "fs_cells fs ! k = VStrings xs"
  shows "\<exists>as. set as \<subseteq> insert n (set (fs_actual fs)) \<and> parse_args fe fs =
    (fs\<lparr>fs_cells := (fs_cells fs)[k := VStrings (xs @ map snd js)], fs_actual := as, fs_args := []\<rparr>, None)"
  using assms(2-6)
proof (induction js arbitrary: fs xs)
  case Nil
  then have "fs\<lparr>fs_cells := (fs_cells fs)[k := VStrings (xs @ map snd [])], fs_actual := fs_actual fs, fs_args := []\<rparr> = fs"
    by (cases fs) (simp add: join_args_def list_update_same_conv)
  moreover have "parse_args fe fs = (fs, None)"
    using Nil(2) by (intro parse_stop) (simp add: join_args_def)
  ultimately show ?case
    by (intro exI[of _ "fs_actual fs"]) (simp add: subset_insertI)
next
  case (Cons j js)
  obtain s host where j: "j = (s, host)"
    by (rule prod.exhaust)
  let ?fs = "mark n (store k (VStrings (xs @ [host])) (fs\<lparr>fs_args := join_args js\<rparr>))"
  have args: "fs_args fs = s # host # join_args js" "flag_arg n s" "\<forall>(s, host)\<in>set js. flag_arg n s"
    using Cons.prems(1,2) by (auto simp: j join_args_def)
  have "parse_args fe fs = parse_args fe ?fs"
    by (rule parse_slice[OF assms(1) args(2,1) Cons.prems(3,5)])
  moreover obtain as where "set as \<subseteq> insert n (set (fs_actual ?fs))" "parse_args fe ?fs =
      (?fs\<lparr>fs_cells := (fs_cells ?fs)[k := VStrings ((xs @ [host]) @ map snd js)], fs_actual := as, fs_args := []\<rparr>, None)"
    using Cons.IH[OF args(3), of ?fs "xs @ [host]"] Cons.prems(3,4) by (auto simp: mark_def store_def)
  ultimately show ?case
    by (intro exI[of _ as]) (simp add: mark_def store_def j)
qed

text \<open>The final flag set of a server that joins hosts.\<close>

definition joined_set :: "string \<Rightarrow> string list \<Rightarrow> flagset" where
  "joined_set h hosts = (server_set h)\<lparr>fs_cells := (fs_cells (server_set h))[8 := VStrings hosts]\<rparr>"

lemma joined_normal:
  assumes "set as \<subseteq> {''j''}"
  shows "normalizeFlags fe (serverFlags h @ [HelpFlag]) ((joined_set h hosts)\<lparr>fs_actual := as\<rparr>) =
    ((joined_set h hosts)\<lparr>fs_actual := as\<rparr>, None)"
proof -
  let ?fl = "serverFlags h @ [HelpFlag]" and ?fs = "(joined_set h hosts)\<lparr>fs_actual := as\<rparr>"
  let ?J = "StringSliceFlag ''join, j'' (Some []) ''Join these hosts after starting.'' []"
  have split: "?fl = take 4 ?fl @ ?J # drop 5 ?fl"
    by (simp add: serverFlags_def)
  have others: "\<forall>f\<in>set (take 4 ?fl @ drop 5 ?fl). set (eachName (f_Name f)) \<inter> {''j''} = {}"
    by (simp add: serverFlags_def HelpFlag_def server_names)
  have rest: "normalize fe {''j''} (take 4 ?fl) ?fs = (?fs, None)" "normalize fe {''j''} (drop 5 ?fl) ?fs = (?fs, None)"
    using others by (intro normalize_other; auto)+
  have "lookup ''j'' ?fs = Some (VStrings hosts)"
    by (simp add: lookup_def joined_set_def server_set_def)
  then have "normalize fe {''j''} (?J # drop 5 ?fl) ?fs = (?fs, None)"
    using rest(2) by (simp add: server_names copyFlag_def)
  then have "normalize fe {''j''} ?fl ?fs = (?fs, None)"
    by (subst split, subst normalize_append) (simp only: rest(1) prod.case option.case)
  moreover have "normalize fe {} ?fl ?fs = (?fs, None)"
    by (rule normalize_other) simp
  moreover have "fs_actual ?fs = as"
    by simp
  ultimately show ?thesis
    using subset_singletonD[OF assms] unfolding normalizeFlags_def by metis
qed

lemma joined_options:
  assumes "\<forall>d\<in>{60 * second, second * 10, millisecond * 100}. fe_parse fe (fe_show fe d) = Inr d" "x_flagSet ctx = (joined_set h hosts)\<lparr>fs_actual := as\<rparr>"
  shows "server_options fe ctx = Returns ((default_options h)\<lparr>op_join := hosts\<rparr>)"
proof -
  have "parse_int 10 (format_int 2) = (2, None)"
    by (simp add: format_int_def dec.simps digit_chars parse_int_def parse_uint_def digit_of_def)
  then show ?thesis
    using assms
    by (simp add: server_options_def context_String_def context_Duration_def context_Int_def context_StringSlice_def
        lookupString_def lookupDuration_def lookupInt_def lookupStringSlice_def lookup_def joined_set_def server_set_def
        default_options_def Let_def)
qed

text \<open>
  \<open>server\<close> with any number of hosts behind \<open>-j\<close> starts a server with the default options
  that joins these hosts in this order.
\<close>

theorem server_command_line:
  assumes "\<forall>(s, host)\<in>set js. flag_arg ''j'' s \<and> host \<noteq> ''--''"
    "\<forall>d\<in>{60 * second, second * 10, millisecond * 100}. fe_parse fe (fe_show fe d) = Inr d"
  shows "main_run fe w (p # ''server'' # join_args js) = Returns [Did (Served (serverAction (w_machine w)
    ((default_options (os_hostname (w_machine w)))\<lparr>op_join := map snd js\<rparr>)))]"
proof -
  let ?h = "os_hostname (w_machine w)"
  let ?fs = "(server_set ?h)\<lparr>fs_args := join_args js\<rparr>"
  have "plain ''server''" "find_command (top ?h) ''server'' = Some (serverCommand ?h)"
    by (simp_all add: plain_def find_defs cliCommand_def genkeyCommand_def serverCommand_def plain_command_def)
  then obtain ctx where ctx: "x_App ctx = top ?h" "x_args ctx = ''server'' # join_args js"
      "main_run fe w (p # ''server'' # join_args js) = map_outcome fst (run_command (behave fe w) fe (serverCommand ?h) ctx)"
    using top_dispatch[of "''server''" w "serverCommand ?h" "join_args js" fe p] by blast
  have u: "undashed ''server''" and j: "flag_name ''j''"
    by (simp_all add: has_prefix_def flag_name_def)
  have dashes: "\<forall>(s, host)\<in>set js. has_prefix ''-'' s \<and> s \<noteq> ''--'' \<and> host \<noteq> ''--''"
    using assms(1) by (auto simp: flag_arg_def has_prefix_def)
  have order: "reordered False (x_args ctx) = Returns (join_args js)"
  proof (cases js)
    case Nil
    then show ?thesis
      using reordered_undashed[OF u, of "[]"] by (simp add: ctx(2) join_args_def)
  next
    case (Cons j js')
    obtain s host where "j = (s, host)"
      by (rule prod.exhaust)
    moreover have "''--'' \<notin> set (join_args js)"
      using dashes by (auto simp: join_args_def)
    ultimately show ?thesis
      using reordered_flags[OF u, of "[]" s "host # join_args js'"] dashes Cons by (simp add: ctx(2) join_args_def)
  qed
  have cell: "fs_formal ?fs ''j'' = Some 8" "8 < length (fs_cells ?fs)" "fs_cells ?fs ! 8 = VStrings []"
    by (simp_all add: server_set_def)
  have "\<forall>(s, host)\<in>set js. flag_arg ''j'' s"
    using assms(1) by auto
  from parse_joins[OF j this _ cell, of fe] obtain as where as: "set as \<subseteq> {''j''}"
      "parse_set fe (join_args js) (server_set ?h) = ((joined_set ?h (map snd js))\<lparr>fs_actual := as\<rparr>, None)"
    by (auto simp: parse_set_def joined_set_def server_set_def)
  let ?fs2 = "(joined_set ?h (map snd js))\<lparr>fs_actual := as\<rparr>"
  have calm: "\<not> lookupBool fe ''h'' ?fs2" "\<not> lookupBool fe ''help'' ?fs2"
    by (simp_all add: lookupBool_def lookup_def joined_set_def server_set_def parse_bool_def format_bool_def)
  have shape: "c_Flags (serverCommand ?h) = serverFlags ?h" "c_Action (serverCommand ?h) = Some (User ServerAct)"
    by (simp_all add: serverCommand_def plain_command_def)
  have "\<exists>c1. run_command (behave fe w) fe (serverCommand ?h) ctx =
      Returns (map Did (run_action (behave fe w) ServerAct (Context (x_App ctx) ?fs2 c1 (Some ctx))), None)"
    by (rule leaf_acts[OF leaves(3) _ shape(2) _ order as(2) _ calm])
      (simp_all add: ctx(1) shape(1) server_flags joined_normal[OF as(1)])
  moreover have "server_options fe (Context (x_App ctx) ?fs2 c1 (Some ctx)) = Returns ((default_options ?h)\<lparr>op_join := map snd js\<rparr>)" for c1
    by (rule joined_options[OF assms(2)]) simp
  ultimately show ?thesis
    unfolding ctx(3) by (auto simp: behave_def perform_def)
qed

section \<open>What the user sees\<close>

text \<open>
  C40: \<open>dcounter cli get\<close>, typed with the name of a counter that does not begin with a
  dash, prints the value the server at the default address computed, if that is a whole number, and
  whether the server is consistent.  (The format is \<open>%f\<close>: of a fraction no more than six decimals are
  printed.)
\<close>

theorem command_line_get:
  assumes "server_ok s" "arg_ok n" "undashed n" "e_write_ok (envs 0)" "e_before (envs 0) s = s"
    "handle envs 0 fin s (proto_write ''GET'' [n]) = (s', reply, ending)"
    "api_Dial (w_dial w ''127.0.0.1:9374'') = Returns (Inr conn)" "w_talk w ''127.0.0.1:9374'' = a # as"
    "connected a conn" "at_input a = reply" "fst (getCounter s (e_ms (envs 0)) n) = f_of_int k"
  shows "s' = s \<and> main_run fe w [p, ''cli'', ''get'', n] = Returns [Did (Printed [Stdout (format_int k @ ''.000000 ('' @
    (if consistent s then ''CONSISTENT'' else ''INCONSISTENT'') @ '')'' @ [NL])])]"
proof -
  let ?c = "plain_command ''get'' ''get the value of a counter'' connectFlags GetAct"
  have c: "?c \<in> set cliCommands" "c_Action ?c = Some (User GetAct)" "c_Name ?c = ''get''"
    by (simp_all add: cliCommands_def plain_command_def)
  have m: "main_run fe w [p, ''cli'', ''get'', n] = Returns [Did (client w GetAct ''127.0.0.1:9374'' [n])]"
    using client_default[OF c(1,2), of "[n]" "[]" fe w p] assms(3) by (simp add: c(3))
  have "s' = s \<and> cli_get (w_dial w ''127.0.0.1:9374'') (a # as) [n] = Returns [Stdout (format_int k @ ''.000000 ('' @
      (if consistent s then ''CONSISTENT'' else ''INCONSISTENT'') @ '')'' @ [NL])]"
    by (rule cli_get_prints[OF assms(1,2,4-7,9-11)])
  then show ?thesis
    unfolding m by (simp add: client_def assms(8) printed_of_def)
qed

section \<open>Samples\<close>

theorem command_line_total_witness:
  "\<forall>fe w. \<exists>out. main_run fe w [''dcounter'', ''-x'', ''--=''] = Returns out"
  using command_line_total[of "[''dcounter'', ''-x'', ''--='']"] by simp

theorem cli_arguments_witness:
  "\<forall>fe w.
    main_run fe w [''dcounter'', ''cli'', ''inc'', ''x'', ''-c'', ''h:1'', ''5''] = Returns [Did (client w IncAct ''h:1'' [''5'', ''x''])] \<and>
    main_run fe w [''dcounter'', ''cli'', ''inc'', ''x'', ''-5''] = Returns [Text incorrect,
      CommandHelp (plain_command ''inc'' ''increment a counter'' connectFlags IncAct), Text [NL]] \<and>
    main_run fe w [''dcounter'', ''cli'', ''inc'', ''--'', ''x'', ''-5''] = Returns [Did (client w IncAct ''127.0.0.1:9374'' [''x'', ''-5''])]"
proof (intro allI)
  fix fe w
  let ?c = "plain_command ''inc'' ''increment a counter'' connectFlags IncAct"
  have c: "?c \<in> set cliCommands" "c_Action ?c = Some (User IncAct)" "c_Name ?c = ''inc''"
    by (simp_all add: cliCommands_def plain_command_def)
  have "\<forall>a\<in>set [''x'']. undashed a" "\<forall>a\<in>set [''5'']. undashed a" "flag_arg ''c'' ''-c''" "''h:1'' \<noteq> ''--''" "negative ''-5''"
    by (simp_all add: has_prefix_def flag_arg_def negative_def is_digit_def)
  from cli_arguments[OF c(1,2) this(1,2) disjI2[OF refl] this(3-5), of fe w "''dcounter''" "[''x'', ''-5'']"]
  show "main_run fe w [''dcounter'', ''cli'', ''inc'', ''x'', ''-c'', ''h:1'', ''5''] = Returns [Did (client w IncAct ''h:1'' [''5'', ''x''])] \<and>
      main_run fe w [''dcounter'', ''cli'', ''inc'', ''x'', ''-5''] = Returns [Text incorrect, CommandHelp ?c, Text [NL]] \<and>
      main_run fe w [''dcounter'', ''cli'', ''inc'', ''--'', ''x'', ''-5''] = Returns [Did (client w IncAct ''127.0.0.1:9374'' [''x'', ''-5''])]"
    unfolding c(3) by simp
qed

text \<open>The durations of the server's flags as package \<open>time\<close> writes them.\<close>

definition fe_a :: flagenv where
  "fe_a = \<lparr>fe_getenv = (\<lambda>_. []),
     fe_parse = (\<lambda>s. if s = ''1m0s'' then Inr (60 * second) else if s = ''10s'' then Inr (second * 10)
       else if s = ''100ms'' then Inr (millisecond * 100) else Inl (ErrMsg ''time: invalid duration'')),
     fe_show = (\<lambda>d. if d = 60 * second then ''1m0s'' else if d = second * 10 then ''10s'' else ''100ms'')\<rparr>"

theorem server_command_line_witness:
  "\<forall>w. main_run fe_a w [''dcounter'', ''server'', ''-j'', ''h1'', ''-j'', ''h2''] = Returns [Did (Served (serverAction (w_machine w)
    ((default_options (os_hostname (w_machine w)))\<lparr>op_join := [''h1'', ''h2'']\<rparr>)))]"
proof
  fix w
  have d: "\<forall>d\<in>{60 * second, second * 10, millisecond * 100}. fe_parse fe_a (fe_show fe_a d) = Inr d"
    by (simp add: fe_a_def second_def millisecond_def)
  have "\<forall>(s, host)\<in>set [(''-j'', ''h1''), (''-j'', ''h2'')]. flag_arg ''j'' s \<and> host \<noteq> ''--''"
    by (simp add: flag_arg_def)
  from server_command_line[OF this d, of w "''dcounter''"]
  show "main_run fe_a w [''dcounter'', ''server'', ''-j'', ''h1'', ''-j'', ''h2''] = Returns [Did (Served (serverAction (w_machine w)
    ((default_options (os_hostname (w_machine w)))\<lparr>op_join := [''h1'', ''h2'']\<rparr>)))]"
    by (simp add: join_args_def)
qed

definition world_a :: "bytes \<Rightarrow> world" where
  "world_a reply = \<lparr>w_machine = machine_a, w_dial = (\<lambda>_. [answer (proto_write ''PONG'' []), answer (proto_write ''PONG'' [])]),
     w_talk = (\<lambda>_. [answer reply]), w_order = [], w_unmarshal = (\<lambda>_. Inr []), w_rand = Inl EOF\<rparr>"

theorem command_line_get_witness:
  "\<exists>s' reply ending. handle (\<lambda>_. calm) 0 EOF srv_a (proto_write ''GET'' [''x'']) = (s', reply, ending) \<and>
     main_run fe_a (world_a reply) [''dcounter'', ''cli'', ''get'', ''x''] =
       Returns [Did (Printed [Stdout (format_int 8 @ ''.000000 ('' @ (if consistent srv_a then ''CONSISTENT'' else ''INCONSISTENT'') @ '')'' @ [NL])])]"
proof -
  obtain s' reply ending where h:
    "handle (\<lambda>_. calm) 0 EOF srv_a (proto_write ''GET'' [''x'']) = (s', reply, ending)"
    by (rule prod_cases3)
  have v: "fst (getCounter srv_a (e_ms calm) ''x'') = f_of_int 8"
    using get_int[OF contributes_a order_a(1)] sum_a[of abs] sum_a[of "\<lambda>z. z"] by (simp add: f_is_int_pos)
  have "arg_ok ''x''" "undashed ''x''" "connected (answer reply) (Some [])"
    by (simp_all add: arg_ok_def answer_def connected_def has_prefix_def)
  then show ?thesis
    using command_line_get[where as = "[]" and w = "world_a reply" and fe = fe_a, OF server_ok_a _ _ _ _ h _ _ _ _ v] h pong
    by (simp add: world_a_def)
qed

end
