(* ===== verification/Spec2Isabelle.thy ===== *)
theory Spec2Isabelle
  imports Pool MsgTypes SimpleDriver BincDriver MsgpackDriver TypeInfo CommandLine
begin

text \<open>
\<^bold>\<open>dcounter: distributed counters over memberlist.\<close>

A dcounter server keeps, for every member of a cluster, a replica of that member's counters.  A
counter is a pair of doubles that only grow, up and down, and a revision; its value is the sum of
\<open>up - down\<close> over the members.  An increment changes the server's own replica and queues the new
counter as gossip; a set first asks the others to take back what they added, over TCP, and then
overwrites the server's own counter under the next revision.  Gossip, membership and the exchange of
whole states are memberlist's (\<open>Godeps/_workspace/src/github.com/hashicorp/memberlist\<close>, vendored and
part of the program): it tells the server through a delegate who joins and leaves, what gossip
arrives and what state a peer sent, and asks it for gossip and state to send.  Clients speak a
protocol of lines over TCP; the program \<open>dcounter\<close> is the server, a client and a generator of keys.

\<^bold>\<open>Theories and what they model\<close> (files below \<open>src/\<close>; \<open>ml\<close> is memberlist, \<open>codec\<close> is go-msgpack)

  \<^item> \<open>Prelude\<close>, \<open>GoFloat\<close>, \<open>GoStrconv\<close>, \<open>GoStrings\<close>, \<open>Base64\<close>: what is used of Go's library.  Bytes are
    8-bit words, strings are lists of characters, an error is a value of \<open>goerr\<close>, a fallible function
    returns a sum, \<open>outcome\<close> and \<open>run\<close> add panics and loops that do not end.  \<open>GoFloat\<close> is binary64
    arithmetic with exact rounding, \<open>GoStrconv\<close> prints and parses it.
  \<^item> \<open>Counter\<close>, \<open>Server\<close>: \<open>server/counter.go\<close>, \<open>server.go\<close>, \<open>api.go\<close>, \<open>memberlist.go\<close>, \<open>meta.go\<close>, \<open>buffer.go\<close>,
    \<open>state.go\<close>, \<open>change/change.go\<close>.  The record \<open>server\<close> is the struct \<open>Server\<close>; each method is a function
    from the state, with the orders of map loops, the clock and the results of sends as arguments.
    \<open>ServerInv\<close> has the invariant \<open>server_ok\<close>, \<open>ServerSteps\<close> the server as a transition system,
    \<open>Replication\<close> the meaning of the replicas.
  \<^item> \<open>Proto\<close>, \<open>Handle\<close>, \<open>Api\<close>, \<open>Pool\<close>: \<open>proto/proto.go\<close>, \<open>server/errors.go\<close>, the loop \<open>handle\<close> of
    \<open>server/api.go\<close>, \<open>api/api.go\<close>, \<open>pool/pool.go\<close>.
  \<^item> \<open>TransmitQueue\<close>: \<open>ml/queue.go\<close>, index by index, generic in the broadcast.
  \<^item> \<open>Node\<close>, \<open>MUtil\<close>, \<open>Keyring\<close>, \<open>Security\<close>: \<open>ml/util.go\<close>, \<open>ml/keyring.go\<close>, \<open>ml/security.go\<close>.
  \<^item> \<open>Msgpack\<close>, \<open>Wire\<close>, \<open>MsgTypes\<close>: what \<open>codec/msgpack.go\<close>, \<open>encode.go\<close>, \<open>decode.go\<close> do to memberlist's
    messages, and the messages of \<open>ml/net.go\<close>.
  \<^item> \<open>Driver\<close>, \<open>DriverProps\<close>, \<open>CodecTime\<close>, \<open>SimpleDriver\<close>, \<open>BincDriver\<close>, \<open>MsgpackDriver\<close>, \<open>TypeInfo\<close>: the
    rest of the codec.  A format (\<open>codec/simple.go\<close>, \<open>binc.go\<close>, \<open>msgpack.go\<close>) is a record of functions, the interfaces
    \<open>encDriver\<close> and \<open>decDriver\<close>; \<open>encode.go\<close> and \<open>decode.go\<close> are written over it, for values of an interface
    and for structs.  The locale \<open>codec_driver\<close> has the laws of a format, and in it the round trips are
    proved once; each format interprets it.  \<open>TypeInfo\<close> is what \<open>helper.go\<close> finds out about a struct type,
    and the registry of extensions.
  \<^item> \<open>Membership\<close>, \<open>MembershipInv\<close>, \<open>Verify\<close>, \<open>Mirror\<close>: the handlers of \<open>ml/state.go\<close>.  The record
    \<open>memberlist\<close> keeps the nodes in a heap, since node list and name map share pointers to them; what
    a handler does to the world (delegate calls, packets, timers) is appended to \<open>ml_out\<close> in order.
  \<^item> \<open>Net\<close>, \<open>NetTcp\<close>, \<open>NetInv\<close>, \<open>NetProps\<close>: packets and streams of \<open>ml/net.go\<close>, \<open>ml/broadcast.go\<close>.
  \<^item> \<open>Probe\<close>, \<open>Listen\<close>: the failure detector, gossip, push/pull, triggers and listeners of \<open>ml/state.go\<close>
    and \<open>ml/net.go\<close>.
  \<^item> \<open>HostPort\<close>, \<open>Ops\<close>, \<open>OpsProps\<close>, \<open>JoinProps\<close>, \<open>EventProps\<close>: \<open>server/util.go\<close>, the operations of
    \<open>ml/memberlist.go\<close> and the configurations of \<open>ml/config.go\<close>.
  \<^item> \<open>System\<close>, \<open>Columnize\<close>, \<open>Command\<close>: the server with its memberlist (\<open>Start\<close>, \<open>Stop\<close>, \<open>Kill\<close>, \<open>Join\<close>, the
    reconnect loop), the tables of \<open>columnize.go\<close>, and the actions of \<open>server.go\<close>, \<open>genkey.go\<close> and \<open>cli.go\<close>.
  \<^item> \<open>Flags\<close>, \<open>FlagProps\<close>, \<open>Cli\<close>, \<open>CommandLine\<close>: \<open>codegangsta/cli\<close> (\<open>flag.go\<close>, \<open>context.go\<close>, \<open>command.go\<close>,
    \<open>app.go\<close>, \<open>help.go\<close>) on Go's package \<open>flag\<close>, whose values are cells since the names of a slice flag share
    one; and the application of \<open>main.go\<close>, from the arguments of the process to the action.

\<^bold>\<open>What the lemmas show\<close>

  \<^item> Replicas: every reachable server is well-formed (below); increments, sets and gets mean what they
    should (\<open>inc_then_get\<close>, \<open>set_then_get\<close>); the merge refines a join semilattice, so that gossip and
    exchanges of one revision converge whatever their order, and of several when none comes after a later
    one (\<open>gossip_converges\<close>, \<open>merge_any_order\<close>, \<open>push_pull_agrees\<close>).  Otherwise the order matters:
    \<open>stale_change_resurrects\<close>.
  \<^item> Membership: no message turns back what is known about a node (\<open>membership_moves_forward\<close>,
    \<open>network_input_ok\<close>), a node refutes what is said against it (\<open>refutation_wins\<close>, \<open>self_stays_alive\<close>),
    and the server's view follows (\<open>events_mirror\<close>, \<open>daemon_consistent\<close>, \<open>stop_seen\<close>).
  \<^item> Wire: round trips of every encoding, the bounds of packets, and that no bytes break a decoder
    (\<open>wire_roundtrip\<close>, \<open>decode_typed\<close>, \<open>gossip_packets\<close>, \<open>state_exchange\<close>, \<open>clients_cannot_break\<close>); the inputs
    that do end the process are stated as such (\<open>crash_packets\<close>, \<open>version_byte_forged\<close>).
  \<^item> The command line: every one is parsed to an end (\<open>command_line_total\<close>), what it then does
    (\<open>cli_arguments\<close>, \<open>server_command_line\<close>), and what the user sees (\<open>command_line_get\<close>, \<open>members_table\<close>).
  \<^item> Interfaces are locales (the join of the replica order, the transmit queue's broadcasts, and
    others in their theories), each interpreted on the definitions of the code.

\<^bold>\<open>Parameters, bounds and termination.\<close>  Arguments stand for what is not in the program: LZW, AES-GCM
(with the laws of an AEAD), gob and JSON, the format of durations, the resolver, sockets, the clock, random numbers, the order
of map iteration, \<open>sort.Sort\<close> (with its documented contract).  \<open>ne_room\<close> and \<open>ne_nodes_room\<close> bound what
a process can allocate for a message.  The only definition with fuel is \<open>decodeIntf\<close>, whose depth of
nesting is bounded by the length of the stream, which is always enough (a level takes a byte).  All other
loops are structural or come with a measure; \<open>refute_inc\<close> (drawing incarnations), \<open>handle_all\<close> (compound and compressed packets in one
another) and \<open>shrink_buf\<close> (the receive buffer) are partial functions since they need not end, and when
they do is proved (\<open>accusations_return\<close>, \<open>packet_arrives\<close>, \<open>buffer_shrinks\<close>).  What listeners, triggers
and clients meet is a finite list of events; a list that is used up is a goroutine that waits.

\<^bold>\<open>Concurrency.\<close>  An operation that holds a lock is one step.  What other goroutines do while one waits
or sleeps is an argument (\<open>others\<close>), of which the theorems assume that it keeps the invariant; the step
relations \<open>server_step\<close>, \<open>ml_step\<close>, \<open>life\<close> and \<open>run_step\<close> (with \<open>calm_step\<close>, where a join finds no other node live) interleave the operations freely.  A set
with its resets and the changes they cause is followed step by step (\<open>set_then_get\<close>).  Reads of the
node list without the lock, and the races they allow, are not modelled.

\<^bold>\<open>Not modelled.\<close>  Logging and metrics (\<open>go-metrics\<close>) and the syslog writer, which change no state of the
program;
the text that \<open>codegangsta/cli\<close> makes from its help templates, its flags of floats and generic values and
the caches behind \<open>IsSet\<close>, none of which the program uses; of go-msgpack RPC, typed slices and maps, the functions of extensions and the
marshalers of a type while encoding and decoding, the decoding into values that are already there inside
a map, and the reflection caches, which the model replaces by the kinds of the fields; \<open>testproxy\<close> and the tests.
\<close>

section \<open>Every reachable server\<close>

text \<open>
  C1: in every state a server can reach without loading a file that has a \<open>null\<close> for
  the counters of a member or for a counter (\<open>Save\<close> writes none), its own replica map and member entry
  exist and nothing in the replicas is nil (so no operation panics on them), all counters are pairs of
  doubles, and the gossip queue holds at most one message per counter, each a well-formed change of the
  server's own replica.  The condition is needed: after loading a file with a \<open>null\<close> for the server's
  own counters, which is no error, every increment and every set panics.
\<close>

theorem reachable_server_ok:
  assumes "reachable name s" "NL \<notin> set name"
  shows "cfgName s \<in> dom (replicas s) \<and> cfgName s \<in> dom (members s) \<and> srv_nils s = {} \<and>
    counters_ok (replicas s) \<and> unique_keys ch_name (changes s) \<and>
    (\<forall>x\<in>set (changes s). \<exists>c. counter_ok c \<and> NL \<notin> set (ch_name (bc x)) \<and>
       Message (bc x) = change_bytes (cfgName s) (ch_name (bc x)) c) \<and>
    (\<exists>s'. loadReplicas s (Decoded [(cfgName s, None)]) = Returns s' \<and>
       (\<forall>n d. incCounter s' n d = Panics \<and> setLocal s' n d = Panics))"
proof -
  obtain s' where "loadReplicas s (Decoded [(cfgName s, None)]) = Returns s'"
    by (simp add: loadReplicas_def Let_def)
  then show ?thesis
    using server_ok_reachable[OF assms] load_null_panics[of s s']
    by (simp add: server_ok_def queue_ok_def queued_ok_def Message_def)
qed

lemma reachable_sample:
  "reachable ''a'' (notifyJoin (startServer (newServer ''a'') 0) 1 (plain_node ''b''))"
  by (rule reach_step[OF reach_start step_notifyJoin])

theorem reachable_server_ok_witness:
  "''a'' \<in> dom (replicas (notifyJoin (startServer (newServer ''a'') 0) 1 (plain_node ''b'')))"
proof -
  have "cfgName (notifyJoin (startServer (newServer ''a'') 0) 1 (plain_node ''b'')) = ''a''"
    by (simp add: notifyJoin_def startServer_def newServer_def)
  then show ?thesis
    using reachable_server_ok[OF reachable_sample] by simp
qed

text \<open>
  C5: no step of a running server (an increment, a set, a gossip message of any
  content, a state exchange with any peer, a membership event) takes a counter away or moves it
  back in the replica order, except through a NaN or a revision that wraps around.
\<close>

theorem step_moves_up:
  assumes "server_step s s'" "server_ok s" "replica_counter (replicas s) m n = Some oc"
  shows "\<exists>c. replica_counter (replicas s') m n = Some c \<and>
    (no_nan c \<and> Revision oc \<noteq> - 1 \<longrightarrow> gle (counter_abs oc) (counter_abs c))"
  using all_move_up_step[OF assms(1,2)] assms(3) by (simp add: all_move_up_def moves_up_def)

theorem step_moves_up_witness:
  "\<exists>c. replica_counter (replicas (notifyMsg srv_a (change_bytes ''b'' ''x'' (cnt 1 0 0)))) ''b'' ''x'' = Some c \<and>
    (no_nan c \<and> Revision (cnt 3 0 0) \<noteq> - 1 \<longrightarrow> gle (counter_abs (cnt 3 0 0)) (counter_abs c))"
  by (rule step_moves_up[OF step_notifyMsg server_ok_a]) (simp add: srv_a_def)

text \<open>
  As long as nothing is loaded from a file, every replica belongs to a
  member the server knows.
\<close>

theorem replicas_of_members:
  assumes "server_step s s'" "server_ok s" "dom (replicas s) \<subseteq> dom (members s)"
  shows "dom (replicas s') \<subseteq> dom (members s')"
  using replicas_known_step[OF assms(1,2)] assms(3) by (simp add: replicas_known_def)

theorem replicas_of_members_witness:
  "dom (replicas (notifyMsg srv_a (change_bytes ''b'' ''y'' (cnt 1 0 0)))) \<subseteq> {''a'', ''b''}"
proof -
  have m: "dom (members (notifyMsg srv_a (change_bytes ''b'' ''y'' (cnt 1 0 0)))) = {''a'', ''b''}"
    by (subst notifyMsg_change) (auto simp: srv_a_def)
  have "dom (replicas srv_a) \<subseteq> dom (members srv_a)"
    by (auto simp: srv_a_def)
  from replicas_of_members[OF step_notifyMsg server_ok_a this] show ?thesis
    unfolding m[symmetric] .
qed

end
